(* ===== verification/Gandr_Prelude.thy ===== *)
theory Gandr_Prelude
  imports Main "HOL-Library.Word" "HOL-Library.Monad_Syntax"
begin

text \<open>
  The vocabulary shared by every theory of the development: the C integer types as machine
  words, addresses and the null pointer, the ways in which a call may fail to return, and
  generic lemmas on lists and words.  The model is that of the 64-bit targets (amd64 and
  aarch64): \<open>size_t\<close>, \<open>uintptr_t\<close> and pointers are 64 bits wide.
\<close>

unbundle bit_operations_syntax

named_theorems unat_arith \<open>bit operations on words, read as arithmetic on natural numbers\<close>

type_synonym u8 = "8 word"
type_synonym u16 = "16 word"
type_synonym u32 = "32 word"
type_synonym u64 = "64 word"
type_synonym addr = "64 word"

abbreviation NULL :: addr where
  "NULL \<equiv> 0"

text \<open>
  A call that does not return normally: \<open>Crash\<close> is the dereference of a null pointer or a
  loop of the tree code that does not end, \<open>Panic\<close> is a call of \<open>panic\<close> (which prints and
  then loops for ever), and \<open>Fuel\<close> says that the bound on the recursion depth of the model
  was too small.
\<close>

datatype fault = Crash | Panic string | Fuel

type_synonym 'a outcome = "fault + 'a"

definition andthen :: "'a outcome \<Rightarrow> ('a \<Rightarrow> 'b outcome) \<Rightarrow> 'b outcome" where
  "andthen m f = (case m of Inl e \<Rightarrow> Inl e | Inr x \<Rightarrow> f x)"

definition orcrash :: "'a option \<Rightarrow> 'a outcome" where
  "orcrash m = (case m of None \<Rightarrow> Inl Crash | Some x \<Rightarrow> Inr x)"

lemma andthen_simps [simp]:
  "andthen (Inl e) f = Inl e"
  "andthen (Inr x) f = f x"
  by (simp_all add: andthen_def)

lemma orcrash_simps [simp]:
  "orcrash None = Inl Crash"
  "orcrash (Some x) = Inr x"
  by (simp_all add: orcrash_def)

lemma andthen_Inr [simp]: "andthen m Inr = m"
  by (cases m) simp_all

lemma andthen_eq_Inr_iff: "andthen m f = Inr y \<longleftrightarrow> (\<exists>x. m = Inr x \<and> f x = Inr y)"
  by (cases m) simp_all

section \<open>Lists\<close>

lemma distinct_split_unique:
  "as @ x # bs = cs @ x # ds \<Longrightarrow> distinct (cs @ x # ds) \<Longrightarrow> as = cs \<and> bs = ds"
  using append_Cons_eq_iff [of x as bs cs ds] by (metis distinct.simps(2) distinct_append
    disjoint_iff list.set_intros(1))

section \<open>Words\<close>

lemma unat_ucast_mod [unat_arith]: "unat (ucast (w :: 'a::len word) :: 'b::len word) = unat w mod 2 ^ LENGTH('b)"
  by (simp add: unsigned_ucast_eq take_bit_eq_mod)

lemma unat_drop_bit [unat_arith]: "unat (drop_bit n w) = unat (w :: 'a::len word) div 2 ^ n"
  by (simp only: unsigned_drop_bit_eq) (simp add: drop_bit_eq_div take_bit_nat_eq_self)

lemma unat_push_bit [unat_arith]: "unat (push_bit n w) = unat (w :: 'a::len word) * 2 ^ n mod 2 ^ LENGTH('a)"
  by (simp only: unsigned_push_bit_eq) (simp add: push_bit_eq_mult take_bit_eq_mod)

lemma unat_take_bit [unat_arith]: "unat (take_bit n w) = unat (w :: 'a::len word) mod 2 ^ n"
  by (simp only: unsigned_take_bit_eq) (simp add: take_bit_eq_mod)

lemma low_masks: "(0xF :: 'a::len word) = mask 4" "(0xFF :: 'a word) = mask 8" "(0xFFF :: 'a word) = mask 12"
  "(0xFFFF :: 'a word) = mask 16"
  by (simp_all add: mask_eq_exp_minus_1)

lemma unat_and_mask [unat_arith]:
  "unat (w AND 0xF) = unat (w :: 'a::len word) mod 16"
  "unat (w AND 0xFF) = unat w mod 256"
  "unat (w AND 0xFFF) = unat w mod 4096"
  "unat (w AND 0xFFFF) = unat w mod 65536"
  unfolding low_masks take_bit_eq_mask [symmetric] unat_take_bit by simp_all

end
