(* ===== verification/RB_Tree.thy ===== *)
theory RB_Tree
  imports Gandr_Prelude
begin

text \<open>
  The red-black tree macros of \<^verbatim>\<open>include/gd_tree.h\<close>, over an explicit store.  An element of
  a tree is the address of a C structure with an embedded \<open>RB_ENTRY\<close>; the store gives the
  \<open>RB_ENTRY\<close> of every address and the head of the tree is the field \<open>rbh_root\<close>.  Every access
  through a pointer is checked: a dereference of \<open>NULL\<close> is \<open>None\<close>.  The loops are
  \<^theory_text>\<open>partial_function (option)\<close>, so that a loop that does not end is \<open>None\<close> as well.
\<close>

section \<open>Elements, heads and field access\<close>

datatype rb_color = RB_BLACK | RB_RED

record rb_entry =
  rbe_left :: addr
  rbe_right :: addr
  rbe_parent :: addr
  rbe_color :: rb_color

record rb_tree =
  rbn :: "addr \<Rightarrow> rb_entry"
  rbh_root :: addr

definition RB_INIT :: "rb_tree \<Rightarrow> rb_tree" where
  "RB_INIT t = t\<lparr>rbh_root := NULL\<rparr>"

definition RB_EMPTY :: "rb_tree \<Rightarrow> bool" where
  "RB_EMPTY t \<longleftrightarrow> rbh_root t = NULL"

definition RB_LEFT :: "rb_tree \<Rightarrow> addr \<Rightarrow> addr option" where
  "RB_LEFT t e = (if e = NULL then None else Some (rbe_left (rbn t e)))"

definition RB_RIGHT :: "rb_tree \<Rightarrow> addr \<Rightarrow> addr option" where
  "RB_RIGHT t e = (if e = NULL then None else Some (rbe_right (rbn t e)))"

definition RB_PARENT :: "rb_tree \<Rightarrow> addr \<Rightarrow> addr option" where
  "RB_PARENT t e = (if e = NULL then None else Some (rbe_parent (rbn t e)))"

definition RB_COLOR :: "rb_tree \<Rightarrow> addr \<Rightarrow> rb_color option" where
  "RB_COLOR t e = (if e = NULL then None else Some (rbe_color (rbn t e)))"

text \<open>The same fields as assignment targets.\<close>

definition upd_rbn :: "(rb_entry \<Rightarrow> rb_entry) \<Rightarrow> rb_tree \<Rightarrow> addr \<Rightarrow> rb_tree option" where
  "upd_rbn f t e = (if e = NULL then None else Some (t\<lparr>rbn := (rbn t)(e := f (rbn t e))\<rparr>))"

definition set_left :: "rb_tree \<Rightarrow> addr \<Rightarrow> addr \<Rightarrow> rb_tree option" where
  "set_left t e v = upd_rbn (rbe_left_update (\<lambda>_. v)) t e"

definition set_right :: "rb_tree \<Rightarrow> addr \<Rightarrow> addr \<Rightarrow> rb_tree option" where
  "set_right t e v = upd_rbn (rbe_right_update (\<lambda>_. v)) t e"

definition set_parent :: "rb_tree \<Rightarrow> addr \<Rightarrow> addr \<Rightarrow> rb_tree option" where
  "set_parent t e v = upd_rbn (rbe_parent_update (\<lambda>_. v)) t e"

definition set_color :: "rb_tree \<Rightarrow> addr \<Rightarrow> rb_color \<Rightarrow> rb_tree option" where
  "set_color t e v = upd_rbn (rbe_color_update (\<lambda>_. v)) t e"

definition RB_SET :: "rb_tree \<Rightarrow> addr \<Rightarrow> addr \<Rightarrow> rb_tree option" where
  "RB_SET t elm parent = do {
     t \<leftarrow> set_parent t elm parent;
     t \<leftarrow> set_right t elm NULL;
     t \<leftarrow> set_left t elm NULL;
     set_color t elm RB_RED }"

definition RB_SET_BLACKRED :: "rb_tree \<Rightarrow> addr \<Rightarrow> addr \<Rightarrow> rb_tree option" where
  "RB_SET_BLACKRED t black red = do {
     t \<leftarrow> set_color t black RB_BLACK;
     set_color t red RB_RED }"

section \<open>Rotations\<close>

text \<open>
  Both macros assign the pivot to their argument \<open>tmp\<close>, which is the second component of the
  result.  The link from the parent of \<open>elm\<close> (or the root of the tree) is redirected by
  \<open>replace_child\<close>, an \<open>if\<close> that the two rotations and \<open>RB_REMOVE\<close> share.
\<close>

definition replace_child :: "rb_tree \<Rightarrow> addr \<Rightarrow> addr \<Rightarrow> addr \<Rightarrow> rb_tree option" where
  "replace_child t parent old new =
     (if parent \<noteq> NULL then do {
        pl \<leftarrow> RB_LEFT t parent;
        if pl = old then set_left t parent new else set_right t parent new }
      else Some (t\<lparr>rbh_root := new\<rparr>))"

definition RB_ROTATE_LEFT :: "rb_tree \<Rightarrow> addr \<Rightarrow> (rb_tree \<times> addr) option" where
  "RB_ROTATE_LEFT t elm = do {
     tmp \<leftarrow> RB_RIGHT t elm;
     tl \<leftarrow> RB_LEFT t tmp;
     t \<leftarrow> set_right t elm tl;
     t \<leftarrow> (if tl \<noteq> NULL then set_parent t tl elm else Some t);
     p \<leftarrow> RB_PARENT t elm;
     t \<leftarrow> set_parent t tmp p;
     t \<leftarrow> replace_child t p elm tmp;
     t \<leftarrow> set_left t tmp elm;
     t \<leftarrow> set_parent t elm tmp;
     Some (t, tmp) }"

definition RB_ROTATE_RIGHT :: "rb_tree \<Rightarrow> addr \<Rightarrow> (rb_tree \<times> addr) option" where
  "RB_ROTATE_RIGHT t elm = do {
     tmp \<leftarrow> RB_LEFT t elm;
     tr \<leftarrow> RB_RIGHT t tmp;
     t \<leftarrow> set_left t elm tr;
     t \<leftarrow> (if tr \<noteq> NULL then set_parent t tr elm else Some t);
     p \<leftarrow> RB_PARENT t elm;
     t \<leftarrow> set_parent t tmp p;
     t \<leftarrow> replace_child t p elm tmp;
     t \<leftarrow> set_right t tmp elm;
     t \<leftarrow> set_parent t elm tmp;
     Some (t, tmp) }"

section \<open>Insertion\<close>

text \<open>Is \<open>e\<close> a red element?  (\<open>tmp && RB_COLOR(tmp) == RB_RED\<close>)\<close>

definition is_red :: "rb_tree \<Rightarrow> addr \<Rightarrow> bool" where
  "is_red t e \<longleftrightarrow> e \<noteq> NULL \<and> rbe_color (rbn t e) = RB_RED"

partial_function (option) insert_color_loop :: "rb_tree \<Rightarrow> addr \<Rightarrow> rb_tree option" where
  "insert_color_loop t elm = do {
     parent \<leftarrow> RB_PARENT t elm;
     if \<not> is_red t parent then Some t
     else do {
       gparent \<leftarrow> RB_PARENT t parent;
       gl \<leftarrow> RB_LEFT t gparent;
       gr \<leftarrow> RB_RIGHT t gparent;
       if parent = gl then
         (if is_red t gr then do {
            t \<leftarrow> set_color t gr RB_BLACK;
            t \<leftarrow> RB_SET_BLACKRED t parent gparent;
            insert_color_loop t gparent }
          else do {
            pr \<leftarrow> RB_RIGHT t parent;
            (t, parent, elm) \<leftarrow>
              (if pr = elm then do {
                 (t, tmp) \<leftarrow> RB_ROTATE_LEFT t parent;
                 Some (t, elm, parent) }
               else Some (t, parent, elm));
            t \<leftarrow> RB_SET_BLACKRED t parent gparent;
            (t, tmp) \<leftarrow> RB_ROTATE_RIGHT t gparent;
            insert_color_loop t elm })
       else
         (if is_red t gl then do {
            t \<leftarrow> set_color t gl RB_BLACK;
            t \<leftarrow> RB_SET_BLACKRED t parent gparent;
            insert_color_loop t gparent }
          else do {
            pl \<leftarrow> RB_LEFT t parent;
            (t, parent, elm) \<leftarrow>
              (if pl = elm then do {
                 (t, tmp) \<leftarrow> RB_ROTATE_RIGHT t parent;
                 Some (t, elm, parent) }
               else Some (t, parent, elm));
            t \<leftarrow> RB_SET_BLACKRED t parent gparent;
            (t, tmp) \<leftarrow> RB_ROTATE_LEFT t gparent;
            insert_color_loop t elm }) } }"

definition RB_INSERT_COLOR :: "rb_tree \<Rightarrow> addr \<Rightarrow> rb_tree option" where
  "RB_INSERT_COLOR t elm = do {
     t \<leftarrow> insert_color_loop t elm;
     set_color t (rbh_root t) RB_BLACK }"

text \<open>
  The search loop of \<open>RB_INSERT\<close>: the result is \<open>Inl tmp\<close> for an element with an equal key and
  otherwise \<open>Inr (parent, cres)\<close>, where the new element is to be hung.
\<close>

partial_function (option) insert_search ::
  "(addr \<Rightarrow> addr \<Rightarrow> int) \<Rightarrow> rb_tree \<Rightarrow> addr \<Rightarrow> addr \<Rightarrow> addr \<Rightarrow> int \<Rightarrow> (addr + addr \<times> int) option" where
  "insert_search cmp t elm tmp parent cres =
     (if tmp = NULL then Some (Inr (parent, cres))
      else (let parent = tmp; cres = cmp elm parent in
        if cres < 0 then do {
          l \<leftarrow> RB_LEFT t tmp; insert_search cmp t elm l parent cres }
        else if cres > 0 then do {
          r \<leftarrow> RB_RIGHT t tmp; insert_search cmp t elm r parent cres }
        else Some (Inl tmp)))"

text \<open>The result is the new tree and the returned pointer: \<open>NULL\<close>, or the element in the way.\<close>

definition RB_INSERT ::
  "(addr \<Rightarrow> addr \<Rightarrow> int) \<Rightarrow> rb_tree \<Rightarrow> addr \<Rightarrow> (rb_tree \<times> addr) option" where
  "RB_INSERT cmp t elm = do {
     r \<leftarrow> insert_search cmp t elm (rbh_root t) NULL 0;
     case r of
       Inl tmp \<Rightarrow> Some (t, tmp)
     | Inr (parent, cres) \<Rightarrow> do {
         t \<leftarrow> RB_SET t elm parent;
         t \<leftarrow> (if parent \<noteq> NULL
               then (if cres < 0 then set_left t parent elm else set_right t parent elm)
               else Some (t\<lparr>rbh_root := elm\<rparr>));
         t \<leftarrow> RB_INSERT_COLOR t elm;
         Some (t, NULL) } }"

section \<open>Removal\<close>

text \<open>\<open>e == NULL || RB_COLOR(e) == RB_BLACK\<close>\<close>

definition is_black :: "rb_tree \<Rightarrow> addr \<Rightarrow> bool" where
  "is_black t e \<longleftrightarrow> e = NULL \<or> rbe_color (rbn t e) = RB_BLACK"

text \<open>
  The body of the loop of \<open>RB_REMOVE_COLOR\<close>, for an \<open>elm\<close> that is the left child of \<open>parent\<close> and,
  mirrored, for a right child.  First a red sibling is rotated away; then the black sibling \<open>tmp\<close>
  is either coloured red (and the loop goes on one level higher) or used for the final rotation.
  The result is the tree, the new \<open>parent\<close> and \<open>elm\<close>, and whether the loop is left by \<open>break\<close>.
\<close>

definition remove_red_left :: "rb_tree \<Rightarrow> addr \<Rightarrow> (rb_tree \<times> addr) option" where
  "remove_red_left t parent = do {
     tmp \<leftarrow> RB_RIGHT t parent;
     c \<leftarrow> RB_COLOR t tmp;
     if c = RB_RED then do {
       t \<leftarrow> RB_SET_BLACKRED t tmp parent;
       (t, tmp) \<leftarrow> RB_ROTATE_LEFT t parent;
       tmp \<leftarrow> RB_RIGHT t parent;
       Some (t, tmp) }
     else Some (t, tmp) }"

definition remove_inner_left :: "rb_tree \<Rightarrow> addr \<Rightarrow> addr \<Rightarrow> (rb_tree \<times> addr) option" where
  "remove_inner_left t parent tmp = do {
     oleft \<leftarrow> RB_LEFT t tmp;
     t \<leftarrow> (if oleft \<noteq> NULL then set_color t oleft RB_BLACK else Some t);
     t \<leftarrow> set_color t tmp RB_RED;
     (t, oleft) \<leftarrow> RB_ROTATE_RIGHT t tmp;
     tmp \<leftarrow> RB_RIGHT t parent;
     Some (t, tmp) }"

definition remove_final_left :: "rb_tree \<Rightarrow> addr \<Rightarrow> addr \<Rightarrow> rb_tree option" where
  "remove_final_left t parent tmp = do {
     pc \<leftarrow> RB_COLOR t parent;
     t \<leftarrow> set_color t tmp pc;
     t \<leftarrow> set_color t parent RB_BLACK;
     n \<leftarrow> RB_RIGHT t tmp;
     t \<leftarrow> (if n \<noteq> NULL then set_color t n RB_BLACK else Some t);
     (t, tmp) \<leftarrow> RB_ROTATE_LEFT t parent;
     Some t }"

definition remove_sibling_left ::
  "rb_tree \<Rightarrow> addr \<Rightarrow> addr \<Rightarrow> (rb_tree \<times> addr \<times> addr \<times> bool) option" where
  "remove_sibling_left t parent tmp = do {
     l \<leftarrow> RB_LEFT t tmp;
     r \<leftarrow> RB_RIGHT t tmp;
     if is_black t l \<and> is_black t r then do {
       t \<leftarrow> set_color t tmp RB_RED;
       p \<leftarrow> RB_PARENT t parent;
       Some (t, p, parent, False) }
     else do {
       (t, tmp) \<leftarrow> (if is_black t r then remove_inner_left t parent tmp else Some (t, tmp));
       t \<leftarrow> remove_final_left t parent tmp;
       Some (t, parent, rbh_root t, True) } }"

definition remove_red_right :: "rb_tree \<Rightarrow> addr \<Rightarrow> (rb_tree \<times> addr) option" where
  "remove_red_right t parent = do {
     tmp \<leftarrow> RB_LEFT t parent;
     c \<leftarrow> RB_COLOR t tmp;
     if c = RB_RED then do {
       t \<leftarrow> RB_SET_BLACKRED t tmp parent;
       (t, tmp) \<leftarrow> RB_ROTATE_RIGHT t parent;
       tmp \<leftarrow> RB_LEFT t parent;
       Some (t, tmp) }
     else Some (t, tmp) }"

definition remove_inner_right :: "rb_tree \<Rightarrow> addr \<Rightarrow> addr \<Rightarrow> (rb_tree \<times> addr) option" where
  "remove_inner_right t parent tmp = do {
     oright \<leftarrow> RB_RIGHT t tmp;
     t \<leftarrow> (if oright \<noteq> NULL then set_color t oright RB_BLACK else Some t);
     t \<leftarrow> set_color t tmp RB_RED;
     (t, oright) \<leftarrow> RB_ROTATE_LEFT t tmp;
     tmp \<leftarrow> RB_LEFT t parent;
     Some (t, tmp) }"

definition remove_final_right :: "rb_tree \<Rightarrow> addr \<Rightarrow> addr \<Rightarrow> rb_tree option" where
  "remove_final_right t parent tmp = do {
     pc \<leftarrow> RB_COLOR t parent;
     t \<leftarrow> set_color t tmp pc;
     t \<leftarrow> set_color t parent RB_BLACK;
     n \<leftarrow> RB_LEFT t tmp;
     t \<leftarrow> (if n \<noteq> NULL then set_color t n RB_BLACK else Some t);
     (t, tmp) \<leftarrow> RB_ROTATE_RIGHT t parent;
     Some t }"

definition remove_sibling_right ::
  "rb_tree \<Rightarrow> addr \<Rightarrow> addr \<Rightarrow> (rb_tree \<times> addr \<times> addr \<times> bool) option" where
  "remove_sibling_right t parent tmp = do {
     l \<leftarrow> RB_LEFT t tmp;
     r \<leftarrow> RB_RIGHT t tmp;
     if is_black t l \<and> is_black t r then do {
       t \<leftarrow> set_color t tmp RB_RED;
       p \<leftarrow> RB_PARENT t parent;
       Some (t, p, parent, False) }
     else do {
       (t, tmp) \<leftarrow> (if is_black t l then remove_inner_right t parent tmp else Some (t, tmp));
       t \<leftarrow> remove_final_right t parent tmp;
       Some (t, parent, rbh_root t, True) } }"

text \<open>The loop; the result is the tree and the value of \<open>elm\<close> when the loop is left.\<close>

partial_function (option) remove_color_loop ::
  "rb_tree \<Rightarrow> addr \<Rightarrow> addr \<Rightarrow> (rb_tree \<times> addr) option" where
  "remove_color_loop t parent elm =
     (if is_black t elm \<and> elm \<noteq> rbh_root t then do {
        pl \<leftarrow> RB_LEFT t parent;
        (t, parent', elm', break) \<leftarrow>
          (if pl = elm then do {
             (t, tmp) \<leftarrow> remove_red_left t parent;
             remove_sibling_left t parent tmp }
           else do {
             (t, tmp) \<leftarrow> remove_red_right t parent;
             remove_sibling_right t parent tmp });
        if break then Some (t, elm') else remove_color_loop t parent' elm' }
      else Some (t, elm))"

definition RB_REMOVE_COLOR :: "rb_tree \<Rightarrow> addr \<Rightarrow> addr \<Rightarrow> rb_tree option" where
  "RB_REMOVE_COLOR t parent elm = do {
     (t, elm) \<leftarrow> remove_color_loop t parent elm;
     if elm \<noteq> NULL then set_color t elm RB_BLACK else Some t }"

text \<open>\<open>while (RB_LEFT(elm)) elm = RB_LEFT(elm)\<close> and its mirror image.\<close>

partial_function (option) leftmost :: "rb_tree \<Rightarrow> addr \<Rightarrow> addr option" where
  "leftmost t elm = do {
     l \<leftarrow> RB_LEFT t elm;
     if l \<noteq> NULL then leftmost t l else Some elm }"

partial_function (option) rightmost :: "rb_tree \<Rightarrow> addr \<Rightarrow> addr option" where
  "rightmost t elm = do {
     r \<leftarrow> RB_RIGHT t elm;
     if r \<noteq> NULL then rightmost t r else Some elm }"

text \<open>
  \<open>RB_REMOVE\<close>: unlinking an element with at most one child, and otherwise moving the successor
  of \<open>old\<close> into its place.  Both return the values of \<open>parent\<close>, \<open>child\<close> and \<open>color\<close> at the label
  \<open>color:\<close>.
\<close>

definition remove_unlink ::
  "rb_tree \<Rightarrow> addr \<Rightarrow> addr \<Rightarrow> (rb_tree \<times> addr \<times> addr \<times> rb_color) option" where
  "remove_unlink t elm child = do {
     parent \<leftarrow> RB_PARENT t elm;
     color \<leftarrow> RB_COLOR t elm;
     t \<leftarrow> (if child \<noteq> NULL then set_parent t child parent else Some t);
     t \<leftarrow> replace_child t parent elm child;
     Some (t, parent, child, color) }"

definition remove_splice ::
  "rb_tree \<Rightarrow> addr \<Rightarrow> (rb_tree \<times> addr \<times> addr \<times> rb_color) option" where
  "remove_splice t old = do {
     r \<leftarrow> RB_RIGHT t old;
     elm \<leftarrow> leftmost t r;
     child \<leftarrow> RB_RIGHT t elm;
     parent \<leftarrow> RB_PARENT t elm;
     color \<leftarrow> RB_COLOR t elm;
     t \<leftarrow> (if child \<noteq> NULL then set_parent t child parent else Some t);
     t \<leftarrow> replace_child t parent elm child;
     ep \<leftarrow> RB_PARENT t elm;
     let parent = (if ep = old then elm else parent);
     t \<leftarrow> upd_rbn (\<lambda>_. rbn t old) t elm;
     op \<leftarrow> RB_PARENT t old;
     t \<leftarrow> replace_child t op old elm;
     l \<leftarrow> RB_LEFT t old;
     t \<leftarrow> set_parent t l elm;
     r \<leftarrow> RB_RIGHT t old;
     t \<leftarrow> (if r \<noteq> NULL then set_parent t r elm else Some t);
     Some (t, parent, child, color) }"

definition RB_REMOVE :: "rb_tree \<Rightarrow> addr \<Rightarrow> (rb_tree \<times> addr) option" where
  "RB_REMOVE t old = do {
     l \<leftarrow> RB_LEFT t old;
     r \<leftarrow> RB_RIGHT t old;
     (t, parent, child, color) \<leftarrow>
       (if l = NULL then remove_unlink t old r
        else if r = NULL then remove_unlink t old l
        else remove_splice t old);
     t \<leftarrow> (if color = RB_BLACK then RB_REMOVE_COLOR t parent child else Some t);
     Some (t, old) }"

section \<open>Search and traversal\<close>

partial_function (option) find_from ::
  "(addr \<Rightarrow> int) \<Rightarrow> rb_tree \<Rightarrow> addr \<Rightarrow> addr option" where
  "find_from cmp t tmp =
     (if tmp = NULL then Some NULL
      else (let cres = cmp tmp in
        if cres < 0 then do { l \<leftarrow> RB_LEFT t tmp; find_from cmp t l }
        else if cres > 0 then do { r \<leftarrow> RB_RIGHT t tmp; find_from cmp t r }
        else Some tmp))"

text \<open>
  The search key is an element \<open>elm\<close> that need not be in the tree; the argument \<open>cmp\<close> here is
  \<open>cmp(elm, \<cdot>)\<close>.
\<close>

definition RB_FIND :: "(addr \<Rightarrow> int) \<Rightarrow> rb_tree \<Rightarrow> addr option" where
  "RB_FIND cmp t = find_from cmp t (rbh_root t)"

partial_function (option) nfind_from ::
  "(addr \<Rightarrow> int) \<Rightarrow> rb_tree \<Rightarrow> addr \<Rightarrow> addr \<Rightarrow> addr option" where
  "nfind_from cmp t tmp res =
     (if tmp = NULL then Some res
      else (let cres = cmp tmp in
        if cres < 0 then do { l \<leftarrow> RB_LEFT t tmp; nfind_from cmp t l tmp }
        else if cres > 0 then do { r \<leftarrow> RB_RIGHT t tmp; nfind_from cmp t r res }
        else Some tmp))"

definition RB_NFIND :: "(addr \<Rightarrow> int) \<Rightarrow> rb_tree \<Rightarrow> addr option" where
  "RB_NFIND cmp t = nfind_from cmp t (rbh_root t) NULL"

text \<open>The inner loops of \<open>RB_NEXT\<close> and \<open>RB_PREV\<close> that climb towards the root.\<close>

partial_function (option) climb_right :: "rb_tree \<Rightarrow> addr \<Rightarrow> addr option" where
  "climb_right t elm = do {
     p \<leftarrow> RB_PARENT t elm;
     if p = NULL then Some NULL
     else do {
       pr \<leftarrow> RB_RIGHT t p;
       if elm = pr then climb_right t p else Some p } }"

partial_function (option) climb_left :: "rb_tree \<Rightarrow> addr \<Rightarrow> addr option" where
  "climb_left t elm = do {
     p \<leftarrow> RB_PARENT t elm;
     if p = NULL then Some NULL
     else do {
       pl \<leftarrow> RB_LEFT t p;
       if elm = pl then climb_left t p else Some p } }"

definition RB_NEXT :: "rb_tree \<Rightarrow> addr \<Rightarrow> addr option" where
  "RB_NEXT t elm = do {
     r \<leftarrow> RB_RIGHT t elm;
     if r \<noteq> NULL then leftmost t r
     else do {
       p \<leftarrow> RB_PARENT t elm;
       pl \<leftarrow> (if p \<noteq> NULL then RB_LEFT t p else Some NULL);
       if p \<noteq> NULL \<and> elm = pl then Some p else climb_right t elm } }"

definition RB_PREV :: "rb_tree \<Rightarrow> addr \<Rightarrow> addr option" where
  "RB_PREV t elm = do {
     l \<leftarrow> RB_LEFT t elm;
     if l \<noteq> NULL then rightmost t l
     else do {
       p \<leftarrow> RB_PARENT t elm;
       pr \<leftarrow> (if p \<noteq> NULL then RB_RIGHT t p else Some NULL);
       if p \<noteq> NULL \<and> elm = pr then Some p else climb_left t elm } }"

partial_function (option) minmax_from :: "rb_tree \<Rightarrow> int \<Rightarrow> addr \<Rightarrow> addr \<Rightarrow> addr option" where
  "minmax_from t val tmp parent =
     (if tmp = NULL then Some parent
      else do {
        c \<leftarrow> (if val < 0 then RB_LEFT t tmp else RB_RIGHT t tmp);
        minmax_from t val c tmp })"

definition RB_MINMAX :: "rb_tree \<Rightarrow> int \<Rightarrow> addr option" where
  "RB_MINMAX t val = minmax_from t val (rbh_root t) NULL"

definition RB_MIN :: "rb_tree \<Rightarrow> addr option" where
  "RB_MIN t = RB_MINMAX t (-1)"

definition RB_MAX :: "rb_tree \<Rightarrow> addr option" where
  "RB_MAX t = RB_MINMAX t 1"

end
