(* ===== verification/RB_Shape.thy ===== *)
theory RB_Shape
  imports RB_Tree
begin

text \<open>
  The shape of a red-black tree in the store: a functional tree \<open>rbt\<close> of addresses, the
  relation \<open>tree_at\<close> between a store and such a tree, and one-hole contexts (lists of frames,
  innermost first), which describe the position of a pointer into the middle of a tree.
\<close>

section \<open>Functional trees and contexts\<close>

datatype rbt = Lf | Nd rb_color rbt addr rbt

abbreviation Rd :: "rbt \<Rightarrow> addr \<Rightarrow> rbt \<Rightarrow> rbt" where
  "Rd \<equiv> Nd RB_RED"

abbreviation Bk :: "rbt \<Rightarrow> addr \<Rightarrow> rbt \<Rightarrow> rbt" where
  "Bk \<equiv> Nd RB_BLACK"

fun pt :: "rbt \<Rightarrow> addr" where
  "pt Lf = NULL"
| "pt (Nd c l x r) = x"

fun inorder :: "rbt \<Rightarrow> addr list" where
  "inorder Lf = []"
| "inorder (Nd c l x r) = inorder l @ x # inorder r"

fun height :: "rbt \<Rightarrow> nat" where
  "height Lf = 0"
| "height (Nd c l x r) = Suc (max (height l) (height r))"

datatype frame = LFr rb_color addr rbt | RFr rb_color rbt addr

fun plug :: "rbt \<Rightarrow> frame list \<Rightarrow> rbt" where
  "plug t [] = t"
| "plug t (LFr c x r # fs) = plug (Nd c t x r) fs"
| "plug t (RFr c l x # fs) = plug (Nd c l x t) fs"

fun before :: "frame list \<Rightarrow> addr list" where
  "before [] = []"
| "before (LFr c x r # fs) = before fs"
| "before (RFr c l x # fs) = before fs @ inorder l @ [x]"

fun after :: "frame list \<Rightarrow> addr list" where
  "after [] = []"
| "after (LFr c x r # fs) = x # inorder r @ after fs"
| "after (RFr c l x # fs) = after fs"

fun cpar :: "frame list \<Rightarrow> addr" where
  "cpar [] = NULL"
| "cpar (LFr c x r # fs) = x"
| "cpar (RFr c l x # fs) = x"

lemma inorder_plug [simp]: "inorder (plug t fs) = before fs @ inorder t @ after fs"
  by (induction t fs rule: plug.induct) simp_all

lemma plug_append [simp]: "plug t (fs @ gs) = plug (plug t fs) gs"
  by (induction t fs rule: plug.induct) simp_all

lemma before_append [simp]: "before (fs @ gs) = before gs @ before fs"
  by (induction fs rule: before.induct) simp_all

lemma after_append [simp]: "after (fs @ gs) = after fs @ after gs"
  by (induction fs rule: after.induct) simp_all

lemma cpar_append: "cpar (fs @ gs) = (if fs = [] then cpar gs else cpar fs)"
  by (induction fs rule: cpar.induct) simp_all

lemma cpar_in: "fs \<noteq> [] \<Longrightarrow> cpar fs \<in> set (before fs) \<union> set (after fs)"
  by (induction fs rule: cpar.induct) simp_all

lemma pt_plug_indep: "fs \<noteq> [] \<Longrightarrow> pt (plug t fs) = pt (plug u fs)"
proof (induction t fs arbitrary: u rule: plug.induct)
  case (2 t c x r fs)
  then show ?case by (cases fs) auto
next
  case (3 t c l x fs)
  then show ?case by (cases fs) auto
qed simp

lemma pt_plug_cong: "pt t = pt u \<Longrightarrow> pt (plug t fs) = pt (plug u fs)"
  by (cases "fs = []") (auto intro: pt_plug_indep)

text \<open>Every element of a tree sits in the hole of some context.\<close>

lemma focus:
  assumes "x \<in> set (inorder t)"
  obtains c l r fs where "t = plug (Nd c l x r) fs"
  using assms
proof (induction t arbitrary: thesis)
  case (Nd c l y r)
  from Nd.prems(2) consider "x = y" | "x \<in> set (inorder l)" | "x \<in> set (inorder r)"
    by auto
  then show thesis
  proof cases
    case 1
    then show thesis using Nd.prems(1) [of c l r "[]"] by simp
  next
    case 2
    then obtain c' l' r' fs where "l = plug (Nd c' l' x r') fs" by (rule Nd.IH(1) [rotated])
    then show thesis using Nd.prems(1) [of c' l' r' "fs @ [LFr c y r]"] by simp
  next
    case 3
    then obtain c' l' r' fs where "r = plug (Nd c' l' x r') fs" by (rule Nd.IH(2) [rotated])
    then show thesis using Nd.prems(1) [of c' l' r' "fs @ [RFr c l y]"] by simp
  qed
qed simp

section \<open>Representation in the store\<close>

fun rep :: "(addr \<Rightarrow> rb_entry) \<Rightarrow> addr \<Rightarrow> rbt \<Rightarrow> bool" where
  "rep h par Lf \<longleftrightarrow> True"
| "rep h par (Nd c l x r) \<longleftrightarrow> x \<noteq> NULL \<and>
     h x = \<lparr>rbe_left = pt l, rbe_right = pt r, rbe_parent = par, rbe_color = c\<rparr> \<and>
     rep h x l \<and> rep h x r"

fun repc :: "(addr \<Rightarrow> rb_entry) \<Rightarrow> addr \<Rightarrow> frame list \<Rightarrow> bool" where
  "repc h q [] \<longleftrightarrow> True"
| "repc h q (LFr c x r # fs) \<longleftrightarrow> x \<noteq> NULL \<and>
     h x = \<lparr>rbe_left = q, rbe_right = pt r, rbe_parent = cpar fs, rbe_color = c\<rparr> \<and>
     rep h x r \<and> repc h x fs"
| "repc h q (RFr c l x # fs) \<longleftrightarrow> x \<noteq> NULL \<and>
     h x = \<lparr>rbe_left = pt l, rbe_right = q, rbe_parent = cpar fs, rbe_color = c\<rparr> \<and>
     rep h x l \<and> repc h x fs"

definition tree_at :: "rb_tree \<Rightarrow> rbt \<Rightarrow> bool" where
  "tree_at t T \<longleftrightarrow> rep (rbn t) NULL T \<and> distinct (inorder T) \<and> rbh_root t = pt T"

lemma rep_plug: "rep h NULL (plug t fs) \<longleftrightarrow> rep h (cpar fs) t \<and> repc h (pt t) fs"
  by (induction t fs rule: plug.induct) auto

lemma rep_upd [simp]: "x \<notin> set (inorder t) \<Longrightarrow> rep (h(x := v)) p t = rep h p t"
  by (induction t arbitrary: p) auto

lemma repc_upd [simp]:
  "x \<notin> set (before fs) \<Longrightarrow> x \<notin> set (after fs) \<Longrightarrow> repc (h(x := v)) q fs = repc h q fs"
  by (induction fs arbitrary: q rule: before.induct) auto

lemma rep_not_null: "rep h p t \<Longrightarrow> NULL \<notin> set (inorder t)"
  by (induction t arbitrary: p) auto

lemma pt_null_iff: "rep h p t \<Longrightarrow> pt t = NULL \<longleftrightarrow> t = Lf"
  by (cases t) auto

lemma pt_in [simp]: "pt t \<in> set (inorder t) \<longleftrightarrow> t \<noteq> Lf"
  by (cases t) auto

lemma pt_eqD: "pt t = x \<Longrightarrow> x \<noteq> NULL \<Longrightarrow> x \<in> set (inorder t)"
  by (cases t) auto

lemmas field_defs =
  RB_LEFT_def RB_RIGHT_def RB_PARENT_def RB_COLOR_def upd_rbn_def set_left_def set_right_def
  set_parent_def set_color_def replace_child_def RB_SET_def RB_SET_BLACKRED_def

text \<open>What a step on the store does: the tree after it, and the addresses it may have written.\<close>

definition tree_step :: "addr set \<Rightarrow> rb_tree \<Rightarrow> rb_tree \<Rightarrow> rbt \<Rightarrow> bool" where
  "tree_step S t t' T' \<longleftrightarrow> tree_at t' T' \<and> (\<forall>z. z \<notin> S \<longrightarrow> rbn t' z = rbn t z)"

lemma tree_step_trans:
  "tree_step S t t' T' \<Longrightarrow> tree_step S t' t'' T'' \<Longrightarrow> tree_step S t t'' T''"
  by (simp add: tree_step_def)

lemma tree_step_mono:
  "tree_step S t t' T' \<Longrightarrow> S \<subseteq> S' \<Longrightarrow> tree_step S' t t' T'"
  by (auto simp: tree_step_def)

lemma tree_stepD: "tree_step S t t' T' \<Longrightarrow> tree_at t' T'"
  by (simp add: tree_step_def)

lemma rotate_left_step:
  assumes "tree_at t (plug (Nd c a x (Nd d b y e)) fs)"
  shows "\<exists>t'. RB_ROTATE_LEFT t x = Some (t', y) \<and>
    tree_step (set (inorder (plug (Nd c a x (Nd d b y e)) fs))) t t'
      (plug (Nd d (Nd c a x b) y e) fs)"
proof (cases fs)
  case Nil
  then show ?thesis
    using assms by (cases b) (auto simp: tree_at_def tree_step_def RB_ROTATE_LEFT_def field_defs)
next
  case (Cons f fs')
  have root: "pt (plug (Nd c a x (Nd d b y e)) fs) = pt (plug (Nd d (Nd c a x b) y e) fs)"
    using Cons by (intro pt_plug_indep) simp
  show ?thesis
    using assms root Cons
    by (cases b; cases f)
      (clarsimp simp: tree_at_def tree_step_def RB_ROTATE_LEFT_def field_defs rep_plug)+
qed

lemma rotate_right_step:
  assumes "tree_at t (plug (Nd c (Nd d e y b) x a) fs)"
  shows "\<exists>t'. RB_ROTATE_RIGHT t x = Some (t', y) \<and>
    tree_step (set (inorder (plug (Nd c (Nd d e y b) x a) fs))) t t'
      (plug (Nd d e y (Nd c b x a)) fs)"
proof (cases fs)
  case Nil
  then show ?thesis
    using assms by (cases b) (auto simp: tree_at_def tree_step_def RB_ROTATE_RIGHT_def field_defs)
next
  case (Cons f fs')
  have root: "pt (plug (Nd c (Nd d e y b) x a) fs) = pt (plug (Nd d e y (Nd c b x a)) fs)"
    using Cons by (intro pt_plug_indep) simp
  show ?thesis
    using assms root Cons
    by (cases b; cases f)
      (clarsimp simp: tree_at_def tree_step_def RB_ROTATE_RIGHT_def field_defs rep_plug)+
qed

end
