(* ===== verification/RB_Insert.thy ===== *)
theory RB_Insert
  imports RB_Shape
begin

text \<open>
  Insertion: the repair loop of \<open>RB_INSERT_COLOR\<close> as a function on contexts, its refinement
  by the loop on the store, and the red-black invariant of the result.
\<close>

section \<open>Single steps\<close>

lemma node_at:
  assumes "tree_at t (plug (Nd c l x r) fs)"
  shows "x \<noteq> NULL"
    and "rbn t x = \<lparr>rbe_left = pt l, rbe_right = pt r, rbe_parent = cpar fs, rbe_color = c\<rparr>"
  using assms by (auto simp: tree_at_def rep_plug)

lemma recolor_step:
  assumes "tree_at t (plug (Nd c l x r) fs)"
  shows "\<exists>t'. set_color t x d = Some t' \<and>
    tree_step (set (inorder (plug (Nd c l x r) fs))) t t' (plug (Nd d l x r) fs)"
proof -
  have "pt (plug (Nd c l x r) fs) = pt (plug (Nd d l x r) fs)"
    by (rule pt_plug_cong) simp
  then show ?thesis
    using assms by (auto simp: tree_at_def tree_step_def rep_plug field_defs)
qed

text \<open>Two steps that keep the set of elements compose.\<close>

lemma step_then:
  assumes "\<exists>t'. m t = Some t' \<and> tree_step S t t' T'"
    and "\<And>t'. tree_at t' T' \<Longrightarrow> \<exists>t''. k t' = Some t'' \<and> tree_step S t' t'' T''"
  shows "\<exists>t''. m t \<bind> k = Some t'' \<and> tree_step S t t'' T''"
proof -
  from assms(1) obtain t' where t': "m t = Some t'" "tree_step S t t' T'" by blast
  with assms(2) [of t'] obtain t'' where "k t' = Some t''" "tree_step S t' t'' T''"
    by (auto dest: tree_stepD)
  with t' show ?thesis by (auto intro: tree_step_trans)
qed

lemma blackred_step:
  assumes "tree_at t (plug (Nd c (Nd d a p b) g u) fs)"
  shows "\<exists>t'. RB_SET_BLACKRED t p g = Some t' \<and>
    tree_step (set (inorder (plug (Nd c (Nd d a p b) g u) fs))) t t'
      (plug (Rd (Bk a p b) g u) fs)"
  unfolding RB_SET_BLACKRED_def
proof (rule step_then)
  show "\<exists>t'. set_color t p RB_BLACK = Some t' \<and>
    tree_step (set (inorder (plug (Nd c (Nd d a p b) g u) fs))) t t'
      (plug (Nd c (Bk a p b) g u) fs)"
    using recolor_step [of t d a p b "LFr c g u # fs" RB_BLACK] assms by simp
next
  fix t'
  assume "tree_at t' (plug (Nd c (Bk a p b) g u) fs)"
  from recolor_step [OF this, of RB_RED]
  show "\<exists>t''. set_color t' g RB_RED = Some t'' \<and>
    tree_step (set (inorder (plug (Nd c (Nd d a p b) g u) fs))) t' t''
      (plug (Rd (Bk a p b) g u) fs)"
    by simp
qed

lemma blackred_step':
  assumes "tree_at t (plug (Nd c u g (Nd d a p b)) fs)"
  shows "\<exists>t'. RB_SET_BLACKRED t p g = Some t' \<and>
    tree_step (set (inorder (plug (Nd c u g (Nd d a p b)) fs))) t t'
      (plug (Rd u g (Bk a p b)) fs)"
  unfolding RB_SET_BLACKRED_def
proof (rule step_then)
  show "\<exists>t'. set_color t p RB_BLACK = Some t' \<and>
    tree_step (set (inorder (plug (Nd c u g (Nd d a p b)) fs))) t t'
      (plug (Nd c u g (Bk a p b)) fs)"
    using recolor_step [of t d a p b "RFr c u g # fs" RB_BLACK] assms by simp
next
  fix t'
  assume "tree_at t' (plug (Nd c u g (Bk a p b)) fs)"
  from recolor_step [OF this, of RB_RED]
  show "\<exists>t''. set_color t' g RB_RED = Some t'' \<and>
    tree_step (set (inorder (plug (Nd c u g (Nd d a p b)) fs))) t' t''
      (plug (Rd u g (Bk a p b)) fs)"
    by simp
qed

section \<open>The repair loop\<close>

text \<open>The focus is the red element \<open>elm\<close> of the loop; the four cases are its grandparents.\<close>

fun ins_fix :: "rbt \<Rightarrow> frame list \<Rightarrow> rbt" where
  "ins_fix t (LFr RB_RED p c # LFr d g u # fs) =
     (case u of Nd RB_RED ul x ur \<Rightarrow> ins_fix (Rd (Bk t p c) g (Bk ul x ur)) fs
      | _ \<Rightarrow> plug (Bk t p (Rd c g u)) fs)"
| "ins_fix (Nd k a e b) (RFr RB_RED l p # LFr d g u # fs) =
     (case u of Nd RB_RED ul x ur \<Rightarrow> ins_fix (Rd (Bk l p (Nd k a e b)) g (Bk ul x ur)) fs
      | _ \<Rightarrow> plug (Bk (Rd l p a) e (Rd b g u)) fs)"
| "ins_fix t (RFr RB_RED l p # RFr d u g # fs) =
     (case u of Nd RB_RED ul x ur \<Rightarrow> ins_fix (Rd (Bk ul x ur) g (Bk l p t)) fs
      | _ \<Rightarrow> plug (Bk (Rd u g l) p t) fs)"
| "ins_fix (Nd k a e b) (LFr RB_RED p c # RFr d u g # fs) =
     (case u of Nd RB_RED ul x ur \<Rightarrow> ins_fix (Rd (Bk ul x ur) g (Bk (Nd k a e b) p c)) fs
      | _ \<Rightarrow> plug (Bk (Rd u g a) e (Rd b p c)) fs)"
| "ins_fix t fs = plug t fs"

lemma inorder_ins_fix [simp]: "inorder (ins_fix t fs) = before fs @ inorder t @ after fs"
  by (induction t fs rule: ins_fix.induct) (auto split: rbt.splits rb_color.splits)

fun fcolor :: "frame \<Rightarrow> rb_color" where
  "fcolor (LFr c x r) = c"
| "fcolor (RFr c l x) = c"

text \<open>The root, if it is in the context, is black.\<close>

definition top_black :: "frame list \<Rightarrow> bool" where
  "top_black fs \<longleftrightarrow> fs = [] \<or> fcolor (last fs) = RB_BLACK"

lemma top_black_simps [simp]:
  "top_black []"
  "top_black [f] \<longleftrightarrow> fcolor f = RB_BLACK"
  "top_black (f # g # fs) \<longleftrightarrow> top_black (g # fs)"
  by (simp_all add: top_black_def)

lemma loop_stops:
  assumes "tree_at t (plug (Nd c a e b) fs)" and "fs = [] \<or> fcolor (hd fs) = RB_BLACK"
  shows "insert_color_loop t e = Some t"
proof -
  have "\<not> is_red t (cpar fs)"
  proof (cases fs)
    case (Cons f fs')
    with assms show ?thesis
      by (cases f) (auto simp: is_red_def tree_at_def rep_plug)
  qed (simp add: is_red_def)
  with node_at [OF assms(1)] show ?thesis
    by (subst insert_color_loop.simps) (simp add: RB_PARENT_def)
qed

text \<open>The two uncles of the loop: red ones are recoloured, black ones lead to rotations.\<close>

lemma red_uncle_L:
  assumes "tree_at t (plug (Nd d (Rd a p b) g (Rd ul u ur)) fs)"
  shows "\<exists>t'. (set_color t u RB_BLACK \<bind> (\<lambda>t. RB_SET_BLACKRED t p g)) = Some t' \<and>
    tree_step (set (inorder (plug (Nd d (Rd a p b) g (Rd ul u ur)) fs))) t t'
      (plug (Rd (Bk a p b) g (Bk ul u ur)) fs)"
proof (rule step_then)
  show "\<exists>t'. set_color t u RB_BLACK = Some t' \<and>
    tree_step (set (inorder (plug (Nd d (Rd a p b) g (Rd ul u ur)) fs))) t t'
      (plug (Nd d (Rd a p b) g (Bk ul u ur)) fs)"
    using recolor_step [of t RB_RED ul u ur "RFr d (Rd a p b) g # fs" RB_BLACK] assms by simp
qed (use blackred_step in fastforce)

lemma red_uncle_R:
  assumes "tree_at t (plug (Nd d (Rd ul u ur) g (Rd a p b)) fs)"
  shows "\<exists>t'. (set_color t u RB_BLACK \<bind> (\<lambda>t. RB_SET_BLACKRED t p g)) = Some t' \<and>
    tree_step (set (inorder (plug (Nd d (Rd ul u ur) g (Rd a p b)) fs))) t t'
      (plug (Rd (Bk ul u ur) g (Bk a p b)) fs)"
proof (rule step_then)
  show "\<exists>t'. set_color t u RB_BLACK = Some t' \<and>
    tree_step (set (inorder (plug (Nd d (Rd ul u ur) g (Rd a p b)) fs))) t t'
      (plug (Nd d (Bk ul u ur) g (Rd a p b)) fs)"
    using recolor_step [of t RB_RED ul u ur "LFr d g (Rd a p b) # fs" RB_BLACK] assms by simp
qed (use blackred_step' in fastforce)

text \<open>The outer rotation, with its recolouring, in both directions.\<close>

lemma outer_rotation_L:
  assumes "tree_at t (plug (Nd d (Nd k a p b) g u) fs)"
  obtains t1 t2 where "RB_SET_BLACKRED t p g = Some t1" and "RB_ROTATE_RIGHT t1 g = Some (t2, p)"
    and "tree_step (set (inorder (plug (Nd d (Nd k a p b) g u) fs))) t t2
           (plug (Bk a p (Rd b g u)) fs)"
proof -
  from blackred_step [OF assms] obtain t1 where t1: "RB_SET_BLACKRED t p g = Some t1"
    "tree_step (set (inorder (plug (Nd d (Nd k a p b) g u) fs))) t t1 (plug (Rd (Bk a p b) g u) fs)"
    by blast
  with rotate_right_step [OF tree_stepD [OF t1(2)]] that show thesis
    by (fastforce intro: tree_step_trans)
qed

lemma outer_rotation_R:
  assumes "tree_at t (plug (Nd d u g (Nd k a p b)) fs)"
  obtains t1 t2 where "RB_SET_BLACKRED t p g = Some t1" and "RB_ROTATE_LEFT t1 g = Some (t2, p)"
    and "tree_step (set (inorder (plug (Nd d u g (Nd k a p b)) fs))) t t2
           (plug (Bk (Rd u g a) p b) fs)"
proof -
  from blackred_step' [OF assms] obtain t1 where t1: "RB_SET_BLACKRED t p g = Some t1"
    "tree_step (set (inorder (plug (Nd d u g (Nd k a p b)) fs))) t t1 (plug (Rd u g (Bk a p b)) fs)"
    by blast
  with rotate_left_step [OF tree_stepD [OF t1(2)]] that show thesis
    by (fastforce intro: tree_step_trans)
qed

text \<open>One unfolding of the loop below a red parent that is a left (right) child.\<close>

lemma loop_unfold_L:
  assumes "e \<noteq> NULL" "rbe_parent (rbn t e) = p" "is_red t p" "rbe_parent (rbn t p) = g"
    "g \<noteq> NULL" "rbe_left (rbn t g) = p" "rbe_right (rbn t g) = u"
  shows "insert_color_loop t e =
    (if is_red t u
     then (set_color t u RB_BLACK \<bind> (\<lambda>t. RB_SET_BLACKRED t p g)) \<bind> (\<lambda>t. insert_color_loop t g)
     else (if rbe_right (rbn t p) = e
           then RB_ROTATE_LEFT t p \<bind> (\<lambda>(t, tmp). RB_SET_BLACKRED t e g \<bind>
             (\<lambda>t. RB_ROTATE_RIGHT t g \<bind> (\<lambda>(t, tmp). insert_color_loop t p)))
           else RB_SET_BLACKRED t p g \<bind>
             (\<lambda>t. RB_ROTATE_RIGHT t g \<bind> (\<lambda>(t, tmp). insert_color_loop t e))))"
  using assms
  by (subst insert_color_loop.simps)
    (auto simp: RB_PARENT_def RB_LEFT_def RB_RIGHT_def is_red_def Option.bind_assoc
      split_beta' intro!: Option.bind_cong)

lemma loop_unfold_R:
  assumes "e \<noteq> NULL" "rbe_parent (rbn t e) = p" "is_red t p" "rbe_parent (rbn t p) = g"
    "g \<noteq> NULL" "rbe_right (rbn t g) = p" "rbe_left (rbn t g) = u" "p \<noteq> u"
  shows "insert_color_loop t e =
    (if is_red t u
     then (set_color t u RB_BLACK \<bind> (\<lambda>t. RB_SET_BLACKRED t p g)) \<bind> (\<lambda>t. insert_color_loop t g)
     else (if rbe_left (rbn t p) = e
           then RB_ROTATE_RIGHT t p \<bind> (\<lambda>(t, tmp). RB_SET_BLACKRED t e g \<bind>
             (\<lambda>t. RB_ROTATE_LEFT t g \<bind> (\<lambda>(t, tmp). insert_color_loop t p)))
           else RB_SET_BLACKRED t p g \<bind>
             (\<lambda>t. RB_ROTATE_LEFT t g \<bind> (\<lambda>(t, tmp). insert_color_loop t e))))"
  using assms
  by (subst insert_color_loop.simps)
    (auto simp: RB_PARENT_def RB_LEFT_def RB_RIGHT_def is_red_def Option.bind_assoc
      split_beta' intro!: Option.bind_cong)

text \<open>
  The four shapes in which the loop goes on.  \<open>H\<close> is the induction hypothesis of the loop: what
  it does from the grandparent upwards.
\<close>

definition loop_ok :: "rbt \<Rightarrow> frame list \<Rightarrow> bool" where
  "loop_ok T fs \<longleftrightarrow> (\<forall>t. tree_at t (plug T fs) \<longrightarrow>
     (\<exists>t'. insert_color_loop t (pt T) = Some t' \<and>
       tree_step (set (inorder (plug T fs))) t t' (ins_fix T fs)))"

lemma loop_okD:
  assumes "loop_ok T fs" and "tree_at t (plug T fs)"
  shows "\<exists>t'. insert_color_loop t (pt T) = Some t' \<and>
       tree_step (set (inorder (plug T fs))) t t' (ins_fix T fs)"
  using assms by (auto simp: loop_ok_def)

lemma loop_LL:
  assumes H: "\<And>A B. loop_ok (Rd A g B) fs"
  shows "loop_ok (Rd a e b) (LFr RB_RED p c # LFr d g u # fs)"
  unfolding loop_ok_def
proof (intro allI impI)
  fix t
  let ?T = "plug (Rd a e b) (LFr RB_RED p c # LFr d g u # fs)"
  assume at: "tree_at t ?T"
  have n: "e \<noteq> NULL" "rbe_parent (rbn t e) = p" "is_red t p" "rbe_parent (rbn t p) = g"
    "g \<noteq> NULL" "rbe_left (rbn t g) = p" "rbe_right (rbn t g) = pt u" "rbe_right (rbn t p) = pt c"
    "pt c \<noteq> e" "is_red t (pt u) \<longleftrightarrow> (\<exists>ul x ur. u = Rd ul x ur)"
    using at by (auto simp: tree_at_def rep_plug is_red_def dest: pt_eqD) (cases u; auto)+
  note unf = loop_unfold_L [OF n(1-7)]
  show "\<exists>t'. insert_color_loop t (pt (Rd a e b)) = Some t' \<and>
    tree_step (set (inorder ?T)) t t' (ins_fix (Rd a e b) (LFr RB_RED p c # LFr d g u # fs))"
  proof (cases "is_red t (pt u)")
    case True
    with n obtain ul x ur where u: "u = Rd ul x ur" by auto
    have "tree_at t (plug (Nd d (Rd (Rd a e b) p c) g (Rd ul x ur)) fs)" using at u by simp
    from red_uncle_L [OF this] H [of "Bk (Rd a e b) p c" "Bk ul x ur"] show ?thesis
      using True unf u by (fastforce dest: loop_okD [OF _ tree_stepD] intro: tree_step_trans)
  next
    case False
    have "tree_at t (plug (Nd d (Rd (Rd a e b) p c) g u) fs)" using at by simp
    then obtain t1 t2 where t2: "RB_SET_BLACKRED t p g = Some t1" "RB_ROTATE_RIGHT t1 g = Some (t2, p)"
      "tree_step (set (inorder (plug (Nd d (Rd (Rd a e b) p c) g u) fs))) t t2
        (plug (Bk (Rd a e b) p (Rd c g u)) fs)"
      by (rule outer_rotation_L)
    have "insert_color_loop t2 e = Some t2"
      using loop_stops [of t2 RB_RED a e b "LFr RB_BLACK p (Rd c g u) # fs"] tree_stepD [OF t2(3)]
      by simp
    with t2 False n unf show ?thesis by (auto split: rbt.splits rb_color.splits)
  qed
qed

lemma loop_LR:
  assumes H: "\<And>A B. loop_ok (Rd A g B) fs"
  shows "loop_ok (Rd a e b) (RFr RB_RED l p # LFr d g u # fs)"
  unfolding loop_ok_def
proof (intro allI impI)
  fix t
  let ?T = "plug (Rd a e b) (RFr RB_RED l p # LFr d g u # fs)"
  assume at: "tree_at t ?T"
  have n: "e \<noteq> NULL" "rbe_parent (rbn t e) = p" "is_red t p" "rbe_parent (rbn t p) = g"
    "g \<noteq> NULL" "rbe_left (rbn t g) = p" "rbe_right (rbn t g) = pt u" "rbe_right (rbn t p) = e"
    "is_red t (pt u) \<longleftrightarrow> (\<exists>ul x ur. u = Rd ul x ur)"
    using at by (auto simp: tree_at_def rep_plug is_red_def) (cases u; auto)+
  note unf = loop_unfold_L [OF n(1-7)]
  show "\<exists>t'. insert_color_loop t (pt (Rd a e b)) = Some t' \<and>
    tree_step (set (inorder ?T)) t t' (ins_fix (Rd a e b) (RFr RB_RED l p # LFr d g u # fs))"
  proof (cases "is_red t (pt u)")
    case True
    with n obtain ul x ur where u: "u = Rd ul x ur" by auto
    have "tree_at t (plug (Nd d (Rd l p (Rd a e b)) g (Rd ul x ur)) fs)" using at u by simp
    from red_uncle_L [OF this] H [of "Bk l p (Rd a e b)" "Bk ul x ur"] show ?thesis
      using True unf u by (fastforce dest: loop_okD [OF _ tree_stepD] intro: tree_step_trans)
  next
    case False
    have "tree_at t (plug (Rd l p (Rd a e b)) (LFr d g u # fs))" using at by simp
    from rotate_left_step [OF this] obtain t0 where t0: "RB_ROTATE_LEFT t p = Some (t0, e)"
      "tree_step (set (inorder ?T)) t t0 (plug (Nd d (Rd (Rd l p a) e b) g u) fs)"
      by auto
    from tree_stepD [OF t0(2)] obtain t1 t2 where t2: "RB_SET_BLACKRED t0 e g = Some t1"
      "RB_ROTATE_RIGHT t1 g = Some (t2, e)"
      "tree_step (set (inorder (plug (Nd d (Rd (Rd l p a) e b) g u) fs))) t0 t2
        (plug (Bk (Rd l p a) e (Rd b g u)) fs)"
      by (rule outer_rotation_L)
    have stop: "insert_color_loop t2 p = Some t2"
      using loop_stops [of t2 RB_RED l p a "LFr RB_BLACK e (Rd b g u) # fs"] tree_stepD [OF t2(3)]
      by simp
    have "tree_step (set (inorder ?T)) t t2 (plug (Bk (Rd l p a) e (Rd b g u)) fs)"
      using t0(2) t2(3) by (auto intro: tree_step_trans)
    with t0 t2 stop False n unf show ?thesis by (auto split: rbt.splits rb_color.splits)
  qed
qed

lemma loop_RR:
  assumes H: "\<And>A B. loop_ok (Rd A g B) fs"
  shows "loop_ok (Rd a e b) (RFr RB_RED l p # RFr d u g # fs)"
  unfolding loop_ok_def
proof (intro allI impI)
  fix t
  let ?T = "plug (Rd a e b) (RFr RB_RED l p # RFr d u g # fs)"
  assume at: "tree_at t ?T"
  have n: "e \<noteq> NULL" "rbe_parent (rbn t e) = p" "is_red t p" "rbe_parent (rbn t p) = g"
    "g \<noteq> NULL" "rbe_right (rbn t g) = p" "rbe_left (rbn t g) = pt u" "p \<noteq> pt u"
    "rbe_left (rbn t p) = pt l" "pt l \<noteq> e" "is_red t (pt u) \<longleftrightarrow> (\<exists>ul x ur. u = Rd ul x ur)"
    using at by (auto simp: tree_at_def rep_plug is_red_def dest: pt_eqD) (cases u; auto)+
  note unf = loop_unfold_R [OF n(1-8)]
  show "\<exists>t'. insert_color_loop t (pt (Rd a e b)) = Some t' \<and>
    tree_step (set (inorder ?T)) t t' (ins_fix (Rd a e b) (RFr RB_RED l p # RFr d u g # fs))"
  proof (cases "is_red t (pt u)")
    case True
    with n obtain ul x ur where u: "u = Rd ul x ur" by auto
    have "tree_at t (plug (Nd d (Rd ul x ur) g (Rd l p (Rd a e b))) fs)" using at u by simp
    from red_uncle_R [OF this] H [of "Bk ul x ur" "Bk l p (Rd a e b)"] show ?thesis
      using True unf u by (fastforce dest: loop_okD [OF _ tree_stepD] intro: tree_step_trans)
  next
    case False
    have "tree_at t (plug (Nd d u g (Rd l p (Rd a e b))) fs)" using at by simp
    then obtain t1 t2 where t2: "RB_SET_BLACKRED t p g = Some t1" "RB_ROTATE_LEFT t1 g = Some (t2, p)"
      "tree_step (set (inorder (plug (Nd d u g (Rd l p (Rd a e b))) fs))) t t2
        (plug (Bk (Rd u g l) p (Rd a e b)) fs)"
      by (rule outer_rotation_R)
    have "insert_color_loop t2 e = Some t2"
      using loop_stops [of t2 RB_RED a e b "RFr RB_BLACK (Rd u g l) p # fs"] tree_stepD [OF t2(3)]
      by simp
    with t2 False n unf show ?thesis by (auto split: rbt.splits rb_color.splits)
  qed
qed

lemma loop_RL:
  assumes H: "\<And>A B. loop_ok (Rd A g B) fs"
  shows "loop_ok (Rd a e b) (LFr RB_RED p c # RFr d u g # fs)"
  unfolding loop_ok_def
proof (intro allI impI)
  fix t
  let ?T = "plug (Rd a e b) (LFr RB_RED p c # RFr d u g # fs)"
  assume at: "tree_at t ?T"
  have n: "e \<noteq> NULL" "rbe_parent (rbn t e) = p" "is_red t p" "rbe_parent (rbn t p) = g"
    "g \<noteq> NULL" "rbe_right (rbn t g) = p" "rbe_left (rbn t g) = pt u" "p \<noteq> pt u"
    "rbe_left (rbn t p) = e" "is_red t (pt u) \<longleftrightarrow> (\<exists>ul x ur. u = Rd ul x ur)"
    using at by (auto simp: tree_at_def rep_plug is_red_def dest: pt_eqD) (cases u; auto)+
  note unf = loop_unfold_R [OF n(1-8)]
  show "\<exists>t'. insert_color_loop t (pt (Rd a e b)) = Some t' \<and>
    tree_step (set (inorder ?T)) t t' (ins_fix (Rd a e b) (LFr RB_RED p c # RFr d u g # fs))"
  proof (cases "is_red t (pt u)")
    case True
    with n obtain ul x ur where u: "u = Rd ul x ur" by auto
    have "tree_at t (plug (Nd d (Rd ul x ur) g (Rd (Rd a e b) p c)) fs)" using at u by simp
    from red_uncle_R [OF this] H [of "Bk ul x ur" "Bk (Rd a e b) p c"] show ?thesis
      using True unf u by (fastforce dest: loop_okD [OF _ tree_stepD] intro: tree_step_trans)
  next
    case False
    have "tree_at t (plug (Rd (Rd a e b) p c) (RFr d u g # fs))" using at by simp
    from rotate_right_step [OF this] obtain t0 where t0: "RB_ROTATE_RIGHT t p = Some (t0, e)"
      "tree_step (set (inorder ?T)) t t0 (plug (Nd d u g (Rd a e (Rd b p c))) fs)"
      by auto
    from tree_stepD [OF t0(2)] obtain t1 t2 where t2: "RB_SET_BLACKRED t0 e g = Some t1"
      "RB_ROTATE_LEFT t1 g = Some (t2, e)"
      "tree_step (set (inorder (plug (Nd d u g (Rd a e (Rd b p c))) fs))) t0 t2
        (plug (Bk (Rd u g a) e (Rd b p c)) fs)"
      by (rule outer_rotation_R)
    have stop: "insert_color_loop t2 p = Some t2"
      using loop_stops [of t2 RB_RED b p c "RFr RB_BLACK (Rd u g a) e # fs"] tree_stepD [OF t2(3)]
      by simp
    have "tree_step (set (inorder ?T)) t t2 (plug (Bk (Rd u g a) e (Rd b p c)) fs)"
      using t0(2) t2(3) by (auto intro: tree_step_trans)
    with t0 t2 stop False n unf show ?thesis by (auto split: rbt.splits rb_color.splits)
  qed
qed

lemma insert_loop_ok: "top_black fs \<Longrightarrow> loop_ok (Rd a e b) fs"
proof (induction "length fs" arbitrary: a e b fs rule: less_induct)
  case less
  show ?case
  proof (cases "fs = [] \<or> fcolor (hd fs) = RB_BLACK")
    case True
    then have "ins_fix (Rd a e b) fs = plug (Rd a e b) fs"
      by (cases fs; cases "hd fs"; auto)
    with True show ?thesis
      by (auto simp: loop_ok_def tree_step_def dest: loop_stops)
  next
    case False
    with less.prems obtain f g gs where fs: "fs = f # g # gs" and red: "fcolor f = RB_RED"
      by (cases fs rule: list.exhaust [case_product list.exhaust]) (auto, metis (full_types) neq_Nil_conv
        rb_color.exhaust top_black_simps(2))
    have "top_black gs" using less.prems fs by (cases gs) auto
    with fs have "\<And>A y B. loop_ok (Rd A y B) gs" by (intro less.hyps) auto
    with fs red show ?thesis
      by (cases f; cases g) (auto intro: loop_LL loop_LR loop_RL loop_RR)
  qed
qed

section \<open>The red-black invariant\<close>

fun blk :: "rbt \<Rightarrow> bool" where
  "blk Lf \<longleftrightarrow> True"
| "blk (Nd c l x r) \<longleftrightarrow> c = RB_BLACK"

text \<open>No red element has a red child, and every path holds the same number of black ones.\<close>

fun rbi :: "rbt \<Rightarrow> nat \<Rightarrow> bool" where
  "rbi Lf n \<longleftrightarrow> n = 0"
| "rbi (Nd RB_BLACK l x r) n \<longleftrightarrow> (case n of 0 \<Rightarrow> False | Suc m \<Rightarrow> rbi l m \<and> rbi r m)"
| "rbi (Nd RB_RED l x r) n \<longleftrightarrow> rbi l n \<and> rbi r n \<and> blk l \<and> blk r"

text \<open>What a context asks of the tree in its hole: black height \<open>n\<close> and root colour \<open>k\<close>.\<close>

fun cinv :: "rb_color \<Rightarrow> frame list \<Rightarrow> nat \<Rightarrow> bool" where
  "cinv k [] n \<longleftrightarrow> k = RB_BLACK"
| "cinv k (LFr RB_BLACK x r # fs) n \<longleftrightarrow> rbi r n \<and> cinv RB_BLACK fs (Suc n)"
| "cinv k (LFr RB_RED x r # fs) n \<longleftrightarrow> k = RB_BLACK \<and> rbi r n \<and> blk r \<and> cinv RB_RED fs n"
| "cinv k (RFr RB_BLACK l x # fs) n \<longleftrightarrow> rbi l n \<and> cinv RB_BLACK fs (Suc n)"
| "cinv k (RFr RB_RED l x # fs) n \<longleftrightarrow> k = RB_BLACK \<and> rbi l n \<and> blk l \<and> cinv RB_RED fs n"

fun tcol :: "rbt \<Rightarrow> rb_color" where
  "tcol Lf = RB_BLACK"
| "tcol (Nd c l x r) = c"

lemma blk_tcol: "blk t \<longleftrightarrow> tcol t = RB_BLACK"
  by (cases t) auto

lemma rbi_plug:
  "(\<exists>m. rbi (plug t fs) m \<and> blk (plug t fs)) \<longleftrightarrow> (\<exists>n. rbi t n \<and> cinv (tcol t) fs n)"
proof (induction t fs rule: plug.induct)
  case (2 t c x r fs)
  then show ?case by (cases c) (auto split: nat.splits simp: blk_tcol gr0_conv_Suc)
next
  case (3 t c l x fs)
  then show ?case by (cases c) (auto split: nat.splits simp: blk_tcol gr0_conv_Suc)
qed (auto simp: blk_tcol)

lemma cinv_weaken: "cinv k fs n \<Longrightarrow> cinv RB_BLACK fs n"
  by (cases "(k, fs, n)" rule: cinv.cases) auto

fun paint_black :: "rbt \<Rightarrow> rbt" where
  "paint_black Lf = Lf"
| "paint_black (Nd c l x r) = Bk l x r"

lemma blk_paint_black [simp]: "blk (paint_black t)"
  by (cases t) auto

lemma inorder_paint_black [simp]: "inorder (paint_black t) = inorder t"
  by (cases t) auto

lemma paint_black_id: "blk t \<Longrightarrow> paint_black t = t"
  by (cases t) auto

lemma cinv_top_black: "cinv k fs n \<Longrightarrow> top_black fs"
proof (induction k fs n rule: cinv.induct)
  case (3 k x r fs n)
  then show ?case by (cases fs) auto
next
  case (5 k l x fs n)
  then show ?case by (cases fs) auto
next
  case (2 k x r fs n)
  then show ?case by (cases fs) auto
next
  case (4 k l x fs n)
  then show ?case by (cases fs) auto
qed simp

end
