(* ===== verification/Ordered_Tree.thy ===== *)
theory Ordered_Tree
  imports Gandr_Prelude
begin

text \<open>
  The contract between a pointer-based ordered tree and its clients.  A tree holds a list of
  elements in the order of a comparison function; \<open>elems t xs\<close> says that \<open>t\<close> is well formed and
  holds \<open>xs\<close>.  The operations return \<open>None\<close> when they dereference a null pointer or do not end,
  and the laws say that they never do on a well-formed tree.  The link fields of addresses
  outside the tree are left alone, which the clients need because they thread a free list through
  the link fields of unused elements.
\<close>

section \<open>Orders and places\<close>

text \<open>\<open>f x\<close> is the comparison of a new element with \<open>x\<close>; the list is ordered by it.\<close>

definition ordered_for :: "('a \<Rightarrow> int) \<Rightarrow> 'a list \<Rightarrow> bool" where
  "ordered_for f xs \<longleftrightarrow> sorted_wrt (\<lambda>x y. f x \<le> 0 \<longrightarrow> f y < 0) xs"

lemma ordered_for_append:
  "ordered_for f (xs @ ys) \<longleftrightarrow>
     ordered_for f xs \<and> ordered_for f ys \<and> (\<forall>x\<in>set xs. \<forall>y\<in>set ys. f x \<le> 0 \<longrightarrow> f y < 0)"
  by (simp add: ordered_for_def sorted_wrt_append)

lemma ordered_for_Cons:
  "ordered_for f (x # xs) \<longleftrightarrow> ordered_for f xs \<and> (\<forall>y\<in>set xs. f x \<le> 0 \<longrightarrow> f y < 0)"
  by (auto simp: ordered_for_def)

lemma ordered_for_pos: "\<forall>x\<in>set xs. f x > 0 \<Longrightarrow> ordered_for f xs"
  by (induction xs) (auto simp: ordered_for_def)

lemma ordered_for_neg: "\<forall>x\<in>set xs. f x < 0 \<Longrightarrow> ordered_for f xs"
  by (induction xs) (auto simp: ordered_for_def)

definition insert_place :: "('a \<Rightarrow> 'a \<Rightarrow> int) \<Rightarrow> 'a \<Rightarrow> 'a list \<Rightarrow> 'a list" where
  "insert_place cmp e xs =
     takeWhile (\<lambda>x. cmp e x > 0) xs @ e # dropWhile (\<lambda>x. cmp e x > 0) xs"

lemma insert_place_split:
  assumes "\<forall>x\<in>set xs. cmp e x > 0" and "\<forall>y\<in>set ys. cmp e y < 0"
  shows "insert_place cmp e (xs @ ys) = xs @ e # ys"
proof -
  have "takeWhile (\<lambda>x. cmp e x > 0) ys = []" "dropWhile (\<lambda>x. cmp e x > 0) ys = ys"
    using assms(2) by (cases ys; force)+
  with assms(1) show ?thesis
    by (simp add: insert_place_def takeWhile_append dropWhile_append)
qed

lemma ordered_for_cases:
  assumes "ordered_for f xs"
  obtains as bs where "xs = as @ bs" "\<forall>x\<in>set as. f x > 0" "\<forall>x\<in>set bs. f x < 0"
  | as z bs where "xs = as @ z # bs" "f z = 0" "\<forall>x\<in>set as. f x > 0" "\<forall>x\<in>set bs. f x < 0"
proof -
  let ?as = "takeWhile (\<lambda>x. f x > 0) xs" and ?bs = "dropWhile (\<lambda>x. f x > 0) xs"
  have as: "\<forall>x\<in>set ?as. f x > 0" by (auto dest: set_takeWhileD)
  have xs: "xs = ?as @ ?bs" by simp
  show thesis
  proof (cases ?bs)
    case Nil
    with xs as show thesis using that(1) [of ?as "[]"] by simp
  next
    case (Cons z bs)
    then have "\<not> f z > 0" by (metis hd_dropWhile list.discI list.sel(1))
    moreover have "\<forall>y\<in>set bs. f z \<le> 0 \<longrightarrow> f y < 0"
      using assms xs Cons by (metis ordered_for_Cons ordered_for_append)
    ultimately have "\<forall>y\<in>set bs. f y < 0" "f z = 0 \<or> f z < 0" by auto
    with xs as Cons show thesis
      using that(1) [of ?as ?bs] that(2) [of ?as z bs] by auto
  qed
qed

section \<open>Walking a tree\<close>

fun first_or :: "'a \<Rightarrow> 'a list \<Rightarrow> 'a" where
  "first_or n [] = n"
| "first_or n (x # xs) = x"

definition last_or :: "'a \<Rightarrow> 'a list \<Rightarrow> 'a" where
  "last_or n xs = first_or n (rev xs)"

lemma last_or_simps [simp]:
  "last_or n [] = n"
  "last_or n (xs @ [x]) = x"
  "last_or n (x # xs) = (if xs = [] then x else last_or n xs)"
  by (simp_all add: last_or_def) (cases xs rule: rev_cases; simp)

lemma last_or_append: "last_or n (xs @ ys) = (if ys = [] then last_or n xs else last_or n ys)"
  by (cases ys rule: rev_cases) (simp_all add: last_or_def)

lemma first_or_append: "first_or n (xs @ ys) = (if xs = [] then first_or n ys else first_or n xs)"
  by (cases xs) simp_all

text \<open>The elements that a loop \<open>for (x = first; x; x = nxt(x))\<close> visits.\<close>

partial_function (option) walk :: "('a \<Rightarrow> 'a option) \<Rightarrow> 'a \<Rightarrow> 'a \<Rightarrow> 'a list option" where
  "walk nxt null x =
     (if x = null then Some []
      else do { n \<leftarrow> nxt x; xs \<leftarrow> walk nxt null n; Some (x # xs) })"

section \<open>The interface\<close>

locale ordered_tree =
  fixes elems :: "'t \<Rightarrow> 'a list \<Rightarrow> bool"
    and links :: "'t \<Rightarrow> 'a \<Rightarrow> 'l"
    and null :: 'a
    and ins :: "('a \<Rightarrow> 'a \<Rightarrow> int) \<Rightarrow> 't \<Rightarrow> 'a \<Rightarrow> ('t \<times> 'a) option"
    and rem :: "'t \<Rightarrow> 'a \<Rightarrow> ('t \<times> 'a) option"
    and fst_elem :: "'t \<Rightarrow> 'a option"
    and lst_elem :: "'t \<Rightarrow> 'a option"
    and nxt :: "'t \<Rightarrow> 'a \<Rightarrow> 'a option"
    and prv :: "'t \<Rightarrow> 'a \<Rightarrow> 'a option"
    and lookup :: "('a \<Rightarrow> int) \<Rightarrow> 't \<Rightarrow> 'a option"
  assumes elems_null: "elems t xs \<Longrightarrow> null \<notin> set xs"
    and elems_distinct: "elems t xs \<Longrightarrow> distinct xs"
    and ins_found: "elems t xs \<Longrightarrow> ordered_for (cmp e) xs \<Longrightarrow> z \<in> set xs \<Longrightarrow> cmp e z = 0 \<Longrightarrow>
      ins cmp t e = Some (t, z)"
    and ins_new: "elems t xs \<Longrightarrow> ordered_for (cmp e) xs \<Longrightarrow> e \<noteq> null \<Longrightarrow> e \<notin> set xs \<Longrightarrow>
      \<forall>z\<in>set xs. cmp e z \<noteq> 0 \<Longrightarrow>
      \<exists>t'. ins cmp t e = Some (t', null) \<and> elems t' (insert_place cmp e xs) \<and>
        (\<forall>z. z \<notin> set xs \<longrightarrow> z \<noteq> e \<longrightarrow> links t' z = links t z)"
    and rem_elem: "elems t (as @ x # bs) \<Longrightarrow>
      \<exists>t'. rem t x = Some (t', x) \<and> elems t' (as @ bs) \<and>
        (\<forall>z. z \<notin> set (as @ x # bs) \<longrightarrow> links t' z = links t z)"
    and fst_elem: "elems t xs \<Longrightarrow> fst_elem t = Some (first_or null xs)"
    and lst_elem: "elems t xs \<Longrightarrow> lst_elem t = Some (last_or null xs)"
    and nxt: "elems t (as @ x # bs) \<Longrightarrow> nxt t x = Some (first_or null bs)"
    and prv: "elems t (as @ x # bs) \<Longrightarrow> prv t x = Some (last_or null as)"
    and lookup: "elems t xs \<Longrightarrow> ordered_for f xs \<Longrightarrow>
      lookup f t = Some (first_or null (filter (\<lambda>x. f x = 0) xs))"
begin

lemma walk_from:
  "elems t (as @ bs) \<Longrightarrow> walk (nxt t) null (first_or null bs) = Some bs"
proof (induction bs arbitrary: as)
  case Nil
  then show ?case by (simp add: walk.simps)
next
  case (Cons b bs)
  have "walk (nxt t) null (first_or null bs) = Some bs"
    using Cons.IH [of "as @ [b]"] Cons.prems by simp
  moreover have "b \<noteq> null" using elems_null [OF Cons.prems] by auto
  ultimately show ?case using nxt [OF Cons.prems] by (simp add: walk.simps [of _ _ b])
qed

text \<open>A loop from the first element to the end visits exactly the elements, in order.\<close>

lemma walk_all: "elems t xs \<Longrightarrow> (fst_elem t \<bind> walk (nxt t) null) = Some xs"
  using walk_from [of t "[]" xs] fst_elem by simp

lemma walk_back:
  "elems t (as @ bs) \<Longrightarrow> walk (prv t) null (last_or null as) = Some (rev as)"
proof (induction as arbitrary: bs rule: rev_induct)
  case Nil
  then show ?case by (simp add: walk.simps)
next
  case (snoc a as)
  have "walk (prv t) null (last_or null as) = Some (rev as)"
    using snoc.IH [of "a # bs"] snoc.prems by simp
  moreover have "a \<noteq> null" using elems_null [OF snoc.prems] by auto
  moreover have "prv t a = Some (last_or null as)" using prv [of t as a bs] snoc.prems by simp
  ultimately show ?case by (simp add: walk.simps [of _ _ a])
qed

lemma walk_all_back: "elems t xs \<Longrightarrow> (lst_elem t \<bind> walk (prv t) null) = Some (rev xs)"
  using walk_back [of t xs "[]"] lst_elem by simp

lemma ins_between:
  assumes "elems t (as @ bs)" and "e \<noteq> null" and "e \<notin> set (as @ bs)"
    and "\<forall>x\<in>set as. cmp e x > 0" and "\<forall>y\<in>set bs. cmp e y < 0"
  shows "\<exists>t'. ins cmp t e = Some (t', null) \<and> elems t' (as @ e # bs) \<and>
    (\<forall>z. z \<notin> set (as @ bs) \<longrightarrow> z \<noteq> e \<longrightarrow> links t' z = links t z)"
proof -
  have "ordered_for (cmp e) (as @ bs)"
    using assms(4,5) by (auto simp: ordered_for_append ordered_for_pos ordered_for_neg)
  moreover have "\<forall>z\<in>set (as @ bs). cmp e z \<noteq> 0" using assms(4,5) by fastforce
  ultimately show ?thesis
    using ins_new [of t "as @ bs" cmp e] insert_place_split [of as cmp e bs] assms by metis
qed

text \<open>An element that was inserted is found, and removing it restores the list.\<close>

lemma ins_lookup:
  assumes "elems t (as @ bs)" and "e \<noteq> null" and "e \<notin> set (as @ bs)"
    and "\<forall>x\<in>set as. cmp e x > 0" and "\<forall>y\<in>set bs. cmp e y < 0" and "cmp e e = 0"
  shows "\<exists>t'. ins cmp t e = Some (t', null) \<and> lookup (cmp e) t' = Some e"
proof -
  from ins_between [of t as bs e cmp] assms obtain t' where t': "ins cmp t e = Some (t', null)" "elems t' (as @ e # bs)"
    by auto
  have "ordered_for (cmp e) (as @ e # bs)"
    using assms(4,5) by (auto simp: ordered_for_append ordered_for_Cons ordered_for_pos ordered_for_neg)
  moreover have "filter (\<lambda>x. cmp e x = 0) (as @ e # bs) = [e]"
    using assms(4-6) by (auto simp: append_eq_Cons_conv filter_empty_conv)
  ultimately show ?thesis using t' lookup by fastforce
qed

lemma ins_rem:
  assumes "elems t (as @ bs)" and "e \<noteq> null" and "e \<notin> set (as @ bs)"
    and "\<forall>x\<in>set as. cmp e x > 0" and "\<forall>y\<in>set bs. cmp e y < 0"
  shows "\<exists>t' t''. ins cmp t e = Some (t', null) \<and> rem t' e = Some (t'', e) \<and> elems t'' (as @ bs)"
  using ins_between [of t as bs e cmp] rem_elem assms by metis

end

end
