(* ===== verification/RB_Insert_Correct.thy ===== *)
theory RB_Insert_Correct
  imports RB_Insert Ordered_Tree
begin

text \<open>
  The correctness of \<open>RB_INSERT\<close>: on a valid red-black tree it neither dereferences a null
  pointer nor loops, returns the element with an equal key if there is one, and otherwise links
  the new element at its place in the order and restores the red-black invariant.
\<close>

definition rb_inv :: "rb_tree \<Rightarrow> addr list \<Rightarrow> bool" where
  "rb_inv t xs \<longleftrightarrow> (\<exists>T n. tree_at t T \<and> inorder T = xs \<and> rbi T n \<and> blk T)"

lemma plug_inv:
  assumes "rbi t n" and "cinv (tcol t) fs n"
  shows "\<exists>m. rbi (paint_black (plug t fs)) m"
  using assms rbi_plug [of t fs] by (metis paint_black_id)

lemma root_inv: "rbi t n \<Longrightarrow> tcol t = RB_RED \<Longrightarrow> \<exists>m. rbi (paint_black t) m"
  by (cases t; cases "tcol t") (auto intro: exI [of _ "Suc n"])

lemma not_blkE:
  assumes "\<not> blk u"
  obtains ul x ur where "u = Rd ul x ur"
  using assms by (cases u; cases "tcol u") auto

lemma ins_fix_blk_uncle:
  assumes "blk u"
  shows "ins_fix t (LFr RB_RED p c # LFr d g u # fs) = plug (Bk t p (Rd c g u)) fs"
    and "ins_fix (Nd k a e b) (RFr RB_RED l p # LFr d g u # fs) = plug (Bk (Rd l p a) e (Rd b g u)) fs"
    and "ins_fix t (RFr RB_RED l p # RFr d u g # fs) = plug (Bk (Rd u g l) p t) fs"
    and "ins_fix (Nd k a e b) (LFr RB_RED p c # RFr d u g # fs) = plug (Bk (Rd u g a) e (Rd b p c)) fs"
  using assms by (cases u; simp)+

lemma ins_fix_stop:
  "fs = [] \<or> fcolor (hd fs) = RB_BLACK \<Longrightarrow> ins_fix (Nd k a e b) fs = plug (Nd k a e b) fs"
  by (cases fs; cases "hd fs"; auto)

lemma cinv_stop:
  "fs \<noteq> [] \<Longrightarrow> fcolor (hd fs) = RB_BLACK \<Longrightarrow> cinv k fs n \<Longrightarrow> cinv k' fs n"
  by (cases fs; cases "hd fs") auto

lemma ins_fix_inv:
  "rbi (Rd a e b) n \<Longrightarrow> cinv RB_BLACK fs n \<Longrightarrow> \<exists>m. rbi (paint_black (ins_fix (Rd a e b) fs)) m"
proof (induction "length fs" arbitrary: a e b fs n rule: less_induct)
  case less
  show ?case
  proof (cases "fs = [] \<or> fcolor (hd fs) = RB_BLACK")
    case True
    then show ?thesis
      using less.prems plug_inv [of "Rd a e b" n fs] root_inv [of "Rd a e b" n]
      by (cases "fs = []") (auto simp: ins_fix_stop intro: cinv_stop)
  next
    case False
    with less.prems(2) obtain f g gs where fs: "fs = f # g # gs"
      by (cases "(RB_BLACK, fs, n)" rule: cinv.cases) (auto elim: cinv.elims)
    with False have red: "fcolor f = RB_RED" by (cases "fcolor f") auto
    have IH: "\<exists>m. rbi (paint_black (ins_fix (Rd A y B) gs)) m"
      if "rbi (Rd A y B) (Suc n)" "cinv RB_BLACK gs (Suc n)" for A y B
      using less.hyps [of gs A y B "Suc n"] that fs by simp
    have blk_g: "fcolor g = RB_BLACK"
      using less.prems(2) fs red by (cases f; cases g; cases "fcolor g") auto
    obtain u where u: "(\<exists>x. g = LFr RB_BLACK x u) \<or> (\<exists>x. g = RFr RB_BLACK u x)"
      using blk_g by (cases g) auto
    show ?thesis
    proof (cases "blk u")
      case True
      then show ?thesis
        using less.prems fs red u
        by (cases f) (auto simp: ins_fix_blk_uncle simp del: ins_fix.simps intro!: plug_inv [where n = "Suc n"])
    next
      case False
      then obtain ul x ur where "u = Rd ul x ur" by (rule not_blkE)
      then show ?thesis
        using less.prems fs red u by (cases f) (auto intro!: IH)
    qed
  qed
qed

lemma insert_color_spec:
  assumes at: "tree_at t (plug (Rd Lf e Lf) fs)" and inv: "cinv RB_BLACK fs 0"
  obtains t' where "RB_INSERT_COLOR t e = Some t'"
    and "rb_inv t' (before fs @ e # after fs)"
    and "\<And>z. z \<notin> set (before fs @ e # after fs) \<Longrightarrow> rbn t' z = rbn t z"
proof -
  let ?F = "ins_fix (Rd Lf e Lf) fs"
  let ?S = "set (before fs @ e # after fs)"
  from insert_loop_ok [OF cinv_top_black [OF inv]] at obtain t1
    where t1: "insert_color_loop t e = Some t1" "tree_step ?S t t1 ?F"
    by (fastforce simp: loop_ok_def)
  have "inorder ?F \<noteq> []" by simp
  then obtain c l x r where F: "?F = Nd c l x r" by (cases ?F) auto
  have root: "rbh_root t1 = x" using t1(2) F by (simp add: tree_step_def tree_at_def)
  have at1: "tree_at t1 (plug (Nd c l x r) [])" using t1(2) F by (simp add: tree_step_def)
  have "inorder l @ x # inorder r = before fs @ e # after fs"
    using arg_cong [OF F, of inorder] by simp
  then have S: "set (inorder (plug (Nd c l x r) [])) = ?S"
    by (metis append_Nil append_Nil2 after.simps(1) before.simps(1) inorder.simps(2) plug.simps(1))
  from recolor_step [OF at1, of RB_BLACK] S obtain t2
    where t2: "set_color t1 x RB_BLACK = Some t2" "tree_step ?S t1 t2 (paint_black ?F)"
    using F by auto
  from ins_fix_inv [of Lf e Lf 0 fs] inv obtain m where "rbi (paint_black ?F) m" by auto
  with t2 have "rb_inv t2 (before fs @ e # after fs)"
    unfolding rb_inv_def by (intro exI [of _ "paint_black ?F"]) (auto simp: tree_step_def)
  moreover have "RB_INSERT_COLOR t e = Some t2"
    using t1 t2 root by (simp add: RB_INSERT_COLOR_def)
  moreover have "rbn t2 z = rbn t z" if "z \<notin> ?S" for z
    using that t1(2) t2(2) by (simp add: tree_step_def)
  ultimately show thesis using that by blast
qed

section \<open>The search for the place\<close>

lemma search_spec:
  assumes "rep (rbn t) (cpar fs) s" and "ordered_for (cmp e) (before fs @ inorder s @ after fs)"
    and "\<forall>x\<in>set (before fs). cmp e x > 0" and "\<forall>x\<in>set (after fs). cmp e x < 0"
    and "case fs of [] \<Rightarrow> True | LFr _ _ _ # _ \<Rightarrow> k < 0 | RFr _ _ _ # _ \<Rightarrow> k > 0"
  shows "(\<exists>z\<in>set (inorder s). cmp e z = 0 \<and> insert_search cmp t e (pt s) (cpar fs) k = Some (Inl z)) \<or>
    (\<exists>gs k'. plug Lf gs = plug s fs \<and>
      insert_search cmp t e (pt s) (cpar fs) k = Some (Inr (cpar gs, k')) \<and>
      (\<forall>x\<in>set (before gs). cmp e x > 0) \<and> (\<forall>x\<in>set (after gs). cmp e x < 0) \<and>
      (case gs of [] \<Rightarrow> True | LFr _ _ _ # _ \<Rightarrow> k' < 0 | RFr _ _ _ # _ \<Rightarrow> k' > 0))"
  using assms
proof (induction s arbitrary: fs k)
  case Lf
  have "insert_search cmp t e (pt Lf) (cpar fs) k = Some (Inr (cpar fs, k))"
    by (simp add: insert_search.simps)
  with Lf show ?case by (intro disjI2 exI [of _ fs] exI [of _ k]) simp
next
  case (Nd c l x r)
  have x: "x \<noteq> NULL" "rbe_left (rbn t x) = pt l" "rbe_right (rbn t x) = pt r"
    using Nd.prems(1) by auto
  consider "cmp e x < 0" | "cmp e x > 0" | "cmp e x = 0" by linarith
  then show ?case
  proof cases
    case 1
    have "insert_search cmp t e (pt (Nd c l x r)) (cpar fs) k =
      insert_search cmp t e (pt l) (cpar (LFr c x r # fs)) (cmp e x)"
      using x 1 by (simp add: insert_search.simps [of cmp t e x] RB_LEFT_def)
    moreover have "\<forall>y\<in>set (inorder r). cmp e y < 0"
      using Nd.prems(2) 1 by (auto simp: ordered_for_append ordered_for_Cons)
    ultimately show ?thesis
      using Nd.IH(1) [of "LFr c x r # fs" "cmp e x"] Nd.prems 1 by auto
  next
    case 2
    have "insert_search cmp t e (pt (Nd c l x r)) (cpar fs) k =
      insert_search cmp t e (pt r) (cpar (RFr c l x # fs)) (cmp e x)"
      using x 2 by (simp add: insert_search.simps [of cmp t e x] RB_RIGHT_def)
    moreover have "\<forall>y\<in>set (inorder l). cmp e y > 0"
    proof
      fix y assume "y \<in> set (inorder l)"
      with Nd.prems(2) have "cmp e y \<le> 0 \<longrightarrow> cmp e x < 0"
        by (auto simp: ordered_for_append ordered_for_Cons)
      with 2 show "cmp e y > 0" by linarith
    qed
    ultimately show ?thesis
      using Nd.IH(2) [of "RFr c l x # fs" "cmp e x"] Nd.prems 2 by auto
  next
    case 3
    then have "insert_search cmp t e x (cpar fs) k = Some (Inl x)"
      using x by (simp add: insert_search.simps [of cmp t e x])
    with 3 show ?thesis by auto
  qed
qed

lemma link_spec:
  fixes k :: int
  assumes at: "tree_at t (plug Lf gs)" and e: "e \<noteq> NULL" "e \<notin> set (before gs @ after gs)"
    and k: "case gs of [] \<Rightarrow> True | LFr _ _ _ # _ \<Rightarrow> k < 0 | RFr _ _ _ # _ \<Rightarrow> k > 0"
  shows "\<exists>t1 t2. RB_SET t e (cpar gs) = Some t1 \<and>
    (if cpar gs \<noteq> NULL then (if k < 0 then set_left t1 (cpar gs) e else set_right t1 (cpar gs) e)
     else Some (t1\<lparr>rbh_root := e\<rparr>)) = Some t2 \<and>
    tree_step (set (before gs @ e # after gs)) t t2 (plug (Rd Lf e Lf) gs)"
proof (cases gs)
  case Nil
  with at e show ?thesis
    by (clarsimp simp: field_defs tree_at_def tree_step_def)
next
  case (Cons g fs)
  have root: "pt (plug (Rd Lf e Lf) gs) = pt (plug Lf gs)"
    using Cons by (intro pt_plug_indep) simp
  have "case gs of [] \<Rightarrow> True | LFr _ _ _ # _ \<Rightarrow> k < 0 | RFr _ _ _ # _ \<Rightarrow> \<not> k < 0"
    using k by (auto split: list.splits frame.splits)
  with at e root Cons show ?thesis
    by (cases g) (clarsimp simp: field_defs tree_at_def tree_step_def rep_plug)+
qed

lemma RB_INSERT_found:
  assumes inv: "rb_inv t xs" and ord: "ordered_for (cmp e) xs"
    and z: "z \<in> set xs" "cmp e z = 0"
  shows "RB_INSERT cmp t e = Some (t, z)"
proof -
  from inv obtain T where T: "tree_at t T" "inorder T = xs" by (auto simp: rb_inv_def)
  have uniq: "y = z" if "y \<in> set xs" "cmp e y = 0" for y
  proof (rule ccontr)
    assume "y \<noteq> z"
    moreover from that(1) obtain as bs where "xs = as @ y # bs" by (meson split_list)
    ultimately show False
      using ord that(2) z by (auto simp: ordered_for_append ordered_for_Cons)
  qed
  from search_spec [of t "[]" T cmp e 0] T ord
  have "(\<exists>z\<in>set xs. cmp e z = 0 \<and> insert_search cmp t e (rbh_root t) NULL 0 = Some (Inl z)) \<or>
    (\<exists>gs. plug Lf gs = T \<and> (\<forall>x\<in>set (before gs). cmp e x > 0) \<and> (\<forall>x\<in>set (after gs). cmp e x < 0))"
    by (auto simp: tree_at_def)
  then have "insert_search cmp t e (rbh_root t) NULL 0 = Some (Inl z)"
  proof
    assume "\<exists>gs. plug Lf gs = T \<and> (\<forall>x\<in>set (before gs). cmp e x > 0) \<and>
      (\<forall>x\<in>set (after gs). cmp e x < 0)"
    then obtain gs where gs: "plug Lf gs = T" "\<forall>x\<in>set (before gs). cmp e x > 0"
      "\<forall>x\<in>set (after gs). cmp e x < 0" by blast
    have "z \<in> set (before gs @ after gs)" using z T(2) gs(1) by auto
    with gs(2,3) z(2) show ?thesis by fastforce
  qed (use uniq in auto)
  then show ?thesis by (simp add: RB_INSERT_def)
qed

lemma RB_INSERT_new:
  assumes inv: "rb_inv t xs" and ord: "ordered_for (cmp e) xs" and e: "e \<noteq> NULL" "e \<notin> set xs"
    and new: "\<forall>z\<in>set xs. cmp e z \<noteq> 0"
  obtains t' where "RB_INSERT cmp t e = Some (t', NULL)" and "rb_inv t' (insert_place cmp e xs)"
    and "\<And>z. z \<notin> set xs \<Longrightarrow> z \<noteq> e \<Longrightarrow> rbn t' z = rbn t z"
proof -
  from inv obtain T n where T: "tree_at t T" "inorder T = xs" "rbi T n" "blk T"
    by (auto simp: rb_inv_def)
  from search_spec [of t "[]" T cmp e 0] T ord new obtain gs k where gs: "plug Lf gs = T"
    "insert_search cmp t e (rbh_root t) NULL 0 = Some (Inr (cpar gs, k))"
    "\<forall>x\<in>set (before gs). cmp e x > 0" "\<forall>x\<in>set (after gs). cmp e x < 0"
    "case gs of [] \<Rightarrow> True | LFr _ _ _ # _ \<Rightarrow> k < 0 | RFr _ _ _ # _ \<Rightarrow> k > 0"
    by (auto simp: tree_at_def)
  have xs: "xs = before gs @ after gs" using gs(1) T(2) by auto
  have "tree_at t (plug Lf gs)" "e \<notin> set (before gs @ after gs)" using gs(1) T(1) e xs by auto
  from link_spec [OF this(1) e(1) this(2) gs(5)] obtain t1 t2 where
    t1: "RB_SET t e (cpar gs) = Some t1" and
    t2: "(if cpar gs \<noteq> NULL then (if k < 0 then set_left t1 (cpar gs) e else set_right t1 (cpar gs) e)
          else Some (t1\<lparr>rbh_root := e\<rparr>)) = Some t2" and
    step: "tree_step (set (before gs @ e # after gs)) t t2 (plug (Rd Lf e Lf) gs)" by blast
  have "\<exists>n. rbi Lf n \<and> cinv (tcol Lf) gs n"
    using T gs(1) rbi_plug [of Lf gs] by blast
  then have "cinv RB_BLACK gs 0" by simp
  with tree_stepD [OF step] obtain t' where t': "RB_INSERT_COLOR t2 e = Some t'"
    "rb_inv t' (before gs @ e # after gs)"
    "\<And>z. z \<notin> set (before gs @ e # after gs) \<Longrightarrow> rbn t' z = rbn t2 z"
    using insert_color_spec by blast
  show thesis
  proof (rule that)
    show "RB_INSERT cmp t e = Some (t', NULL)"
      using gs(2) t1 t2 t'(1) by (simp add: RB_INSERT_def)
    show "rb_inv t' (insert_place cmp e xs)"
      using t'(2) insert_place_split [of "before gs" cmp e "after gs"] gs(3,4) xs by simp
    show "rbn t' z = rbn t z" if "z \<notin> set xs" "z \<noteq> e" for z
      using that t'(3) step xs by (simp add: tree_step_def)
  qed
qed

end
