(* ===== verification/RB_Remove.thy ===== *)
theory RB_Remove
  imports RB_Insert_Correct
begin

text \<open>
  Removal: the repair loop of \<open>RB_REMOVE_COLOR\<close>, the two ways in which \<open>RB_REMOVE\<close> unlinks an
  element, and the correctness of \<open>RB_REMOVE\<close>.
\<close>

section \<open>Steps of the repair loop\<close>

lemma red_left_step:
  assumes "tree_at t (plug D (LFr RB_BLACK p (Rd sl s sr) # fs))"
  shows "\<exists>t'. remove_red_left t p = Some (t', pt sl) \<and>
    tree_step (set (inorder (plug D (LFr RB_BLACK p (Rd sl s sr) # fs)))) t t'
      (plug D (LFr RB_RED p sl # LFr RB_BLACK s sr # fs))"
proof -
  let ?S = "set (inorder (plug D (LFr RB_BLACK p (Rd sl s sr) # fs)))"
  have at: "tree_at t (plug (Bk D p (Rd sl s sr)) fs)" using assms by simp
  from blackred_step' [OF at] obtain t1 where t1: "RB_SET_BLACKRED t s p = Some t1"
    "tree_step ?S t t1 (plug (Rd D p (Bk sl s sr)) fs)" by auto
  from rotate_left_step [OF tree_stepD [OF t1(2)]] obtain t2 where
    t2: "RB_ROTATE_LEFT t1 p = Some (t2, s)" "tree_step ?S t1 t2 (plug (Bk (Rd D p sl) s sr) fs)"
    by auto
  have "RB_RIGHT t p = Some s" "RB_COLOR t s = Some RB_RED"
    using at by (auto simp: tree_at_def rep_plug field_defs)
  moreover have "RB_RIGHT t2 p = Some (pt sl)"
    using tree_stepD [OF t2(2)] by (auto simp: tree_at_def rep_plug field_defs)
  ultimately show ?thesis
    using t1 t2 by (auto simp: remove_red_left_def intro: tree_step_trans)
qed

lemma red_right_step:
  assumes "tree_at t (plug D (RFr RB_BLACK (Rd sl s sr) p # fs))"
  shows "\<exists>t'. remove_red_right t p = Some (t', pt sr) \<and>
    tree_step (set (inorder (plug D (RFr RB_BLACK (Rd sl s sr) p # fs)))) t t'
      (plug D (RFr RB_RED sr p # RFr RB_BLACK sl s # fs))"
proof -
  let ?S = "set (inorder (plug D (RFr RB_BLACK (Rd sl s sr) p # fs)))"
  have at: "tree_at t (plug (Bk (Rd sl s sr) p D) fs)" using assms by simp
  from blackred_step [OF at] obtain t1 where t1: "RB_SET_BLACKRED t s p = Some t1"
    "tree_step ?S t t1 (plug (Rd (Bk sl s sr) p D) fs)" by auto
  from rotate_right_step [OF tree_stepD [OF t1(2)]] obtain t2 where
    t2: "RB_ROTATE_RIGHT t1 p = Some (t2, s)" "tree_step ?S t1 t2 (plug (Bk sl s (Rd sr p D)) fs)"
    by auto
  have "RB_LEFT t p = Some s" "RB_COLOR t s = Some RB_RED"
    using at by (auto simp: tree_at_def rep_plug field_defs)
  moreover have "RB_LEFT t2 p = Some (pt sr)"
    using tree_stepD [OF t2(2)] by (auto simp: tree_at_def rep_plug field_defs)
  ultimately show ?thesis
    using t1 t2 by (auto simp: remove_red_right_def intro: tree_step_trans)
qed

lemma is_black_pt: "rep (rbn t) q T \<Longrightarrow> is_black t (pt T) \<longleftrightarrow> blk T"
  by (cases T) (auto simp: is_black_def)

text \<open>Both children of the sibling black: it becomes red.\<close>

lemma sibling_left_black:
  assumes at: "tree_at t (plug D (LFr c p (Nd k sl s sr) # fs))" and "blk sl" "blk sr"
  shows "\<exists>t'. remove_sibling_left t p s = Some (t', cpar fs, p, False) \<and>
    tree_step (set (inorder (plug D (LFr c p (Nd k sl s sr) # fs)))) t t'
      (plug (Nd c D p (Rd sl s sr)) fs)"
proof -
  have "tree_at t (plug (Nd k sl s sr) (RFr c D p # fs))" using at by simp
  from recolor_step [OF this, of RB_RED] obtain t1 where t1: "set_color t s RB_RED = Some t1"
    "tree_step (set (inorder (plug D (LFr c p (Nd k sl s sr) # fs)))) t t1
      (plug (Nd c D p (Rd sl s sr)) fs)" by auto
  have "RB_LEFT t s = Some (pt sl)" "RB_RIGHT t s = Some (pt sr)" "is_black t (pt sl)" "is_black t (pt sr)"
    using assms by (auto simp: tree_at_def rep_plug field_defs is_black_pt)
  moreover have "RB_PARENT t1 p = Some (cpar fs)"
    using tree_stepD [OF t1(2)] by (auto simp: tree_at_def rep_plug field_defs)
  ultimately show ?thesis using t1 by (auto simp: remove_sibling_left_def)
qed

lemma sibling_right_black:
  assumes at: "tree_at t (plug D (RFr c (Nd k sl s sr) p # fs))" and "blk sl" "blk sr"
  shows "\<exists>t'. remove_sibling_right t p s = Some (t', cpar fs, p, False) \<and>
    tree_step (set (inorder (plug D (RFr c (Nd k sl s sr) p # fs)))) t t'
      (plug (Nd c (Rd sl s sr) p D) fs)"
proof -
  have "tree_at t (plug (Nd k sl s sr) (LFr c p D # fs))" using at by simp
  from recolor_step [OF this, of RB_RED] obtain t1 where t1: "set_color t s RB_RED = Some t1"
    "tree_step (set (inorder (plug D (RFr c (Nd k sl s sr) p # fs)))) t t1
      (plug (Nd c (Rd sl s sr) p D) fs)" by auto
  have "RB_LEFT t s = Some (pt sl)" "RB_RIGHT t s = Some (pt sr)" "is_black t (pt sl)" "is_black t (pt sr)"
    using assms by (auto simp: tree_at_def rep_plug field_defs is_black_pt)
  moreover have "RB_PARENT t1 p = Some (cpar fs)"
    using tree_stepD [OF t1(2)] by (auto simp: tree_at_def rep_plug field_defs)
  ultimately show ?thesis using t1 by (auto simp: remove_sibling_right_def)
qed

text \<open>The final rotation, whose far nephew is red.\<close>

lemma final_left_step:
  assumes "tree_at t (plug D (LFr c p (Nd k sl s (Nd m a x b)) # fs))"
  shows "\<exists>t'. remove_final_left t p s = Some t' \<and>
    tree_step (set (inorder (plug D (LFr c p (Nd k sl s (Nd m a x b)) # fs)))) t t'
      (plug (Nd c (Bk D p sl) s (Bk a x b)) fs)"
proof -
  let ?S = "set (inorder (plug D (LFr c p (Nd k sl s (Nd m a x b)) # fs)))"
  have at: "tree_at t (plug (Nd k sl s (Nd m a x b)) (RFr c D p # fs))" using assms by simp
  from recolor_step [OF at, of c] obtain t1 where t1: "set_color t s c = Some t1"
    "tree_step ?S t t1 (plug (Nd c D p (Nd c sl s (Nd m a x b))) fs)" by auto
  from recolor_step [OF tree_stepD [OF t1(2)], of RB_BLACK] obtain t2 where
    t2: "set_color t1 p RB_BLACK = Some t2"
    "tree_step ?S t1 t2 (plug (Bk D p (Nd c sl s (Nd m a x b))) fs)" by auto
  have "tree_at t2 (plug (Nd m a x b) (RFr c sl s # RFr RB_BLACK D p # fs))"
    using tree_stepD [OF t2(2)] by simp
  from recolor_step [OF this, of RB_BLACK] obtain t3 where t3: "set_color t2 x RB_BLACK = Some t3"
    "tree_step ?S t2 t3 (plug (Bk D p (Nd c sl s (Bk a x b))) fs)" by auto
  from rotate_left_step [OF tree_stepD [OF t3(2)]] obtain t4 where
    t4: "RB_ROTATE_LEFT t3 p = Some (t4, s)" "tree_step ?S t3 t4 (plug (Nd c (Bk D p sl) s (Bk a x b)) fs)"
    by auto
  have "RB_COLOR t p = Some c" "RB_RIGHT t2 s = Some x" "x \<noteq> NULL"
    using at tree_stepD [OF t2(2)] by (auto simp: tree_at_def rep_plug field_defs)
  then show ?thesis
    using t1 t2 t3 t4 by (auto simp: remove_final_left_def intro: tree_step_trans)
qed

text \<open>The inner rotation at the sibling, whose near nephew is red.\<close>

lemma inner_left_step:
  assumes "tree_at t (plug D (LFr c p (Nd k (Nd m a w b) s sr) # fs))"
  shows "\<exists>t'. remove_inner_left t p s = Some (t', w) \<and>
    tree_step (set (inorder (plug D (LFr c p (Nd k (Nd m a w b) s sr) # fs)))) t t'
      (plug D (LFr c p (Bk a w (Rd b s sr)) # fs))"
proof -
  let ?S = "set (inorder (plug D (LFr c p (Nd k (Nd m a w b) s sr) # fs)))"
  have at: "tree_at t (plug (Nd m a w b) (LFr k s sr # RFr c D p # fs))" using assms by simp
  from recolor_step [OF at, of RB_BLACK] obtain t1 where t1: "set_color t w RB_BLACK = Some t1"
    "tree_step ?S t t1 (plug (Nd k (Bk a w b) s sr) (RFr c D p # fs))" by auto
  from recolor_step [OF tree_stepD [OF t1(2)], of RB_RED] obtain t2 where
    t2: "set_color t1 s RB_RED = Some t2" "tree_step ?S t1 t2 (plug (Rd (Bk a w b) s sr) (RFr c D p # fs))"
    by auto
  from rotate_right_step [OF tree_stepD [OF t2(2)]] obtain t3 where
    t3: "RB_ROTATE_RIGHT t2 s = Some (t3, w)" "tree_step ?S t2 t3 (plug (Bk a w (Rd b s sr)) (RFr c D p # fs))"
    by auto
  have "RB_LEFT t s = Some w" "w \<noteq> NULL" "RB_RIGHT t3 p = Some w"
    using at tree_stepD [OF t3(2)] by (auto simp: tree_at_def rep_plug field_defs)
  then show ?thesis
    using t1 t2 t3 by (auto simp: remove_inner_left_def intro: tree_step_trans)
qed

lemma final_right_step:
  assumes "tree_at t (plug D (RFr c (Nd k (Nd m a x b) s sr) p # fs))"
  shows "\<exists>t'. remove_final_right t p s = Some t' \<and>
    tree_step (set (inorder (plug D (RFr c (Nd k (Nd m a x b) s sr) p # fs)))) t t'
      (plug (Nd c (Bk a x b) s (Bk sr p D)) fs)"
proof -
  let ?S = "set (inorder (plug D (RFr c (Nd k (Nd m a x b) s sr) p # fs)))"
  have at: "tree_at t (plug (Nd k (Nd m a x b) s sr) (LFr c p D # fs))" using assms by simp
  from recolor_step [OF at, of c] obtain t1 where t1: "set_color t s c = Some t1"
    "tree_step ?S t t1 (plug (Nd c (Nd c (Nd m a x b) s sr) p D) fs)" by auto
  from recolor_step [OF tree_stepD [OF t1(2)], of RB_BLACK] obtain t2 where
    t2: "set_color t1 p RB_BLACK = Some t2"
    "tree_step ?S t1 t2 (plug (Bk (Nd c (Nd m a x b) s sr) p D) fs)" by auto
  have "tree_at t2 (plug (Nd m a x b) (LFr c s sr # LFr RB_BLACK p D # fs))"
    using tree_stepD [OF t2(2)] by simp
  from recolor_step [OF this, of RB_BLACK] obtain t3 where t3: "set_color t2 x RB_BLACK = Some t3"
    "tree_step ?S t2 t3 (plug (Bk (Nd c (Bk a x b) s sr) p D) fs)" by auto
  from rotate_right_step [OF tree_stepD [OF t3(2)]] obtain t4 where
    t4: "RB_ROTATE_RIGHT t3 p = Some (t4, s)" "tree_step ?S t3 t4 (plug (Nd c (Bk a x b) s (Bk sr p D)) fs)"
    by auto
  have "RB_COLOR t p = Some c" "RB_LEFT t2 s = Some x" "x \<noteq> NULL"
    using at tree_stepD [OF t2(2)] by (auto simp: tree_at_def rep_plug field_defs)
  then show ?thesis
    using t1 t2 t3 t4 by (auto simp: remove_final_right_def intro: tree_step_trans)
qed

lemma inner_right_step:
  assumes "tree_at t (plug D (RFr c (Nd k sl s (Nd m a w b)) p # fs))"
  shows "\<exists>t'. remove_inner_right t p s = Some (t', w) \<and>
    tree_step (set (inorder (plug D (RFr c (Nd k sl s (Nd m a w b)) p # fs)))) t t'
      (plug D (RFr c (Bk (Rd sl s a) w b) p # fs))"
proof -
  let ?S = "set (inorder (plug D (RFr c (Nd k sl s (Nd m a w b)) p # fs)))"
  have at: "tree_at t (plug (Nd m a w b) (RFr k sl s # LFr c p D # fs))" using assms by simp
  from recolor_step [OF at, of RB_BLACK] obtain t1 where t1: "set_color t w RB_BLACK = Some t1"
    "tree_step ?S t t1 (plug (Nd k sl s (Bk a w b)) (LFr c p D # fs))" by auto
  from recolor_step [OF tree_stepD [OF t1(2)], of RB_RED] obtain t2 where
    t2: "set_color t1 s RB_RED = Some t2" "tree_step ?S t1 t2 (plug (Rd sl s (Bk a w b)) (LFr c p D # fs))"
    by auto
  from rotate_left_step [OF tree_stepD [OF t2(2)]] obtain t3 where
    t3: "RB_ROTATE_LEFT t2 s = Some (t3, w)" "tree_step ?S t2 t3 (plug (Bk (Rd sl s a) w b) (LFr c p D # fs))"
    by auto
  have "RB_RIGHT t s = Some w" "w \<noteq> NULL" "RB_LEFT t3 p = Some w"
    using at tree_stepD [OF t3(2)] by (auto simp: tree_at_def rep_plug field_defs)
  then show ?thesis
    using t1 t2 t3 by (auto simp: remove_inner_right_def intro: tree_step_trans)
qed

text \<open>A red nephew: the loop is left and the tree is repaired.\<close>

lemma sibling_left_red:
  assumes at: "tree_at t (plug D (LFr c p (Bk sl s sr) # fs))" and red: "\<not> (blk sl \<and> blk sr)"
  shows "\<exists>t' a x b u v w. remove_sibling_left t p s = Some (t', p, rbh_root t', True) \<and>
    inorder (Bk a x b) = inorder (Bk sl s sr) \<and>
    (sl = Rd u v w \<and> blk sr \<and> a = u \<and> b = Bk w s sr \<or> sr = Rd u v w \<and> a = sl \<and> b = Bk u v w) \<and>
    tree_step (set (inorder (plug D (LFr c p (Bk sl s sr) # fs)))) t t'
      (plug (Nd c (Bk D p a) x b) fs)"
proof -
  have n: "RB_LEFT t s = Some (pt sl)" "RB_RIGHT t s = Some (pt sr)"
    "is_black t (pt sl) \<longleftrightarrow> blk sl" "is_black t (pt sr) \<longleftrightarrow> blk sr"
    using assms by (auto simp: tree_at_def rep_plug field_defs is_black_pt)
  show ?thesis
  proof (cases "blk sr")
    case True
    with red obtain u v w where sl: "sl = Rd u v w" using not_blkE [of sl] by auto
    from at sl inner_left_step [of t D c p RB_BLACK RB_RED u v w s sr fs] obtain t1 where
      t1: "remove_inner_left t p s = Some (t1, v)"
      "tree_step (set (inorder (plug D (LFr c p (Bk sl s sr) # fs)))) t t1
        (plug D (LFr c p (Bk u v (Rd w s sr)) # fs))" by auto
    from final_left_step [OF tree_stepD [OF t1(2)]] obtain t2 where
      t2: "remove_final_left t1 p v = Some t2"
      "tree_step (set (inorder (plug D (LFr c p (Bk sl s sr) # fs)))) t1 t2
        (plug (Nd c (Bk D p u) v (Bk w s sr)) fs)" using sl by auto
    have "remove_sibling_left t p s = Some (t2, p, rbh_root t2, True)"
      using n True red t1 t2 by (auto simp: remove_sibling_left_def)
    then show ?thesis
      using tree_step_trans [OF t1(2) t2(2)] True sl
      by (intro exI [of _ t2] exI [of _ u] exI [of _ v] exI [of _ "Bk w s sr"] exI [of _ w]) auto
  next
    case False
    then obtain u v w where sr: "sr = Rd u v w" by (rule not_blkE)
    from at sr final_left_step [of t D c p RB_BLACK sl s RB_RED u v w fs] obtain t2 where
      t2: "remove_final_left t p s = Some t2"
      "tree_step (set (inorder (plug D (LFr c p (Bk sl s sr) # fs)))) t t2
        (plug (Nd c (Bk D p sl) s (Bk u v w)) fs)" by auto
    have "remove_sibling_left t p s = Some (t2, p, rbh_root t2, True)"
      using n False t2 by (auto simp: remove_sibling_left_def)
    then show ?thesis
      using t2 sr
      by (intro exI [of _ t2] exI [of _ sl] exI [of _ s] exI [of _ "Bk u v w"] exI [of _ u]
        exI [of _ v] exI [of _ w]) auto
  qed
qed

lemma sibling_right_red:
  assumes at: "tree_at t (plug D (RFr c (Bk sl s sr) p # fs))" and red: "\<not> (blk sl \<and> blk sr)"
  shows "\<exists>t' a x b u v w. remove_sibling_right t p s = Some (t', p, rbh_root t', True) \<and>
    inorder (Bk a x b) = inorder (Bk sl s sr) \<and>
    (sr = Rd u v w \<and> blk sl \<and> b = w \<and> a = Bk sl s u \<or> sl = Rd u v w \<and> b = sr \<and> a = Bk u v w) \<and>
    tree_step (set (inorder (plug D (RFr c (Bk sl s sr) p # fs)))) t t'
      (plug (Nd c a x (Bk b p D)) fs)"
proof -
  have n: "RB_LEFT t s = Some (pt sl)" "RB_RIGHT t s = Some (pt sr)"
    "is_black t (pt sl) \<longleftrightarrow> blk sl" "is_black t (pt sr) \<longleftrightarrow> blk sr"
    using assms by (auto simp: tree_at_def rep_plug field_defs is_black_pt)
  show ?thesis
  proof (cases "blk sl")
    case True
    with red obtain u v w where sr: "sr = Rd u v w" using not_blkE [of sr] by auto
    from at sr inner_right_step [of t D c RB_BLACK sl s RB_RED u v w p fs] obtain t1 where
      t1: "remove_inner_right t p s = Some (t1, v)"
      "tree_step (set (inorder (plug D (RFr c (Bk sl s sr) p # fs)))) t t1
        (plug D (RFr c (Bk (Rd sl s u) v w) p # fs))" by auto
    from final_right_step [OF tree_stepD [OF t1(2)]] obtain t2 where
      t2: "remove_final_right t1 p v = Some t2"
      "tree_step (set (inorder (plug D (RFr c (Bk sl s sr) p # fs)))) t1 t2
        (plug (Nd c (Bk sl s u) v (Bk w p D)) fs)" using sr by auto
    have "remove_sibling_right t p s = Some (t2, p, rbh_root t2, True)"
      using n True red t1 t2 by (auto simp: remove_sibling_right_def)
    then show ?thesis
      using tree_step_trans [OF t1(2) t2(2)] True sr
      by (intro exI [of _ t2] exI [of _ "Bk sl s u"] exI [of _ v] exI [of _ w] exI [of _ u]) auto
  next
    case False
    then obtain u v w where sl: "sl = Rd u v w" by (rule not_blkE)
    from at sl final_right_step [of t D c RB_BLACK RB_RED u v w s sr p fs] obtain t2 where
      t2: "remove_final_right t p s = Some t2"
      "tree_step (set (inorder (plug D (RFr c (Bk sl s sr) p # fs)))) t t2
        (plug (Nd c (Bk u v w) s (Bk sr p D)) fs)" by auto
    have "remove_sibling_right t p s = Some (t2, p, rbh_root t2, True)"
      using n False t2 by (auto simp: remove_sibling_right_def)
    then show ?thesis
      using t2 sl
      by (intro exI [of _ t2] exI [of _ "Bk u v w"] exI [of _ s] exI [of _ sr] exI [of _ u]
        exI [of _ v] exI [of _ w]) auto
  qed
qed

section \<open>The repair loop\<close>

text \<open>Outcome of the loop: painting \<open>elm\<close> (or the root) black yields a valid tree.\<close>

definition repaired :: "rb_tree \<Rightarrow> (rb_tree \<times> addr) option \<Rightarrow> addr list \<Rightarrow> bool" where
  "repaired t res xs \<longleftrightarrow> (\<exists>t' E gs m. res = Some (t', pt E) \<and> tree_step (set xs) t t' (plug E gs) \<and>
     inorder (plug E gs) = xs \<and> rbi (plug (paint_black E) gs) m \<and> blk (plug (paint_black E) gs))"

lemma repaired_trans:
  "tree_step (set xs) t t' T' \<Longrightarrow> repaired t' res xs \<Longrightarrow> repaired t res xs"
  unfolding repaired_def by (blast intro: tree_step_trans)

lemma repairedI:
  assumes "res = Some (t', pt E)" "tree_step (set xs) t t' (plug E gs)"
    "inorder (plug E gs) = xs" "rbi (paint_black E) n" "cinv RB_BLACK gs n"
  shows "repaired t res xs"
proof -
  have "tcol (paint_black E) = RB_BLACK" using blk_paint_black [of E] by (simp add: blk_tcol)
  with assms(4,5) rbi_plug [of "paint_black E" gs] show ?thesis
    unfolding repaired_def using assms(1-3) by metis
qed

lemma repaired_root:
  assumes "res = Some (t', rbh_root t')" "tree_step (set xs) t t' F"
    "inorder F = xs" "rbi F n" "blk F"
  shows "repaired t res xs"
  using assms
  by (intro repairedI [where E = F and gs = "[]" and n = n])
    (auto simp: tree_step_def tree_at_def paint_black_id)

lemma body_left:
  assumes at: "tree_at t (plug D (LFr c p (Bk sl s sr) # fs))"
    and D: "rbi D n" "blk D" and fs: "cinv RB_BLACK (LFr c p (Bk sl s sr) # fs) (Suc n)"
  shows "(blk sl \<and> blk sr \<and> (\<exists>t'. remove_sibling_left t p s = Some (t', cpar fs, p, False) \<and>
      tree_step (set (inorder (plug D (LFr c p (Bk sl s sr) # fs)))) t t'
        (plug (Nd c D p (Rd sl s sr)) fs))) \<or>
    (\<exists>t' F m. remove_sibling_left t p s = Some (t', p, rbh_root t', True) \<and>
      tree_step (set (inorder (plug D (LFr c p (Bk sl s sr) # fs)))) t t' F \<and>
      inorder F = inorder (plug D (LFr c p (Bk sl s sr) # fs)) \<and> rbi F m \<and> blk F)"
proof (cases "blk sl \<and> blk sr")
  case True
  then show ?thesis using sibling_left_black [OF at] by auto
next
  case False
  from sibling_left_red [OF at False] obtain t' a x b u v w where
    t': "remove_sibling_left t p s = Some (t', p, rbh_root t', True)"
      "tree_step (set (inorder (plug D (LFr c p (Bk sl s sr) # fs)))) t t' (plug (Nd c (Bk D p a) x b) fs)"
    and io: "inorder (Bk a x b) = inorder (Bk sl s sr)"
    and sh: "sl = Rd u v w \<and> blk sr \<and> a = u \<and> b = Bk w s sr \<or> sr = Rd u v w \<and> a = sl \<and> b = Bk u v w"
    by blast
  have "\<exists>k. rbi (Nd c (Bk D p a) x b) k \<and> cinv c fs k"
    using fs D sh by (cases c)
      (auto intro!: exI [of _ "if c = RB_BLACK then Suc (Suc n) else Suc n"])
  then have "\<exists>m. rbi (plug (Nd c (Bk D p a) x b) fs) m \<and> blk (plug (Nd c (Bk D p a) x b) fs)"
    using rbi_plug [of "Nd c (Bk D p a) x b" fs] by simp
  with t' io show ?thesis by (intro disjI2) auto
qed

lemma body_right:
  assumes at: "tree_at t (plug D (RFr c (Bk sl s sr) p # fs))"
    and D: "rbi D n" "blk D" and fs: "cinv RB_BLACK (RFr c (Bk sl s sr) p # fs) (Suc n)"
  shows "(blk sl \<and> blk sr \<and> (\<exists>t'. remove_sibling_right t p s = Some (t', cpar fs, p, False) \<and>
      tree_step (set (inorder (plug D (RFr c (Bk sl s sr) p # fs)))) t t'
        (plug (Nd c (Rd sl s sr) p D) fs))) \<or>
    (\<exists>t' F m. remove_sibling_right t p s = Some (t', p, rbh_root t', True) \<and>
      tree_step (set (inorder (plug D (RFr c (Bk sl s sr) p # fs)))) t t' F \<and>
      inorder F = inorder (plug D (RFr c (Bk sl s sr) p # fs)) \<and> rbi F m \<and> blk F)"
proof (cases "blk sl \<and> blk sr")
  case True
  then show ?thesis using sibling_right_black [OF at] by auto
next
  case False
  from sibling_right_red [OF at False] obtain t' a x b u v w where
    t': "remove_sibling_right t p s = Some (t', p, rbh_root t', True)"
      "tree_step (set (inorder (plug D (RFr c (Bk sl s sr) p # fs)))) t t' (plug (Nd c a x (Bk b p D)) fs)"
    and io: "inorder (Bk a x b) = inorder (Bk sl s sr)"
    and sh: "sr = Rd u v w \<and> blk sl \<and> b = w \<and> a = Bk sl s u \<or> sl = Rd u v w \<and> b = sr \<and> a = Bk u v w"
    by blast
  have "\<exists>k. rbi (Nd c a x (Bk b p D)) k \<and> cinv c fs k"
    using fs D sh by (cases c)
      (auto intro!: exI [of _ "if c = RB_BLACK then Suc (Suc n) else Suc n"])
  then have "\<exists>m. rbi (plug (Nd c a x (Bk b p D)) fs) m \<and> blk (plug (Nd c a x (Bk b p D)) fs)"
    using rbi_plug [of "Nd c a x (Bk b p D)" fs] by simp
  with t' io show ?thesis by (intro disjI2) auto
qed

lemma loop_exit:
  "\<not> is_black t e \<or> e = rbh_root t \<Longrightarrow> remove_color_loop t q e = Some (t, e)"
  by (subst remove_color_loop.simps) auto

text \<open>The condition of the loop below a context that is not empty.\<close>

lemma loop_guard:
  assumes "tree_at t (plug D fs)" "fs \<noteq> []" "blk D"
  shows "is_black t (pt D)" and "pt D \<noteq> rbh_root t"
proof -
  show "is_black t (pt D)" using assms by (auto simp: tree_at_def rep_plug is_black_pt)
  have "pt (plug D fs) \<in> set (before fs) \<union> set (after fs)"
    using assms(2)
  proof (induction D fs rule: plug.induct)
    case (2 t c x r fs)
    then show ?case by (cases fs) auto
  next
    case (3 t c l x fs)
    then show ?case by (cases fs) auto
  qed simp
  then show "pt D \<noteq> rbh_root t"
    using assms(1) rep_not_null [of "rbn t" NULL "plug D fs"] by (cases D) (auto simp: tree_at_def)
qed

text \<open>
  After a round that goes on one level higher: a red parent ends the loop, a black one is handed
  to the next round.
\<close>

definition loop_inv :: "frame list \<Rightarrow> bool" where
  "loop_inv fs \<longleftrightarrow> (\<forall>t D n. tree_at t (plug D fs) \<longrightarrow> rbi D n \<longrightarrow> blk D \<longrightarrow> cinv RB_BLACK fs (Suc n) \<longrightarrow>
     repaired t (remove_color_loop t (cpar fs) (pt D)) (inorder (plug D fs)))"

lemma loop_continue:
  assumes at: "tree_at t (plug (Nd c l x r) fs)" and n: "rbi l n" "rbi r n"
    and fs: "if c = RB_RED then cinv RB_RED fs (Suc n) else cinv RB_BLACK fs (Suc (Suc n)) \<and> loop_inv fs"
  shows "repaired t (remove_color_loop t (cpar fs) x) (inorder (plug (Nd c l x r) fs))"
proof (cases "c = RB_RED")
  case True
  have "\<not> is_black t x" using at True by (auto simp: tree_at_def rep_plug is_black_def)
  then have "remove_color_loop t (cpar fs) x = Some (t, pt (Nd c l x r))"
    using loop_exit by simp
  moreover have "cinv RB_BLACK fs (Suc n)" using fs True cinv_weaken by auto
  ultimately show ?thesis
    using at n by (intro repairedI [where n = "Suc n" and gs = fs]) (auto simp: tree_step_def)
next
  case False
  then have c: "c = RB_BLACK" by (cases c) auto
  with fs have "loop_inv fs" "cinv RB_BLACK fs (Suc (Suc n))" by auto
  with at n c show ?thesis
    unfolding loop_inv_def by (auto dest!: spec [of _ t] spec [of _ "Bk l x r"] spec [of _ "Suc n"])
qed

lemma loop_round_left:
  assumes at: "tree_at t (plug D (LFr c p S # fs))" and "blk D"
  shows "remove_color_loop t p (pt D) = do {
    (t, tmp) \<leftarrow> remove_red_left t p;
    (t, parent, elm, break) \<leftarrow> remove_sibling_left t p tmp;
    if break then Some (t, elm) else remove_color_loop t parent elm }"
proof -
  have "RB_LEFT t p = Some (pt D)" using at by (auto simp: tree_at_def rep_plug field_defs)
  then show ?thesis
    using loop_guard [OF at] assms(2) by (subst remove_color_loop.simps) (simp add: split_def)
qed

lemma loop_round_right:
  assumes at: "tree_at t (plug D (RFr c S p # fs))" and "blk D" and "S \<noteq> Lf"
  shows "remove_color_loop t p (pt D) = do {
    (t, tmp) \<leftarrow> remove_red_right t p;
    (t, parent, elm, break) \<leftarrow> remove_sibling_right t p tmp;
    if break then Some (t, elm) else remove_color_loop t parent elm }"
proof -
  have "pt S \<noteq> pt D" using at assms(3) by (cases S; cases D) (auto simp: tree_at_def rep_plug)
  moreover have "RB_LEFT t p = Some (pt S)" using at by (auto simp: tree_at_def rep_plug field_defs)
  ultimately show ?thesis
    using loop_guard [OF at] assms(2) by (subst remove_color_loop.simps) (simp add: split_def)
qed

text \<open>A round whose sibling is black.\<close>

lemma round_left:
  assumes at: "tree_at t (plug D (LFr c p (Bk sl s sr) # fs))" and D: "rbi D n" "blk D"
    and fs: "cinv RB_BLACK (LFr c p (Bk sl s sr) # fs) (Suc n)" and IH: "c = RB_BLACK \<Longrightarrow> loop_inv fs"
  shows "repaired t (do { (t, parent, elm, break) \<leftarrow> remove_sibling_left t p s;
      if break then Some (t, elm) else remove_color_loop t parent elm })
    (inorder (plug D (LFr c p (Bk sl s sr) # fs)))" (is "repaired t _ ?xs")
  using body_left [OF at D fs]
proof (elim disjE exE conjE)
  fix t' assume t': "remove_sibling_left t p s = Some (t', cpar fs, p, False)"
    "tree_step (set ?xs) t t' (plug (Nd c D p (Rd sl s sr)) fs)" and b: "blk sl" "blk sr"
  have "repaired t' (remove_color_loop t' (cpar fs) p) (inorder (plug (Nd c D p (Rd sl s sr)) fs))"
    using fs D b IH by (intro loop_continue [OF tree_stepD [OF t'(2)], of n]) (cases c; auto)+
  with t' repaired_trans show ?thesis by fastforce
next
  fix t' F m assume "remove_sibling_left t p s = Some (t', p, rbh_root t', True)"
    "tree_step (set ?xs) t t' F" "inorder F = ?xs" "rbi F m" "blk F"
  then show ?thesis by (intro repaired_root) auto
qed

lemma round_right:
  assumes at: "tree_at t (plug D (RFr c (Bk sl s sr) p # fs))" and D: "rbi D n" "blk D"
    and fs: "cinv RB_BLACK (RFr c (Bk sl s sr) p # fs) (Suc n)" and IH: "c = RB_BLACK \<Longrightarrow> loop_inv fs"
  shows "repaired t (do { (t, parent, elm, break) \<leftarrow> remove_sibling_right t p s;
      if break then Some (t, elm) else remove_color_loop t parent elm })
    (inorder (plug D (RFr c (Bk sl s sr) p # fs)))" (is "repaired t _ ?xs")
  using body_right [OF at D fs]
proof (elim disjE exE conjE)
  fix t' assume t': "remove_sibling_right t p s = Some (t', cpar fs, p, False)"
    "tree_step (set ?xs) t t' (plug (Nd c (Rd sl s sr) p D) fs)" and b: "blk sl" "blk sr"
  have "repaired t' (remove_color_loop t' (cpar fs) p) (inorder (plug (Nd c (Rd sl s sr) p D) fs))"
    using fs D b IH by (intro loop_continue [OF tree_stepD [OF t'(2)], of n]) (cases c; auto)+
  with t' repaired_trans show ?thesis by fastforce
next
  fix t' F m assume "remove_sibling_right t p s = Some (t', p, rbh_root t', True)"
    "tree_step (set ?xs) t t' F" "inorder F = ?xs" "rbi F m" "blk F"
  then show ?thesis by (intro repaired_root) auto
qed

lemma remove_loop_left:
  assumes at: "tree_at t (plug D (LFr c p S # fs))" and D: "rbi D n" "blk D"
    and fs: "cinv RB_BLACK (LFr c p S # fs) (Suc n)" and IH: "loop_inv fs"
  shows "repaired t (remove_color_loop t p (pt D)) (inorder (plug D (LFr c p S # fs)))"
proof -
  have "rbi S (Suc n)" using fs by (cases c) auto
  then obtain k sl s sr where S: "S = Nd k sl s sr" by (cases S) auto
  show ?thesis
  proof (cases k)
    case RB_BLACK
    have "remove_red_left t p = Some (t, s)"
      using at S RB_BLACK by (auto simp: tree_at_def rep_plug field_defs remove_red_left_def)
    then show ?thesis
      using loop_round_left [OF at D(2)] round_left [of t D c p sl s sr fs n] at D fs IH S RB_BLACK by simp
  next
    case RB_RED
    then have c: "c = RB_BLACK" using fs S by (cases c) auto
    have sl: "rbi sl (Suc n)" "blk sl" using fs S c RB_RED by auto
    then obtain a y b where a: "sl = Bk a y b" by (cases sl) auto
    from at red_left_step [of t D p sl s sr fs] S c RB_RED obtain t1 where
      t1: "remove_red_left t p = Some (t1, pt sl)"
      "tree_step (set (inorder (plug D (LFr c p S # fs)))) t t1
        (plug D (LFr RB_RED p sl # LFr RB_BLACK s sr # fs))" by auto
    have cv: "cinv RB_BLACK (LFr RB_RED p (Bk a y b) # LFr RB_BLACK s sr # fs) (Suc n)"
      using fs S c RB_RED a by auto
    have eq: "inorder (plug D (LFr RB_RED p (Bk a y b) # LFr RB_BLACK s sr # fs)) =
        inorder (plug D (LFr c p S # fs))"
      using S a by simp
    have "repaired t1 (do { (t, parent, elm, break) \<leftarrow> remove_sibling_left t1 p y;
        if break then Some (t, elm) else remove_color_loop t parent elm })
        (inorder (plug D (LFr c p S # fs)))"
      using round_left [OF _ D cv, of t1] tree_stepD [OF t1(2)] a by (simp only: eq) simp
    from repaired_trans [OF t1(2) this] show ?thesis
      using loop_round_left [OF at D(2)] t1(1) a by simp
  qed
qed

lemma remove_loop_right:
  assumes at: "tree_at t (plug D (RFr c S p # fs))" and D: "rbi D n" "blk D"
    and fs: "cinv RB_BLACK (RFr c S p # fs) (Suc n)" and IH: "loop_inv fs"
  shows "repaired t (remove_color_loop t p (pt D)) (inorder (plug D (RFr c S p # fs)))"
proof -
  have "rbi S (Suc n)" using fs by (cases c) auto
  then obtain k sl s sr where S: "S = Nd k sl s sr" by (cases S) auto
  show ?thesis
  proof (cases k)
    case RB_BLACK
    have "remove_red_right t p = Some (t, s)"
      using at S RB_BLACK by (auto simp: tree_at_def rep_plug field_defs remove_red_right_def)
    then show ?thesis
      using loop_round_right [OF at D(2)] S round_right [of t D c sl s sr p fs n] at D fs IH S RB_BLACK by simp
  next
    case RB_RED
    then have c: "c = RB_BLACK" using fs S by (cases c) auto
    have sr: "rbi sr (Suc n)" "blk sr" using fs S c RB_RED by auto
    then obtain a y b where a: "sr = Bk a y b" by (cases sr) auto
    from at red_right_step [of t D sl s sr p fs] S c RB_RED obtain t1 where
      t1: "remove_red_right t p = Some (t1, pt sr)"
      "tree_step (set (inorder (plug D (RFr c S p # fs)))) t t1
        (plug D (RFr RB_RED sr p # RFr RB_BLACK sl s # fs))" by auto
    have cv: "cinv RB_BLACK (RFr RB_RED (Bk a y b) p # RFr RB_BLACK sl s # fs) (Suc n)"
      using fs S c RB_RED a by auto
    have eq: "inorder (plug D (RFr RB_RED (Bk a y b) p # RFr RB_BLACK sl s # fs)) =
        inorder (plug D (RFr c S p # fs))"
      using S a by simp
    have "repaired t1 (do { (t, parent, elm, break) \<leftarrow> remove_sibling_right t1 p y;
        if break then Some (t, elm) else remove_color_loop t parent elm })
        (inorder (plug D (RFr c S p # fs)))"
      using round_right [OF _ D cv, of t1] tree_stepD [OF t1(2)] a by (simp only: eq) simp
    from repaired_trans [OF t1(2) this] show ?thesis
      using loop_round_right [OF at D(2)] S t1(1) a by simp
  qed
qed

lemma remove_loop: "loop_inv fs"
proof (induction fs)
  case Nil
  show ?case unfolding loop_inv_def
  proof (intro allI impI)
    fix t D n assume "tree_at t (plug D [])" "rbi D n" "blk D" "cinv RB_BLACK [] (Suc n)"
    then show "repaired t (remove_color_loop t (cpar []) (pt D)) (inorder (plug D []))"
      by (intro repairedI [where gs = "[]" and n = n and E = D])
        (auto simp: tree_step_def tree_at_def loop_exit paint_black_id)
  qed
next
  case (Cons f fs)
  then show ?case
    unfolding loop_inv_def [of "f # fs"]
    by (cases f) (auto simp only: cpar.simps intro: remove_loop_left remove_loop_right)
qed

lemma remove_color_spec:
  assumes at: "tree_at t (plug D fs)" and D: "rbi D n" and fs: "cinv RB_BLACK fs (Suc n)"
  obtains t' where "RB_REMOVE_COLOR t (cpar fs) (pt D) = Some t'"
    and "rb_inv t' (inorder (plug D fs))"
    and "\<And>z. z \<notin> set (inorder (plug D fs)) \<Longrightarrow> rbn t' z = rbn t z"
proof -
  have "repaired t (remove_color_loop t (cpar fs) (pt D)) (inorder (plug D fs))"
  proof (cases D)
    case (Nd c l x r)
    show ?thesis
    proof (cases c)
      case RB_RED
      have "\<not> is_black t x" using at Nd RB_RED by (auto simp: tree_at_def rep_plug is_black_def)
      then show ?thesis
        using at D fs Nd RB_RED
        by (intro repairedI [where gs = fs and E = D and n = "Suc n"]) (auto simp: loop_exit tree_step_def)
    qed (use assms Nd remove_loop [of fs] in \<open>auto simp only: loop_inv_def blk.simps\<close>)
  qed (use assms remove_loop [of fs] in \<open>auto simp only: loop_inv_def blk.simps\<close>)
  then obtain t1 E gs m where E: "remove_color_loop t (cpar fs) (pt D) = Some (t1, pt E)"
    "tree_step (set (inorder (plug D fs))) t t1 (plug E gs)" "inorder (plug E gs) = inorder (plug D fs)"
    "rbi (plug (paint_black E) gs) m" "blk (plug (paint_black E) gs)"
    unfolding repaired_def by blast
  have null: "pt E = NULL \<longleftrightarrow> E = Lf"
    using tree_stepD [OF E(2)] by (auto simp: tree_at_def rep_plug pt_null_iff)
  have "\<exists>t'. (if pt E \<noteq> NULL then set_color t1 (pt E) RB_BLACK else Some t1) = Some t' \<and>
    tree_step (set (inorder (plug D fs))) t1 t' (plug (paint_black E) gs)"
  proof (cases E)
    case (Nd c l x r)
    with recolor_step [of t1 c l x r gs RB_BLACK] tree_stepD [OF E(2)] null show ?thesis
      by (simp del: inorder_plug add: E(3) [symmetric])
  qed (use tree_stepD [OF E(2)] in \<open>simp add: tree_step_def\<close>)
  then obtain t' where t': "(if pt E \<noteq> NULL then set_color t1 (pt E) RB_BLACK else Some t1) = Some t'"
    "tree_step (set (inorder (plug D fs))) t1 t' (plug (paint_black E) gs)" by blast
  show thesis
  proof (rule that)
    show "RB_REMOVE_COLOR t (cpar fs) (pt D) = Some t'" using E(1) t'(1) by (simp add: RB_REMOVE_COLOR_def)
    show "rb_inv t' (inorder (plug D fs))"
      using t'(2) E(3-5) unfolding rb_inv_def
      by (intro exI [of _ "plug (paint_black E) gs"] exI [of _ m]) (auto simp: tree_step_def)
    show "rbn t' z = rbn t z" if "z \<notin> set (inorder (plug D fs))" for z
      using that E(2) t'(2) by (simp add: tree_step_def)
  qed
qed

section \<open>Unlinking an element\<close>

text \<open>The link from the parent (or the head of the tree) to the hole of a context is redirected.\<close>

lemma replace_child_step:
  assumes "repc (rbn t) x fs" "x \<noteq> NULL" "x \<notin> set (before fs @ after fs)" "distinct (before fs @ after fs)"
  shows "\<exists>t'. replace_child t (cpar fs) x y = Some t' \<and> repc (rbn t') y fs \<and>
    (\<forall>z. z \<notin> set (before fs @ after fs) \<longrightarrow> rbn t' z = rbn t z) \<and>
    rbh_root t' = (if fs = [] then y else rbh_root t)"
proof (cases fs)
  case (Cons f gs)
  show ?thesis
  proof (cases f)
    case (RFr c l p)
    have "pt l \<noteq> x" using assms Cons RFr by (cases l) auto
    then show ?thesis using assms Cons RFr by (auto simp: field_defs)
  qed (use assms Cons in \<open>auto simp: field_defs\<close>)
qed (simp add: field_defs)

lemma rep_reparent:
  "rep h p D \<Longrightarrow> distinct (inorder D) \<Longrightarrow> D \<noteq> Lf \<Longrightarrow> rep (h(pt D := (h (pt D))\<lparr>rbe_parent := q\<rparr>)) q D"
  by (cases D) auto

lemma set_parent_step:
  assumes "rep (rbn t) p D" "distinct (inorder D)"
  shows "\<exists>t'. (if pt D \<noteq> NULL then set_parent t (pt D) q else Some t) = Some t' \<and> rep (rbn t') q D \<and>
    rbh_root t' = rbh_root t \<and> (\<forall>z. z \<notin> set (inorder D) \<longrightarrow> rbn t' z = rbn t z)"
  using assms rep_reparent [OF assms, of q] by (cases D) (auto simp: field_defs)

lemma rep_cong: "(\<And>z. z \<in> set (inorder T) \<Longrightarrow> h z = h' z) \<Longrightarrow> rep h p T \<longleftrightarrow> rep h' p T"
  by (induction T arbitrary: p) auto

lemma repc_cong:
  "(\<And>z. z \<in> set (before fs @ after fs) \<Longrightarrow> h z = h' z) \<Longrightarrow> repc h q fs \<longleftrightarrow> repc h' q fs"
proof (induction fs arbitrary: q rule: before.induct)
  case (2 c x r fs)
  then show ?case using rep_cong [of r h h' x] by auto
next
  case (3 c l x fs)
  then show ?case using rep_cong [of l h h' x] by auto
qed simp

text \<open>The hole of a context is filled with another tree, whose root gets a new parent.\<close>

lemma hang_step:
  assumes D: "rep (rbn t) p D" "distinct (inorder D)"
    and fs: "repc (rbn t) x fs" "x \<noteq> NULL" "x \<notin> set (before fs @ after fs)" "distinct (before fs @ after fs)"
    and dj: "set (inorder D) \<inter> set (before fs @ after fs) = {}"
    and root: "fs \<noteq> [] \<Longrightarrow> rbh_root t = pt (plug D fs)"
  shows "\<exists>t1 t2. (if pt D \<noteq> NULL then set_parent t (pt D) (cpar fs) else Some t) = Some t1 \<and>
    replace_child t1 (cpar fs) x (pt D) = Some t2 \<and> 
    tree_step (set (before fs @ inorder D @ after fs)) t t2 (plug D fs)"
proof -
  from set_parent_step [OF D, of "cpar fs"] obtain t1 where
    t1: "(if pt D \<noteq> NULL then set_parent t (pt D) (cpar fs) else Some t) = Some t1"
    "rep (rbn t1) (cpar fs) D" "rbh_root t1 = rbh_root t" "\<And>z. z \<notin> set (inorder D) \<Longrightarrow> rbn t1 z = rbn t z"
    by blast
  have "repc (rbn t1) x fs"
    using fs(1) repc_cong [of fs "rbn t1" "rbn t" x] t1(4) dj by blast
  from replace_child_step [OF this fs(2-4), of "pt D"] obtain t2 where
    t2: "replace_child t1 (cpar fs) x (pt D) = Some t2" "repc (rbn t2) (pt D) fs"
    "\<And>z. z \<notin> set (before fs @ after fs) \<Longrightarrow> rbn t2 z = rbn t1 z"
    "rbh_root t2 = (if fs = [] then pt D else rbh_root t1)" by blast
  have "rep (rbn t2) (cpar fs) D"
    using t1(2) rep_cong [of D "rbn t1" "rbn t2"] t2(3) dj by fastforce
  moreover have "rbh_root t2 = pt (plug D fs)" using t2(4) t1(3) root by auto
  moreover have "distinct (inorder (plug D fs))" using D(2) fs(4) dj by auto
  ultimately have "tree_at t2 (plug D fs)" using t2(2) by (simp add: tree_at_def rep_plug)
  with t1 t2 show ?thesis by (auto simp: tree_step_def)
qed

lemma unlink_step:
  assumes at: "tree_at t (plug (Nd c l x r) fs)" and D: "l = Lf \<and> D = r \<or> r = Lf \<and> D = l"
  shows "\<exists>t'. remove_unlink t x (pt D) = Some (t', cpar fs, pt D, c) \<and>
    tree_step (set (before fs @ inorder D @ after fs)) t t' (plug D fs)"
proof -
  have "rep (rbn t) x D" "distinct (inorder D)" "repc (rbn t) x fs" "x \<noteq> NULL"
    "x \<notin> set (before fs @ after fs)" "distinct (before fs @ after fs)"
    "set (inorder D) \<inter> set (before fs @ after fs) = {}"
    using at D by (auto simp: tree_at_def rep_plug)
  moreover have "rbh_root t = pt (plug D fs)" if "fs \<noteq> []"
    using at pt_plug_indep [OF that, of D "Nd c l x r"] by (simp add: tree_at_def)
  moreover have "RB_PARENT t x = Some (cpar fs)" "RB_COLOR t x = Some c"
    using at by (auto simp: tree_at_def rep_plug field_defs)
  ultimately show ?thesis
    using hang_step [of t x D x fs] by (auto simp: remove_unlink_def)
qed

text \<open>The successor \<open>m\<close> takes the place, the links and the colour of \<open>x\<close>.\<close>

definition take_place :: "rb_tree \<Rightarrow> addr \<Rightarrow> addr \<Rightarrow> rb_tree option" where
  "take_place t old elm = do {
     t \<leftarrow> upd_rbn (\<lambda>_. rbn t old) t elm;
     op \<leftarrow> RB_PARENT t old;
     t \<leftarrow> replace_child t op old elm;
     l \<leftarrow> RB_LEFT t old;
     t \<leftarrow> set_parent t l elm;
     r \<leftarrow> RB_RIGHT t old;
     (if r \<noteq> NULL then set_parent t r elm else Some t) }"

lemma splice_unfold:
  "remove_splice t old = do {
     r \<leftarrow> RB_RIGHT t old;
     elm \<leftarrow> leftmost t r;
     child \<leftarrow> RB_RIGHT t elm;
     (t, parent, child, color) \<leftarrow> remove_unlink t elm child;
     ep \<leftarrow> RB_PARENT t elm;
     t \<leftarrow> take_place t old elm;
     Some (t, if ep = old then elm else parent, child, color) }"
  by (simp add: remove_splice_def remove_unlink_def take_place_def Let_def)

lemma take_place_step:
  assumes at: "tree_at t (plug (Nd c l x r) fs)" and l: "l \<noteq> Lf"
    and m: "m \<noteq> NULL" "m \<notin> set (inorder (plug (Nd c l x r) fs))"
  shows "\<exists>t'. take_place t x m = Some t' \<and>
    tree_step (insert m (set (inorder (plug (Nd c l x r) fs)))) t t' (plug (Nd c l m r) fs)"
proof -
  let ?B = "set (before fs @ after fs)"
  have at': "repc (rbn t) x fs" "x \<noteq> NULL" "rep (rbn t) x l" "rep (rbn t) x r" "distinct (inorder l)" "distinct (inorder r)"
    "rbn t x = \<lparr>rbe_left = pt l, rbe_right = pt r, rbe_parent = cpar fs, rbe_color = c\<rparr>"
    and d: "distinct (before fs @ after fs)" "x \<notin> ?B" "set (inorder l) \<inter> ?B = {}" "set (inorder r) \<inter> ?B = {}"
      "set (inorder l) \<inter> set (inorder r) = {}" "x \<notin> set (inorder l)" "x \<notin> set (inorder r)"
    and root: "rbh_root t = pt (plug (Nd c l x r) fs)"
    using at by (auto simp: tree_at_def rep_plug)
  have m': "m \<noteq> x" "m \<notin> ?B" "m \<notin> set (inorder l)" "m \<notin> set (inorder r)" using m by auto
  define t1 where "t1 = t\<lparr>rbn := (rbn t)(m := rbn t x)\<rparr>"
  have t1: "upd_rbn (\<lambda>_. rbn t x) t m = Some t1" using m by (simp add: field_defs t1_def)
  have "repc (rbn t1) x fs" using at' m' by (auto simp: t1_def)
  from replace_child_step [OF this at'(2) d(2,1), of m] obtain t2 where
    t2: "replace_child t1 (cpar fs) x m = Some t2" "repc (rbn t2) m fs"
    "\<And>z. z \<notin> ?B \<Longrightarrow> rbn t2 z = rbn t1 z" "rbh_root t2 = (if fs = [] then m else rbh_root t1)" by blast
  have same: "rbn t2 z = rbn t z" if "z \<notin> ?B" "z \<noteq> m" for z using t2(3) [OF that(1)] that(2) by (simp add: t1_def)
  have at2: "rep (rbn t2) x l" "rep (rbn t2) x r"
    using at'(3,4) rep_cong [of l "rbn t2" "rbn t" x] rep_cong [of r "rbn t2" "rbn t" x] same d(3,4) m'(3,4)
    by (metis disjoint_iff)+
  have at2': "rbn t2 x = rbn t x" "rbn t2 m = rbn t x"
    using same [OF d(2)] m' t2(3) [OF m'(2)] by (auto simp: t1_def)
  from set_parent_step [OF at2(1) at'(5), of m] l pt_null_iff [OF at2(1)] obtain t3 where
    t3: "set_parent t2 (pt l) m = Some t3" "rep (rbn t3) m l" "rbh_root t3 = rbh_root t2"
    "\<And>z. z \<notin> set (inorder l) \<Longrightarrow> rbn t3 z = rbn t2 z" by auto
  have "rep (rbn t3) x r" using at2(2) rep_cong [of r "rbn t3" "rbn t2" x] t3(4) d(5) by blast
  from set_parent_step [OF this at'(6), of m] obtain t4 where
    t4: "(if pt r \<noteq> NULL then set_parent t3 (pt r) m else Some t3) = Some t4" "rep (rbn t4) m r"
    "rbh_root t4 = rbh_root t3" "\<And>z. z \<notin> set (inorder r) \<Longrightarrow> rbn t4 z = rbn t3 z" by blast
  have "RB_PARENT t1 x = Some (cpar fs)" "RB_LEFT t2 x = Some (pt l)" "RB_RIGHT t3 x = Some (pt r)"
    using at' at2' t3(4) d m' by (auto simp: field_defs t1_def)
  then have "take_place t x m = Some t4" using t1 t2 t3 t4 by (simp add: take_place_def)
  moreover have "tree_at t4 (plug (Nd c l m r) fs)"
  proof -
    have "rep (rbn t4) m l" using t3(2) rep_cong [of l "rbn t4" "rbn t3" m] t4(4) d(5) by blast
    moreover have "repc (rbn t4) m fs"
      using t2(2) repc_cong [of fs "rbn t4" "rbn t2" m] t3(4) t4(4) d(3,4) by fastforce
    moreover have "rbn t4 m = rbn t x" using m' t3(4) t4(4) at2'(2) by simp
    moreover have "rbh_root t4 = pt (plug (Nd c l m r) fs)"
      using t4(3) t3(3) t2(4) root pt_plug_indep [of fs "Nd c l m r" "Nd c l x r"] by (auto simp: t1_def)
    moreover have "distinct (inorder (plug (Nd c l m r) fs))" using at m by (auto simp: tree_at_def)
    ultimately show ?thesis using at' m t4(2) by (simp add: tree_at_def rep_plug)
  qed
  ultimately show ?thesis
    using t2(3) t3(4) t4(4) by (auto simp: tree_step_def t1_def)
qed

text \<open>The successor is the leftmost element of the right subtree.\<close>

fun all_left :: "frame list \<Rightarrow> bool" where
  "all_left [] \<longleftrightarrow> True"
| "all_left (LFr c x r # fs) \<longleftrightarrow> all_left fs"
| "all_left (RFr c l x # fs) \<longleftrightarrow> False"

lemma all_left_append [simp]: "all_left (fs @ gs) \<longleftrightarrow> all_left fs \<and> all_left gs"
  by (induction fs rule: all_left.induct) auto

lemma all_left_before: "all_left fs \<Longrightarrow> before fs = []"
  by (induction fs rule: all_left.induct) auto

lemma leftmost_step:
  assumes "rep (rbn t) p T" "T \<noteq> Lf"
  obtains k m r gs where "T = plug (Nd k Lf m r) gs" "all_left gs" "leftmost t (pt T) = Some m"
  using assms
proof (induction T arbitrary: p thesis)
  case (Nd c l x r)
  then have x: "x \<noteq> NULL" "rbe_left (rbn t x) = pt l" "rep (rbn t) x l" by auto
  show thesis
  proof (cases l)
    case Lf
    then have "leftmost t x = Some x" using x by (subst leftmost.simps) (simp add: field_defs)
    with Lf show thesis using Nd.prems(1) [of c x r "[]"] by simp
  next
    case (Nd k' a y b)
    then have "pt l \<noteq> NULL" using x by auto
    then have eq: "leftmost t x = leftmost t (pt l)"
      using x by (subst leftmost.simps) (simp add: field_defs)
    from Nd x(3) obtain k m r' gs where "l = plug (Nd k Lf m r') gs" "all_left gs" "leftmost t (pt l) = Some m"
      using Nd.IH(1) by blast
    then show thesis using Nd.prems(1) [of k m r' "gs @ [LFr c x r]"] eq by simp
  qed
qed simp

lemma splice_step:
  assumes at: "tree_at t (plug (Nd c l x r) fs)" and l: "l \<noteq> Lf" and r: "r \<noteq> Lf"
  obtains t' k m mr gs where "r = plug (Nd k Lf m mr) gs" "all_left gs"
    "remove_splice t x = Some (t', cpar (gs @ RFr c l m # fs), pt mr, k)"
    "tree_step (set (inorder (plug (Nd c l x r) fs))) t t' (plug mr (gs @ RFr c l m # fs))"
proof -
  have "rep (rbn t) x r" using at by (simp add: tree_at_def rep_plug)
  from leftmost_step [OF this r] obtain k m mr gs where m: "r = plug (Nd k Lf m mr) gs" "all_left gs"
    "leftmost t (pt r) = Some m" by blast
  let ?S = "set (inorder (plug (Nd c l x r) fs))"
  have at1: "tree_at t (plug (Nd k Lf m mr) (gs @ RFr c l x # fs))" using at m(1) by simp
  from unlink_step [OF at1, of mr] obtain t1 where
    t1: "remove_unlink t m (pt mr) = Some (t1, cpar (gs @ RFr c l x # fs), pt mr, k)"
    "tree_step (set (before (gs @ RFr c l x # fs) @ inorder mr @ after (gs @ RFr c l x # fs))) t t1
      (plug mr (gs @ RFr c l x # fs))" by blast
  have dm: "m \<notin> set (before (gs @ RFr c l x # fs) @ inorder mr @ after (gs @ RFr c l x # fs))"
    and m0: "m \<noteq> NULL" and dx: "x \<notin> set (before gs) \<union> set (after gs)"
    using at1 unfolding tree_at_def rep_plug by auto
  have S: "tree_step ?S t t1 (plug mr (gs @ RFr c l x # fs))"
    using m(1) by (intro tree_step_mono [OF t1(2)]) auto
  have "tree_at t1 (plug (Nd c l x (plug mr gs)) fs)" using tree_stepD [OF t1(2)] by simp
  from take_place_step [OF this l m0] dm obtain t2 where
    t2: "take_place t1 x m = Some t2"
    "tree_step (insert m (set (inorder (plug (Nd c l x (plug mr gs)) fs)))) t1 t2 (plug (Nd c l m (plug mr gs)) fs)"
    by auto
  have S2: "tree_step ?S t1 t2 (plug mr (gs @ RFr c l m # fs))"
    using t2(2) m(1) by (elim tree_step_mono [of _ _ _ _ ?S, simplified] | auto intro: tree_step_mono)+
  have "RB_PARENT t m = Some (cpar (gs @ RFr c l x # fs))" "RB_RIGHT t m = Some (pt mr)"
    using at1 unfolding tree_at_def rep_plug by (auto simp: field_defs)
  moreover have "rbn t1 m = rbn t m" using t1(2) dm unfolding tree_step_def by blast
  ultimately have pm: "RB_PARENT t1 m = Some (cpar (gs @ RFr c l x # fs))" "RB_RIGHT t m = Some (pt mr)"
    using m0 by (simp_all add: field_defs)
  have "(if cpar (gs @ RFr c l x # fs) = x then m else cpar (gs @ RFr c l x # fs)) = cpar (gs @ RFr c l m # fs)"
    using dx cpar_in [of gs] by (auto simp: cpar_append)
  moreover have "RB_RIGHT t x = Some (pt r)" using at by (auto simp: tree_at_def rep_plug field_defs)
  ultimately have "remove_splice t x = Some (t2, cpar (gs @ RFr c l m # fs), pt mr, k)"
    using m(3) pm t1(1) t2(1) by (simp add: splice_unfold)
  with m(1,2) tree_step_trans [OF S S2] show thesis using that by blast
qed

section \<open>Correctness of RB\_REMOVE\<close>

lemma remove_finish:
  assumes at: "tree_at t (plug D fs)" and n: "rbi (Nd k Lf y D) n \<or> rbi (Nd k D y Lf) n" "cinv k fs n"
  obtains t' where
    "(if k = RB_BLACK then RB_REMOVE_COLOR t (cpar fs) (pt D) else Some t) = Some t'"
    "rb_inv t' (before fs @ inorder D @ after fs)"
    "\<And>z. z \<notin> set (before fs @ inorder D @ after fs) \<Longrightarrow> rbn t' z = rbn t z"
proof (cases k)
  case RB_BLACK
  with n obtain n' where "rbi D n'" "cinv RB_BLACK fs (Suc n')" by (auto split: nat.splits)
  from remove_color_spec [OF at this] RB_BLACK that show thesis by auto
next
  case RB_RED
  with n have "rbi D n" "cinv (tcol D) fs n" by (auto simp: blk_tcol intro: cinv_weaken)
  with rbi_plug [of D fs] obtain m where "rbi (plug D fs) m" "blk (plug D fs)" by blast
  with at have "rb_inv t (before fs @ inorder D @ after fs)"
    unfolding rb_inv_def by (metis inorder_plug)
  with RB_RED that show thesis by simp
qed

lemma cinv_rename: "cinv k (gs @ RFr c l x # fs) n \<Longrightarrow> cinv k (gs @ RFr c l y # fs) n"
proof (induction k gs n rule: cinv.induct)
  case (1 k n)
  then show ?case by (cases c) auto
qed auto

text \<open>What \<open>RB_REMOVE\<close> promises for the element \<open>x\<close> between \<open>as\<close> and \<open>bs\<close>.\<close>

definition removed :: "rb_tree \<Rightarrow> addr \<Rightarrow> addr list \<Rightarrow> addr list \<Rightarrow> bool" where
  "removed t x as bs \<longleftrightarrow> (\<exists>t'. RB_REMOVE t x = Some (t', x) \<and> rb_inv t' (as @ bs) \<and>
     (\<forall>z. z \<notin> set (as @ x # bs) \<longrightarrow> rbn t' z = rbn t z))"

lemma remove_one_child:
  assumes at: "tree_at t (plug (Nd c l x r) fs)" and D: "l = Lf \<and> D = r \<or> r = Lf \<and> D = l"
    and n: "rbi (Nd c l x r) n" "cinv c fs n"
  shows "removed t x (before fs @ inorder l) (inorder r @ after fs)"
proof -
  have x: "RB_LEFT t x = Some (pt l)" "RB_RIGHT t x = Some (pt r)" "pt l = NULL \<longleftrightarrow> l = Lf" "pt r = NULL \<longleftrightarrow> r = Lf"
    using at by (auto simp: tree_at_def rep_plug field_defs pt_null_iff)
  from unlink_step [OF at D] obtain t1 where t1: "remove_unlink t x (pt D) = Some (t1, cpar fs, pt D, c)"
    "tree_step (set (before fs @ inorder D @ after fs)) t t1 (plug D fs)" by blast
  have "rbi (Nd c Lf x D) n \<or> rbi (Nd c D x Lf) n" using n(1) D by auto
  from remove_finish [OF tree_stepD [OF t1(2)] this n(2)] obtain t' where
    t': "(if c = RB_BLACK then RB_REMOVE_COLOR t1 (cpar fs) (pt D) else Some t1) = Some t'"
    "rb_inv t' (before fs @ inorder D @ after fs)"
    "\<And>z. z \<notin> set (before fs @ inorder D @ after fs) \<Longrightarrow> rbn t' z = rbn t1 z" by blast
  have io: "before fs @ inorder D @ after fs = (before fs @ inorder l) @ inorder r @ after fs"
    using D by auto
  have "RB_REMOVE t x = Some (t', x)" using x t1(1) t'(1) D by (auto simp: RB_REMOVE_def)
  moreover have "rbn t' z = rbn t z" if "z \<notin> set (before fs @ inorder D @ after fs)" for z
    using that t1(2) t'(3) [of z] unfolding tree_step_def by auto
  ultimately show ?thesis using t'(2) unfolding io removed_def by auto
qed

lemma remove_two_children:
  assumes at: "tree_at t (plug (Nd c l x r) fs)" and lr: "l \<noteq> Lf" "r \<noteq> Lf"
    and n: "rbi (Nd c l x r) n" "cinv c fs n"
  shows "removed t x (before fs @ inorder l) (inorder r @ after fs)"
proof -
  have x: "RB_LEFT t x = Some (pt l)" "RB_RIGHT t x = Some (pt r)" "pt l \<noteq> NULL" "pt r \<noteq> NULL"
    using at lr by (auto simp: tree_at_def rep_plug field_defs pt_null_iff)
  obtain t1 k m mr gs where t1: "r = plug (Nd k Lf m mr) gs" "all_left gs"
    "remove_splice t x = Some (t1, cpar (gs @ RFr c l m # fs), pt mr, k)"
    "tree_step (set (inorder (plug (Nd c l x r) fs))) t t1 (plug mr (gs @ RFr c l m # fs))"
    by (rule splice_step [OF at lr])
  have eq: "plug (Nd c l x r) fs = plug (Nd k Lf m mr) (gs @ RFr c l x # fs)" using t1(1) by simp
  have "\<exists>n. rbi (Nd k Lf m mr) n \<and> cinv k (gs @ RFr c l x # fs) n"
    using rbi_plug [of "Nd c l x r" fs] rbi_plug [of "Nd k Lf m mr" "gs @ RFr c l x # fs"] n
    unfolding eq tcol.simps by blast
  then obtain n' where n': "rbi (Nd k Lf m mr) n'" "cinv k (gs @ RFr c l x # fs) n'" by blast
  let ?xs = "before (gs @ RFr c l m # fs) @ inorder mr @ after (gs @ RFr c l m # fs)"
  obtain t' where
    t': "(if k = RB_BLACK then RB_REMOVE_COLOR t1 (cpar (gs @ RFr c l m # fs)) (pt mr) else Some t1) = Some t'"
    "rb_inv t' ?xs" "\<And>z. z \<notin> set ?xs \<Longrightarrow> rbn t' z = rbn t1 z"
    using remove_finish [OF tree_stepD [OF t1(4)] disjI1 [OF n'(1)] cinv_rename [OF n'(2)]] by blast
  have io: "?xs = (before fs @ inorder l) @ inorder r @ after fs"
    using t1(1) all_left_before [OF t1(2)] by simp
  have "RB_REMOVE t x = Some (t', x)" using x t1(3) t'(1) by (simp add: RB_REMOVE_def)
  moreover have "rbn t' z = rbn t z" if "z \<notin> set (inorder (plug (Nd c l x r) fs))" for z
    using that t1(4) t'(3) [of z] unfolding io tree_step_def by auto
  ultimately show ?thesis using t'(2) unfolding io removed_def by auto
qed

lemma RB_REMOVE_removed:
  assumes inv: "rb_inv t (as @ x # bs)"
  shows "removed t x as bs"
proof -
  from inv obtain T N where T: "tree_at t T" "inorder T = as @ x # bs" "rbi T N" "blk T"
    by (auto simp: rb_inv_def)
  have "x \<in> set (inorder T)" using T(2) by simp
  then obtain c l r fs where F: "T = plug (Nd c l x r) fs" by (rule focus)
  have at: "tree_at t (plug (Nd c l x r) fs)" using T F by simp
  have "distinct (as @ x # bs)" using T by (auto simp: tree_at_def)
  moreover have "(before fs @ inorder l) @ x # (inorder r @ after fs) = as @ x # bs" using T F by simp
  ultimately have ab: "as = before fs @ inorder l" "bs = inorder r @ after fs"
    using distinct_split_unique by metis+
  from T(3,4) F rbi_plug [of "Nd c l x r" fs] obtain n where n: "rbi (Nd c l x r) n" "cinv c fs n" by auto
  show ?thesis
    using remove_one_child [OF at _ n, of "if l = Lf then r else l"] remove_two_children [OF at _ _ n]
    unfolding ab by (cases "l = Lf"; cases "r = Lf") auto
qed

end
