(* ===== verification/RB_Traverse.thy ===== *)
theory RB_Traverse
  imports RB_Remove
begin

text \<open>
  Search and traversal of a red-black tree: \<open>RB_FIND\<close>, \<open>RB_NFIND\<close>, \<open>RB_NEXT\<close>, \<open>RB_PREV\<close>,
  \<open>RB_MIN\<close>, \<open>RB_MAX\<close> and the loop of \<open>RB_FOREACH\<close>, all in terms of the list of elements; the
  bound on the height that the header of \<^verbatim>\<open>gd_tree.h\<close> announces; and the interpretation of the
  ordered-tree contract by the macros.
\<close>

definition RB_FOREACH :: "rb_tree \<Rightarrow> addr list option" where
  "RB_FOREACH t = RB_MIN t \<bind> walk (RB_NEXT t) NULL"

definition RB_FOREACH_REVERSE :: "rb_tree \<Rightarrow> addr list option" where
  "RB_FOREACH_REVERSE t = RB_MAX t \<bind> walk (RB_PREV t) NULL"

section \<open>First, last, next and previous\<close>

lemma leftmost_first:
  assumes "rep (rbn t) p T" "T \<noteq> Lf"
  shows "leftmost t (pt T) = Some (first_or NULL (inorder T))"
  using leftmost_step [OF assms] all_left_before by (metis append_Nil first_or.simps(2) inorder.simps inorder_plug append_Cons)

lemma inorder_Nil_iff [simp]: "inorder T = [] \<longleftrightarrow> T = Lf"
  by (cases T) auto

lemma rightmost_last:
  "rep (rbn t) p T \<Longrightarrow> T \<noteq> Lf \<Longrightarrow> rightmost t (pt T) = Some (last_or NULL (inorder T))"
proof (induction T arbitrary: p)
  case (Nd c l x r)
  then have x: "x \<noteq> NULL" "rbe_right (rbn t x) = pt r" "rep (rbn t) x r" by auto
  have "rightmost t x = (if pt r \<noteq> NULL then rightmost t (pt r) else Some x)"
    using x by (subst rightmost.simps) (simp add: field_defs)
  with Nd.IH(2) [OF x(3)] pt_null_iff [OF x(3)] show ?case
    by (cases "r = Lf") (auto simp: last_or_append)
qed simp

lemma minmax_spec:
  "rep (rbn t) p T \<Longrightarrow> minmax_from t v (pt T) q =
     Some (if T = Lf then q else if v < 0 then first_or NULL (inorder T) else last_or NULL (inorder T))"
proof (induction T arbitrary: p q)
  case Lf
  then show ?case by (simp add: minmax_from.simps)
next
  case (Nd c l x r)
  then have x: "x \<noteq> NULL" "rbe_left (rbn t x) = pt l" "rbe_right (rbn t x) = pt r" "rep (rbn t) x l" "rep (rbn t) x r"
    by auto
  have "minmax_from t v x q = minmax_from t v (if v < 0 then pt l else pt r) x"
    using x by (subst minmax_from.simps) (simp add: field_defs)
  with Nd.IH(1) [OF x(4)] Nd.IH(2) [OF x(5)] show ?case
    by (cases l; cases r) (auto simp: last_or_append first_or_append)
qed

lemma RB_MIN_spec: "rb_inv t xs \<Longrightarrow> RB_MIN t = Some (first_or NULL xs)"
  by (auto simp: RB_MIN_def RB_MINMAX_def rb_inv_def tree_at_def minmax_spec)

lemma RB_MAX_spec: "rb_inv t xs \<Longrightarrow> RB_MAX t = Some (last_or NULL xs)"
  by (auto simp: RB_MAX_def RB_MINMAX_def rb_inv_def tree_at_def minmax_spec)

text \<open>Where the position of an element is in the tree.\<close>

lemma rb_inv_focus:
  assumes "rb_inv t (as @ x # bs)"
  obtains c l r fs where "tree_at t (plug (Nd c l x r) fs)" "as = before fs @ inorder l"
    "bs = inorder r @ after fs"
proof -
  from assms obtain T where T: "tree_at t T" "inorder T = as @ x # bs" by (auto simp: rb_inv_def)
  then have "x \<in> set (inorder T)" by simp
  then obtain c l r fs where F: "T = plug (Nd c l x r) fs" by (rule focus)
  have "distinct (as @ x # bs)" using T by (auto simp: tree_at_def)
  moreover have "(before fs @ inorder l) @ x # (inorder r @ after fs) = as @ x # bs" using T F by simp
  ultimately have "as = before fs @ inorder l" "bs = inorder r @ after fs"
    using distinct_split_unique by metis+
  with T F that show thesis by blast
qed

lemma climb_right_spec:
  assumes "repc (rbn t) x fs" "rbe_parent (rbn t x) = cpar fs" "x \<noteq> NULL"
    "x \<notin> set (before fs @ after fs)" "distinct (before fs @ after fs)"
  shows "climb_right t x = Some (first_or NULL (after fs))"
  using assms
proof (induction fs arbitrary: x rule: after.induct)
  case 1
  then show ?case by (subst climb_right.simps) (simp add: field_defs)
next
  case (2 c p r fs)
  then have "x \<noteq> pt r" by (cases r) auto
  with 2 show ?case by (subst climb_right.simps) (simp add: field_defs)
next
  case (3 c l p fs)
  from 3(2-) have "climb_right t p = Some (first_or NULL (after fs))" by (intro 3(1)) auto
  with 3 show ?case by (subst climb_right.simps) (simp add: field_defs)
qed

lemma climb_left_spec:
  assumes "repc (rbn t) x fs" "rbe_parent (rbn t x) = cpar fs" "x \<noteq> NULL"
    "x \<notin> set (before fs @ after fs)" "distinct (before fs @ after fs)"
  shows "climb_left t x = Some (last_or NULL (before fs))"
  using assms
proof (induction fs arbitrary: x rule: after.induct)
  case 1
  then show ?case by (subst climb_left.simps) (simp add: field_defs)
next
  case (2 c p r fs)
  from 2(2-) have "climb_left t p = Some (last_or NULL (before fs))" by (intro 2(1)) auto
  with 2 show ?case by (subst climb_left.simps) (simp add: field_defs)
next
  case (3 c l p fs)
  then have "x \<noteq> pt l" by (cases l) auto
  with 3 show ?case by (subst climb_left.simps) (simp add: field_defs last_or_append)
qed

lemma RB_NEXT_spec:
  assumes "rb_inv t (as @ x # bs)"
  shows "RB_NEXT t x = Some (first_or NULL bs)"
proof -
  from assms obtain c l r fs where F: "tree_at t (plug (Nd c l x r) fs)" "bs = inorder r @ after fs"
    by (rule rb_inv_focus)
  then have x: "x \<noteq> NULL" "rbe_right (rbn t x) = pt r" "rbe_parent (rbn t x) = cpar fs" "rep (rbn t) x r"
    "repc (rbn t) x fs" "x \<notin> set (before fs @ after fs)" "distinct (before fs @ after fs)"
    by (auto simp: tree_at_def rep_plug)
  show ?thesis
  proof (cases r)
    case Lf
    have "RB_NEXT t x = climb_right t x"
    proof (cases fs)
      case (Cons f gs)
      have "x \<noteq> pt s" if "f = LFr k p s \<or> f = RFr k s p" for k p s
        using that x Cons pt_eqD [of s x] by auto
      with x Lf Cons show ?thesis
        by (cases f) (simp_all add: RB_NEXT_def field_defs climb_right.simps [of t x])
    qed (use x Lf in \<open>simp add: RB_NEXT_def field_defs climb_right.simps [of t x]\<close>)
    with climb_right_spec [OF x(5,3,1,6,7)] F(2) Lf show ?thesis by simp
  next
    case (Nd k a y b)
    with leftmost_first [OF x(4)] x F(2) show ?thesis
      by (auto simp: RB_NEXT_def field_defs first_or_append)
  qed
qed

lemma RB_PREV_spec:
  assumes "rb_inv t (as @ x # bs)"
  shows "RB_PREV t x = Some (last_or NULL as)"
proof -
  from assms obtain c l r fs where F: "tree_at t (plug (Nd c l x r) fs)" "as = before fs @ inorder l"
    by (rule rb_inv_focus)
  then have x: "x \<noteq> NULL" "rbe_left (rbn t x) = pt l" "rbe_parent (rbn t x) = cpar fs" "rep (rbn t) x l"
    "repc (rbn t) x fs" "x \<notin> set (before fs @ after fs)" "distinct (before fs @ after fs)"
    by (auto simp: tree_at_def rep_plug)
  show ?thesis
  proof (cases l)
    case Lf
    have "RB_PREV t x = climb_left t x"
    proof (cases fs)
      case (Cons f gs)
      have "x \<noteq> pt s" if "f = LFr k p s \<or> f = RFr k s p" for k p s
        using that x Cons pt_eqD [of s x] by auto
      with x Lf Cons show ?thesis
        by (cases f) (simp_all add: RB_PREV_def field_defs climb_left.simps [of t x])
    qed (use x Lf in \<open>simp add: RB_PREV_def field_defs climb_left.simps [of t x]\<close>)
    with climb_left_spec [OF x(5,3,1,6,7)] F(2) Lf show ?thesis by simp
  next
    case (Nd k a y b)
    with rightmost_last [OF x(4)] x F(2) show ?thesis
      by (auto simp: RB_PREV_def field_defs last_or_append)
  qed
qed

section \<open>Search\<close>

lemma find_spec:
  "rep (rbn t) p T \<Longrightarrow> ordered_for f (inorder T) \<Longrightarrow>
     find_from f t (pt T) = Some (first_or NULL (filter (\<lambda>x. f x = 0) (inorder T)))"
proof (induction T arbitrary: p)
  case Lf
  then show ?case by (simp add: find_from.simps)
next
  case (Nd c l x r)
  then have x: "x \<noteq> NULL" "rbe_left (rbn t x) = pt l" "rbe_right (rbn t x) = pt r" "rep (rbn t) x l" "rep (rbn t) x r"
    and o: "ordered_for f (inorder l)" "ordered_for f (inorder r)"
      "\<forall>a\<in>set (inorder l). f a \<le> 0 \<longrightarrow> f x < 0" "\<forall>b\<in>set (inorder r). f x \<le> 0 \<longrightarrow> f b < 0"
    by (auto simp: ordered_for_append ordered_for_Cons)
  have l: "f x \<ge> 0 \<Longrightarrow> filter (\<lambda>x. f x = 0) (inorder l) = []"
    using o(3) by (fastforce simp: filter_empty_conv)
  have r: "f x \<le> 0 \<Longrightarrow> filter (\<lambda>x. f x = 0) (inorder r) = []"
    using o(4) by (fastforce simp: filter_empty_conv)
  have "find_from f t x = (if f x < 0 then find_from f t (pt l) else if f x > 0 then find_from f t (pt r) else Some x)"
    using x by (subst find_from.simps) (simp add: field_defs Let_def)
  with Nd.IH(1) [OF x(4) o(1)] Nd.IH(2) [OF x(5) o(2)] l r show ?case
    by (cases "f x" "0::int" rule: linorder_cases) (auto simp: first_or_append)
qed

lemma first_or_nonempty: "xs \<noteq> [] \<Longrightarrow> first_or n xs = first_or m xs"
  by (cases xs) auto

lemma nfind_spec:
  "rep (rbn t) p T \<Longrightarrow> ordered_for f (inorder T) \<Longrightarrow>
     nfind_from f t (pt T) q = Some (first_or q (filter (\<lambda>x. f x \<le> 0) (inorder T)))"
proof (induction T arbitrary: p q)
  case Lf
  then show ?case by (simp add: nfind_from.simps)
next
  case (Nd c l x r)
  then have x: "x \<noteq> NULL" "rbe_left (rbn t x) = pt l" "rbe_right (rbn t x) = pt r" "rep (rbn t) x l" "rep (rbn t) x r"
    and o: "ordered_for f (inorder l)" "ordered_for f (inorder r)"
      "\<forall>a\<in>set (inorder l). f a \<le> 0 \<longrightarrow> f x < 0" "\<forall>b\<in>set (inorder r). f x \<le> 0 \<longrightarrow> f b < 0"
    by (auto simp: ordered_for_append ordered_for_Cons)
  have l: "f x \<ge> 0 \<Longrightarrow> filter (\<lambda>x. f x \<le> 0) (inorder l) = []"
    using o(3) by (fastforce simp: filter_empty_conv)
  have "nfind_from f t x q =
    (if f x < 0 then nfind_from f t (pt l) x else if f x > 0 then nfind_from f t (pt r) q else Some x)"
    using x by (subst nfind_from.simps) (simp add: field_defs Let_def)
  with Nd.IH(1) [OF x(4) o(1)] Nd.IH(2) [OF x(5) o(2)] l show ?case
    by (cases "f x" "0::int" rule: linorder_cases) (auto simp: first_or_append first_or_nonempty)
qed

lemma RB_FIND_spec:
  "rb_inv t xs \<Longrightarrow> ordered_for f xs \<Longrightarrow> RB_FIND f t = Some (first_or NULL (filter (\<lambda>x. f x = 0) xs))"
  using find_spec by (fastforce simp: RB_FIND_def rb_inv_def tree_at_def)

lemma RB_NFIND_spec:
  "rb_inv t xs \<Longrightarrow> ordered_for f xs \<Longrightarrow> RB_NFIND f t = Some (first_or NULL (filter (\<lambda>x. f x \<le> 0) xs))"
  using nfind_spec by (fastforce simp: RB_NFIND_def rb_inv_def tree_at_def)

section \<open>Height\<close>

lemma rbi_height: "rbi T n \<Longrightarrow> height T \<le> 2 * n + (if blk T then 0 else 1)"
proof (induction T arbitrary: n)
  case (Nd c l x r)
  show ?case
  proof (cases c)
    case RB_BLACK
    with Nd.prems obtain m where "n = Suc m" "rbi l m" "rbi r m" by (cases n) auto
    with Nd.IH RB_BLACK show ?thesis by (fastforce split: if_splits)
  next
    case RB_RED
    with Nd.prems have "rbi l n" "rbi r n" "blk l" "blk r" by auto
    with Nd.IH RB_RED show ?thesis by fastforce
  qed
qed simp

lemma rbi_size: "rbi T n \<Longrightarrow> 2 ^ n \<le> Suc (length (inorder T))"
proof (induction T arbitrary: n)
  case (Nd c l x r)
  show ?case
  proof (cases c)
    case RB_BLACK
    with Nd.prems obtain m where "n = Suc m" "rbi l m" "rbi r m" by (cases n) auto
    with Nd.IH(1) [of m] Nd.IH(2) [of m] show ?thesis by simp
  next
    case RB_RED
    with Nd.prems have "rbi l n" "rbi r n" by auto
    with Nd.IH(1) [of n] Nd.IH(2) [of n] show ?thesis by simp
  qed
qed simp

lemma height_bound: "rbi T n \<Longrightarrow> blk T \<Longrightarrow> 2 ^ height T \<le> (Suc (length (inorder T)))\<^sup>2"
proof -
  assume T: "rbi T n" "blk T"
  then have "(2::nat) ^ height T \<le> 2 ^ (2 * n)" using rbi_height [OF T(1)] by simp
  also have "\<dots> = (2 ^ n)\<^sup>2" by (simp add: power_mult mult.commute)
  also have "\<dots> \<le> (Suc (length (inorder T)))\<^sup>2" using rbi_size [OF T(1)] by (rule power_mono) simp
  finally show ?thesis .
qed

section \<open>The red-black macros implement the ordered-tree contract\<close>

interpretation rb: ordered_tree rb_inv rbn NULL RB_INSERT RB_REMOVE RB_MIN RB_MAX RB_NEXT RB_PREV RB_FIND
proof
  fix t xs assume "rb_inv t xs"
  then show "NULL \<notin> set xs" "distinct xs"
    using rep_not_null by (auto simp: rb_inv_def tree_at_def)
next
  fix t as x bs assume "rb_inv t (as @ x # bs)"
  then show "\<exists>t'. RB_REMOVE t x = Some (t', x) \<and> rb_inv t' (as @ bs) \<and>
      (\<forall>z. z \<notin> set (as @ x # bs) \<longrightarrow> rbn t' z = rbn t z)"
    by (rule RB_REMOVE_removed [unfolded removed_def])
next
  fix t xs cmp e
  assume "rb_inv t xs" "ordered_for (cmp e) xs" "e \<noteq> NULL" "e \<notin> set xs" "\<forall>z\<in>set xs. cmp e z \<noteq> 0"
  then show "\<exists>t'. RB_INSERT cmp t e = Some (t', NULL) \<and> rb_inv t' (insert_place cmp e xs) \<and>
      (\<forall>z. z \<notin> set xs \<longrightarrow> z \<noteq> e \<longrightarrow> rbn t' z = rbn t z)"
    by (metis RB_INSERT_new)
qed (simp_all add: RB_INSERT_found RB_MIN_spec RB_MAX_spec RB_NEXT_spec RB_PREV_spec RB_FIND_spec)

lemma RB_FOREACH_spec: "rb_inv t xs \<Longrightarrow> RB_FOREACH t = Some xs"
  unfolding RB_FOREACH_def by (rule rb.walk_all)

lemma RB_FOREACH_REVERSE_spec: "rb_inv t xs \<Longrightarrow> RB_FOREACH_REVERSE t = Some (rev xs)"
  unfolding RB_FOREACH_REVERSE_def by (rule rb.walk_all_back)

text \<open>The invariant depends on the links of the elements and on the root only.\<close>

lemma rb_inv_frame:
  assumes "rb_inv t xs" and "\<And>z. z \<in> set xs \<Longrightarrow> rbn t' z = rbn t z" and "rbh_root t' = rbh_root t"
  shows "rb_inv t' xs"
proof -
  from assms(1) obtain T n where T: "tree_at t T" "inorder T = xs" "rbi T n" "blk T"
    by (auto simp: rb_inv_def)
  have "rep (rbn t') NULL T"
    using T assms(2) rep_cong [of T "rbn t'" "rbn t" NULL] by (auto simp: tree_at_def)
  then have "tree_at t' T" using T(1) assms(3) by (simp add: tree_at_def)
  with T show ?thesis by (auto simp: rb_inv_def)
qed

end
