(* ===== verification/RB_Properties.thy ===== *)
theory RB_Properties
  imports RB_Traverse
begin

text \<open>
  What the red-black tree macros promise to their users, stated over the macros themselves, with
  instances on a small concrete tree.
\<close>

section \<open>A concrete tree\<close>

text \<open>Two elements, at the addresses 16 and 32, compared by address.\<close>

definition sample_tree :: rb_tree where
  "sample_tree = \<lparr>rbn = (\<lambda>_. \<lparr>rbe_left = 0, rbe_right = 0, rbe_parent = 0, rbe_color = RB_RED\<rparr>)
      (16 := \<lparr>rbe_left = 0, rbe_right = 32, rbe_parent = 0, rbe_color = RB_BLACK\<rparr>,
       32 := \<lparr>rbe_left = 0, rbe_right = 0, rbe_parent = 16, rbe_color = RB_RED\<rparr>),
     rbh_root = 16\<rparr>"

definition addr_cmp :: "addr \<Rightarrow> addr \<Rightarrow> int" where
  "addr_cmp x y = uint x - uint y"

lemma sample_tree_inv: "rb_inv sample_tree [16, 32]"
  unfolding rb_inv_def
  by (intro exI [of _ "Bk Lf 16 (Rd Lf 32 Lf)"] exI [of _ "Suc 0"]) (simp add: tree_at_def sample_tree_def)

lemma sample_ordered: "ordered_for (addr_cmp 24) [16, 32]" "ordered_for (addr_cmp 32) [16, 32]"
  by (simp_all add: ordered_for_def addr_cmp_def)

section \<open>Insertion\<close>

text \<open>C2. On a well-formed tree that is ordered for the new element and holds no element with an
  equal key, \<open>RB_INSERT\<close> returns \<open>NULL\<close>; the tree after it is well formed (red-black colouring,
  parent links, root) and holds the old elements with the new one at its place in the order; the
  link fields of every other address are unchanged.\<close>

theorem RB_INSERT_inserts:
  assumes "rb_inv t xs" and "ordered_for (cmp e) xs" and "e \<noteq> NULL" and "e \<notin> set xs"
    and "\<forall>z\<in>set xs. cmp e z \<noteq> 0"
  shows "\<exists>t'. RB_INSERT cmp t e = Some (t', NULL) \<and> rb_inv t' (insert_place cmp e xs) \<and>
    (\<forall>z. z \<notin> set xs \<longrightarrow> z \<noteq> e \<longrightarrow> rbn t' z = rbn t z)"
  using assms by (rule rb.ins_new)

theorem RB_INSERT_inserts_witness:
  "\<exists>t'. RB_INSERT addr_cmp sample_tree 24 = Some (t', NULL) \<and> rb_inv t' [16, 24, 32]"
  using RB_INSERT_inserts [of sample_tree "[16, 32]" addr_cmp 24, OF sample_tree_inv sample_ordered(1)]
  by (auto simp: addr_cmp_def insert_place_def)

text \<open>If the tree holds an element with an equal key, \<open>RB_INSERT\<close> returns it and leaves the
  tree as it is.\<close>

theorem RB_INSERT_collision:
  assumes "rb_inv t xs" and "ordered_for (cmp e) xs" and "z \<in> set xs" and "cmp e z = 0"
  shows "RB_INSERT cmp t e = Some (t, z)"
  using assms by (rule rb.ins_found)

theorem RB_INSERT_collision_witness: "RB_INSERT addr_cmp sample_tree 32 = Some (sample_tree, 32)"
  using RB_INSERT_collision [of sample_tree "[16, 32]" addr_cmp 32 32, OF sample_tree_inv sample_ordered(2)] by (simp add: addr_cmp_def)

section \<open>Removal\<close>

text \<open>C3. \<open>RB_REMOVE\<close> of an element of a well-formed tree returns the element; the tree after it is
  well formed and holds the other elements in the same order; the link fields of addresses that
  are not in the tree are unchanged.\<close>

theorem RB_REMOVE_removes:
  assumes "rb_inv t (as @ x # bs)"
  shows "\<exists>t'. RB_REMOVE t x = Some (t', x) \<and> rb_inv t' (as @ bs) \<and>
    (\<forall>z. z \<notin> set (as @ x # bs) \<longrightarrow> rbn t' z = rbn t z)"
  using assms by (rule rb.rem_elem)

theorem RB_REMOVE_removes_witness:
  "\<exists>t'. RB_REMOVE sample_tree 16 = Some (t', 16) \<and> rb_inv t' [32]"
  using RB_REMOVE_removes [of sample_tree "[]" 16 "[32]"] sample_tree_inv by auto

text \<open>Inserting a new element and then searching for its key finds it; removing it again gives
  a tree with the old elements.\<close>

theorem RB_INSERT_round_trip:
  assumes "rb_inv t (as @ bs)" and "e \<noteq> NULL" and "e \<notin> set (as @ bs)" and "cmp e e = 0"
    and "\<forall>x\<in>set as. cmp e x > 0" and "\<forall>y\<in>set bs. cmp e y < 0"
  shows "\<exists>t' t''. RB_INSERT cmp t e = Some (t', NULL) \<and> RB_FIND (cmp e) t' = Some e \<and>
    RB_REMOVE t' e = Some (t'', e) \<and> rb_inv t'' (as @ bs)"
  using rb.ins_rem [of t as bs e cmp] rb.ins_lookup [of t as bs e cmp] assms by auto

theorem RB_INSERT_round_trip_witness:
  "\<exists>t' t''. RB_INSERT addr_cmp sample_tree 24 = Some (t', NULL) \<and> RB_FIND (addr_cmp 24) t' = Some 24 \<and>
    RB_REMOVE t' 24 = Some (t'', 24) \<and> rb_inv t'' [16, 32]"
  using RB_INSERT_round_trip [of sample_tree "[16]" "[32]" 24 addr_cmp] sample_tree_inv
  by (simp add: addr_cmp_def)

section \<open>Search and traversal\<close>

text \<open>C30. \<open>RB_FIND\<close> returns the element with the key, or \<open>NULL\<close>; \<open>RB_NFIND\<close> returns the first
  element whose key is not smaller, or \<open>NULL\<close>.\<close>

theorem RB_FIND_NFIND:
  assumes "rb_inv t xs" and "ordered_for f xs"
  shows "RB_FIND f t = Some (first_or NULL (filter (\<lambda>x. f x = 0) xs)) \<and>
    RB_NFIND f t = Some (first_or NULL (filter (\<lambda>x. f x \<le> 0) xs))"
  using assms RB_FIND_spec RB_NFIND_spec by blast

theorem RB_FIND_NFIND_witness:
  "RB_FIND (addr_cmp 24) sample_tree = Some NULL \<and> RB_NFIND (addr_cmp 24) sample_tree = Some 32"
  using RB_FIND_NFIND [OF sample_tree_inv sample_ordered(1)] by (simp add: addr_cmp_def)

text \<open>C29. \<open>RB_NEXT\<close> and \<open>RB_PREV\<close> are the neighbours in the order (\<open>NULL\<close> at the ends), and the
  loops \<open>RB_FOREACH\<close> and \<open>RB_FOREACH_REVERSE\<close> end and visit every element once, in order.\<close>

theorem RB_traversal:
  assumes "rb_inv t (as @ x # bs)"
  shows "RB_NEXT t x = Some (first_or NULL bs) \<and> RB_PREV t x = Some (last_or NULL as) \<and>
    RB_FOREACH t = Some (as @ x # bs) \<and> RB_FOREACH_REVERSE t = Some (rev (as @ x # bs))"
  using assms rb.nxt rb.prv RB_FOREACH_spec RB_FOREACH_REVERSE_spec by blast

theorem RB_traversal_witness:
  "RB_NEXT sample_tree 16 = Some 32 \<and> RB_PREV sample_tree 16 = Some NULL \<and>
    RB_FOREACH sample_tree = Some [16, 32]"
  using RB_traversal [of sample_tree "[]" 16 "[32]"] sample_tree_inv by simp

section \<open>Sequences of operations\<close>

text \<open>A program on a tree: insertions of new elements and removals of elements that are in the tree.\<close>

datatype rb_op = Insert addr | Remove addr

fun rb_run :: "(addr \<Rightarrow> addr \<Rightarrow> int) \<Rightarrow> rb_op list \<Rightarrow> rb_tree \<Rightarrow> rb_tree option" where
  "rb_run cmp [] t = Some t"
| "rb_run cmp (Insert e # ops) t = do { (t, _) \<leftarrow> RB_INSERT cmp t e; rb_run cmp ops t }"
| "rb_run cmp (Remove e # ops) t = do { (t, _) \<leftarrow> RB_REMOVE t e; rb_run cmp ops t }"

fun legal_ops :: "rb_op list \<Rightarrow> addr set \<Rightarrow> bool" where
  "legal_ops [] S = True"
| "legal_ops (Insert e # ops) S = (e \<noteq> NULL \<and> e \<notin> S \<and> legal_ops ops (insert e S))"
| "legal_ops (Remove e # ops) S = (e \<in> S \<and> legal_ops ops (S - {e}))"

fun elements_after :: "rb_op list \<Rightarrow> addr set \<Rightarrow> addr set" where
  "elements_after [] S = S"
| "elements_after (Insert e # ops) S = elements_after ops (insert e S)"
| "elements_after (Remove e # ops) S = elements_after ops (S - {e})"

lemma ordered_for_keys:
  "sorted_wrt (\<lambda>x y. key x < (key y :: int)) xs \<Longrightarrow> ordered_for (\<lambda>x. key e - key x) xs"
  unfolding ordered_for_def by (rule sorted_wrt_mono_rel) auto

lemma sorted_between:
  "sorted_wrt P (as @ bs) \<Longrightarrow> \<forall>x\<in>set as. P x e \<Longrightarrow> \<forall>y\<in>set bs. P e y \<Longrightarrow> sorted_wrt P (as @ e # bs)"
  by (simp add: sorted_wrt_append)

lemma insert_place_keys:
  assumes "sorted_wrt (\<lambda>x y. key x < (key y :: int)) xs" "\<forall>z\<in>set xs. key z \<noteq> key e"
  shows "sorted_wrt (\<lambda>x y. key x < key y) (insert_place (\<lambda>x y. key x - key y) e xs)"
    "set (insert_place (\<lambda>x y. key x - key y) e xs) = insert e (set xs)"
proof -
  let ?P = "\<lambda>x. key e - key x > 0"
  have "takeWhile ?P xs @ dropWhile ?P xs = xs" by simp
  then have s: "sorted_wrt (\<lambda>x y. key x < key y) (takeWhile ?P xs @ dropWhile ?P xs)" "set xs = set (takeWhile ?P xs) \<union> set (dropWhile ?P xs)"
    using assms(1) by (simp, metis set_append)
  have l: "\<forall>x\<in>set (takeWhile ?P xs). key x < key e" by (auto dest: set_takeWhileD)
  have "\<forall>y\<in>set (dropWhile ?P xs). key e < key y"
  proof (cases "dropWhile ?P xs")
    case (Cons y ys)
    then have "\<not> ?P y" "y \<in> set xs" using hd_dropWhile [of ?P xs] s(2) by auto
    then have "key e < key y" using assms(2) by (metis diff_gt_0_iff_gt linorder_neqE_linordered_idom)
    moreover have "sorted_wrt (\<lambda>x y. key x < key y) (y # ys)" using s(1) unfolding Cons sorted_wrt_append by blast
    ultimately show ?thesis unfolding Cons by auto
  next
    case Nil
    show ?thesis unfolding Nil by simp
  qed
  then show "sorted_wrt (\<lambda>x y. key x < key y) (insert_place (\<lambda>x y. key x - key y) e xs)"
    unfolding insert_place_def using sorted_between [OF s(1) l] by blast
  show "set (insert_place (\<lambda>x y. key x - key y) e xs) = insert e (set xs)" using s(2) by (auto simp: insert_place_def)
qed

lemma rb_run_ok:
  assumes "inj key" "cmp = (\<lambda>x y. key x - (key y :: int))" "rb_inv t xs" "sorted_wrt (\<lambda>x y. key x < key y) xs" "legal_ops ops (set xs)"
  shows "\<exists>t' ys. rb_run cmp ops t = Some t' \<and> rb_inv t' ys \<and> sorted_wrt (\<lambda>x y. key x < key y) ys \<and> set ys = elements_after ops (set xs)"
  using assms(3-5)
proof (induction ops arbitrary: t xs)
  case (Cons a ops)
  show ?case
  proof (cases a)
    case (Insert e)
    then have e: "e \<noteq> NULL" "e \<notin> set xs" "legal_ops ops (insert e (set xs))" using Cons.prems(3) by auto
    then have k: "\<forall>z\<in>set xs. key z \<noteq> key e" using assms(1) by (metis injD)
    have "ordered_for (cmp e) xs" using ordered_for_keys [OF Cons.prems(2)] assms(2) by simp
    moreover have "\<forall>z\<in>set xs. cmp e z \<noteq> 0" using k by (auto simp: assms(2))
    ultimately obtain t1 where
      t1: "RB_INSERT cmp t e = Some (t1, NULL)" "rb_inv t1 (insert_place cmp e xs)"
      using rb.ins_new [where cmp = cmp, OF Cons.prems(1) _ e(1,2)] by auto
    note p = insert_place_keys [OF Cons.prems(2) k, folded assms(2)]
    from Cons.IH [OF t1(2) p(1)] show ?thesis using Insert t1(1) e(3) p(2) by auto
  next
    case (Remove e)
    then obtain as bs where xs: "xs = as @ e # bs" using Cons.prems(3) by (auto simp: in_set_conv_decomp)
    from rb.rem_elem [OF Cons.prems(1) [unfolded xs]] obtain t1 where t1: "RB_REMOVE t e = Some (t1, e)" "rb_inv t1 (as @ bs)" by auto
    have s: "sorted_wrt (\<lambda>x y. key x < key y) (as @ bs)" using Cons.prems(2) by (auto simp: xs sorted_wrt_append)
    have "set (as @ bs) = set xs - {e}" using Cons.prems(2) by (auto simp: xs sorted_wrt_append)
    with Cons.IH [OF t1(2) s] show ?thesis using Remove t1(1) Cons.prems(3) by auto
  qed
qed auto

text \<open>C31. The bound on the height that the header of the file announces, for every tree that the macros can build: any sequence of
  insertions of new elements and removals of elements that are in the tree, from \<open>RB_INIT\<close> on, with elements compared by distinct keys, runs to its end;
  the tree then holds exactly the elements that were inserted and not removed, in the order of their keys, and with \<open>n\<close> of them
  its height \<open>h\<close> is at most \<open>2 lg (n + 1)\<close>, that is, \<open>2 ^ h \<le> (n + 1)\<^sup>2\<close>.\<close>

theorem RB_height:
  assumes "inj key" and "legal_ops ops {}"
  shows "\<exists>t T. rb_run (\<lambda>x y. key x - (key y :: int)) ops (RB_INIT t0) = Some t \<and> tree_at t T \<and>
    set (inorder T) = elements_after ops {} \<and> sorted_wrt (\<lambda>x y. key x < key y) (inorder T) \<and>
    2 ^ height T \<le> (Suc (card (elements_after ops {})))\<^sup>2"
proof -
  have "rb_inv (RB_INIT t0) []"
    unfolding rb_inv_def by (intro exI [of _ Lf] exI [of _ 0]) (simp add: tree_at_def RB_INIT_def)
  from rb_run_ok [OF assms(1) refl this, of ops] assms(2) obtain t ys where t: "rb_run (\<lambda>x y. key x - key y) ops (RB_INIT t0) = Some t"
    "rb_inv t ys" "sorted_wrt (\<lambda>x y. key x < key y) ys" "set ys = elements_after ops {}" by auto
  then obtain T where T: "tree_at t T" "inorder T = ys" "2 ^ height T \<le> (Suc (length ys))\<^sup>2"
    using height_bound unfolding rb_inv_def by blast
  have "distinct ys" using t(3) by (induction ys) auto
  then have "length ys = card (elements_after ops {})" using distinct_card t(4) by metis
  then show ?thesis using t T by auto
qed

theorem RB_height_witness:
  "\<exists>t T. rb_run (\<lambda>x y. uint x - uint y) [Insert 16, Insert 32, Insert 48, Remove 32] (RB_INIT sample_tree) = Some t \<and> tree_at t T \<and>
    set (inorder T) = {16, 48} \<and> 2 ^ height T \<le> (9::nat)"
proof -
  have "inj (uint :: addr \<Rightarrow> int)" by (rule injI) (simp add: word_uint_eq_iff)
  moreover have "elements_after [Insert 16, Insert 32, Insert 48, Remove 32] {} = {16, 48}"
    "legal_ops [Insert 16, Insert 32, Insert 48, Remove 32] {}" by auto
  moreover have "(Suc (card {16, 48 :: addr}))\<^sup>2 = 9" by (simp add: power2_eq_square)
  ultimately show ?thesis using RB_height [of uint "[Insert 16, Insert 32, Insert 48, Remove 32]" sample_tree] by metis
qed

end
