(* ===== verification/Memory_Map.thy ===== *)
theory Memory_Map
  imports RB_Traverse
begin

text \<open>
  The system memory map of \<^verbatim>\<open>bal/mmap.c\<close>.  The file keeps its state in static variables: the
  head of a red-black tree of \<open>mmap_entry\<close> structures ordered by physical address, a free list
  threaded through the \<open>rbe_left\<close> fields of unused structures, a supply of structures that were
  never used, a key that counts the updates, and the table \<open>overlap_precedence\<close>, which
  \<open>gd_free_pages\<close> replaces while it works.  A structure is named by its address; its links are in
  the store of the tree and its \<open>entry\<close> in the store \<open>ents\<close>.
\<close>

section \<open>Data\<close>

datatype gd_memory_type =
    gd_reserved_memory_type
  | gd_loader_code
  | gd_loader_data
  | gd_boot_services_code
  | gd_boot_services_data
  | gd_runtime_services_code
  | gd_runtime_services_data
  | gd_conventional_memory
  | gd_unusable_memory
  | gd_acpi_reclaim_memory
  | gd_acpi_memory_nvs
  | gd_mmio
  | gd_mmio_port_space
  | gd_pal_code
  | gd_memory_force_size

record gd_memory_map_entry =
  etype :: gd_memory_type
  physical_start :: u64
  virtual_start :: u64
  esize :: u64
  attributes :: u64

text \<open>The value of an entry whose members are not initialised explicitly.\<close>

definition zero_entry :: gd_memory_map_entry where
  "zero_entry = \<lparr>etype = gd_reserved_memory_type, physical_start = 0, virtual_start = 0, esize = 0,
     attributes = 0\<rparr>"

record mmap_state =
  mmap :: rb_tree
  ents :: "addr \<Rightarrow> gd_memory_map_entry"
  last_freed :: addr
  alloc_next :: addr
  allocatable :: u64
  mmap_key :: u64
  overlap_precedence :: "gd_memory_type list"

text \<open>
  On a 64-bit target an \<open>mmap_entry\<close> has 32 bytes of links and 40 bytes of entry.
\<close>

definition sizeof_mmap_entry :: u64 where
  "sizeof_mmap_entry = 72"

definition UINTPTR_MAX :: u64 where
  "UINTPTR_MAX = 0xFFFFFFFFFFFFFFFF"

definition MMAP_STATIC_SLOTS :: u64 where
  "MMAP_STATIC_SLOTS = 32"

definition default_precedence :: "gd_memory_type list" where
  "default_precedence =
     [gd_unusable_memory, gd_pal_code, gd_mmio_port_space, gd_mmio,
      gd_acpi_memory_nvs, gd_runtime_services_code, gd_runtime_services_data,
      gd_acpi_reclaim_memory, gd_loader_code, gd_loader_data, gd_boot_services_code,
      gd_boot_services_data, gd_conventional_memory, gd_reserved_memory_type]"

definition free_precedence :: "gd_memory_type list" where
  "free_precedence =
     [gd_unusable_memory, gd_conventional_memory, gd_pal_code, gd_mmio_port_space, gd_mmio,
      gd_acpi_memory_nvs, gd_runtime_services_code, gd_runtime_services_data,
      gd_acpi_reclaim_memory, gd_loader_code, gd_loader_data, gd_boot_services_code,
      gd_boot_services_data, gd_reserved_memory_type]"

text \<open>The static variables before the first call; \<open>static_slots\<close> is the address of the array.\<close>

definition mmap_initial :: "addr \<Rightarrow> mmap_state" where
  "mmap_initial static_slots =
     \<lparr>mmap = \<lparr>rbn = (\<lambda>_. \<lparr>rbe_left = NULL, rbe_right = NULL, rbe_parent = NULL, rbe_color = RB_BLACK\<rparr>),
              rbh_root = NULL\<rparr>,
      ents = (\<lambda>_. zero_entry), last_freed = NULL, alloc_next = static_slots,
      allocatable = MMAP_STATIC_SLOTS, mmap_key = 0, overlap_precedence = default_precedence\<rparr>"

definition mmap_entry_cmp :: "mmap_state \<Rightarrow> addr \<Rightarrow> addr \<Rightarrow> int" where
  "mmap_entry_cmp st l r =
     (if physical_start (ents st l) < physical_start (ents st r) then -1
      else if physical_start (ents st l) > physical_start (ents st r) then 1 else 0)"

abbreviation upd_ent ::
  "(gd_memory_map_entry \<Rightarrow> gd_memory_map_entry) \<Rightarrow> addr \<Rightarrow> mmap_state \<Rightarrow> mmap_state" where
  "upd_ent f x st \<equiv> st\<lparr>ents := (ents st)(x := f (ents st x))\<rparr>"

text \<open>The address one past the region, in 64-bit arithmetic.\<close>

abbreviation end_of :: "gd_memory_map_entry \<Rightarrow> u64" where
  "end_of e \<equiv> physical_start e + esize e"

abbreviation touch_key :: "mmap_state \<Rightarrow> mmap_state" where
  "touch_key st \<equiv> st\<lparr>mmap_key := mmap_key st + 1\<rparr>"

section \<open>Freeing and merging\<close>

definition mmap_free_entry :: "mmap_state \<Rightarrow> addr \<Rightarrow> mmap_state outcome" where
  "mmap_free_entry st ent = orcrash (do {
     t \<leftarrow> set_left (mmap st) ent (last_freed st);
     t \<leftarrow> set_parent t ent NULL;
     t \<leftarrow> set_right t ent NULL;
     Some (st\<lparr>mmap := t, last_freed := ent\<rparr>) })"

text \<open>\<open>RB_REMOVE\<close> followed by \<open>mmap_free_entry\<close>.\<close>

definition remove_and_free :: "mmap_state \<Rightarrow> addr \<Rightarrow> mmap_state outcome" where
  "remove_and_free st ent =
     andthen (orcrash (RB_REMOVE (mmap st) ent)) (\<lambda>(t, _). mmap_free_entry (st\<lparr>mmap := t\<rparr>) ent)"

definition adjoins :: "mmap_state \<Rightarrow> addr \<Rightarrow> addr \<Rightarrow> bool" where
  "adjoins st x y \<longleftrightarrow> etype (ents st x) = etype (ents st y) \<and> end_of (ents st x) = physical_start (ents st y)"

definition absorb :: "mmap_state \<Rightarrow> addr \<Rightarrow> addr \<Rightarrow> mmap_state outcome" where
  "absorb st x y =
     andthen (remove_and_free (upd_ent (\<lambda>e. e\<lparr>esize := esize e + esize (ents st y)\<rparr>) x st) y)
       (\<lambda>st. Inr (touch_key st))"

definition merge_adjacent :: "mmap_state \<Rightarrow> addr \<Rightarrow> mmap_state outcome" where
  "merge_adjacent st middle =
     andthen (orcrash (RB_PREV (mmap st) middle)) (\<lambda>prev.
     andthen (orcrash (RB_NEXT (mmap st) middle)) (\<lambda>next.
     andthen (if prev \<noteq> NULL \<and> adjoins st prev middle
              then andthen (absorb st prev middle) (\<lambda>st. Inr (st, prev))
              else Inr (st, middle)) (\<lambda>(st, middle).
     if next \<noteq> NULL \<and> adjoins st middle next then absorb st middle next else Inr st)))"

section \<open>Allocating a structure\<close>

text \<open>A loop \<open>RB_FOREACH\<close> that stops at the first element with \<open>stop\<close>; \<open>NULL\<close> if there is none.\<close>

partial_function (option) foreach_until :: "(addr \<Rightarrow> bool) \<Rightarrow> rb_tree \<Rightarrow> addr \<Rightarrow> addr option" where
  "foreach_until stop t x =
     (if x = NULL then Some NULL
      else if stop x then Some x
      else do { n \<leftarrow> RB_NEXT t x; foreach_until stop t n })"

text \<open>\<open>nb\<close> is a neighbour of type \<open>ty\<close> that ends where \<open>mme\<close> starts, or the other way round.\<close>

definition ends_at :: "gd_memory_type \<Rightarrow> mmap_state \<Rightarrow> addr \<Rightarrow> addr \<Rightarrow> bool" where
  "ends_at ty st nb mme \<longleftrightarrow> nb \<noteq> NULL \<and> etype (ents st nb) = ty \<and> end_of (ents st nb) = physical_start (ents st mme)"

definition starts_after :: "gd_memory_type \<Rightarrow> mmap_state \<Rightarrow> addr \<Rightarrow> addr \<Rightarrow> bool" where
  "starts_after ty st nb mme \<longleftrightarrow> nb \<noteq> NULL \<and> etype (ents st nb) = ty \<and> end_of (ents st mme) = physical_start (ents st nb)"

text \<open>\<open>mme\<close> loses its first, or its last, \<open>n\<close> bytes to the neighbour.\<close>

definition slice_first :: "u64 \<Rightarrow> addr \<Rightarrow> addr \<Rightarrow> mmap_state \<Rightarrow> mmap_state" where
  "slice_first n nb mme st =
     upd_ent (\<lambda>e. e\<lparr>physical_start := physical_start e + n\<rparr>) mme
      (upd_ent (\<lambda>e. e\<lparr>esize := esize e - n\<rparr>) mme
        (upd_ent (\<lambda>e. e\<lparr>esize := esize e + n\<rparr>) nb st))"

definition slice_last :: "u64 \<Rightarrow> addr \<Rightarrow> addr \<Rightarrow> mmap_state \<Rightarrow> mmap_state" where
  "slice_last n nb mme st =
     upd_ent (\<lambda>e. e\<lparr>esize := esize e - n\<rparr>) mme
      (upd_ent (\<lambda>e. e\<lparr>physical_start := physical_start e - n\<rparr>) nb
        (upd_ent (\<lambda>e. e\<lparr>esize := esize e + n\<rparr>) nb st))"

text \<open>
  The body of the loop of \<open>mmap_alloc_entry\<close> for an entry \<open>mme\<close> of conventional memory: one page of
  it becomes loader data and the new supply of structures.
\<close>

definition carve_page :: "mmap_state \<Rightarrow> addr \<Rightarrow> mmap_state outcome" where
  "carve_page st mme =
     (let page = physical_start (ents st mme); slots = 4096 div sizeof_mmap_entry in
      if esize (ents st mme) = 4096 then
        merge_adjacent (upd_ent (\<lambda>e. e\<lparr>etype := gd_loader_data\<rparr>) mme
          (st\<lparr>alloc_next := page, allocatable := slots\<rparr>)) mme
      else andthen (orcrash (RB_PREV (mmap st) mme)) (\<lambda>nb.
        if ends_at gd_loader_data st nb mme then
          Inr (slice_first 4096 nb mme (st\<lparr>alloc_next := page, allocatable := slots\<rparr>))
        else andthen (orcrash (RB_NEXT (mmap st) mme)) (\<lambda>nb.
          if starts_after gd_loader_data st nb mme then
            (if end_of (ents st mme) > UINTPTR_MAX then Inr st
             else (let st = slice_last 4096 nb mme st in
               Inr (st\<lparr>alloc_next := physical_start (ents st nb), allocatable := slots\<rparr>)))
          else if page = NULL then Inl Crash
          else (let st = upd_ent (\<lambda>e. e\<lparr>esize := esize e - 4096\<rparr>) mme
                 (upd_ent (\<lambda>e. e\<lparr>physical_start := physical_start e + 4096\<rparr>) mme
                 (upd_ent (\<lambda>e. e\<lparr>etype := gd_loader_data, physical_start := page, esize := 4096,
                     attributes := attributes (ents st mme)\<rparr>) page st)) in
            andthen (orcrash (RB_INSERT (mmap_entry_cmp st) (mmap st) page)) (\<lambda>(t, _).
              Inr (st\<lparr>mmap := t, alloc_next := page + sizeof_mmap_entry, allocatable := slots - 1\<rparr>))))))"

definition alloc_stops :: "mmap_state \<Rightarrow> addr \<Rightarrow> bool" where
  "alloc_stops st x \<longleftrightarrow> physical_start (ents st x) + 4096 > UINTPTR_MAX \<or> etype (ents st x) = gd_conventional_memory"

definition refill :: "mmap_state \<Rightarrow> mmap_state outcome" where
  "refill st =
     andthen (orcrash (RB_MIN (mmap st) \<bind> foreach_until (alloc_stops st) (mmap st))) (\<lambda>mme.
     if mme \<noteq> NULL \<and> \<not> physical_start (ents st mme) + 4096 > UINTPTR_MAX
     then andthen (carve_page st mme) (\<lambda>st. Inr (touch_key st)) else Inr st)"

definition mmap_alloc_entry :: "mmap_state \<Rightarrow> (mmap_state \<times> addr) outcome" where
  "mmap_alloc_entry st =
     (if last_freed st \<noteq> NULL
      then Inr (st\<lparr>last_freed := rbe_left (rbn (mmap st) (last_freed st))\<rparr>, last_freed st)
      else andthen (if allocatable st = 0 then refill st else Inr st) (\<lambda>st.
        if allocatable st = 0 then Inl (Panic ''Out of memory'')
        else Inr (st\<lparr>alloc_next := alloc_next st + sizeof_mmap_entry, allocatable := allocatable st - 1\<rparr>,
               alloc_next st)))"

section \<open>Precedence and overlaps\<close>

fun precedence_scan :: "gd_memory_type list \<Rightarrow> gd_memory_type \<Rightarrow> gd_memory_type \<Rightarrow> gd_memory_type" where
  "precedence_scan [] a b = gd_unusable_memory"
| "precedence_scan (t # ts) a b = (if t = a then a else if t = b then b else precedence_scan ts a b)"

definition higher_precedence :: "mmap_state \<Rightarrow> gd_memory_type \<Rightarrow> gd_memory_type \<Rightarrow> gd_memory_type" where
  "higher_precedence st a b = precedence_scan (overlap_precedence st) a b"

text \<open>
  \<open>fix_overlap\<close> and \<open>mmap_add_entry\<close> call each other.  The bodies take the functions to call
  recursively as arguments; \<open>bad_tree\<close> is the message of the panics of \<open>mmap_add_entry\<close>.
\<close>

definition bad_tree :: fault where
  "bad_tree = Panic ''Bad memory map tree?''"

text \<open>The common end of \<open>fix_overlap\<close>: the overlap becomes \<open>second\<close> and the rest is added again.\<close>

definition split_overlap ::
  "(mmap_state \<Rightarrow> gd_memory_map_entry \<Rightarrow> mmap_state outcome) \<Rightarrow> mmap_state \<Rightarrow> addr \<Rightarrow> addr \<Rightarrow>
   gd_memory_type \<Rightarrow> gd_memory_map_entry \<Rightarrow> mmap_state outcome" where
  "split_overlap add st first second type new_entry =
     (let st = upd_ent (\<lambda>e. e\<lparr>attributes := attributes (ents st first) OR attributes e\<rparr>) second st;
          st = upd_ent (\<lambda>e. e\<lparr>etype := type\<rparr>) second st;
          st = upd_ent (\<lambda>e. e\<lparr>esize := physical_start new_entry - physical_start e\<rparr>) second st;
          st = upd_ent (\<lambda>e. e\<lparr>esize := physical_start (ents st second) - physical_start e\<rparr>) first st
      in add st new_entry)"

definition fix_overlap_body ::
  "(mmap_state \<Rightarrow> addr \<Rightarrow> mmap_state outcome) \<Rightarrow> (mmap_state \<Rightarrow> gd_memory_map_entry \<Rightarrow> mmap_state outcome) \<Rightarrow>
   mmap_state \<Rightarrow> addr \<Rightarrow> mmap_state outcome" where
  "fix_overlap_body fix_rec add st first =
     (if first = NULL then Inr st
      else andthen (orcrash (RB_NEXT (mmap st) first)) (\<lambda>second.
        if second = NULL then Inr st
        else (let e1 = ents st first; e2 = ents st second in
          if end_of e1 \<le> physical_start e2 then Inr st
          else (let type = higher_precedence st (etype e1) (etype e2) in
            if end_of e1 < end_of e2 then
              (if type = etype e1 then
                 (let z = end_of e2 - end_of e1 in
                  Inr (upd_ent (\<lambda>e. e\<lparr>esize := z, physical_start := end_of e2 - z\<rparr>) second st))
               else if type = etype e2 then
                 Inr (upd_ent (\<lambda>e. e\<lparr>esize := physical_start e2 - physical_start e1\<rparr>) first st)
               else split_overlap add st first second type
                 (zero_entry\<lparr>physical_start := end_of e1, esize := end_of e2 - end_of e1, etype := type,
                    attributes := attributes e2\<rparr>))
            else if end_of e1 > end_of e2 then
              (if type = etype e1 then
                 andthen (remove_and_free st second) (\<lambda>st. fix_rec st first)
               else split_overlap add st first second type
                 (zero_entry\<lparr>physical_start := end_of e2, esize := end_of e1 - end_of e2, etype := etype e1,
                    attributes := attributes e1\<rparr>))
            else
              Inr (upd_ent (\<lambda>e. e\<lparr>esize := physical_start e2 - physical_start e1\<rparr>) first
                (upd_ent (\<lambda>e. e\<lparr>etype := type\<rparr>) second st))))))"

text \<open>\<open>mmap_add_entry\<close> from the first \<open>RB_INSERT\<close> on, and from the call of \<open>mmap_alloc_entry\<close> on.\<close>

definition place_entry ::
  "(mmap_state \<Rightarrow> addr \<Rightarrow> mmap_state outcome) \<Rightarrow> mmap_state \<Rightarrow> addr \<Rightarrow> mmap_state outcome" where
  "place_entry fix st newent =
     andthen (orcrash (RB_INSERT (mmap_entry_cmp st) (mmap st) newent)) (\<lambda>(t, oldent).
     let st = st\<lparr>mmap := t\<rparr> in
     andthen
       (if oldent \<noteq> NULL then
          (let type = higher_precedence st (etype (ents st oldent)) (etype (ents st newent));
               osize = esize (ents st oldent); nsize = esize (ents st newent) in
           if osize = nsize then
             andthen (mmap_free_entry (upd_ent (\<lambda>e. e\<lparr>etype := type\<rparr>) oldent st) newent)
               (\<lambda>st. merge_adjacent st oldent)
           else if osize > nsize then
             (let st = upd_ent (\<lambda>e. e\<lparr>etype := type\<rparr>) newent st;
                  st = upd_ent (\<lambda>e. e\<lparr>esize := esize e - nsize, physical_start := physical_start e + nsize\<rparr>) oldent st in
              andthen (orcrash (RB_INSERT (mmap_entry_cmp st) (mmap st) newent)) (\<lambda>(t, r).
              if r \<noteq> NULL then Inl bad_tree else merge_adjacent (st\<lparr>mmap := t\<rparr>) newent))
           else
             (let st = upd_ent (\<lambda>e. e\<lparr>etype := type\<rparr>) oldent st;
                  st = upd_ent (\<lambda>e. e\<lparr>esize := esize e - osize, physical_start := physical_start e + osize\<rparr>) newent st in
              andthen (orcrash (RB_INSERT (mmap_entry_cmp st) (mmap st) newent)) (\<lambda>(t, r).
              if r \<noteq> NULL then Inl bad_tree
              else andthen (fix (st\<lparr>mmap := t\<rparr>) newent) (\<lambda>st. merge_adjacent st newent))))
        else
          andthen (fix st newent) (\<lambda>st.
          andthen (orcrash (RB_PREV (mmap st) newent)) (\<lambda>prev.
          andthen (fix st prev) (\<lambda>st.
          merge_adjacent st newent))))
       (\<lambda>st. Inr (touch_key st)))"

definition insert_entry ::
  "(mmap_state \<Rightarrow> addr \<Rightarrow> mmap_state outcome) \<Rightarrow> mmap_state \<Rightarrow> gd_memory_map_entry \<Rightarrow> mmap_state outcome" where
  "insert_entry fix st entry =
     andthen (mmap_alloc_entry st) (\<lambda>(st, newent).
       if newent = NULL then Inl Crash else place_entry fix (upd_ent (\<lambda>_. entry) newent st) newent)"

text \<open>The page that holds the byte \<open>a\<close>, as an unusable region.\<close>

definition unusable_page :: "u64 \<Rightarrow> gd_memory_map_entry" where
  "unusable_page a = zero_entry\<lparr>physical_start := a AND NOT 0xFFF, esize := 0x1000, etype := gd_unusable_memory\<rparr>"

definition add_entry_body ::
  "(mmap_state \<Rightarrow> addr \<Rightarrow> mmap_state outcome) \<Rightarrow> (mmap_state \<Rightarrow> gd_memory_map_entry \<Rightarrow> mmap_state outcome) \<Rightarrow>
   mmap_state \<Rightarrow> gd_memory_map_entry \<Rightarrow> mmap_state outcome" where
  "add_entry_body fix add st entry =
     (let tail = (\<lambda>st entry.
        if esize entry AND 0xFFF \<noteq> 0 then
          andthen (add st (unusable_page (end_of entry))) (\<lambda>st.
            let entry = entry\<lparr>esize := esize entry AND NOT 0xFFF\<rparr> in
            if esize entry = 0 then Inr st else insert_entry fix st entry)
        else insert_entry fix st entry)
      in if esize entry = 0 then Inr st
      else if physical_start entry AND 0xFFF \<noteq> 0 then
        (let unusable = unusable_page (physical_start entry);
             gap = 0x1000 - (physical_start entry AND 0xFFF) in
         andthen (add st unusable) (\<lambda>st.
           if esize entry > gap
           then tail st (entry\<lparr>esize := esize entry - gap, physical_start := end_of unusable\<rparr>)
           else Inr st))
      else tail st entry)"

fun fix_overlap :: "nat \<Rightarrow> mmap_state \<Rightarrow> addr \<Rightarrow> mmap_state outcome"
  and mmap_add_entry :: "nat \<Rightarrow> mmap_state \<Rightarrow> gd_memory_map_entry \<Rightarrow> mmap_state outcome" where
  "fix_overlap 0 st first = Inl Fuel"
| "fix_overlap (Suc n) st first = fix_overlap_body (fix_overlap n) (mmap_add_entry n) st first"
| "mmap_add_entry 0 st entry = Inl Fuel"
| "mmap_add_entry (Suc n) st entry = add_entry_body (fix_overlap n) (mmap_add_entry n) st entry"

section \<open>Pages\<close>

definition ENOMEM :: int where
  "ENOMEM = 12"

definition alloc_suits :: "mmap_state \<Rightarrow> u64 \<Rightarrow> addr \<Rightarrow> bool" where
  "alloc_suits st count x \<longleftrightarrow>
     etype (ents st x) = gd_conventional_memory \<and> esize (ents st x) \<ge> count * 4096"

definition past_limit :: "mmap_state \<Rightarrow> u64 \<Rightarrow> addr \<Rightarrow> bool" where
  "past_limit st count x \<longleftrightarrow> physical_start (ents st x) + count * 4096 > UINTPTR_MAX"

text \<open>
  The body of the loop of \<open>gd_alloc_pages\<close> for a suitable entry: \<open>Inr (st, Some a)\<close> is the return
  with \<open>*presult = a\<close>, and \<open>Inr (st, None)\<close> leaves the loop by \<open>break\<close>.
\<close>

definition take_pages ::
  "mmap_state \<Rightarrow> gd_memory_type \<Rightarrow> u64 \<Rightarrow> addr \<Rightarrow> (mmap_state \<times> addr option) outcome" where
  "take_pages st type count mme =
     (let n = count * 4096; start = physical_start (ents st mme) in
      if esize (ents st mme) = n then
        andthen (merge_adjacent (upd_ent (\<lambda>e. e\<lparr>etype := type\<rparr>) mme st) mme) (\<lambda>st.
          Inr (touch_key st, Some start))
      else andthen (orcrash (RB_PREV (mmap st) mme)) (\<lambda>nb.
        if ends_at type st nb mme then
          Inr (touch_key (slice_first n nb mme st), Some start)
        else andthen (orcrash (RB_NEXT (mmap st) mme)) (\<lambda>nb.
          if starts_after type st nb mme then
            (if end_of (ents st mme) > UINTPTR_MAX then Inr (st, None)
             else (let st = slice_last n nb mme st in
               Inr (touch_key st, Some (physical_start (ents st nb)))))
          else andthen (mmap_alloc_entry st) (\<lambda>(st, new_entry).
            if new_entry = NULL then Inl Crash
            else (let st = upd_ent (\<lambda>e. e\<lparr>etype := type, physical_start := physical_start (ents st mme),
                       esize := n, attributes := attributes (ents st mme)\<rparr>) new_entry st;
                     st = upd_ent (\<lambda>e. e\<lparr>physical_start := physical_start e + n, esize := esize e - n\<rparr>) mme st in
              andthen (orcrash (RB_INSERT (mmap_entry_cmp st) (mmap st) new_entry)) (\<lambda>(t, _).
                Inr (touch_key (st\<lparr>mmap := t\<rparr>), Some start)))))))"

text \<open>The result is the return value and the value stored in \<open>*presult\<close>, if any.\<close>

definition gd_alloc_pages ::
  "mmap_state \<Rightarrow> gd_memory_type \<Rightarrow> u64 \<Rightarrow> (mmap_state \<times> int \<times> addr option) outcome" where
  "gd_alloc_pages st type count =
     (if count = 0 then Inr (st, 0, None)
      else andthen (orcrash (RB_MIN (mmap st) \<bind>
             foreach_until (\<lambda>x. past_limit st count x \<or> alloc_suits st count x) (mmap st))) (\<lambda>mme.
        if mme = NULL \<or> past_limit st count mme then Inr (st, ENOMEM, None)
        else andthen (take_pages st type count mme) (\<lambda>(st, r).
          case r of Some a \<Rightarrow> Inr (st, 0, Some a) | None \<Rightarrow> Inr (st, ENOMEM, None))))"

definition gd_free_pages :: "nat \<Rightarrow> mmap_state \<Rightarrow> addr \<Rightarrow> u64 \<Rightarrow> (mmap_state \<times> int) outcome" where
  "gd_free_pages fuel st start_address count =
     (let free = zero_entry\<lparr>physical_start := start_address, esize := count * 4096, etype := gd_conventional_memory\<rparr>;
          temp = overlap_precedence st in
      andthen (mmap_add_entry fuel (st\<lparr>overlap_precedence := free_precedence\<rparr>) free) (\<lambda>st.
        Inr (st\<lparr>overlap_precedence := temp\<rparr>, 0)))"

section \<open>The whole map\<close>

partial_function (option) clean_from :: "rb_tree \<Rightarrow> addr \<Rightarrow> rb_tree option" where
  "clean_from t mme =
     (if mme = NULL then Some t
      else do { next \<leftarrow> RB_NEXT t mme; (t, _) \<leftarrow> RB_REMOVE t mme; clean_from t next })"

definition mmap_clean :: "addr \<Rightarrow> mmap_state \<Rightarrow> mmap_state outcome" where
  "mmap_clean static_slots st =
     andthen (orcrash (RB_MIN (mmap st) \<bind> clean_from (mmap st))) (\<lambda>t.
       Inr (st\<lparr>mmap := t, alloc_next := static_slots, allocatable := MMAP_STATIC_SLOTS, last_freed := NULL\<rparr>))"

text \<open>
  \<open>mmap_get\<close>: the table with its first entries overwritten, the number of entries of the map and
  the key.
\<close>

fun copy_entries :: "(addr \<Rightarrow> gd_memory_map_entry) \<Rightarrow> addr list \<Rightarrow> gd_memory_map_entry list \<Rightarrow>
    gd_memory_map_entry list" where
  "copy_entries E [] tab = tab"
| "copy_entries E (x # xs) [] = []"
| "copy_entries E (x # xs) (_ # tab) = E x # copy_entries E xs tab"

definition mmap_get :: "mmap_state \<Rightarrow> gd_memory_map_entry list \<Rightarrow>
    (gd_memory_map_entry list \<times> u64 \<times> u64) outcome" where
  "mmap_get st tab =
     andthen (orcrash (RB_FOREACH (mmap st))) (\<lambda>xs.
       Inr (copy_entries (ents st) xs tab, of_nat (length xs), mmap_key st))"

end
