(* ===== verification/Memory_Map_Store.thy ===== *)
theory Memory_Map_Store
  imports Memory_Map
begin

text \<open>
  Who owns the \<open>mmap_entry\<close> structures: each of them is in the tree, on the free list, in the
  supply of unused ones, or in the hands of the running operation.  The lemmas give the effect of
  the primitive steps of \<^verbatim>\<open>mmap.c\<close> on this partition, through the ordered-tree contract.
\<close>

section \<open>Ownership\<close>

fun free_chain :: "(addr \<Rightarrow> rb_entry) \<Rightarrow> addr \<Rightarrow> addr list \<Rightarrow> bool" where
  "free_chain h p [] \<longleftrightarrow> p = NULL"
| "free_chain h p (f # fs) \<longleftrightarrow> p = f \<and> f \<noteq> NULL \<and> rbe_right (h f) = NULL \<and> rbe_parent (h f) = NULL \<and>
     free_chain h (rbe_left (h f)) fs"

fun slots_from :: "addr \<Rightarrow> nat \<Rightarrow> addr list" where
  "slots_from a 0 = []"
| "slots_from a (Suc n) = a # slots_from (a + sizeof_mmap_entry) n"

definition unused :: "mmap_state \<Rightarrow> addr list" where
  "unused st = slots_from (alloc_next st) (unat (allocatable st))"

definition mm :: "mmap_state \<Rightarrow> addr list \<Rightarrow> addr list \<Rightarrow> bool" where
  "mm st xs fs \<longleftrightarrow> rb_inv (mmap st) xs \<and> free_chain (rbn (mmap st)) (last_freed st) fs \<and>
     distinct (xs @ fs @ unused st) \<and> NULL \<notin> set (unused st)"

definition fresh :: "mmap_state \<Rightarrow> addr list \<Rightarrow> addr list \<Rightarrow> addr \<Rightarrow> bool" where
  "fresh st xs fs e \<longleftrightarrow> e \<noteq> NULL \<and> e \<notin> set xs \<and> e \<notin> set fs \<and> e \<notin> set (unused st)"

definition avail :: "mmap_state \<Rightarrow> addr list \<Rightarrow> nat" where
  "avail st fs = length fs + unat (allocatable st)"

lemma mm_ents [simp]: "mm (st\<lparr>ents := E\<rparr>) xs fs = mm st xs fs"
  by (simp add: mm_def unused_def)

lemma mm_key [simp]: "mm (st\<lparr>mmap_key := k\<rparr>) xs fs = mm st xs fs"
  by (simp add: mm_def unused_def)

lemma mm_prec [simp]: "mm (st\<lparr>overlap_precedence := p\<rparr>) xs fs = mm st xs fs"
  by (simp add: mm_def unused_def)

lemma fresh_upd [simp]:
  "fresh (st\<lparr>ents := E\<rparr>) xs fs e = fresh st xs fs e"
  "fresh (st\<lparr>mmap := t\<rparr>) xs fs e = fresh st xs fs e"
  "fresh (st\<lparr>mmap_key := k\<rparr>) xs fs e = fresh st xs fs e"
  by (simp_all add: fresh_def unused_def)

lemma avail_upd [simp]:
  "avail (st\<lparr>ents := E\<rparr>) fs = avail st fs"
  "avail (st\<lparr>mmap := t\<rparr>) fs = avail st fs"
  "avail (st\<lparr>mmap_key := k\<rparr>) fs = avail st fs"
  "avail (st\<lparr>overlap_precedence := p\<rparr>) fs = avail st fs"
  by (simp_all add: avail_def)

lemma mm_distinct: "mm st xs fs \<Longrightarrow> distinct xs"
  by (simp add: mm_def)

lemma mm_not_null: "mm st xs fs \<Longrightarrow> x \<in> set xs \<Longrightarrow> x \<noteq> NULL"
  using rb.elems_null by (auto simp: mm_def)

lemma free_chain_cong:
  "(\<And>z. z \<in> set fs \<Longrightarrow> h z = h' z) \<Longrightarrow> free_chain h p fs \<longleftrightarrow> free_chain h' p fs"
  by (induction fs arbitrary: p) auto

lemma free_chain_upd [simp]: "e \<notin> set fs \<Longrightarrow> free_chain (h(e := v)) p fs = free_chain h p fs"
  by (induction fs arbitrary: p) auto

section \<open>Allocation and release\<close>

lemma alloc_ok:
  assumes mm: "mm st xs fs" and av: "avail st fs > 0"
  obtains st' e fs' where "mmap_alloc_entry st = Inr (st', e)" "mm st' xs fs'" "fresh st' xs fs' e"
    "ents st' = ents st" "mmap st' = mmap st" "overlap_precedence st' = overlap_precedence st"
    "mmap_key st' = mmap_key st" "Suc (avail st' fs') = avail st fs" "fs = e # fs' \<or> fs = [] \<and> fs' = []"
proof (cases fs)
  case Nil
  with mm have lf: "last_freed st = NULL" by (simp add: mm_def)
  obtain n where n: "unat (allocatable st) = Suc n" using av Nil by (cases "unat (allocatable st)") (auto simp: avail_def)
  then have nz: "allocatable st \<noteq> 0" by auto
  have un: "unat (allocatable st - 1) = n" using n by (simp add: unat_minus_one nz)
  let ?st = "st\<lparr>alloc_next := alloc_next st + sizeof_mmap_entry, allocatable := allocatable st - 1\<rparr>"
  have un': "unused st = alloc_next st # unused ?st" using n un by (simp add: unused_def)
  show thesis
  proof (rule that [of ?st "alloc_next st" "[]"])
    show "mmap_alloc_entry st = Inr (?st, alloc_next st)" using lf nz by (simp add: mmap_alloc_entry_def)
    show "mm ?st xs []" "fresh ?st xs [] (alloc_next st)"
      using mm un' Nil lf by (auto simp: mm_def fresh_def)
    show "Suc (avail ?st []) = avail st fs" using n un Nil by (simp add: avail_def)
  qed (use Nil in auto)
next
  case (Cons f fs')
  let ?st = "st\<lparr>last_freed := rbe_left (rbn (mmap st) f)\<rparr>"
  have f: "last_freed st = f" "f \<noteq> NULL" using mm Cons by (auto simp: mm_def)
  have u: "unused ?st = unused st" by (simp add: unused_def)
  show thesis
  proof (rule that [of ?st f fs'])
    show "mmap_alloc_entry st = Inr (?st, f)" using f by (simp add: mmap_alloc_entry_def)
    show "mm ?st xs fs'" "fresh ?st xs fs' f" using mm Cons f by (auto simp: mm_def fresh_def u)
    show "Suc (avail ?st fs') = avail st fs" using Cons by (simp add: avail_def)
  qed (use Cons in auto)
qed

text \<open>What a step that only moves structures around leaves alone.\<close>

definition same_env :: "mmap_state \<Rightarrow> mmap_state \<Rightarrow> bool" where
  "same_env st st' \<longleftrightarrow> ents st' = ents st \<and> overlap_precedence st' = overlap_precedence st \<and>
     alloc_next st' = alloc_next st \<and> allocatable st' = allocatable st \<and> mmap_key st' = mmap_key st"

lemma same_envD:
  assumes "same_env st st'"
  shows "ents st' = ents st" "overlap_precedence st' = overlap_precedence st" "avail st' fs = avail st fs"
    "unused st' = unused st"
  using assms by (auto simp: same_env_def avail_def unused_def)

lemma free_ok:
  assumes mm: "mm st xs fs" and e: "fresh st xs fs e"
  obtains st' where "mmap_free_entry st e = Inr st'" "mm st' xs (e # fs)" "same_env st st'"
    "last_freed st' = e" "rbn (mmap st') e = \<lparr>rbe_left = last_freed st, rbe_right = NULL, rbe_parent = NULL,
      rbe_color = rbe_color (rbn (mmap st) e)\<rparr>"
proof -
  let ?n = "\<lparr>rbe_left = last_freed st, rbe_right = NULL, rbe_parent = NULL, rbe_color = rbe_color (rbn (mmap st) e)\<rparr>"
  let ?t = "(mmap st)\<lparr>rbn := (rbn (mmap st))(e := ?n)\<rparr>"
  let ?st = "st\<lparr>mmap := ?t, last_freed := e\<rparr>"
  have n: "(rbn (mmap st) e)\<lparr>rbe_left := last_freed st, rbe_parent := NULL, rbe_right := NULL\<rparr> = ?n" by simp
  have "mmap_free_entry st e = Inr ?st"
    using e by (simp add: mmap_free_entry_def field_defs fresh_def n)
  moreover have "rb_inv ?t xs"
    using mm e by (auto simp: mm_def fresh_def intro!: rb_inv_frame [of "mmap st" xs ?t])
  moreover have "free_chain (rbn ?t) (last_freed st) fs"
    using mm e by (simp add: mm_def fresh_def)
  moreover have "unused ?st = unused st" by (simp add: unused_def)
  ultimately have "mm ?st xs (e # fs)" using mm e by (auto simp: mm_def fresh_def)
  with \<open>mmap_free_entry st e = Inr ?st\<close> show thesis
    by (intro that [of ?st]) (simp_all add: same_env_def)
qed

lemma remove_ok:
  assumes mm: "mm st (as @ x # bs) fs"
  obtains st' where "remove_and_free st x = Inr st'" "mm st' (as @ bs) (x # fs)" "same_env st st'"
    "last_freed st' = x" "rbe_left (rbn (mmap st') x) = last_freed st"
    "rbe_right (rbn (mmap st') x) = NULL" "rbe_parent (rbn (mmap st') x) = NULL"
proof -
  from mm rb.rem_elem [of "mmap st" as x bs] obtain t where t: "RB_REMOVE (mmap st) x = Some (t, x)"
    "rb_inv t (as @ bs)" "\<And>z. z \<notin> set (as @ x # bs) \<Longrightarrow> rbn t z = rbn (mmap st) z"
    by (auto simp: mm_def)
  let ?st = "st\<lparr>mmap := t\<rparr>"
  have "rbn t z = rbn (mmap st) z" if "z \<in> set fs" for z
    using t(3) [of z] mm that by (auto simp: mm_def)
  then have "free_chain (rbn t) (last_freed st) fs"
    using mm free_chain_cong [of fs "rbn t" "rbn (mmap st)"] by (simp add: mm_def)
  with mm t(2) have mm': "mm ?st (as @ bs) fs" by (auto simp: mm_def unused_def)
  have "fresh ?st (as @ bs) fs x"
    using mm mm_not_null [OF mm, of x] by (auto simp: mm_def fresh_def unused_def)
  from free_ok [OF mm' this] obtain st' where "mmap_free_entry ?st x = Inr st'" "mm st' (as @ bs) (x # fs)"
    "same_env ?st st'" "last_freed st' = x" "rbn (mmap st') x = \<lparr>rbe_left = last_freed ?st, rbe_right = NULL,
      rbe_parent = NULL, rbe_color = rbe_color (rbn (mmap ?st) x)\<rparr>" by blast
  with t(1) that [of st'] show thesis by (simp add: remove_and_free_def same_env_def)
qed

section \<open>Insertion\<close>

abbreviation start_of :: "mmap_state \<Rightarrow> addr \<Rightarrow> u64" where
  "start_of st x \<equiv> physical_start (ents st x)"

lemma insert_ok:
  assumes mm: "mm st (as @ bs) fs" and e: "fresh st (as @ bs) fs e"
    and "\<forall>x\<in>set as. start_of st x < start_of st e" "\<forall>y\<in>set bs. start_of st e < start_of st y"
  obtains t where "RB_INSERT (mmap_entry_cmp st) (mmap st) e = Some (t, NULL)" "mm (st\<lparr>mmap := t\<rparr>) (as @ e # bs) fs"
proof -
  have "\<forall>x\<in>set as. mmap_entry_cmp st e x > 0" "\<forall>y\<in>set bs. mmap_entry_cmp st e y < 0"
    using assms(3,4) by (auto simp: mmap_entry_cmp_def)
  with rb.ins_between [of "mmap st" as bs e "mmap_entry_cmp st"] mm e obtain t where
    t: "RB_INSERT (mmap_entry_cmp st) (mmap st) e = Some (t, NULL)" "rb_inv t (as @ e # bs)"
    "\<And>z. z \<notin> set (as @ bs) \<Longrightarrow> z \<noteq> e \<Longrightarrow> rbn t z = rbn (mmap st) z"
    by (auto simp: mm_def fresh_def)
  have "rbn t z = rbn (mmap st) z" if "z \<in> set fs" for z
    using t(3) [of z] mm e that by (auto simp: mm_def fresh_def)
  then have "free_chain (rbn t) (last_freed st) fs"
    using mm free_chain_cong [of fs "rbn t" "rbn (mmap st)"] by (simp add: mm_def)
  with mm e t(2) have "mm (st\<lparr>mmap := t\<rparr>) (as @ e # bs) fs" by (auto simp: mm_def fresh_def unused_def)
  with t(1) that show thesis by blast
qed

lemma insert_hit:
  assumes mm: "mm st (as @ z # bs) fs" and "start_of st e = start_of st z"
    and "\<forall>x\<in>set as. start_of st x < start_of st e" "\<forall>y\<in>set bs. start_of st e < start_of st y"
  shows "RB_INSERT (mmap_entry_cmp st) (mmap st) e = Some (mmap st, z)"
proof -
  have c: "\<forall>x\<in>set as. mmap_entry_cmp st e x > 0" "\<forall>y\<in>set bs. mmap_entry_cmp st e y < 0"
    "mmap_entry_cmp st e z = 0"
    using assms(2-4) by (auto simp: mmap_entry_cmp_def)
  then have "ordered_for (mmap_entry_cmp st e) (as @ z # bs)"
    by (auto simp: ordered_for_append ordered_for_Cons ordered_for_pos ordered_for_neg)
  then show ?thesis
    using rb.ins_found [of "mmap st" "as @ z # bs"] mm c(3) by (auto simp: mm_def)
qed

lemma mm_next: "mm st (as @ x # bs) fs \<Longrightarrow> RB_NEXT (mmap st) x = Some (first_or NULL bs)"
  unfolding mm_def using rb.nxt by blast

lemma mm_prev: "mm st (as @ x # bs) fs \<Longrightarrow> RB_PREV (mmap st) x = Some (last_or NULL as)"
  unfolding mm_def using rb.prv by blast

end
