(* ===== verification/Memory_Map_Regions.thy ===== *)
theory Memory_Map_Regions
  imports Memory_Map_Store
begin

text \<open>
  Regions of memory as intervals of natural numbers, the rank of a memory type in the precedence
  table, and the best rank that a list of (possibly overlapping) entries gives to an address.
  \<open>merge_adjacent\<close> is the first operation that is shown to leave these ranks alone.
\<close>

section \<open>Intervals\<close>

definition lo :: "gd_memory_map_entry \<Rightarrow> nat" where
  "lo e = unat (physical_start e)"

definition hi :: "gd_memory_map_entry \<Rightarrow> nat" where
  "hi e = unat (physical_start e) + unat (esize e)"

definition covers :: "gd_memory_map_entry \<Rightarrow> nat \<Rightarrow> bool" where
  "covers e a \<longleftrightarrow> lo e \<le> a \<and> a < hi e"

text \<open>A region that the map may hold: not empty, made of pages, ending below the top of memory.\<close>

definition good :: "gd_memory_type list \<Rightarrow> gd_memory_map_entry \<Rightarrow> bool" where
  "good p e \<longleftrightarrow> esize e \<noteq> 0 \<and> hi e < 2 ^ 64 \<and> 4096 dvd lo e \<and> 4096 dvd hi e \<and> etype e \<in> set p"

lemma lo_hi_upd [simp]:
  "lo (e\<lparr>etype := t\<rparr>) = lo e" "hi (e\<lparr>etype := t\<rparr>) = hi e"
  "lo (e\<lparr>attributes := w\<rparr>) = lo e" "hi (e\<lparr>attributes := w\<rparr>) = hi e"
  "lo (e\<lparr>esize := z\<rparr>) = lo e" "hi (e\<lparr>esize := z\<rparr>) = lo e + unat z"
  by (simp_all add: lo_def hi_def)

lemma unat_end: "hi e < 2 ^ 64 \<Longrightarrow> unat (end_of e) = hi e"
  by (simp add: hi_def unat_word_ariths)

lemma good_less: "good p e \<Longrightarrow> lo e < hi e"
  by (auto simp: good_def lo_def hi_def unat_gt_0)

lemma good_bound: "good p e \<Longrightarrow> hi e < 2 ^ 64"
  by (simp add: good_def)

lemma good_end: "good p e \<Longrightarrow> unat (end_of e) = hi e"
  by (simp add: good_def unat_end)

lemma unat_diff: "b \<le> a \<Longrightarrow> unat (a - b) = unat a - unat (b::u64)"
  by (simp add: unat_sub word_le_nat_alt)

section \<open>Ranks\<close>

definition rank :: "gd_memory_type list \<Rightarrow> gd_memory_type \<Rightarrow> nat" where
  "rank p t = length (takeWhile (\<lambda>u. u \<noteq> t) p)"

lemma rank_Cons [simp]: "rank (u # p) t = (if u = t then 0 else Suc (rank p t))"
  by (simp add: rank_def)

lemma rank_Nil [simp]: "rank [] t = 0"
  by (simp add: rank_def)

lemma rank_less: "t \<in> set p \<Longrightarrow> rank p t < length p"
  by (induction p) auto

lemma rank_inj: "rank p a = rank p b \<Longrightarrow> a \<in> set p \<Longrightarrow> b \<in> set p \<Longrightarrow> a = b"
  by (induction p) (auto split: if_splits)

lemma scan_cases: "a \<in> set p \<Longrightarrow> precedence_scan p a b = a \<or> precedence_scan p a b = b"
  by (induction p) auto

lemma rank_scan:
  "a \<in> set p \<Longrightarrow> b \<in> set p \<Longrightarrow> rank p (precedence_scan p a b) = min (rank p a) (rank p b)"
proof (induction p)
  case (Cons u p)
  then show ?case using scan_cases [of a p b] by auto
qed simp

lemma scan_in: "a \<in> set p \<Longrightarrow> precedence_scan p a b \<in> set p"
  by (induction p) auto

text \<open>The rank that one entry, or the best of a list of structures, gives to an address.\<close>

definition tye :: "gd_memory_type list \<Rightarrow> gd_memory_map_entry \<Rightarrow> nat \<Rightarrow> nat" where
  "tye p e a = (if covers e a then rank p (etype e) else length p)"

fun tyr :: "gd_memory_type list \<Rightarrow> (addr \<Rightarrow> gd_memory_map_entry) \<Rightarrow> addr list \<Rightarrow> nat \<Rightarrow> nat" where
  "tyr p E [] a = length p"
| "tyr p E (x # xs) a = min (tye p (E x) a) (tyr p E xs a)"

lemma rank_le [simp]: "rank p t \<le> length p"
  by (induction p) auto

lemma tye_le [simp]: "tye p e a \<le> length p"
  by (simp add: tye_def)

lemma tyr_le [simp]: "tyr p E xs a \<le> length p"
  by (induction xs) (auto simp: min_def)

lemma tyr_append [simp]: "tyr p E (xs @ ys) a = min (tyr p E xs a) (tyr p E ys a)"
  by (induction xs) (auto simp: min.assoc)

lemma tyr_cong: "(\<And>x. x \<in> set xs \<Longrightarrow> E' x = E x) \<Longrightarrow> tyr p E' xs a = tyr p E xs a"
  by (induction xs) auto

section \<open>Lists of regions\<close>

definition below :: "(addr \<Rightarrow> gd_memory_map_entry) \<Rightarrow> addr \<Rightarrow> addr \<Rightarrow> bool" where
  "below E x y \<longleftrightarrow> hi (E x) \<le> lo (E y)"

text \<open>
  The structures \<open>bs\<close> are in order and disjoint and lie above all of \<open>as\<close>, whose members may
  overlap one another.
\<close>

definition tailwf :: "gd_memory_type list \<Rightarrow> (addr \<Rightarrow> gd_memory_map_entry) \<Rightarrow> addr list \<Rightarrow> addr list \<Rightarrow> bool" where
  "tailwf p E as bs \<longleftrightarrow> (\<forall>x\<in>set (as @ bs). good p (E x)) \<and> sorted_wrt (below E) bs \<and>
     (\<forall>x\<in>set as. \<forall>y\<in>set bs. below E x y)"

text \<open>Only the size of the last member of \<open>as\<close> may have changed, and it has not shrunk.\<close>

definition grows :: "(addr \<Rightarrow> gd_memory_map_entry) \<Rightarrow> (addr \<Rightarrow> gd_memory_map_entry) \<Rightarrow> addr list \<Rightarrow> bool" where
  "grows E E' as \<longleftrightarrow> (\<forall>x\<in>set (butlast as). E' x = E x) \<and>
     (as \<noteq> [] \<longrightarrow> (\<exists>z. E' (last as) = (E (last as))\<lparr>esize := z\<rparr>) \<and> hi (E (last as)) \<le> hi (E' (last as)))"

lemma grows_refl: "(\<And>x. x \<in> set as \<Longrightarrow> E' x = E x) \<Longrightarrow> grows E E' as"
  by (auto simp: grows_def dest: in_set_butlastD intro: exI [of _ "esize (E (last as))"])

lemma grows_trans: "grows E E' as \<Longrightarrow> grows E' E'' as \<Longrightarrow> grows E E'' as"
  by (auto simp: grows_def)

lemma tailwf_Cons: "tailwf p E as (m # bs) \<longleftrightarrow> tailwf p E (as @ [m]) bs \<and> (\<forall>x\<in>set as. below E x m)"
  by (auto simp: tailwf_def)

lemma sorted_below_cong:
  "(\<And>x. x \<in> set bs \<Longrightarrow> E' x = E x) \<Longrightarrow> sorted_wrt (below E') bs = sorted_wrt (below E) bs"
  by (induction bs) (auto simp: below_def)

lemma tailwf_cong: "(\<And>x. x \<in> set (as @ bs) \<Longrightarrow> E' x = E x) \<Longrightarrow> tailwf p E as bs \<Longrightarrow> tailwf p E' as bs"
  using sorted_below_cong [of bs E' E] by (simp add: tailwf_def below_def)

lemma below_less: "below E x y \<Longrightarrow> good p (E x) \<Longrightarrow> good p (E y) \<Longrightarrow> physical_start (E x) < physical_start (E y)"
  using good_less [of p "E x"] by (auto simp: below_def word_less_nat_alt lo_def)

section \<open>What an operation achieves\<close>

text \<open>
  After an operation on the part of the map above \<open>as\<close>: the map is \<open>as\<close> and a well-formed tail, the
  ranks are \<open>T\<close>, at least \<open>k\<close> structures are available and the precedence table is the same.
\<close>

definition settled :: "gd_memory_type list \<Rightarrow> mmap_state \<Rightarrow> addr list \<Rightarrow> (nat \<Rightarrow> nat) \<Rightarrow> nat \<Rightarrow> mmap_state \<Rightarrow> bool" where
  "settled p st as T k st' \<longleftrightarrow> (\<exists>bs' fs'. mm st' (as @ bs') fs' \<and> tailwf p (ents st') as bs' \<and>
     grows (ents st) (ents st') as \<and> (\<forall>a. tyr p (ents st') (as @ bs') a = T a) \<and> k \<le> avail st' fs' \<and>
     overlap_precedence st' = overlap_precedence st)"

lemma settledI:
  assumes "mm st' (as @ bs') fs'" "tailwf p (ents st') as bs'" "grows (ents st) (ents st') as"
    "\<And>a. tyr p (ents st') (as @ bs') a = T a" "k \<le> avail st' fs'" "overlap_precedence st' = overlap_precedence st"
  shows "settled p st as T k st'"
  using assms unfolding settled_def by blast

lemma settled_trans:
  assumes "grows (ents st) (ents st1) as" "overlap_precedence st1 = overlap_precedence st" "settled p st1 as T k st2"
  shows "settled p st as T k st2"
  using assms grows_trans unfolding settled_def by metis

lemma settled_key [simp]: "settled p st as T k (st'\<lparr>mmap_key := c\<rparr>) = settled p st as T k st'"
  by (simp add: settled_def)

section \<open>Merging\<close>

lemma absorb_ok:
  assumes mm: "mm st (as @ x # y # bs) fs"
  obtains st' where "absorb st x y = Inr st'" "mm st' (as @ x # bs) (y # fs)"
    "ents st' = (ents st)(x := (ents st x)\<lparr>esize := esize (ents st x) + esize (ents st y)\<rparr>)"
    "overlap_precedence st' = overlap_precedence st" "avail st fs \<le> avail st' (y # fs)"
proof -
  let ?st = "upd_ent (\<lambda>e. e\<lparr>esize := esize e + esize (ents st y)\<rparr>) x st"
  have "mm ?st ((as @ [x]) @ y # bs) fs" using mm by simp
  from remove_ok [OF this] obtain st1 where st1: "remove_and_free ?st y = Inr st1" "mm st1 ((as @ [x]) @ bs) (y # fs)"
    "same_env ?st st1" by blast
  show thesis
    by (rule that [of "touch_key st1"])
      (use st1 in \<open>auto simp: absorb_def same_env_def avail_def\<close>)
qed

lemma join_regions:
  assumes "good p d" "good p e" "etype d = etype e" "end_of d = physical_start e"
  defines "j \<equiv> d\<lparr>esize := esize d + esize e\<rparr>"
  shows "good p j" "lo j = lo d" "hi j = hi e" "tye p j a = min (tye p d a) (tye p e a)"
proof -
  have eq: "hi d = lo e" using good_end [OF assms(1)] assms(4) by (simp add: lo_def)
  have "unat (esize d + esize e) = unat (esize d) + unat (esize e)"
    using eq good_bound [OF assms(2)] by (auto simp: hi_def lo_def unat_word_ariths)
  then show hj: "hi j = hi e" using eq by (simp add: j_def) (simp add: hi_def lo_def)
  show lj: "lo j = lo d" by (simp add: j_def)
  have lt: "lo d < hi d" "lo e < hi e" using assms good_less by auto
  show "good p j"
    using assms(1,2) hj lj lt eq by (auto simp: good_def j_def lo_def hi_def)
  show "tye p j a = min (tye p d a) (tye p e a)"
    using hj lj lt eq assms(3) by (auto simp: tye_def covers_def j_def)
qed

lemma absorb_settles:
  assumes mm: "mm st (as @ m # y # cs) fs" and wf: "tailwf p (ents st) (as @ [m]) (y # cs)" and adj: "adjoins st m y"
  obtains st1 where "absorb st m y = Inr st1" "mm st1 (as @ m # cs) (y # fs)"
    "tailwf p (ents st1) (as @ [m]) cs" "grows (ents st) (ents st1) (as @ [m])"
    "\<And>a. tyr p (ents st1) (as @ m # cs) a = tyr p (ents st) (as @ m # y # cs) a"
    "avail st fs \<le> avail st1 (y # fs)" "overlap_precedence st1 = overlap_precedence st"
proof -
  from mm obtain st1 where st1: "absorb st m y = Inr st1" "mm st1 (as @ m # cs) (y # fs)"
    "ents st1 = (ents st)(m := (ents st m)\<lparr>esize := esize (ents st m) + esize (ents st y)\<rparr>)"
    "overlap_precedence st1 = overlap_precedence st" "avail st fs \<le> avail st1 (y # fs)"
    using absorb_ok by blast
  have "good p (ents st m)" "good p (ents st y)" using wf by (auto simp: tailwf_def)
  from join_regions [OF this] adj
  have j: "good p (ents st1 m)" "lo (ents st1 m) = lo (ents st m)" "hi (ents st1 m) = hi (ents st y)"
    "\<And>a. tye p (ents st1 m) a = min (tye p (ents st m) a) (tye p (ents st y) a)"
    by (auto simp: adjoins_def st1(3))
  have d: "m \<notin> set as" "m \<notin> set cs" "m \<noteq> y" using mm_distinct [OF mm] by auto
  have same: "\<And>x. x \<in> set as \<Longrightarrow> ents st1 x = ents st x" "\<And>x. x \<in> set cs \<Longrightarrow> ents st1 x = ents st x"
    using d st1(3) by auto
  have "tailwf p (ents st1) (as @ [m]) cs"
    using wf j same sorted_below_cong [OF same(2)] by (auto simp: tailwf_def below_def)
  moreover have "hi (ents st m) \<le> hi (ents st y)"
    using wf good_less [of p "ents st y"] by (auto simp: tailwf_def below_def)
  then have "grows (ents st) (ents st1) (as @ [m])"
    using d j(3) st1(3) by (auto simp: grows_def)
  moreover have "tyr p (ents st1) (as @ m # cs) a = tyr p (ents st) (as @ m # y # cs) a" for a
    using j(4) tyr_cong [OF same(1)] tyr_cong [OF same(2)] by (simp add: min.assoc)
  ultimately show thesis using st1 that by blast
qed

text \<open>The second half of \<open>merge_adjacent\<close>: \<open>m\<close> may swallow the structure after it.\<close>

lemma merge_next:
  assumes mm: "mm st (as @ m # bs) fs" and wf: "tailwf p (ents st) (as @ [m]) bs"
  shows "\<exists>st'. (if first_or NULL bs \<noteq> NULL \<and> adjoins st m (first_or NULL bs) then absorb st m (first_or NULL bs) else Inr st)
    = Inr st' \<and> settled p st (as @ [m]) (tyr p (ents st) (as @ m # bs)) (avail st fs) st'"
proof (cases "first_or NULL bs \<noteq> NULL \<and> adjoins st m (first_or NULL bs)")
  case False
  have "settled p st (as @ [m]) (tyr p (ents st) (as @ m # bs)) (avail st fs) st"
    by (rule settledI [of st _ bs fs]) (use mm wf in \<open>auto intro: grows_refl\<close>)
  with False show ?thesis by auto
next
  case True
  then obtain y cs where bs: "bs = y # cs" by (cases bs) auto
  with True mm wf obtain st1 where st1: "absorb st m y = Inr st1" "mm st1 (as @ m # cs) (y # fs)"
    "tailwf p (ents st1) (as @ [m]) cs" "grows (ents st) (ents st1) (as @ [m])"
    "\<And>a. tyr p (ents st1) (as @ m # cs) a = tyr p (ents st) (as @ m # y # cs) a"
    "avail st fs \<le> avail st1 (y # fs)" "overlap_precedence st1 = overlap_precedence st"
    using absorb_settles [of st as m y cs fs p] by auto
  have "settled p st (as @ [m]) (tyr p (ents st) (as @ m # bs)) (avail st fs) st1"
    by (rule settledI [of st1 _ cs "y # fs"]) (use st1 bs in auto)
  with True bs st1(1) show ?thesis by simp
qed

text \<open>The structure \<open>m\<close> above \<open>as\<close>, once settled, belongs to the tail.\<close>

lemma settled_snoc:
  assumes "settled p st (as @ [m]) T k st'" "\<forall>x\<in>set as. below (ents st) x m"
  shows "settled p st as T k st'"
proof -
  from assms(1) obtain bs fs where s: "mm st' (as @ m # bs) fs" "tailwf p (ents st') (as @ [m]) bs"
    "grows (ents st) (ents st') (as @ [m])" "\<And>a. tyr p (ents st') (as @ m # bs) a = T a" "k \<le> avail st' fs"
    "overlap_precedence st' = overlap_precedence st"
    unfolding settled_def by auto
  have same: "ents st' x = ents st x" if "x \<in> set as" for x using s(3) that by (simp add: grows_def)
  have "lo (ents st' m) = lo (ents st m)" using s(3) by (auto simp: grows_def)
  then have "tailwf p (ents st') as (m # bs)"
    unfolding tailwf_Cons using s(2) assms(2) same by (simp add: below_def)
  then show ?thesis by (intro settledI [of st' _ "m # bs" fs] grows_refl) (use s same in auto)
qed

lemma merge_ok:
  assumes mm: "mm st (as @ m # bs) fs" and wf: "tailwf p (ents st) as (m # bs)"
  shows "\<exists>st'. merge_adjacent st m = Inr st' \<and> settled p st as (tyr p (ents st) (as @ m # bs)) (avail st fs) st'"
proof (cases "last_or NULL as \<noteq> NULL \<and> adjoins st (last_or NULL as) m")
  case False
  from merge_next [OF mm] wf obtain st' where st': "settled p st (as @ [m]) (tyr p (ents st) (as @ m # bs)) (avail st fs) st'"
    "(if first_or NULL bs \<noteq> NULL \<and> adjoins st m (first_or NULL bs) then absorb st m (first_or NULL bs) else Inr st) = Inr st'"
    by (auto simp: tailwf_Cons)
  have "settled p st as (tyr p (ents st) (as @ m # bs)) (avail st fs) st'"
    using wf by (intro settled_snoc [OF st'(1)]) (simp add: tailwf_Cons)
  with st'(2) mm_prev [OF mm] mm_next [OF mm] show ?thesis
    by (simp add: merge_adjacent_def if_not_P [OF False])
next
  case True
  then obtain as0 q where as: "as = as0 @ [q]" by (cases as rule: rev_cases) auto
  have "mm st (as0 @ q # m # bs) fs" using mm as by simp
  then obtain st1 where st1: "absorb st q m = Inr st1" "mm st1 (as0 @ q # bs) (m # fs)"
    "tailwf p (ents st1) (as0 @ [q]) bs" "grows (ents st) (ents st1) (as0 @ [q])"
    "\<And>a. tyr p (ents st1) (as0 @ q # bs) a = tyr p (ents st) (as0 @ q # m # bs) a"
    "avail st fs \<le> avail st1 (m # fs)" "overlap_precedence st1 = overlap_precedence st"
    using absorb_settles [of st as0 q m bs fs p] wf True as by auto
  from merge_next [OF st1(2,3)] obtain st' where
    st': "settled p st1 (as0 @ [q]) (tyr p (ents st1) (as0 @ q # bs)) (avail st1 (m # fs)) st'"
    "(if first_or NULL bs \<noteq> NULL \<and> adjoins st1 q (first_or NULL bs) then absorb st1 q (first_or NULL bs) else Inr st1) = Inr st'"
    by blast
  have "settled p st as (tyr p (ents st) (as @ m # bs)) (avail st fs) st'"
    using settled_trans [OF st1(4,7) st'(1)] st1(5,6) as unfolding settled_def by fastforce
  with st'(2) st1(1) mm_prev [OF mm] mm_next [OF mm] True as show ?thesis by (simp add: merge_adjacent_def)
qed

end
