(* ===== verification/Memory_Map_Overlap.thy ===== *)
theory Memory_Map_Overlap
  imports Memory_Map_Regions
begin

text \<open>
  The mutual recursion of \<open>fix_overlap\<close> and \<open>mmap_add_entry\<close> on page-aligned regions: it ends, it
  never follows a null pointer, it keeps the tail of the map well formed, and it computes the best
  rank at every address; the only failure is the panic on a tree with abutting entries.
\<close>

section \<open>Cutting regions\<close>

lemma min_rank_length [simp]: "min (length p) (min (rank p t) n) = min (rank p t) n"
  using rank_le [of p t] by (metis min.absorb2 min.assoc)

lemma trim_second:
  assumes g: "good p d" "good p e" and o: "lo d < lo e" "lo e < hi d" "hi d < hi e"
    and r: "rank p (etype d) \<le> rank p (etype e)"
  defines "e' \<equiv> e\<lparr>esize := end_of e - end_of d, physical_start := end_of e - (end_of e - end_of d)\<rparr>"
  shows "good p e'" "lo e' = hi d" "hi e' = hi e"
    "min (tye p d a) (tye p e' a) = min (tye p d a) (tye p e a)"
proof -
  have u: "unat (end_of e - end_of d) = hi e - hi d"
    using o good_end [OF g(1)] good_end [OF g(2)] by (subst unat_diff) (auto simp: word_le_nat_alt)
  have s: "end_of e - (end_of e - end_of d) = end_of d" by simp
  show l: "lo e' = hi d" using good_end [OF g(1)] by (simp add: e'_def s lo_def)
  show h: "hi e' = hi e" using u o good_end [OF g(1)] by (simp add: e'_def s hi_def [of "e\<lparr>esize := _, physical_start := _\<rparr>"])
  have "esize e' \<noteq> 0" using u o by (auto simp: e'_def)
  then show "good p e'" using g l h by (auto simp: good_def e'_def)
  show "min (tye p d a) (tye p e' a) = min (tye p d a) (tye p e a)"
    using l h o r by (auto simp: tye_def covers_def) (auto simp: e'_def)
qed

lemma trim_first:
  assumes g: "good p d" "good p e" and o: "lo d < lo e" "lo e \<le> hi d"
  defines "d' \<equiv> d\<lparr>esize := physical_start e - physical_start d\<rparr>"
  shows "good p d'" "lo d' = lo d" "hi d' = lo e"
    "hi d \<le> hi e \<Longrightarrow> rank p (etype e) \<le> rank p (etype d) \<Longrightarrow>
       min (tye p d' a) (tye p e a) = min (tye p d a) (tye p e a)"
proof -
  have u: "unat (physical_start e - physical_start d) = lo e - lo d"
    using o by (subst unat_diff) (auto simp: word_le_nat_alt lo_def)
  show l: "lo d' = lo d" by (simp add: d'_def)
  show h: "hi d' = lo e" using u o by (simp add: d'_def)
  have "esize d' \<noteq> 0" using u o by (auto simp: d'_def)
  moreover have "lo e < 2 ^ 64" using g(2) good_less [OF g(2)] by (auto simp: good_def)
  ultimately show "good p d'" using g l h by (auto simp: good_def d'_def)
  show "min (tye p d' a) (tye p e a) = min (tye p d a) (tye p e a)"
    if "hi d \<le> hi e" "rank p (etype e) \<le> rank p (etype d)"
    using l h o that by (auto simp: tye_def covers_def) (auto simp: d'_def)
qed

lemma retype:
  assumes "good p e" "t \<in> set p"
  shows "good p (e\<lparr>etype := t\<rparr>)" "tye p (e\<lparr>etype := t\<rparr>) a = (if covers e a then rank p t else length p)"
  using assms by (auto simp: good_def tye_def covers_def)

lemma nested_drop:
  assumes "lo d \<le> lo e" "hi e \<le> hi d" "rank p (etype d) \<le> rank p (etype e)"
  shows "min (tye p d a) (tye p e a) = tye p d a"
  using assms rank_le [of p "etype d"] by (auto simp: tye_def covers_def)

lemma nested_split:
  assumes g: "good p d" "good p e" and o: "lo d < lo e" "hi e < hi d"
    and r: "rank p (etype e) \<le> rank p (etype d)"
  defines "d' \<equiv> d\<lparr>esize := physical_start e - physical_start d\<rparr>"
    and "n \<equiv> zero_entry\<lparr>physical_start := end_of e, esize := end_of d - end_of e, etype := etype d, attributes := attributes d\<rparr>"
  shows "good p n" "lo n = hi e" "hi n = hi d"
    "min (tye p n a) (min (tye p d' a) (tye p e a)) = min (tye p d a) (tye p e a)"
proof -
  have u: "unat (end_of d - end_of e) = hi d - hi e"
    using o good_end [OF g(1)] good_end [OF g(2)] by (subst unat_diff) (auto simp: word_le_nat_alt)
  show l: "lo n = hi e" using good_end [OF g(2)] by (simp add: n_def lo_def)
  show h: "hi n = hi d" using u o l by (simp add: n_def hi_def [of "zero_entry\<lparr>physical_start := _, esize := _, etype := _, attributes := _\<rparr>"] good_end [OF g(2)])
  have "esize n \<noteq> 0" using u o by (auto simp: n_def)
  then show "good p n" using g l h by (auto simp: good_def n_def)
  have le: "lo e < hi e" using good_less [OF g(2)] .
  have l': "lo d' = lo d" "hi d' = lo e" using trim_first [OF g] o le by (auto simp: d'_def)
  show "min (tye p n a) (min (tye p d' a) (tye p e a)) = min (tye p d a) (tye p e a)"
    using l h l' o le r by (auto simp: tye_def covers_def) (auto simp: d'_def n_def)
qed

section \<open>Contracts of the two operations\<close>

text \<open>The number of structures that start below \<open>h\<close>, and two of them that touch below \<open>h\<close>.\<close>

definition ov :: "(addr \<Rightarrow> gd_memory_map_entry) \<Rightarrow> nat \<Rightarrow> addr list \<Rightarrow> nat" where
  "ov E h bs = length (filter (\<lambda>y. lo (E y) < h) bs)"

definition abut :: "(addr \<Rightarrow> gd_memory_map_entry) \<Rightarrow> nat \<Rightarrow> addr list \<Rightarrow> bool" where
  "abut E h bs \<longleftrightarrow> (\<exists>x\<in>set bs. \<exists>y\<in>set bs. hi (E x) = lo (E y) \<and> lo (E y) < h)"

lemma ov_simps [simp]:
  "ov E h [] = 0" "ov E h (y # bs) = (if lo (E y) < h then Suc (ov E h bs) else ov E h bs)"
  by (simp_all add: ov_def)

lemma ov_cong: "(\<And>x. x \<in> set bs \<Longrightarrow> E' x = E x) \<Longrightarrow> ov E' h bs = ov E h bs"
  by (induction bs) auto

lemma abut_mono: "abut E h bs \<Longrightarrow> set bs \<subseteq> set cs \<Longrightarrow> h \<le> h' \<Longrightarrow> abut E h' cs"
  by (fastforce simp: abut_def)

lemma abut_cong: "(\<And>x. x \<in> set bs \<Longrightarrow> E' x = E x) \<Longrightarrow> abut E' h bs = abut E h bs"
  by (auto simp: abut_def)

text \<open>A call that panics only if \<open>B\<close> and otherwise returns a state with \<open>Q\<close>.\<close>

definition outcome_ok :: "bool \<Rightarrow> mmap_state outcome \<Rightarrow> (mmap_state \<Rightarrow> bool) \<Rightarrow> bool" where
  "outcome_ok B r Q \<longleftrightarrow> (case r of Inl x \<Rightarrow> x = bad_tree \<and> B | Inr st' \<Rightarrow> Q st')"

lemma outcome_ok_simps [simp]:
  "outcome_ok B (Inr st') Q \<longleftrightarrow> Q st'" "outcome_ok B (Inl x) Q \<longleftrightarrow> x = bad_tree \<and> B"
  by (simp_all add: outcome_ok_def)

lemma outcome_ok_mono:
  "outcome_ok B r Q \<Longrightarrow> (B \<Longrightarrow> B') \<Longrightarrow> (\<And>st'. Q st' \<Longrightarrow> Q' st') \<Longrightarrow> outcome_ok B' r Q'"
  by (auto simp: outcome_ok_def split: sum.splits)

lemma outcome_ok_andthen:
  "outcome_ok B r Q \<Longrightarrow> (\<And>st'. Q st' \<Longrightarrow> outcome_ok B (f st') Q') \<Longrightarrow> outcome_ok B (andthen r f) Q'"
  by (cases r) simp_all

text \<open>Before and after \<open>fix_overlap\<close> on \<open>f\<close>, which lies between \<open>as\<close> and \<open>bs\<close>.\<close>

definition fixable :: "gd_memory_type list \<Rightarrow> mmap_state \<Rightarrow> addr list \<Rightarrow> addr \<Rightarrow> addr list \<Rightarrow> addr list \<Rightarrow> bool" where
  "fixable p st as f bs fs \<longleftrightarrow> mm st (as @ f # bs) fs \<and> tailwf p (ents st) as bs \<and> good p (ents st f) \<and>
     (\<forall>y\<in>set bs. lo (ents st f) < lo (ents st y)) \<and> overlap_precedence st = p"

definition swallowed :: "gd_memory_type list \<Rightarrow> gd_memory_map_entry \<Rightarrow> gd_memory_map_entry \<Rightarrow> bool" where
  "swallowed p d e \<longleftrightarrow> hi e < hi d \<and> precedence_scan p (etype d) (etype e) = etype d"

definition fixed :: "gd_memory_type list \<Rightarrow> mmap_state \<Rightarrow> addr list \<Rightarrow> addr \<Rightarrow> addr list \<Rightarrow> nat \<Rightarrow> mmap_state \<Rightarrow> bool" where
  "fixed p st as f bs k st' \<longleftrightarrow> (\<exists>bs' fs'. mm st' (as @ f # bs') fs' \<and> tailwf p (ents st') (as @ [f]) bs' \<and>
     (\<forall>x\<in>set as. ents st' x = ents st x) \<and> (\<exists>z. ents st' f = (ents st f)\<lparr>esize := z\<rparr>) \<and>
     hi (ents st' f) \<le> hi (ents st f) \<and>
     (\<forall>h \<le> hi (ents st f). (\<forall>y\<in>set bs. h \<le> lo (ents st y)) \<longrightarrow> h \<le> hi (ents st' f)) \<and>
     (\<forall>a. tyr p (ents st') (as @ f # bs') a = tyr p (ents st) (as @ f # bs) a) \<and> k \<le> avail st' fs' \<and>
     overlap_precedence st' = overlap_precedence st \<and>
     (\<forall>s cs. bs = s # cs \<longrightarrow> \<not> swallowed p (ents st f) (ents st s) \<longrightarrow> (\<exists>cs'. bs' = s # cs')))"

lemma fixedI:
  assumes "mm st' (as @ f # bs') fs'" "tailwf p (ents st') (as @ [f]) bs'" "\<And>x. x \<in> set as \<Longrightarrow> ents st' x = ents st x"
    "ents st' f = (ents st f)\<lparr>esize := z\<rparr>" "hi (ents st' f) \<le> hi (ents st f)"
    "\<And>h. h \<le> hi (ents st f) \<Longrightarrow> \<forall>y\<in>set bs. h \<le> lo (ents st y) \<Longrightarrow> h \<le> hi (ents st' f)"
    "\<And>a. tyr p (ents st') (as @ f # bs') a = tyr p (ents st) (as @ f # bs) a" "k \<le> avail st' fs'"
    "overlap_precedence st' = overlap_precedence st"
    "\<And>s cs. bs = s # cs \<Longrightarrow> \<not> swallowed p (ents st f) (ents st s) \<Longrightarrow> \<exists>cs'. bs' = s # cs'"
  shows "fixed p st as f bs k st'"
  unfolding fixed_def using assms by blast

definition F_ok :: "gd_memory_type list \<Rightarrow> nat \<Rightarrow> bool" where
  "F_ok p n \<longleftrightarrow> (\<forall>st as f bs fs k. fixable p st as f bs fs \<longrightarrow> 2 * ov (ents st) (hi (ents st f)) bs < n \<longrightarrow>
     k + ov (ents st) (hi (ents st f)) bs \<le> avail st fs \<longrightarrow>
     outcome_ok (abut (ents st) (hi (ents st f)) bs) (fix_overlap n st f) (fixed p st as f bs k))"

text \<open>Before \<open>mmap_add_entry\<close> of \<open>e\<close>, which lies above \<open>as\<close> and not above the start of any of \<open>bs\<close>.\<close>

definition addable :: "gd_memory_type list \<Rightarrow> mmap_state \<Rightarrow> addr list \<Rightarrow> gd_memory_map_entry \<Rightarrow> addr list \<Rightarrow> addr list \<Rightarrow> bool" where
  "addable p st as e bs fs \<longleftrightarrow> mm st (as @ bs) fs \<and> tailwf p (ents st) as bs \<and> good p e \<and>
     (\<forall>x\<in>set as. hi (ents st x) \<le> lo e) \<and> (\<forall>y\<in>set bs. lo e \<le> lo (ents st y)) \<and> overlap_precedence st = p"

definition A_ok :: "gd_memory_type list \<Rightarrow> nat \<Rightarrow> bool" where
  "A_ok p n \<longleftrightarrow> (\<forall>st as e bs fs k. addable p st as e bs fs \<longrightarrow> 2 * ov (ents st) (hi e) bs + 1 < n \<longrightarrow>
     k + ov (ents st) (hi e) bs < avail st fs \<longrightarrow>
     outcome_ok (abut (ents st) (hi e) bs) (mmap_add_entry n st e)
       (settled p st as (\<lambda>a. min (tye p e a) (tyr p (ents st) (as @ bs) a)) k))"

lemma F_okD:
  "F_ok p n \<Longrightarrow> fixable p st as f bs fs \<Longrightarrow> 2 * ov (ents st) (hi (ents st f)) bs < n \<Longrightarrow>
   k + ov (ents st) (hi (ents st f)) bs \<le> avail st fs \<Longrightarrow>
   outcome_ok (abut (ents st) (hi (ents st f)) bs) (fix_overlap n st f) (fixed p st as f bs k)"
  unfolding F_ok_def by blast

lemma A_okD:
  "A_ok p n \<Longrightarrow> addable p st as e bs fs \<Longrightarrow> 2 * ov (ents st) (hi e) bs + 1 < n \<Longrightarrow>
   k + ov (ents st) (hi e) bs < avail st fs \<Longrightarrow>
   outcome_ok (abut (ents st) (hi e) bs) (mmap_add_entry n st e)
     (settled p st as (\<lambda>a. min (tye p e a) (tyr p (ents st) (as @ bs) a)) k)"
  unfolding A_ok_def by blast

section \<open>Cases of fix\_overlap\<close>

lemma fixed_same:
  assumes "fixable p st as f bs fs" "\<forall>y\<in>set bs. below (ents st) f y" "k \<le> avail st fs"
  shows "fixed p st as f bs k st"
  by (rule fixedI [where bs' = bs and fs' = fs and z = "esize (ents st f)"])
    (use assms in \<open>auto simp: fixable_def tailwf_def\<close>)

lemma fixable_tail_above:
  assumes "fixable p st as f (s # cs) fs" "y \<in> set cs"
  shows "hi (ents st s) \<le> lo (ents st y)"
  using assms by (auto simp: fixable_def tailwf_def below_def)

text \<open>The two structures are changed in place and no longer overlap.\<close>

lemma fixed_in_place:
  assumes fx: "fixable p st as f (s # cs) fs" and k: "k \<le> avail st fs"
    and E: "E = (ents st)(f := d', s := e')"
    and d': "d' = (ents st f)\<lparr>esize := z\<rparr>" "good p d'" "hi d' \<le> hi (ents st f)"
      "hi d' = hi (ents st f) \<or> hi d' = lo (ents st s)"
    and e': "good p e'" "hi e' = hi (ents st s)" "hi d' \<le> lo e'" "lo (ents st s) \<le> lo e'"
    and T: "\<And>a. min (tye p d' a) (tye p e' a) = min (tye p (ents st f) a) (tye p (ents st s) a)"
  shows "fixed p st as f (s # cs) k (st\<lparr>ents := E\<rparr>)"
proof -
  have mm: "mm st (as @ f # s # cs) fs" and wf: "tailwf p (ents st) as (s # cs)"
    using fx by (auto simp: fixable_def)
  then have d: "f \<notin> set as" "s \<notin> set as" "f \<noteq> s" "f \<notin> set cs" "s \<notin> set cs" using mm_distinct [OF mm] by auto
  have same: "\<And>x. x \<in> set as \<Longrightarrow> E x = ents st x" "\<And>x. x \<in> set cs \<Longrightarrow> E x = ents st x"
    using d by (auto simp: E)
  have Ef: "E f = d'" "E s = e'" using d by (simp_all add: E)
  have hl: "hi d' \<le> hi e'" using e'(3) good_less [OF e'(1)] by simp
  have "tailwf p E (as @ [f]) (s # cs)"
    using wf same sorted_below_cong [OF same(2)] d'(2) e' hl Ef fixable_tail_above [OF fx]
    by (fastforce simp: tailwf_def below_def)
  moreover have "min (tye p d' a) (min (tye p e' a) t) = min (tye p (ents st f) a) (min (tye p (ents st s) a) t)" for a t
    using T [of a] by (simp only: min.assoc [symmetric])
  then have "tyr p E (as @ f # s # cs) a = tyr p (ents st) (as @ f # s # cs) a" for a
    using Ef tyr_cong [OF same(1)] tyr_cong [OF same(2)] by simp
  ultimately show ?thesis
    by (intro fixedI [where bs' = "s # cs" and fs' = fs and z = z])
      (use mm same(1) Ef(1) d'(1,3,4) k in \<open>simp_all, auto\<close>)
qed

lemma fix_swallow:
  assumes fx: "fixable p st as f (s # cs) fs" and sw: "swallowed p (ents st f) (ents st s)"
    and st1: "mm st1 (as @ f # cs) (s # fs)" "same_env st st1"
  shows "fixable p st1 as f cs (s # fs)" "fixed p st1 as f cs k st' \<Longrightarrow> fixed p st as f (s # cs) k st'"
proof -
  have E: "ents st1 = ents st" "overlap_precedence st1 = overlap_precedence st" using st1(2) by (auto simp: same_envD)
  show "fixable p st1 as f cs (s # fs)" using fx st1(1) E by (auto simp: fixable_def tailwf_def)
  have "etype (ents st f) \<in> set p" "etype (ents st s) \<in> set p" "lo (ents st f) \<le> lo (ents st s)"
    using fx by (auto simp: fixable_def tailwf_def good_def)
  moreover from this have "rank p (etype (ents st f)) \<le> rank p (etype (ents st s))"
    using sw rank_scan [of "etype (ents st f)" p "etype (ents st s)"] by (auto simp: swallowed_def)
  ultimately have "min (tye p (ents st f) a) (tye p (ents st s) a) = tye p (ents st f) a" for a
    using sw by (intro nested_drop) (auto simp: swallowed_def)
  then have "min (tye p (ents st f) a) (min (tye p (ents st s) a) t) = min (tye p (ents st f) a) t" for a t
    by (simp only: min.assoc [symmetric])
  then have T: "tyr p (ents st) (as @ f # s # cs) a = tyr p (ents st) (as @ f # cs) a" for a
    by simp
  assume "fixed p st1 as f cs k st'"
  then show "fixed p st as f (s # cs) k st'"
    unfolding fixed_def E T using sw by (elim ex_forward) auto
qed

lemma settled_fixed:
  assumes "settled p st1 (as @ [f, s]) T k st'" and "\<forall>x\<in>set as. ents st1 x = ents st x"
    and "ents st1 f = (ents st f)\<lparr>esize := z\<rparr>" "hi (ents st1 f) \<le> hi (ents st f)" "hi (ents st1 f) = lo (ents st s)"
    and as: "\<forall>x\<in>set (as @ [f]). below (ents st1) x s"
    and "\<And>a. T a = tyr p (ents st) (as @ f # s # cs) a" and "overlap_precedence st1 = overlap_precedence st"
  shows "fixed p st as f (s # cs) k st'"
proof -
  from assms(1) obtain bs fs where S: "mm st' (as @ f # s # bs) fs" "tailwf p (ents st') (as @ [f, s]) bs"
    "grows (ents st1) (ents st') (as @ [f, s])" "\<And>a. tyr p (ents st') (as @ f # s # bs) a = T a" "k \<le> avail st' fs"
    "overlap_precedence st' = overlap_precedence st1"
    unfolding settled_def by auto
  have same: "ents st' x = ents st1 x" if "x \<in> set (as @ [f])" for x
    using S(3) that by (auto simp: grows_def butlast_append)
  have "lo (ents st' s) = lo (ents st1 s)" using S(3) by (auto simp: grows_def)
  then have "tailwf p (ents st') (as @ [f]) (s # bs)"
    unfolding tailwf_Cons using S(2) as same by (simp add: below_def)
  moreover have "ents st' f = ents st1 f" using same by simp
  ultimately show ?thesis
    by (intro fixedI [where bs' = "s # bs" and fs' = fs and z = z])
      (use S(1,4-6) same assms(2-5,7,8) in simp_all)
qed

lemma fix_split:
  assumes fx: "fixable p st as f (s # cs) fs" and o: "hi (ents st s) < hi (ents st f)"
    and ty: "precedence_scan p (etype (ents st f)) (etype (ents st s)) = etype (ents st s)"
    and A: "A_ok p n" and n: "2 * ov (ents st) (hi (ents st f)) cs + 1 < n"
    and k: "k + ov (ents st) (hi (ents st f)) (s # cs) \<le> avail st fs"
  defines "new \<equiv> zero_entry\<lparr>physical_start := end_of (ents st s), esize := end_of (ents st f) - end_of (ents st s),
     etype := etype (ents st f), attributes := attributes (ents st f)\<rparr>"
  shows "outcome_ok (abut (ents st) (hi (ents st f)) (s # cs))
    (split_overlap (mmap_add_entry n) st f s (etype (ents st s)) new) (fixed p st as f (s # cs) k)"
proof -
  let ?d = "ents st f" and ?e = "ents st s"
  define d' e' where "d' = ?d\<lparr>esize := physical_start ?e - physical_start ?d\<rparr>"
    and "e' = ?e\<lparr>attributes := attributes ?d OR attributes ?e\<rparr>"
  define E where "E = (ents st)(f := d', s := e')"
  define st1 where "st1 = st\<lparr>ents := E\<rparr>"
  have mm: "mm st (as @ f # s # cs) fs" and wf: "tailwf p (ents st) as (s # cs)" and prec: "overlap_precedence st = p"
    and lt: "lo ?d < lo ?e" and g: "good p ?d" "good p ?e"
    using fx by (auto simp: fixable_def tailwf_def)
  have d: "f \<notin> set as" "s \<notin> set as" "f \<noteq> s" "f \<notin> set cs" "s \<notin> set cs" using mm_distinct [OF mm] by auto
  have le: "lo ?e < hi ?e" using good_less [OF g(2)] .
  have "etype ?d \<in> set p" "etype ?e \<in> set p" using g by (auto simp: good_def)
  then have r: "rank p (etype ?e) \<le> rank p (etype ?d)"
    using rank_scan [of "etype ?d" p "etype ?e"] ty by simp
  have d': "good p d'" "lo d' = lo ?d" "hi d' = lo ?e" using trim_first [OF g lt] o le by (auto simp: d'_def)
  have e': "good p e'" "lo e' = lo ?e" "hi e' = hi ?e" "\<And>a. tye p e' a = tye p ?e a" using g
    by (auto simp: e'_def good_def tye_def covers_def)
  note new = nested_split [OF g lt o r, folded new_def d'_def]
  have same: "\<And>x. x \<in> set as \<Longrightarrow> E x = ents st x" "\<And>x. x \<in> set cs \<Longrightarrow> E x = ents st x"
    and Ef: "E f = d'" "E s = e'"
    using d by (auto simp: E_def)
  have wf1: "tailwf p E (as @ [f, s]) cs" "\<forall>x\<in>set (as @ [f]). below E x s"
    using wf same sorted_below_cong [OF same(2)] d' e' Ef fixable_tail_above [OF fx] le
    by (fastforce simp: tailwf_def below_def)+
  have "\<forall>x\<in>set (as @ [f, s]). hi (E x) \<le> lo new"
    using wf same Ef d' e' new(2) le by (fastforce simp: tailwf_def below_def)
  moreover have "\<forall>y\<in>set cs. lo new \<le> lo (E y)" using same(2) new(2) fixable_tail_above [OF fx] by simp
  ultimately have "addable p st1 (as @ [f, s]) new cs fs"
    using mm wf1 new(1) prec by (simp add: addable_def st1_def)
  moreover have "k + ov (ents st1) (hi new) cs < avail st1 fs"
    using k o le new(3) ov_cong [OF same(2)] by (simp add: st1_def)
  moreover have "2 * ov (ents st1) (hi new) cs + 1 < n" using n new(3) ov_cong [OF same(2)] by (simp add: st1_def)
  ultimately have "outcome_ok (abut (ents st1) (hi new) cs) (mmap_add_entry n st1 new)
    (settled p st1 (as @ [f, s]) (\<lambda>a. min (tye p new a) (tyr p (ents st1) ((as @ [f, s]) @ cs) a)) k)"
    using A_okD [OF A] by blast
  moreover have "split_overlap (mmap_add_entry n) st f s (etype ?e) new = mmap_add_entry n st1 new"
  proof -
    have e'': "?e\<lparr>attributes := attributes ?d OR attributes ?e, etype := etype ?e, esize := physical_start new - physical_start ?e\<rparr> = e'"
      by (simp add: e'_def new_def)
    show ?thesis using d e'' by (simp add: split_overlap_def Let_def st1_def E_def d'_def fun_upd_twist)
  qed
  moreover have "abut (ents st) (hi ?d) (s # cs)" if "abut (ents st1) (hi new) cs"
    using that abut_cong [OF same(2)] abut_mono [of "ents st" "hi ?d" cs "s # cs" "hi ?d"] new(3)
    by (auto simp: st1_def)
  moreover have "fixed p st as f (s # cs) k st'"
    if "settled p st1 (as @ [f, s]) (\<lambda>a. min (tye p new a) (tyr p (ents st1) ((as @ [f, s]) @ cs) a)) k st'" for st'
  proof (rule settled_fixed [OF that])
    show "\<forall>x\<in>set as. ents st1 x = ents st x" "\<forall>x\<in>set (as @ [f]). below (ents st1) x s"
      "overlap_precedence st1 = overlap_precedence st"
      using same wf1 by (auto simp: st1_def)
    show "ents st1 f = ?d\<lparr>esize := physical_start ?e - physical_start ?d\<rparr>" "hi (ents st1 f) \<le> hi ?d"
      "hi (ents st1 f) = lo ?e"
      using Ef d' o le by (auto simp: st1_def d'_def)
    show "min (tye p new a) (tyr p (ents st1) ((as @ [f, s]) @ cs) a) = tyr p (ents st) (as @ f # s # cs) a" for a
    proof -
      have "min (tye p new a) (min (tye p d' a) (min (tye p e' a) t)) = min (tye p ?d a) (min (tye p ?e a) t)" for t
        using new(4) [of a] e'(4) by (simp only: min.assoc [symmetric])
      then show ?thesis
        using Ef tyr_cong [OF same(1)] tyr_cong [OF same(2)] by (simp add: st1_def min.left_commute)
    qed
  qed
  ultimately show ?thesis by (auto elim: outcome_ok_mono)
qed

lemma fix_step_cons:
  assumes F: "F_ok p n" and A: "A_ok p n" and fx: "fixable p st as f (s # cs) fs"
    and n: "2 * ov (ents st) (hi (ents st f)) (s # cs) < Suc n" and k: "k + ov (ents st) (hi (ents st f)) (s # cs) \<le> avail st fs"
  shows "outcome_ok (abut (ents st) (hi (ents st f)) (s # cs)) (fix_overlap (Suc n) st f) (fixed p st as f (s # cs) k)"
proof -
  let ?d = "ents st f" and ?e = "ents st s"
  have mm: "mm st (as @ f # s # cs) fs" and prec: "overlap_precedence st = p"
    and lt: "lo ?d < lo ?e" and g: "good p ?d" "good p ?e"
    using fx by (auto simp: fixable_def tailwf_def)
  have nn: "f \<noteq> NULL" "s \<noteq> NULL" "f \<noteq> s" using mm_not_null [OF mm] mm_distinct [OF mm] by auto
  have u: "unat (end_of ?d) = hi ?d" "unat (end_of ?e) = hi ?e" using g by (simp_all add: good_end)
  have p2: "etype ?d \<in> set p" "etype ?e \<in> set p" using g by (auto simp: good_def)
  let ?t = "precedence_scan p (etype ?d) (etype ?e)"
  have rk: "rank p ?t = min (rank p (etype ?d)) (rank p (etype ?e))" using rank_scan [OF p2] .
  have tin: "?t \<in> set p" using scan_in [OF p2(1)] .
  have kk: "k \<le> avail st fs" using k by simp
  note red = fix_overlap_body_def Let_def mm_next [OF mm] nn higher_precedence_def prec word_le_nat_alt word_less_nat_alt u
  consider "hi ?d \<le> lo ?e" | "lo ?e < hi ?d" "hi ?d < hi ?e" "?t = etype ?d"
    | "lo ?e < hi ?d" "hi ?d < hi ?e" "?t \<noteq> etype ?d" | "lo ?e < hi ?d" "hi ?d = hi ?e"
    | "lo ?e < hi ?d" "hi ?e < hi ?d" "?t = etype ?d" | "lo ?e < hi ?d" "hi ?e < hi ?d" "?t \<noteq> etype ?d"
    by linarith
  then show ?thesis
  proof cases
    case 1
    then have "\<forall>y\<in>set (s # cs). below (ents st) f y"
      using fixable_tail_above [OF fx] good_less [OF g(2)] by (fastforce simp: below_def)
    from fixed_same [OF fx this kk] 1 show ?thesis by (simp add: red lo_def [symmetric])
  next
    case 2
    note e' = trim_second [OF g lt 2(1,2)]
    let ?e' = "?e\<lparr>esize := end_of ?e - end_of ?d, physical_start := end_of ?e - (end_of ?e - end_of ?d)\<rparr>"
    have "fixed p st as f (s # cs) k (st\<lparr>ents := (ents st)(f := ?d, s := ?e')\<rparr>)"
      using e' 2 rk g lt by (intro fixed_in_place [OF fx kk refl, where z = "esize ?d"]) auto
    with 2 lt show ?thesis by (simp add: red lo_def [symmetric])
  next
    case 3
    then have t: "?t = etype ?e" using scan_cases [OF p2(1)] by metis
    let ?d' = "?d\<lparr>esize := physical_start ?e - physical_start ?d\<rparr>"
    have r: "rank p (etype ?e) \<le> rank p (etype ?d)" using rk t by simp
    note d' = trim_first [OF g lt]
    have "fixed p st as f (s # cs) k (st\<lparr>ents := (ents st)(f := ?d', s := ?e)\<rparr>)"
      using d' 3 g r by (intro fixed_in_place [OF fx kk refl refl]) auto
    moreover have "(ents st)(f := ?d', s := ?e) = (ents st)(f := ?d')" using nn by auto
    ultimately show ?thesis using 3 t lt by (simp add: red lo_def [symmetric])
  next
    case 4
    let ?d' = "?d\<lparr>esize := physical_start ?e - physical_start ?d\<rparr>"
    note d' = trim_first [OF g lt]
    have T: "min (tye p ?d' a) (tye p (?e\<lparr>etype := ?t\<rparr>) a) = min (tye p ?d a) (tye p ?e a)" for a
      using d'(2,3) 4 lt rk by (auto simp: tye_def covers_def)
    have "fixed p st as f (s # cs) k (st\<lparr>ents := (ents st)(f := ?d', s := ?e\<lparr>etype := ?t\<rparr>)\<rparr>)"
      using d' 4 g retype [OF g(2) tin] T by (intro fixed_in_place [OF fx kk refl refl]) auto
    moreover have "(ents st)(f := ?d', s := ?e\<lparr>etype := ?t\<rparr>) = (ents st)(s := ?e\<lparr>etype := ?t\<rparr>, f := ?d')"
      using nn by (simp add: fun_upd_twist)
    ultimately show ?thesis using 4 lt nn by (simp add: red lo_def [symmetric])
  next
    case 5
    then have sw: "swallowed p ?d ?e" by (simp add: swallowed_def)
    from mm remove_ok [of st "as @ [f]" s cs fs] obtain st1 where st1: "remove_and_free st s = Inr st1"
      "mm st1 (as @ f # cs) (s # fs)" "same_env st st1" by auto
    note sws = fix_swallow [OF fx sw st1(2,3)]
    have "outcome_ok (abut (ents st1) (hi (ents st1 f)) cs) (fix_overlap n st1 f) (fixed p st1 as f cs k)"
    proof (rule F_okD [OF F sws(1)])
      show "2 * ov (ents st1) (hi (ents st1 f)) cs < n" using n 5 same_envD(1) [OF st1(3)] by simp
      show "k + ov (ents st1) (hi (ents st1 f)) cs \<le> avail st1 (s # fs)"
        using k 5 st1(3) by (auto simp: avail_def same_env_def)
    qed
    then have "outcome_ok (abut (ents st) (hi ?d) (s # cs)) (fix_overlap n st1 f) (fixed p st as f (s # cs) k)"
      using abut_mono [of "ents st" "hi ?d" cs "s # cs" "hi ?d"] sws(2) same_envD(1) [OF st1(3)]
      by (auto elim!: outcome_ok_mono)
    with 5 lt st1(1) show ?thesis by (simp add: red lo_def [symmetric])
  next
    case 6
    then have t: "?t = etype ?e" using scan_cases [OF p2(1)] by metis
    from fix_split [OF fx 6(2) t A _ k] n 6 t lt show ?thesis by (simp add: red lo_def [symmetric])
  qed
qed

lemma fix_step:
  assumes "F_ok p n" and "A_ok p n"
  shows "F_ok p (Suc n)"
  unfolding F_ok_def
proof (intro allI impI)
  fix st as f bs fs k
  assume fx: "fixable p st as f bs fs" and n: "2 * ov (ents st) (hi (ents st f)) bs < Suc n"
    and k: "k + ov (ents st) (hi (ents st f)) bs \<le> avail st fs"
  show "outcome_ok (abut (ents st) (hi (ents st f)) bs) (fix_overlap (Suc n) st f) (fixed p st as f bs k)"
  proof (cases bs)
    case Nil
    then have "RB_NEXT (mmap st) f = Some NULL" using fx mm_next [of st as f "[]"] by (auto simp: fixable_def)
    with Nil fixed_same [OF fx] k show ?thesis by (auto simp: fix_overlap_body_def)
  next
    case (Cons s cs)
    with fix_step_cons [OF assms] fx n k show ?thesis by blast
  qed
qed

end
