(* ===== verification/Memory_Map_Add.thy ===== *)
theory Memory_Map_Add
  imports Memory_Map_Overlap
begin

text \<open>
  \<open>mmap_add_entry\<close> of a page-aligned region above the part \<open>as\<close> of the map: every branch of the
  insertion settles the tail, and the induction on the depth of the recursion closes the contracts
  of \<open>fix_overlap\<close> and \<open>mmap_add_entry\<close>.
\<close>

section \<open>Alignment\<close>

lemma and_mask_dvd: "(x::u64) AND 0xFFF = 0 \<longleftrightarrow> 4096 dvd unat x"
  by (metis dvd_eq_mod_eq_0 unat_and_mask(3) unat_eq_zero)

lemma good_aligned:
  assumes "good p e"
  shows "esize e \<noteq> 0" "physical_start e AND 0xFFF = 0" "esize e AND 0xFFF = 0"
proof -
  have "4096 dvd lo e" "4096 dvd hi e" "esize e \<noteq> 0" using assms by (auto simp: good_def)
  moreover from this have "4096 dvd unat (esize e)"
    by (metis dvd_add_right_iff hi_def lo_def)
  ultimately show "esize e \<noteq> 0" "physical_start e AND 0xFFF = 0" "esize e AND 0xFFF = 0"
    by (auto simp: and_mask_dvd lo_def)
qed

lemma add_aligned: "good p e \<Longrightarrow> mmap_add_entry (Suc n) st e = insert_entry (fix_overlap n) st e"
  using good_aligned [of p e] by (simp add: add_entry_body_def)

section \<open>The new structure in hand\<close>

text \<open>After the allocation: \<open>x\<close> holds the new region and is not in the tree yet.\<close>

definition in_hand :: "gd_memory_type list \<Rightarrow> mmap_state \<Rightarrow> addr list \<Rightarrow> addr \<Rightarrow> addr list \<Rightarrow> addr list \<Rightarrow> bool" where
  "in_hand p st as x bs fs \<longleftrightarrow> mm st (as @ bs) fs \<and> fresh st (as @ bs) fs x \<and> tailwf p (ents st) as bs \<and>
     good p (ents st x) \<and> (\<forall>y\<in>set as. hi (ents st y) \<le> lo (ents st x)) \<and>
     (\<forall>y\<in>set bs. lo (ents st x) \<le> lo (ents st y)) \<and> overlap_precedence st = p"

lemma start_less:
  "good p (E y) \<Longrightarrow> hi (E y) \<le> lo (E x) \<Longrightarrow> physical_start (E y) < physical_start (E x)"
  using good_less [of p "E y"] by (simp add: word_less_nat_alt lo_def)

lemma fix_overlap_null: "fix_overlap (Suc n) st NULL = Inr st"
  by (simp add: fix_overlap_body_def)

lemma fix_overlap_apart:
  assumes mm: "mm st (as @ q # x # bs) fs" and "good p (ents st q)" and "hi (ents st q) \<le> lo (ents st x)"
  shows "fix_overlap (Suc n) st q = Inr st"
proof -
  have "end_of (ents st q) \<le> physical_start (ents st x)"
    using assms(2,3) good_end [of p "ents st q"] by (simp add: word_le_nat_alt lo_def)
  then show ?thesis
    using mm_next [OF mm] mm_not_null [OF mm] by (simp add: fix_overlap_body_def)
qed

text \<open>The end of \<open>mmap_add_entry\<close> after \<open>fix_overlap\<close> on the new structure.\<close>

lemma fixed_tail:
  assumes "fixed p st as x bs k st'" "\<forall>y\<in>set as. below (ents st) y x"
  obtains bs' fs' where "mm st' (as @ x # bs') fs'" "tailwf p (ents st') as (x # bs')"
    "\<forall>y\<in>set as. ents st' y = ents st y" "\<And>a. tyr p (ents st') (as @ x # bs') a = tyr p (ents st) (as @ x # bs) a"
    "k \<le> avail st' fs'" "overlap_precedence st' = overlap_precedence st"
proof -
  from assms(1) obtain bs' fs' where f: "mm st' (as @ x # bs') fs'" "tailwf p (ents st') (as @ [x]) bs'"
    "\<forall>y\<in>set as. ents st' y = ents st y" "\<exists>z. ents st' x = (ents st x)\<lparr>esize := z\<rparr>"
    "\<And>a. tyr p (ents st') (as @ x # bs') a = tyr p (ents st) (as @ x # bs) a" "k \<le> avail st' fs'"
    "overlap_precedence st' = overlap_precedence st"
    unfolding fixed_def by blast
  have "tailwf p (ents st') as (x # bs')"
    using f(2,3,4) assms(2) by (auto simp: tailwf_Cons below_def)
  with f that show thesis by blast
qed

lemma fixed_merge:
  assumes "fixed p st as x bs k st'" "\<forall>y\<in>set as. below (ents st) y x"
  shows "\<exists>st''. merge_adjacent st' x = Inr st'' \<and> settled p st as (tyr p (ents st) (as @ x # bs)) k st''"
proof -
  obtain bs' fs' where f: "mm st' (as @ x # bs') fs'" "tailwf p (ents st') as (x # bs')"
    "\<forall>y\<in>set as. ents st' y = ents st y" "\<And>a. tyr p (ents st') (as @ x # bs') a = tyr p (ents st) (as @ x # bs) a"
    "k \<le> avail st' fs'" "overlap_precedence st' = overlap_precedence st"
    using fixed_tail [OF assms] by blast
  from merge_ok [OF f(1,2)] obtain st'' where m: "merge_adjacent st' x = Inr st''"
    "settled p st' as (tyr p (ents st') (as @ x # bs')) (avail st' fs') st''" by blast
  have "settled p st as (tyr p (ents st') (as @ x # bs')) (avail st' fs') st''"
    using f(3) by (intro settled_trans [OF grows_refl f(6) m(2)]) auto
  then have "settled p st as (tyr p (ents st) (as @ x # bs)) k st''"
    using f(4,5) unfolding settled_def by (metis le_trans)
  with m(1) show ?thesis by blast
qed

lemma settled_from:
  assumes "settled p st1 as T k st'" "\<And>y. y \<in> set as \<Longrightarrow> ents st1 y = ents st y"
    "overlap_precedence st1 = overlap_precedence st" "\<And>a. T a = T' a" "k' \<le> k"
  shows "settled p st as T' k' st'"
proof -
  have "T = T'" using assms(4) by auto
  moreover have "settled p st as T k st'" using settled_trans [OF grows_refl assms(3,1)] assms(2) by blast
  ultimately show ?thesis using assms(5) unfolding settled_def by (metis le_trans)
qed

section \<open>The branches of the insertion\<close>

lemma insert_and_fix:
  assumes F: "F_ok p n" and ih: "in_hand p st as x bs fs" and lt: "\<forall>y\<in>set bs. lo (ents st x) < lo (ents st y)"
    and n: "2 * ov (ents st) (hi (ents st x)) bs < n" and k: "k + ov (ents st) (hi (ents st x)) bs \<le> avail st fs"
  obtains t where "RB_INSERT (mmap_entry_cmp st) (mmap st) x = Some (t, NULL)"
    "outcome_ok (abut (ents st) (hi (ents st x)) bs) (fix_overlap n (st\<lparr>mmap := t\<rparr>) x) (fixed p (st\<lparr>mmap := t\<rparr>) as x bs k)"
    "\<forall>y\<in>set as. below (ents (st\<lparr>mmap := t\<rparr>)) y x"
proof -
  have mm: "mm st (as @ bs) fs" and fr: "fresh st (as @ bs) fs x" and wf: "tailwf p (ents st) as bs"
    and g: "good p (ents st x)" and as: "\<forall>y\<in>set as. hi (ents st y) \<le> lo (ents st x)" and prec: "overlap_precedence st = p"
    using ih by (auto simp: in_hand_def)
  have "\<forall>y\<in>set as. start_of st y < start_of st x"
    using as wf by (intro ballI start_less [of p]) (simp_all add: tailwf_def)
  moreover have "\<forall>y\<in>set bs. start_of st x < start_of st y"
    using lt by (simp add: word_less_nat_alt lo_def)
  ultimately obtain t where t: "RB_INSERT (mmap_entry_cmp st) (mmap st) x = Some (t, NULL)"
    "mm (st\<lparr>mmap := t\<rparr>) (as @ x # bs) fs"
    using insert_ok [OF mm fr] by blast
  let ?st = "st\<lparr>mmap := t\<rparr>"
  have "fixable p ?st as x bs fs" using t(2) wf g lt prec by (simp add: fixable_def)
  from F_okD [OF F this, of k] n k have
    "outcome_ok (abut (ents st) (hi (ents st x)) bs) (fix_overlap n ?st x) (fixed p ?st as x bs k)" by simp
  moreover have "\<forall>y\<in>set as. below (ents ?st) y x" using as by (simp add: below_def)
  ultimately show thesis using t(1) that by blast
qed

lemma settled_mmap: "settled p (st\<lparr>mmap := t\<rparr>) as T k st' = settled p st as T k st'"
  by (simp add: settled_def)

lemma insert_new:
  assumes F: "F_ok p n" and ih: "in_hand p st as x bs fs" and lt: "\<forall>y\<in>set bs. lo (ents st x) < lo (ents st y)"
    and n: "2 * ov (ents st) (hi (ents st x)) bs < n" and k: "k + ov (ents st) (hi (ents st x)) bs \<le> avail st fs"
  shows "\<exists>t. RB_INSERT (mmap_entry_cmp st) (mmap st) x = Some (t, NULL) \<and>
    outcome_ok (abut (ents st) (hi (ents st x)) bs)
      (andthen (fix_overlap n (st\<lparr>mmap := t\<rparr>) x) (\<lambda>st.
       andthen (orcrash (RB_PREV (mmap st) x)) (\<lambda>prev.
       andthen (fix_overlap n st prev) (\<lambda>st. merge_adjacent st x))))
      (settled p st as (tyr p (ents st) (as @ x # bs)) k)"
proof -
  obtain t where t: "RB_INSERT (mmap_entry_cmp st) (mmap st) x = Some (t, NULL)"
    "outcome_ok (abut (ents st) (hi (ents st x)) bs) (fix_overlap n (st\<lparr>mmap := t\<rparr>) x) (fixed p (st\<lparr>mmap := t\<rparr>) as x bs k)"
    and b: "\<forall>y\<in>set as. below (ents (st\<lparr>mmap := t\<rparr>)) y x"
    by (rule insert_and_fix [OF assms])
  let ?st = "st\<lparr>mmap := t\<rparr>"
  have "outcome_ok (abut (ents st) (hi (ents st x)) bs) (andthen (orcrash (RB_PREV (mmap st') x)) (\<lambda>prev.
       andthen (fix_overlap n st' prev) (\<lambda>st. merge_adjacent st x))) (settled p st as (tyr p (ents st) (as @ x # bs)) k)"
    if fixed: "fixed p ?st as x bs k st'" for st'
  proof -
    obtain bs' fs' where f': "mm st' (as @ x # bs') fs'" "tailwf p (ents st') as (x # bs')"
      by (rule fixed_tail [OF fixed b])
    obtain n' where n': "n = Suc n'" using n by (cases n) auto
    have "fix_overlap n st' (last_or NULL as) = Inr st'"
    proof (cases as rule: rev_cases)
      case Nil
      then show ?thesis by (simp only: n' last_or_simps fix_overlap_null)
    next
      case (snoc as0 q)
      with f' show ?thesis
        using fix_overlap_apart [of st' as0 q x bs' fs' p n'] by (simp add: n' tailwf_def below_def del: fix_overlap.simps)
    qed
    moreover obtain st'' where "merge_adjacent st' x = Inr st''" "settled p st as (tyr p (ents st) (as @ x # bs)) k st''"
      using fixed_merge [OF fixed b] by (auto simp: settled_mmap)
    ultimately show ?thesis using mm_prev [OF f'(1)] by simp
  qed
  with t show ?thesis by (auto intro: outcome_ok_andthen)
qed

text \<open>The new region starts where \<open>w\<close> does.\<close>

definition same_start :: "gd_memory_type list \<Rightarrow> mmap_state \<Rightarrow> addr list \<Rightarrow> addr \<Rightarrow> addr \<Rightarrow> addr list \<Rightarrow> addr list \<Rightarrow> bool" where
  "same_start p st as x w cs fs \<longleftrightarrow> in_hand p st as x (w # cs) fs \<and> lo (ents st x) = lo (ents st w)"

lemma same_startD:
  assumes "same_start p st as x w cs fs"
  shows "mm st (as @ w # cs) fs" "fresh st (as @ w # cs) fs x" "tailwf p (ents st) as (w # cs)"
    "good p (ents st x)" "good p (ents st w)" "lo (ents st x) = lo (ents st w)" "overlap_precedence st = p"
    "\<forall>y\<in>set as. hi (ents st y) \<le> lo (ents st w)" "\<forall>y\<in>set cs. hi (ents st w) \<le> lo (ents st y)"
    "x \<noteq> w" "x \<notin> set as" "x \<notin> set cs" "w \<notin> set as" "w \<notin> set cs"
  using assms mm_distinct [of st "as @ w # cs" fs]
  by (auto simp: same_start_def in_hand_def tailwf_def below_def fresh_def)

lemma same_start_hit:
  assumes "same_start p st as x w cs fs"
  shows "RB_INSERT (mmap_entry_cmp st) (mmap st) x = Some (mmap st, w)"
proof (rule insert_hit)
  note d = same_startD [OF assms]
  show "mm st (as @ w # cs) fs" by (rule d)
  show "start_of st x = start_of st w" using d(6) by (simp add: lo_def word_unat_eq_iff)
  show "\<forall>y\<in>set as. start_of st y < start_of st x"
    using d(3,6,8) by (intro ballI start_less [of p]) (simp_all add: tailwf_def)
  show "\<forall>y\<in>set cs. start_of st x < start_of st y"
    using d(6,9) good_less [OF d(5)] by (fastforce simp: word_less_nat_alt lo_def)
qed

lemma in_hand_cases:
  assumes "in_hand p st as x bs fs"
  obtains "\<forall>y\<in>set bs. lo (ents st x) < lo (ents st y)" | w cs where "bs = w # cs" "same_start p st as x w cs fs"
proof (cases "\<exists>w cs. bs = w # cs \<and> lo (ents st w) = lo (ents st x)")
  case True
  then show thesis using assms that(2) by (auto simp: same_start_def)
next
  case False
  have "lo (ents st x) < lo (ents st y)" if "y \<in> set bs" for y
  proof (cases bs)
    case (Cons w cs)
    have w: "lo (ents st x) < lo (ents st w)" using assms Cons False by (fastforce simp: in_hand_def)
    moreover have "y \<noteq> w \<Longrightarrow> lo (ents st w) < lo (ents st y)"
      using assms Cons that good_less [of p "ents st w"] by (fastforce simp: in_hand_def tailwf_def below_def)
    ultimately show ?thesis by fastforce
  qed (use that in simp)
  then show thesis using that(1) by blast
qed

lemma insert_shifted:
  assumes F: "F_ok p n" and ih: "in_hand p st as x bs fs"
    and n: "2 * ov (ents st) (hi (ents st x)) bs < n" and k: "k + ov (ents st) (hi (ents st x)) bs \<le> avail st fs"
  shows "outcome_ok ((\<exists>y\<in>set bs. lo (ents st y) = lo (ents st x)) \<or> abut (ents st) (hi (ents st x)) bs)
    (andthen (orcrash (RB_INSERT (mmap_entry_cmp st) (mmap st) x)) (\<lambda>(t, r).
       if r \<noteq> NULL then Inl bad_tree
       else andthen (fix_overlap n (st\<lparr>mmap := t\<rparr>) x) (\<lambda>st. merge_adjacent st x)))
    (settled p st as (tyr p (ents st) (as @ x # bs)) k)"
  using ih
proof (cases rule: in_hand_cases)
  case 1
  obtain t where t: "RB_INSERT (mmap_entry_cmp st) (mmap st) x = Some (t, NULL)"
    "outcome_ok (abut (ents st) (hi (ents st x)) bs) (fix_overlap n (st\<lparr>mmap := t\<rparr>) x) (fixed p (st\<lparr>mmap := t\<rparr>) as x bs k)"
    and b: "\<forall>y\<in>set as. below (ents (st\<lparr>mmap := t\<rparr>)) y x"
    by (rule insert_and_fix [OF F ih 1 n k])
  have "outcome_ok (abut (ents st) (hi (ents st x)) bs) (andthen (fix_overlap n (st\<lparr>mmap := t\<rparr>) x) (\<lambda>st. merge_adjacent st x))
    (settled p st as (tyr p (ents st) (as @ x # bs)) k)"
    using t(2) by (rule outcome_ok_andthen) (use fixed_merge [OF _ b] in \<open>fastforce simp: settled_mmap\<close>)
  then show ?thesis using t(1) by (auto elim: outcome_ok_mono)
next
  case (2 w cs)
  then have "w \<noteq> NULL" using ih mm_not_null [of st "as @ bs" fs w] by (auto simp: in_hand_def)
  then show ?thesis using same_start_hit [OF 2(2)] 2 by (simp add: same_start_def)
qed

lemma tailwf_headI:
  assumes wf: "tailwf p E as cs" and same: "\<And>y. y \<in> set as \<Longrightarrow> E' y = E y" "\<And>y. y \<in> set cs \<Longrightarrow> E' y = E y"
    and w: "good p (E' w)" "\<forall>y\<in>set cs. hi (E' w) \<le> lo (E y)" "\<forall>x\<in>set as. hi (E x) \<le> lo (E' w)"
  shows "tailwf p E' as (w # cs)"
proof -
  have "tailwf p E' as cs" using wf same by (intro tailwf_cong [OF _ wf]) auto
  with w same show ?thesis by (auto simp: tailwf_def below_def)
qed

lemma tailwf_tl: "tailwf p E as (w # cs) \<Longrightarrow> tailwf p E as cs"
  by (auto simp: tailwf_def)

lemma insert_equal:
  assumes s: "same_start p st as x w cs fs" and sz: "esize (ents st w) = esize (ents st x)"
  defines "t \<equiv> precedence_scan p (etype (ents st w)) (etype (ents st x))"
  shows "\<exists>st'. andthen (mmap_free_entry (upd_ent (\<lambda>e. e\<lparr>etype := t\<rparr>) w st) x) (\<lambda>st. merge_adjacent st w) = Inr st' \<and>
    settled p st as (tyr p (ents st) (as @ x # w # cs)) (avail st fs) st'"
proof -
  note d = same_startD [OF s]
  let ?st = "upd_ent (\<lambda>e. e\<lparr>etype := t\<rparr>) w st"
  have ty: "etype (ents st w) \<in> set p" "etype (ents st x) \<in> set p" using d(4,5) by (auto simp: good_def)
  then have t: "t \<in> set p" "rank p t = min (rank p (etype (ents st w))) (rank p (etype (ents st x)))"
    by (simp_all add: t_def scan_in rank_scan)
  have "mm ?st (as @ w # cs) fs" "fresh ?st (as @ w # cs) fs x" using d(1,2) by simp_all
  from free_ok [OF this] obtain st1 where st1: "mmap_free_entry ?st x = Inr st1" "mm st1 (as @ w # cs) (x # fs)"
    "same_env ?st st1" by blast
  have E: "ents st1 = (ents st)(w := (ents st w)\<lparr>etype := t\<rparr>)" and prec: "overlap_precedence st1 = overlap_precedence st"
    using st1(3) by (simp_all add: same_env_def)
  have same: "\<And>y. y \<in> set as \<Longrightarrow> ents st1 y = ents st y" "\<And>y. y \<in> set cs \<Longrightarrow> ents st1 y = ents st y"
    using d(13,14) by (auto simp: E)
  have "tailwf p (ents st1) as (w # cs)"
    using retype(1) [OF d(5) t(1)] d(8,9) by (intro tailwf_headI [OF tailwf_tl [OF d(3)] same]) (auto simp: E)
  from merge_ok [OF st1(2) this] obtain st' where m: "merge_adjacent st1 w = Inr st'"
    "settled p st1 as (tyr p (ents st1) (as @ w # cs)) (avail st1 (x # fs)) st'" by blast
  have "covers (ents st w) a \<longleftrightarrow> covers (ents st x) a" for a
    using d(6) sz by (simp add: covers_def hi_def lo_def)
  then have "tye p (ents st1 w) a = min (tye p (ents st x) a) (tye p (ents st w) a)" for a
    using retype(2) [OF d(5) t(1)] t(2) by (simp add: E tye_def min.commute)
  then have T: "tyr p (ents st1) (as @ w # cs) a = tyr p (ents st) (as @ x # w # cs) a" for a
    using tyr_cong [OF same(1)] tyr_cong [OF same(2)] by (simp add: min.assoc)
  have "avail st fs \<le> avail st1 (x # fs)" using st1(3) by (simp add: avail_def same_env_def)
  moreover have "settled p st as (tyr p (ents st1) (as @ w # cs)) (avail st1 (x # fs)) st'"
    using same(1) by (intro settled_trans [OF grows_refl prec m(2)]) auto
  ultimately have "settled p st as (tyr p (ents st) (as @ x # w # cs)) (avail st fs) st'"
    unfolding settled_def T by (meson le_trans)
  with st1(1) m(1) show ?thesis by simp
qed

text \<open>A region that loses its first \<open>z\<close> bytes.\<close>

lemma cut_front:
  assumes g: "good p e" and z: "unat z < unat (esize e)" "4096 dvd unat z"
  defines "e' \<equiv> e\<lparr>esize := esize e - z, physical_start := physical_start e + z\<rparr>"
  shows "good p e'" "lo e' = lo e + unat z" "hi e' = hi e"
proof -
  have u: "unat (esize e - z) = unat (esize e) - unat z" using z by (subst unat_diff) (auto simp: word_le_nat_alt)
  have "lo e + unat z < 2 ^ 64" using z good_bound [OF g] by (simp add: lo_def hi_def)
  then have v: "unat (physical_start e + z) = lo e + unat z" by (simp add: lo_def unat_word_ariths)
  show l: "lo e' = lo e + unat z" using v by (simp add: e'_def lo_def)
  show h: "hi e' = hi e" using u v z by (simp add: e'_def hi_def lo_def)
  have "unat (esize e - z) \<noteq> 0" using u z by simp
  then show "good p e'" using g l h z by (auto simp: good_def e'_def)
qed

lemma good_size_dvd: "good p e \<Longrightarrow> 4096 dvd unat (esize e)"
  using good_aligned(3) [of p e] by (simp add: and_mask_dvd)

lemma insert_bigger:
  assumes s: "same_start p st as x w cs fs" and sz: "esize (ents st w) > esize (ents st x)"
  defines "t \<equiv> precedence_scan p (etype (ents st w)) (etype (ents st x))" and "n \<equiv> esize (ents st x)"
  defines "st2 \<equiv> upd_ent (\<lambda>e. e\<lparr>esize := esize e - n, physical_start := physical_start e + n\<rparr>) w
     (upd_ent (\<lambda>e. e\<lparr>etype := t\<rparr>) x st)"
  shows "\<exists>t st'. RB_INSERT (mmap_entry_cmp st2) (mmap st2) x = Some (t, NULL) \<and>
    merge_adjacent (st2\<lparr>mmap := t\<rparr>) x = Inr st' \<and>
    settled p st as (tyr p (ents st) (as @ x # w # cs)) (avail st fs) st'"
proof -
  note d = same_startD [OF s]
  have ty: "etype (ents st w) \<in> set p" "etype (ents st x) \<in> set p" using d(4,5) by (auto simp: good_def)
  then have t: "t \<in> set p" "rank p t = min (rank p (etype (ents st w))) (rank p (etype (ents st x)))"
    by (simp_all add: t_def scan_in rank_scan)
  have E: "ents st2 x = (ents st x)\<lparr>etype := t\<rparr>"
    "ents st2 w = (ents st w)\<lparr>esize := esize (ents st w) - n, physical_start := physical_start (ents st w) + n\<rparr>"
    and same: "\<And>y. y \<in> set as \<Longrightarrow> ents st2 y = ents st y" "\<And>y. y \<in> set cs \<Longrightarrow> ents st2 y = ents st y"
    using d(10-14) by (auto simp: st2_def)
  have "unat n < unat (esize (ents st w))" using sz by (simp add: n_def word_less_nat_alt)
  note w = cut_front [OF d(5) this, folded E(2)]
  have w': "good p (ents st2 w)" "lo (ents st2 w) = hi (ents st x)" "hi (ents st2 w) = hi (ents st w)"
    using w good_size_dvd [OF d(4)] d(6) by (auto simp: n_def hi_def lo_def)
  have x: "good p (ents st2 x)" "lo (ents st2 x) = lo (ents st w)" "hi (ents st2 x) = hi (ents st x)"
    using retype(1) [OF d(4) t(1)] d(6) by (simp_all add: E)
  have lt: "lo (ents st x) < hi (ents st x)" "hi (ents st x) < hi (ents st w)"
    using good_less [OF d(4)] w'(2,3) good_less [OF w'(1)] by auto
  have wf: "tailwf p (ents st2) as (w # cs)"
    using w' d(6,8,9) lt by (intro tailwf_headI [OF tailwf_tl [OF d(3)] same]) fastforce+
  have wf2: "tailwf p (ents st2) as (x # w # cs)"
    using x w' d(8,9) lt same by (intro tailwf_headI [OF wf]) fastforce+
  have "mm st2 (as @ w # cs) fs" "fresh st2 (as @ w # cs) fs x" using d(1,2) by (simp_all add: st2_def)
  moreover have "\<forall>y\<in>set as. start_of st2 y < start_of st2 x"
    using wf2 by (intro ballI below_less [of "ents st2" _ _ p]) (auto simp: tailwf_def)
  moreover have "\<forall>y\<in>set (w # cs). start_of st2 x < start_of st2 y"
    using wf2 by (intro ballI below_less [of "ents st2" _ _ p]) (auto simp: tailwf_def)
  ultimately obtain t' where t': "RB_INSERT (mmap_entry_cmp st2) (mmap st2) x = Some (t', NULL)"
    "mm (st2\<lparr>mmap := t'\<rparr>) (as @ x # w # cs) fs" by (rule insert_ok)
  from merge_ok [OF t'(2)] wf2 obtain st' where m: "merge_adjacent (st2\<lparr>mmap := t'\<rparr>) x = Inr st'"
    "settled p (st2\<lparr>mmap := t'\<rparr>) as (tyr p (ents st2) (as @ x # w # cs)) (avail st2 fs) st'" by auto
  have "min (tye p (ents st2 x) a) (tye p (ents st2 w) a) = min (tye p (ents st x) a) (tye p (ents st w) a)" for a
    using x(2,3) w'(2,3) lt d(6) t(2) by (auto simp: tye_def covers_def) (auto simp: E)
  then have "min (tye p (ents st2 x) a) (min (tye p (ents st2 w) a) u) = min (tye p (ents st x) a) (min (tye p (ents st w) a) u)" for a u
    by (simp only: min.assoc [symmetric])
  then have T: "tyr p (ents st2) (as @ x # w # cs) a = tyr p (ents st) (as @ x # w # cs) a" for a
    using tyr_cong [OF same(1)] tyr_cong [OF same(2)] by simp
  have "settled p st as (tyr p (ents st2) (as @ x # w # cs)) (avail st2 fs) st'"
    using same(1) by (intro settled_trans [OF grows_refl _ m(2)]) (auto simp: st2_def)
  then have "settled p st as (tyr p (ents st) (as @ x # w # cs)) (avail st fs) st'"
    unfolding settled_def T by (simp add: st2_def)
  with t'(1) m(1) show ?thesis by blast
qed

lemma insert_smaller:
  assumes F: "F_ok p n" and s: "same_start p st as x w cs fs" and sz: "esize (ents st w) < esize (ents st x)"
    and n: "2 * ov (ents st) (hi (ents st x)) cs < n" and k: "k + ov (ents st) (hi (ents st x)) cs \<le> avail st fs"
  defines "t \<equiv> precedence_scan p (etype (ents st w)) (etype (ents st x))" and "z \<equiv> esize (ents st w)"
  defines "st2 \<equiv> upd_ent (\<lambda>e. e\<lparr>esize := esize e - z, physical_start := physical_start e + z\<rparr>) x
     (upd_ent (\<lambda>e. e\<lparr>etype := t\<rparr>) w st)"
  shows "outcome_ok (abut (ents st) (hi (ents st x)) (w # cs))
    (andthen (orcrash (RB_INSERT (mmap_entry_cmp st2) (mmap st2) x)) (\<lambda>(t, r).
       if r \<noteq> NULL then Inl bad_tree
       else andthen (fix_overlap n (st2\<lparr>mmap := t\<rparr>) x) (\<lambda>st. merge_adjacent st x)))
    (settled p st as (tyr p (ents st) (as @ x # w # cs)) k)"
proof -
  note d = same_startD [OF s]
  have ty: "etype (ents st w) \<in> set p" "etype (ents st x) \<in> set p" using d(4,5) by (auto simp: good_def)
  then have t: "t \<in> set p" "rank p t = min (rank p (etype (ents st w))) (rank p (etype (ents st x)))"
    by (simp_all add: t_def scan_in rank_scan)
  have E: "ents st2 w = (ents st w)\<lparr>etype := t\<rparr>"
    "ents st2 x = (ents st x)\<lparr>esize := esize (ents st x) - z, physical_start := physical_start (ents st x) + z\<rparr>"
    and same: "\<And>y. y \<in> set as \<Longrightarrow> ents st2 y = ents st y" "\<And>y. y \<in> set cs \<Longrightarrow> ents st2 y = ents st y"
    using d(10-14) by (auto simp: st2_def)
  have "unat z < unat (esize (ents st x))" using sz by (simp add: z_def word_less_nat_alt)
  note x = cut_front [OF d(4) this, folded E(2)]
  have x': "good p (ents st2 x)" "lo (ents st2 x) = hi (ents st w)" "hi (ents st2 x) = hi (ents st x)"
    using x good_size_dvd [OF d(5)] d(6) by (auto simp: z_def hi_def lo_def)
  have w: "good p (ents st2 w)" "lo (ents st2 w) = lo (ents st w)" "hi (ents st2 w) = hi (ents st w)"
    using retype(1) [OF d(5) t(1)] by (simp_all add: E)
  have lt: "lo (ents st w) < hi (ents st w)" "hi (ents st w) < hi (ents st x)"
    using good_less [OF d(5)] x'(2,3) good_less [OF x'(1)] by auto
  have wf: "tailwf p (ents st2) as (w # cs)"
    using w d(8,9) by (intro tailwf_headI [OF tailwf_tl [OF d(3)] same]) auto
  have "min (tye p (ents st2 w) a) (tye p (ents st2 x) a) = min (tye p (ents st x) a) (tye p (ents st w) a)" for a
    using w(2,3) x'(2,3) lt d(6) t(2) by (auto simp: tye_def covers_def) (auto simp: E)
  then have "min (tye p (ents st2 w) a) (min (tye p (ents st2 x) a) u) = min (tye p (ents st x) a) (min (tye p (ents st w) a) u)" for a u
    by (simp only: min.assoc [symmetric])
  then have T: "tyr p (ents st2) ((as @ [w]) @ x # cs) a = tyr p (ents st) (as @ x # w # cs) a" for a
    using tyr_cong [OF same(1)] tyr_cong [OF same(2)] by simp
  have wf': "tailwf p (ents st2) (as @ [w]) cs" "\<forall>y\<in>set as. below (ents st2) y w" using wf by (simp_all add: tailwf_Cons)
  have "in_hand p st2 (as @ [w]) x cs fs"
    unfolding in_hand_def using wf' x' w lt d(1,2,7,8,9) same by (fastforce simp: st2_def)
  moreover have "avail st2 fs = avail st fs" by (simp add: st2_def)
  then have "k + ov (ents st2) (hi (ents st2 x)) cs \<le> avail st2 fs"
    and n2: "2 * ov (ents st2) (hi (ents st2 x)) cs < n"
    using k n x'(3) ov_cong [of cs "ents st2" "ents st", OF same(2)] by simp_all
  ultimately have "outcome_ok ((\<exists>y\<in>set cs. lo (ents st2 y) = lo (ents st2 x)) \<or> abut (ents st2) (hi (ents st2 x)) cs)
    (andthen (orcrash (RB_INSERT (mmap_entry_cmp st2) (mmap st2) x)) (\<lambda>(t, r).
       if r \<noteq> NULL then Inl bad_tree
       else andthen (fix_overlap n (st2\<lparr>mmap := t\<rparr>) x) (\<lambda>st. merge_adjacent st x)))
    (settled p st2 (as @ [w]) (tyr p (ents st2) ((as @ [w]) @ x # cs)) k)"
    using insert_shifted [OF F _ n2] by blast
  then show ?thesis
  proof (rule outcome_ok_mono)
    show "abut (ents st) (hi (ents st x)) (w # cs)"
      if "(\<exists>y\<in>set cs. lo (ents st2 y) = lo (ents st2 x)) \<or> abut (ents st2) (hi (ents st2 x)) cs"
      using that
    proof
      assume "\<exists>y\<in>set cs. lo (ents st2 y) = lo (ents st2 x)"
      then obtain y where "y \<in> set cs" "lo (ents st y) = hi (ents st w)" using x'(2) same(2) by auto
      then show ?thesis using lt unfolding abut_def by (intro bexI [of _ w] bexI [of _ y]) auto
    next
      assume "abut (ents st2) (hi (ents st2 x)) cs"
      then have "abut (ents st) (hi (ents st x)) cs" using abut_cong [of cs "ents st2", OF same(2)] x'(3) by simp
      then show ?thesis by (rule abut_mono) auto
    qed
    show "settled p st as (tyr p (ents st) (as @ x # w # cs)) k st'"
      if "settled p st2 (as @ [w]) (tyr p (ents st2) ((as @ [w]) @ x # cs)) k st'" for st'
      by (rule settled_from [OF settled_snoc [OF that wf'(2)]]) (use same(1) T in \<open>auto simp: st2_def\<close>)
  qed
qed

lemma outcome_ok_touch:
  "outcome_ok B r (settled p st as T k) \<Longrightarrow> outcome_ok B (andthen r (\<lambda>st. Inr (touch_key st))) (settled p st as T k)"
  by (erule outcome_ok_andthen) simp

lemma place_ok:
  assumes F: "F_ok p n" and ih: "in_hand p st as x bs fs" and n: "2 * ov (ents st) (hi (ents st x)) bs < n"
    and k: "k + ov (ents st) (hi (ents st x)) bs \<le> avail st fs"
  shows "outcome_ok (abut (ents st) (hi (ents st x)) bs) (place_entry (fix_overlap n) st x)
    (settled p st as (tyr p (ents st) (as @ x # bs)) k)"
  using ih
proof (cases rule: in_hand_cases)
  case 1
  from insert_new [OF F ih 1 n k] show ?thesis
    unfolding place_entry_def by (auto intro: outcome_ok_touch)
next
  case (2 w cs)
  note hit = same_start_hit [OF 2(2)]
  have w: "w \<noteq> NULL" using ih 2 mm_not_null [of st "as @ bs" fs w] by (auto simp: in_hand_def)
  have prec: "overlap_precedence st = p" using ih by (simp add: in_hand_def)
  have kk: "k \<le> avail st fs" using k by simp
  note red = place_entry_def hit w Let_def higher_precedence_def prec
  consider "esize (ents st w) = esize (ents st x)" | "esize (ents st w) > esize (ents st x)"
    | "esize (ents st w) < esize (ents st x)" by force
  then show ?thesis
  proof cases
    case 1
    from insert_equal [OF 2(2) 1] obtain st' where st': "settled p st as (tyr p (ents st) (as @ x # w # cs)) (avail st fs) st'"
      "andthen (mmap_free_entry (upd_ent (\<lambda>e. e\<lparr>etype := precedence_scan p (etype (ents st w)) (etype (ents st x))\<rparr>) w st) x)
        (\<lambda>st. merge_adjacent st w) = Inr st'" by blast
    have "settled p st as (tyr p (ents st) (as @ x # bs)) k st'"
      by (rule settled_from [OF st'(1)]) (use 2(1) kk in auto)
    with st'(2) 1 show ?thesis by (simp add: red)
  next
    case b: 2
    from insert_bigger [OF 2(2) b] obtain t st' where
      S: "settled p st as (tyr p (ents st) (as @ x # w # cs)) (avail st fs) st'" and
      st': "RB_INSERT (mmap_entry_cmp (upd_ent (\<lambda>e. e\<lparr>esize := esize e - esize (ents st x), physical_start := physical_start e + esize (ents st x)\<rparr>) w
         (upd_ent (\<lambda>e. e\<lparr>etype := precedence_scan p (etype (ents st w)) (etype (ents st x))\<rparr>) x st))) (mmap st) x = Some (t, NULL)"
        "merge_adjacent (upd_ent (\<lambda>e. e\<lparr>esize := esize e - esize (ents st x), physical_start := physical_start e + esize (ents st x)\<rparr>) w
         (upd_ent (\<lambda>e. e\<lparr>etype := precedence_scan p (etype (ents st w)) (etype (ents st x))\<rparr>) x st)\<lparr>mmap := t\<rparr>) x = Inr st'"
      by auto
    have "settled p st as (tyr p (ents st) (as @ x # bs)) k st'"
      by (rule settled_from [OF S]) (use 2(1) kk in auto)
    moreover have "esize (ents st w) \<noteq> esize (ents st x)" using b by auto
    ultimately show ?thesis using st' b by (simp add: red)
  next
    case 3
    have "2 * ov (ents st) (hi (ents st x)) cs < n" "k + ov (ents st) (hi (ents st x)) cs \<le> avail st fs"
      using n k 2(1) by (auto split: if_splits)
    moreover have "esize (ents st w) \<noteq> esize (ents st x)" "\<not> esize (ents st w) > esize (ents st x)" using 3 by auto
    ultimately show ?thesis
      using outcome_ok_touch [OF insert_smaller [OF F 2(2) 3]] 2(1) by (simp add: red)
  qed
qed

section \<open>The induction\<close>

lemma add_step:
  assumes F: "F_ok p n" shows "A_ok p (Suc n)"
  unfolding A_ok_def
proof (intro allI impI)
  fix st as e bs fs k
  assume ad: "addable p st as e bs fs" and n: "2 * ov (ents st) (hi e) bs + 1 < Suc n" and k: "k + ov (ents st) (hi e) bs < avail st fs"
  have mm: "mm st (as @ bs) fs" and wf: "tailwf p (ents st) as bs" and g: "good p e"
    and as: "\<forall>y\<in>set as. hi (ents st y) \<le> lo e" and bs: "\<forall>y\<in>set bs. lo e \<le> lo (ents st y)"
    and prec: "overlap_precedence st = p"
    using ad by (auto simp: addable_def)
  from k have "avail st fs > 0" by simp
  then obtain st1 x fs1 where st1: "mmap_alloc_entry st = Inr (st1, x)" "mm st1 (as @ bs) fs1"
    "fresh st1 (as @ bs) fs1 x" "ents st1 = ents st" "mmap st1 = mmap st" "overlap_precedence st1 = overlap_precedence st"
    "Suc (avail st1 fs1) = avail st fs"
    using alloc_ok [OF mm] by metis
  define st2 where "st2 = upd_ent (\<lambda>_. e) x st1"
  have x: "x \<noteq> NULL" "x \<notin> set as" "x \<notin> set bs" using st1(3) by (auto simp: fresh_def)
  have E: "ents st2 x = e" and same: "\<And>y. y \<in> set as \<Longrightarrow> ents st2 y = ents st y" "\<And>y. y \<in> set bs \<Longrightarrow> ents st2 y = ents st y"
    using x st1(4) by (auto simp: st2_def)
  have "tailwf p (ents st2) as bs" using same by (intro tailwf_cong [OF _ wf]) auto
  then have ih: "in_hand p st2 as x bs fs1"
    using st1(2,3,6) g as bs prec same E by (auto simp: in_hand_def st2_def)
  have k2: "k + ov (ents st2) (hi (ents st2 x)) bs \<le> avail st2 fs1" and k3: "k \<le> avail st2 fs1"
    using k st1(7) E ov_cong [of bs "ents st2" "ents st", OF same(2)] by (simp_all add: st2_def)
  have T: "tyr p (ents st2) (as @ x # bs) a = min (tye p e a) (tyr p (ents st) (as @ bs) a)" for a
    using E tyr_cong [of as "ents st2", OF same(1)] tyr_cong [of bs "ents st2", OF same(2)] by (simp add: min.left_commute)
  let ?Q = "settled p st as (\<lambda>a. min (tye p e a) (tyr p (ents st) (as @ bs) a)) k"
  have Q: "?Q st'" if "settled p st2 as (tyr p (ents st2) (as @ x # bs)) k' st'" "k \<le> k'" for st' k'
    by (rule settled_from [OF that(1)]) (use same(1) T that(2) st1(6) in \<open>auto simp: st2_def\<close>)
  have ab: "abut (ents st2) (hi (ents st2 x)) bs = abut (ents st) (hi e) bs" using E abut_cong [of bs "ents st2", OF same(2)] by simp
  show "outcome_ok (abut (ents st) (hi e) bs) (mmap_add_entry (Suc n) st e) ?Q"
  proof -
    have "mmap_add_entry (Suc n) st e = place_entry (fix_overlap n) st2 x"
      using st1(1) x(1) by (simp add: add_aligned [OF g] insert_entry_def st2_def del: mmap_add_entry.simps)
    moreover have "2 * ov (ents st2) (hi (ents st2 x)) bs < n"
      using n E ov_cong [of bs "ents st2" "ents st", OF same(2)] by simp
    ultimately show ?thesis
      using place_ok [OF F ih _ k2] Q ab by (auto elim: outcome_ok_mono)
  qed
qed

lemma contracts: "F_ok p n \<and> A_ok p n"
proof (induction n)
  case 0
  then show ?case by (simp add: F_ok_def A_ok_def)
next
  case (Suc n)
  then show ?case using fix_step add_step by blast
qed

end
