(* ===== verification/Memory_Map_Correct.thy ===== *)
theory Memory_Map_Correct
  imports Memory_Map_Add
begin

text \<open>
  \<open>mmap_add_entry\<close> on a whole memory map: a page-aligned region may start inside another one.  The
  map stays well formed and the type of every address is the one of higher precedence.
\<close>

section \<open>Well-formed maps\<close>

lemma fixedE:
  assumes "fixed p st as f bs k st'"
  obtains bs' fs' z where "mm st' (as @ f # bs') fs'" "tailwf p (ents st') (as @ [f]) bs'"
    "\<And>a. tyr p (ents st') (as @ f # bs') a = tyr p (ents st) (as @ f # bs) a"
    "\<And>x. x \<in> set as \<Longrightarrow> ents st' x = ents st x"
    "ents st' f = (ents st f)\<lparr>esize := z\<rparr>"
    "\<And>h. h \<le> hi (ents st f) \<Longrightarrow> \<forall>y\<in>set bs. h \<le> lo (ents st y) \<Longrightarrow> h \<le> hi (ents st' f)"
    "k \<le> avail st' fs'" "overlap_precedence st' = overlap_precedence st"
    "\<And>s cs. bs = s # cs \<Longrightarrow> \<not> swallowed p (ents st f) (ents st s) \<Longrightarrow> \<exists>cs'. bs' = s # cs'"
  using assms unfolding fixed_def by blast

definition map_ok :: "gd_memory_type list \<Rightarrow> mmap_state \<Rightarrow> addr list \<Rightarrow> addr list \<Rightarrow> bool" where
  "map_ok p st xs fs \<longleftrightarrow> mm st xs fs \<and> (\<forall>x\<in>set xs. good p (ents st x)) \<and> sorted_wrt (below (ents st)) xs \<and>
     overlap_precedence st = p"

text \<open>
  A structure that was freed keeps its last entry.  The second structure of the free list must not
  look like a region of the same type that ends where \<open>e\<close> starts: \<open>merge_adjacent\<close> is called on the
  new structure even after \<open>fix_overlap\<close> has freed it, and then follows its free-list link.
\<close>

fun no_stale_neighbour :: "mmap_state \<Rightarrow> addr list \<Rightarrow> gd_memory_map_entry \<Rightarrow> bool" where
  "no_stale_neighbour st (f # g # fs) e \<longleftrightarrow> \<not> (etype (ents st g) = etype e \<and> end_of (ents st g) = physical_start e)"
| "no_stale_neighbour st fs e \<longleftrightarrow> True"

definition added :: "gd_memory_type list \<Rightarrow> mmap_state \<Rightarrow> addr list \<Rightarrow> gd_memory_map_entry \<Rightarrow> mmap_state \<Rightarrow> bool" where
  "added p st xs e st' \<longleftrightarrow> (\<exists>xs' fs'. map_ok p st' xs' fs' \<and>
     (\<forall>a. tyr p (ents st') xs' a = min (tye p e a) (tyr p (ents st) xs a)))"

lemma settled_map_ok:
  assumes S: "settled p st as T k st'" and srt: "sorted_wrt (below (ents st)) as" and d: "overlap_precedence st = p"
  obtains xs' fs' where "map_ok p st' xs' fs'" "\<And>a. tyr p (ents st') xs' a = T a" "k \<le> avail st' fs'"
proof -
  from S obtain bs' fs' where s: "mm st' (as @ bs') fs'" "tailwf p (ents st') as bs'" "grows (ents st) (ents st') as"
    "\<And>a. tyr p (ents st') (as @ bs') a = T a" "k \<le> avail st' fs'" "overlap_precedence st' = overlap_precedence st"
    unfolding settled_def by blast
  have "sorted_wrt (below (ents st')) as"
  proof (cases as rule: rev_cases)
    case (snoc as0 q)
    have same: "\<And>x. x \<in> set as0 \<Longrightarrow> ents st' x = ents st x" and "lo (ents st' q) = lo (ents st q)"
      using s(3) snoc by (auto simp: grows_def)
    then show ?thesis using srt snoc sorted_below_cong [OF same] by (auto simp: sorted_wrt_append below_def)
  qed simp
  then have "map_ok p st' (as @ bs') fs'"
    using s(1,2,6) d by (auto simp: map_ok_def tailwf_def sorted_wrt_append)
  with s(4,5) that show thesis by blast
qed

lemma map_ok_split:
  assumes "map_ok p st xs fs"
  obtains as bs where "xs = as @ bs" "\<forall>x\<in>set as. lo (ents st x) < l" "\<forall>y\<in>set bs. l \<le> lo (ents st y)"
    "tailwf p (ents st) as bs" "sorted_wrt (below (ents st)) as"
proof -
  let ?P = "\<lambda>x. lo (ents st x) < l"
  define as bs where "as = takeWhile ?P xs" and "bs = dropWhile ?P xs"
  have xs: "xs = as @ bs" by (simp add: as_def bs_def)
  have wf: "sorted_wrt (below (ents st)) (as @ bs)" "\<forall>x\<in>set (as @ bs). good p (ents st x)"
    using assms xs by (simp_all add: map_ok_def)
  have "l \<le> lo (ents st y)" if y: "y \<in> set bs" for y
  proof (cases bs)
    case (Cons b cs)
    have b: "l \<le> lo (ents st b)" using hd_dropWhile [of ?P xs] Cons by (metis bs_def list.sel(1) list.discI not_less)
    show ?thesis
    proof (cases "y = b")
      case False
      then have "below (ents st) b y" "good p (ents st b)" using wf y Cons by (auto simp: sorted_wrt_append)
      then show ?thesis using b good_less [of p "ents st b"] by (simp add: below_def)
    qed (use b in simp)
  qed (use y in simp)
  moreover have "\<forall>x\<in>set as. ?P x" by (auto simp: as_def dest: set_takeWhileD)
  moreover have "tailwf p (ents st) as bs" "sorted_wrt (below (ents st)) as"
    using wf by (auto simp: tailwf_def sorted_wrt_append)
  ultimately show thesis using that [OF xs] by blast
qed

section \<open>The new region starts outside the map\<close>

lemma add_apart:
  assumes ok: "map_ok p st (as @ bs) fs" and wf: "tailwf p (ents st) as bs" "sorted_wrt (below (ents st)) as"
    and g: "good p e" and as: "\<forall>x\<in>set as. hi (ents st x) \<le> lo e" and bs: "\<forall>y\<in>set bs. lo e \<le> lo (ents st y)"
    and n: "2 * ov (ents st) (hi e) bs + 1 < n" and k: "ov (ents st) (hi e) bs < avail st fs"
  shows "outcome_ok (abut (ents st) (hi e) bs) (mmap_add_entry n st e) (added p st (as @ bs) e)"
proof -
  have "addable p st as e bs fs" using ok wf(1) g as bs by (simp add: addable_def map_ok_def)
  from A_okD [OF conjunct2 [OF contracts] this n, of 0] k
  have "outcome_ok (abut (ents st) (hi e) bs) (mmap_add_entry n st e)
    (settled p st as (\<lambda>a. min (tye p e a) (tyr p (ents st) (as @ bs) a)) 0)" by simp
  then show ?thesis
  proof (rule outcome_ok_mono)
    fix st' assume S: "settled p st as (\<lambda>a. min (tye p e a) (tyr p (ents st) (as @ bs) a)) 0 st'"
    have "overlap_precedence st = p" using ok by (simp add: map_ok_def)
    from settled_map_ok [OF S wf(2) this] show "added p st (as @ bs) e st'" unfolding added_def by metis
  qed simp_all
qed

section \<open>The new region starts inside another one\<close>

text \<open>The structure \<open>x\<close> with the new region, between \<open>q\<close>, which reaches into it, and \<open>bs\<close>.\<close>

definition inside :: "gd_memory_type list \<Rightarrow> mmap_state \<Rightarrow> addr list \<Rightarrow> addr \<Rightarrow> addr \<Rightarrow> addr list \<Rightarrow> addr list \<Rightarrow> bool" where
  "inside p st as q x bs fs \<longleftrightarrow> mm st (as @ q # x # bs) fs \<and> tailwf p (ents st) (as @ [q]) bs \<and>
     sorted_wrt (below (ents st)) (as @ [q]) \<and> good p (ents st x) \<and> overlap_precedence st = p \<and>
     lo (ents st q) < lo (ents st x) \<and> lo (ents st x) < hi (ents st q)"

lemma inside_lt:
  assumes "inside p st as q x bs fs" "y \<in> set bs"
  shows "hi (ents st q) \<le> lo (ents st y)" "lo (ents st x) < lo (ents st y)"
  using assms by (fastforce simp: inside_def tailwf_def below_def)+

definition same_types :: "gd_memory_type list \<Rightarrow> (nat \<Rightarrow> nat) \<Rightarrow> mmap_state \<Rightarrow> bool" where
  "same_types p T st' \<longleftrightarrow> (\<exists>xs' fs'. map_ok p st' xs' fs' \<and> (\<forall>a. tyr p (ents st') xs' a = T a))"

lemma same_types_key [simp]: "same_types p T (st'\<lparr>mmap_key := c\<rparr>) = same_types p T st'"
  by (simp add: same_types_def map_ok_def)

lemma added_same: "added p st xs e = same_types p (\<lambda>a. min (tye p e a) (tyr p (ents st) xs a))"
  by (rule ext) (simp add: added_def same_types_def)

text \<open>First case: \<open>q\<close> does not swallow \<open>x\<close>.  The second call of \<open>fix_overlap\<close> and the merge:\<close>

lemma inside_second:
  assumes i: "inside p st as q x bs fs" and ns: "\<not> swallowed p (ents st q) (ents st x)"
    and f: "fixed p st (as @ [q]) x bs 1 st1" and n: "2 < n"
  shows "\<exists>st2 st3. RB_PREV (mmap st1) x = Some q \<and> fix_overlap n st1 q = Inr st2 \<and> merge_adjacent st2 x = Inr st3 \<and>
    same_types p (tyr p (ents st) (as @ q # x # bs)) st3"
proof -
  obtain bs1 fs1 z where f1': "mm st1 ((as @ [q]) @ x # bs1) fs1" "tailwf p (ents st1) ((as @ [q]) @ [x]) bs1"
    "\<And>a. tyr p (ents st1) ((as @ [q]) @ x # bs1) a = tyr p (ents st) ((as @ [q]) @ x # bs) a"
    and f1: "\<And>y. y \<in> set (as @ [q]) \<Longrightarrow> ents st1 y = ents st y" "ents st1 x = (ents st x)\<lparr>esize := z\<rparr>"
    "\<And>h. h \<le> hi (ents st x) \<Longrightarrow> \<forall>y\<in>set bs. h \<le> lo (ents st y) \<Longrightarrow> h \<le> hi (ents st1 x)"
    "1 \<le> avail st1 fs1" "overlap_precedence st1 = overlap_precedence st"
    using fixedE [OF f] by metis
  have q: "ents st1 q = ents st q" "lo (ents st1 x) = lo (ents st x)" using f1(1,2) by simp_all
  have lt: "lo (ents st q) < lo (ents st x)" "lo (ents st x) < hi (ents st q)"
    and srt: "sorted_wrt (below (ents st)) (as @ [q])" using i by (auto simp: inside_def)
  have asx: "hi (ents st y) \<le> lo (ents st x)" if "y \<in> set as" for y
    using srt that lt(1) by (fastforce simp: sorted_wrt_append below_def)
  have wf: "tailwf p (ents st1) as (x # bs1)" "\<forall>y\<in>set (x # bs1). lo (ents st1 q) < lo (ents st1 y)"
    "\<forall>y\<in>set bs1. hi (ents st1 q) \<le> lo (ents st1 y)" "good p (ents st1 x)" "good p (ents st1 q)"
    using f1'(2) f1(1) q lt asx by (fastforce simp: tailwf_def below_def)+
  have fx: "fixable p st1 as q (x # bs1) fs1"
    using f1'(1) f1(5) wf i by (simp add: fixable_def inside_def)
  have "ov (ents st1) (hi (ents st1 q)) bs1 = 0"
    using wf(3) by (auto simp: ov_def filter_empty_conv not_less)
  then have o: "ov (ents st1) (hi (ents st1 q)) (x # bs1) \<le> 1" by simp
  have "lo (ents st1 x) < hi (ents st1 y)" if "y \<in> set (x # bs1)" for y
    using that wf(1) good_less [of p "ents st1 y"] good_less [OF wf(4)] by (fastforce simp: tailwf_def below_def)
  then have "\<not> abut (ents st1) (hi (ents st1 q)) (x # bs1)"
    using wf(3) by (fastforce simp: abut_def)
  with F_okD [OF conjunct1 [OF contracts] fx, of n 0] o n f1(4) obtain st2 where
    st2: "fix_overlap n st1 q = Inr st2" "fixed p st1 as q (x # bs1) 0 st2"
    by (auto simp: outcome_ok_def split: sum.splits)
  have ns1: "\<not> swallowed p (ents st1 q) (ents st1 x)"
  proof
    assume sw: "swallowed p (ents st1 q) (ents st1 x)"
    then have "hi (ents st q) \<le> hi (ents st x)" using ns q f1(2) by (auto simp: swallowed_def)
    then have "hi (ents st q) \<le> hi (ents st1 x)" using f1(3) inside_lt(1) [OF i] by blast
    with sw q show False by (simp add: swallowed_def)
  qed
  obtain bs2 fs2 w where f2': "mm st2 (as @ q # bs2) fs2" "tailwf p (ents st2) (as @ [q]) bs2"
    "\<And>y. y \<in> set as \<Longrightarrow> ents st2 y = ents st1 y" "ents st2 q = (ents st1 q)\<lparr>esize := w\<rparr>"
    "\<And>a. tyr p (ents st2) (as @ q # bs2) a = tyr p (ents st1) (as @ q # x # bs1) a"
    "overlap_precedence st2 = overlap_precedence st1" "\<exists>cs. bs2 = x # cs"
    using fixedE [OF st2(2)] ns1 by metis
  then obtain cs where f2: "mm st2 (as @ q # x # cs) fs2" "tailwf p (ents st2) (as @ [q]) (x # cs)"
    "\<And>y. y \<in> set as \<Longrightarrow> ents st2 y = ents st1 y" "ents st2 q = (ents st1 q)\<lparr>esize := w\<rparr>"
    "\<And>a. tyr p (ents st2) (as @ q # x # cs) a = tyr p (ents st1) (as @ q # x # bs1) a"
    "overlap_precedence st2 = overlap_precedence st1" by blast
  have "mm st2 ((as @ [q]) @ x # cs) fs2" using f2(1) by simp
  from merge_ok [OF this f2(2)] obtain st3 where st3: "merge_adjacent st2 x = Inr st3"
    "settled p st2 (as @ [q]) (tyr p (ents st2) ((as @ [q]) @ x # cs)) (avail st2 fs2) st3" by blast
  have same: "\<And>y. y \<in> set as \<Longrightarrow> ents st2 y = ents st y" using f1(1) f2(3) by simp
  have "sorted_wrt (below (ents st2)) (as @ [q])"
    using srt sorted_below_cong [OF same] same f2(4) q by (auto simp: sorted_wrt_append below_def)
  moreover have "overlap_precedence st2 = p" using f2(6) f1(5) i by (simp add: inside_def)
  ultimately obtain xs' fs' where "map_ok p st3 xs' fs'" "\<And>a. tyr p (ents st3) xs' a = tyr p (ents st2) ((as @ [q]) @ x # cs) a"
    using settled_map_ok [OF st3(2)] by blast
  then have "same_types p (tyr p (ents st) (as @ q # x # bs)) st3"
    unfolding same_types_def using f2(5) f1'(3) by (intro exI [of _ xs'] exI [of _ fs']) simp
  moreover have "RB_PREV (mmap st1) x = Some q" using mm_prev [OF f1'(1)] by simp
  ultimately show ?thesis using st2(1) st3(1) by blast
qed

lemma inside_kept:
  assumes i: "inside p st as q x bs fs" and ns: "\<not> swallowed p (ents st q) (ents st x)"
    and n: "2 * ov (ents st) (hi (ents st x)) bs < n" "2 < n" and k: "1 + ov (ents st) (hi (ents st x)) bs \<le> avail st fs"
  shows "outcome_ok (abut (ents st) (hi (ents st x)) bs)
    (andthen (fix_overlap n st x) (\<lambda>st. andthen (orcrash (RB_PREV (mmap st) x)) (\<lambda>prev.
       andthen (fix_overlap n st prev) (\<lambda>st. merge_adjacent st x))))
    (same_types p (tyr p (ents st) (as @ q # x # bs)))"
proof -
  have "fixable p st (as @ [q]) x bs fs" using i inside_lt(2) [OF i] by (simp add: fixable_def inside_def)
  from F_okD [OF conjunct1 [OF contracts] this n(1) k] show ?thesis
    by (rule outcome_ok_andthen) (use inside_second [OF i ns _ n(2)] in fastforce)
qed

text \<open>
  Second case: \<open>q\<close> swallows \<open>x\<close>.  The structure \<open>x\<close> is freed, and the merge that follows works on the
  freed structure.
\<close>

lemma fix_overlap_last: "mm st (as @ [x]) fs \<Longrightarrow> fix_overlap (Suc n) st x = Inr st"
  using mm_next [of st as x "[]" fs] by (simp add: fix_overlap_body_def)

lemma fix_overlap_clear:
  assumes "mm st (as @ x # bs) fs" "good p (ents st x)" "\<forall>y\<in>set bs. hi (ents st x) \<le> lo (ents st y)"
  shows "fix_overlap (Suc n) st x = Inr st"
  using assms fix_overlap_last [of st as x fs n] fix_overlap_apart [of st as x _ _ fs p n] by (cases bs) (simp_all del: fix_overlap.simps)

lemma merge_freed:
  assumes mm: "mm st xs (x # fs)" and ns: "last_freed st = x" "fs = [] \<or> \<not> adjoins st (hd fs) x"
  shows "merge_adjacent st x = Inr st"
proof -
  have ch: "free_chain (rbn (mmap st)) x (x # fs)" using mm ns(1) by (simp add: mm_def)
  then have x: "x \<noteq> NULL" "rbe_right (rbn (mmap st) x) = NULL" "rbe_parent (rbn (mmap st) x) = NULL" by auto
  have "RB_NEXT (mmap st) x = Some NULL"
    using x by (simp add: RB_NEXT_def field_defs climb_right.simps)
  moreover have "\<exists>g. RB_PREV (mmap st) x = Some g \<and> (g = NULL \<or> \<not> adjoins st g x)"
  proof (cases fs)
    case Nil
    then show ?thesis using ch x by (simp add: RB_PREV_def field_defs climb_left.simps)
  next
    case (Cons g gs)
    then have g: "rbe_left (rbn (mmap st) x) = g" "g \<noteq> NULL" "rbe_right (rbn (mmap st) g) = NULL" using ch by auto
    then have "rightmost (mmap st) g = Some g" by (subst rightmost.simps) (simp add: field_defs)
    with g x Cons ns(2) show ?thesis by (simp add: RB_PREV_def field_defs)
  qed
  ultimately show ?thesis by (auto simp: merge_adjacent_def)
qed

lemma inside_swallowed:
  assumes i: "inside p st as q x bs fs" and sw: "swallowed p (ents st q) (ents st x)"
    and n: "2 < n" and ns: "fs = [] \<or> \<not> adjoins st (hd fs) x"
  shows "\<exists>st'. andthen (fix_overlap n st x) (\<lambda>st. andthen (orcrash (RB_PREV (mmap st) x)) (\<lambda>prev.
       andthen (fix_overlap n st prev) (\<lambda>st. merge_adjacent st x))) = Inr st' \<and>
    same_types p (tyr p (ents st) (as @ q # x # bs)) st'"
proof -
  from n obtain m where m: "n = Suc (Suc m)" by (metis less_iff_Suc_add add_Suc_right numeral_2_eq_2 add_Suc)
  have mm: "mm st (as @ q # x # bs) fs" and g: "good p (ents st x)" "good p (ents st q)" and prec: "overlap_precedence st = p"
    and lt: "lo (ents st q) < lo (ents st x)" "lo (ents st x) < hi (ents st q)" "hi (ents st x) < hi (ents st q)"
    and ty: "precedence_scan p (etype (ents st q)) (etype (ents st x)) = etype (ents st q)"
    and wf: "tailwf p (ents st) (as @ [q]) bs" and srt: "sorted_wrt (below (ents st)) (as @ [q])"
    using i sw by (auto simp: inside_def swallowed_def tailwf_def)
  have mm': "mm st ((as @ [q]) @ x # bs) fs" using mm by simp
  have 1: "fix_overlap n st x = Inr st" unfolding m
    by (rule fix_overlap_clear [OF mm' g(1)]) (use inside_lt(1) [OF i] lt in fastforce)
  have 2: "RB_PREV (mmap st) x = Some q" using mm_prev [OF mm'] by simp
  from remove_ok [OF mm'] obtain st1 where st1: "remove_and_free st x = Inr st1" "mm st1 (as @ q # bs) (x # fs)"
    "same_env st st1" "last_freed st1 = x" by auto
  have E: "ents st1 = ents st" using st1(3) by (simp add: same_env_def)
  have 3: "fix_overlap (Suc m) st1 q = Inr st1"
    by (rule fix_overlap_clear [OF st1(2)]) (use g E inside_lt(1) [OF i] in auto)
  have "fix_overlap n st q = Inr st1"
    using mm_next [OF mm] mm_not_null [OF mm] ty lt good_end [OF g(1)] good_end [OF g(2)] st1(1) 3
    unfolding m by (simp add: fix_overlap_body_def Let_def higher_precedence_def prec word_le_nat_alt word_less_nat_alt
        lo_def [symmetric] del: fix_overlap.simps(2) add: fix_overlap.simps(2) [of "Suc m"])
  moreover have "merge_adjacent st1 x = Inr st1"
    using ns E by (intro merge_freed [OF st1(2,4)]) (auto simp: adjoins_def)
  moreover have "same_types p (tyr p (ents st) (as @ q # x # bs)) st1"
  proof -
    have "map_ok p st1 (as @ q # bs) (x # fs)"
      using st1(2,3) wf srt prec by (auto simp: map_ok_def same_env_def tailwf_def sorted_wrt_append)
    moreover have "etype (ents st q) \<in> set p" "etype (ents st x) \<in> set p" using g by (auto simp: good_def)
    then have "rank p (etype (ents st q)) \<le> rank p (etype (ents st x))"
      using rank_scan [of "etype (ents st q)" p "etype (ents st x)"] ty by simp
    then have "min (tye p (ents st q) a) (tye p (ents st x) a) = tye p (ents st q) a" for a
      using lt by (intro nested_drop) auto
    then have "min (tye p (ents st q) a) (min (tye p (ents st x) a) t) = min (tye p (ents st q) a) t" for a t
      by (simp only: min.assoc [symmetric])
    ultimately show ?thesis unfolding same_types_def using E by (intro exI [of _ "as @ q # bs"] exI [of _ "x # fs"]) simp
  qed
  ultimately show ?thesis using 1 2 by (intro exI [of _ st1]) simp
qed

lemma add_inside:
  assumes ok: "map_ok p st ((as @ [q]) @ bs) fs" and wf: "tailwf p (ents st) (as @ [q]) bs" "sorted_wrt (below (ents st)) (as @ [q])"
    and g: "good p e" and q: "lo (ents st q) < lo e" "lo e < hi (ents st q)" and ns: "no_stale_neighbour st fs e"
    and n: "2 * ov (ents st) (hi e) bs < n" "2 < n" and k: "2 + ov (ents st) (hi e) bs \<le> avail st fs"
  shows "outcome_ok (abut (ents st) (hi e) bs) (mmap_add_entry (Suc n) st e) (added p st ((as @ [q]) @ bs) e)"
proof -
  have mm: "mm st ((as @ [q]) @ bs) fs" and prec: "overlap_precedence st = p" using ok by (auto simp: map_ok_def)
  have "avail st fs > 0" using k by simp
  then obtain st1 x fs1 where st1: "mmap_alloc_entry st = Inr (st1, x)" "mm st1 ((as @ [q]) @ bs) fs1"
    "fresh st1 ((as @ [q]) @ bs) fs1 x" "ents st1 = ents st" "overlap_precedence st1 = overlap_precedence st"
    "Suc (avail st1 fs1) = avail st fs" "fs = x # fs1 \<or> fs = [] \<and> fs1 = []"
    using alloc_ok [OF mm] by metis
  define st2 where "st2 = upd_ent (\<lambda>_. e) x st1"
  have x: "x \<noteq> NULL" "x \<notin> set (as @ [q])" "x \<notin> set bs" "x \<notin> set fs1" using st1(3) by (auto simp: fresh_def)
  have E: "ents st2 x = e" and same: "\<And>y. y \<in> set (as @ [q]) \<Longrightarrow> ents st2 y = ents st y" "\<And>y. y \<in> set bs \<Longrightarrow> ents st2 y = ents st y"
    using x st1(4) by (auto simp: st2_def)
  have Eq: "ents st2 q = ents st q" using same(1) by simp
  have wf2: "tailwf p (ents st2) (as @ [q]) bs" using same by (intro tailwf_cong [OF _ wf(1)]) auto
  have srt2: "sorted_wrt (below (ents st2)) (as @ [q])" using wf(2) sorted_below_cong [of "as @ [q]" "ents st2" "ents st", OF same(1)] by blast
  have up: "hi (ents st2 q) \<le> lo (ents st2 y)" if "y \<in> set bs" for y using wf2 that by (auto simp: tailwf_def below_def)
  have "\<forall>y\<in>set (as @ [q]). start_of st2 y < start_of st2 x"
  proof
    fix y assume y: "y \<in> set (as @ [q])"
    have "lo (ents st2 y) \<le> lo (ents st q)"
      using y srt2 wf2 Eq good_less [of p "ents st2 y"] by (fastforce simp: sorted_wrt_append below_def tailwf_def)
    then show "start_of st2 y < start_of st2 x" using q(1) E by (simp add: word_less_nat_alt lo_def)
  qed
  moreover have "\<forall>y\<in>set bs. start_of st2 x < start_of st2 y"
    using up q(2) E Eq by (fastforce simp: word_less_nat_alt lo_def)
  moreover have "mm st2 ((as @ [q]) @ bs) fs1" "fresh st2 ((as @ [q]) @ bs) fs1 x" using st1(2,3) by (simp_all add: st2_def)
  ultimately obtain t where t: "RB_INSERT (mmap_entry_cmp st2) (mmap st2) x = Some (t, NULL)"
    "mm (st2\<lparr>mmap := t\<rparr>) ((as @ [q]) @ x # bs) fs1" using insert_ok by blast
  let ?st = "st2\<lparr>mmap := t\<rparr>"
  have i: "inside p ?st as q x bs fs1"
    unfolding inside_def using t(2) wf2 srt2 g E Eq q prec st1(5) by (simp add: st2_def)
  have T: "tyr p (ents st2) (as @ q # x # bs) a = min (tye p e a) (tyr p (ents st) ((as @ [q]) @ bs) a)" for a
    using E Eq tyr_cong [of as "ents st2" "ents st" p a] tyr_cong [of bs "ents st2" "ents st" p a] same
    by (simp add: min.left_commute)
  have o: "ov (ents st2) (hi (ents st2 x)) bs = ov (ents st) (hi e) bs" "abut (ents st2) (hi (ents st2 x)) bs = abut (ents st) (hi e) bs"
    using E ov_cong [of bs "ents st2", OF same(2)] abut_cong [of bs "ents st2", OF same(2)] by simp_all
  have stale: "fs1 = [] \<or> \<not> adjoins ?st (hd fs1) x"
    using ns st1(4,7) x(4) by (cases fs1) (auto simp: adjoins_def E, auto simp: st2_def)
  have av: "1 + ov (ents st) (hi e) bs \<le> avail ?st fs1" using k st1(6) by (simp add: st2_def)
  have "outcome_ok (abut (ents st) (hi e) bs) (andthen (fix_overlap n ?st x) (\<lambda>st. andthen (orcrash (RB_PREV (mmap st) x)) (\<lambda>prev.
       andthen (fix_overlap n st prev) (\<lambda>st. merge_adjacent st x)))) (same_types p (tyr p (ents st2) (as @ q # x # bs)))"
  proof (cases "swallowed p (ents ?st q) (ents ?st x)")
    case True
    from inside_swallowed [OF i True n(2) stale] show ?thesis by auto
  next
    case False
    from inside_kept [OF i False _ n(2)] n(1) av o show ?thesis by simp
  qed
  then have "outcome_ok (abut (ents st) (hi e) bs) (place_entry (fix_overlap n) st2 x)
      (same_types p (tyr p (ents st2) (as @ q # x # bs)))"
    unfolding place_entry_def t(1) by (simp add: Let_def) (erule outcome_ok_andthen, simp)
  then have "outcome_ok (abut (ents st) (hi e) bs) (place_entry (fix_overlap n) st2 x) (added p st ((as @ [q]) @ bs) e)"
    unfolding added_same ext [of "tyr p (ents st2) (as @ q # x # bs)", OF T] .
  moreover have "mmap_add_entry (Suc n) st e = place_entry (fix_overlap n) st2 x"
    using st1(1) x(1) by (simp add: add_aligned [OF g] insert_entry_def st2_def del: mmap_add_entry.simps)
  ultimately show ?thesis by simp
qed

section \<open>The type of an address\<close>

text \<open>The type that the first entry which covers the address gives to it.\<close>

fun type_at :: "(addr \<Rightarrow> gd_memory_map_entry) \<Rightarrow> addr list \<Rightarrow> nat \<Rightarrow> gd_memory_type option" where
  "type_at E [] a = None"
| "type_at E (x # xs) a = (if covers (E x) a then Some (etype (E x)) else type_at E xs a)"

definition code_of :: "gd_memory_type list \<Rightarrow> gd_memory_type option \<Rightarrow> nat" where
  "code_of p t = (case t of None \<Rightarrow> length p | Some t \<Rightarrow> rank p t)"

lemma type_at_in: "type_at E xs a = Some t \<Longrightarrow> \<forall>x\<in>set xs. good p (E x) \<Longrightarrow> t \<in> set p"
  by (induction xs) (auto simp: good_def split: if_splits)

lemma type_at_Some_cover: "type_at E xs a = Some t \<Longrightarrow> \<exists>x\<in>set xs. covers (E x) a"
  by (induction xs) (auto split: if_splits)

lemma tyr_code:
  "sorted_wrt (below E) xs \<Longrightarrow> \<forall>x\<in>set xs. good p (E x) \<Longrightarrow> tyr p E xs a = code_of p (type_at E xs a)"
proof (induction xs)
  case Nil
  then show ?case by (simp add: code_of_def)
next
  case (Cons x xs)
  have "\<not> covers (E x) a" if "covers (E y) a" "y \<in> set xs" for y
    using Cons.prems that by (auto simp: covers_def below_def)
  then have "type_at E xs a = None" if "covers (E x) a"
    using that type_at_Some_cover [of E xs a] by (cases "type_at E xs a") auto
  with Cons show ?case by (auto simp: tye_def code_of_def split: option.splits)
qed

lemma code_of_inj:
  assumes "code_of p s = code_of p t" "\<forall>u. s = Some u \<longrightarrow> u \<in> set p" "\<forall>u. t = Some u \<longrightarrow> u \<in> set p"
  shows "s = t"
proof (cases s; cases t)
  fix u v assume "s = Some u" "t = Some v"
  then show ?thesis using assms rank_inj [of p u v] by (simp add: code_of_def)
next
  fix u assume "s = None" "t = Some u"
  then show ?thesis using assms rank_less [of u p] by (simp add: code_of_def)
next
  fix u assume "s = Some u" "t = None"
  then show ?thesis using assms rank_less [of u p] by (simp add: code_of_def)
qed simp

text \<open>The type map after a region \<open>e\<close> has been added to a map.\<close>

definition overlay :: "gd_memory_type list \<Rightarrow> gd_memory_map_entry \<Rightarrow> gd_memory_type option \<Rightarrow> nat \<Rightarrow> gd_memory_type option" where
  "overlay p e t a = (if covers e a then Some (case t of None \<Rightarrow> etype e | Some u \<Rightarrow> precedence_scan p u (etype e)) else t)"

lemma code_of_overlay:
  assumes "etype e \<in> set p" "\<forall>u. t = Some u \<longrightarrow> u \<in> set p"
  shows "code_of p (overlay p e t a) = min (tye p e a) (code_of p t)"
  using assms rank_scan [of _ p "etype e"] rank_le [of p]
  by (cases t) (auto simp: code_of_def overlay_def tye_def min.commute)

lemma overlay_of_tyr:
  assumes m: "map_ok p st' xs' fs'" "\<And>a. tyr p (ents st') xs' a = min (tye p e a) (tyr p (ents st) xs a)"
    and st: "map_ok p st xs fs" "good p e"
  shows "type_at (ents st') xs' a = overlay p e (type_at (ents st) xs a) a"
proof (rule code_of_inj [of p])
  have ok: "\<forall>x\<in>set xs. good p (ents st x)" "\<forall>x\<in>set xs'. good p (ents st' x)"
    "sorted_wrt (below (ents st)) xs" "sorted_wrt (below (ents st')) xs'" "etype e \<in> set p"
    using m(1) st by (auto simp: map_ok_def good_def)
  show "code_of p (type_at (ents st') xs' a) = code_of p (overlay p e (type_at (ents st) xs a) a)"
    using m(2) [of a] ok tyr_code [of "ents st" xs p a] tyr_code [of "ents st'" xs' p a] type_at_in [of "ents st" xs a _ p]
    by (subst code_of_overlay) auto
  show "\<forall>u. type_at (ents st') xs' a = Some u \<longrightarrow> u \<in> set p" using type_at_in ok by blast
  show "\<forall>u. overlay p e (type_at (ents st) xs a) a = Some u \<longrightarrow> u \<in> set p"
    using type_at_in [of "ents st" xs a _ p] ok scan_in [of _ p "etype e"]
    by (auto simp: overlay_def split: option.splits if_splits)
qed

lemma added_overlay:
  assumes "added p st xs e st'" "map_ok p st xs fs" "good p e"
  shows "\<exists>xs' fs'. map_ok p st' xs' fs' \<and> (\<forall>a. type_at (ents st') xs' a = overlay p e (type_at (ents st) xs a) a)"
  using assms overlay_of_tyr unfolding added_def by metis

section \<open>Adding a region to a map\<close>

text \<open>The structures that start within \<open>e\<close>, and two of them that touch there.\<close>

definition starts_in :: "mmap_state \<Rightarrow> addr list \<Rightarrow> gd_memory_map_entry \<Rightarrow> nat" where
  "starts_in st xs e = length (filter (\<lambda>x. lo e \<le> lo (ents st x) \<and> lo (ents st x) < hi e) xs)"

definition touching :: "mmap_state \<Rightarrow> addr list \<Rightarrow> gd_memory_map_entry \<Rightarrow> bool" where
  "touching st xs e \<longleftrightarrow> (\<exists>x\<in>set xs. \<exists>y\<in>set xs. lo e \<le> lo (ents st x) \<and> hi (ents st x) = lo (ents st y) \<and> lo (ents st y) < hi e)"

lemma add_entry_ok:
  assumes ok: "map_ok p st xs fs" and g: "good p e" and ns: "no_stale_neighbour st fs e"
    and n: "2 * starts_in st xs e + 3 < n" and k: "starts_in st xs e + 2 \<le> avail st fs"
  shows "outcome_ok (touching st xs e) (mmap_add_entry n st e)
    (\<lambda>st'. \<exists>xs' fs'. map_ok p st' xs' fs' \<and> (\<forall>a. type_at (ents st') xs' a = overlay p e (type_at (ents st) xs a) a))"
proof -
  from ok obtain as bs where ab: "xs = as @ bs" "\<forall>x\<in>set as. lo (ents st x) < lo e" "\<forall>y\<in>set bs. lo e \<le> lo (ents st y)"
    "tailwf p (ents st) as bs" "sorted_wrt (below (ents st)) as" by (rule map_ok_split [where l = "lo e"])
  have "filter (\<lambda>x. lo e \<le> lo (ents st x) \<and> lo (ents st x) < hi e) as = []" using ab(2) by (auto simp: filter_empty_conv)
  moreover have "filter (\<lambda>x. lo e \<le> lo (ents st x) \<and> lo (ents st x) < hi e) bs = filter (\<lambda>x. lo (ents st x) < hi e) bs"
    using ab(3) by (intro filter_cong) auto
  ultimately have o: "ov (ents st) (hi e) bs = starts_in st xs e" using ab(1) by (simp add: ov_def starts_in_def)
  have ab': "abut (ents st) (hi e) bs \<Longrightarrow> touching st xs e" using ab(1,3) by (auto simp: abut_def touching_def)
  have "outcome_ok (abut (ents st) (hi e) bs) (mmap_add_entry n st e) (added p st xs e)"
  proof (cases "\<forall>x\<in>set as. hi (ents st x) \<le> lo e")
    case True
    with ok ab g n k o show ?thesis by (auto intro!: add_apart)
  next
    case False
    then have "as \<noteq> []" by auto
    then obtain as0 q where as: "as = as0 @ [q]" by (metis rev_exhaust)
    have "hi (ents st x) \<le> lo e" if "x \<in> set as0" for x
      using ab(2,5) as that by (fastforce simp: sorted_wrt_append below_def)
    then have q: "lo e < hi (ents st q)" using False as by auto
    obtain n' where n': "n = Suc n'" using n by (cases n) auto
    have "outcome_ok (abut (ents st) (hi e) bs) (mmap_add_entry (Suc n') st e) (added p st ((as0 @ [q]) @ bs) e)"
      by (rule add_inside) (use ok ab g ns n k o as q n' in auto)
    then show ?thesis using as ab(1) n' by simp
  qed
  then show ?thesis by (rule outcome_ok_mono) (use ab' added_overlay [OF _ ok g] in auto)
qed

end
