(* ===== verification/Memory_Map_Pages.thy ===== *)
theory Memory_Map_Pages
  imports Memory_Map_Correct
begin

text \<open>
  Allocation of pages: \<open>gd_alloc_pages\<close> retypes part of a conventional region, and the refill of the
  supply of structures in \<open>mmap_alloc_entry\<close> does the same with one page for itself.
\<close>

section \<open>Types of disjoint regions\<close>

lemma type_at_append: "type_at E (xs @ ys) a = (case type_at E xs a of None \<Rightarrow> type_at E ys a | Some t \<Rightarrow> Some t)"
  by (induction xs) auto

lemma type_at_cong: "(\<And>x. x \<in> set xs \<Longrightarrow> E' x = E x) \<Longrightarrow> type_at E' xs a = type_at E xs a"
  by (induction xs) auto

lemma type_at_None: "type_at E xs a = None \<longleftrightarrow> (\<forall>x\<in>set xs. \<not> covers (E x) a)"
  by (induction xs) auto

lemma disjoint_covers:
  assumes "sorted_wrt (below E) xs" "x \<in> set xs" "y \<in> set xs" "covers (E x) a" "covers (E y) a"
  shows "x = y"
  using assms by (induction xs) (auto simp: below_def covers_def)

lemma type_at_covers:
  assumes "sorted_wrt (below E) xs" "x \<in> set xs" "covers (E x) a"
  shows "type_at E xs a = Some (etype (E x))"
proof -
  obtain t where t: "type_at E xs a = Some t" using assms type_at_None [of E xs a] by (cases "type_at E xs a") auto
  then have "\<exists>y\<in>set xs. covers (E y) a \<and> etype (E y) = t" by (induction xs) (auto split: if_splits)
  then show ?thesis using t disjoint_covers [OF assms(1,2)] assms(3) by metis
qed

text \<open>The type map with \<open>[l, h)\<close> set to \<open>t\<close>.\<close>

definition set_range :: "nat \<Rightarrow> nat \<Rightarrow> gd_memory_type \<Rightarrow> (nat \<Rightarrow> gd_memory_type option) \<Rightarrow> nat \<Rightarrow> gd_memory_type option" where
  "set_range l h t m a = (if l \<le> a \<and> a < h then Some t else m a)"

text \<open>
  Two maps that agree on \<open>as\<close> and \<open>bs\<close> and differ by the structures \<open>us\<close> and \<open>vs\<close> between them.
\<close>

lemma type_at_change:
  assumes srt: "sorted_wrt (below E) (as @ us @ bs)" "sorted_wrt (below E') (as @ vs @ bs)"
    and same: "\<And>x. x \<in> set as \<Longrightarrow> E' x = E x" "\<And>x. x \<in> set bs \<Longrightarrow> E' x = E x"
    and ch: "type_at E' vs a = set_range l h t (type_at E us) a"
    and in_us: "l \<le> a \<and> a < h \<Longrightarrow> \<exists>u\<in>set us. covers (E u) a"
  shows "type_at E' (as @ vs @ bs) a = set_range l h t (type_at E (as @ us @ bs)) a"
proof (cases "l \<le> a \<and> a < h")
  case True
  then obtain u where u: "u \<in> set us" "covers (E u) a" using in_us by blast
  have "\<not> covers (E x) a" if "x \<in> set as" for x
  proof -
    have "hi (E x) \<le> lo (E u)" using srt(1) u(1) that by (simp add: sorted_wrt_append below_def)
    then show ?thesis using u(2) by (simp add: covers_def)
  qed
  then have "type_at E' as a = None" using same(1) by (simp add: type_at_None)
  with True ch show ?thesis by (simp add: type_at_append set_range_def)
next
  case False
  then show ?thesis
    using ch type_at_cong [of as E' E a] type_at_cong [of bs E' E a] same
    by (auto simp: type_at_append set_range_def split: option.splits)
qed

lemma settled_types:
  assumes S: "settled p st as (tyr p E ys) k st'" and srt: "sorted_wrt (below (ents st)) as" and d: "overlap_precedence st = p"
    and ys: "sorted_wrt (below E) ys" "\<forall>x\<in>set ys. good p (E x)"
  shows "\<exists>xs' fs'. map_ok p st' xs' fs' \<and> k \<le> avail st' fs' \<and> (\<forall>a. type_at (ents st') xs' a = type_at E ys a)"
proof -
  obtain xs' fs' where m: "map_ok p st' xs' fs'" "\<And>a. tyr p (ents st') xs' a = tyr p E ys a" "k \<le> avail st' fs'"
    using settled_map_ok [OF S srt d] by blast
  have ok: "\<forall>x\<in>set xs'. good p (ents st' x)" "sorted_wrt (below (ents st')) xs'" using m(1) by (auto simp: map_ok_def)
  have "type_at (ents st') xs' a = type_at E ys a" for a
    by (rule code_of_inj [of p])
      (use m(2) [of a] tyr_code [OF ok(2,1), of a] tyr_code [OF ys, of a] type_at_in [OF _ ok(1)] type_at_in [OF _ ys(2)] in auto)
  with m(1,3) show ?thesis by blast
qed

section \<open>Loops over the map\<close>

lemma foreach_until_ok:
  "rb_inv t (as @ bs) \<Longrightarrow> foreach_until stop t (first_or NULL bs) = Some (first_or NULL (filter stop bs))"
proof (induction bs arbitrary: as)
  case Nil
  then show ?case by (simp add: foreach_until.simps)
next
  case (Cons b bs)
  have "b \<noteq> NULL" using rb.elems_null [OF Cons.prems] by auto
  moreover have "foreach_until stop t (first_or NULL bs) = Some (first_or NULL (filter stop bs))"
    using Cons.IH [of "as @ [b]"] Cons.prems by simp
  ultimately show ?case using rb.nxt [OF Cons.prems] by (simp add: foreach_until.simps [of _ _ b])
qed

lemma search_ok: "mm st xs fs \<Longrightarrow> (RB_MIN (mmap st) \<bind> foreach_until stop (mmap st)) = Some (first_or NULL (filter stop xs))"
  using foreach_until_ok [of "mmap st" "[]" xs stop] rb.fst_elem [of "mmap st" xs] by (simp add: mm_def)

lemma filter_first:
  assumes "filter P xs \<noteq> []"
  obtains as m bs where "xs = as @ m # bs" "P m" "\<forall>x\<in>set as. \<not> P x" "first_or n (filter P xs) = m"
proof -
  from assms obtain m ms where "filter P xs = m # ms" by (cases "filter P xs") auto
  moreover from this obtain as bs where "xs = as @ m # bs" "\<forall>x\<in>set as. \<not> P x" "P m"
    by (auto simp: filter_eq_Cons_iff)
  ultimately show thesis using that by simp
qed

lemma not_past_max [simp]: "\<not> UINTPTR_MAX < w"
proof -
  have "unat (0xFFFFFFFFFFFFFFFF::u64) = 2 ^ 64 - 1" by simp
  moreover have "unat w < 2 ^ LENGTH(64)" by (rule unsigned_less)
  ultimately show ?thesis by (simp add: UINTPTR_MAX_def word_less_nat_alt)
qed

section \<open>Taking a piece of a region\<close>

lemma grow_back:
  assumes g: "good p e" and z: "hi e + unat z < 2 ^ 64" "4096 dvd unat z"
  shows "good p (e\<lparr>esize := esize e + z\<rparr>)" "hi (e\<lparr>esize := esize e + z\<rparr>) = hi e + unat z"
proof -
  have "unat (esize e) + unat z < 2 ^ 64" using z by (simp add: hi_def)
  then have u: "unat (esize e + z) = unat (esize e) + unat z" by (simp add: unat_word_ariths)
  then show h: "hi (e\<lparr>esize := esize e + z\<rparr>) = hi e + unat z" by (simp add: hi_def lo_def)
  have "unat (esize e) > 0" using g by (simp add: good_def unat_gt_0)
  then have "unat (esize e + z) \<noteq> 0" using u by simp
  then have "esize e + z \<noteq> 0" by auto
  then show "good p (e\<lparr>esize := esize e + z\<rparr>)" using g z h by (simp add: good_def)
qed

lemma cut_back:
  assumes g: "good p e" and z: "unat z < unat (esize e)" "4096 dvd unat z"
  shows "good p (e\<lparr>esize := esize e - z\<rparr>)" "hi (e\<lparr>esize := esize e - z\<rparr>) = hi e - unat z"
proof -
  have u: "unat (esize e - z) = unat (esize e) - unat z" using z by (subst unat_diff) (auto simp: word_le_nat_alt)
  then show h: "hi (e\<lparr>esize := esize e - z\<rparr>) = hi e - unat z" using z by (simp add: hi_def lo_def)
  have "unat (esize e - z) \<noteq> 0" using u z by simp
  then have "esize e - z \<noteq> 0" by auto
  moreover have "4096 dvd hi e - unat z" using g z by (simp add: good_def dvd_diff_nat)
  moreover have "hi e - unat z < 2 ^ 64" using good_bound [OF g] by simp
  ultimately show "good p (e\<lparr>esize := esize e - z\<rparr>)" using g h by (simp add: good_def)
qed

lemma grow_front:
  assumes g: "good p e" and z: "unat z \<le> lo e" "4096 dvd unat z"
  defines "e' \<equiv> e\<lparr>esize := esize e + z, physical_start := physical_start e - z\<rparr>"
  shows "good p e'" "lo e' = lo e - unat z" "hi e' = hi e"
proof -
  have "unat (esize e) + unat z < 2 ^ 64" using z good_bound [OF g] by (simp add: hi_def lo_def)
  then have u: "unat (esize e + z) = unat (esize e) + unat z" by (simp add: unat_word_ariths)
  have v: "unat (physical_start e - z) = lo e - unat z" using z(1) by (subst unat_diff) (auto simp: word_le_nat_alt lo_def)
  show l: "lo e' = lo e - unat z" using v by (simp add: e'_def lo_def)
  show h: "hi e' = hi e" using u v z(1) by (simp add: e'_def hi_def lo_def)
  have "unat (esize e) > 0" using g by (simp add: good_def unat_gt_0)
  then have "esize e' \<noteq> 0" using u by (auto simp: e'_def)
  moreover have "4096 dvd lo e - unat z" using g z by (simp add: good_def dvd_diff_nat)
  ultimately show "good p e'" using g l h by (simp add: good_def e'_def)
qed

text \<open>What remains to be shown of a new version \<open>E'\<close> of the entries and a list \<open>ys\<close> of structures.\<close>

definition carved :: "gd_memory_type list \<Rightarrow> (addr \<Rightarrow> gd_memory_map_entry) \<Rightarrow> addr list \<Rightarrow> (addr \<Rightarrow> gd_memory_map_entry) \<Rightarrow>
    addr list \<Rightarrow> nat \<Rightarrow> nat \<Rightarrow> gd_memory_type \<Rightarrow> bool" where
  "carved p E xs E' ys l n t \<longleftrightarrow> (\<forall>x\<in>set ys. good p (E' x)) \<and> sorted_wrt (below E') ys \<and>
     (\<forall>a. type_at E' ys a = set_range l (l + n) t (type_at E xs) a)"

text \<open>A list of structures and its entries, as the invariant of the map has them.\<close>

definition regions :: "gd_memory_type list \<Rightarrow> (addr \<Rightarrow> gd_memory_map_entry) \<Rightarrow> addr list \<Rightarrow> bool" where
  "regions p E xs \<longleftrightarrow> distinct xs \<and> (\<forall>x\<in>set xs. good p (E x)) \<and> sorted_wrt (below E) xs"

lemma carved_whole:
  assumes r: "regions p E (as @ m # bs)" and t: "t \<in> set p"
    and E': "E' = E(m := (E m)\<lparr>etype := t\<rparr>)" and n: "n = unat (esize (E m))"
  shows "carved p E (as @ m # bs) E' (as @ m # bs) (lo (E m)) n t"
proof -
  have d: "m \<notin> set as" "m \<notin> set bs" using r by (auto simp: regions_def)
  have same: "\<And>x. x \<in> set as \<Longrightarrow> E' x = E x" "\<And>x. x \<in> set bs \<Longrightarrow> E' x = E x" using d by (auto simp: E')
  have m: "good p (E' m)" "lo (E' m) = lo (E m)" "hi (E' m) = hi (E m)"
    using r t retype(1) [of p "E m" t] by (auto simp: regions_def E')
  have srt: "sorted_wrt (below E') (as @ m # bs)"
    using r m same sorted_below_cong [OF same(1)] sorted_below_cong [OF same(2)]
    by (auto simp: regions_def sorted_wrt_append below_def)
  have "lo (E m) + n = hi (E m)" by (simp add: n hi_def lo_def)
  then have "type_at E' (as @ [m] @ bs) a = set_range (lo (E m)) (lo (E m) + n) t (type_at E (as @ [m] @ bs)) a" for a
    using r srt same by (intro type_at_change) (auto simp: regions_def set_range_def covers_def E')
  with srt r m(1) same show ?thesis by (auto simp: carved_def regions_def)
qed

lemma carved_first:
  assumes r: "regions p E (as @ q # m # bs)" and q: "etype (E q) = t" "hi (E q) = lo (E m)"
    and n: "unat z < unat (esize (E m))" "4096 dvd unat z"
    and E': "E' = E(q := (E q)\<lparr>esize := esize (E q) + z\<rparr>,
       m := (E m)\<lparr>esize := esize (E m) - z, physical_start := physical_start (E m) + z\<rparr>)"
  shows "carved p E (as @ q # m # bs) E' (as @ q # m # bs) (lo (E m)) (unat z) t"
proof -
  have d: "q \<notin> set as" "m \<notin> set as" "q \<notin> set bs" "m \<notin> set bs" "q \<noteq> m" using r by (auto simp: regions_def)
  have same: "\<And>x. x \<in> set as \<Longrightarrow> E' x = E x" "\<And>x. x \<in> set bs \<Longrightarrow> E' x = E x" using d by (auto simp: E')
  have g: "good p (E q)" "good p (E m)" using r by (auto simp: regions_def)
  have hm: "lo (E m) + unat z < hi (E m)" using n by (simp add: hi_def lo_def)
  note q' = grow_back [OF g(1) _ n(2)] and m' = cut_front [OF g(2) n]
  have q'': "good p (E' q)" "lo (E' q) = lo (E q)" "hi (E' q) = lo (E m) + unat z" "etype (E' q) = t"
    and m'': "good p (E' m)" "lo (E' m) = lo (E m) + unat z" "hi (E' m) = hi (E m)" "etype (E' m) = etype (E m)"
    using q' m' q hm good_bound [OF g(2)] d by (auto simp: E')
  have srt: "sorted_wrt (below E') (as @ q # m # bs)"
    using r q'' m'' same q hm sorted_below_cong [OF same(1)] sorted_below_cong [OF same(2)]
    by (auto simp: regions_def sorted_wrt_append below_def)
  have "type_at E' (as @ [q, m] @ bs) a = set_range (lo (E m)) (lo (E m) + unat z) t (type_at E (as @ [q, m] @ bs)) a" for a
  proof (rule type_at_change)
    show "type_at E' [q, m] a = set_range (lo (E m)) (lo (E m) + unat z) t (type_at E [q, m]) a"
      using q'' m'' q hm good_less [OF g(1)] by (auto simp: set_range_def covers_def)
    show "\<exists>u\<in>set [q, m]. covers (E u) a" if "lo (E m) \<le> a \<and> a < lo (E m) + unat z"
      using that hm by (auto simp: covers_def)
  qed (use r srt same in \<open>auto simp: regions_def\<close>)
  with srt r q''(1) m''(1) same show ?thesis by (auto simp: carved_def regions_def)
qed

lemma carved_last:
  assumes r: "regions p E (as @ m # q # bs)" and q: "etype (E q) = t" "hi (E m) = lo (E q)"
    and n: "unat z < unat (esize (E m))" "4096 dvd unat z"
    and E': "E' = E(q := (E q)\<lparr>esize := esize (E q) + z, physical_start := physical_start (E q) - z\<rparr>,
       m := (E m)\<lparr>esize := esize (E m) - z\<rparr>)"
  shows "carved p E (as @ m # q # bs) E' (as @ m # q # bs) (lo (E' q)) (unat z) t" "lo (E' q) = hi (E m) - unat z"
proof -
  have d: "q \<notin> set as" "m \<notin> set as" "q \<notin> set bs" "m \<notin> set bs" "q \<noteq> m" using r by (auto simp: regions_def)
  have same: "\<And>x. x \<in> set as \<Longrightarrow> E' x = E x" "\<And>x. x \<in> set bs \<Longrightarrow> E' x = E x" using d by (auto simp: E')
  have g: "good p (E q)" "good p (E m)" using r by (auto simp: regions_def)
  have hm: "lo (E m) + unat z < hi (E m)" using n by (simp add: hi_def lo_def)
  then have "unat z \<le> lo (E q)" using q by simp
  note q' = grow_front [OF g(1) this n(2)] and m' = cut_back [OF g(2) n]
  have q'': "good p (E' q)" "lo (E' q) = hi (E m) - unat z" "hi (E' q) = hi (E q)" "etype (E' q) = t"
    and m'': "good p (E' m)" "lo (E' m) = lo (E m)" "hi (E' m) = hi (E m) - unat z" "etype (E' m) = etype (E m)"
    using q' m' q d by (auto simp: E')
  show "lo (E' q) = hi (E m) - unat z" by (rule q'')
  have srt: "sorted_wrt (below E') (as @ m # q # bs)"
    using r q'' m'' same q hm sorted_below_cong [OF same(1)] sorted_below_cong [OF same(2)]
    by (auto simp: regions_def sorted_wrt_append below_def)
  have "type_at E' (as @ [m, q] @ bs) a = set_range (lo (E' q)) (lo (E' q) + unat z) t (type_at E (as @ [m, q] @ bs)) a" for a
  proof (rule type_at_change)
    show "type_at E' [m, q] a = set_range (lo (E' q)) (lo (E' q) + unat z) t (type_at E [m, q]) a"
      using q'' m'' q hm good_less [OF g(1)] by (auto simp: set_range_def covers_def)
    show "\<exists>u\<in>set [m, q]. covers (E u) a" if "lo (E' q) \<le> a \<and> a < lo (E' q) + unat z"
      using that hm q'' by (auto simp: covers_def)
  qed (use r srt same in \<open>auto simp: regions_def\<close>)
  with srt r q''(1) m''(1) same show "carved p E (as @ m # q # bs) E' (as @ m # q # bs) (lo (E' q)) (unat z) t"
    by (auto simp: carved_def regions_def)
qed

lemma carved_new:
  assumes r: "regions p E (as @ m # bs)" and t: "t \<in> set p" and x: "x \<notin> set (as @ m # bs)"
    and n: "unat z < unat (esize (E m))" "4096 dvd unat z" "z \<noteq> 0"
    and E': "E' = E(x := e, m := (E m)\<lparr>esize := esize (E m) - z, physical_start := physical_start (E m) + z\<rparr>)"
    and e: "etype e = t" "physical_start e = physical_start (E m)" "esize e = z"
  shows "carved p E (as @ m # bs) E' (as @ x # m # bs) (lo (E m)) (unat z) t"
proof -
  have d: "m \<notin> set as" "m \<notin> set bs" "x \<noteq> m" "x \<notin> set as" "x \<notin> set bs" using r x by (auto simp: regions_def)
  have same: "\<And>x. x \<in> set as \<Longrightarrow> E' x = E x" "\<And>x. x \<in> set bs \<Longrightarrow> E' x = E x" using d by (auto simp: E')
  have g: "good p (E m)" using r by (auto simp: regions_def)
  have hm: "lo (E m) + unat z < hi (E m)" "0 < unat z" using n by (simp_all add: hi_def lo_def unat_gt_0)
  note m' = cut_front [OF g n(1,2)]
  have x'': "lo (E' x) = lo (E m)" "hi (E' x) = lo (E m) + unat z" "etype (E' x) = t" "good p (E' x)"
    using e d t n g hm good_bound [OF g] by (auto simp: E' lo_def hi_def good_def)
  have m'': "good p (E' m)" "lo (E' m) = lo (E m) + unat z" "hi (E' m) = hi (E m)" "etype (E' m) = etype (E m)"
    using m' d by (auto simp: E')
  have srt: "sorted_wrt (below E') (as @ x # m # bs)"
    using r x'' m'' same hm sorted_below_cong [OF same(1)] sorted_below_cong [OF same(2)]
    by (fastforce simp: regions_def sorted_wrt_append below_def)
  have "type_at E' (as @ [x, m] @ bs) a = set_range (lo (E m)) (lo (E m) + unat z) t (type_at E (as @ [m] @ bs)) a" for a
  proof (rule type_at_change)
    show "type_at E' [x, m] a = set_range (lo (E m)) (lo (E m) + unat z) t (type_at E [m]) a"
      using x'' m'' hm by (auto simp: set_range_def covers_def)
    show "\<exists>u\<in>set [m]. covers (E u) a" if "lo (E m) \<le> a \<and> a < lo (E m) + unat z"
      using that hm by (auto simp: covers_def)
  qed (use r srt same in \<open>auto simp: regions_def\<close>)
  with srt r x''(4) m''(1) same show ?thesis by (auto simp: carved_def regions_def)
qed

section \<open>gd\_alloc\_pages\<close>

text \<open>The \<open>n\<close> bytes at \<open>a\<close> were conventional memory and now have type \<open>t\<close>.\<close>

definition taken :: "gd_memory_type list \<Rightarrow> mmap_state \<Rightarrow> addr list \<Rightarrow> nat \<Rightarrow> gd_memory_type \<Rightarrow> mmap_state \<Rightarrow> addr \<Rightarrow> bool" where
  "taken p st xs n t st' a \<longleftrightarrow> 4096 dvd unat a \<and>
     (\<forall>b. unat a \<le> b \<and> b < unat a + n \<longrightarrow> type_at (ents st) xs b = Some gd_conventional_memory) \<and>
     (\<exists>xs' fs'. map_ok p st' xs' fs' \<and>
       (\<forall>b. type_at (ents st') xs' b = set_range (unat a) (unat a + n) t (type_at (ents st) xs) b))"

lemma taken_key [simp]: "taken p st xs n t (st'\<lparr>mmap_key := c\<rparr>) a = taken p st xs n t st' a"
  by (simp add: taken_def map_ok_def)

lemma map_ok_regions: "map_ok p st xs fs \<Longrightarrow> regions p (ents st) xs"
  using mm_distinct by (auto simp: map_ok_def regions_def)

lemma takenI:
  assumes ok: "map_ok p st xs fs" and m: "m \<in> set xs" "etype (ents st m) = gd_conventional_memory"
    and a: "lo (ents st m) \<le> unat a" "unat a + n \<le> hi (ents st m)" "4096 dvd unat a"
    and c: "carved p (ents st) xs (ents st') ys (unat a) n t" and st': "mm st' ys gs" "overlap_precedence st' = p"
  shows "taken p st xs n t st' a"
  unfolding taken_def
proof (intro conjI allI impI exI)
  show "type_at (ents st) xs b = Some gd_conventional_memory" if "unat a \<le> b \<and> b < unat a + n" for b
    using ok m a that type_at_covers [of "ents st" xs m b] by (auto simp: map_ok_def covers_def)
  show "map_ok p st' ys gs" using c st' by (simp add: carved_def map_ok_def)
  show "type_at (ents st') ys b = set_range (unat a) (unat a + n) t (type_at (ents st) xs) b" for b
    using c by (simp add: carved_def)
qed (rule a)

lemma retype_merge:
  assumes mm: "mm st (as @ m # bs) fs" and c: "carved p E xs (ents st) (as @ m # bs) l n t" and prec: "overlap_precedence st = p"
  shows "\<exists>st'. merge_adjacent st m = Inr st' \<and> (\<exists>ys gs. map_ok p st' ys gs \<and> avail st fs \<le> avail st' gs \<and>
    (\<forall>b. type_at (ents st') ys b = set_range l (l + n) t (type_at E xs) b))"
proof -
  have wf: "sorted_wrt (below (ents st)) (as @ m # bs)" "\<forall>x\<in>set (as @ m # bs). good p (ents st x)"
    using c by (auto simp: carved_def)
  have "tailwf p (ents st) as (m # bs)" using wf by (auto simp: tailwf_def sorted_wrt_append)
  from merge_ok [OF mm this] obtain st' where st': "merge_adjacent st m = Inr st'"
    "settled p st as (tyr p (ents st) (as @ m # bs)) (avail st fs) st'" by blast
  have "sorted_wrt (below (ents st)) as" using wf(1) by (simp add: sorted_wrt_append)
  from settled_types [OF st'(2) this prec wf] c st'(1) show ?thesis by (auto simp: carved_def)
qed

text \<open>The branches of \<open>take_pages\<close> that leave a rest of the region \<open>m\<close>.\<close>

definition takable :: "gd_memory_type list \<Rightarrow> mmap_state \<Rightarrow> addr list \<Rightarrow> addr \<Rightarrow> addr list \<Rightarrow> addr list \<Rightarrow> u64 \<Rightarrow> bool" where
  "takable p st as m bs fs z \<longleftrightarrow> map_ok p st (as @ m # bs) fs \<and> etype (ents st m) = gd_conventional_memory \<and>
     unat z < unat (esize (ents st m)) \<and> z \<noteq> 0 \<and> 4096 dvd unat z"

lemma takableD:
  assumes "takable p st as m bs fs z"
  shows "mm st (as @ m # bs) fs" "regions p (ents st) (as @ m # bs)" "overlap_precedence st = p" "good p (ents st m)"
    "lo (ents st m) + unat z < hi (ents st m)" "4096 dvd unat (start_of st m)"
  using assms map_ok_regions [of p st "as @ m # bs" fs]
  by (auto simp: takable_def map_ok_def good_def regions_def lo_def hi_def)

lemma take_first:
  assumes tk: "takable p st (as @ [q]) m bs fs z" and q: "ends_at t st q m"
  shows "taken p st ((as @ [q]) @ m # bs) (unat z) t (slice_first z q m st) (start_of st m)"
    "mm (slice_first z q m st) ((as @ [q]) @ m # bs) fs"
proof -
  note d = takableD [OF tk]
  have ne: "q \<noteq> m" and g: "good p (ents st q)" using d(2) by (auto simp: regions_def)
  have E: "ents (slice_first z q m st) = (ents st)(q := (ents st q)\<lparr>esize := esize (ents st q) + z\<rparr>,
      m := (ents st m)\<lparr>esize := esize (ents st m) - z, physical_start := physical_start (ents st m) + z\<rparr>)"
    using ne by (simp add: slice_first_def)
  have "unat (end_of (ents st q)) = unat (start_of st m)" using q by (simp add: ends_at_def)
  then have hq: "hi (ents st q) = lo (ents st m)" "etype (ents st q) = t" using q good_end [OF g] by (auto simp: ends_at_def lo_def)
  have c: "carved p (ents st) (as @ q # m # bs) (ents (slice_first z q m st)) (as @ q # m # bs) (lo (ents st m)) (unat z) t"
    by (rule carved_first [OF _ hq(2,1) _ _ E]) (use d(2) tk in \<open>auto simp: takable_def\<close>)
  show mm: "mm (slice_first z q m st) ((as @ [q]) @ m # bs) fs" using d(1) by (simp add: slice_first_def)
  show "taken p st ((as @ [q]) @ m # bs) (unat z) t (slice_first z q m st) (start_of st m)"
    by (rule takenI [of p st _ fs m _ _ _ "(as @ [q]) @ m # bs", OF _ _ _ _ _ d(6) _ mm])
      (use tk d c in \<open>auto simp: takable_def slice_first_def lo_def [symmetric]\<close>)
qed

lemma take_last:
  assumes tk: "takable p st as m (q # bs) fs z" and q: "starts_after t st q m"
  shows "taken p st (as @ m # q # bs) (unat z) t (slice_last z q m st) (start_of (slice_last z q m st) q)"
    "mm (slice_last z q m st) (as @ m # q # bs) fs"
proof -
  note d = takableD [OF tk]
  let ?st = "slice_last z q m st"
  have ne: "q \<noteq> m" using d(2) by (auto simp: regions_def)
  have E: "ents ?st = (ents st)(q := (ents st q)\<lparr>esize := esize (ents st q) + z, physical_start := physical_start (ents st q) - z\<rparr>,
      m := (ents st m)\<lparr>esize := esize (ents st m) - z\<rparr>)"
    using ne by (simp add: slice_last_def)
  have "unat (end_of (ents st m)) = unat (start_of st q)" using q by (simp add: starts_after_def)
  then have hq: "hi (ents st m) = lo (ents st q)" "etype (ents st q) = t" using q good_end [OF d(4)] by (auto simp: starts_after_def lo_def)
  have z: "unat z < unat (esize (ents st m))" "4096 dvd unat z" using tk by (auto simp: takable_def)
  note c = carved_last [OF d(2) hq(2,1) z E]
  have lq: "unat (start_of ?st q) = hi (ents st m) - unat z" using c(2) by (simp add: lo_def)
  have hz: "lo (ents st m) + unat z < hi (ents st m)" by (rule d)
  have "4096 dvd hi (ents st m) - unat z" using d(4) z(2) by (simp add: good_def dvd_diff_nat)
  then have al: "4096 dvd unat (start_of ?st q)" using lq by simp
  show mm: "mm ?st (as @ m # q # bs) fs" using d(1) by (simp add: slice_last_def)
  show "taken p st (as @ m # q # bs) (unat z) t ?st (start_of ?st q)"
    by (rule takenI [of p st _ fs m _ _ _ "as @ m # q # bs", OF _ _ _ _ _ al _ mm])
      (use tk d c(1) lq hz in \<open>auto simp: takable_def lo_def [symmetric] slice_last_def [of _ _ _ st]\<close>)
qed

lemma take_new:
  assumes tk: "takable p st as m bs fs z" and t: "t \<in> set p" and st1: "mm st1 (as @ m # bs) gs" "fresh st1 (as @ m # bs) gs x"
    and st2: "ents st2 = (ents st)(x := e, m := (ents st m)\<lparr>esize := esize (ents st m) - z, physical_start := start_of st m + z\<rparr>)"
      "overlap_precedence st2 = p" "st2 = st1\<lparr>ents := ents st2\<rparr>"
    and e: "etype e = t" "physical_start e = start_of st m" "esize e = z"
  obtains h where "RB_INSERT (mmap_entry_cmp st2) (mmap st2) x = Some (h, NULL)"
    "taken p st (as @ m # bs) (unat z) t (st2\<lparr>mmap := h\<rparr>) (start_of st m)"
    "mm (st2\<lparr>mmap := h\<rparr>) (as @ x # m # bs) gs"
proof -
  note d = takableD [OF tk]
  have x: "x \<notin> set (as @ m # bs)" using st1(2) by (auto simp: fresh_def)
  have z: "unat z < unat (esize (ents st m))" "4096 dvd unat z" "z \<noteq> 0" using tk by (auto simp: takable_def)
  note c = carved_new [OF d(2) t x z st2(1) e]
  have "mm st2 (as @ m # bs) gs" "fresh st2 (as @ m # bs) gs x"
    using st1 by (subst st2(3), simp)+
  moreover have "sorted_wrt (below (ents st2)) (as @ x # m # bs)" "\<forall>y\<in>set (as @ x # m # bs). good p (ents st2 y)"
    using c by (auto simp: carved_def)
  then have "\<forall>y\<in>set as. start_of st2 y < start_of st2 x" "\<forall>y\<in>set (m # bs). start_of st2 x < start_of st2 y"
    using below_less [of "ents st2" _ x p] below_less [of "ents st2" x _ p] by (auto simp: sorted_wrt_append)
  ultimately obtain h where h: "RB_INSERT (mmap_entry_cmp st2) (mmap st2) x = Some (h, NULL)"
    "mm (st2\<lparr>mmap := h\<rparr>) (as @ x # m # bs) gs" by (rule insert_ok)
  have "taken p st (as @ m # bs) (unat z) t (st2\<lparr>mmap := h\<rparr>) (start_of st m)"
    by (rule takenI [of p st _ fs m _ _ _ "as @ x # m # bs", OF _ _ _ _ _ d(6) _ h(2)])
      (use tk d c st2(2) in \<open>auto simp: takable_def lo_def [symmetric]\<close>)
  with h that show thesis by blast
qed

lemma take_pages_ok:
  assumes ok: "map_ok p st (as @ m # bs) fs" and t: "t \<in> set p" and cv: "etype (ents st m) = gd_conventional_memory"
    and n: "unat (count * 4096) \<le> unat (esize (ents st m))" "count * 4096 \<noteq> 0" "4096 dvd unat (count * 4096)"
    and av: "0 < avail st fs"
  shows "\<exists>st' a. take_pages st t count m = Inr (st', Some a) \<and> taken p st (as @ m # bs) (unat (count * 4096)) t st' a"
proof -
  let ?n = "count * 4096" and ?E = "ents st"
  have mm: "mm st (as @ m # bs) fs" and r: "regions p ?E (as @ m # bs)" and prec: "overlap_precedence st = p"
    using ok map_ok_regions by (auto simp: map_ok_def)
  have g: "good p (?E m)" using r by (simp add: regions_def)
  have am: "4096 dvd unat (start_of st m)" "unat (start_of st m) = lo (?E m)" using g by (auto simp: good_def lo_def)
  note tk = takenI [OF ok _ cv, of "start_of st m"]
  note red = take_pages_def Let_def mm_prev [OF mm] mm_next [OF mm]
  consider "esize (?E m) = ?n" | "unat ?n < unat (esize (?E m))" using n(1) by (metis le_neq_implies_less word_unat_eq_iff)
  then show ?thesis
  proof cases
    case 1
    let ?st = "upd_ent (\<lambda>e. e\<lparr>etype := t\<rparr>) m st"
    have c: "carved p ?E (as @ m # bs) (ents ?st) (as @ m # bs) (lo (?E m)) (unat ?n) t"
      by (rule carved_whole [OF r t]) (use 1 in auto)
    from retype_merge [of ?st as m bs fs, OF _ c] mm prec obtain st' ys gs where st': "merge_adjacent ?st m = Inr st'"
      "map_ok p st' ys gs" "\<And>b. type_at (ents st') ys b = set_range (lo (?E m)) (lo (?E m) + unat ?n) t (type_at ?E (as @ m # bs)) b"
      by auto
    have "type_at ?E (as @ m # bs) b = Some gd_conventional_memory" if "lo (?E m) \<le> b \<and> b < lo (?E m) + unat ?n" for b
      using r cv that 1 type_at_covers [of ?E "as @ m # bs" m b] by (auto simp: regions_def covers_def hi_def lo_def)
    then have "taken p st (as @ m # bs) (unat ?n) t st' (start_of st m)"
      unfolding taken_def using st'(2,3) am by auto
    with 1 st'(1) show ?thesis by (simp add: red)
  next
    case 2
    then have ne: "esize (?E m) \<noteq> ?n" by auto
    have tk': "takable p st as m bs fs ?n" using ok cv 2 n by (simp add: takable_def)
    show ?thesis
    proof (cases "ends_at t st (last_or NULL as) m")
      case True
      then obtain as0 q where as: "as = as0 @ [q]" by (cases as rule: rev_cases) (auto simp: ends_at_def)
      from take_first(1) [of p st as0 q m bs fs ?n t] tk' True as show ?thesis by (simp add: red ne)
    next
      case F1: False
      show ?thesis
      proof (cases "starts_after t st (first_or NULL bs) m")
        case True
        then obtain q cs where bs: "bs = q # cs" by (cases bs) (auto simp: starts_after_def)
        from take_last(1) [of p st as m q cs fs ?n t] tk' True bs F1 show ?thesis by (simp add: red ne)
      next
        case F2: False
        obtain st1 x gs where st1: "mmap_alloc_entry st = Inr (st1, x)" "mm st1 (as @ m # bs) gs"
          "fresh st1 (as @ m # bs) gs x" "ents st1 = ents st" "overlap_precedence st1 = overlap_precedence st"
          using alloc_ok [OF mm av] by metis
        have x: "x \<noteq> NULL" "x \<noteq> m" using st1(3) by (auto simp: fresh_def)
        define st2 where "st2 = upd_ent (\<lambda>e. e\<lparr>physical_start := physical_start e + ?n, esize := esize e - ?n\<rparr>) m
          (upd_ent (\<lambda>e. e\<lparr>etype := t, physical_start := start_of st1 m, esize := ?n, attributes := attributes (ents st1 m)\<rparr>) x st1)"
        obtain h where "RB_INSERT (mmap_entry_cmp st2) (mmap st2) x = Some (h, NULL)"
          "taken p st (as @ m # bs) (unat ?n) t (st2\<lparr>mmap := h\<rparr>) (start_of st m)"
          by (rule take_new [OF tk' t st1(2,3), of st2 "(ents st1 x)\<lparr>etype := t, physical_start := start_of st1 m, esize := ?n, attributes := attributes (ents st1 m)\<rparr>"])
            (use x st1(4,5) prec in \<open>auto simp: st2_def\<close>)
        with F1 F2 st1(1) x show ?thesis by (simp add: red ne st2_def)
      qed
    qed
  qed
qed

lemma alloc_pages_ok:
  assumes ok: "map_ok p st xs fs" and t: "t \<in> set p" and c: "count \<noteq> 0" "unat count * 4096 < 2 ^ 64" and av: "0 < avail st fs"
  shows "(if \<exists>x\<in>set xs. alloc_suits st count x
    then \<exists>st' a. gd_alloc_pages st t count = Inr (st', 0, Some a) \<and> taken p st xs (unat count * 4096) t st' a
    else gd_alloc_pages st t count = Inr (st, ENOMEM, None))"
proof -
  have mm: "mm st xs fs" using ok by (simp add: map_ok_def)
  have u: "unat (count * 4096) = unat count * 4096" using c(2) by (simp add: unat_word_ariths)
  have n0: "count * 4096 \<noteq> 0" using u c(1) by (metis mult_eq_0_iff unat_eq_zero zero_neq_numeral)
  have s: "(RB_MIN (mmap st) \<bind> foreach_until (\<lambda>x. past_limit st count x \<or> alloc_suits st count x) (mmap st))
    = Some (first_or NULL (filter (alloc_suits st count) xs))"
    using search_ok [OF mm] by (simp add: past_limit_def)
  show ?thesis
  proof (cases "filter (alloc_suits st count) xs = []")
    case True
    then have "\<not> (\<exists>x\<in>set xs. alloc_suits st count x)" by (simp add: filter_empty_conv)
    with True s c(1) show ?thesis by (simp add: gd_alloc_pages_def)
  next
    case False
    then obtain as m bs where m: "xs = as @ m # bs" "alloc_suits st count m" "first_or NULL (filter (alloc_suits st count) xs) = m"
      by (rule filter_first)
    have "m \<noteq> NULL" using mm_not_null [OF mm] m(1) by simp
    moreover obtain st' a where "take_pages st t count m = Inr (st', Some a)" "taken p st xs (unat count * 4096) t st' a"
      using take_pages_ok [of p st as m bs fs t count] ok t m n0 av u by (auto simp: alloc_suits_def word_le_nat_alt)
    ultimately show ?thesis using s c(1) m by (auto simp: gd_alloc_pages_def past_limit_def)
  qed
qed

section \<open>Refilling the supply of structures\<close>

lemma slots_from_range:
  "unat a + k * 72 < 2 ^ 64 \<Longrightarrow> w \<in> set (slots_from a k) \<Longrightarrow> unat a \<le> unat w \<and> unat w < unat a + k * 72"
proof (induction k arbitrary: a)
  case (Suc k)
  have u: "unat (a + sizeof_mmap_entry) = unat a + 72"
    using Suc.prems(1) by (simp add: unat_word_ariths sizeof_mmap_entry_def)
  show ?case
  proof (cases "w = a")
    case False
    then have "w \<in> set (slots_from (a + sizeof_mmap_entry) k)" using Suc.prems(2) by simp
    with Suc.IH [of "a + sizeof_mmap_entry"] u Suc.prems(1) show ?thesis by simp
  qed simp
qed simp

lemma slots_from_distinct: "unat a + k * 72 < 2 ^ 64 \<Longrightarrow> distinct (slots_from a k)"
proof (induction k arbitrary: a)
  case (Suc k)
  have u: "unat (a + sizeof_mmap_entry) = unat a + 72"
    using Suc.prems by (simp add: unat_word_ariths sizeof_mmap_entry_def)
  with Suc show ?case using slots_from_range [of "a + sizeof_mmap_entry" k a] by auto
qed simp

lemma page_slots: "unat (4096 div sizeof_mmap_entry :: u64) = 56"
  by (simp add: sizeof_mmap_entry_def)

text \<open>A page that holds none of the structures of the map becomes the supply.\<close>

lemma new_supply:
  assumes mm: "mm st xs []" and a: "a \<noteq> NULL" "unat a + 4096 < 2 ^ 64"
    and out: "\<And>x. x \<in> set xs \<Longrightarrow> \<not> (unat a \<le> unat x \<and> unat x < unat a + 4096)"
  shows "mm (st\<lparr>alloc_next := a, allocatable := 4096 div sizeof_mmap_entry\<rparr>) xs []"
proof -
  let ?s = "slots_from a 56"
  have "unat w < unat a + 4096 \<and> unat a \<le> unat w" if "w \<in> set ?s" for w
    using slots_from_range [of a 56 w] a that by simp
  then have "set xs \<inter> set ?s = {}" "NULL \<notin> set ?s"
    using out a(1) by (auto, metis le_zero_eq unat_eq_zero unsigned_0)
  moreover have "distinct ?s" using slots_from_distinct [of a 56] a by simp
  ultimately show ?thesis using mm by (simp add: mm_def unused_def page_slots)
qed

lemma bump_ok:
  assumes mm: "mm st xs fs" and a: "allocatable st \<noteq> 0"
  defines "st' \<equiv> st\<lparr>alloc_next := alloc_next st + sizeof_mmap_entry, allocatable := allocatable st - 1\<rparr>"
  shows "mm st' xs fs" "fresh st' xs fs (alloc_next st)"
proof -
  obtain n where n: "unat (allocatable st) = Suc n" using a by (metis not0_implies_Suc unat_eq_zero)
  then have "unat (allocatable st - 1) = n" using a by (simp add: unat_minus_one)
  then have "unused st = alloc_next st # unused st'" using n by (simp add: unused_def st'_def)
  then show "mm st' xs fs" "fresh st' xs fs (alloc_next st)"
    using mm by (auto simp: mm_def fresh_def st'_def)
qed

lemma merge_keeps_supply:
  assumes "merge_adjacent st m = Inr st'"
  shows "alloc_next st' = alloc_next st \<and> allocatable st' = allocatable st"
proof -
  have f: "alloc_next s' = alloc_next s \<and> allocatable s' = allocatable s" if "mmap_free_entry s x = Inr s'" for s s' x
    using that by (auto simp: mmap_free_entry_def orcrash_def bind_eq_Some_conv split: option.splits)
  have a: "alloc_next s' = alloc_next s \<and> allocatable s' = allocatable s" if "absorb s x y = Inr s'" for s s' x y
    using that f by (auto simp: absorb_def remove_and_free_def andthen_eq_Inr_iff split: prod.splits)
  show ?thesis
    using assms a by (auto simp: merge_adjacent_def andthen_eq_Inr_iff split: if_splits prod.splits)
qed

lemma taken_ents:
  "ents st1 = ents st \<Longrightarrow> taken p st1 xs n t st' a = taken p st xs n t st' a"
  by (simp add: taken_def)

text \<open>The page \<open>a\<close> was taken from conventional memory and is the supply now.\<close>

definition refilled :: "gd_memory_type list \<Rightarrow> mmap_state \<Rightarrow> addr list \<Rightarrow> mmap_state \<Rightarrow> addr \<Rightarrow> bool" where
  "refilled p st xs st' a \<longleftrightarrow> taken p st xs 4096 gd_loader_data st' a \<and> allocatable st' \<noteq> 0 \<and>
     unat a \<le> unat (alloc_next st') \<and> unat (alloc_next st') < unat a + 4096"

lemma supply_in_region:
  assumes ok: "map_ok p st xs []" and m: "m \<in> set xs" "\<And>x. x \<in> set xs \<Longrightarrow> \<not> covers (ents st m) (unat x)"
    and a: "lo (ents st m) \<le> unat a" "unat a + 4096 \<le> hi (ents st m)" "a \<noteq> NULL"
  shows "map_ok p (st\<lparr>alloc_next := a, allocatable := 4096 div sizeof_mmap_entry\<rparr>) xs []"
proof -
  have "hi (ents st m) < 2 ^ 64" using ok m(1) by (auto simp: map_ok_def good_def)
  moreover have "\<not> (unat a \<le> unat x \<and> unat x < unat a + 4096)" if "x \<in> set xs" for x
    using m(2) [OF that] a unfolding covers_def by linarith
  ultimately have "mm (st\<lparr>alloc_next := a, allocatable := 4096 div sizeof_mmap_entry\<rparr>) xs []"
    using ok a by (intro new_supply) (auto simp: map_ok_def)
  then show ?thesis using ok by (simp add: map_ok_def)
qed

lemma carve_last:
  assumes ok: "map_ok p st (as @ m # bs) []" and cv: "etype (ents st m) = gd_conventional_memory"
    and out: "\<And>x. x \<in> set (as @ m # bs) \<Longrightarrow> \<not> covers (ents st m) (unat x)"
    and n: "unat (4096 :: u64) < unat (esize (ents st m))" and q: "bs = q # cs" "starts_after gd_loader_data st q m"
  shows "\<exists>a. refilled p st (as @ m # bs)
    (slice_last 4096 q m st\<lparr>alloc_next := start_of (slice_last 4096 q m st) q, allocatable := 4096 div sizeof_mmap_entry\<rparr>) a"
proof -
  let ?st = "slice_last 4096 q m st"
  let ?a = "start_of ?st q"
  have tk: "takable p st as m (q # cs) [] 4096" using ok cv n q(1) by (simp add: takable_def)
  note d = takableD [OF tk]
  have ne: "q \<noteq> m" using d(2) by (auto simp: regions_def)
  have "unat (end_of (ents st m)) = unat (start_of st q)" using q by (simp add: starts_after_def)
  then have hq: "hi (ents st m) = lo (ents st q)" using good_end [OF d(4)] by (simp add: lo_def)
  have "unat (start_of st q - 4096) = lo (ents st q) - 4096"
    using hq d(5) by (subst unat_diff) (auto simp: word_le_nat_alt lo_def)
  then have a: "unat ?a = hi (ents st m) - 4096" using ne hq by (simp add: slice_last_def)
  have hz: "lo (ents st m) + 4096 < hi (ents st m)" using d(5) by simp
  then have "?a \<noteq> NULL" using a by (metis add_lessD1 diff_is_0_eq le_add2 le_trans not_less unat_eq_zero)
  with supply_in_region [OF ok _ out, of ?a] a hz
  have ok1: "map_ok p (st\<lparr>alloc_next := ?a, allocatable := 4096 div sizeof_mmap_entry\<rparr>) (as @ m # bs) []" by simp
  let ?st1 = "st\<lparr>alloc_next := ?a, allocatable := 4096 div sizeof_mmap_entry\<rparr>"
  have "takable p ?st1 as m (q # cs) [] 4096" using ok1 cv n q(1) by (simp add: takable_def)
  moreover have "starts_after gd_loader_data ?st1 q m" using q(2) by (simp add: starts_after_def)
  ultimately have "taken p ?st1 (as @ m # q # cs) (unat (4096 :: u64)) gd_loader_data (slice_last 4096 q m ?st1) (start_of (slice_last 4096 q m ?st1) q)"
    by (rule take_last)
  moreover have "slice_last 4096 q m ?st1 = ?st\<lparr>alloc_next := ?a, allocatable := 4096 div sizeof_mmap_entry\<rparr>"
    by (simp add: slice_last_def)
  ultimately have "refilled p st (as @ m # bs) (?st\<lparr>alloc_next := ?a, allocatable := 4096 div sizeof_mmap_entry\<rparr>) ?a"
    using q(1) by (simp add: refilled_def taken_ents [of ?st1 st]) (simp add: sizeof_mmap_entry_def)
  then show ?thesis by blast
qed

lemma carve_new:
  assumes ok: "map_ok p (st\<lparr>alloc_next := start_of st m, allocatable := 4096 div sizeof_mmap_entry\<rparr>) (as @ m # bs) []"
    and cv: "etype (ents st m) = gd_conventional_memory" and ld: "gd_loader_data \<in> set p"
    and n: "unat (4096 :: u64) < unat (esize (ents st m))"
  defines "st2 \<equiv> upd_ent (\<lambda>e. e\<lparr>esize := esize e - 4096\<rparr>) m
                 (upd_ent (\<lambda>e. e\<lparr>physical_start := physical_start e + 4096\<rparr>) m
                 (upd_ent (\<lambda>e. e\<lparr>etype := gd_loader_data, physical_start := start_of st m, esize := 4096,
                     attributes := attributes (ents st m)\<rparr>) (start_of st m) st))"
  shows "\<exists>h a. RB_INSERT (mmap_entry_cmp st2) (mmap st2) (start_of st m) = Some (h, NULL) \<and>
    refilled p st (as @ m # bs) (st2\<lparr>mmap := h, alloc_next := start_of st m + sizeof_mmap_entry,
      allocatable := 4096 div sizeof_mmap_entry - 1\<rparr>) a"
proof -
  let ?p = "start_of st m" and ?s = "4096 div sizeof_mmap_entry :: u64"
  let ?st = "st\<lparr>alloc_next := ?p, allocatable := ?s\<rparr>"
  let ?st1 = "st\<lparr>alloc_next := ?p + sizeof_mmap_entry, allocatable := ?s - 1\<rparr>"
  let ?e = "(ents st ?p)\<lparr>etype := gd_loader_data, physical_start := ?p, esize := 4096, attributes := attributes (ents st m)\<rparr>"
  have s0: "?s \<noteq> 0" "?s - 1 \<noteq> 0" "unat sizeof_mmap_entry = 72" by (simp_all add: sizeof_mmap_entry_def)
  have tk: "takable p ?st as m bs [] 4096" using ok cv n by (simp add: takable_def)
  note d = takableD [OF tk]
  have st1: "mm ?st1 (as @ m # bs) []" "fresh ?st1 (as @ m # bs) [] ?p" using bump_ok [OF d(1)] s0 by simp_all
  then have ne: "?p \<noteq> m" by (auto simp: fresh_def)
  have E: "ents st2 = (ents st)(?p := ?e, m := (ents st m)\<lparr>esize := esize (ents st m) - 4096, physical_start := ?p + 4096\<rparr>)"
    using ne by (auto simp: st2_def)
  obtain h where h: "RB_INSERT (mmap_entry_cmp (?st1\<lparr>ents := ents st2\<rparr>)) (mmap (?st1\<lparr>ents := ents st2\<rparr>)) ?p = Some (h, NULL)"
    "taken p ?st (as @ m # bs) (unat (4096 :: u64)) gd_loader_data (?st1\<lparr>ents := ents st2, mmap := h\<rparr>) (start_of ?st m)"
    by (rule take_new [OF tk ld st1, of "?st1\<lparr>ents := ents st2\<rparr>" ?e]) (use E d(3) in auto)
  have "mmap_entry_cmp (?st1\<lparr>ents := ents st2\<rparr>) = mmap_entry_cmp st2" by (intro ext) (simp add: mmap_entry_cmp_def)
  moreover have "mmap st2 = mmap st" by (simp add: st2_def)
  ultimately have i: "RB_INSERT (mmap_entry_cmp st2) (mmap st2) ?p = Some (h, NULL)" using h(1) by simp
  have "?st1\<lparr>ents := ents st2, mmap := h\<rparr> = st2\<lparr>mmap := h, alloc_next := ?p + sizeof_mmap_entry, allocatable := ?s - 1\<rparr>"
    by (simp add: st2_def)
  then have t: "taken p st (as @ m # bs) 4096 gd_loader_data (st2\<lparr>mmap := h, alloc_next := ?p + sizeof_mmap_entry, allocatable := ?s - 1\<rparr>) ?p"
    using h(2) by (simp add: taken_ents [of ?st st])
  have "unat ?p + 4096 < 2 ^ 64" using d(5) good_bound [OF d(4)] by (simp add: lo_def)
  then have "unat (?p + sizeof_mmap_entry) = unat ?p + 72" using s0(3) by (simp add: unat_word_ariths)
  with t s0(2) have "refilled p st (as @ m # bs) (st2\<lparr>mmap := h, alloc_next := ?p + sizeof_mmap_entry, allocatable := ?s - 1\<rparr>) ?p"
    by (simp add: refilled_def)
  with i show ?thesis by blast
qed

lemma carve_page_ok:
  assumes ok: "map_ok p st (as @ m # bs) []" and cv: "etype (ents st m) = gd_conventional_memory" and ld: "gd_loader_data \<in> set p"
    and out: "\<And>x. x \<in> set (as @ m # bs) \<Longrightarrow> \<not> covers (ents st m) (unat x)" and nz: "lo (ents st m) \<noteq> 0"
  shows "\<exists>st' a. carve_page st m = Inr st' \<and> refilled p st (as @ m # bs) st' a"
proof -
  let ?E = "ents st" and ?n = "4096 :: u64" and ?s = "4096 div sizeof_mmap_entry :: u64"
  have mm: "mm st (as @ m # bs) []" and r: "regions p ?E (as @ m # bs)" and g: "good p (?E m)"
    using ok map_ok_regions [OF ok] by (auto simp: map_ok_def)
  have "4096 dvd unat (esize (?E m))" "unat (esize (?E m)) > 0" using g good_size_dvd by (auto simp: good_def unat_gt_0)
  then have sz: "4096 \<le> unat (esize (?E m))" by (auto dest: dvd_imp_le)
  have pg: "start_of st m \<noteq> NULL" "unat (start_of st m) = lo (?E m)" "4096 dvd unat (start_of st m)"
    using nz g by (auto simp: lo_def good_def)
  have hm: "lo (?E m) + 4096 \<le> hi (?E m)" using sz by (simp add: hi_def lo_def)
  let ?st = "st\<lparr>alloc_next := start_of st m, allocatable := ?s\<rparr>"
  have ok1: "map_ok p ?st (as @ m # bs) []"
    using supply_in_region [OF ok _ out, of "start_of st m"] pg hm by simp
  have s0: "?s \<noteq> 0" by (simp add: sizeof_mmap_entry_def)
  note red = carve_page_def Let_def mm_prev [OF mm] mm_next [OF mm]
  consider "esize (?E m) = ?n" | "unat ?n < unat (esize (?E m))" 
    using sz by (force simp: word_unat_eq_iff)
  then show ?thesis
  proof cases
    case 1
    let ?st1 = "upd_ent (\<lambda>e. e\<lparr>etype := gd_loader_data\<rparr>) m ?st"
    have c: "carved p ?E (as @ m # bs) (ents ?st1) (as @ m # bs) (lo (?E m)) 4096 gd_loader_data"
      by (rule carved_whole [OF r ld]) (use 1 in auto)
    have "mm ?st1 (as @ m # bs) []" "overlap_precedence ?st1 = p" using ok1 by (simp_all add: map_ok_def)
    from retype_merge [OF this(1) c this(2)] obtain st' ys gs where st': "merge_adjacent ?st1 m = Inr st'" "map_ok p st' ys gs"
      "\<And>b. type_at (ents st') ys b = set_range (lo (?E m)) (lo (?E m) + 4096) gd_loader_data (type_at ?E (as @ m # bs)) b" by blast
    have "type_at ?E (as @ m # bs) b = Some gd_conventional_memory" if "lo (?E m) \<le> b \<and> b < lo (?E m) + 4096" for b
      using r cv that hm type_at_covers [of ?E "as @ m # bs" m b] by (auto simp: regions_def covers_def)
    then have "taken p st (as @ m # bs) 4096 gd_loader_data st' (start_of st m)"
      unfolding taken_def using st'(2,3) pg by auto
    then have "refilled p st (as @ m # bs) st' (start_of st m)"
      using merge_keeps_supply [OF st'(1)] s0 by (simp add: refilled_def)
    with 1 st'(1) show ?thesis by (auto simp: red)
  next
    case 2
    then have ne: "esize (?E m) \<noteq> ?n" by auto
    have tk: "takable p ?st as m bs [] ?n" using ok1 cv 2 by (simp add: takable_def)
    show ?thesis
    proof (cases "ends_at gd_loader_data st (last_or NULL as) m")
      case True
      then obtain as0 q where as: "as = as0 @ [q]" by (cases as rule: rev_cases) (auto simp: ends_at_def)
      let ?st1 = "slice_first ?n q m ?st"
      have "taken p ?st (as @ m # bs) (unat ?n) gd_loader_data ?st1 (start_of ?st m)"
        using take_first(1) [of p ?st as0 q m bs "[]" ?n] tk True as by (simp add: ends_at_def)
      then have "refilled p st (as @ m # bs) ?st1 (start_of st m)"
        using s0 by (simp add: refilled_def taken_ents [of ?st st] slice_first_def)
      with True as ne show ?thesis by (auto simp: red)
    next
      case F1: False
      show ?thesis
      proof (cases "starts_after gd_loader_data st (first_or NULL bs) m")
        case True
        then obtain q cs where bs: "bs = q # cs" by (cases bs) (auto simp: starts_after_def)
        from carve_last [OF ok cv out] 2 bs True F1 ne show ?thesis by (auto simp: red)
      next
        case F2: False
        from carve_new [OF ok1 cv ld 2] F1 F2 ne pg(1) show ?thesis by (auto simp: red)
      qed
    qed
  qed
qed

text \<open>
  The refill needs that neither a structure of the map nor the address 0 lies in memory that the map
  calls conventional.
\<close>

definition apart :: "mmap_state \<Rightarrow> addr list \<Rightarrow> bool" where
  "apart st xs \<longleftrightarrow> (\<forall>x\<in>insert NULL (set xs). type_at (ents st) xs (unat x) \<noteq> Some gd_conventional_memory)"

lemma refill_ok:
  assumes ok: "map_ok p st xs []" and ld: "gd_loader_data \<in> set p" and ap: "apart st xs"
    and ex: "\<exists>x\<in>set xs. etype (ents st x) = gd_conventional_memory" and al: "allocatable st = 0"
  shows "\<exists>st' a x ys gs. mmap_alloc_entry st = Inr (st', x) \<and> taken p st xs 4096 gd_loader_data st' a \<and>
    map_ok p st' ys gs \<and> fresh st' ys gs x \<and> unat a \<le> unat x \<and> unat x < unat a + 4096"
proof -
  have mm: "mm st xs []" and srt: "sorted_wrt (below (ents st)) xs" using ok by (auto simp: map_ok_def)
  have "filter (alloc_stops st) xs \<noteq> []" using ex by (auto simp: filter_empty_conv alloc_stops_def)
  then obtain as m bs where m: "xs = as @ m # bs" "alloc_stops st m" "first_or NULL (filter (alloc_stops st) xs) = m"
    by (rule filter_first)
  have cv: "etype (ents st m) = gd_conventional_memory" using m(2) by (simp add: alloc_stops_def)
  have conv: "type_at (ents st) xs b = Some gd_conventional_memory" if "covers (ents st m) b" for b
    using type_at_covers [OF srt _ that] m(1) cv by simp
  have out: "\<not> covers (ents st m) (unat x)" if "x \<in> set (as @ m # bs)" for x
    using conv ap that m(1) by (auto simp: apart_def)
  have "good p (ents st m)" using ok m(1) by (simp add: map_ok_def)
  then have nz: "lo (ents st m) \<noteq> 0"
    using conv [of 0] ap good_less [of p "ents st m"] by (auto simp: apart_def covers_def)
  obtain st1 a where st1: "carve_page st m = Inr st1" "refilled p st xs st1 a"
    using carve_page_ok [of p st as m bs] ok cv ld out nz m(1) by blast
  have "m \<noteq> NULL" using mm_not_null [OF mm] m(1) by simp
  then have rf: "refill st = Inr (touch_key st1)" using search_ok [OF mm] m(3) st1(1) by (simp add: refill_def)
  have r: "taken p st xs 4096 gd_loader_data st1 a" "allocatable st1 \<noteq> 0" "unat a \<le> unat (alloc_next st1)"
    "unat (alloc_next st1) < unat a + 4096" using st1(2) by (auto simp: refilled_def)
  let ?st = "(touch_key st1)\<lparr>alloc_next := alloc_next st1 + sizeof_mmap_entry, allocatable := allocatable st1 - 1\<rparr>"
  have res: "mmap_alloc_entry st = Inr (?st, alloc_next st1)"
    using mm al rf r(2) by (simp add: mmap_alloc_entry_def mm_def)
  from r(1) obtain ys gs where y: "map_ok p st1 ys gs"
    "\<And>b. type_at (ents st1) ys b = set_range (unat a) (unat a + 4096) gd_loader_data (type_at (ents st) xs) b"
    unfolding taken_def by auto
  have b: "mm ?st ys gs" "fresh ?st ys gs (alloc_next st1)" using bump_ok [of "touch_key st1" ys gs] y(1) r(2) by (auto simp: map_ok_def)
  then have ok': "map_ok p ?st ys gs" using y(1) by (simp add: map_ok_def)
  moreover have "\<And>b. type_at (ents ?st) ys b = set_range (unat a) (unat a + 4096) gd_loader_data (type_at (ents st) xs) b"
    using y(2) by simp
  then have "taken p st xs 4096 gd_loader_data ?st a"
    using r(1) ok' unfolding taken_def by blast
  ultimately show ?thesis using res b(2) r(3,4) by blast
qed

end
