(* ===== verification/Memory_Map_Rounding.thy ===== *)
theory Memory_Map_Rounding
  imports Memory_Map_Pages
begin

text \<open>
  \<open>mmap_add_entry\<close> of a region that is not made of whole pages: the pages that the region covers only
  in part become unusable, and the pages that it covers wholly are added with its type.
\<close>

section \<open>Pages of an address\<close>

lemma unat_page_base: "unat ((x::u64) AND - 4096) = unat x div 4096 * 4096"
proof -
  have "x = (x AND 0xFFF) OR (x AND NOT 0xFFF)" by (simp add: bit_eq_iff bit_simps) blast
  also have "\<dots> = (x AND 0xFFF) + (x AND NOT 0xFFF)" by (rule disjunctive_add [symmetric]) (simp add: bit_simps)
  finally have "x AND NOT 0xFFF = x - (x AND 0xFFF)" by (metis add_diff_cancel_left')
  moreover have "x AND 0xFFF \<le> x" by (simp add: word_le_nat_alt unat_and_mask)
  ultimately have "unat (x AND NOT 0xFFF) = unat x - unat x mod 4096" by (metis unat_diff unat_and_mask)
  then show ?thesis by (simp add: minus_mod_eq_div_mult)
qed

text \<open>The page \<open>k\<close> lies within the region, or shares some but not all of its bytes with it.\<close>

definition whole_page :: "gd_memory_map_entry \<Rightarrow> nat \<Rightarrow> bool" where
  "whole_page e k \<longleftrightarrow> lo e \<le> k * 4096 \<and> k * 4096 + 4096 \<le> hi e"

definition partial_page :: "gd_memory_map_entry \<Rightarrow> nat \<Rightarrow> bool" where
  "partial_page e k \<longleftrightarrow> lo e < k * 4096 + 4096 \<and> k * 4096 < hi e \<and> \<not> whole_page e k"

lemma page_bounds:
  assumes "4096 dvd l" "4096 dvd (h::nat)"
  shows "l \<le> a \<and> a < h \<longleftrightarrow> l \<le> a div 4096 * 4096 \<and> a div 4096 * 4096 + 4096 \<le> h"
proof -
  obtain k m where "l = k * 4096" "h = m * 4096" using assms by (metis dvd_def mult.commute)
  then show ?thesis by (simp add: less_eq_div_iff_mult_less_eq [symmetric] div_less_iff_less_mult [symmetric]) linarith
qed

lemma unusable_page_covers:
  assumes "unat a + 4096 < 2 ^ 64"
  shows "covers (unusable_page a) b \<longleftrightarrow> b div 4096 = unat a div 4096"
  unfolding covers_def lo_def hi_def unusable_page_def zero_entry_def
  by (simp add: unat_page_base) linarith

lemma unusable_page_good:
  assumes "unat a + 4096 < 2 ^ 64" "gd_unusable_memory \<in> set p"
  shows "good p (unusable_page a)" "etype (unusable_page a) = gd_unusable_memory"
proof -
  have "unat a div 4096 * 4096 \<le> unat a" by simp
  with assms show "good p (unusable_page a)" "etype (unusable_page a) = gd_unusable_memory"
    unfolding good_def lo_def hi_def unusable_page_def zero_entry_def by (auto simp: unat_page_base)
qed

section \<open>The pieces of a region\<close>

fun add_list :: "nat \<Rightarrow> mmap_state \<Rightarrow> gd_memory_map_entry list \<Rightarrow> mmap_state outcome" where
  "add_list n st [] = Inr st"
| "add_list n st (u # us) = andthen (mmap_add_entry n st u) (\<lambda>st. add_list n st us)"

definition covered :: "gd_memory_map_entry list \<Rightarrow> nat \<Rightarrow> bool" where
  "covered us a \<longleftrightarrow> (\<exists>u\<in>set us. covers u a)"

text \<open>The pages of \<open>us\<close> are those that \<open>e\<close> covers in part, the pages of \<open>ms\<close> those it covers wholly.\<close>

definition pieces :: "gd_memory_type list \<Rightarrow> gd_memory_map_entry \<Rightarrow> gd_memory_map_entry list \<Rightarrow> gd_memory_map_entry list \<Rightarrow> bool" where
  "pieces p e us ms \<longleftrightarrow> (\<forall>u\<in>set us. good p u \<and> etype u = gd_unusable_memory) \<and>
     (\<forall>m\<in>set ms. good p m \<and> etype m = etype e \<and> attributes m = attributes e) \<and>
     (\<forall>a. covered us a \<longleftrightarrow> partial_page e (a div 4096)) \<and> (\<forall>a. covered ms a \<longleftrightarrow> whole_page e (a div 4096))"

text \<open>The end of a region that starts at a page.\<close>

lemma add_round_end:
  assumes "4096 dvd lo e" and e: "esize e AND 0xFFF \<noteq> 0"
  shows "mmap_add_entry (Suc n) st e = andthen (add_list n st [unusable_page (end_of e)]) (\<lambda>st.
    add_list (Suc n) st (if esize e AND - 4096 = 0 then [] else [e\<lparr>esize := esize e AND - 4096\<rparr>]))"
proof -
  have "esize e \<noteq> 0" using e by auto
  moreover have "physical_start e AND 0xFFF = 0" using assms(1) by (simp add: and_mask_dvd lo_def)
  moreover have "(esize e AND - 4096) AND 0xFFF = 0" by (simp add: and_mask_dvd unat_page_base)
  ultimately show ?thesis using e
    by (cases "mmap_add_entry n st (unusable_page (end_of e))") (auto simp: add_entry_body_def)
qed

lemma page_compare:
  fixes k l q r :: nat
  assumes "r < 4096"
  shows "k * 4096 < q * 4096 + r \<longleftrightarrow> k < q \<or> k = q \<and> 0 < r" "k * 4096 + 4096 \<le> q * 4096 + r \<longleftrightarrow> k < q"
    "l * 4096 < k * 4096 + 4096 \<longleftrightarrow> l \<le> k"
  using assms by auto

lemma partial_page_end:
  assumes "4096 dvd lo e"
  shows "partial_page e k \<longleftrightarrow> \<not> 4096 dvd hi e \<and> k = hi e div 4096 \<and> lo e < hi e"
proof -
  obtain l where l: "lo e = l * 4096" using assms by (metis dvd_def mult.commute)
  define q r where "q = hi e div 4096" and "r = hi e mod 4096"
  have h: "hi e = q * 4096 + r" "r < 4096" by (simp_all add: q_def r_def)
  have "4096 dvd hi e \<longleftrightarrow> r = 0" by (simp add: r_def dvd_eq_mod_eq_0)
  then show ?thesis
    unfolding partial_page_def whole_page_def l q_def [symmetric] unfolding h(1) page_compare [OF h(2)] by auto
qed

lemma round_end:
  assumes dv: "4096 dvd lo e" and z: "esize e \<noteq> 0" and b: "hi e + 4096 < 2 ^ 64"
    and p: "gd_unusable_memory \<in> set p" "etype e \<in> set p"
  shows "\<exists>us ms. pieces p e us ms \<and>
    (\<forall>st. mmap_add_entry (Suc n) st e = andthen (add_list n st us) (\<lambda>st. add_list (Suc n) st ms))"
proof (cases "esize e AND 0xFFF = 0")
  case True
  then have "4096 dvd hi e" using dv by (simp add: and_mask_dvd hi_def lo_def)
  then have "pieces p e [] [e]"
    using dv z b p page_bounds [of "lo e" "hi e"] partial_page_end [OF dv]
    by (auto simp: pieces_def covered_def good_def covers_def whole_page_def)
  then show ?thesis by (intro exI [of _ "[]"] exI [of _ "[e]"]) simp
next
  case False
  define m where "m = e\<lparr>esize := esize e AND - 4096\<rparr>"
  define ms where "ms = (if esize e AND - 4096 = 0 then [] else [m])"
  have u: "unat (end_of e) = hi e" using b by (intro unat_end) simp
  have nd: "\<not> 4096 dvd hi e" using False dv by (auto simp: and_mask_dvd hi_def lo_def dvd_add_right_iff)
  have him: "hi m = hi e div 4096 * 4096" "lo m = lo e"
    using dv by (auto simp: m_def unat_page_base hi_def lo_def elim!: dvdE)
  have "lo e < hi e" using z by (simp add: lo_def hi_def unat_gt_0)
  then have "\<forall>a. covered [unusable_page (end_of e)] a \<longleftrightarrow> partial_page e (a div 4096)"
    using partial_page_end [OF dv] nd unusable_page_covers [of "end_of e"] b u by (auto simp: covered_def)
  moreover have "covered ms a \<longleftrightarrow> whole_page e (a div 4096)" for a
  proof -
    have "a div 4096 * 4096 + 4096 \<le> hi e \<longleftrightarrow> a div 4096 * 4096 + 4096 \<le> hi e div 4096 * 4096"
      using page_compare(2) [of "hi e mod 4096" "a div 4096" "hi e div 4096"] page_compare(2) [of 0 "a div 4096" "hi e div 4096"]
      by simp
    then have "whole_page e (a div 4096) \<longleftrightarrow> covers m a"
      using page_bounds [of "lo m" "hi m" a] him dv by (simp add: covers_def whole_page_def)
    moreover have "\<not> covers m a" if "esize e AND - 4096 = 0" using that by (simp add: covers_def m_def)
    ultimately show ?thesis by (auto simp: covered_def ms_def)
  qed
  moreover have "good p m" if "esize e AND - 4096 \<noteq> 0"
    using that p him b dv div_times_less_eq_dividend [of "hi e" 4096] by (auto simp: good_def m_def)
  ultimately have "pieces p e [unusable_page (end_of e)] ms"
    using unusable_page_good [of "end_of e" p] b u p by (auto simp: pieces_def ms_def m_def)
  with add_round_end [OF dv False, of n] show ?thesis unfolding ms_def m_def by blast
qed

text \<open>The beginning of a region that starts within a page.\<close>

lemma add_round_start:
  assumes "physical_start e AND 0xFFF \<noteq> 0" "esize e \<noteq> 0" "hi e + 4096 < 2 ^ 64"
  defines "gap \<equiv> 0x1000 - (physical_start e AND 0xFFF)"
  shows "mmap_add_entry (Suc n) st e = andthen (mmap_add_entry n st (unusable_page (physical_start e))) (\<lambda>st.
    if esize e > gap then mmap_add_entry (Suc n) st (e\<lparr>esize := esize e - gap, physical_start := end_of (unusable_page (physical_start e))\<rparr>)
    else Inr st)"
proof -
  have a: "end_of (unusable_page (physical_start e)) AND 0xFFF = 0"
    unfolding and_mask_dvd using assms(3)
    by (simp add: unusable_page_def zero_entry_def unat_word_ariths unat_page_base hi_def)
  have "esize e - gap \<noteq> 0" if "esize e > gap" using that by auto
  with a assms(1,2) show ?thesis
    by (cases "mmap_add_entry n st (unusable_page (physical_start e))") (auto simp: add_entry_body_def gap_def Let_def)
qed

lemma page_start:
  fixes l h k q r :: nat
  assumes "l = q * 4096 + r" "0 < r" "r < 4096" "l < h"
  shows "l < k * 4096 + 4096 \<and> k * 4096 < h \<and> \<not> (l \<le> k * 4096 \<and> k * 4096 + 4096 \<le> h) \<longleftrightarrow>
      k = q \<or> (q * 4096 + 4096 < k * 4096 + 4096 \<and> k * 4096 < h \<and> \<not> (q * 4096 + 4096 \<le> k * 4096 \<and> k * 4096 + 4096 \<le> h))"
    "l \<le> k * 4096 \<and> k * 4096 + 4096 \<le> h \<longleftrightarrow> q * 4096 + 4096 \<le> k * 4096 \<and> k * 4096 + 4096 \<le> h"
proof -
  have i: "l \<le> k * 4096 \<longleftrightarrow> q < k" "l < k * 4096 + 4096 \<longleftrightarrow> q \<le> k" "q * 4096 + 4096 < k * 4096 + 4096 \<longleftrightarrow> q < k"
    "q * 4096 + 4096 \<le> k * 4096 \<longleftrightarrow> q < k" using assms(1-3) by auto
  show "l \<le> k * 4096 \<and> k * 4096 + 4096 \<le> h \<longleftrightarrow> q * 4096 + 4096 \<le> k * 4096 \<and> k * 4096 + 4096 \<le> h"
    unfolding i ..
  show "l < k * 4096 + 4096 \<and> k * 4096 < h \<and> \<not> (l \<le> k * 4096 \<and> k * 4096 + 4096 \<le> h) \<longleftrightarrow>
      k = q \<or> (q * 4096 + 4096 < k * 4096 + 4096 \<and> k * 4096 < h \<and> \<not> (q * 4096 + 4096 \<le> k * 4096 \<and> k * 4096 + 4096 \<le> h))"
    unfolding i using assms(1,4) by auto
qed

lemma round_region:
  assumes z: "esize e \<noteq> 0" and b: "hi e + 4096 < 2 ^ 64" and p: "gd_unusable_memory \<in> set p" "etype e \<in> set p"
  shows "\<exists>us ms. pieces p e us ms \<and>
    (\<forall>st. mmap_add_entry (Suc n) st e = andthen (add_list n st us) (\<lambda>st. add_list (Suc n) st ms))"
proof (cases "physical_start e AND 0xFFF = 0")
  case True
  then have "4096 dvd lo e" by (simp add: and_mask_dvd lo_def)
  with assms show ?thesis by (intro round_end)
next
  case False
  define q r where "q = lo e div 4096" and "r = lo e mod 4096"
  have "r \<noteq> 0" using False by (simp add: and_mask_dvd lo_def r_def dvd_eq_mod_eq_0)
  then have l: "lo e = q * 4096 + r" "0 < r" "r < 4096" by (simp_all add: q_def r_def)
  define u where "u = unusable_page (physical_start e)"
  define gap where "gap = 0x1000 - (physical_start e AND 0xFFF)"
  have gap: "unat gap = 4096 - r"
    using l(3) by (simp add: gap_def unat_diff word_le_nat_alt unat_and_mask r_def lo_def)
  have lh: "lo e < hi e" using z by (simp add: lo_def hi_def unat_gt_0)
  have pb: "unat (physical_start e) + 4096 < 2 ^ 64" using b by (simp add: hi_def)
  have u: "good p u" "etype u = gd_unusable_memory" "\<And>a. covers u a \<longleftrightarrow> a div 4096 = q"
    using unusable_page_good [OF pb p(1)] unusable_page_covers [OF pb] by (auto simp: u_def q_def lo_def)
  have step: "mmap_add_entry (Suc n) st e = andthen (mmap_add_entry n st u) (\<lambda>st.
      if esize e > gap then mmap_add_entry (Suc n) st (e\<lparr>esize := esize e - gap, physical_start := end_of u\<rparr>) else Inr st)" for st
    using add_round_start [OF False z b] by (simp only: u_def gap_def)
  show ?thesis
  proof (cases "esize e > gap")
    case False
    then have "hi e \<le> q * 4096 + 4096" using gap l by (simp add: hi_def lo_def word_less_nat_alt not_less)
    then have "partial_page e k \<longleftrightarrow> k = q" "\<not> whole_page e k" for k
      using page_start [OF l lh, of k] by (auto simp: partial_page_def whole_page_def)
    then have "pieces p e [u] []" using u by (simp add: pieces_def covered_def)
    moreover have "mmap_add_entry (Suc n) st e = andthen (add_list n st [u]) (\<lambda>st. add_list (Suc n) st [])" for st
      using False step by simp
    ultimately show ?thesis by blast
  next
    case True
    define e' where "e' = e\<lparr>esize := esize e - gap, physical_start := end_of u\<rparr>"
    have lo': "lo e' = q * 4096 + 4096"
      using pb by (simp add: e'_def lo_def u_def unusable_page_def zero_entry_def unat_word_ariths unat_page_base q_def)
    moreover have "unat (esize e - gap) = unat (esize e) - unat gap" using True by (simp add: unat_diff word_less_nat_alt word_le_nat_alt)
    ultimately have hi': "hi e' = hi e"
      using True gap l by (simp add: hi_def lo_def word_less_nat_alt e'_def)
    have "esize e' \<noteq> 0" "4096 dvd lo e'" using True lo' by (auto simp: e'_def)
    then obtain us ms where us: "pieces p e' us ms"
      "\<And>st. mmap_add_entry (Suc n) st e' = andthen (add_list n st us) (\<lambda>st. add_list (Suc n) st ms)"
      using round_end [of e' p n] hi' b p by (auto simp: e'_def)
    have "partial_page e k \<longleftrightarrow> k = q \<or> partial_page e' k" "whole_page e k \<longleftrightarrow> whole_page e' k" for k
      using page_start [OF l lh, of k] by (simp_all add: partial_page_def whole_page_def lo' hi')
    then have "pieces p e (u # us) ms" using us(1) u by (auto simp: pieces_def covered_def e'_def)
    moreover have "mmap_add_entry (Suc n) st e = andthen (add_list n st (u # us)) (\<lambda>st. add_list (Suc n) st ms)" for st
      unfolding step using True us(2) by (cases "mmap_add_entry n st u") (simp_all add: e'_def)
    ultimately show ?thesis by blast
  qed
qed

end
