(* ===== verification/Memory_Map_Whole.thy ===== *)
theory Memory_Map_Whole
  imports Memory_Map_Rounding
begin

text \<open>
  The operations on the whole map: \<open>gd_free_pages\<close>, \<open>mmap_clean\<close> and \<open>mmap_get\<close>; and the call of
  \<open>mmap_add_entry\<close> that ends in a panic on a well-formed map.
\<close>

section \<open>Freeing pages\<close>

lemma free_precedence_same: "set free_precedence = set default_precedence"
  by (auto simp: free_precedence_def default_precedence_def)

lemma precedence_default: "t \<in> set default_precedence \<longleftrightarrow> t \<noteq> gd_memory_force_size"
  by (cases t) (simp_all add: default_precedence_def)

lemma free_scan: "precedence_scan free_precedence u gd_conventional_memory =
    (if u = gd_unusable_memory then gd_unusable_memory else gd_conventional_memory)"
  by (cases u) (simp_all add: free_precedence_def)

lemma good_free: "good free_precedence e = good default_precedence e"
  by (simp add: good_def free_precedence_same)

definition freed_entry :: "addr \<Rightarrow> u64 \<Rightarrow> gd_memory_map_entry" where
  "freed_entry a count = zero_entry\<lparr>physical_start := a, esize := count * 4096, etype := gd_conventional_memory\<rparr>"

lemma freed_bounds:
  assumes "unat count * 4096 + unat a < 2 ^ 64"
  shows "lo (freed_entry a count) = unat a" "hi (freed_entry a count) = unat a + unat count * 4096"
  using assms by (auto simp: lo_def hi_def freed_entry_def zero_entry_def unat_word_ariths)

lemma freed_good:
  assumes "unat count * 4096 + unat a < 2 ^ 64" "count \<noteq> 0" "4096 dvd unat a"
  shows "good default_precedence (freed_entry a count)"
proof -
  have "hi (freed_entry a count) \<noteq> lo (freed_entry a count)" using freed_bounds [OF assms(1)] assms(2) by (simp add: unat_eq_zero)
  then have "esize (freed_entry a count) \<noteq> 0" by (auto simp: lo_def hi_def)
  then show ?thesis using freed_bounds [OF assms(1)] assms
    by (auto simp: good_def precedence_default) (simp add: freed_entry_def zero_entry_def)
qed

text \<open>The type map after the pages \<open>[l, h)\<close> have been freed.\<close>

definition released :: "nat \<Rightarrow> nat \<Rightarrow> gd_memory_type option \<Rightarrow> nat \<Rightarrow> gd_memory_type option" where
  "released l h t a = (if l \<le> a \<and> a < h \<and> t \<noteq> Some gd_unusable_memory then Some gd_conventional_memory else t)"

lemma overlay_free:
  assumes "etype e = gd_conventional_memory"
  shows "overlay free_precedence e t a = released (lo e) (hi e) t a"
  using assms by (cases t) (auto simp: overlay_def released_def covers_def free_scan)

lemma map_ok_prec:
  assumes "map_ok p st xs fs" "set q = set p"
  shows "map_ok q (st\<lparr>overlap_precedence := q\<rparr>) xs fs"
  using assms by (simp add: map_ok_def good_def)

lemma free_pages_ok:
  assumes ok: "map_ok default_precedence st xs fs" and a: "unat count * 4096 + unat a < 2 ^ 64" "count \<noteq> 0" "4096 dvd unat a"
    and ns: "no_stale_neighbour st fs (freed_entry a count)"
    and n: "2 * starts_in st xs (freed_entry a count) + 3 < n" and k: "starts_in st xs (freed_entry a count) + 2 \<le> avail st fs"
    and nt: "\<not> touching st xs (freed_entry a count)"
  shows "\<exists>st' xs' fs'. gd_free_pages n st a count = Inr (st', 0) \<and> map_ok default_precedence st' xs' fs' \<and>
    (\<forall>b. type_at (ents st') xs' b = released (unat a) (unat a + unat count * 4096) (type_at (ents st) xs b) b)"
proof -
  define e where "e = freed_entry a count"
  let ?st = "st\<lparr>overlap_precedence := free_precedence\<rparr>"
  have d: "overlap_precedence st = default_precedence" using ok by (simp add: map_ok_def)
  have ok': "map_ok free_precedence ?st xs fs" using map_ok_prec [OF ok free_precedence_same] .
  have g: "good free_precedence e" using freed_good [OF a] by (simp add: good_free e_def)
  have same: "no_stale_neighbour ?st fs e" "2 * starts_in ?st xs e + 3 < n" "starts_in ?st xs e + 2 \<le> avail ?st fs"
    "\<not> touching ?st xs e"
    using ns n k nt by (cases fs rule: remdups_adj.cases; simp add: starts_in_def touching_def e_def)+
  obtain st' xs' fs' where st': "mmap_add_entry n ?st e = Inr st'" "map_ok free_precedence st' xs' fs'"
    "\<And>b. type_at (ents st') xs' b = overlay free_precedence e (type_at (ents st) xs b) b"
    using add_entry_ok [OF ok' g same(1-3)] same(4) by (auto simp: outcome_ok_def split: sum.splits)
  have "gd_free_pages n st a count = Inr (st'\<lparr>overlap_precedence := default_precedence\<rparr>, 0)"
    using st'(1) d by (simp add: gd_free_pages_def e_def freed_entry_def Let_def)
  moreover have "map_ok default_precedence (st'\<lparr>overlap_precedence := default_precedence\<rparr>) xs' fs'"
    by (rule map_ok_prec [OF st'(2) free_precedence_same [symmetric]])
  moreover have "etype e = gd_conventional_memory" by (simp add: e_def freed_entry_def)
  then have "type_at (ents st') xs' b = released (unat a) (unat a + unat count * 4096) (type_at (ents st) xs b) b" for b
    using st'(3) [of b] overlay_free [of e] freed_bounds [OF a(1)] by (simp add: e_def)
  ultimately show ?thesis by fastforce
qed

section \<open>Cleaning and reading the map\<close>

lemma clean_from_ok: "rb_inv t xs \<Longrightarrow> \<exists>t'. clean_from t (first_or NULL xs) = Some t' \<and> rb_inv t' []"
proof (induction xs arbitrary: t)
  case Nil
  then show ?case by (simp add: clean_from.simps)
next
  case (Cons x xs)
  have "x \<noteq> NULL" using rb.elems_null [OF Cons.prems] by auto
  moreover obtain t1 where t1: "RB_REMOVE t x = Some (t1, x)" "rb_inv t1 xs"
    using rb.rem_elem [of t "[]" x xs] Cons.prems by auto
  moreover have "RB_NEXT t x = Some (first_or NULL xs)" using rb.nxt [of t "[]" x xs] Cons.prems by simp
  ultimately show ?case using Cons.IH [OF t1(2)] by (simp add: clean_from.simps [of t x])
qed

lemma copy_entries_ok: "copy_entries E xs tab = map E (take (length tab) xs) @ drop (length xs) tab"
  by (induction E xs tab rule: copy_entries.induct) simp_all

lemma mmap_clean_ok:
  assumes "mm st xs fs" and s: "static_slots \<noteq> NULL" "unat static_slots + 32 * 72 < 2 ^ 64"
  shows "\<exists>st'. mmap_clean static_slots st = Inr st' \<and> mm st' [] [] \<and> avail st' [] = 32 \<and>
    mmap_key st' = mmap_key st \<and> overlap_precedence st' = overlap_precedence st"
proof -
  have inv: "rb_inv (mmap st) xs" using assms by (simp add: mm_def)
  obtain t where t: "clean_from (mmap st) (first_or NULL xs) = Some t" "rb_inv t []" using clean_from_ok [OF inv] by blast
  let ?st = "st\<lparr>mmap := t, alloc_next := static_slots, allocatable := MMAP_STATIC_SLOTS, last_freed := NULL\<rparr>"
  have "mmap_clean static_slots st = Inr ?st"
    using t(1) rb.fst_elem [OF inv] by (simp add: mmap_clean_def)
  moreover have "unat MMAP_STATIC_SLOTS = 32" by (simp add: MMAP_STATIC_SLOTS_def)
  moreover have "NULL \<notin> set (slots_from static_slots 32)"
    using slots_from_range [of static_slots 32 NULL] s by (auto simp: unat_eq_zero)
  ultimately show ?thesis using t(2) slots_from_distinct [of static_slots 32] s
    by (auto simp: mm_def unused_def avail_def)
qed

section \<open>A panic on a well-formed map\<close>

lemma add_entry_panics:
  assumes ok: "map_ok p st (as @ w # y # cs) fs" and g: "good p e" and av: "0 < avail st fs"
    and e: "lo e = lo (ents st w)" "hi (ents st w) < hi e" and y: "lo (ents st y) = hi (ents st w)"
  shows "mmap_add_entry (Suc n) st e = Inl bad_tree"
proof -
  have mm: "mm st (as @ w # y # cs) fs" and srt: "sorted_wrt (below (ents st)) (as @ w # y # cs)"
    and gd: "\<And>x. x \<in> set (as @ w # y # cs) \<Longrightarrow> good p (ents st x)" using ok by (auto simp: map_ok_def)
  obtain st1 x fs1 where st1: "mmap_alloc_entry st = Inr (st1, x)" "mm st1 (as @ w # y # cs) fs1"
    "fresh st1 (as @ w # y # cs) fs1 x" "ents st1 = ents st" "overlap_precedence st1 = overlap_precedence st"
    using alloc_ok [OF mm av] by metis
  define st2 where "st2 = upd_ent (\<lambda>_. e) x st1"
  have x: "x \<noteq> NULL" "x \<notin> set (as @ w # y # cs)" using st1(3) by (auto simp: fresh_def)
  have E: "ents st2 z = (if z = x then e else ents st z)" for z using st1(4) by (simp add: st2_def)
  have lt: "start_of st z < start_of st z'" if "below (ents st) z z'" "z \<in> set (as @ w # y # cs)" "z' \<in> set (as @ w # y # cs)" for z z'
    using below_less [OF that(1) gd [OF that(2)] gd [OF that(3)]] .
  have st: "physical_start e = start_of st w" using e(1) by (simp add: lo_def word_unat_eq_iff)
  have hit: "RB_INSERT (mmap_entry_cmp st2) (mmap st2) x = Some (mmap st2, w)"
  proof (rule insert_hit)
    show "mm st2 (as @ w # y # cs) fs1" using st1(2) by (simp add: st2_def)
    show "start_of st2 x = start_of st2 w" using st x by (simp add: E)
    show "\<forall>z\<in>set as. start_of st2 z < start_of st2 x"
      using srt x st by (auto simp: E sorted_wrt_append intro!: lt)
    show "\<forall>z\<in>set (y # cs). start_of st2 x < start_of st2 z"
      using srt x st by (auto simp: E sorted_wrt_append intro!: lt)
  qed
  define ty where "ty = higher_precedence st2 (etype (ents st2 w)) (etype (ents st2 x))"
  define st3 where "st3 = upd_ent (\<lambda>d. d\<lparr>esize := esize d - esize (ents st w), physical_start := physical_start d + esize (ents st w)\<rparr>) x
    (upd_ent (\<lambda>d. d\<lparr>etype := ty\<rparr>) w st2)"
  have "end_of (ents st w) = start_of st y" using good_end [of p "ents st w"] gd [of w] y by (simp add: lo_def word_unat_eq_iff)
  then have S: "start_of st3 x = start_of st y" "\<And>z. z \<noteq> x \<Longrightarrow> start_of st3 z = start_of st z"
    using x st by (auto simp: st3_def E)
  have hit2: "RB_INSERT (mmap_entry_cmp st3) (mmap st3) x = Some (mmap st3, y)"
  proof (rule insert_hit)
    show "mm st3 ((as @ [w]) @ y # cs) fs1" using st1(2) by (simp add: st2_def st3_def)
    show "start_of st3 x = start_of st3 y" using S(1) S(2) [of y] x by auto
    have ne: "z \<noteq> x" if "z \<in> set (as @ w # y # cs)" for z using x(2) that by blast
    show "\<forall>z\<in>set (as @ [w]). start_of st3 z < start_of st3 x"
      unfolding S(1) using srt by (intro ballI, subst S(2)) (auto intro!: ne lt simp: sorted_wrt_append)
    show "\<forall>z\<in>set cs. start_of st3 x < start_of st3 z"
      unfolding S(1) using srt by (intro ballI, subst S(2)) (auto intro!: ne lt simp: sorted_wrt_append)
  qed
  have "w \<noteq> NULL" "y \<noteq> NULL" using mm_not_null [OF mm] by auto
  moreover have "esize (ents st w) \<noteq> esize e" "\<not> esize e < esize (ents st w)"
    using e st by (auto simp: hi_def lo_def word_less_nat_alt)
  moreover have "st2\<lparr>mmap := mmap st2\<rparr> = st2" by simp
  moreover have sz: "esize (ents st2 w) = esize (ents st w)" "esize (ents st2 x) = esize e" using x by (auto simp: E)
  ultimately have "place_entry (fix_overlap n) st2 x = Inl bad_tree"
    using hit hit2 unfolding place_entry_def st3_def ty_def by (simp add: Let_def)
  then have "insert_entry (fix_overlap n) st e = Inl bad_tree"
    using st1(1) x(1) by (simp add: insert_entry_def st2_def)
  then show ?thesis using add_aligned [OF g, of n st] by simp
qed

end
