(* ===== verification/Memory_Map_Properties.thy ===== *)
theory Memory_Map_Properties
  imports Memory_Map_Whole RB_Properties
begin

text \<open>
  What the functions of \<^verbatim>\<open>bal/mmap.c\<close> promise to their callers, with instances on a concrete map.
\<close>

section \<open>Concrete maps\<close>

text \<open>
  One structure, at address 16, for the conventional memory \<open>[0x1000, 0x5000)\<close>; the supply is the
  array of 32 structures at \<open>0x10000\<close>.
\<close>

definition ram_entry :: "u64 \<Rightarrow> u64 \<Rightarrow> gd_memory_type \<Rightarrow> gd_memory_map_entry" where
  "ram_entry a z t = \<lparr>etype = t, physical_start = a, virtual_start = 0, esize = z, attributes = 0\<rparr>"

definition one_node :: rb_tree where
  "one_node = \<lparr>rbn = (\<lambda>_. \<lparr>rbe_left = 0, rbe_right = 0, rbe_parent = 0, rbe_color = RB_BLACK\<rparr>), rbh_root = 16\<rparr>"

definition sample_map :: mmap_state where
  "sample_map = \<lparr>mmap = one_node, ents = (\<lambda>_. zero_entry)(16 := ram_entry 0x1000 0x4000 gd_conventional_memory),
     last_freed = NULL, alloc_next = 0x10000, allocatable = 32, mmap_key = 7, overlap_precedence = default_precedence\<rparr>"

lemma one_node_inv: "rb_inv one_node [16]"
  unfolding rb_inv_def
  by (intro exI [of _ "Bk Lf 16 Lf"] exI [of _ "Suc 0"]) (simp add: tree_at_def one_node_def)

lemma slots_not_in: "unat a + k * 72 < 2 ^ 64 \<Longrightarrow> unat w < unat a \<Longrightarrow> w \<notin> set (slots_from a k)"
  using slots_from_range [of a k w] by auto

lemma ram_good: "good default_precedence (ram_entry 0x1000 0x4000 gd_conventional_memory)"
  by (simp add: good_def ram_entry_def lo_def hi_def precedence_default)

lemma sample_map_ok: "map_ok default_precedence sample_map [16] []"
  using one_node_inv ram_good slots_not_in [of "0x10000" 32 16] slots_not_in [of "0x10000" 32 0] slots_from_distinct [of "0x10000" 32]
  by (simp add: map_ok_def mm_def unused_def sample_map_def)

text \<open>Two structures, for \<open>[0x1000, 0x5000)\<close> and loader data in \<open>[0x5000, 0x6000)\<close>.\<close>

definition full_map :: mmap_state where
  "full_map = \<lparr>mmap = sample_tree, ents = (\<lambda>_. zero_entry)(16 := ram_entry 0x1000 0x4000 gd_conventional_memory,
       32 := ram_entry 0x5000 0x1000 gd_loader_data),
     last_freed = NULL, alloc_next = 0x10000, allocatable = 32, mmap_key = 7, overlap_precedence = default_precedence\<rparr>"

lemma full_map_ok: "map_ok default_precedence full_map [16, 32] []"
  using sample_tree_inv slots_not_in [of "0x10000" 32 16] slots_not_in [of "0x10000" 32 32] slots_not_in [of "0x10000" 32 0]
    slots_from_distinct [of "0x10000" 32]
  by (simp add: map_ok_def mm_def unused_def full_map_def good_def ram_entry_def lo_def hi_def below_def precedence_default)

section \<open>Adding a region\<close>

text \<open>C1. Adding a page-aligned region to a well-formed map gives every address the type of higher
  precedence: the result is a well-formed map (tree, free list and supply disjoint and intact,
  regions sorted, disjoint, page-aligned) whose type at each address is the old one outside the
  region, and inside it the one of the two that comes first in \<open>overlap_precedence\<close>.  The call
  returns; the only other outcome is the panic of the source, and only if two old regions that
  start in the new one touch each other.

  This is claimed under two conditions on the state.  At least two structures more than there are
  old regions starting in the new one are available (on the free list or in the supply): the call
  then never refills the supply and never runs out of memory.  And \<open>no_stale_neighbour\<close>: the second
  structure of the free list does not describe a freed region of the new one's type that ends where
  the new one starts.  Without it \<open>merge_adjacent\<close> may be called on the new structure after
  \<open>fix_overlap\<close> has freed it, and merge it with that freed one (a defect of the code).  The bound
  \<open>n\<close> on the recursion depth is enough as soon as it exceeds twice the number of old regions
  starting in the new one by more than three.\<close>

theorem mmap_add_entry_overlays:
  assumes "map_ok p st xs fs" and "good p e" and "no_stale_neighbour st fs e"
    and "2 * starts_in st xs e + 3 < n" and "starts_in st xs e + 2 \<le> avail st fs"
  shows "(\<exists>st' xs' fs'. mmap_add_entry n st e = Inr st' \<and> map_ok p st' xs' fs' \<and>
      (\<forall>a. type_at (ents st') xs' a = overlay p e (type_at (ents st) xs a) a)) \<or>
    touching st xs e \<and> mmap_add_entry n st e = Inl bad_tree"
  using add_entry_ok [OF assms] by (auto simp: outcome_ok_def split: sum.splits)

theorem mmap_add_entry_overlays_witness:
  "\<exists>st' xs'. mmap_add_entry 6 sample_map (ram_entry 0x2000 0x1000 gd_loader_data) = Inr st' \<and>
    type_at (ents st') xs' 0x2800 = Some gd_loader_data \<and> type_at (ents st') xs' 0x1800 = Some gd_conventional_memory"
proof -
  let ?e = "ram_entry 0x2000 0x1000 gd_loader_data"
  have "good default_precedence ?e" by (simp add: good_def ram_entry_def lo_def hi_def precedence_default)
  moreover have "\<not> touching sample_map [16] ?e" "starts_in sample_map [16] ?e = 0" "avail sample_map [] = 32"
    by (simp_all add: touching_def starts_in_def sample_map_def ram_entry_def lo_def hi_def avail_def)
  moreover have "overlay default_precedence ?e (type_at (ents sample_map) [16] 0x2800) 0x2800 = Some gd_loader_data"
    "overlay default_precedence ?e (type_at (ents sample_map) [16] 0x1800) 0x1800 = Some gd_conventional_memory"
    by (simp_all add: overlay_def sample_map_def ram_entry_def covers_def lo_def hi_def default_precedence_def)
  moreover obtain st' xs' where "mmap_add_entry 6 sample_map ?e = Inr st'"
    "\<And>a. type_at (ents st') xs' a = overlay default_precedence ?e (type_at (ents sample_map) [16] a) a"
    using mmap_add_entry_overlays [OF sample_map_ok, of ?e 6] calculation by auto
  ultimately show ?thesis by (intro exI [of _ st'] exI [of _ xs']) simp
qed

text \<open>C25. A region that is not made of whole pages: \<open>mmap_add_entry\<close> first adds, as unusable memory,
  the pages that the region covers only in part, and then the pages that it covers wholly, with the
  type and the attributes of the region, and nothing else.\<close>

theorem mmap_add_entry_rounds:
  assumes "esize e \<noteq> 0" and "hi e + 4096 < 2 ^ 64" and "gd_unusable_memory \<in> set p" and "etype e \<in> set p"
  shows "\<exists>us ms. pieces p e us ms \<and>
    (\<forall>st. mmap_add_entry (Suc n) st e = andthen (add_list n st us) (\<lambda>st. add_list (Suc n) st ms))"
  using assms by (rule round_region)

theorem mmap_add_entry_rounds_witness:
  "\<exists>us ms. pieces default_precedence (ram_entry 0x1800 0x2000 gd_loader_data) us ms \<and>
    covered us 0x1000 \<and> covered ms 0x2000 \<and> \<not> covered ms 0x3000"
proof -
  let ?e = "ram_entry 0x1800 0x2000 gd_loader_data"
  have e: "esize ?e \<noteq> 0" "hi ?e = 0x3800" "lo ?e = 0x1800" "etype ?e = gd_loader_data"
    by (simp_all add: ram_entry_def hi_def lo_def)
  then obtain us ms where "pieces default_precedence ?e us ms"
    using mmap_add_entry_rounds [of ?e default_precedence 1] by (auto simp: precedence_default)
  moreover have "partial_page ?e (0x1000 div 4096)" "whole_page ?e (0x2000 div 4096)" "\<not> whole_page ?e (0x3000 div 4096)"
    by (simp_all add: partial_page_def whole_page_def e)
  ultimately show ?thesis unfolding pieces_def by blast
qed

text \<open>\<open>mmap_add_entry\<close> panics on a well-formed map and a legal region that starts where an old
  region starts and reaches beyond it, if another region starts where the old one ends.\<close>

theorem mmap_add_entry_panics:
  assumes "map_ok p st (as @ w # y # cs) fs" and "good p e" and "0 < avail st fs"
    and "lo e = lo (ents st w)" and "hi (ents st w) < hi e" and "lo (ents st y) = hi (ents st w)"
  shows "mmap_add_entry (Suc n) st e = Inl bad_tree"
  using assms by (rule add_entry_panics)

theorem mmap_add_entry_panics_witness:
  "mmap_add_entry 9 full_map (ram_entry 0x1000 0x5000 gd_conventional_memory) = Inl bad_tree"
proof -
  have "mmap_add_entry (Suc 8) full_map (ram_entry 0x1000 0x5000 gd_conventional_memory) = Inl bad_tree"
    by (rule mmap_add_entry_panics [of default_precedence full_map "[]" 16 32 "[]" "[]"])
      (use full_map_ok in \<open>simp_all add: full_map_def ram_entry_def lo_def hi_def avail_def good_def precedence_default\<close>)
  then show ?thesis by simp
qed

text \<open>\<open>merge_adjacent\<close> returns on every structure of a well-formed map, keeps the map well formed,
  loses no structure and changes the type of no address.\<close>

theorem merge_adjacent_keeps_types:
  assumes "map_ok p st (as @ m # bs) fs"
  shows "\<exists>st' xs' fs'. merge_adjacent st m = Inr st' \<and> map_ok p st' xs' fs' \<and> avail st fs \<le> avail st' fs' \<and>
    (\<forall>a. type_at (ents st') xs' a = type_at (ents st) (as @ m # bs) a)"
proof -
  have ok: "mm st (as @ m # bs) fs" "sorted_wrt (below (ents st)) (as @ m # bs)"
    "\<forall>x\<in>set (as @ m # bs). good p (ents st x)" "overlap_precedence st = p" using assms by (auto simp: map_ok_def)
  then have "tailwf p (ents st) as (m # bs)" "sorted_wrt (below (ents st)) as"
    by (auto simp: tailwf_def sorted_wrt_append)
  with merge_ok [OF ok(1)] settled_types [of p st as "ents st" "as @ m # bs"] ok show ?thesis by metis
qed

theorem merge_adjacent_keeps_types_witness:
  "\<exists>st' xs'. merge_adjacent full_map 16 = Inr st' \<and> type_at (ents st') xs' 0x5000 = Some gd_loader_data"
proof -
  have "type_at (ents full_map) [16, 32] 0x5000 = Some gd_loader_data"
    by (simp add: full_map_def ram_entry_def covers_def lo_def hi_def)
  then show ?thesis
    using merge_adjacent_keeps_types [of default_precedence full_map "[]" 16 "[32]" "[]"] full_map_ok by (metis append_Nil)
qed

section \<open>Allocating and freeing pages\<close>

text \<open>C5. \<open>gd_alloc_pages\<close> of a non-zero number of pages whose size in bytes is below \<open>2^64\<close> (a larger
  count wraps in the comparison with the size of the region), with at least one structure available
  (otherwise the refill may carve its page out of the pages being handed out): if a region of
  conventional memory is large enough, the call returns 0 and the address of pages that were conventional memory; exactly these
  pages have the requested type afterwards and the map is well formed.  Otherwise it returns
  \<open>ENOMEM\<close> and changes nothing.\<close>

theorem gd_alloc_pages_takes:
  assumes "map_ok p st xs fs" and "t \<in> set p" and "count \<noteq> 0" and "unat count * 4096 < 2 ^ 64" and "0 < avail st fs"
  shows "if \<exists>x\<in>set xs. alloc_suits st count x
    then \<exists>st' a. gd_alloc_pages st t count = Inr (st', 0, Some a) \<and> taken p st xs (unat count * 4096) t st' a
    else gd_alloc_pages st t count = Inr (st, ENOMEM, None)"
  using assms by (rule alloc_pages_ok)

theorem gd_alloc_pages_takes_witness:
  "(\<exists>st' a. gd_alloc_pages sample_map gd_loader_data 2 = Inr (st', 0, Some a) \<and>
     taken default_precedence sample_map [16] 0x2000 gd_loader_data st' a) \<and>
   gd_alloc_pages sample_map gd_loader_data 5 = Inr (sample_map, ENOMEM, None)"
proof -
  have "alloc_suits sample_map 2 16" "\<not> alloc_suits sample_map 5 16" "0 < avail sample_map []"
    by (simp_all add: alloc_suits_def sample_map_def ram_entry_def avail_def)
  then show ?thesis
    using gd_alloc_pages_takes [OF sample_map_ok, of gd_loader_data 2] gd_alloc_pages_takes [OF sample_map_ok, of gd_loader_data 5]
    by (simp add: precedence_default)
qed



text \<open>C6. \<open>gd_free_pages\<close> of at least one page, at a page-aligned address, in a range that ends below
  \<open>2^64\<close>, returns 0 and makes the pages conventional memory, except those that are unusable; all
  other addresses keep their type, the map stays well formed and the usual precedence table is back.

  The conditions on the state are those of \<open>mmap_add_entry\<close>, which does the work: enough structures
  are available for it never to refill the supply, no structure freed before looks like a
  conventional neighbour of the range (\<open>no_stale_neighbour\<close>; otherwise the call may work on a freed
  structure), and no two regions that start in the range touch each other (otherwise the call may
  panic).\<close>

theorem gd_free_pages_releases:
  assumes "map_ok default_precedence st xs fs" and "unat count * 4096 + unat a < 2 ^ 64" and "count \<noteq> 0" and "4096 dvd unat a"
    and "no_stale_neighbour st fs (freed_entry a count)"
    and "2 * starts_in st xs (freed_entry a count) + 3 < n" and "starts_in st xs (freed_entry a count) + 2 \<le> avail st fs"
    and "\<not> touching st xs (freed_entry a count)"
  shows "\<exists>st' xs' fs'. gd_free_pages n st a count = Inr (st', 0) \<and> map_ok default_precedence st' xs' fs' \<and>
    (\<forall>b. type_at (ents st') xs' b = released (unat a) (unat a + unat count * 4096) (type_at (ents st) xs b) b)"
  using assms by (rule free_pages_ok)

theorem gd_free_pages_releases_witness:
  "\<exists>st' xs'. gd_free_pages 9 full_map 0x5000 1 = Inr (st', 0) \<and> type_at (ents st') xs' 0x5800 = Some gd_conventional_memory"
proof -
  let ?e = "freed_entry 0x5000 1"
  have "\<not> touching full_map [16, 32] ?e" "starts_in full_map [16, 32] ?e = 1" "avail full_map [] = 32"
    by (simp_all add: touching_def starts_in_def full_map_def ram_entry_def freed_entry_def zero_entry_def lo_def hi_def avail_def)
  then obtain st' xs' where "gd_free_pages 9 full_map 0x5000 1 = Inr (st', 0)"
    "\<And>b. type_at (ents st') xs' b = released 0x5000 0x6000 (type_at (ents full_map) [16, 32] b) b"
    using gd_free_pages_releases [OF full_map_ok, of 1 "0x5000" 9] by auto
  moreover have "type_at (ents full_map) [16, 32] 0x5800 = Some gd_loader_data"
    by (simp add: full_map_def ram_entry_def covers_def lo_def hi_def)
  ultimately show ?thesis by (intro exI [of _ st'] exI [of _ xs']) (simp add: released_def)
qed

section \<open>The whole map\<close>

text \<open>\<open>mmap_clean\<close> empties the map: afterwards the tree holds no structure, the free list is
  empty and the 32 static structures are available; the key is kept.\<close>

theorem mmap_clean_empties:
  assumes "mm st xs fs" and "static_slots \<noteq> NULL" and "unat static_slots + 32 * 72 < 2 ^ 64"
  shows "\<exists>st'. mmap_clean static_slots st = Inr st' \<and> mm st' [] [] \<and> avail st' [] = 32 \<and>
    mmap_key st' = mmap_key st \<and> overlap_precedence st' = overlap_precedence st"
  using assms by (rule mmap_clean_ok)

theorem mmap_clean_empties_witness:
  "\<exists>st'. mmap_clean 0x10000 full_map = Inr st' \<and> mm st' [] []"
  using mmap_clean_empties [of full_map "[16, 32]" "[]" "0x10000"] full_map_ok by (auto simp: map_ok_def)

text \<open>\<open>mmap_get\<close> copies the regions in the order of their addresses into the table, as many as fit,
  leaves the rest of the table alone, and reports the number of regions and the key.\<close>

theorem mmap_get_copies:
  assumes "mm st xs fs"
  shows "mmap_get st tab = Inr (map (ents st) (take (length tab) xs) @ drop (length xs) tab, of_nat (length xs), mmap_key st)"
  using assms RB_FOREACH_spec [of "mmap st" xs] by (simp add: mmap_get_def copy_entries_ok mm_def)

theorem mmap_get_copies_witness:
  "mmap_get full_map [zero_entry] = Inr ([ram_entry 0x1000 0x4000 gd_conventional_memory], 2, 7)"
  using mmap_get_copies [of full_map "[16, 32]" "[]" "[zero_entry]"] full_map_ok
  by (simp add: map_ok_def full_map_def)

end
