(* ===== verification/Byte_Memory.thy ===== *)
theory Byte_Memory
  imports Gandr_Prelude
begin

text \<open>
  Memory as bytes, for the data that the program shares with firmware and devices: little-endian
  members of packed structures, and the laws of loads and stores.
\<close>

type_synonym bytes = "addr \<Rightarrow> u8"

section \<open>Blocks of bytes\<close>

fun store_bytes :: "bytes \<Rightarrow> addr \<Rightarrow> u8 list \<Rightarrow> bytes" where
  "store_bytes m a [] = m"
| "store_bytes m a (b # bs) = store_bytes (m(a := b)) (a + 1) bs"

fun load_bytes :: "bytes \<Rightarrow> addr \<Rightarrow> nat \<Rightarrow> u8 list" where
  "load_bytes m a 0 = []"
| "load_bytes m a (Suc n) = m a # load_bytes m (a + 1) n"

text \<open>The addresses of a block of \<open>n\<close> bytes, which may wrap around.\<close>

definition in_block :: "addr \<Rightarrow> nat \<Rightarrow> addr \<Rightarrow> bool" where
  "in_block a n x \<longleftrightarrow> unat (x - a) < n"

lemma length_load_bytes [simp]: "length (load_bytes m a n) = n"
  by (induction m a n rule: load_bytes.induct) simp_all

lemma in_block_Suc: "in_block a (Suc n) x \<longleftrightarrow> x = a \<or> in_block (a + 1) n x"
proof (cases "x = a")
  case False
  then have "x - a \<noteq> 0" by simp
  then have "unat (x - a - 1) = unat (x - a) - 1" "0 < unat (x - a)" by (simp_all add: unat_minus_one unat_gt_0)
  then show ?thesis using False by (auto simp: in_block_def diff_diff_eq)
qed (simp add: in_block_def)

lemma in_block_0 [simp]: "\<not> in_block a 0 x"
  by (simp add: in_block_def)

lemma load_bytes_cong: "(\<And>x. in_block a n x \<Longrightarrow> m' x = m x) \<Longrightarrow> load_bytes m' a n = load_bytes m a n"
  by (induction m a n rule: load_bytes.induct) (auto simp: in_block_Suc)

lemma store_bytes_other: "\<not> in_block a (length bs) x \<Longrightarrow> store_bytes m a bs x = m x"
  by (induction m a bs rule: store_bytes.induct) (auto simp: in_block_Suc)

lemma not_in_tail: "n < 2 ^ 64 \<Longrightarrow> \<not> in_block (a + 1) n a"
proof -
  assume "n < 2 ^ 64"
  moreover have "a - (a + 1) = (- 1 :: addr)" by simp
  then have "unat (a - (a + 1)) = 2 ^ 64 - 1" by (simp only:) (simp add: unsigned_minus_1_eq_mask mask_eq_exp_minus_1)
  ultimately show ?thesis by (simp add: in_block_def)
qed

lemma load_store_bytes: "length bs \<le> 2 ^ 64 \<Longrightarrow> load_bytes (store_bytes m a bs) a (length bs) = bs"
proof (induction bs arbitrary: m a)
  case (Cons b bs)
  then have "store_bytes (m(a := b)) (a + 1) bs a = b" by (subst store_bytes_other) (auto intro!: not_in_tail)
  with Cons show ?case by simp
qed simp

lemma load_store_other:
  assumes "\<And>x. in_block a n x \<Longrightarrow> \<not> in_block b (length bs) x"
  shows "load_bytes (store_bytes m b bs) a n = load_bytes m a n"
  using assms by (intro load_bytes_cong) (simp add: store_bytes_other)

lemma load_bytes_append: "load_bytes m a (k + n) = load_bytes m a k @ load_bytes m (a + of_nat k) n"
  by (induction m a k rule: load_bytes.induct) (simp_all add: ac_simps)

lemma store_bytes_append: "store_bytes m a (bs @ cs) = store_bytes (store_bytes m a bs) (a + of_nat (length bs)) cs"
  by (induction bs arbitrary: m a) (simp_all add: ac_simps)

lemma nth_load_bytes: "i < n \<Longrightarrow> load_bytes m a n ! i = m (a + of_nat i)"
proof (induction m a n arbitrary: i rule: load_bytes.induct)
  case (2 m a n)
  then show ?case by (cases i) (simp_all add: ac_simps)
qed simp

lemma in_block_range: "unat a + n < 2 ^ 64 \<Longrightarrow> in_block a n x \<Longrightarrow> unat a \<le> unat x \<and> unat x < unat a + n"
proof -
  assume a: "unat a + n < 2 ^ 64" and "in_block a n x"
  then have d: "unat (x - a) < n" by (simp add: in_block_def)
  have "x = a + (x - a)" by simp
  then have "unat x = unat (a + (x - a))" by simp
  also have "\<dots> = unat a + unat (x - a)" using a d by (simp only: unat_word_ariths) simp
  finally show ?thesis using d by simp
qed

lemma load_store_apart:
  assumes "unat a + n \<le> unat b \<or> unat b + length bs \<le> unat a" "unat a + n < 2 ^ 64" "unat b + length bs < 2 ^ 64"
  shows "load_bytes (store_bytes m b bs) a n = load_bytes m a n"
proof (rule load_store_other)
  show "\<not> in_block b (length bs) x" if "in_block a n x" for x
    using in_block_range[OF assms(2) that] in_block_range[OF assms(3), of x] assms(1) by auto
qed

section \<open>Little-endian integers\<close>

fun le_word :: "u8 list \<Rightarrow> 'a::len word" where
  "le_word [] = 0"
| "le_word (b # bs) = ucast b OR push_bit 8 (le_word bs)"

fun word_le :: "nat \<Rightarrow> 'a::len word \<Rightarrow> u8 list" where
  "word_le 0 w = []"
| "word_le (Suc n) w = ucast w # word_le n (drop_bit 8 w)"

lemma length_word_le [simp]: "length (word_le n w) = n"
  by (induction n w rule: word_le.induct) simp_all

lemma le_word_le: "le_word (word_le n w) = take_bit (8 * n) w"
proof (induction n w rule: word_le.induct)
  case (2 n w)
  then show ?case
    by (simp add: bit_eq_iff bit_simps) (auto simp: not_le)
qed simp

lemma le_word_word_le [simp]: "LENGTH('a) \<le> 8 * n \<Longrightarrow> le_word (word_le n w) = (w :: 'a::len word)"
  by (simp add: le_word_le take_bit_word_eq_self)

abbreviation load16 :: "bytes \<Rightarrow> addr \<Rightarrow> u16" where
  "load16 m a \<equiv> le_word (load_bytes m a 2)"

abbreviation load32 :: "bytes \<Rightarrow> addr \<Rightarrow> u32" where
  "load32 m a \<equiv> le_word (load_bytes m a 4)"

abbreviation load64 :: "bytes \<Rightarrow> addr \<Rightarrow> u64" where
  "load64 m a \<equiv> le_word (load_bytes m a 8)"

end
