(* ===== verification/Bios_Services.thy ===== *)
theory Bios_Services
  imports Byte_Memory
begin

text \<open>
  Calls of the real-mode firmware (\<^verbatim>\<open>bal/platform/bios/bios_services.c\<close> and its header).  The C part
  pushes the registers on the real-mode stack, jumps into the transition vector and reads the
  registers back.  The transition vector is assembly in stage 1 and the firmware behind it is not
  part of the repository: both are the parameter \<open>int_entry\<close> (\<open>far_entry\<close> for far calls) of the
  platform, a function of the state of the machine.
\<close>

section \<open>The machine\<close>

text \<open>The bytes of memory, and the state \<open>'w\<close> of firmware and devices, which the model does not look into.\<close>

record 'w machine =
  mem :: bytes
  world :: 'w

record bios_registers =
  ds :: u16
  es :: u16
  fs :: u16
  gs :: u16
  edi :: u32
  esi :: u32
  ebp :: u32
  esp :: u32
  ebx :: u32
  edx :: u32
  ecx :: u32
  eax :: u32
  eflags :: u32

definition zero_registers :: bios_registers where
  "zero_registers = \<lparr>ds = 0, es = 0, fs = 0, gs = 0, edi = 0, esi = 0, ebp = 0, esp = 0, ebx = 0,
     edx = 0, ecx = 0, eax = 0, eflags = 0\<rparr>"

definition carry_flag :: u32 where
  "carry_flag = 1"

record bios_service_table =
  magic :: u32
  tsize :: u32
  rm_stack :: u32
  far_call_ptr :: u32
  int_call_ptr :: u32

text \<open>
  What lies outside of the C code: the service table, the transition vectors (the target, the
  interrupt number and the real-mode stack pointer are their arguments) and the I/O ports.
\<close>

record 'w platform =
  bios_services :: bios_service_table
  int_entry :: "u32 \<Rightarrow> u8 \<Rightarrow> addr \<Rightarrow> 'w machine \<Rightarrow> 'w machine"
  far_entry :: "u32 \<Rightarrow> addr \<Rightarrow> 'w machine \<Rightarrow> 'w machine"
  port_in :: "u16 \<Rightarrow> 'w machine \<Rightarrow> u8 \<times> 'w machine"
  port_out :: "u16 \<Rightarrow> u8 \<Rightarrow> 'w machine \<Rightarrow> 'w machine"

section \<open>Real-mode pointers\<close>

definition rm_seg_from_ptr :: "addr \<Rightarrow> u16" where
  "rm_seg_from_ptr v = ucast (drop_bit 4 v)"

definition rm_offset_from_ptr :: "addr \<Rightarrow> u16" where
  "rm_offset_from_ptr v = ucast (v AND 0x000F)"

definition rm_far_from_ptr :: "addr \<Rightarrow> u32" where
  "rm_far_from_ptr v = ucast ((push_bit 12 v AND 0xFFFF0000) OR (v AND 0x0F))"

definition rm_ptr_from_far :: "u32 \<Rightarrow> addr" where
  "rm_ptr_from_far fp = ucast ((drop_bit 12 fp AND 0x000FFFF0) + (fp AND 0xFFFF))"

section \<open>Calls\<close>

definition sizeof_bios_registers :: nat where
  "sizeof_bios_registers = 44"

definition regs_bytes :: "bios_registers \<Rightarrow> u8 list" where
  "regs_bytes r = word_le 2 (ds r) @ word_le 2 (es r) @ word_le 2 (fs r) @ word_le 2 (gs r) @
     word_le 4 (edi r) @ word_le 4 (esi r) @ word_le 4 (ebp r) @ word_le 4 (esp r) @ word_le 4 (ebx r) @
     word_le 4 (edx r) @ word_le 4 (ecx r) @ word_le 4 (eax r) @ word_le 4 (eflags r)"

definition load_regs :: "bytes \<Rightarrow> addr \<Rightarrow> bios_registers" where
  "load_regs m a = \<lparr>ds = load16 m a, es = load16 m (a + 2), fs = load16 m (a + 4), gs = load16 m (a + 6),
     edi = load32 m (a + 8), esi = load32 m (a + 12), ebp = load32 m (a + 16), esp = load32 m (a + 20),
     ebx = load32 m (a + 24), edx = load32 m (a + 28), ecx = load32 m (a + 32), eax = load32 m (a + 36),
     eflags = load32 m (a + 40)\<rparr>"

definition push :: "bytes \<times> addr \<Rightarrow> u8 list \<Rightarrow> bytes \<times> addr" where
  "push = (\<lambda>(m, sp) bs. let sp = sp - of_nat (length bs) in (store_bytes m sp bs, sp))"

definition bios_far_call ::
  "'w platform \<Rightarrow> u32 \<Rightarrow> bios_registers \<Rightarrow> u8 list \<Rightarrow> 'w machine \<Rightarrow> bios_registers \<times> 'w machine" where
  "bios_far_call pf address regs stack_data mc =
     (let (m, sp) = push (push (push (push (mem mc, ucast (rm_stack (bios_services pf))) (word_le 4 (0 :: u32)))
            stack_data) (word_le 4 address)) (regs_bytes regs);
          mc = far_entry pf (far_call_ptr (bios_services pf)) sp (mc\<lparr>mem := m\<rparr>)
      in (load_regs (mem mc) sp, mc))"

definition bios_int_call ::
  "'w platform \<Rightarrow> u8 \<Rightarrow> bios_registers \<Rightarrow> 'w machine \<Rightarrow> bios_registers \<times> 'w machine" where
  "bios_int_call pf num regs mc =
     (let (m, sp) = push (push (mem mc, ucast (rm_stack (bios_services pf))) (word_le 4 (0 :: u32))) (regs_bytes regs);
          mc = int_entry pf (int_call_ptr (bios_services pf)) num sp (mc\<lparr>mem := m\<rparr>)
      in (load_regs (mem mc) sp, mc))"

section \<open>Laws of the real-mode pointers\<close>

lemma low_megabyte: "v < 0x100000 \<Longrightarrow> take_bit 20 v = (v :: addr)"
  by (simp add: take_bit_word_eq_self word_less_nat_alt) (simp add: word_unat_eq_iff unat_take_bit)

lemma seg_offset:
  assumes "v < 0x100000"
  shows "ucast (rm_seg_from_ptr v) * 16 + ucast (rm_offset_from_ptr v) = (v :: addr)"
proof -
  have v: "unat v < 0x100000" using assms by (simp add: word_less_nat_alt)
  then have "unat v div 16 < 65536" by simp
  then have "unat (ucast (rm_seg_from_ptr v) :: addr) = unat v div 16"
    by (simp add: rm_seg_from_ptr_def unat_arith)
  moreover have "unat (ucast (rm_offset_from_ptr v) :: addr) = unat v mod 16"
    by (simp add: rm_offset_from_ptr_def unat_arith)
  ultimately show ?thesis using v by (simp add: word_unat_eq_iff unat_word_ariths)
qed

lemma far_seg_offset:
  assumes "v < 0x100000"
  shows "rm_far_from_ptr v = push_bit 16 (ucast (rm_seg_from_ptr v)) OR ucast (rm_offset_from_ptr v)"
proof -
  have m: "(0xFFFF0000 :: addr) = push_bit 16 (mask 16)" "(0xF :: addr) = mask 4" by (simp_all add: mask_eq_exp_minus_1)
  have "\<not> bit v n" if "20 \<le> n" for n using low_megabyte [OF assms] that by (metis bit_take_bit_iff not_le)
  then show ?thesis
    unfolding rm_far_from_ptr_def rm_seg_from_ptr_def rm_offset_from_ptr_def m
    by (auto simp: bit_eq_iff bit_simps not_le)
qed

lemma offset_small: "\<not> bit (rm_offset_from_ptr v) n" if "4 \<le> n"
  using that unfolding rm_offset_from_ptr_def low_masks by (auto simp: bit_simps)

lemma far_parts:
  fixes s d :: u16
  assumes "\<And>n. 4 \<le> n \<Longrightarrow> \<not> bit d n"
  defines "fp \<equiv> push_bit 16 (ucast s) OR (ucast d :: u32)"
  shows "drop_bit 12 fp AND 0x000FFFF0 = push_bit 4 (ucast s)" "fp AND 0xFFFF = ucast d"
proof -
  have m: "(0xFFFF0 :: u32) = push_bit 4 (mask 16)" by (simp add: mask_eq_exp_minus_1)
  have "bit d (12 + n) \<longleftrightarrow> False" for n using assms(1) [of "12 + n"] by simp
  moreover have "bit s n \<Longrightarrow> n < 16" for n using bit_imp_le_length [of s n] by simp
  ultimately show "drop_bit 12 fp AND 0x000FFFF0 = push_bit 4 (ucast s)"
    unfolding fp_def m by (fastforce simp: bit_eq_iff bit_simps)
  show "fp AND 0xFFFF = ucast d" unfolding fp_def low_masks
    using bit_imp_le_length [of d] by (fastforce simp: bit_eq_iff bit_simps)
qed

lemma ptr_far_ptr:
  assumes "v < 0x100000"
  shows "rm_ptr_from_far (rm_far_from_ptr v) = v"
proof -
  let ?s = "rm_seg_from_ptr v" and ?d = "rm_offset_from_ptr v"
  have "unat ?d < 16" unfolding rm_offset_from_ptr_def by (simp add: unat_arith)
  moreover have "unat ?s < 65536" using unsigned_less [of ?s] by simp
  ultimately have "ucast (push_bit 4 (ucast ?s) + ucast ?d :: u32) = (ucast ?s * 16 + ucast ?d :: addr)"
    by (simp add: word_unat_eq_iff unat_word_ariths unat_arith)
  then show ?thesis
    using far_parts [of ?d ?s] offset_small [of _ v] seg_offset [OF assms] far_seg_offset [OF assms]
    by (simp add: rm_ptr_from_far_def)
qed

section \<open>Laws of the calls\<close>

lemma length_regs_bytes [simp]: "length (regs_bytes r) = 44"
  by (simp add: regs_bytes_def)

text \<open>The registers at an address are the members of the 44 bytes there.\<close>

lemma load_regs_bytes:
  assumes "load_bytes m a 44 = regs_bytes r"
  shows "load_regs m a = r"
proof -
  have split: "load_bytes m a (k + n) = load_bytes m a k @ load_bytes m (a + of_nat k) n" for k n a by (rule load_bytes_append)
  have "load_bytes m a 44 = load_bytes m a 2 @ load_bytes m (a + 2) 2 @ load_bytes m (a + 4) 2 @ load_bytes m (a + 6) 2 @
    load_bytes m (a + 8) 4 @ load_bytes m (a + 12) 4 @ load_bytes m (a + 16) 4 @ load_bytes m (a + 20) 4 @
    load_bytes m (a + 24) 4 @ load_bytes m (a + 28) 4 @ load_bytes m (a + 32) 4 @ load_bytes m (a + 36) 4 @ load_bytes m (a + 40) 4"
    using split [of a 2 42] split [of "a + 2" 2 40] split [of "a + 4" 2 38] split [of "a + 6" 2 36] split [of "a + 8" 4 32]
      split [of "a + 12" 4 28] split [of "a + 16" 4 24] split [of "a + 20" 4 20] split [of "a + 24" 4 16]
      split [of "a + 28" 4 12] split [of "a + 32" 4 8] split [of "a + 36" 4 4]
    by (simp add: ac_simps del: load_bytes.simps)
  with assms show ?thesis by (simp add: regs_bytes_def load_regs_def del: load_bytes.simps)
qed

lemma load_store_regs: "load_regs (store_bytes m a (regs_bytes r)) a = r"
  using load_store_bytes [of "regs_bytes r" m a] by (intro load_regs_bytes) simp

text \<open>
  What the transition vector of an interrupt finds: the registers at its stack pointer, 48 bytes
  below the top of the real-mode stack, and memory that is changed in these 48 bytes only.
\<close>

definition int_frame :: "'w platform \<Rightarrow> addr" where
  "int_frame pf = ucast (rm_stack (bios_services pf)) - 48"

lemma int_call_frame:
  "\<exists>m. load_regs m (int_frame pf) = regs \<and> (\<forall>x. \<not> in_block (int_frame pf) 48 x \<longrightarrow> m x = mem mc x) \<and>
     (let mc' = int_entry pf (int_call_ptr (bios_services pf)) num (int_frame pf) (mc\<lparr>mem := m\<rparr>)
      in bios_int_call pf num regs mc = (load_regs (mem mc') (int_frame pf), mc'))"
proof -
  let ?top = "ucast (rm_stack (bios_services pf)) :: addr"
  let ?m1 = "store_bytes (mem mc) (?top - 4) (word_le 4 (0 :: u32))"
  let ?m2 = "store_bytes ?m1 (int_frame pf) (regs_bytes regs)"
  have f: "?top - 4 - 44 = int_frame pf" by (simp add: int_frame_def)
  have "?m2 x = mem mc x" if "\<not> in_block (int_frame pf) 48 x" for x
  proof -
    have "unat (x - (?top - 4)) \<ge> 4 \<and> unat (x - int_frame pf) \<ge> 44"
    proof (rule ccontr)
      assume "\<not> ?thesis"
      then have "unat (x - (?top - 4)) < 4" using that by (auto simp: in_block_def)
      moreover have "x - int_frame pf = (x - (?top - 4)) + 44" by (simp add: int_frame_def algebra_simps)
      ultimately have "unat (x - int_frame pf) < 48" by (simp only: unat_word_ariths) simp
      with that show False by (simp add: in_block_def)
    qed
    then show ?thesis by (simp add: store_bytes_other in_block_def del: store_bytes.simps word_le.simps)
  qed
  moreover have "load_regs ?m2 (int_frame pf) = regs" by (rule load_store_regs)
  moreover have "bios_int_call pf num regs mc = (let mc' = int_entry pf (int_call_ptr (bios_services pf)) num (int_frame pf) (mc\<lparr>mem := ?m2\<rparr>)
      in (load_regs (mem mc') (int_frame pf), mc'))"
    unfolding bios_int_call_def push_def by (simp add: f Let_def del: store_bytes.simps word_le.simps)
  ultimately show ?thesis by (intro exI [of _ ?m2]) (simp add: Let_def del: store_bytes.simps)
qed

end
