(* ===== verification/Bios_Memory_Map.thy ===== *)
theory Bios_Memory_Map
  imports Bios_Services Memory_Map_Whole
begin

text \<open>
  Detection of the memory map on BIOS machines (\<^verbatim>\<open>bal/platform/bios/mmap.c\<close>): the firmware calls
  E820, E881, E801, C7, DA88, 88 and 8A and the CMOS, tried in this order.
\<close>

section \<open>State\<close>

record 'w bios_state =
  mach :: "'w machine"
  sysmap :: mmap_state
  base_memory :: u32

text \<open>
  Where the linker and the compiler put the variables the firmware writes to, the bound on the
  recursion depth of \<open>mmap_add_entry\<close> and the bound on the number of E820 calls after the first.
\<close>

record config =
  range_ptr :: addr
  static_slots :: addr
  depth :: nat
  limit :: nat

record address_range =
  range_start :: u64
  range_size :: u64
  range_type :: u32
  range_attributes :: u32

definition entry_present :: u32 where
  "entry_present = 1"

definition range_bytes :: "address_range \<Rightarrow> u8 list" where
  "range_bytes r = word_le 8 (range_start r) @ word_le 8 (range_size r) @ word_le 4 (range_type r) @
     word_le 4 (range_attributes r)"

definition load_range :: "bytes \<Rightarrow> addr \<Rightarrow> address_range" where
  "load_range m a = \<lparr>range_start = load64 m a, range_size = load64 m (a + 8), range_type = load32 m (a + 16),
     range_attributes = load32 m (a + 20)\<rparr>"

definition acpi_to_gd :: "gd_memory_type list" where
  "acpi_to_gd = [gd_unusable_memory, gd_conventional_memory, gd_unusable_memory, gd_acpi_reclaim_memory,
     gd_acpi_memory_nvs, gd_unusable_memory, gd_unusable_memory]"

text \<open>An entry with the members that an initialiser names.\<close>

abbreviation region :: "u64 \<Rightarrow> u64 \<Rightarrow> gd_memory_type \<Rightarrow> gd_memory_map_entry" where
  "region a z t \<equiv> zero_entry\<lparr>physical_start := a, esize := z, etype := t\<rparr>"

text \<open>\<open>mmap_add_entry\<close> and \<open>mmap_clean\<close>, called from the platform.\<close>

definition add_entry :: "config \<Rightarrow> 'w bios_state \<Rightarrow> gd_memory_map_entry \<Rightarrow> 'w bios_state outcome" where
  "add_entry c st e = andthen (mmap_add_entry (depth c) (sysmap st) e) (\<lambda>m. Inr (st\<lparr>sysmap := m\<rparr>))"

definition clean_map :: "config \<Rightarrow> 'w bios_state \<Rightarrow> 'w bios_state outcome" where
  "clean_map c st = andthen (mmap_clean (static_slots c) (sysmap st)) (\<lambda>m. Inr (st\<lparr>sysmap := m\<rparr>))"

definition int_call :: "'w platform \<Rightarrow> u8 \<Rightarrow> bios_registers \<Rightarrow> 'w bios_state \<Rightarrow> bios_registers \<times> 'w bios_state" where
  "int_call pf num regs st = (let (regs, mc) = bios_int_call pf num regs (mach st) in (regs, st\<lparr>mach := mc\<rparr>))"

definition carry :: "bios_registers \<Rightarrow> bool" where
  "carry regs \<longleftrightarrow> eflags regs AND carry_flag \<noteq> 0"

section \<open>E820\<close>

definition acpi_entry :: "address_range \<Rightarrow> gd_memory_map_entry" where
  "acpi_entry r = \<lparr>etype = (if unat (range_type r) < length acpi_to_gd then acpi_to_gd ! unat (range_type r) else gd_unusable_memory),
     physical_start = range_start r, virtual_start = 0, esize = range_size r, attributes = 0\<rparr>"

definition add_acpi_range :: "config \<Rightarrow> 'w bios_state \<Rightarrow> address_range \<Rightarrow> 'w bios_state outcome" where
  "add_acpi_range c st r =
     (if range_attributes r AND entry_present = 0 then Inr st else add_entry c st (acpi_entry r))"

definition SMAP :: u32 where
  "SMAP = 0x534D4150"

definition e820_regs :: "config \<Rightarrow> bios_registers \<Rightarrow> bios_registers" where
  "e820_regs c regs = regs\<lparr>eax := 0x0000E820, ecx := 24, edx := SMAP, es := rm_seg_from_ptr (range_ptr c),
     edi := ucast (rm_offset_from_ptr (range_ptr c))\<rparr>"

definition e820_invalid :: "bios_registers \<Rightarrow> bool" where
  "e820_invalid regs \<longleftrightarrow> eax regs \<noteq> SMAP \<or> ecx regs < 20"

definition store_mem :: "addr \<Rightarrow> u8 list \<Rightarrow> 'w bios_state \<Rightarrow> 'w bios_state" where
  "store_mem a bs st = st\<lparr>mach := (mach st)\<lparr>mem := store_bytes (mem (mach st)) a bs\<rparr>\<rparr>"

fun e820_loop :: "nat \<Rightarrow> config \<Rightarrow> 'w platform \<Rightarrow> bios_registers \<Rightarrow> 'w bios_state \<Rightarrow> ('w bios_state \<times> bool) outcome" where
  "e820_loop 0 c pf regs st = Inl Fuel"
| "e820_loop (Suc n) c pf regs st =
     (let st = store_mem (range_ptr c + 20) (word_le 4 entry_present) st;
          (regs, st) = int_call pf 0x15 (e820_regs c regs) st in
      if carry regs then Inr (st, True)
      else if e820_invalid regs then andthen (clean_map c st) (\<lambda>st. Inr (st, False))
      else andthen (add_acpi_range c st (load_range (mem (mach st)) (range_ptr c))) (\<lambda>st.
        if ebx regs \<noteq> 0 then e820_loop n c pf regs st else Inr (st, True)))"

definition try_e820 :: "config \<Rightarrow> 'w platform \<Rightarrow> 'w bios_state \<Rightarrow> ('w bios_state \<times> bool) outcome" where
  "try_e820 c pf st =
     (let st = store_mem (range_ptr c)
            (range_bytes \<lparr>range_start = 0, range_size = 0, range_type = 0, range_attributes = entry_present\<rparr>) st;
          (regs, st) = int_call pf 0x15 (e820_regs c (zero_registers\<lparr>ebx := 0\<rparr>)) st in
      if carry regs \<or> e820_invalid regs then Inr (st, False)
      else andthen (add_acpi_range c st (load_range (mem (mach st)) (range_ptr c))) (e820_loop (limit c) c pf regs))"

section \<open>E801 and E881\<close>

definition try_e8x1 :: "config \<Rightarrow> 'w platform \<Rightarrow> u32 \<Rightarrow> 'w bios_state \<Rightarrow> ('w bios_state \<times> bool) outcome" where
  "try_e8x1 c pf fn st =
     (let (regs, st) = int_call pf 0x15 (zero_registers\<lparr>eax := fn\<rparr>) st in
      if carry regs then Inr (st, False)
      else
        (let regs = (if fn = 0xE801
               then regs\<lparr>eax := eax regs AND 0xFFFF, ebx := ebx regs AND 0xFFFF, ecx := ecx regs AND 0xFFFF, edx := edx regs AND 0xFFFF\<rparr>
               else regs);
             regs = (if ecx regs = 0 then regs\<lparr>ecx := eax regs, edx := ebx regs\<rparr> else regs) in
         andthen (add_entry c st (region 0x100000 (ucast (ecx regs * 1024)) gd_conventional_memory)) (\<lambda>st.
         andthen (add_entry c st (region 0x1000000 (ucast (edx regs * 1024 * 64)) gd_conventional_memory)) (\<lambda>st.
         Inr (st, True)))))"

section \<open>C7\<close>

definition try_c7 :: "config \<Rightarrow> 'w platform \<Rightarrow> 'w bios_state \<Rightarrow> ('w bios_state \<times> bool) outcome" where
  "try_c7 c pf st =
     (let (regs, st) = int_call pf 0x15 (zero_registers\<lparr>eax := 0xC0\<rparr>) st in
      if carry regs \<or> eax regs AND 0xFF00 \<noteq> 0 then Inr (st, False)
      else
        (let rom_table = ucast (ucast (es regs) * 0x10 + (ebx regs AND 0xFFFF)) :: addr in
         if mem (mach st) (rom_table + 6) AND push_bit 4 1 = 0 then Inr (st, False)
         else
           (let c7_memory_map = ucast (ucast (ds regs) * 0x10 + (esi regs AND 0xFFFF)) :: addr;
                memory_1m = load32 (mem (mach st)) (c7_memory_map + 26);
                memory_16m = load32 (mem (mach st)) (c7_memory_map + 30) in
            andthen (add_entry c st (region 0x100000 (ucast (memory_1m * 1024)) gd_conventional_memory)) (\<lambda>st.
            andthen (add_entry c st (region 0x1000000 (ucast (memory_16m * 1024)) gd_conventional_memory)) (\<lambda>st.
            Inr (st, True))))))"

section \<open>The other calls and the CMOS\<close>

definition outb :: "'w platform \<Rightarrow> u16 \<Rightarrow> u8 \<Rightarrow> 'w bios_state \<Rightarrow> 'w bios_state" where
  "outb pf port v st = st\<lparr>mach := port_out pf port v (mach st)\<rparr>"

definition inb :: "'w platform \<Rightarrow> u16 \<Rightarrow> 'w bios_state \<Rightarrow> u8 \<times> 'w bios_state" where
  "inb pf port st = (let (v, mc) = port_in pf port (mach st) in (v, st\<lparr>mach := mc\<rparr>))"

definition get_extended_memory :: "'w platform \<Rightarrow> 'w bios_state \<Rightarrow> u64 \<times> 'w bios_state" where
  "get_extended_memory pf st =
     (let (regs, st) = int_call pf 0x15 (zero_registers\<lparr>eax := 0xDA88\<rparr>) st in
      if \<not> carry regs then (ucast ((push_bit 16 (ecx regs AND 0xFF) OR (ebx regs AND 0xFFFF)) * 1024), st)
      else let (regs, st) = int_call pf 0x15 (regs\<lparr>eax := 0x8800\<rparr>) st in
      if \<not> carry regs \<and> eax regs AND 0xFF00 \<noteq> 0x8600 \<and> eax regs AND 0xFF00 \<noteq> 0x8000
      then (ucast ((eax regs AND 0xFFFF) * 1024), st)
      else let (regs, st) = int_call pf 0x15 (regs\<lparr>eax := 0x8A00\<rparr>) st in
      if \<not> carry regs then (ucast ((push_bit 16 (edx regs AND 0xFFFF) OR (eax regs AND 0xFFFF)) * 1024), st)
      else let (low, st) = inb pf 0x71 (outb pf 0x70 0x30 st);
               (high, st) = inb pf 0x71 (outb pf 0x70 0x31 st) in
      (ucast ((ucast low OR push_bit 8 (ucast high) :: u32) * 1024), st))"

definition get_base_memory :: "'w platform \<Rightarrow> 'w bios_state \<Rightarrow> u32 \<times> 'w bios_state" where
  "get_base_memory pf st =
     (if base_memory st = 0 then
        (let (regs, st) = int_call pf 0x12 zero_registers st;
             st = st\<lparr>base_memory := eax regs * 1024\<rparr> in (base_memory st, st))
      else (base_memory st, st))"

section \<open>The whole detection\<close>

definition low_mem :: gd_memory_map_entry where
  "low_mem = region 0x0000 0x1000 gd_unusable_memory"

definition gandr_mem :: gd_memory_map_entry where
  "gandr_mem = region 0x8000 (0x30000 - 0x8000) gd_loader_code"

text \<open>The calls after E820 failed, each tried when the one before it returned false.\<close>

definition try_extended :: "config \<Rightarrow> 'w platform \<Rightarrow> 'w bios_state \<Rightarrow> 'w bios_state outcome" where
  "try_extended c pf st =
     andthen (try_e8x1 c pf 0xe881 st) (\<lambda>(st, ok). if ok then Inr st else
     andthen (try_e8x1 c pf 0xe801 st) (\<lambda>(st, ok). if ok then Inr st else
     andthen (try_c7 c pf st) (\<lambda>(st, ok). if ok then Inr st else
       (let (z, st) = get_extended_memory pf st in add_entry c st (region 0x100000 z gd_conventional_memory)))))"

definition fallback :: "config \<Rightarrow> 'w platform \<Rightarrow> 'w bios_state \<Rightarrow> 'w bios_state outcome" where
  "fallback c pf st =
     (let (base, st) = get_base_memory pf st in
      andthen (add_entry c st (region 0x00000000 (ucast base) gd_conventional_memory)) (\<lambda>st.
      andthen (add_entry c st (region 0xF00000 0x100000 gd_unusable_memory)) (try_extended c pf)))"

definition mmap_init :: "config \<Rightarrow> 'w platform \<Rightarrow> 'w bios_state \<Rightarrow> 'w bios_state outcome" where
  "mmap_init c pf st =
     andthen (try_e820 c pf st) (\<lambda>(st, ok).
     andthen (if ok then Inr st else fallback c pf st) (\<lambda>st.
     andthen (add_entry c st low_mem) (\<lambda>st. add_entry c st gandr_mem)))"

end
