(* ===== verification/Memory_Map_Sequence.thy ===== *)
theory Memory_Map_Sequence
  imports Memory_Map_Rounding
begin

text \<open>
  Building a map from a list of regions: regions that lie in free space, one after the other, each
  taking at most one structure.
\<close>

lemma add_free_space:
  assumes ok: "map_ok p st xs fs" and g: "good p e" and free: "\<And>a. covers e a \<Longrightarrow> type_at (ents st) xs a = None"
    and n: "1 < n" and k: "k < avail st fs"
  shows "\<exists>st' xs' fs'. mmap_add_entry n st e = Inr st' \<and> map_ok p st' xs' fs' \<and> k \<le> avail st' fs' \<and>
    (\<forall>a. type_at (ents st') xs' a = (if covers e a then Some (etype e) else type_at (ents st) xs a))"
proof -
  from ok obtain as bs where ab: "xs = as @ bs" "\<forall>x\<in>set as. lo (ents st x) < lo e" "\<forall>y\<in>set bs. lo e \<le> lo (ents st y)"
    "tailwf p (ents st) as bs" "sorted_wrt (below (ents st)) as" by (rule map_ok_split [where l = "lo e"])
  have no: "\<not> covers (ents st x) a" if "covers e a" "x \<in> set xs" for x a
    using free [OF that(1)] that(2) by (simp add: type_at_None)
  have le: "lo e < hi e" using good_less [OF g] .
  have "hi (ents st x) \<le> lo e" if "x \<in> set as" for x
    using no [of "lo e" x] that ab(1,2) le by (force simp: covers_def)
  moreover have above: "\<not> lo (ents st y) < hi e" if "y \<in> set bs" for y
  proof -
    have "lo (ents st y) < hi (ents st y)" using ok that ab(1) good_less [of p "ents st y"] by (simp add: map_ok_def)
    then show ?thesis using no [of "lo (ents st y)" y] that ab(1,3) by (auto simp: covers_def)
  qed
  then have "ov (ents st) (hi e) bs = 0" "\<not> abut (ents st) (hi e) bs" by (auto simp: ov_def abut_def filter_empty_conv)
  moreover have "addable p st as e bs fs" using ok ab g calculation(1) by (simp add: addable_def map_ok_def)
  ultimately obtain st' where st': "mmap_add_entry n st e = Inr st'"
    "settled p st as (\<lambda>a. min (tye p e a) (tyr p (ents st) (as @ bs) a)) k st'"
    using A_okD [OF conjunct2 [OF contracts], of p st as e bs fs n k] n k
    by (auto simp: outcome_ok_def split: sum.splits)
  have "overlap_precedence st = p" using ok by (simp add: map_ok_def)
  from settled_map_ok [OF st'(2) ab(5) this] obtain xs' fs' where m: "map_ok p st' xs' fs'" "k \<le> avail st' fs'"
    "\<And>a. tyr p (ents st') xs' a = min (tye p e a) (tyr p (ents st) (as @ bs) a)" by metis
  have "type_at (ents st') xs' a = (if covers e a then Some (etype e) else type_at (ents st) xs a)" for a
    using overlay_of_tyr [OF m(1), of e st xs] m(3) ab(1) ok g free [of a] by (simp add: overlay_def)
  with st'(1) m(1,2) show ?thesis by blast
qed

text \<open>The type that a list of regions gives to an address.\<close>

fun type_in :: "gd_memory_map_entry list \<Rightarrow> nat \<Rightarrow> gd_memory_type option" where
  "type_in [] a = None"
| "type_in (e # es) a = (if covers e a then Some (etype e) else type_in es a)"

lemma type_in_None: "type_in es a = None \<longleftrightarrow> (\<forall>e\<in>set es. \<not> covers e a)"
  by (induction es) auto

definition disjoint_regions :: "gd_memory_map_entry list \<Rightarrow> bool" where
  "disjoint_regions es \<longleftrightarrow> sorted_wrt (\<lambda>d e. hi d \<le> lo e \<or> hi e \<le> lo d) es"

lemma disjoint_cons: "disjoint_regions (e # es) \<Longrightarrow> covers e a \<Longrightarrow> type_in es a = None"
  by (auto simp: disjoint_regions_def type_in_None covers_def)

lemma add_list_ok:
  assumes "map_ok p st xs fs" "\<forall>e\<in>set es. good p e" "disjoint_regions es"
    and "\<And>a. type_in es a \<noteq> None \<Longrightarrow> type_at (ents st) xs a = None" and "1 < n" "length es + k \<le> avail st fs"
  shows "\<exists>st' xs' fs'. add_list n st es = Inr st' \<and> map_ok p st' xs' fs' \<and> k \<le> avail st' fs' \<and>
    (\<forall>a. type_at (ents st') xs' a = (case type_in es a of None \<Rightarrow> type_at (ents st) xs a | Some t \<Rightarrow> Some t))"
  using assms
proof (induction es arbitrary: st xs fs)
  case Nil
  then show ?case by auto
next
  case (Cons e es)
  obtain st1 xs1 fs1 where st1: "mmap_add_entry n st e = Inr st1" "map_ok p st1 xs1 fs1" "length es + k \<le> avail st1 fs1"
    "\<And>a. type_at (ents st1) xs1 a = (if covers e a then Some (etype e) else type_at (ents st) xs a)"
    using add_free_space [of p st xs fs e n "length es + k"] Cons.prems by fastforce
  have "type_at (ents st1) xs1 a = None" if "type_in es a \<noteq> None" for a
    using that st1(4) [of a] Cons.prems(4) [of a] disjoint_cons [OF Cons.prems(3), of a] by auto
  then obtain st' xs' fs' where st': "add_list n st1 es = Inr st'" "map_ok p st' xs' fs'" "k \<le> avail st' fs'"
    "\<And>a. type_at (ents st') xs' a = (case type_in es a of None \<Rightarrow> type_at (ents st1) xs1 a | Some t \<Rightarrow> Some t)"
    using Cons.IH [OF st1(2)] Cons.prems st1(3) by (auto simp: disjoint_regions_def)
  have "type_at (ents st') xs' a = (case type_in (e # es) a of None \<Rightarrow> type_at (ents st) xs a | Some t \<Rightarrow> Some t)" for a
    using st'(4) [of a] st1(4) [of a] disjoint_cons [OF Cons.prems(3), of a] by (auto split: option.splits)
  with st' st1(1) show ?case by auto
qed

text \<open>The map before the first call.\<close>

lemma initial_map_ok:
  assumes "slots \<noteq> NULL" "unat slots + 32 * 72 < 2 ^ 64"
  shows "map_ok default_precedence (mmap_initial slots) [] []" "avail (mmap_initial slots) [] = 32"
proof -
  have "rb_inv (mmap (mmap_initial slots)) []"
    unfolding rb_inv_def by (intro exI [of _ Lf] exI [of _ 0]) (simp add: mmap_initial_def tree_at_def)
  moreover have "unat (allocatable (mmap_initial slots)) = 32" by (simp add: mmap_initial_def MMAP_STATIC_SLOTS_def)
  moreover have "NULL \<notin> set (slots_from slots 32)" using slots_from_range [of slots 32 NULL] assms by (auto simp: unat_eq_zero)
  ultimately show "map_ok default_precedence (mmap_initial slots) [] []" "avail (mmap_initial slots) [] = 32"
    using slots_from_distinct [of slots 32] assms
    by (simp_all add: map_ok_def mm_def unused_def avail_def) (simp_all add: mmap_initial_def)
qed

end
