(* ===== verification/Bios_Memory_Map_Correct.thy ===== *)
theory Bios_Memory_Map_Correct
  imports Bios_Memory_Map Memory_Map_Sequence
begin

text \<open>
  What the detection of the memory map makes of the reports of the firmware.  The firmware is the
  parameter \<open>pf\<close>; the hypotheses on it state the documented behaviour of the interrupt functions.
\<close>

section \<open>Loads after stores\<close>

lemma load32_store: "load32 (store_bytes m a (word_le 4 w)) a = w"
  using load_store_bytes [of "word_le 4 w" m a] by (simp del: load_bytes.simps store_bytes.simps word_le.simps)

lemma length_range_bytes [simp]: "length (range_bytes r) = 24"
  by (simp add: range_bytes_def)

lemma load_range_bytes:
  assumes "load_bytes m a 24 = range_bytes r"
  shows "load_range m a = r"
proof -
  have split: "load_bytes m a (k + n) = load_bytes m a k @ load_bytes m (a + of_nat k) n" for k n a by (rule load_bytes_append)
  have "load_bytes m a 24 = load_bytes m a 8 @ load_bytes m (a + 8) 8 @ load_bytes m (a + 16) 4 @ load_bytes m (a + 20) 4"
    using split [of a 8 16] split [of "a + 8" 8 8] split [of "a + 16" 4 4] by (simp add: ac_simps del: load_bytes.simps)
  with assms show ?thesis by (simp add: range_bytes_def load_range_def del: load_bytes.simps)
qed

lemma load_store_range: "load_range (store_bytes m a (range_bytes r)) a = r"
  using load_store_bytes [of "range_bytes r" m a] by (intro load_range_bytes) simp

section \<open>E820\<close>

definition present :: "address_range \<Rightarrow> bool" where
  "present r \<longleftrightarrow> range_attributes r AND entry_present \<noteq> 0"

definition e820_entries :: "address_range list \<Rightarrow> gd_memory_map_entry list" where
  "e820_entries rs = map acpi_entry (filter present rs)"

text \<open>
  The firmware reports the ranges \<open>rs\<close>: the call with the continuation value of the \<open>k\<close>-th range
  succeeds, fills the buffer with this range (a firmware that knows only 20 bytes leaves the
  attributes alone) and returns the next continuation value, or 0 with the last range.
\<close>

definition e820_reports :: "config \<Rightarrow> 'w platform \<Rightarrow> (nat \<Rightarrow> u32) \<Rightarrow> address_range list \<Rightarrow> bool" where
  "e820_reports c pf cont rs \<longleftrightarrow> rs \<noteq> [] \<and> cont 0 = 0 \<and> (\<forall>k. 0 < k \<and> k < length rs \<longrightarrow> cont k \<noteq> 0) \<and>
     (\<forall>mc regs k. k < length rs \<and> ebx regs = cont k \<and> load32 (mem mc) (range_ptr c + 20) = entry_present \<longrightarrow>
       (case bios_int_call pf 0x15 (e820_regs c regs) mc of (regs', mc') \<Rightarrow>
          \<not> carry regs' \<and> \<not> e820_invalid regs' \<and> load_range (mem mc') (range_ptr c) = rs ! k \<and>
          ebx regs' = (if Suc k < length rs then cont (Suc k) else 0)))"

lemma e820_reportsD:
  assumes "e820_reports c pf cont rs" "k < length rs" "ebx regs = cont k" "load32 (mem mc) (range_ptr c + 20) = entry_present"
  obtains regs' mc' where "bios_int_call pf 0x15 (e820_regs c regs) mc = (regs', mc')" "\<not> carry regs'" "\<not> e820_invalid regs'"
    "load_range (mem mc') (range_ptr c) = rs ! k" "ebx regs' = (if Suc k < length rs then cont (Suc k) else 0)"
  using assms unfolding e820_reports_def by (cases "bios_int_call pf 0x15 (e820_regs c regs) mc") force

lemma add_acpi_range_entries:
  "add_acpi_range c st r = andthen (add_list (depth c) (sysmap st) (e820_entries [r])) (\<lambda>m. Inr (st\<lparr>sysmap := m\<rparr>))"
  by (auto simp: add_acpi_range_def add_entry_def e820_entries_def present_def)

lemma e820_entries_Cons:
  "andthen (add_list n m (e820_entries [r])) (\<lambda>m. add_list n m (e820_entries rs)) = add_list n m (e820_entries (r # rs))"
  by (simp add: e820_entries_def)

lemma andthen_assoc: "andthen (andthen m f) g = andthen m (\<lambda>x. andthen (f x) g)"
  by (cases m) simp_all

text \<open>What remains of the list after the \<open>k\<close>-th range.\<close>

lemma e820_loop_reports:
  assumes rep: "e820_reports c pf cont rs"
  shows "k < length rs \<Longrightarrow> ebx regs = cont k \<Longrightarrow> length rs - k \<le> n \<Longrightarrow>
    \<exists>mc'. e820_loop n c pf regs st =
      andthen (add_list (depth c) (sysmap st) (e820_entries (drop k rs))) (\<lambda>m. Inr (st\<lparr>mach := mc', sysmap := m\<rparr>, True))"
proof (induction "length rs - k" arbitrary: k n regs st)
  case (Suc d)
  then obtain n' where n: "n = Suc n'" by (cases n) auto
  let ?st0 = "store_mem (range_ptr c + 20) (word_le 4 entry_present) st"
  have st0: "load32 (mem (mach ?st0)) (range_ptr c + 20) = entry_present" by (simp add: store_mem_def load32_store del: load_bytes.simps store_bytes.simps word_le.simps)
  obtain regs1 mc1 where r1: "bios_int_call pf 0x15 (e820_regs c regs) (mach ?st0) = (regs1, mc1)" "\<not> carry regs1" "\<not> e820_invalid regs1"
    "load_range (mem mc1) (range_ptr c) = rs ! k" "ebx regs1 = (if Suc k < length rs then cont (Suc k) else 0)"
    using e820_reportsD [OF rep Suc.prems(1,2) st0] by blast
  let ?st1 = "st\<lparr>mach := mc1\<rparr>"
  have call: "int_call pf 0x15 (e820_regs c regs) ?st0 = (regs1, ?st1)" using r1(1) by (simp add: int_call_def store_mem_def)
  have step: "e820_loop n c pf regs st = andthen (add_list (depth c) (sysmap st) (e820_entries [rs ! k])) (\<lambda>m.
      if ebx regs1 \<noteq> 0 then e820_loop n' c pf regs1 (?st1\<lparr>sysmap := m\<rparr>) else Inr (?st1\<lparr>sysmap := m\<rparr>, True))"
    unfolding n e820_loop.simps using call r1(2-4) by (simp add: add_acpi_range_entries andthen_assoc)
  have dr: "drop k rs = rs ! k # drop (Suc k) rs" using Suc.prems(1) by (simp add: Cons_nth_drop_Suc)
  have ad: "add_list (depth c) (sysmap st) (e820_entries (drop k rs)) =
      andthen (add_list (depth c) (sysmap st) (e820_entries [rs ! k])) (\<lambda>m. add_list (depth c) m (e820_entries (drop (Suc k) rs)))"
    unfolding dr by (rule e820_entries_Cons [symmetric])
  show ?case
  proof (cases "Suc k < length rs")
    case True
    then have e: "ebx regs1 = cont (Suc k)" "cont (Suc k) \<noteq> 0" using r1(5) rep by (auto simp: e820_reports_def)
    show ?thesis
    proof (cases "add_list (depth c) (sysmap st) (e820_entries [rs ! k])")
      case (Inl f)
      then show ?thesis unfolding step ad by simp
    next
      case (Inr m)
      have "d = length rs - Suc k" using Suc.hyps(2) by simp
      then obtain mc' where "e820_loop n' c pf regs1 (?st1\<lparr>sysmap := m\<rparr>) =
        andthen (add_list (depth c) m (e820_entries (drop (Suc k) rs))) (\<lambda>m. Inr (st\<lparr>mach := mc', sysmap := m\<rparr>, True))"
        using Suc.hyps(1) [of "Suc k" regs1 n' "?st1\<lparr>sysmap := m\<rparr>"] Suc.hyps(2) Suc.prems(3) True e(1) n by auto
      then show ?thesis unfolding step ad using Inr e by (intro exI [of _ mc']) simp
    qed
  next
    case False
    then have "ebx regs1 = 0" "e820_entries (drop (Suc k) rs) = []" using r1(5) by (simp_all add: e820_entries_def)
    then show ?thesis unfolding step ad by (intro exI [of _ mc1]) (simp add: andthen_assoc)
  qed
qed simp

text \<open>
  All the calls.  A list of one range is reported twice: the loop is entered without a look at the
  continuation value, which is 0 again.
\<close>

definition e820_calls :: "address_range list \<Rightarrow> address_range list" where
  "e820_calls rs = (if length rs = 1 then rs @ rs else rs)"

lemma try_e820_reports:
  assumes rep: "e820_reports c pf cont rs" and n: "length rs \<le> limit c"
  shows "\<exists>mc'. try_e820 c pf st = andthen (add_list (depth c) (sysmap st) (e820_entries (e820_calls rs)))
    (\<lambda>m. Inr (st\<lparr>mach := mc', sysmap := m\<rparr>, True))"
proof -
  have ne: "0 < length rs" "cont 0 = 0" using rep by (auto simp: e820_reports_def)
  let ?r = "\<lparr>range_start = 0, range_size = 0, range_type = 0, range_attributes = entry_present\<rparr>"
  let ?st0 = "store_mem (range_ptr c) (range_bytes ?r) st"
  have "load_range (mem (mach ?st0)) (range_ptr c) = ?r" by (simp add: store_mem_def load_store_range)
  then have st0: "load32 (mem (mach ?st0)) (range_ptr c + 20) = entry_present" by (simp add: load_range_def)
  have z: "ebx (zero_registers\<lparr>ebx := 0\<rparr>) = cont 0" using ne by simp
  obtain regs1 mc1 where r1: "bios_int_call pf 0x15 (e820_regs c (zero_registers\<lparr>ebx := 0\<rparr>)) (mach ?st0) = (regs1, mc1)"
    "\<not> carry regs1" "\<not> e820_invalid regs1" "load_range (mem mc1) (range_ptr c) = rs ! 0"
    "ebx regs1 = (if Suc 0 < length rs then cont (Suc 0) else 0)"
    using e820_reportsD [OF rep ne(1) z st0] by blast
  have call: "int_call pf 0x15 (e820_regs c (zero_registers\<lparr>ebx := 0\<rparr>)) ?st0 = (regs1, st\<lparr>mach := mc1\<rparr>)"
    using r1(1) by (simp add: int_call_def store_mem_def)
  have step: "try_e820 c pf st = andthen (add_list (depth c) (sysmap st) (e820_entries [rs ! 0]))
      (\<lambda>m. e820_loop (limit c) c pf regs1 (st\<lparr>mach := mc1, sysmap := m\<rparr>))"
    unfolding try_e820_def using call r1(2-4) by (simp add: add_acpi_range_entries andthen_assoc)
  define k where "k = (if Suc 0 < length rs then Suc 0 else 0)"
  have k: "k < length rs" "ebx regs1 = cont k" using ne r1(5) by (auto simp: k_def)
  have eq: "e820_calls rs = rs ! 0 # drop k rs"
    using ne(1) by (cases rs) (auto simp: e820_calls_def k_def)
  have ad: "add_list (depth c) (sysmap st) (e820_entries (e820_calls rs)) =
      andthen (add_list (depth c) (sysmap st) (e820_entries [rs ! 0])) (\<lambda>m. add_list (depth c) m (e820_entries (drop k rs)))"
    unfolding eq by (rule e820_entries_Cons [symmetric])
  show ?thesis
  proof (cases "add_list (depth c) (sysmap st) (e820_entries [rs ! 0])")
    case (Inl f)
    then show ?thesis unfolding step ad by simp
  next
    case (Inr m)
    have "length rs - k \<le> limit c" using n by simp
    then obtain mc' where "e820_loop (limit c) c pf regs1 (st\<lparr>mach := mc1, sysmap := m\<rparr>) =
        andthen (add_list (depth c) m (e820_entries (drop k rs))) (\<lambda>m. Inr (st\<lparr>mach := mc', sysmap := m\<rparr>, True))"
      using e820_loop_reports [OF rep k, of "limit c" "st\<lparr>mach := mc1, sysmap := m\<rparr>"] n by auto
    then show ?thesis unfolding step ad using Inr by (intro exI [of _ mc']) simp
  qed
qed

text \<open>The whole detection when E820 works: the ranges, then low memory, then the loader.\<close>

lemma mmap_init_reports:
  assumes "e820_reports c pf cont rs" "length rs \<le> limit c"
  shows "\<exists>mc'. mmap_init c pf st = andthen (add_list (depth c) (sysmap st) (e820_entries (e820_calls rs) @ [low_mem, gandr_mem]))
    (\<lambda>m. Inr (st\<lparr>mach := mc', sysmap := m\<rparr>))"
proof -
  obtain mc' where mc': "try_e820 c pf st = andthen (add_list (depth c) (sysmap st) (e820_entries (e820_calls rs)))
    (\<lambda>m. Inr (st\<lparr>mach := mc', sysmap := m\<rparr>, True))" using try_e820_reports [OF assms] by blast
  have "add_list n m (as @ bs) = andthen (add_list n m as) (\<lambda>m. add_list n m bs)" for n m as bs
    by (induction as arbitrary: m) (simp_all add: andthen_assoc)
  with mc' show ?thesis by (intro exI [of _ mc']) (simp add: mmap_init_def andthen_assoc add_entry_def)
qed

text \<open>A list of disjoint regions of whole pages, at most as many as there are static structures.\<close>

lemma acpi_entry_type: "etype (acpi_entry r) \<in> set default_precedence"
proof -
  have "set acpi_to_gd \<subseteq> set default_precedence" by (auto simp: acpi_to_gd_def precedence_default)
  then have "acpi_to_gd ! unat (range_type r) \<in> set default_precedence" if "unat (range_type r) < length acpi_to_gd"
    using that nth_mem by blast
  then show ?thesis by (auto simp: acpi_entry_def precedence_default)
qed

lemma try_e820_types:
  assumes rep: "e820_reports c pf cont rs" "length rs \<le> limit c" "length rs \<noteq> 1"
    and g: "\<forall>e\<in>set (e820_entries rs). good default_precedence e" "disjoint_regions (e820_entries rs)"
    and s: "sysmap st = mmap_initial (static_slots c)" "static_slots c \<noteq> NULL" "unat (static_slots c) + 32 * 72 < 2 ^ 64"
    and n: "length (e820_entries rs) \<le> 32" "1 < depth c"
  shows "\<exists>st' xs fs. try_e820 c pf st = Inr (st', True) \<and> map_ok default_precedence (sysmap st') xs fs \<and>
    (\<forall>a. type_at (ents (sysmap st')) xs a = type_in (e820_entries rs) a)"
proof -
  note i = initial_map_ok [OF s(2,3)]
  obtain m xs fs where m: "add_list (depth c) (mmap_initial (static_slots c)) (e820_entries rs) = Inr m"
    "map_ok default_precedence m xs fs" "\<And>a. type_at (ents m) xs a = type_in (e820_entries rs) a"
  proof -
    have "\<exists>m xs fs. add_list (depth c) (mmap_initial (static_slots c)) (e820_entries rs) = Inr m \<and> map_ok default_precedence m xs fs \<and>
      0 \<le> avail m fs \<and> (\<forall>a. type_at (ents m) xs a = (case type_in (e820_entries rs) a of None \<Rightarrow> type_at (ents (mmap_initial (static_slots c))) [] a | Some t \<Rightarrow> Some t))"
      by (rule add_list_ok [OF i(1) g _ n(2)]) (use i(2) n(1) in auto)
    moreover have "(case type_in (e820_entries rs) a of None \<Rightarrow> type_at (ents (mmap_initial (static_slots c))) [] a | Some t \<Rightarrow> Some t)
      = type_in (e820_entries rs) a" for a by (cases "type_in (e820_entries rs) a") simp_all
    ultimately show thesis using that by auto
  qed
  have "e820_calls rs = rs" using rep(3) by (simp add: e820_calls_def)
  then obtain mc' where "try_e820 c pf st = Inr (st\<lparr>mach := mc', sysmap := m\<rparr>, True)"
    using try_e820_reports [OF rep(1,2), of st] m(1) s(1) by auto
  with m(2,3) show ?thesis by fastforce
qed

section \<open>E881 and E801\<close>

lemma u32_mult_65536: "unat (w * 1024 * 64 :: u32) = (unat w * 65536) mod 2 ^ 32"
  by (simp add: unat_word_ariths mod_mult_left_eq mult.assoc)

lemma try_e8x1_regions:
  assumes "bios_int_call pf 0x15 (zero_registers\<lparr>eax := 0xE881\<rparr>) (mach st) = (regs, mc)" "\<not> carry regs" "ecx regs \<noteq> 0"
  shows "\<exists>z. unat z = (unat (edx regs) * 65536) mod 2 ^ 32 \<and>
    try_e8x1 c pf 0xE881 st = andthen (add_list (depth c) (sysmap st)
      [region 0x100000 (ucast (ecx regs * 1024)) gd_conventional_memory, region 0x1000000 z gd_conventional_memory])
      (\<lambda>m. Inr (st\<lparr>mach := mc, sysmap := m\<rparr>, True))"
proof -
  let ?z = "ucast (edx regs * 1024 * 64) :: u64"
  have "unat ?z = (unat (edx regs) * 65536) mod 2 ^ 32" by (simp only: unat_ucast_mod u32_mult_65536) simp
  moreover have "try_e8x1 c pf 0xE881 st = andthen (add_list (depth c) (sysmap st)
      [region 0x100000 (ucast (ecx regs * 1024)) gd_conventional_memory, region 0x1000000 ?z gd_conventional_memory])
      (\<lambda>m. Inr (st\<lparr>mach := mc, sysmap := m\<rparr>, True))"
    using assms by (simp add: try_e8x1_def int_call_def add_entry_def andthen_assoc)
  ultimately show ?thesis by blast
qed

section \<open>A firmware with a list of ranges\<close>

text \<open>
  The interrupt function E820 over a list: it reads the registers at the stack pointer, writes the
  range whose number is the continuation value to \<open>es:di\<close>, and writes the registers back.
\<close>

definition list_firmware :: "address_range list \<Rightarrow> u32 \<Rightarrow> u8 \<Rightarrow> addr \<Rightarrow> unit machine \<Rightarrow> unit machine" where
  "list_firmware rs target num sp mc =
     (let regs = load_regs (mem mc) sp; k = unat (ebx regs);
          buf = ucast (es regs) * 16 + ucast (ucast (edi regs) :: u16);
          regs' = regs\<lparr>eax := SMAP, ecx := 24, eflags := 0, ebx := (if Suc k < length rs then ebx regs + 1 else 0)\<rparr>
      in mc\<lparr>mem := store_bytes (store_bytes (mem mc) buf (range_bytes (rs ! k))) sp (regs_bytes regs')\<rparr>)"

definition list_platform :: "address_range list \<Rightarrow> unit platform" where
  "list_platform rs = \<lparr>bios_services = \<lparr>magic = 0, tsize = 20, rm_stack = 0x7000, far_call_ptr = 0, int_call_ptr = 0\<rparr>,
     int_entry = list_firmware rs, far_entry = (\<lambda>_ _ mc. mc), port_in = (\<lambda>_ mc. (0, mc)), port_out = (\<lambda>_ _ mc. mc)\<rparr>"

lemma list_platform_reports:
  assumes rs: "rs \<noteq> []" "length rs < 2 ^ 32" and p: "range_ptr c < 0x100000"
    and d: "\<And>x. in_block (range_ptr c) 24 x \<Longrightarrow> \<not> in_block 0x6FD0 44 x"
  shows "e820_reports c (list_platform rs) of_nat rs"
  unfolding e820_reports_def
proof (intro conjI allI impI)
  show "(of_nat k :: u32) \<noteq> 0" if "0 < k \<and> k < length rs" for k
    using that rs(2) by (simp add: word_unat_eq_iff unat_of_nat)
  fix mc :: "unit machine" and regs :: bios_registers and k :: nat
  assume k: "k < length rs \<and> ebx regs = of_nat k \<and> load32 (mem mc) (range_ptr c + 20) = entry_present"
  let ?pf = "list_platform rs" and ?R = "e820_regs c regs"
  have f: "int_frame ?pf = 0x6FD0" by (simp add: int_frame_def list_platform_def)
  obtain m where m: "load_regs m 0x6FD0 = ?R"
    "bios_int_call ?pf 0x15 ?R mc = (load_regs (mem (list_firmware rs 0 0x15 0x6FD0 (mc\<lparr>mem := m\<rparr>))) 0x6FD0,
      list_firmware rs 0 0x15 0x6FD0 (mc\<lparr>mem := m\<rparr>))"
    using int_call_frame [where pf = ?pf and regs = ?R and mc = mc and num = "0x15"] f by (auto simp: list_platform_def Let_def)
  have u: "unat (ebx ?R) = k" using k rs(2) by (simp add: e820_regs_def unat_of_nat)
  have "ucast (ucast (rm_offset_from_ptr (range_ptr c)) :: u32) = rm_offset_from_ptr (range_ptr c)"
  proof -
    have "unat (rm_offset_from_ptr (range_ptr c)) < 2 ^ LENGTH(16)" by (rule unsigned_less)
    then show ?thesis by (simp add: word_unat_eq_iff unat_ucast_mod)
  qed
  then have b: "ucast (es ?R) * 16 + ucast (ucast (edi ?R) :: u16) = range_ptr c"
    using seg_offset [OF p] by (simp add: e820_regs_def)
  define R' where "R' = ?R\<lparr>eax := SMAP, ecx := 24, eflags := 0, ebx := (if Suc k < length rs then ebx ?R + 1 else 0)\<rparr>"
  have mem: "mem (list_firmware rs 0 0x15 0x6FD0 (mc\<lparr>mem := m\<rparr>)) =
      store_bytes (store_bytes m (range_ptr c) (range_bytes (rs ! k))) 0x6FD0 (regs_bytes R')"
    unfolding list_firmware_def using m(1) u b by (simp add: R'_def Let_def del: store_bytes.simps)
  have "load_range (store_bytes (store_bytes m (range_ptr c) (range_bytes (rs ! k))) 0x6FD0 (regs_bytes R')) (range_ptr c) = rs ! k"
    using d load_store_bytes [of "range_bytes (rs ! k)" m "range_ptr c"]
    by (intro load_range_bytes) (simp add: load_store_other del: store_bytes.simps load_bytes.simps)
  moreover have "\<not> carry R'" "\<not> e820_invalid R'" "ebx R' = (if Suc k < length rs then of_nat (Suc k) else 0)"
    using k by (simp_all add: R'_def carry_def e820_invalid_def e820_regs_def)
  ultimately show "case bios_int_call ?pf 0x15 ?R mc of (regs', mc') \<Rightarrow> \<not> carry regs' \<and> \<not> e820_invalid regs' \<and>
      load_range (mem mc') (range_ptr c) = rs ! k \<and> ebx regs' = (if Suc k < length rs then of_nat (Suc k) else 0)"
    unfolding m(2) mem by (simp add: load_store_regs mem del: store_bytes.simps)
qed (use rs in simp_all)

end
