(* ===== verification/Bios_Properties.thy ===== *)
theory Bios_Properties
  imports Bios_Memory_Map_Correct
begin

text \<open>
  What the calls of the firmware and the detection of the memory map achieve, with instances on a
  firmware that reports a list of ranges.
\<close>

section \<open>Calls\<close>

text \<open>A linear address below 1 MiB survives the conversion to a real-mode far pointer and back;
  segment and offset address the same byte, and the far pointer is made of them.\<close>

theorem rm_pointer_round_trip:
  assumes "v < 0x100000"
  shows "rm_ptr_from_far (rm_far_from_ptr v) = v \<and>
    ucast (rm_seg_from_ptr v) * 16 + ucast (rm_offset_from_ptr v) = v \<and>
    rm_far_from_ptr v = push_bit 16 (ucast (rm_seg_from_ptr v)) OR ucast (rm_offset_from_ptr v)"
  using ptr_far_ptr [OF assms] seg_offset [OF assms] far_seg_offset [OF assms] by simp

theorem rm_pointer_round_trip_witness: "rm_ptr_from_far (rm_far_from_ptr 0x9FC0D) = 0x9FC0D"
  by (rule conjunct1 [OF rm_pointer_round_trip]) simp

text \<open>C33. \<open>bios_int_call\<close> hands the registers over intact: the transition vector finds them at its stack
  pointer, 48 bytes below the top of the real-mode stack; no byte outside of these 48 is changed
  before, and the result is what the vector leaves at its stack pointer.\<close>

theorem bios_int_call_frame:
  "\<exists>m. load_regs m (int_frame pf) = regs \<and> (\<forall>x. in_block (int_frame pf) 48 x \<or> m x = mem mc x) \<and>
     (let mc' = int_entry pf (int_call_ptr (bios_services pf)) num (int_frame pf) (mc\<lparr>mem := m\<rparr>)
      in bios_int_call pf num regs mc = (load_regs (mem mc') (int_frame pf), mc'))"
  using int_call_frame [where pf = pf and regs = regs and mc = mc and num = num] by (metis (mono_tags, lifting))

section \<open>E820\<close>

definition two_ranges :: "address_range list" where
  "two_ranges = [\<lparr>range_start = 0, range_size = 0x9F000, range_type = 1, range_attributes = 1\<rparr>,
     \<lparr>range_start = 0x100000, range_size = 0x7F00000, range_type = 3, range_attributes = 1\<rparr>]"

definition sample_config :: config where
  "sample_config = \<lparr>range_ptr = 0x8000, static_slots = 0x9000, depth = 9, limit = 4\<rparr>"

definition start_state :: "unit bios_state" where
  "start_state = \<lparr>mach = \<lparr>mem = (\<lambda>_. 0), world = ()\<rparr>, sysmap = mmap_initial 0x9000, base_memory = 0\<rparr>"

text \<open>A firmware that gives the same answer to every interrupt.\<close>

definition const_platform :: "bios_registers \<Rightarrow> unit platform" where
  "const_platform r = (list_platform [])\<lparr>int_entry := (\<lambda>_ _ sp mc. mc\<lparr>mem := store_bytes (mem mc) sp (regs_bytes r)\<rparr>)\<rparr>"

lemma const_platform_call: "\<exists>mc'. bios_int_call (const_platform r) num regs mc = (r, mc')"
  using int_call_frame [where pf = "const_platform r" and regs = regs and mc = mc and num = num]
  by (auto simp: const_platform_def Let_def load_store_regs)

lemma two_ranges_reported: "e820_reports sample_config (list_platform two_ranges) of_nat two_ranges"
proof (rule list_platform_reports)
  show "\<not> in_block 0x6FD0 44 x" if "in_block (range_ptr sample_config) 24 x" for x
    using in_block_range [of "0x8000" 24 x] in_block_range [of "0x6FD0" 44 x] that by (auto simp: sample_config_def)
qed (simp_all add: two_ranges_def sample_config_def)

text \<open>C8. When the firmware reports a list of ranges through E820 (of at most \<open>limit\<close> ranges, so the loop
  ends), \<open>mmap_init\<close> adds exactly the present ones, in the order of the report and with their types
  translated, then the low page and the loader.  A report of more than one range, or of none, is added
  once; a report of a single range is added twice, because the loop does not look at the continuation
  value of the first call (\<open>e820_calls\<close>).\<close>

theorem mmap_init_adds_reports:
  assumes "e820_reports c pf cont rs" and "length rs \<le> limit c"
  shows "\<exists>mc'. mmap_init c pf st = andthen (add_list (depth c) (sysmap st) (e820_entries (e820_calls rs) @ [low_mem, gandr_mem]))
    (\<lambda>m. Inr (st\<lparr>mach := mc', sysmap := m\<rparr>))"
  using assms by (rule mmap_init_reports)

theorem mmap_init_adds_reports_witness:
  "\<exists>mc'. mmap_init sample_config (list_platform two_ranges) start_state =
    andthen (add_list 9 (mmap_initial 0x9000) (e820_entries two_ranges @ [low_mem, gandr_mem]))
    (\<lambda>m. Inr (start_state\<lparr>mach := mc', sysmap := m\<rparr>))"
  using mmap_init_adds_reports [OF two_ranges_reported, of start_state]
  by (simp add: sample_config_def two_ranges_def start_state_def e820_calls_def del: add_list.simps)

text \<open>C7. Starting from the empty map, if the report is not of a single range and its present ranges are disjoint,
  made of whole pages and at most 32, then E820 detection returns true with a well-formed map in which every address has
  the type of the range that covers it, and no other address is in the map.\<close>

theorem try_e820_builds_map:
  assumes "e820_reports c pf cont rs" and "length rs \<le> limit c" and "length rs \<noteq> 1"
    and "\<forall>e\<in>set (e820_entries rs). good default_precedence e" and "disjoint_regions (e820_entries rs)"
    and "sysmap st = mmap_initial (static_slots c)" and "static_slots c \<noteq> NULL" and "unat (static_slots c) + 32 * 72 < 2 ^ 64"
    and "length (e820_entries rs) \<le> 32" and "1 < depth c"
  shows "\<exists>st' xs fs. try_e820 c pf st = Inr (st', True) \<and> map_ok default_precedence (sysmap st') xs fs \<and>
    (\<forall>a. type_at (ents (sysmap st')) xs a = type_in (e820_entries rs) a)"
  using assms by (rule try_e820_types)

theorem try_e820_builds_map_witness:
  "\<exists>st' xs. try_e820 sample_config (list_platform two_ranges) start_state = Inr (st', True) \<and>
    type_at (ents (sysmap st')) xs 0x100000 = Some gd_acpi_reclaim_memory"
proof -
  have e: "e820_entries two_ranges = [region 0 0x9F000 gd_conventional_memory, region 0x100000 0x7F00000 gd_acpi_reclaim_memory]"
    by (simp add: e820_entries_def two_ranges_def present_def entry_present_def acpi_entry_def acpi_to_gd_def zero_entry_def)
  have c: "limit sample_config = 4" "length two_ranges = 2" "static_slots sample_config = 0x9000" "depth sample_config = 9"
    "sysmap start_state = mmap_initial 0x9000" by (simp_all add: sample_config_def two_ranges_def start_state_def)
  have "\<forall>e\<in>set (e820_entries two_ranges). good default_precedence e" "disjoint_regions (e820_entries two_ranges)"
    by (simp_all add: e good_def lo_def hi_def precedence_default disjoint_regions_def zero_entry_def)
  then obtain st' xs where "try_e820 sample_config (list_platform two_ranges) start_state = Inr (st', True)"
    "\<And>a. type_at (ents (sysmap st')) xs a = type_in (e820_entries two_ranges) a"
    using try_e820_builds_map [OF two_ranges_reported, of start_state] c e by auto
  moreover have "type_in (e820_entries two_ranges) 0x100000 = Some gd_acpi_reclaim_memory"
    by (simp add: e covers_def lo_def hi_def zero_entry_def)
  ultimately show ?thesis by metis
qed

text \<open>An invalid answer in the middle of the E820 list (no carry, but a wrong signature or less than 20
  bytes) makes the detection return false with an empty, well-formed map.\<close>

theorem e820_loop_invalid:
  assumes "mm (sysmap st) xs frees" and "static_slots c \<noteq> NULL" and "unat (static_slots c) + 32 * 72 < 2 ^ 64"
    and "int_call pf 0x15 (e820_regs c regs) (store_mem (range_ptr c + 20) (word_le 4 entry_present) st) = (regs', st')"
    and "sysmap st' = sysmap st" and "\<not> carry regs'" and "e820_invalid regs'"
  shows "\<exists>st''. e820_loop (Suc n) c pf regs st = Inr (st'', False) \<and> mm (sysmap st'') [] []"
  using mmap_clean_ok [OF assms(1-3)] assms(4-7) by (auto simp: clean_map_def)

theorem e820_loop_invalid_witness:
  "\<exists>st''. e820_loop 1 sample_config (const_platform zero_registers) zero_registers start_state = Inr (st'', False) \<and> mm (sysmap st'') [] []"
proof -
  let ?st = "store_mem (range_ptr sample_config + 20) (word_le 4 entry_present) start_state"
  obtain mc where mc: "bios_int_call (const_platform zero_registers) 0x15 (e820_regs sample_config zero_registers) (mach ?st) = (zero_registers, mc)"
    using const_platform_call by blast
  have "mm (sysmap start_state) [] []"
    using initial_map_ok(1) [of "0x9000"] by (simp add: start_state_def map_ok_def)
  moreover have "\<not> carry zero_registers" "e820_invalid zero_registers"
    by (simp_all add: carry_def e820_invalid_def zero_registers_def SMAP_def)
  moreover have "int_call (const_platform zero_registers) 0x15 (e820_regs sample_config zero_registers) ?st = (zero_registers, ?st\<lparr>mach := mc\<rparr>)"
    using mc by (simp add: int_call_def)
  ultimately show ?thesis
    using e820_loop_invalid [of start_state "[]" "[]" sample_config "const_platform zero_registers" zero_registers _ _ 0]
    by (simp add: sample_config_def store_mem_def)
qed

text \<open>\<open>try_e8x1(0xE881)\<close> computes the size of the memory above 16 MiB, given in blocks of 64 KiB, in 32
  bits: the region it adds has the reported size modulo 4 GiB.\<close>

theorem try_e881_wraps:
  assumes "bios_int_call pf 0x15 (zero_registers\<lparr>eax := 0xE881\<rparr>) (mach st) = (regs, mc)" and "\<not> carry regs" and "ecx regs \<noteq> 0"
  shows "\<exists>z. unat z = (unat (edx regs) * 65536) mod 2 ^ 32 \<and>
    try_e8x1 c pf 0xE881 st = andthen (add_list (depth c) (sysmap st)
      [region 0x100000 (ucast (ecx regs * 1024)) gd_conventional_memory, region 0x1000000 z gd_conventional_memory])
      (\<lambda>m. Inr (st\<lparr>mach := mc, sysmap := m\<rparr>, True))"
  using assms by (rule try_e8x1_regions)

definition e881_answer :: bios_registers where
  "e881_answer = zero_registers\<lparr>ecx := 0x3C00, edx := 0x10001\<rparr>"

theorem try_e881_wraps_witness:
  "\<exists>z mc. unat z = 65536 \<and> try_e8x1 sample_config (const_platform e881_answer) 0xE881 start_state =
    andthen (add_list 9 (mmap_initial 0x9000)
      [region 0x100000 0xF00000 gd_conventional_memory, region 0x1000000 z gd_conventional_memory])
      (\<lambda>m. Inr (start_state\<lparr>mach := mc, sysmap := m\<rparr>, True))"
proof -
  obtain mc where "bios_int_call (const_platform e881_answer) 0x15 (zero_registers\<lparr>eax := 0xE881\<rparr>) (mach start_state) = (e881_answer, mc)"
    using const_platform_call by blast
  from try_e881_wraps [OF this, of sample_config] show ?thesis
    by (simp add: carry_def e881_answer_def zero_registers_def sample_config_def start_state_def del: add_list.simps) blast
qed

end
