(* ===== verification/Gio.thy ===== *)
theory Gio
  imports Gandr_Prelude
begin

text \<open>
  Generic I/O: \<^verbatim>\<open>bal/gio.c\<close>, the x86 port instructions (\<^verbatim>\<open>portio.h\<close>), and the two implementations of the
  \<open>gio\<close> accessors (\<^verbatim>\<open>gio_arch.h\<close> for x86 and \<^verbatim>\<open>gio_generic.h\<close> for machines with memory-mapped I/O only).

  A device is whatever answers the reads: the state holds the accesses made so far, newest first,
  and the answer to the \<open>k\<close>-th read.  A theorem for all answers covers every behaviour of the devices.
\<close>

section \<open>The state of the I/O\<close>

datatype io_space = Mem addr | Port u16

datatype io =
    Read8 io_space u8 | Read16 io_space u16 | Read32 io_space u32
  | Write8 io_space u8 | Write16 io_space u16 | Write32 io_space u32

record io_state =
  events :: "io list"
  answers :: "nat \<Rightarrow> u32"
  nreads :: nat

definition emit :: "io \<Rightarrow> io_state \<Rightarrow> io_state" where
  "emit e st = st\<lparr>events := e # events st\<rparr>"

text \<open>The next answer; a narrower read sees its low bits.\<close>

definition read8 :: "io_space \<Rightarrow> io_state \<Rightarrow> u8 \<times> io_state" where
  "read8 a st = (let v = ucast (answers st (nreads st)) in (v, emit (Read8 a v) (st\<lparr>nreads := Suc (nreads st)\<rparr>)))"

definition read16 :: "io_space \<Rightarrow> io_state \<Rightarrow> u16 \<times> io_state" where
  "read16 a st = (let v = ucast (answers st (nreads st)) in (v, emit (Read16 a v) (st\<lparr>nreads := Suc (nreads st)\<rparr>)))"

definition read32 :: "io_space \<Rightarrow> io_state \<Rightarrow> u32 \<times> io_state" where
  "read32 a st = (let v = answers st (nreads st) in (v, emit (Read32 a v) (st\<lparr>nreads := Suc (nreads st)\<rparr>)))"

section \<open>Ports\<close>

definition outb :: "u16 \<Rightarrow> u8 \<Rightarrow> io_state \<Rightarrow> io_state" where
  "outb port val = emit (Write8 (Port port) val)"

definition inb :: "u16 \<Rightarrow> io_state \<Rightarrow> u8 \<times> io_state" where
  "inb port = read8 (Port port)"

definition outw :: "u16 \<Rightarrow> u16 \<Rightarrow> io_state \<Rightarrow> io_state" where
  "outw port val = emit (Write16 (Port port) val)"

definition inw :: "u16 \<Rightarrow> io_state \<Rightarrow> u16 \<times> io_state" where
  "inw port = read16 (Port port)"

definition outl :: "u16 \<Rightarrow> u32 \<Rightarrow> io_state \<Rightarrow> io_state" where
  "outl port val = emit (Write32 (Port port) val)"

definition inl :: "u16 \<Rightarrow> io_state \<Rightarrow> u32 \<times> io_state" where
  "inl port = read32 (Port port)"

section \<open>Addresses\<close>

text \<open>
  On x86 a \<open>gio_addr\<close> is a union of 8 bytes: the most significant byte is the tag \<open>type\<close>, the low 16
  bits are \<open>portio_base\<close>, and the whole is \<open>mmio_base\<close>.  The generic \<open>gio_addr\<close> is a pointer.
\<close>

type_synonym gio_addr = u64

datatype gio_arch = X86 | Generic

definition gio_type :: "gio_addr \<Rightarrow> u8" where
  "gio_type a = ucast (drop_bit 56 a)"

definition portio_base :: "gio_addr \<Rightarrow> u16" where
  "portio_base a = ucast a"

definition GIO_MMIO_ADDR :: "addr \<Rightarrow> gio_addr" where
  "GIO_MMIO_ADDR a = a"

definition GIO_PORTIO_ADDR :: "u16 \<Rightarrow> gio_addr" where
  "GIO_PORTIO_ADDR p = ucast p OR push_bit 56 1"

definition port_at :: "gio_addr \<Rightarrow> u64 \<Rightarrow> u16" where
  "port_at a offs = ucast (ucast (portio_base a) + offs)"

section \<open>Accessors with an offset\<close>

definition x86_write8_offset :: "gio_addr \<Rightarrow> u64 \<Rightarrow> u8 \<Rightarrow> io_state \<Rightarrow> io_state" where
  "x86_write8_offset a offs val = (if gio_type a = 0 then emit (Write8 (Mem (a + offs)) val) else outb (port_at a offs) val)"

definition x86_write16_offset :: "gio_addr \<Rightarrow> u64 \<Rightarrow> u16 \<Rightarrow> io_state \<Rightarrow> io_state" where
  "x86_write16_offset a offs val = (if gio_type a = 0 then emit (Write16 (Mem (a + offs)) val) else outw (port_at a offs) val)"

definition x86_write32_offset :: "gio_addr \<Rightarrow> u64 \<Rightarrow> u32 \<Rightarrow> io_state \<Rightarrow> io_state" where
  "x86_write32_offset a offs val = (if gio_type a = 0 then emit (Write32 (Mem (a + offs)) val) else outl (port_at a offs) val)"

definition x86_read8_offset :: "gio_addr \<Rightarrow> u64 \<Rightarrow> io_state \<Rightarrow> u8 \<times> io_state" where
  "x86_read8_offset a offs = (if gio_type a = 0 then read8 (Mem (a + offs)) else inb (port_at a offs))"

definition x86_read16_offset :: "gio_addr \<Rightarrow> u64 \<Rightarrow> io_state \<Rightarrow> u16 \<times> io_state" where
  "x86_read16_offset a offs = (if gio_type a = 0 then read16 (Mem (a + offs)) else inw (port_at a offs))"

definition x86_read32_offset :: "gio_addr \<Rightarrow> u64 \<Rightarrow> io_state \<Rightarrow> u32 \<times> io_state" where
  "x86_read32_offset a offs = (if gio_type a = 0 then read32 (Mem (a + offs)) else inl (port_at a offs))"

definition mmio_write8_offset :: "gio_addr \<Rightarrow> u64 \<Rightarrow> u8 \<Rightarrow> io_state \<Rightarrow> io_state" where
  "mmio_write8_offset a offs val = emit (Write8 (Mem (a + offs)) val)"

definition mmio_write16_offset :: "gio_addr \<Rightarrow> u64 \<Rightarrow> u16 \<Rightarrow> io_state \<Rightarrow> io_state" where
  "mmio_write16_offset a offs val = emit (Write16 (Mem (a + offs)) val)"

definition mmio_write32_offset :: "gio_addr \<Rightarrow> u64 \<Rightarrow> u32 \<Rightarrow> io_state \<Rightarrow> io_state" where
  "mmio_write32_offset a offs val = emit (Write32 (Mem (a + offs)) val)"

definition mmio_read8_offset :: "gio_addr \<Rightarrow> u64 \<Rightarrow> io_state \<Rightarrow> u8 \<times> io_state" where
  "mmio_read8_offset a offs = read8 (Mem (a + offs))"

definition mmio_read16_offset :: "gio_addr \<Rightarrow> u64 \<Rightarrow> io_state \<Rightarrow> u16 \<times> io_state" where
  "mmio_read16_offset a offs = read16 (Mem (a + offs))"

definition mmio_read32_offset :: "gio_addr \<Rightarrow> u64 \<Rightarrow> io_state \<Rightarrow> u32 \<times> io_state" where
  "mmio_read32_offset a offs = read32 (Mem (a + offs))"

text \<open>The accessors that a program is compiled with.\<close>

fun gio_write8_offset :: "gio_arch \<Rightarrow> gio_addr \<Rightarrow> u64 \<Rightarrow> u8 \<Rightarrow> io_state \<Rightarrow> io_state" where
  "gio_write8_offset X86 = x86_write8_offset" | "gio_write8_offset Generic = mmio_write8_offset"

fun gio_write16_offset :: "gio_arch \<Rightarrow> gio_addr \<Rightarrow> u64 \<Rightarrow> u16 \<Rightarrow> io_state \<Rightarrow> io_state" where
  "gio_write16_offset X86 = x86_write16_offset" | "gio_write16_offset Generic = mmio_write16_offset"

fun gio_write32_offset :: "gio_arch \<Rightarrow> gio_addr \<Rightarrow> u64 \<Rightarrow> u32 \<Rightarrow> io_state \<Rightarrow> io_state" where
  "gio_write32_offset X86 = x86_write32_offset" | "gio_write32_offset Generic = mmio_write32_offset"

fun gio_read8_offset :: "gio_arch \<Rightarrow> gio_addr \<Rightarrow> u64 \<Rightarrow> io_state \<Rightarrow> u8 \<times> io_state" where
  "gio_read8_offset X86 = x86_read8_offset" | "gio_read8_offset Generic = mmio_read8_offset"

fun gio_read16_offset :: "gio_arch \<Rightarrow> gio_addr \<Rightarrow> u64 \<Rightarrow> io_state \<Rightarrow> u16 \<times> io_state" where
  "gio_read16_offset X86 = x86_read16_offset" | "gio_read16_offset Generic = mmio_read16_offset"

fun gio_read32_offset :: "gio_arch \<Rightarrow> gio_addr \<Rightarrow> u64 \<Rightarrow> io_state \<Rightarrow> u32 \<times> io_state" where
  "gio_read32_offset X86 = x86_read32_offset" | "gio_read32_offset Generic = mmio_read32_offset"

section \<open>Accessors with an index\<close>

definition gio_write8_index :: "gio_arch \<Rightarrow> gio_addr \<Rightarrow> u64 \<Rightarrow> u8 \<Rightarrow> io_state \<Rightarrow> io_state" where
  "gio_write8_index ar a idx = gio_write8_offset ar a idx"

definition gio_write16_index :: "gio_arch \<Rightarrow> gio_addr \<Rightarrow> u64 \<Rightarrow> u16 \<Rightarrow> io_state \<Rightarrow> io_state" where
  "gio_write16_index ar a idx = gio_write16_offset ar a (idx * 2)"

definition gio_write32_index :: "gio_arch \<Rightarrow> gio_addr \<Rightarrow> u64 \<Rightarrow> u32 \<Rightarrow> io_state \<Rightarrow> io_state" where
  "gio_write32_index ar a idx = gio_write32_offset ar a (idx * 4)"

definition gio_read8_index :: "gio_arch \<Rightarrow> gio_addr \<Rightarrow> u64 \<Rightarrow> io_state \<Rightarrow> u8 \<times> io_state" where
  "gio_read8_index ar a idx = gio_read8_offset ar a idx"

definition gio_read16_index :: "gio_arch \<Rightarrow> gio_addr \<Rightarrow> u64 \<Rightarrow> io_state \<Rightarrow> u16 \<times> io_state" where
  "gio_read16_index ar a idx = gio_read16_offset ar a (idx * 2)"

definition gio_read32_index :: "gio_arch \<Rightarrow> gio_addr \<Rightarrow> u64 \<Rightarrow> io_state \<Rightarrow> u32 \<times> io_state" where
  "gio_read32_index ar a idx = gio_read32_offset ar a (idx * 4)"

definition gio_write8 :: "gio_arch \<Rightarrow> gio_addr \<Rightarrow> u8 \<Rightarrow> io_state \<Rightarrow> io_state" where
  "gio_write8 ar a = gio_write8_offset ar a 0"

definition gio_write16 :: "gio_arch \<Rightarrow> gio_addr \<Rightarrow> u16 \<Rightarrow> io_state \<Rightarrow> io_state" where
  "gio_write16 ar a = gio_write16_offset ar a 0"

definition gio_write32 :: "gio_arch \<Rightarrow> gio_addr \<Rightarrow> u32 \<Rightarrow> io_state \<Rightarrow> io_state" where
  "gio_write32 ar a = gio_write32_offset ar a 0"

definition gio_read8 :: "gio_arch \<Rightarrow> gio_addr \<Rightarrow> io_state \<Rightarrow> u8 \<times> io_state" where
  "gio_read8 ar a = gio_read8_offset ar a 0"

definition gio_read16 :: "gio_arch \<Rightarrow> gio_addr \<Rightarrow> io_state \<Rightarrow> u16 \<times> io_state" where
  "gio_read16 ar a = gio_read16_offset ar a 0"

definition gio_read32 :: "gio_arch \<Rightarrow> gio_addr \<Rightarrow> io_state \<Rightarrow> u32 \<times> io_state" where
  "gio_read32 ar a = gio_read32_offset ar a 0"

section \<open>Accessors whose width is an argument\<close>

text \<open>Any width but 8, 16 and 32 bits is a loop that does not end.\<close>

definition gio_write_index :: "gio_arch \<Rightarrow> u64 \<Rightarrow> gio_addr \<Rightarrow> u64 \<Rightarrow> u64 \<Rightarrow> io_state \<Rightarrow> io_state outcome" where
  "gio_write_index ar width base index val st =
     (if width = 8 then Inr (gio_write8_index ar base index (ucast val) st)
      else if width = 16 then Inr (gio_write16_index ar base index (ucast val) st)
      else if width = 32 then Inr (gio_write32_index ar base index (ucast val) st)
      else Inl Crash)"

definition gio_read_index :: "gio_arch \<Rightarrow> u64 \<Rightarrow> gio_addr \<Rightarrow> u64 \<Rightarrow> io_state \<Rightarrow> (u64 \<times> io_state) outcome" where
  "gio_read_index ar width base index st =
     (if width = 8 then (let (v, st) = gio_read8_index ar base index st in Inr (ucast v, st))
      else if width = 16 then (let (v, st) = gio_read16_index ar base index st in Inr (ucast v, st))
      else if width = 32 then (let (v, st) = gio_read32_index ar base index st in Inr (ucast v, st))
      else Inl Crash)"

definition gio_write :: "gio_arch \<Rightarrow> u64 \<Rightarrow> gio_addr \<Rightarrow> u64 \<Rightarrow> io_state \<Rightarrow> io_state outcome" where
  "gio_write ar width a val = gio_write_index ar width a 0 val"

definition gio_read :: "gio_arch \<Rightarrow> u64 \<Rightarrow> gio_addr \<Rightarrow> io_state \<Rightarrow> (u64 \<times> io_state) outcome" where
  "gio_read ar width a = gio_read_index ar width a 0"

section \<open>Laws\<close>

text \<open>The place that an access of a program goes to.\<close>

fun place :: "gio_arch \<Rightarrow> gio_addr \<Rightarrow> u64 \<Rightarrow> io_space" where
  "place X86 a offs = (if gio_type a = 0 then Mem (a + offs) else Port (port_at a offs))"
| "place Generic a offs = Mem (a + offs)"

lemma offset_places:
  "gio_write8_offset ar a offs v = emit (Write8 (place ar a offs) v)"
  "gio_write16_offset ar a offs w = emit (Write16 (place ar a offs) w)"
  "gio_write32_offset ar a offs d = emit (Write32 (place ar a offs) d)"
  "gio_read8_offset ar a offs = read8 (place ar a offs)"
  "gio_read16_offset ar a offs = read16 (place ar a offs)"
  "gio_read32_offset ar a offs = read32 (place ar a offs)"
  by (cases ar; simp add: x86_write8_offset_def x86_write16_offset_def x86_write32_offset_def x86_read8_offset_def
    x86_read16_offset_def x86_read32_offset_def mmio_write8_offset_def mmio_write16_offset_def mmio_write32_offset_def
    mmio_read8_offset_def mmio_read16_offset_def mmio_read32_offset_def outb_def outw_def outl_def inb_def inw_def inl_def)+

lemmas index_places = gio_write8_index_def gio_write16_index_def gio_write32_index_def gio_read8_index_def
  gio_read16_index_def gio_read32_index_def offset_places

lemma mmio_tag: "unat a < 2 ^ 56 \<Longrightarrow> gio_type (GIO_MMIO_ADDR a) = 0"
  by (simp add: word_unat_eq_iff gio_type_def GIO_MMIO_ADDR_def unat_arith)

lemma portio_tag: "gio_type (GIO_PORTIO_ADDR p) \<noteq> 0" "portio_base (GIO_PORTIO_ADDR p) = p"
proof -
  have "bit (gio_type (GIO_PORTIO_ADDR p)) 0" by (simp add: gio_type_def GIO_PORTIO_ADDR_def bit_simps)
  then show "gio_type (GIO_PORTIO_ADDR p) \<noteq> 0" by auto
  have "\<not> bit (push_bit 56 (1 :: u64)) n" if "n < 16" for n using that by (simp only: bit_push_bit_iff) simp
  then show "portio_base (GIO_PORTIO_ADDR p) = p"
    unfolding portio_base_def GIO_PORTIO_ADDR_def
    by (auto simp only: bit_eq_iff bit_unsigned_iff bit_or_iff) (auto simp: bit_imp_le_length)
qed

end
