(* ===== verification/Uart_PL011.thy ===== *)
theory Uart_PL011
  imports Gio
begin

text \<open>
  The driver of the ARM PL011 serial port (\<^verbatim>\<open>bal/device/uart/arm_pl011/arm_pl011.c\<close>): polled output and
  input, configuration of the line, and the attachment to a device-tree node.
\<close>

section \<open>Data\<close>

definition UART_DR :: u64 where "UART_DR = 0"
definition UART_FR :: u64 where "UART_FR = 6"
definition UART_IBRD :: u64 where "UART_IBRD = 9"
definition UART_FBRD :: u64 where "UART_FBRD = 10"
definition UART_LCR_H :: u64 where "UART_LCR_H = 11"
definition UART_CR :: u64 where "UART_CR = 12"
definition UART_IMSC :: u64 where "UART_IMSC = 14"
definition UART_DMACR :: u64 where "UART_DMACR = 18"

definition UART_FR_RXFE_BIT :: u32 where "UART_FR_RXFE_BIT = push_bit 4 1"
definition UART_FR_TXFF_BIT :: u32 where "UART_FR_TXFF_BIT = push_bit 5 1"

definition UART_CR_UARTEN_BIT :: u32 where "UART_CR_UARTEN_BIT = push_bit 0 1"
definition UART_CR_TXE_BIT :: u32 where "UART_CR_TXE_BIT = push_bit 8 1"
definition UART_CR_RXE_BIT :: u32 where "UART_CR_RXE_BIT = push_bit 9 1"
definition UART_CR_RTS_BIT :: u32 where "UART_CR_RTS_BIT = push_bit 11 1"
definition UART_CR_RTSEn_BIT :: u32 where "UART_CR_RTSEn_BIT = push_bit 14 1"
definition UART_CR_CTSEn_BIT :: u32 where "UART_CR_CTSEn_BIT = push_bit 15 1"

definition UART_LCR_H_PEN_BIT :: u32 where "UART_LCR_H_PEN_BIT = push_bit 1 1"
definition UART_LCR_H_EPS_BIT :: u32 where "UART_LCR_H_EPS_BIT = push_bit 2 1"
definition UART_LCR_H_STP2_BIT :: u32 where "UART_LCR_H_STP2_BIT = push_bit 3 1"
definition UART_LCR_H_FEN_BIT :: u32 where "UART_LCR_H_FEN_BIT = push_bit 4 1"
definition UART_LCR_H_WLEN_SHIFT :: nat where "UART_LCR_H_WLEN_SHIFT = 5"

datatype gd_uart_parity = GD_UART_NO_PARITY | GD_UART_ODD_PARITY | GD_UART_EVEN_PARITY

datatype gd_uart_flow_control =
  GD_UART_NO_FLOW_CONTROL | GD_UART_RTS_CTS_FLOW_CONTROL | GD_UART_RTR_CTS_FLOW_CONTROL

record gd_uart_config =
  baud :: u32
  bits :: u8
  parity :: gd_uart_parity
  stop_bits :: u8
  flow_control :: gd_uart_flow_control

record arm_pl011_dev =
  base :: gio_addr
  brg_clock :: u32

definition EINVAL :: int where "EINVAL = 22"

section \<open>Output and input\<close>

text \<open>\<open>while (register & mask);\<close>\<close>

partial_function (option) wait_while :: "gio_arch \<Rightarrow> gio_addr \<Rightarrow> u64 \<Rightarrow> u32 \<Rightarrow> io_state \<Rightarrow> io_state option" where
  "wait_while ar b reg msk st =
     (let (v, st) = gio_read32_index ar b reg st in if v AND msk \<noteq> 0 then wait_while ar b reg msk st else Some st)"

text \<open>
  A \<^verbatim>\<open>char\<close> as a 32-bit argument: \<^verbatim>\<open>char\<close> is signed on x86 and unsigned on the other machine the driver is built for, ARM.
\<close>

fun char_value :: "gio_arch \<Rightarrow> u8 \<Rightarrow> u32" where
  "char_value X86 c = scast c" | "char_value Generic c = ucast c"

fun pl011_write_loop :: "gio_arch \<Rightarrow> arm_pl011_dev \<Rightarrow> u8 list \<Rightarrow> nat \<Rightarrow> io_state \<Rightarrow> nat \<times> io_state" where
  "pl011_write_loop ar dev [] written st = (written, st)"
| "pl011_write_loop ar dev (c # cs) written st =
     (let (v, st) = gio_read32_index ar (base dev) UART_FR st in
      if v AND UART_FR_TXFF_BIT \<noteq> 0 then (written, st)
      else pl011_write_loop ar dev cs (Suc written) (gio_write32_index ar (base dev) UART_DR (char_value ar c) st))"

text \<open>The number of bytes written and the new state; the return value is always 0.\<close>

definition pl011_write :: "gio_arch \<Rightarrow> arm_pl011_dev \<Rightarrow> u8 list \<Rightarrow> io_state \<Rightarrow> (nat \<times> io_state) outcome" where
  "pl011_write ar dev buf st =
     andthen (orcrash (wait_while ar (base dev) UART_FR UART_FR_TXFF_BIT st)) (\<lambda>st. Inr (pl011_write_loop ar dev buf 0 st))"

fun pl011_read_loop :: "gio_arch \<Rightarrow> arm_pl011_dev \<Rightarrow> nat \<Rightarrow> u8 list \<Rightarrow> io_state \<Rightarrow> u8 list \<times> io_state" where
  "pl011_read_loop ar dev 0 got st = (got, st)"
| "pl011_read_loop ar dev (Suc n) got st =
     (let (v, st) = gio_read32_index ar (base dev) UART_FR st in
      if v AND UART_FR_RXFE_BIT \<noteq> 0 then (got, st)
      else (let (c, st) = gio_read32_index ar (base dev) UART_DR st in pl011_read_loop ar dev n (got @ [ucast c]) st))"

text \<open>The bytes stored in the buffer and the new state.\<close>

definition pl011_read :: "gio_arch \<Rightarrow> arm_pl011_dev \<Rightarrow> nat \<Rightarrow> io_state \<Rightarrow> (u8 list \<times> io_state) outcome" where
  "pl011_read ar dev nbytes st =
     andthen (orcrash (wait_while ar (base dev) UART_FR UART_FR_RXFE_BIT st)) (\<lambda>st. Inr (pl011_read_loop ar dev nbytes [] st))"

section \<open>Configuration\<close>

text \<open>The divisor; a division by zero is undefined.\<close>

definition brg_of :: "u32 \<Rightarrow> u32 \<Rightarrow> u32 outcome" where
  "brg_of clk bd = (if bd * 16 * 128 = 0 then Inl Crash else Inr ((clk div (bd * 16 * 128) + 1) div 2))"

definition wlen_bits :: "u8 \<Rightarrow> u32 option" where
  "wlen_bits n = (if n = 5 then Some (push_bit UART_LCR_H_WLEN_SHIFT 0) else if n = 6 then Some (push_bit UART_LCR_H_WLEN_SHIFT 1)
     else if n = 7 then Some (push_bit UART_LCR_H_WLEN_SHIFT 2) else if n = 8 then Some (push_bit UART_LCR_H_WLEN_SHIFT 3) else None)"

fun parity_bits :: "gd_uart_parity \<Rightarrow> u32" where
  "parity_bits GD_UART_NO_PARITY = 0"
| "parity_bits GD_UART_ODD_PARITY = UART_LCR_H_PEN_BIT"
| "parity_bits GD_UART_EVEN_PARITY = UART_LCR_H_PEN_BIT OR UART_LCR_H_EPS_BIT"

definition stop_bits_of :: "u8 \<Rightarrow> u32 option" where
  "stop_bits_of n = (if n = 1 then Some 0 else if n = 2 then Some UART_LCR_H_STP2_BIT else None)"

fun flow_bits :: "gd_uart_flow_control \<Rightarrow> u32" where
  "flow_bits GD_UART_NO_FLOW_CONTROL = 0"
| "flow_bits GD_UART_RTS_CTS_FLOW_CONTROL = UART_CR_CTSEn_BIT OR UART_CR_RTS_BIT"
| "flow_bits GD_UART_RTR_CTS_FLOW_CONTROL = UART_CR_CTSEn_BIT OR UART_CR_RTSEn_BIT"

definition pl011_set_config :: "gio_arch \<Rightarrow> arm_pl011_dev \<Rightarrow> gd_uart_config \<Rightarrow> io_state \<Rightarrow> (int \<times> io_state) outcome" where
  "pl011_set_config ar dev cfg st =
     andthen (brg_of (brg_clock dev) (baud cfg)) (\<lambda>brg.
       let cr = UART_CR_UARTEN_BIT OR UART_CR_RXE_BIT OR UART_CR_TXE_BIT; lcrh = UART_LCR_H_FEN_BIT in
       case wlen_bits (bits cfg) of None \<Rightarrow> Inr (EINVAL, st)
       | Some w \<Rightarrow> (let lcrh = (lcrh OR w) OR parity_bits (parity cfg) in
         case stop_bits_of (stop_bits cfg) of None \<Rightarrow> Inr (EINVAL, st)
         | Some s \<Rightarrow> (let lcrh = lcrh OR s; cr = cr OR flow_bits (flow_control cfg);
               st = gio_write32_index ar (base dev) UART_CR 0 st;
               st = gio_write32_index ar (base dev) UART_IBRD (drop_bit 6 brg) st;
               st = gio_write32_index ar (base dev) UART_FBRD (brg AND 0x3F) st;
               st = gio_write32_index ar (base dev) UART_LCR_H lcrh st;
               st = gio_write32_index ar (base dev) UART_CR cr st
             in Inr (0, st))))"

definition default_config :: gd_uart_config where
  "default_config = \<lparr>baud = 115200, bits = 8, parity = GD_UART_NO_PARITY, stop_bits = 1, flow_control = GD_UART_NO_FLOW_CONTROL\<rparr>"

definition arm_pl011_init :: "gio_arch \<Rightarrow> arm_pl011_dev \<Rightarrow> io_state \<Rightarrow> io_state outcome" where
  "arm_pl011_init ar dev st =
     (let st = gio_write32_index ar (base dev) UART_DMACR 0 st;
          st = gio_write32_index ar (base dev) UART_IMSC 0x7FF st;
          (cr, st) = gio_read32_index ar (base dev) UART_CR st in
      if cr AND UART_CR_UARTEN_BIT = 0
      then andthen (pl011_set_config ar dev default_config st) (\<lambda>(_, st). Inr st) else Inr st)"

section \<open>Attachment\<close>

text \<open>
  What the environment answers: the block of \<open>malloc\<close> (0 if there is none) with the word that the
  member \<open>brg_clock\<close> of the fresh block happens to hold, the return value of
  \<open>gd_device_get_parent\<close>, and the return value, register base and size of
  \<open>gd_bus_get_child_reg_addr\<close>.
\<close>

record attach_env =
  block :: addr
  junk_clock :: u32
  parent_rv :: int
  reg_rv :: int
  reg_base :: gio_addr
  reg_size :: u64

text \<open>The device (0 for \<open>NULL\<close>), the blocks allocated and not freed, and the state of the I/O.\<close>

definition arm_pl011_dt_driver_attach ::
  "gio_arch \<Rightarrow> attach_env \<Rightarrow> addr list \<Rightarrow> io_state \<Rightarrow> (addr \<times> addr list \<times> io_state) outcome" where
  "arm_pl011_dt_driver_attach ar env heap st =
     (if block env = NULL then Inr (NULL, heap, st)
      else (let heap = block env # heap in
        if parent_rv env \<noteq> 0 then Inr (NULL, heap, st)
        else if reg_rv env \<noteq> 0 then Inr (NULL, tl heap, st)
        else if reg_size env < UART_DMACR * 4 then Inl (Panic ''pl011 register window too small'')
        else andthen (arm_pl011_init ar \<lparr>base = reg_base env, brg_clock = junk_clock env\<rparr> st) (\<lambda>st.
          Inr (block env, heap, st))))"

end
