(* ===== verification/Uart_PL011_Correct.thy ===== *)
theory Uart_PL011_Correct
  imports Uart_PL011
begin

text \<open>
  What the PL011 driver does on the bus, for every device behind it: the accesses of each call as a
  trace in the order in which they happen.
\<close>

abbreviation trace :: "io_state \<Rightarrow> io list" where
  "trace st \<equiv> rev (events st)"

lemma emit_simps [simp]:
  "events (emit e st) = e # events st" "answers (emit e st) = answers st" "nreads (emit e st) = nreads st"
  by (simp_all add: emit_def)

lemma read32_simps [simp]:
  "fst (read32 a st) = answers st (nreads st)" "answers (snd (read32 a st)) = answers st"
  "nreads (snd (read32 a st)) = Suc (nreads st)" "events (snd (read32 a st)) = Read32 a (answers st (nreads st)) # events st"
  by (simp_all add: read32_def Let_def)

section \<open>Waiting\<close>

abbreviation reg_at :: "gio_arch \<Rightarrow> gio_addr \<Rightarrow> u64 \<Rightarrow> io_space" where
  "reg_at ar b reg \<equiv> place ar b (reg * 4)"

text \<open>The first \<open>k\<close> answers to come.\<close>

definition next_answers :: "io_state \<Rightarrow> nat \<Rightarrow> u32 list" where
  "next_answers st k = map (\<lambda>i. answers st (nreads st + i)) [0..<k]"

lemma next_answers_Suc: "next_answers st (Suc k) = answers st (nreads st) # next_answers (snd (read32 a st)) k"
  by (simp add: next_answers_def upt_conv_Cons map_Suc_upt [symmetric] del: upt_Suc)

lemma wait_while_ends:
  assumes "\<forall>i<k. answers st (nreads st + i) AND msk \<noteq> 0" "answers st (nreads st + k) AND msk = 0"
  shows "\<exists>st'. wait_while ar b reg msk st = Some st' \<and> answers st' = answers st \<and> nreads st' = nreads st + Suc k \<and>
    trace st' = trace st @ map (Read32 (reg_at ar b reg)) (next_answers st (Suc k))"
  using assms
proof (induction k arbitrary: st)
  case 0
  then show ?case
    by (subst wait_while.simps) (simp add: index_places case_prod_beta next_answers_def)
next
  case (Suc k)
  let ?st = "snd (read32 (reg_at ar b reg) st)"
  have p: "\<forall>i<k. answers ?st (nreads ?st + i) AND msk \<noteq> 0" "answers ?st (nreads ?st + k) AND msk = 0"
    using Suc.prems by auto
  obtain st' where st': "wait_while ar b reg msk ?st = Some st'" "answers st' = answers ?st" "nreads st' = nreads ?st + Suc k"
    "trace st' = trace ?st @ map (Read32 (reg_at ar b reg)) (next_answers ?st (Suc k))" using Suc.IH [OF p] by blast
  have "answers st (nreads st) AND msk \<noteq> 0" using Suc.prems(1) by (metis add.right_neutral zero_less_Suc)
  then have "wait_while ar b reg msk st = wait_while ar b reg msk ?st"
    by (subst wait_while.simps) (simp add: index_places case_prod_beta)
  then show ?case using st' next_answers_Suc [of st "Suc k" "reg_at ar b reg"] by simp
qed

lemma wait_while_returns: "wait_while ar b reg msk st = Some st' \<Longrightarrow> \<exists>k. answers st (nreads st + k) AND msk = 0"
proof (induction rule: wait_while.raw_induct [rotated 1, consumes 1, case_names wait])
  case (wait wait_while ar b reg msk st st')
  let ?st = "snd (read32 (reg_at ar b reg) st)"
  show ?case
  proof (cases "answers st (nreads st) AND msk = 0")
    case True
    then show ?thesis by (intro exI [of _ 0]) simp
  next
    case False
    then have "wait_while ar b reg msk ?st = Some st'"
      using wait(2) by (simp add: index_places case_prod_beta)
    from wait(1) [OF this] obtain k where "answers st (nreads st + Suc k) AND msk = 0" by auto
    then show ?thesis by blast
  qed
qed

section \<open>Output\<close>

text \<open>The byte that the device takes from the data register is the character, whatever the sign of \<^verbatim>\<open>char\<close>.\<close>

lemma char_value_byte [simp]: "ucast (char_value ar c) = c"
proof (cases ar)
  case X86
  have "bit (ucast (scast c :: u32) :: u8) n = bit c n" if "n < 8" for n using that by (cases "n = 7") (simp_all add: bit_simps min_def)
  then show ?thesis using X86 by (intro bit_word_eqI) simp
next
  case Generic
  have "unat c < 256" using unsigned_less [of c] by simp
  then show ?thesis using Generic by (simp add: word_unat_eq_iff unat_ucast_mod)
qed

definition send_trace :: "gio_arch \<Rightarrow> io_space \<Rightarrow> io_space \<Rightarrow> u32 list \<Rightarrow> u8 list \<Rightarrow> io list" where
  "send_trace ar fr dr vs cs = concat (map2 (\<lambda>v c. [Read32 fr v, Write32 dr (char_value ar c)]) vs cs)"

text \<open>
  A burst of output: a byte goes out directly after a look at the flags that finds room, and the
  burst ends with the buffer or when the flags report a full FIFO.
\<close>

definition burst :: "gio_arch \<Rightarrow> io_space \<Rightarrow> io_space \<Rightarrow> u8 list \<Rightarrow> nat \<Rightarrow> io list \<Rightarrow> bool" where
  "burst ar fr dr buf n tr \<longleftrightarrow> n \<le> length buf \<and> (\<exists>vs full. length vs = n \<and> (\<forall>v\<in>set vs. v AND UART_FR_TXFF_BIT = 0) \<and>
     tr = send_trace ar fr dr vs (take n buf) @ full \<and>
     (if n = length buf then full = [] else \<exists>v. v AND UART_FR_TXFF_BIT \<noteq> 0 \<and> full = [Read32 fr v]))"

lemma burst_Cons:
  assumes "burst ar fr dr cs n tr" "v AND UART_FR_TXFF_BIT = 0"
  shows "burst ar fr dr (c # cs) (Suc n) (Read32 fr v # Write32 dr (char_value ar c) # tr)"
proof -
  from assms(1) obtain vs full where "length vs = n" "\<forall>v\<in>set vs. v AND UART_FR_TXFF_BIT = 0" "n \<le> length cs"
    "tr = send_trace ar fr dr vs (take n cs) @ full"
    "if n = length cs then full = [] else \<exists>v. v AND UART_FR_TXFF_BIT \<noteq> 0 \<and> full = [Read32 fr v]" by (auto simp: burst_def)
  with assms(2) show ?thesis unfolding burst_def
    by (intro conjI exI [of _ "v # vs"] exI [of _ full]) (auto simp: send_trace_def)
qed

lemma pl011_write_loop_burst:
  "\<exists>n st' tr. pl011_write_loop ar dev cs w st = (w + n, st') \<and> trace st' = trace st @ tr \<and> answers st' = answers st \<and>
    burst ar (reg_at ar (base dev) UART_FR) (reg_at ar (base dev) UART_DR) cs n tr"
proof (induction cs arbitrary: w st)
  case Nil
  then show ?case by (intro exI [of _ 0] exI [of _ st] exI [of _ "[]"]) (simp add: burst_def send_trace_def)
next
  case (Cons c cs)
  let ?fr = "reg_at ar (base dev) UART_FR" and ?dr = "reg_at ar (base dev) UART_DR"
  let ?v = "answers st (nreads st)" and ?st = "snd (read32 ?fr st)"
  show ?case
  proof (cases "?v AND UART_FR_TXFF_BIT = 0")
    case False
    then show ?thesis
      by (intro exI [of _ 0] exI [of _ ?st] exI [of _ "[Read32 ?fr ?v]"])
        (auto simp: index_places case_prod_beta burst_def send_trace_def)
  next
    case True
    obtain n st' tr where "pl011_write_loop ar dev cs (Suc w) (emit (Write32 ?dr (char_value ar c)) ?st) = (Suc w + n, st')"
      "trace st' = trace (emit (Write32 ?dr (char_value ar c)) ?st) @ tr" "answers st' = answers st" "burst ar ?fr ?dr cs n tr"
      using Cons.IH [of "Suc w" "emit (Write32 ?dr (char_value ar c)) ?st"] by auto
    with True burst_Cons [of ar ?fr ?dr cs n tr ?v c] show ?thesis
      by (intro exI [of _ "Suc n"] exI [of _ st']) (simp add: index_places case_prod_beta)
  qed
qed

lemma pl011_write_ok:
  assumes "\<forall>i<k. answers st (nreads st + i) AND UART_FR_TXFF_BIT \<noteq> 0" "answers st (nreads st + k) AND UART_FR_TXFF_BIT = 0"
  shows "\<exists>n st' tr. pl011_write ar dev buf st = Inr (n, st') \<and>
    trace st' = trace st @ map (Read32 (reg_at ar (base dev) UART_FR)) (next_answers st (Suc k)) @ tr \<and>
    burst ar (reg_at ar (base dev) UART_FR) (reg_at ar (base dev) UART_DR) buf n tr"
proof -
  obtain st1 where "wait_while ar (base dev) UART_FR UART_FR_TXFF_BIT st = Some st1"
    "trace st1 = trace st @ map (Read32 (reg_at ar (base dev) UART_FR)) (next_answers st (Suc k))"
    using wait_while_ends [OF assms] by blast
  with pl011_write_loop_burst [of ar dev buf 0 st1] show ?thesis by (fastforce simp: pl011_write_def)
qed

lemma pl011_write_returns_iff:
  "(\<exists>r. pl011_write ar dev buf st = Inr r) \<longleftrightarrow> (\<exists>k. answers st (nreads st + k) AND UART_FR_TXFF_BIT = 0)"
proof
  assume "\<exists>k. answers st (nreads st + k) AND UART_FR_TXFF_BIT = 0"
  then obtain k where "answers st (nreads st + k) AND UART_FR_TXFF_BIT = 0"
    "\<forall>i<k. answers st (nreads st + i) AND UART_FR_TXFF_BIT \<noteq> 0"
    using exists_least_iff [of "\<lambda>k. answers st (nreads st + k) AND UART_FR_TXFF_BIT = 0"] by blast
  then show "\<exists>r. pl011_write ar dev buf st = Inr r" using pl011_write_ok by blast
next
  assume "\<exists>r. pl011_write ar dev buf st = Inr r"
  then obtain st1 where "wait_while ar (base dev) UART_FR UART_FR_TXFF_BIT st = Some st1"
    by (auto simp: pl011_write_def andthen_eq_Inr_iff orcrash_def split: option.splits)
  then show "\<exists>k. answers st (nreads st + k) AND UART_FR_TXFF_BIT = 0" by (rule wait_while_returns)
qed

section \<open>Input\<close>

definition receive_trace :: "io_space \<Rightarrow> io_space \<Rightarrow> u32 list \<Rightarrow> u32 list \<Rightarrow> io list" where
  "receive_trace fr dr vs ds = concat (map2 (\<lambda>v d. [Read32 fr v, Read32 dr d]) vs ds)"

text \<open>
  A burst of input: each byte is read directly after a look at the flags that finds one, and the
  bytes stored are the low bytes of the data register.
\<close>

definition intake :: "io_space \<Rightarrow> io_space \<Rightarrow> nat \<Rightarrow> u8 list \<Rightarrow> io list \<Rightarrow> bool" where
  "intake fr dr n got tr \<longleftrightarrow> length got \<le> n \<and> (\<exists>vs ds none. length vs = length got \<and> (\<forall>v\<in>set vs. v AND UART_FR_RXFE_BIT = 0) \<and>
     got = map ucast ds \<and> tr = receive_trace fr dr vs ds @ none \<and>
     (if length got = n then none = [] else \<exists>v. v AND UART_FR_RXFE_BIT \<noteq> 0 \<and> none = [Read32 fr v]))"

lemma intake_Cons:
  assumes "intake fr dr n got tr" "v AND UART_FR_RXFE_BIT = 0"
  shows "intake fr dr (Suc n) (ucast d # got) (Read32 fr v # Read32 dr d # tr)"
proof -
  from assms(1) obtain vs ds none where "length vs = length got" "\<forall>v\<in>set vs. v AND UART_FR_RXFE_BIT = 0" "length got \<le> n"
    "got = map ucast ds" "tr = receive_trace fr dr vs ds @ none"
    "if length got = n then none = [] else \<exists>v. v AND UART_FR_RXFE_BIT \<noteq> 0 \<and> none = [Read32 fr v]" by (auto simp: intake_def)
  with assms(2) show ?thesis unfolding intake_def
    by (intro conjI exI [of _ "v # vs"] exI [of _ "d # ds"] exI [of _ none]) (auto simp: receive_trace_def)
qed

lemma pl011_read_loop_intake:
  "\<exists>got st' tr. pl011_read_loop ar dev n pre st = (pre @ got, st') \<and> trace st' = trace st @ tr \<and>
    intake (reg_at ar (base dev) UART_FR) (reg_at ar (base dev) UART_DR) n got tr"
proof (induction n arbitrary: pre st)
  case 0
  then show ?case by (intro exI [of _ "[]"] exI [of _ st]) (simp add: intake_def receive_trace_def)
next
  case (Suc n)
  let ?fr = "reg_at ar (base dev) UART_FR" and ?dr = "reg_at ar (base dev) UART_DR"
  let ?st = "snd (read32 ?fr st)"
  let ?v = "answers st (nreads st)" and ?d = "answers ?st (nreads ?st)"
  show ?case
  proof (cases "?v AND UART_FR_RXFE_BIT = 0")
    case False
    then show ?thesis
      by (intro exI [of _ "[]"] exI [of _ ?st] exI [of _ "[Read32 ?fr ?v]"])
        (auto simp: index_places case_prod_beta intake_def receive_trace_def)
  next
    case True
    obtain got st' tr where "pl011_read_loop ar dev n (pre @ [ucast ?d]) (snd (read32 ?dr ?st)) = ((pre @ [ucast ?d]) @ got, st')"
      "trace st' = trace (snd (read32 ?dr ?st)) @ tr" "intake ?fr ?dr n got tr"
      using Suc.IH [of "pre @ [ucast ?d]" "snd (read32 ?dr ?st)"] by blast
    with True intake_Cons [of ?fr ?dr n got tr ?v ?d] show ?thesis
      by (intro exI [of _ "ucast ?d # got"] exI [of _ st']) (simp add: index_places case_prod_beta)
  qed
qed

lemma pl011_read_ok:
  assumes "\<forall>i<k. answers st (nreads st + i) AND UART_FR_RXFE_BIT \<noteq> 0" "answers st (nreads st + k) AND UART_FR_RXFE_BIT = 0"
  shows "\<exists>got st' tr. pl011_read ar dev n st = Inr (got, st') \<and>
    trace st' = trace st @ map (Read32 (reg_at ar (base dev) UART_FR)) (next_answers st (Suc k)) @ tr \<and>
    intake (reg_at ar (base dev) UART_FR) (reg_at ar (base dev) UART_DR) n got tr"
proof -
  obtain st1 where "wait_while ar (base dev) UART_FR UART_FR_RXFE_BIT st = Some st1"
    "trace st1 = trace st @ map (Read32 (reg_at ar (base dev) UART_FR)) (next_answers st (Suc k))"
    using wait_while_ends [OF assms] by blast
  with pl011_read_loop_intake [of ar dev n "[]" st1] show ?thesis by (fastforce simp: pl011_read_def)
qed

section \<open>Configuration\<close>

text \<open>
  What a successful configuration writes: the device is off while the line is set up.  The registers are specified by what their
  bits mean: the divisor in 64ths (\<open>IBRD\<close> and \<open>FBRD\<close>), the length of a character, parity and stop bits with the FIFOs on
  (\<open>LCR_H\<close>), and the device with receiver and transmitter on and the flow control asked for (\<open>CR\<close>).
\<close>

definition line_control :: "gd_uart_config \<Rightarrow> u32 \<Rightarrow> bool" where
  "line_control cfg l \<longleftrightarrow> unat l div 32 = unat (bits cfg) - 5 \<and> bit l 4 \<and> (bit l 3 \<longleftrightarrow> stop_bits cfg = 2) \<and>
     (bit l 2 \<longleftrightarrow> parity cfg = GD_UART_EVEN_PARITY) \<and> (bit l 1 \<longleftrightarrow> parity cfg \<noteq> GD_UART_NO_PARITY) \<and> \<not> bit l 0"

definition control :: "gd_uart_config \<Rightarrow> u32 \<Rightarrow> bool" where
  "control cfg c \<longleftrightarrow> (\<forall>n. bit c n \<longleftrightarrow> n \<in> {0, 8, 9} \<or> n = 15 \<and> flow_control cfg \<noteq> GD_UART_NO_FLOW_CONTROL \<or>
     n = 11 \<and> flow_control cfg = GD_UART_RTS_CTS_FLOW_CONTROL \<or> n = 14 \<and> flow_control cfg = GD_UART_RTR_CTS_FLOW_CONTROL)"

definition config_trace :: "gio_arch \<Rightarrow> gio_addr \<Rightarrow> u32 \<Rightarrow> u32 \<Rightarrow> u32 \<Rightarrow> u32 \<Rightarrow> io list" where
  "config_trace ar b ibrd fbrd lcrh cr = map (\<lambda>(r, v). Write32 (reg_at ar b r) v)
     [(UART_CR, 0), (UART_IBRD, ibrd), (UART_FBRD, fbrd), (UART_LCR_H, lcrh), (UART_CR, cr)]"

lemma set_config_ok:
  assumes "brg_of (brg_clock dev) (baud cfg) = Inr brg" "wlen_bits (bits cfg) = Some w" "stop_bits_of (stop_bits cfg) = Some s"
  shows "\<exists>st'. pl011_set_config ar dev cfg st = Inr (0, st') \<and>
    trace st' = trace st @ config_trace ar (base dev) (drop_bit 6 brg) (brg AND 0x3F) (UART_LCR_H_FEN_BIT OR w OR parity_bits (parity cfg) OR s)
      (UART_CR_UARTEN_BIT OR UART_CR_RXE_BIT OR UART_CR_TXE_BIT OR flow_bits (flow_control cfg))"
  using assms by (simp add: pl011_set_config_def Let_def index_places config_trace_def or.assoc)

lemma set_config_invalid:
  assumes "brg_of (brg_clock dev) (baud cfg) = Inr brg" "wlen_bits (bits cfg) = None \<or> stop_bits_of (stop_bits cfg) = None"
  shows "pl011_set_config ar dev cfg st = Inr (EINVAL, st)"
  using assms by (auto simp: pl011_set_config_def Let_def split: option.splits)

lemma brg_value:
  assumes "baud cfg \<noteq> 0" "unat (baud cfg) * 2048 < 2 ^ 32"
  shows "\<exists>brg. brg_of clk (baud cfg) = Inr brg \<and> unat brg = (unat clk div (2048 * unat (baud cfg)) + 1) div 2"
proof -
  let ?d = "baud cfg * 16 * 128"
  have u: "unat ?d = unat (baud cfg) * 2048" using assms(2) by (simp add: unat_word_ariths mod_mult_left_eq mult.assoc)
  have "0 < unat (baud cfg)" using assms(1) by (simp add: unat_gt_0)
  then have "unat ?d \<noteq> 0" "1 < unat ?d" using u by simp_all
  then have nz: "?d \<noteq> 0" by (metis unat_0)
  have "unat clk div unat ?d < 2 ^ 31"
  proof -
    have "unat clk div unat ?d \<le> unat clk div 2" using \<open>1 < unat ?d\<close> by (intro div_le_mono2) simp_all
    moreover have "unat clk < 2 ^ 32" using unsigned_less [of clk] by simp
    ultimately show ?thesis by simp
  qed
  then have "unat (clk div ?d + 1) = unat clk div unat ?d + 1" by (simp add: unat_div_distrib unat_word_ariths)
  then have "unat ((clk div ?d + 1) div 2) = (unat clk div unat ?d + 1) div 2" by (simp add: unat_div_distrib)
  then have "unat ((clk div ?d + 1) div 2) = (unat clk div (2048 * unat (baud cfg)) + 1) div 2" unfolding u by (simp add: mult.commute)
  moreover have "brg_of clk (baud cfg) = Inr ((clk div ?d + 1) div 2)" using nz by (simp only: brg_of_def if_False)
  ultimately show ?thesis by blast
qed

lemma line_control_ok:
  assumes "wlen_bits (bits cfg) = Some w" "stop_bits_of (stop_bits cfg) = Some s"
  shows "line_control cfg (UART_LCR_H_FEN_BIT OR w OR parity_bits (parity cfg) OR s)"
  using assms
  by (cases "parity cfg")
    (auto simp: line_control_def wlen_bits_def stop_bits_of_def UART_LCR_H_FEN_BIT_def UART_LCR_H_WLEN_SHIFT_def UART_LCR_H_STP2_BIT_def
      UART_LCR_H_PEN_BIT_def UART_LCR_H_EPS_BIT_def split: if_splits)

lemma bit_push_one: "bit (push_bit k (1 :: u32)) n \<longleftrightarrow> n = k \<and> k < 32"
  by (simp only: bit_push_bit_iff) (auto simp: bit_1_iff)

lemma control_ok: "control cfg (UART_CR_UARTEN_BIT OR UART_CR_RXE_BIT OR UART_CR_TXE_BIT OR flow_bits (flow_control cfg))"
proof -
  have "bit (flow_bits (flow_control cfg)) n \<longleftrightarrow> n = 15 \<and> flow_control cfg \<noteq> GD_UART_NO_FLOW_CONTROL \<or>
     n = 11 \<and> flow_control cfg = GD_UART_RTS_CTS_FLOW_CONTROL \<or> n = 14 \<and> flow_control cfg = GD_UART_RTR_CTS_FLOW_CONTROL" for n
    by (cases "flow_control cfg"; simp only: flow_bits.simps UART_CR_CTSEn_BIT_def UART_CR_RTS_BIT_def UART_CR_RTSEn_BIT_def bit_or_iff bit_push_one bit_0_eq) auto
  then show ?thesis
    unfolding control_def UART_CR_UARTEN_BIT_def UART_CR_RXE_BIT_def UART_CR_TXE_BIT_def bit_or_iff bit_push_one by auto
qed

lemma divisor_parts: "64 * unat (drop_bit 6 (w :: u32)) + unat (w AND 0x3F) = unat w" "unat (w AND 0x3F) < 64"
proof -
  have "w AND 0x3F = take_bit 6 w" by (simp add: take_bit_eq_mask mask_eq_exp_minus_1)
  then show "64 * unat (drop_bit 6 w) + unat (w AND 0x3F) = unat w" "unat (w AND 0x3F) < 64" by (simp_all add: unat_arith)
qed

lemma accepted_bits:
  "(\<exists>w. wlen_bits n = Some w) \<longleftrightarrow> unat n \<in> {5..8}" "(\<exists>s. stop_bits_of n = Some s) \<longleftrightarrow> unat n \<in> {1, 2}"
proof -
  have "unat n \<in> {5..8} \<longleftrightarrow> unat n \<in> {5, 6, 7, 8}" by auto
  also have "\<dots> \<longleftrightarrow> n \<in> {5, 6, 7, 8}" by (auto simp: word_unat_eq_iff)
  finally show "(\<exists>w. wlen_bits n = Some w) \<longleftrightarrow> unat n \<in> {5..8}" by (auto simp: wlen_bits_def)
  have "unat n \<in> {1, 2} \<longleftrightarrow> n \<in> {1, 2}" by (auto simp: word_unat_eq_iff)
  then show "(\<exists>s. stop_bits_of n = Some s) \<longleftrightarrow> unat n \<in> {1, 2}" by (auto simp: stop_bits_of_def)
qed

text \<open>The divisor is 0 for every clock below \<open>2048\<close> times the baud rate.\<close>

lemma brg_zero:
  assumes "unat bd * 2048 < 2 ^ 32" "unat clk < unat bd * 2048"
  shows "brg_of clk bd = Inr 0"
proof -
  have u: "unat (bd * 16 * 128) = unat bd * 2048" using assms(1) by (simp add: unat_word_ariths mod_mult_left_eq mult.assoc)
  have "bd * 16 * 128 \<noteq> 0" using u assms(2) by (metis less_nat_zero_code unat_0)
  moreover have "unat (clk div (bd * 16 * 128)) = 0" using u assms(2) by (simp only: unat_div_distrib) simp
  then have "clk div (bd * 16 * 128) = 0" by (simp only: unat_eq_zero)
  ultimately show ?thesis by (simp add: brg_of_def)
qed

end
