(* ===== verification/Uart_NS16550.thy ===== *)
theory Uart_NS16550
  imports Uart_PL011_Correct
begin

text \<open>
  The driver of the NS16C550 serial port (\<^verbatim>\<open>bal/device/uart/ns16c550/ns16c550.c\<close>).  Every loop of it may
  wait for ever, and an access of a width that \<open>gio\<close> does not know never returns: \<open>None\<close> is a call
  that does not return.
\<close>

section \<open>The driver\<close>

record ns16c550_dev =
  base :: gio_addr
  fifo_size :: u16
  fifo_space :: u16
  reg_width :: u8

definition UART_DATA :: u64 where "UART_DATA = 0"
definition UART_FCR :: u64 where "UART_FCR = 2"
definition UART_LSR :: u64 where "UART_LSR = 5"

definition LSR_RX_FIFO_EMPTY :: u8 where "LSR_RX_FIFO_EMPTY = push_bit 0 1"
definition LSR_TX_SR_EMPTY :: u8 where "LSR_TX_SR_EMPTY = push_bit 6 1"

definition FCR_FIFO_EN :: u8 where "FCR_FIFO_EN = push_bit 0 1"
definition FCR_RX_FIFO_CLEAR :: u8 where "FCR_RX_FIFO_CLEAR = push_bit 1 1"
definition FCR_TX_FIFO_CLEAR :: u8 where "FCR_TX_FIFO_CLEAR = push_bit 2 1"

definition returned :: "'a outcome \<Rightarrow> 'a option" where
  "returned r = (case r of Inl _ \<Rightarrow> None | Inr x \<Rightarrow> Some x)"

definition wrreg :: "gio_arch \<Rightarrow> ns16c550_dev \<Rightarrow> u64 \<Rightarrow> u8 \<Rightarrow> io_state \<Rightarrow> io_state option" where
  "wrreg ar dev reg b st = returned (gio_write_index ar (ucast (reg_width dev)) (base dev) reg (ucast b) st)"

definition rdreg :: "gio_arch \<Rightarrow> ns16c550_dev \<Rightarrow> u64 \<Rightarrow> io_state \<Rightarrow> (u8 \<times> io_state) option" where
  "rdreg ar dev reg st = map_option (\<lambda>(v, st). (ucast v, st)) (returned (gio_read_index ar (ucast (reg_width dev)) (base dev) reg st))"

definition ns16c550_init :: "gio_arch \<Rightarrow> ns16c550_dev \<Rightarrow> io_state \<Rightarrow> io_state option" where
  "ns16c550_init ar dev st = wrreg ar dev UART_FCR (FCR_FIFO_EN OR FCR_TX_FIFO_CLEAR OR FCR_RX_FIFO_CLEAR) st"

partial_function (option) wait_space :: "gio_arch \<Rightarrow> ns16c550_dev \<Rightarrow> io_state \<Rightarrow> (ns16c550_dev \<times> io_state) option" where
  "wait_space ar dev st = do {
     (lsr, st) \<leftarrow> rdreg ar dev UART_LSR st;
     let dev = (if lsr AND LSR_TX_SR_EMPTY \<noteq> 0 then dev\<lparr>fifo_space := fifo_size dev\<rparr> else dev);
     if fifo_space dev = 0 then wait_space ar dev st else Some (dev, st) }"

fun write_fifo :: "gio_arch \<Rightarrow> ns16c550_dev \<Rightarrow> u8 list \<Rightarrow> nat \<Rightarrow> io_state \<Rightarrow> (nat \<times> ns16c550_dev \<times> io_state) option" where
  "write_fifo ar dev [] i st = Some (i, dev, st)"
| "write_fifo ar dev (c # cs) i st =
     (if fifo_space dev = 0 then Some (i, dev, st)
      else wrreg ar dev UART_DATA c st \<bind> (\<lambda>st. write_fifo ar (dev\<lparr>fifo_space := fifo_space dev - 1\<rparr>) cs (Suc i) st))"

text \<open>The number of bytes written, the new state of the driver and of the I/O.\<close>

definition ns16c550_write :: "gio_arch \<Rightarrow> ns16c550_dev \<Rightarrow> u8 list \<Rightarrow> io_state \<Rightarrow> (nat \<times> ns16c550_dev \<times> io_state) option" where
  "ns16c550_write ar dev buf st = wait_space ar dev st \<bind> (\<lambda>(dev, st). write_fifo ar dev buf 0 st)"

partial_function (option) wait_data :: "gio_arch \<Rightarrow> ns16c550_dev \<Rightarrow> io_state \<Rightarrow> io_state option" where
  "wait_data ar dev st = do {
     (lsr, st) \<leftarrow> rdreg ar dev UART_LSR st;
     if lsr AND LSR_RX_FIFO_EMPTY = 0 then wait_data ar dev st else Some st }"

fun read_fifo :: "gio_arch \<Rightarrow> ns16c550_dev \<Rightarrow> nat \<Rightarrow> u8 list \<Rightarrow> io_state \<Rightarrow> (u8 list \<times> io_state) option" where
  "read_fifo ar dev 0 got st = Some (got, st)"
| "read_fifo ar dev (Suc n) got st = do {
     (lsr, st) \<leftarrow> rdreg ar dev UART_LSR st;
     if lsr AND LSR_RX_FIFO_EMPTY = 0 then Some (got, st)
     else do { (c, st) \<leftarrow> rdreg ar dev UART_DATA st; read_fifo ar dev n (got @ [c]) st } }"

definition ns16c550_read :: "gio_arch \<Rightarrow> ns16c550_dev \<Rightarrow> nat \<Rightarrow> io_state \<Rightarrow> (u8 list \<times> io_state) option" where
  "ns16c550_read ar dev nbytes st = wait_data ar dev st \<bind> read_fifo ar dev nbytes []"

section \<open>Accesses\<close>

definition width_ok :: "ns16c550_dev \<Rightarrow> bool" where
  "width_ok dev \<longleftrightarrow> reg_width dev = 8 \<or> reg_width dev = 16 \<or> reg_width dev = 32"

text \<open>The place of a register, and the low byte of an access to a place.\<close>

definition reg_place :: "gio_arch \<Rightarrow> ns16c550_dev \<Rightarrow> u64 \<Rightarrow> io_space" where
  "reg_place ar dev reg = place ar (base dev) (reg * (ucast (reg_width dev) div 8))"

fun read_byte :: "io_space \<Rightarrow> io \<Rightarrow> u8 option" where
  "read_byte p (Read8 q v) = (if q = p then Some v else None)"
| "read_byte p (Read16 q v) = (if q = p then Some (ucast v) else None)"
| "read_byte p (Read32 q v) = (if q = p then Some (ucast v) else None)"
| "read_byte p _ = None"

fun written_byte :: "io_space \<Rightarrow> io \<Rightarrow> u8 option" where
  "written_byte p (Write8 q v) = (if q = p then Some v else None)"
| "written_byte p (Write16 q v) = (if q = p then Some (ucast v) else None)"
| "written_byte p (Write32 q v) = (if q = p then Some (ucast v) else None)"
| "written_byte p _ = None"

lemma byte_casts [simp]:
  "ucast (ucast (c :: u8) :: u64) = c" "ucast (ucast (ucast c :: u64) :: u16) = c" "ucast (ucast (ucast c :: u64) :: u32) = c"
  using bit_imp_le_length [of c] by (fastforce simp: bit_eq_iff bit_simps)+

lemma word_casts [simp]:
  "ucast (ucast (ucast (w :: u32) :: u16) :: u64) = (ucast w :: u8)" "ucast (ucast w :: u16) = (ucast w :: u8)"
  "ucast (ucast w :: u64) = (ucast w :: u8)"
  by (auto simp: bit_eq_iff bit_simps)

lemma rdreg_ok:
  assumes "width_ok dev"
  shows "\<exists>e st'. rdreg ar dev reg st = Some (ucast (answers st (nreads st)), st') \<and> events st' = e # events st \<and>
    read_byte (reg_place ar dev reg) e = Some (ucast (answers st (nreads st))) \<and> (\<forall>p. written_byte p e = None) \<and>
    answers st' = answers st \<and> nreads st' = Suc (nreads st)"
  using assms unfolding width_ok_def
proof (elim disjE)
  assume "reg_width dev = 8"
  then show ?thesis by (simp add: rdreg_def returned_def gio_read_index_def index_places read8_def reg_place_def Let_def)
next
  assume "reg_width dev = 16"
  then show ?thesis
    by (simp add: rdreg_def returned_def gio_read_index_def index_places read16_def reg_place_def Let_def)
next
  assume "reg_width dev = 32"
  then show ?thesis
    by (simp add: rdreg_def returned_def gio_read_index_def index_places read32_def reg_place_def Let_def)
qed

lemma wrreg_ok:
  assumes "width_ok dev"
  shows "\<exists>e st'. wrreg ar dev reg c st = Some st' \<and> events st' = e # events st \<and>
    written_byte (reg_place ar dev reg) e = Some c \<and> (\<forall>p. read_byte p e = None) \<and>
    answers st' = answers st \<and> nreads st' = nreads st"
  using assms unfolding width_ok_def
  by (elim disjE) (simp_all add: wrreg_def returned_def gio_write_index_def index_places reg_place_def)

section \<open>The FIFO is never overrun\<close>

text \<open>
  The bytes written to the data register since the line status last reported an empty transmitter
  (the events are newest first).
\<close>

fun pending :: "io_space \<Rightarrow> io_space \<Rightarrow> io list \<Rightarrow> nat" where
  "pending lsr dat [] = 0"
| "pending lsr dat (e # es) =
     (case read_byte lsr e of
        Some v \<Rightarrow> if v AND LSR_TX_SR_EMPTY \<noteq> 0 then 0 else pending lsr dat es
      | None \<Rightarrow> (if written_byte dat e = None then 0 else 1) + pending lsr dat es)"

definition fifo_ok :: "gio_arch \<Rightarrow> ns16c550_dev \<Rightarrow> io list \<Rightarrow> bool" where
  "fifo_ok ar dev es \<longleftrightarrow>
     pending (reg_place ar dev UART_LSR) (reg_place ar dev UART_DATA) es + unat (fifo_space dev) \<le> unat (fifo_size dev)"

definition data_bytes :: "io_space \<Rightarrow> io list \<Rightarrow> u8 list" where
  "data_bytes p es = List.map_filter (written_byte p) (rev es)"

lemma data_bytes_Cons [simp]:
  "data_bytes p (e # es) = data_bytes p es @ (case written_byte p e of None \<Rightarrow> [] | Some c \<Rightarrow> [c])"
  by (simp add: data_bytes_def map_filter_def split: option.splits)

lemma reg_place_space [simp]: "reg_place ar (dev\<lparr>fifo_space := x\<rparr>) reg = reg_place ar dev reg"
  by (simp add: reg_place_def)

lemma width_ok_space [simp]: "width_ok (dev\<lparr>fifo_space := x\<rparr>) = width_ok dev"
  by (simp add: width_ok_def)

lemma write_fifo_ok:
  assumes "width_ok dev" "fifo_ok ar dev (events st)"
  shows "\<exists>n dev' st'. write_fifo ar dev cs i st = Some (i + n, dev', st') \<and> fifo_ok ar dev' (events st') \<and>
    dev' = dev\<lparr>fifo_space := fifo_space dev - of_nat n\<rparr> \<and> n = min (length cs) (unat (fifo_space dev)) \<and>
    data_bytes (reg_place ar dev UART_DATA) (events st') = data_bytes (reg_place ar dev UART_DATA) (events st) @ take n cs"
  using assms
proof (induction cs arbitrary: dev i st)
  case Nil
  then show ?case by (intro exI [of _ 0] exI [of _ dev] exI [of _ st]) simp
next
  case (Cons c cs)
  show ?case
  proof (cases "fifo_space dev = 0")
    case True
    with Cons.prems show ?thesis by (intro exI [of _ 0] exI [of _ dev] exI [of _ st]) simp
  next
    case False
    let ?dev = "dev\<lparr>fifo_space := fifo_space dev - 1\<rparr>" and ?d = "reg_place ar dev UART_DATA"
    obtain e st1 where st1: "wrreg ar dev UART_DATA c st = Some st1" "events st1 = e # events st"
      "written_byte ?d e = Some c" "\<forall>p. read_byte p e = None" using wrreg_ok [OF Cons.prems(1)] by blast
    have u: "unat (fifo_space dev) = Suc (unat (fifo_space dev - 1))" using False by (simp add: unat_minus_one unat_gt_0)
    have "fifo_ok ar ?dev (events st1)" using Cons.prems(2) st1(2-4) u by (simp add: fifo_ok_def)
    with Cons.IH [of ?dev st1 "Suc i"] Cons.prems(1) obtain n dev' st' where
      "write_fifo ar ?dev cs (Suc i) st1 = Some (Suc i + n, dev', st')" "fifo_ok ar dev' (events st')"
      "dev' = ?dev\<lparr>fifo_space := fifo_space ?dev - of_nat n\<rparr>" "n = min (length cs) (unat (fifo_space ?dev))"
      "data_bytes ?d (events st') = data_bytes ?d (events st1) @ take n cs" by auto
    with False st1(1-3) u show ?thesis by (intro exI [of _ "Suc n"] exI [of _ dev'] exI [of _ st']) (simp add: algebra_simps)
  qed
qed

lemma wait_space_step:
  assumes "width_ok dev"
  obtains e st1 where "rdreg ar dev UART_LSR st = Some (ucast (answers st (nreads st)), st1)" "events st1 = e # events st"
    "answers st1 = answers st" "nreads st1 = Suc (nreads st)"
    "data_bytes (reg_place ar dev UART_DATA) (events st1) = data_bytes (reg_place ar dev UART_DATA) (events st)"
    "pending (reg_place ar dev UART_LSR) (reg_place ar dev UART_DATA) (events st1) =
      (if ucast (answers st (nreads st)) AND LSR_TX_SR_EMPTY \<noteq> 0 then 0
       else pending (reg_place ar dev UART_LSR) (reg_place ar dev UART_DATA) (events st))"
  using rdreg_ok [OF assms, of ar UART_LSR st] that by auto

text \<open>The wait ends when the status reports an empty transmitter, at the latest.\<close>

lemma wait_space_ok:
  assumes "width_ok dev" "fifo_ok ar dev (events st)" "fifo_size dev \<noteq> 0"
    and "ucast (answers st (nreads st + k)) AND LSR_TX_SR_EMPTY \<noteq> 0"
  shows "\<exists>x st'. wait_space ar dev st = Some (dev\<lparr>fifo_space := x\<rparr>, st') \<and> x \<noteq> 0 \<and> fifo_ok ar (dev\<lparr>fifo_space := x\<rparr>) (events st') \<and>
    data_bytes (reg_place ar dev UART_DATA) (events st') = data_bytes (reg_place ar dev UART_DATA) (events st)"
  using assms
proof (induction k arbitrary: dev st)
  case 0
  obtain e st1 where st1: "rdreg ar dev UART_LSR st = Some (ucast (answers st (nreads st)), st1)"
    "data_bytes (reg_place ar dev UART_DATA) (events st1) = data_bytes (reg_place ar dev UART_DATA) (events st)"
    "pending (reg_place ar dev UART_LSR) (reg_place ar dev UART_DATA) (events st1) = 0"
    using wait_space_step [OF 0(1), of ar st] 0(4) by (metis add.right_neutral)
  then show ?case using 0
    by (intro exI [of _ "fifo_size dev"] exI [of _ st1], subst wait_space.simps) (simp add: fifo_ok_def)
next
  case (Suc k)
  obtain e st1 where st1: "rdreg ar dev UART_LSR st = Some (ucast (answers st (nreads st)), st1)"
    "answers st1 = answers st" "nreads st1 = Suc (nreads st)"
    "data_bytes (reg_place ar dev UART_DATA) (events st1) = data_bytes (reg_place ar dev UART_DATA) (events st)"
    and p: "pending (reg_place ar dev UART_LSR) (reg_place ar dev UART_DATA) (events st1) =
      (if ucast (answers st (nreads st)) AND LSR_TX_SR_EMPTY \<noteq> 0 then 0
       else pending (reg_place ar dev UART_LSR) (reg_place ar dev UART_DATA) (events st))"
    using wait_space_step [OF Suc.prems(1), of ar st] by metis
  define dev1 where "dev1 = (if ucast (answers st (nreads st)) AND LSR_TX_SR_EMPTY \<noteq> 0 then dev\<lparr>fifo_space := fifo_size dev\<rparr> else dev)"
  have dev1: "\<exists>y. dev1 = dev\<lparr>fifo_space := y\<rparr>" unfolding dev1_def by (metis ns16c550_dev.surjective ns16c550_dev.update_convs(3))
  then have inv: "width_ok dev1" "fifo_ok ar dev1 (events st1)" "fifo_size dev1 \<noteq> 0" "reg_place ar dev1 UART_DATA = reg_place ar dev UART_DATA"
    using Suc.prems p by (auto simp: dev1_def fifo_ok_def)
  have step: "wait_space ar dev st = (if fifo_space dev1 = 0 then wait_space ar dev1 st1 else Some (dev1, st1))"
    by (subst wait_space.simps) (simp add: st1(1) dev1_def Let_def)
  show ?case
  proof (cases "fifo_space dev1 = 0")
    case True
    have "ucast (answers st1 (nreads st1 + k)) AND LSR_TX_SR_EMPTY \<noteq> 0" using Suc.prems(4) st1(2,3) by simp
    from Suc.IH [OF inv(1-3) this] True step dev1 inv(4) st1(4) show ?thesis by auto
  next
    case False
    then show ?thesis using step dev1 inv st1(4) by auto
  qed
qed

lemma ns16c550_write_ok:
  assumes "width_ok dev" "fifo_ok ar dev (events st)" "fifo_size dev \<noteq> 0"
    and "\<exists>k. ucast (answers st (nreads st + k)) AND LSR_TX_SR_EMPTY \<noteq> 0"
  shows "\<exists>n x st'. ns16c550_write ar dev buf st = Some (n, dev\<lparr>fifo_space := x\<rparr>, st') \<and>
    n \<le> length buf \<and> (buf \<noteq> [] \<longrightarrow> 0 < n) \<and> fifo_ok ar (dev\<lparr>fifo_space := x\<rparr>) (events st') \<and>
    data_bytes (reg_place ar dev UART_DATA) (events st') = data_bytes (reg_place ar dev UART_DATA) (events st) @ take n buf"
proof -
  obtain x st1 where st1: "wait_space ar dev st = Some (dev\<lparr>fifo_space := x\<rparr>, st1)" "x \<noteq> 0"
    "fifo_ok ar (dev\<lparr>fifo_space := x\<rparr>) (events st1)"
    "data_bytes (reg_place ar dev UART_DATA) (events st1) = data_bytes (reg_place ar dev UART_DATA) (events st)"
    using wait_space_ok [OF assms(1-3)] assms(4) by blast
  obtain n dev' st' where "write_fifo ar (dev\<lparr>fifo_space := x\<rparr>) buf 0 st1 = Some (0 + n, dev', st')" "fifo_ok ar dev' (events st')"
    "dev' = dev\<lparr>fifo_space := x - of_nat n\<rparr>" "n = min (length buf) (unat x)"
    "data_bytes (reg_place ar dev UART_DATA) (events st') = data_bytes (reg_place ar dev UART_DATA) (events st1) @ take n buf"
    using write_fifo_ok [of "dev\<lparr>fifo_space := x\<rparr>" ar st1 buf 0] assms(1) st1(3) by auto
  with st1 show ?thesis by (auto simp: ns16c550_write_def unat_gt_0 intro!: exI [of _ n] exI [of _ "x - of_nat n"] exI [of _ st'])
qed

end
