(* ===== verification/Uart_Properties.thy ===== *)
theory Uart_Properties
  imports Uart_NS16550
begin

text \<open>What the generic I/O layer and the serial port drivers promise, with instances.\<close>

text \<open>A bus that answers 0 to every read.\<close>

definition quiet :: io_state where
  "quiet = \<lparr>events = [], answers = (\<lambda>_. 0), nreads = 0\<rparr>"

section \<open>Generic I/O\<close>

text \<open>The two implementations agree on memory-mapped addresses: for an address below \<open>2 ^ 56\<close> the x86
  accessors do the memory access of the generic ones at the address plus the offset; a port address
  goes to the port plus the offset, in 16 bits.\<close>

theorem gio_implementations_agree:
  assumes "unat a < 2 ^ 56"
  shows "gio_write8_offset X86 (GIO_MMIO_ADDR a) offs = gio_write8_offset Generic (GIO_MMIO_ADDR a) offs \<and>
    gio_write16_offset X86 (GIO_MMIO_ADDR a) offs = gio_write16_offset Generic (GIO_MMIO_ADDR a) offs \<and>
    gio_write32_offset X86 (GIO_MMIO_ADDR a) offs = gio_write32_offset Generic (GIO_MMIO_ADDR a) offs \<and>
    gio_read8_offset X86 (GIO_MMIO_ADDR a) offs = gio_read8_offset Generic (GIO_MMIO_ADDR a) offs \<and>
    gio_read16_offset X86 (GIO_MMIO_ADDR a) offs = gio_read16_offset Generic (GIO_MMIO_ADDR a) offs \<and>
    gio_read32_offset X86 (GIO_MMIO_ADDR a) offs = gio_read32_offset Generic (GIO_MMIO_ADDR a) offs \<and>
    gio_write8_offset X86 (GIO_PORTIO_ADDR p) offs v = outb (ucast (ucast p + offs)) v \<and>
    gio_read8_offset X86 (GIO_PORTIO_ADDR p) offs = inb (ucast (ucast p + offs))"
proof -
  have "gio_write8_offset X86 (GIO_PORTIO_ADDR p) offs v = outb (ucast (ucast p + offs)) v"
    "gio_read8_offset X86 (GIO_PORTIO_ADDR p) offs = inb (ucast (ucast p + offs))"
    using portio_tag [of p] by (simp_all add: x86_write8_offset_def x86_read8_offset_def port_at_def)
  then show ?thesis unfolding offset_places using mmio_tag [OF assms] by simp
qed

theorem gio_implementations_agree_witness:
  "gio_read32_offset X86 (GIO_MMIO_ADDR 0xFED00000) 4 = gio_read32_offset Generic (GIO_MMIO_ADDR 0xFED00000) 4"
  using gio_implementations_agree [of "0xFED00000"] by simp

section \<open>PL011\<close>

text \<open>\<open>pl011_write\<close> returns exactly if the device ever reports room in its FIFO.\<close>

theorem pl011_write_returns:
  "(\<exists>r. pl011_write ar dev buf st = Inr r) \<longleftrightarrow> (\<exists>k. answers st (nreads st + k) AND UART_FR_TXFF_BIT = 0)"
  by (rule pl011_write_returns_iff)

text \<open>C35. What \<open>pl011_write\<close> does on the bus, for every device: it polls the flags until the FIFO is not
  full, then sends a prefix of the buffer in order, each byte directly after a read of the flags
  that found room, and stops at the end of the buffer or at a full FIFO; it reports the number of
  bytes sent.  A byte is written to the data register as the \<^verbatim>\<open>char\<close> that it is, sign-extended where \<^verbatim>\<open>char\<close> is signed.\<close>

theorem pl011_write_sends:
  assumes "\<forall>i<k. answers st (nreads st + i) AND UART_FR_TXFF_BIT \<noteq> 0" and "answers st (nreads st + k) AND UART_FR_TXFF_BIT = 0"
  shows "\<exists>n st' tr. pl011_write ar dev buf st = Inr (n, st') \<and>
    trace st' = trace st @ map (Read32 (reg_at ar (arm_pl011_dev.base dev) UART_FR)) (next_answers st (Suc k)) @ tr \<and>
    burst ar (reg_at ar (arm_pl011_dev.base dev) UART_FR) (reg_at ar (arm_pl011_dev.base dev) UART_DR) buf n tr"
  using assms by (rule pl011_write_ok)

theorem pl011_write_sends_witness:
  "\<exists>n st' tr. pl011_write Generic \<lparr>arm_pl011_dev.base = 0x9000000, brg_clock = 24000000\<rparr> [72, 105] quiet = Inr (n, st') \<and>
    burst Generic (Mem 0x9000018) (Mem 0x9000000) [72, 105] n tr"
  using pl011_write_sends [of 0 quiet Generic "\<lparr>arm_pl011_dev.base = 0x9000000, brg_clock = 24000000\<rparr>" "[72, 105]"]
  by (auto simp: quiet_def UART_FR_def UART_DR_def)

text \<open>\<open>pl011_read\<close> polls until there is data, then reads each byte directly after a read of the flags
  that found one, at most as many as asked for, and stores the low bytes in order.\<close>

theorem pl011_read_receives:
  assumes "\<forall>i<k. answers st (nreads st + i) AND UART_FR_RXFE_BIT \<noteq> 0" and "answers st (nreads st + k) AND UART_FR_RXFE_BIT = 0"
  shows "\<exists>got st' tr. pl011_read ar dev n st = Inr (got, st') \<and>
    trace st' = trace st @ map (Read32 (reg_at ar (arm_pl011_dev.base dev) UART_FR)) (next_answers st (Suc k)) @ tr \<and>
    intake (reg_at ar (arm_pl011_dev.base dev) UART_FR) (reg_at ar (arm_pl011_dev.base dev) UART_DR) n got tr"
  using assms by (rule pl011_read_ok)

theorem pl011_read_receives_witness:
  "\<exists>got st' tr. pl011_read Generic \<lparr>arm_pl011_dev.base = 0x9000000, brg_clock = 24000000\<rparr> 3 quiet = Inr (got, st') \<and>
    intake (Mem 0x9000018) (Mem 0x9000000) 3 got tr"
  using pl011_read_receives [of 0 quiet Generic "\<lparr>arm_pl011_dev.base = 0x9000000, brg_clock = 24000000\<rparr>" 3]
  by (auto simp: quiet_def UART_FR_def UART_DR_def)

text \<open>C36. \<open>pl011_set_config\<close> with a baud rate that is not 0 and for which the multiplication by 2048 does not wrap: 5 to 8 data bits
  and 1 or 2 stop bits are accepted, anything else is \<open>EINVAL\<close> and the device is not touched.  An accepted configuration is written
  in five accesses: the device is switched off, gets the divisor and the line control, and is switched on last.  The line control
  has the length of a character less 5 in its word-length field, parity, stop bits and FIFOs as asked for and no break; the control
  register has the device, receiver and transmitter on and the flow control asked for, and no other bit.  The divisor is
  \<open>(clock / (2048 baud) + 1) / 2\<close>, and not the correctly rounded number of 64ths that the comment in the source announces.\<close>

theorem pl011_set_config_programs:
  assumes "baud cfg \<noteq> 0" "unat (baud cfg) * 2048 < 2 ^ 32"
  shows "if unat (bits cfg) \<in> {5..8} \<and> unat (stop_bits cfg) \<in> {1, 2}
    then \<exists>st' ibrd fbrd lcrh cr. pl011_set_config ar dev cfg st = Inr (0, st') \<and>
      trace st' = trace st @ config_trace ar (arm_pl011_dev.base dev) ibrd fbrd lcrh cr \<and>
      64 * unat ibrd + unat fbrd = (unat (brg_clock dev) div (2048 * unat (baud cfg)) + 1) div 2 \<and> unat fbrd < 64 \<and>
      line_control cfg lcrh \<and> control cfg cr
    else pl011_set_config ar dev cfg st = Inr (EINVAL, st)"
proof -
  obtain brg where b: "brg_of (brg_clock dev) (baud cfg) = Inr brg" "unat brg = (unat (brg_clock dev) div (2048 * unat (baud cfg)) + 1) div 2"
    using brg_value [OF assms] by blast
  show ?thesis
  proof (cases "unat (bits cfg) \<in> {5..8} \<and> unat (stop_bits cfg) \<in> {1, 2}")
    case True
    then obtain w s where ws: "wlen_bits (bits cfg) = Some w" "stop_bits_of (stop_bits cfg) = Some s" unfolding accepted_bits [symmetric] by blast
    from divisor_parts [of brg] b(2) set_config_ok [OF b(1) ws, of ar st] line_control_ok [OF ws] control_ok [of cfg] True show ?thesis by metis
  next
    case False
    then have "wlen_bits (bits cfg) = None \<or> stop_bits_of (stop_bits cfg) = None" unfolding accepted_bits [symmetric] by auto
    with False show ?thesis using set_config_invalid [OF b(1)] by auto
  qed
qed

theorem pl011_set_config_programs_witness:
  "pl011_set_config Generic \<lparr>arm_pl011_dev.base = 0x9000000, brg_clock = 24000000\<rparr> (default_config\<lparr>bits := 9\<rparr>) quiet = Inr (EINVAL, quiet) \<and>
   (\<exists>st' ibrd fbrd lcrh cr. pl011_set_config Generic \<lparr>arm_pl011_dev.base = 0x9000000, brg_clock = 24000000\<rparr> (default_config\<lparr>baud := 1200\<rparr>) quiet = Inr (0, st') \<and>
      trace st' = config_trace Generic 0x9000000 ibrd fbrd lcrh cr \<and> 64 * unat ibrd + unat fbrd = 5 \<and> unat lcrh div 32 = 3)"
proof -
  let ?d = "\<lparr>arm_pl011_dev.base = 0x9000000, brg_clock = 24000000\<rparr>"
  have "baud (default_config\<lparr>bits := 9\<rparr>) \<noteq> 0" "unat (baud (default_config\<lparr>bits := 9\<rparr>)) * 2048 < 2 ^ 32"
    "baud (default_config\<lparr>baud := 1200\<rparr>) \<noteq> 0" "unat (baud (default_config\<lparr>baud := 1200\<rparr>)) * 2048 < 2 ^ 32" by (simp_all add: default_config_def)
  note r = pl011_set_config_programs [OF this(1,2), of Generic ?d quiet] pl011_set_config_programs [OF this(3,4), of Generic ?d quiet]
  show ?thesis using r by (simp add: default_config_def quiet_def line_control_def) blast
qed

text \<open>The divisor that the driver computes is 0 for every clock below 2048 times the baud rate, in
  particular for the usual clocks and rates, where the device needs a divisor of at least 1.\<close>

theorem pl011_divisor_zero:
  assumes "unat (baud cfg) * 2048 < 2 ^ 32" and "unat (brg_clock dev) < unat (baud cfg) * 2048"
    and "wlen_bits (bits cfg) = Some w" and "stop_bits_of (stop_bits cfg) = Some s"
  shows "\<exists>st' lcrh cr. pl011_set_config ar dev cfg st = Inr (0, st') \<and>
    trace st' = trace st @ config_trace ar (arm_pl011_dev.base dev) 0 0 lcrh cr"
  using set_config_ok [OF brg_zero [OF assms(1,2)] assms(3,4), of ar st] by auto

theorem pl011_divisor_zero_witness:
  "\<exists>st' lcrh cr. pl011_set_config Generic \<lparr>arm_pl011_dev.base = 0x9000000, brg_clock = 24000000\<rparr> default_config quiet = Inr (0, st') \<and>
    trace st' = config_trace Generic 0x9000000 0 0 lcrh cr"
  using pl011_divisor_zero [of default_config "\<lparr>arm_pl011_dev.base = 0x9000000, brg_clock = 24000000\<rparr>" "push_bit 5 3" 0 Generic quiet]
  by (simp add: default_config_def wlen_bits_def stop_bits_of_def UART_LCR_H_WLEN_SHIFT_def quiet_def)

text \<open>If \<open>gd_device_get_parent\<close> fails, the attachment returns \<open>NULL\<close> without freeing the block it has
  allocated; if the register window is missing, it frees it.\<close>

theorem arm_pl011_attach_leaks:
  assumes "block env \<noteq> NULL"
  shows "arm_pl011_dt_driver_attach ar (env\<lparr>parent_rv := -1\<rparr>) heap st = Inr (NULL, block env # heap, st) \<and>
    arm_pl011_dt_driver_attach ar (env\<lparr>parent_rv := 0, reg_rv := -1\<rparr>) heap st = Inr (NULL, heap, st)"
  using assms by (simp add: arm_pl011_dt_driver_attach_def Let_def)

theorem arm_pl011_attach_leaks_witness:
  "arm_pl011_dt_driver_attach Generic
    \<lparr>block = 64, junk_clock = 0, parent_rv = -1, reg_rv = 0, reg_base = 0, reg_size = 0\<rparr> [] quiet = Inr (NULL, [64], quiet)"
  using arm_pl011_attach_leaks [of "\<lparr>block = 64, junk_clock = 0, parent_rv = 0, reg_rv = 0, reg_base = 0, reg_size = 0\<rparr>" Generic "[]" quiet]
  by simp

section \<open>NS16C550\<close>

text \<open>C34. The NS16C550 driver never overruns the FIFO: between two reports of an empty transmitter it
  writes at most \<open>fifo_size\<close> bytes, over any number of calls (the count and \<open>fifo_space\<close> together stay
  within \<open>fifo_size\<close>).  The call returns if the device ever reports an empty transmitter; it writes a
  prefix of the buffer in order, at least one byte of a buffer that is not empty.\<close>

theorem ns16c550_write_no_overrun:
  assumes "width_ok dev" and "fifo_ok ar dev (events st)" and "fifo_size dev \<noteq> 0"
    and "\<exists>k. ucast (answers st (nreads st + k)) AND LSR_TX_SR_EMPTY \<noteq> 0"
  shows "\<exists>n x st'. ns16c550_write ar dev buf st = Some (n, dev\<lparr>fifo_space := x\<rparr>, st') \<and>
    n \<le> length buf \<and> (buf \<noteq> [] \<longrightarrow> 0 < n) \<and> fifo_ok ar (dev\<lparr>fifo_space := x\<rparr>) (events st') \<and>
    data_bytes (reg_place ar dev UART_DATA) (events st') = data_bytes (reg_place ar dev UART_DATA) (events st) @ take n buf"
  using assms by (rule ns16c550_write_ok)

definition com1 :: ns16c550_dev where
  "com1 = \<lparr>ns16c550_dev.base = GIO_PORTIO_ADDR 0x3F8, fifo_size = 16, fifo_space = 0, reg_width = 8\<rparr>"

theorem ns16c550_write_no_overrun_witness:
  "\<exists>n x st'. ns16c550_write X86 com1 [72, 105] (quiet\<lparr>answers := (\<lambda>_. 0x60)\<rparr>) = Some (n, com1\<lparr>fifo_space := x\<rparr>, st') \<and>
    0 < n \<and> data_bytes (reg_place X86 com1 UART_DATA) (events st') = take n [72, 105]"
  using ns16c550_write_no_overrun [of com1 X86 "quiet\<lparr>answers := (\<lambda>_. 0x60)\<rparr>" "[72, 105]"]
  by (auto simp: com1_def width_ok_def fifo_ok_def quiet_def LSR_TX_SR_EMPTY_def data_bytes_def map_filter_def)

end
