(* ===== verification/Framebuffer.thy ===== *)
theory Framebuffer
  imports Byte_Memory
begin

text \<open>
  The text console on a linear frame buffer (\<^verbatim>\<open>bal/device/fb/fb.c\<close>).  Characters are drawn into a back
  buffer in memory, used as a circular buffer of text lines, and \<open>fb_render\<close> copies the changed lines
  to the frame buffer; without a back buffer they are drawn into the frame buffer itself.  Both
  buffers are byte memory.  The font, a table of 13 bytes for each character, is the parameter \<open>font\<close>.
\<close>

section \<open>Data\<close>

record mode_info =
  mode_identifier :: u32
  mode_type :: u16
  mode_attributes :: u32
  width :: u16
  height :: u16
  width_of_char_cell :: u8
  height_of_char_cell :: u8
  depth :: u8
  bytes_per_scanline :: u32
  red_mask_size :: u8
  red_field_pos :: u8
  green_mask_size :: u8
  green_field_pos :: u8
  blue_mask_size :: u8
  blue_field_pos :: u8
  reserved_mask_size :: u8
  reserved_field_pos :: u8
  lfb_address :: u64
  max_pixel_clock :: u32

record pixel_color =
  red :: u8
  green :: u8
  blue :: u8
  pixel :: u32

text \<open>\<open>fb_write_char_depth\<close> holds the depth whose drawing function the pointer was set to, 0 if none.\<close>

record fb_dev =
  cur_mode :: mode_info
  max_width :: u32
  max_height :: u32
  cur_x :: u32
  cur_y :: u32
  back_buffer :: addr
  front_buffer :: addr
  back_buffer_start :: u32
  front_dirty_start :: u32
  front_dirty_end :: u32
  flags :: u32
  foreground :: pixel_color
  background :: pixel_color
  fb_write_char_depth :: u8

definition CONTIG_SCANLINES :: u32 where
  "CONTIG_SCANLINES = push_bit 0 1"

definition font_width :: u32 where
  "font_width = 8"

definition font_height :: u32 where
  "font_height = 13"

abbreviation contig :: "fb_dev \<Rightarrow> bool" where
  "contig dev \<equiv> flags dev AND CONTIG_SCANLINES \<noteq> 0"

section \<open>Pixels\<close>

text \<open>For mask sizes of at most 8 bits.\<close>

definition fb_get_pixel_color :: "mode_info \<Rightarrow> u8 \<Rightarrow> u8 \<Rightarrow> u8 \<Rightarrow> u32" where
  "fb_get_pixel_color mode r g b =
     push_bit (unat (red_field_pos mode)) (ucast (drop_bit (8 - unat (red_mask_size mode)) r)) OR
     push_bit (unat (green_field_pos mode)) (ucast (drop_bit (8 - unat (green_mask_size mode)) g)) OR
     push_bit (unat (blue_field_pos mode)) (ucast (drop_bit (8 - unat (blue_mask_size mode)) b))"

definition fb_reset_foreground_color :: "fb_dev \<Rightarrow> fb_dev" where
  "fb_reset_foreground_color dev =
     dev\<lparr>foreground := \<lparr>red = 0xFF, green = 0xFF, blue = 0xFF, pixel = fb_get_pixel_color (cur_mode dev) 0xFF 0xFF 0xFF\<rparr>\<rparr>"

definition fb_reset_background_color :: "fb_dev \<Rightarrow> fb_dev" where
  "fb_reset_background_color dev = dev\<lparr>background := \<lparr>red = 0, green = 0, blue = 0, pixel = 0\<rparr>\<rparr>"

text \<open>The bytes of one pixel at the depths the console supports.\<close>

definition pixel_bytes :: "u8 \<Rightarrow> u32 \<Rightarrow> u8 list" where
  "pixel_bytes dp p =
     (if dp = 8 then [ucast p] else if dp = 16 then word_le 2 (p AND 0xFFFF)
      else if dp = 24 then [ucast (p AND 0xFF), ucast (drop_bit 8 p AND 0xFF), ucast (drop_bit 16 p AND 0xFF)]
      else if dp = 32 then word_le 4 p else [])"

definition memset_pixel :: "fb_dev \<Rightarrow> addr \<Rightarrow> u32 \<Rightarrow> nat \<Rightarrow> bytes \<Rightarrow> bytes" where
  "memset_pixel dev dest p n m = store_bytes m dest (concat (replicate n (pixel_bytes (depth (cur_mode dev)) p)))"

definition memcpy :: "addr \<Rightarrow> addr \<Rightarrow> nat \<Rightarrow> bytes \<Rightarrow> bytes" where
  "memcpy dest src n m = store_bytes m dest (load_bytes m src n)"

text \<open>Copies one after the other, each as destination, source and length.\<close>

definition copy_all :: "(addr \<times> addr \<times> nat) list \<Rightarrow> bytes \<Rightarrow> bytes" where
  "copy_all cs m = fold (\<lambda>(d, s, n). memcpy d s n) cs m"

section \<open>Rendering\<close>

definition render_start :: "fb_dev \<Rightarrow> u32" where
  "render_start dev = (front_dirty_start dev + back_buffer_start dev) mod max_height dev"

definition render_end :: "fb_dev \<Rightarrow> u32" where
  "render_end dev = (front_dirty_end dev + back_buffer_start dev) mod max_height dev"

text \<open>The copies for frame buffers whose lines follow one another without a gap.\<close>

definition contig_copies :: "fb_dev \<Rightarrow> (addr \<times> addr \<times> nat) list" where
  "contig_copies dev =
     (let start = render_start dev; stop = render_end dev;
          char_line = ucast (font_height * bytes_per_scanline (cur_mode dev)) :: u64 in
      if start < stop then
        [(front_buffer dev + ucast (front_dirty_start dev) * char_line, back_buffer dev + ucast start * char_line,
          unat (ucast (stop - start) * char_line))]
      else
        [(front_buffer dev + ucast (front_dirty_start dev) * char_line, back_buffer dev + ucast start * char_line,
          unat (ucast (max_height dev - back_buffer_start dev) * char_line)),
         (front_buffer dev + ucast (front_dirty_start dev + max_height dev - back_buffer_start dev) * char_line,
          back_buffer dev, unat (ucast stop * char_line))])"

text \<open>The copies of single scanlines; \<open>i\<close> counts text lines and \<open>j\<close> the scanlines of one.\<close>

definition line_bytes :: "mode_info \<Rightarrow> u64" where
  "line_bytes mode = ucast (ucast (width mode) * ucast (depth mode) div (8 :: u32))"

definition scanline_copy :: "fb_dev \<Rightarrow> u32 \<Rightarrow> u32 \<Rightarrow> u32 \<Rightarrow> addr \<times> addr \<times> nat" where
  "scanline_copy dev fline bline j =
     (front_buffer dev + ucast ((fline * font_height + j) * bytes_per_scanline (cur_mode dev)),
      back_buffer dev + ucast (bline * font_height + j) * line_bytes (cur_mode dev), unat (line_bytes (cur_mode dev)))"

definition rows :: "u32 list" where
  "rows = map of_nat [0..<unat font_height]"

abbreviation upto_word :: "u32 \<Rightarrow> u32 \<Rightarrow> u32 list" where
  "upto_word a b \<equiv> map of_nat [unat a..<unat b]"

definition scanline_copies :: "fb_dev \<Rightarrow> (addr \<times> addr \<times> nat) list" where
  "scanline_copies dev =
     (let start = render_start dev; stop = render_end dev in
      if start < stop then
        [scanline_copy dev (front_dirty_start dev + i) (start + i) j. i \<leftarrow> upto_word start stop, j \<leftarrow> rows]
      else
        [scanline_copy dev (front_dirty_start dev + i) (start + i) j. i \<leftarrow> upto_word 0 (max_height dev - back_buffer_start dev), j \<leftarrow> rows] @
        [scanline_copy dev (front_dirty_start dev + max_height dev - back_buffer_start dev + i) i j. i \<leftarrow> upto_word 0 stop, j \<leftarrow> rows])"

definition fb_render :: "fb_dev \<Rightarrow> bytes \<Rightarrow> bytes" where
  "fb_render dev m =
     (if back_buffer dev = NULL \<or> front_dirty_end dev \<le> front_dirty_start dev then m
      else copy_all (if contig dev then contig_copies dev else scanline_copies dev) m)"

section \<open>Clearing and scrolling\<close>

definition fb_clear_buffers :: "fb_dev \<Rightarrow> bytes \<Rightarrow> fb_dev \<times> bytes" where
  "fb_clear_buffers dev m =
     (let dev = dev\<lparr>cur_x := 0, cur_y := 0\<rparr>; w = ucast (width (cur_mode dev)) :: u32; bg = pixel (background dev);
          (dev, m) = (if back_buffer dev \<noteq> NULL then
             (let dev = dev\<lparr>back_buffer_start := 0\<rparr> in
              (dev, memset_pixel dev (back_buffer dev) bg (unat (w * max_height dev * font_height)) m)) else (dev, m));
          m = (if contig dev then memset_pixel dev (front_buffer dev) bg (unat (w * ucast (height (cur_mode dev)))) m
               else fold (\<lambda>i. memset_pixel dev (front_buffer dev + ucast (of_nat i * bytes_per_scanline (cur_mode dev))) bg (unat w))
                      [0..<unat (height (cur_mode dev))] m)
      in (dev\<lparr>front_dirty_start := 0, front_dirty_end := 0\<rparr>, m))"

definition fb_line_dirty :: "fb_dev \<Rightarrow> u32 \<Rightarrow> fb_dev" where
  "fb_line_dirty dev line =
     (let dev = (if front_dirty_start dev > line then dev\<lparr>front_dirty_start := line\<rparr> else dev)
      in if front_dirty_end dev \<le> line then dev\<lparr>front_dirty_end := line + 1\<rparr> else dev)"

text \<open>Scrolling of the frame buffer itself, scanline by scanline.\<close>

definition scroll_scanlines :: "fb_dev \<Rightarrow> bytes \<Rightarrow> bytes" where
  "scroll_scanlines dev m =
     (let bps = ucast (bytes_per_scanline (cur_mode dev)) :: u64;
          char_line = ucast (font_height * bytes_per_scanline (cur_mode dev)) :: u64;
          moved = unat (max_height dev - 1) * unat font_height;
          m = fold (\<lambda>k. memcpy (front_buffer dev + of_nat k * bps) (front_buffer dev + of_nat k * bps + char_line)
                 (unat (line_bytes (cur_mode dev)))) [0..<moved] m
      in fold (\<lambda>k. memset_pixel dev (front_buffer dev + of_nat k * bps) (pixel (background dev)) (unat (width (cur_mode dev))))
           [moved..<moved + unat font_height] m)"

definition fb_scroll :: "fb_dev \<Rightarrow> bytes \<Rightarrow> fb_dev \<times> bytes" where
  "fb_scroll dev m =
     (let w = ucast (width (cur_mode dev)) :: u32; d = ucast (depth (cur_mode dev)) :: u32 in
      if back_buffer dev \<noteq> NULL then
        (dev\<lparr>back_buffer_start := (back_buffer_start dev + 1) mod max_height dev,
             front_dirty_start := 0, front_dirty_end := max_height dev\<rparr>,
         memset_pixel dev (back_buffer dev + ucast (back_buffer_start dev * font_height * w * d div 8))
           (pixel (background dev)) (unat (w * font_height)) m)
      else if contig dev then
        (let moved = ucast (w * (ucast (height (cur_mode dev)) - font_height) * d div 8) :: u64;
             char_line = ucast (font_height * bytes_per_scanline (cur_mode dev)) :: u64 in
         (dev, memset_pixel dev (front_buffer dev + moved) (pixel (background dev)) (unat (w * font_height))
                 (memcpy (front_buffer dev) (front_buffer dev + char_line) (unat moved) m)))
      else (dev, scroll_scanlines dev m))"

section \<open>Characters\<close>

text \<open>The buffer to draw into, the distance of its scanlines and the line of the cursor in it.\<close>

definition draw_target :: "fb_dev \<Rightarrow> u32 \<Rightarrow> addr \<times> u32 \<times> u32" where
  "draw_target dev bpp =
     (if back_buffer dev \<noteq> NULL
      then (back_buffer dev, ucast (width (cur_mode dev)) * bpp, (cur_y dev + back_buffer_start dev) mod max_height dev)
      else (front_buffer dev, bytes_per_scanline (cur_mode dev), cur_y dev))"

text \<open>The bytes of scanline \<open>i\<close> of a character, and the character from \<open>dest\<close> on.\<close>

definition glyph_row :: "(nat \<Rightarrow> u8) \<Rightarrow> fb_dev \<Rightarrow> u8 \<Rightarrow> u8 \<Rightarrow> nat \<Rightarrow> u8 list" where
  "glyph_row font dev dp c i = concat (map (\<lambda>j. pixel_bytes dp
     (if bit (font (unat c * unat font_height + i)) (7 - j) then pixel (foreground dev) else pixel (background dev))) [0..<8])"

definition draw_glyph :: "(nat \<Rightarrow> u8) \<Rightarrow> fb_dev \<Rightarrow> u8 \<Rightarrow> u8 \<Rightarrow> addr \<Rightarrow> u64 \<Rightarrow> bytes \<Rightarrow> bytes" where
  "draw_glyph font dev dp c dest pitch m =
     fold (\<lambda>i m. store_bytes m (dest + of_nat i * pitch) (glyph_row font dev dp c i)) [0..<unat font_height] m"

definition fb_write_char_8 :: "(nat \<Rightarrow> u8) \<Rightarrow> fb_dev \<Rightarrow> u8 \<Rightarrow> bytes \<Rightarrow> bytes" where
  "fb_write_char_8 font dev c =
     (let (dest, bps, y) = draw_target dev 1 in
      draw_glyph font dev 8 c (dest + ucast (y * font_height * bps) + ucast (cur_x dev * font_width)) (ucast bps))"

definition fb_write_char_16 :: "(nat \<Rightarrow> u8) \<Rightarrow> fb_dev \<Rightarrow> u8 \<Rightarrow> bytes \<Rightarrow> bytes" where
  "fb_write_char_16 font dev c =
     (let (dest, bps, y) = draw_target dev 2 in
      draw_glyph font dev 16 c (dest + 2 * ucast (y * font_height * bps div 2) + 2 * ucast (cur_x dev * font_width)) (2 * ucast (bps div 2)))"

definition fb_write_char_24 :: "(nat \<Rightarrow> u8) \<Rightarrow> fb_dev \<Rightarrow> u8 \<Rightarrow> bytes \<Rightarrow> bytes" where
  "fb_write_char_24 font dev c =
     (let (dest, bps, y) = draw_target dev 3 in
      draw_glyph font dev 24 c (dest + ucast (y * font_height * bps) + ucast (cur_x dev * font_width * 3)) (ucast bps))"

definition fb_write_char_32 :: "(nat \<Rightarrow> u8) \<Rightarrow> fb_dev \<Rightarrow> u8 \<Rightarrow> bytes \<Rightarrow> bytes" where
  "fb_write_char_32 font dev c =
     (let (dest, bps, y) = draw_target dev 4 in
      draw_glyph font dev 32 c (dest + 4 * ucast (y * font_height * bps div 4) + 4 * ucast (cur_x dev * font_width)) (4 * ucast (bps div 4)))"

text \<open>The call through the pointer; a pointer that was never set is a crash.\<close>

definition write_char_depth :: "(nat \<Rightarrow> u8) \<Rightarrow> fb_dev \<Rightarrow> u8 \<Rightarrow> bytes \<Rightarrow> bytes outcome" where
  "write_char_depth font dev c m =
     (let f = fb_write_char_depth dev in
      if f = 8 then Inr (fb_write_char_8 font dev c m) else if f = 16 then Inr (fb_write_char_16 font dev c m)
      else if f = 24 then Inr (fb_write_char_24 font dev c m) else if f = 32 then Inr (fb_write_char_32 font dev c m)
      else Inl Crash)"

definition next_line :: "fb_dev \<Rightarrow> bytes \<Rightarrow> fb_dev \<times> bytes" where
  "next_line dev m = (if cur_y dev = max_height dev - 1 then fb_scroll dev m else (dev\<lparr>cur_y := cur_y dev + 1\<rparr>, m))"

definition fb_write_char :: "(nat \<Rightarrow> u8) \<Rightarrow> fb_dev \<Rightarrow> u8 \<Rightarrow> bytes \<Rightarrow> (fb_dev \<times> bytes) outcome" where
  "fb_write_char font dev c m =
     (if c = 0x0A then (let (dev, m) = next_line dev m in Inr (dev\<lparr>cur_x := 0\<rparr>, m))
      else if c = 0x0D then Inr (dev\<lparr>cur_x := 0\<rparr>, m)
      else if c = 0x09 then
        (let x = cur_x dev + (8 - cur_x dev mod 8) in
         Inr (dev\<lparr>cur_x := (if x \<ge> max_width dev then max_width dev - 1 else x)\<rparr>, m))
      else andthen (write_char_depth font dev c m) (\<lambda>m.
        let dev = fb_line_dirty dev (cur_y dev); dev = dev\<lparr>cur_x := cur_x dev + 1\<rparr> in
        Inr (if cur_x dev = max_width dev then next_line (dev\<lparr>cur_x := 0\<rparr>) m else (dev, m))))"

fun fb_write_chars :: "(nat \<Rightarrow> u8) \<Rightarrow> fb_dev \<Rightarrow> u8 list \<Rightarrow> bytes \<Rightarrow> (fb_dev \<times> bytes) outcome" where
  "fb_write_chars font dev [] m = Inr (dev, m)"
| "fb_write_chars font dev (c # cs) m = andthen (fb_write_char font dev c m) (\<lambda>(dev, m). fb_write_chars font dev cs m)"

text \<open>The return value is 0 and all bytes count as written.\<close>

definition fb_write :: "(nat \<Rightarrow> u8) \<Rightarrow> fb_dev \<Rightarrow> u8 list \<Rightarrow> bytes \<Rightarrow> (fb_dev \<times> bytes) outcome" where
  "fb_write font dev buf m = andthen (fb_write_chars font dev buf m) (\<lambda>(dev, m). Inr (dev, fb_render dev m))"

section \<open>Initialisation\<close>

text \<open>\<open>block\<close> is the result of \<open>malloc\<close>; a text mode or one of another depth leaves the pointer unset.\<close>

definition fb_init :: "addr \<Rightarrow> fb_dev \<Rightarrow> mode_info \<Rightarrow> bytes \<Rightarrow> fb_dev \<times> bytes" where
  "fb_init block dev mode m =
     (let dev = dev\<lparr>cur_mode := mode, max_width := ucast (width mode) div font_width, max_height := ucast (height mode) div font_height,
            back_buffer := block, front_buffer := lfb_address mode\<rparr>;
          dev = (if depth mode \<in> {8, 16, 24, 32} then dev\<lparr>fb_write_char_depth := depth mode\<rparr> else dev);
          dev = dev\<lparr>flags := (if bytes_per_scanline mode = ucast (width mode) * ucast (depth mode) div 8 then CONTIG_SCANLINES else 0)\<rparr>
      in fb_clear_buffers (fb_reset_foreground_color (fb_reset_background_color dev)) m)"

end
