(* ===== verification/Framebuffer_Bytes.thy ===== *)
theory Framebuffer_Bytes
  imports Framebuffer
begin

text \<open>
  The bytes of the two buffers of the console as pairs of a scanline and a position in it, what a
  store changes in these terms, and what a sequence of copies from one region to another does.
\<close>

section \<open>Stores at an offset\<close>

lemma unat_of_nat_addr: "n < 2 ^ 64 \<Longrightarrow> unat (of_nat n :: addr) = n"
  by (simp add: unsigned_of_nat take_bit_nat_eq_self)

lemma in_block_offset:
  assumes "a + n \<le> 2 ^ 64" "p < 2 ^ 64"
  shows "in_block (b + of_nat a) n (b + of_nat p) \<longleftrightarrow> a \<le> p \<and> p < a + n"
proof (cases "a \<le> p")
  case True
  then have "b + of_nat p - (b + of_nat a) = of_nat (p - a)" by (simp add: of_nat_diff)
  moreover have "unat (of_nat (p - a) :: addr) = p - a" using assms(2) by (intro unat_of_nat_addr) simp
  ultimately show ?thesis using True by (auto simp: in_block_def simp del: of_nat_diff)
next
  case False
  then have "b + of_nat p - (b + of_nat a) = - of_nat (a - p)" by (simp add: of_nat_diff)
  moreover have "unat (- (of_nat (a - p) :: addr)) = 2 ^ 64 - (a - p)" if "a < 2 ^ 64"
  proof -
    have "of_nat (2 ^ 64 - (a - p)) = (of_nat (2 ^ 64) :: addr) - of_nat (a - p)" using that by (intro of_nat_diff) simp
    then have "- (of_nat (a - p) :: addr) = of_nat (2 ^ 64 - (a - p))" by simp
    moreover have "unat (of_nat (2 ^ 64 - (a - p)) :: addr) = 2 ^ 64 - (a - p)" using False by (intro unat_of_nat_addr) simp
    ultimately show ?thesis by metis
  qed
  moreover have "n = 0" if "\<not> a < 2 ^ 64" using assms(1) that by simp
  ultimately show ?thesis using False assms by (cases "a < 2 ^ 64") (auto simp: in_block_def)
qed

lemma nth_store_bytes:
  "in_block a (length bs) x \<Longrightarrow> length bs \<le> 2 ^ 64 \<Longrightarrow> store_bytes m a bs x = bs ! unat (x - a)"
proof (induction bs arbitrary: m a)
  case (Cons b bs)
  show ?case
  proof (cases "x = a")
    case True
    then show ?thesis using Cons.prems by (subst store_bytes.simps, subst store_bytes_other) (auto intro!: not_in_tail)
  next
    case False
    then have nz: "x - a \<noteq> 0" by simp
    have "in_block (a + 1) (length bs) x" using Cons.prems(1) False by (simp add: in_block_Suc)
    then have "store_bytes (m(a := b)) (a + 1) bs x = bs ! unat (x - (a + 1))" using Cons by simp
    moreover have "unat (x - (a + 1)) = unat (x - a) - 1" using nz by (simp add: unat_minus_one flip: diff_diff_eq)
    moreover have "unat (x - a) \<noteq> 0" using nz by (simp add: unat_eq_0)
    ultimately show ?thesis by (simp add: nth_Cons')
  qed
qed simp

lemma store_offset:
  assumes "a + length bs \<le> 2 ^ 64" "p < 2 ^ 64"
  shows "store_bytes m (b + of_nat a) bs (b + of_nat p) =
    (if a \<le> p \<and> p < a + length bs then bs ! (p - a) else m (b + of_nat p))"
proof (cases "a \<le> p \<and> p < a + length bs")
  case True
  then have "b + of_nat p - (b + of_nat a) = of_nat (p - a)" by (simp add: of_nat_diff)
  moreover have "unat (of_nat (p - a) :: addr) = p - a" using assms(2) by (intro unat_of_nat_addr) simp
  ultimately have "unat (b + of_nat p - (b + of_nat a)) = p - a" by metis
  then show ?thesis using True assms by (subst nth_store_bytes) (auto simp: in_block_offset)
next
  case False
  then show ?thesis using assms by (subst store_bytes_other) (auto simp: in_block_offset)
qed

section \<open>Copies between regions\<close>

lemma memcpy_at: "n \<le> 2 ^ 64 \<Longrightarrow> memcpy d s n m y = (if in_block d n y then m (s + (y - d)) else m y)"
  unfolding memcpy_def
  by (auto simp: nth_store_bytes nth_load_bytes store_bytes_other in_block_def)

lemma copy_all_at:
  assumes "\<And>d s n y. (d, s, n) \<in> set cs \<Longrightarrow> n \<le> 2 ^ 64 \<and> (in_block d n y \<longrightarrow> y \<in> D \<and> s + (y - d) = src y \<and> src y \<notin> D)"
  shows "copy_all cs m y = (if \<exists>(d, s, n) \<in> set cs. in_block d n y then m (src y) else m y)"
  using assms
proof (induction cs arbitrary: m)
  case Nil
  then show ?case by (simp add: copy_all_def)
next
  case (Cons c cs)
  obtain d s n where c: "c = (d, s, n)" by (cases c) auto
  have at: "memcpy d s n m z = (if in_block d n z then m (src z) else m z)" for z
    using Cons.prems[of d s n z] c by (simp add: memcpy_at)
  have "memcpy d s n m (src y) = m (src y)" if "\<exists>(d, s, n) \<in> set cs. in_block d n y"
  proof -
    have "src y \<notin> D" using that Cons.prems[of _ _ _ y] by fastforce
    then have "\<not> in_block d n (src y)" using Cons.prems[of d s n "src y"] c by auto
    then show ?thesis by (simp add: at)
  qed
  moreover have "copy_all cs m' y = (if \<exists>(d, s, n) \<in> set cs. in_block d n y then m' (src y) else m' y)" for m'
    by (rule Cons.IH) (use Cons.prems in auto)
  ultimately show ?case using c by (auto simp: copy_all_def at)
qed

section \<open>The layout of the buffers\<close>

text \<open>The bytes of a pixel, of a scanline of the back buffer and of one of the frame buffer.\<close>

definition bpp :: "fb_dev \<Rightarrow> nat" where
  "bpp dev = unat (depth (cur_mode dev)) div 8"

definition lb :: "fb_dev \<Rightarrow> nat" where
  "lb dev = unat (width (cur_mode dev)) * bpp dev"

abbreviation pitch :: "fb_dev \<Rightarrow> nat" where
  "pitch dev \<equiv> unat (bytes_per_scanline (cur_mode dev))"

abbreviation mh :: "fb_dev \<Rightarrow> nat" where
  "mh dev \<equiv> unat (max_height dev)"

definition back_at :: "fb_dev \<Rightarrow> nat \<Rightarrow> nat \<Rightarrow> addr" where
  "back_at dev q k = back_buffer dev + of_nat (q * lb dev + k)"

definition front_at :: "fb_dev \<Rightarrow> nat \<Rightarrow> nat \<Rightarrow> addr" where
  "front_at dev q k = front_buffer dev + of_nat (q * pitch dev + k)"

text \<open>
  The modes and buffers the console is correct for: a depth it supports, at least one character,
  scanlines that do not overlap, pixel counts within 32 bits, and buffers that lie in the address space
  and do not overlap.
\<close>

definition fb_geometry :: "fb_dev \<Rightarrow> bool" where
  "fb_geometry dev \<longleftrightarrow>
     depth (cur_mode dev) \<in> {8, 16, 24, 32} \<and> fb_write_char_depth dev = depth (cur_mode dev) \<and>
     0 < unat (max_width dev) \<and> 0 < mh dev \<and>
     unat (max_width dev) * 8 \<le> unat (width (cur_mode dev)) \<and> mh dev * 13 \<le> unat (height (cur_mode dev)) \<and>
     (contig dev \<longleftrightarrow> pitch dev = lb dev) \<and> lb dev \<le> pitch dev \<and>
     unat (height (cur_mode dev)) * pitch dev < 2 ^ 32 \<and>
     unat (height (cur_mode dev)) * unat (width (cur_mode dev)) * unat (depth (cur_mode dev)) < 2 ^ 32 \<and>
     back_buffer dev \<noteq> NULL \<and>
     unat (back_buffer dev) + mh dev * 13 * lb dev \<le> 2 ^ 64 \<and>
     unat (front_buffer dev) + unat (height (cur_mode dev)) * pitch dev \<le> 2 ^ 64 \<and>
     (unat (back_buffer dev) + mh dev * 13 * lb dev \<le> unat (front_buffer dev) \<or>
      unat (front_buffer dev) + unat (height (cur_mode dev)) * pitch dev \<le> unat (back_buffer dev))"

lemma geometryD:
  assumes "fb_geometry dev"
  shows "fb_write_char_depth dev = depth (cur_mode dev)" "0 < unat (max_width dev)" "0 < mh dev"
    "unat (max_width dev) * 8 \<le> unat (width (cur_mode dev))" "mh dev * 13 \<le> unat (height (cur_mode dev))"
    "contig dev \<longleftrightarrow> pitch dev = lb dev" "lb dev \<le> pitch dev"
    "unat (height (cur_mode dev)) * pitch dev < 2 ^ 32"
    "unat (height (cur_mode dev)) * unat (width (cur_mode dev)) * unat (depth (cur_mode dev)) < 2 ^ 32"
    "back_buffer dev \<noteq> NULL" "unat (back_buffer dev) + mh dev * 13 * lb dev \<le> 2 ^ 64"
    "unat (front_buffer dev) + unat (height (cur_mode dev)) * pitch dev \<le> 2 ^ 64"
    "unat (back_buffer dev) + mh dev * 13 * lb dev \<le> unat (front_buffer dev) \<or>
      unat (front_buffer dev) + unat (height (cur_mode dev)) * pitch dev \<le> unat (back_buffer dev)"
  using assms by (simp_all only: fb_geometry_def not_False_eq_True)

lemma depth_cases:
  assumes "fb_geometry dev"
  obtains "depth (cur_mode dev) = 8" "bpp dev = 1" | "depth (cur_mode dev) = 16" "bpp dev = 2"
    | "depth (cur_mode dev) = 24" "bpp dev = 3" | "depth (cur_mode dev) = 32" "bpp dev = 4"
  using assms by (auto simp: fb_geometry_def bpp_def)

lemma scanline_offset:
  fixes q k :: nat
  assumes "q < Q" "k < w" "w \<le> p"
  shows "q * p + k < Q * p"
proof -
  have "q * p + k < Suc q * p" using assms by simp
  also have "\<dots> \<le> Q * p" using assms(1) by (intro mult_le_mono1) simp
  finally show ?thesis .
qed

lemma scanline_offset_eq:
  fixes q k q' k' p :: nat
  assumes "k < p" "k' < p"
  shows "q * p + k = q' * p + k' \<longleftrightarrow> q = q' \<and> k = k'"
proof
  assume e: "q * p + k = q' * p + k'"
  have "q = (q * p + k) div p" using assms by simp
  also have "\<dots> = q'" unfolding e using assms by simp
  finally show "q = q' \<and> k = k'" using e by simp
qed simp

lemma unat_add_of_nat: "unat b + n < 2 ^ 64 \<Longrightarrow> unat (b + of_nat n :: addr) = unat b + n"
  by (subst unat_add_lem [THEN iffD1]) (auto simp: unat_of_nat_addr)

text \<open>The scanlines the console uses.\<close>

lemma back_bound: "fb_geometry dev \<Longrightarrow> q < mh dev * 13 \<Longrightarrow> k < lb dev \<Longrightarrow>
    unat (back_at dev q k) = unat (back_buffer dev) + (q * lb dev + k) \<and> q * lb dev + k < mh dev * 13 * lb dev"
  using scanline_offset[of q "mh dev * 13" k "lb dev" "lb dev"] geometryD(11)[of dev]
    unat_add_of_nat[of "back_buffer dev" "q * lb dev + k"]
  unfolding back_at_def by linarith

lemma front_bound: "fb_geometry dev \<Longrightarrow> q < unat (height (cur_mode dev)) \<Longrightarrow> k < pitch dev \<Longrightarrow>
    unat (front_at dev q k) = unat (front_buffer dev) + (q * pitch dev + k) \<and>
    q * pitch dev + k < unat (height (cur_mode dev)) * pitch dev"
  using scanline_offset[of q "unat (height (cur_mode dev))" k "pitch dev" "pitch dev"] geometryD(12)[of dev]
    unat_add_of_nat[of "front_buffer dev" "q * pitch dev + k"]
  unfolding front_at_def by linarith

lemma rows_used: "fb_geometry dev \<Longrightarrow> q < mh dev * 13 \<Longrightarrow> q < unat (height (cur_mode dev))"
  using geometryD(5)[of dev] by linarith

lemma front_not_back:
  assumes "fb_geometry dev" "q < unat (height (cur_mode dev))" "k < pitch dev" "q' < mh dev * 13" "k' < lb dev"
  shows "front_at dev q k \<noteq> back_at dev q' k'"
proof
  assume "front_at dev q k = back_at dev q' k'"
  then have "unat (front_at dev q k) = unat (back_at dev q' k')" by simp
  then show False using front_bound[OF assms(1-3)] back_bound[OF assms(1,4,5)] geometryD(13)[OF assms(1)] by linarith
qed

text \<open>A store outside of which a byte lies.\<close>

lemma store_outside:
  assumes "unat b + a + length bs \<le> 2 ^ 64" "unat y < unat b + a \<or> unat b + a + length bs \<le> unat y"
  shows "store_bytes m (b + of_nat a) bs y = m y"
proof (rule store_bytes_other, rule notI)
  assume n: "in_block (b + of_nat a) (length bs) y"
  let ?d = "unat (y - (b + of_nat a))"
  have d: "?d < length bs" using n by (simp add: in_block_def)
  then have "unat b + (a + ?d) < 2 ^ 64" using assms(1) by linarith
  then have "unat (b + of_nat (a + ?d)) = unat b + (a + ?d)" by (rule unat_add_of_nat)
  moreover have "b + of_nat (a + ?d) = y" by simp
  ultimately have "unat y = unat b + (a + ?d)" by metis
  then show False using assms(2) d by linarith
qed

end
