(* ===== verification/Framebuffer_Render.thy ===== *)
theory Framebuffer_Render
  imports Framebuffer_Bytes
begin

text \<open>
  What \<open>fb_render\<close> does: with the invariant of the cursor and of the dirty lines, every dirty scanline
  of the frame buffer becomes the scanline of the circular back buffer it stands for.
\<close>

section \<open>The invariant of the console\<close>

definition fb_ok :: "fb_dev \<Rightarrow> bool" where
  "fb_ok dev \<longleftrightarrow> fb_geometry dev \<and> cur_x dev < max_width dev \<and> cur_y dev < max_height dev \<and>
     back_buffer_start dev < max_height dev \<and> front_dirty_start dev = 0 \<and> front_dirty_end dev \<le> max_height dev \<and>
     (back_buffer_start dev = 0 \<or> front_dirty_end dev = max_height dev)"

text \<open>The scanline of the back buffer that scanline \<open>q\<close> of the screen stands for.\<close>

definition circ :: "fb_dev \<Rightarrow> nat \<Rightarrow> nat" where
  "circ dev q = (q + unat (back_buffer_start dev) * 13) mod (mh dev * 13)"

lemma fb_okD:
  assumes "fb_ok dev"
  shows "fb_geometry dev" "unat (cur_x dev) < unat (max_width dev)" "unat (cur_y dev) < mh dev"
    "unat (back_buffer_start dev) < mh dev" "front_dirty_start dev = 0" "unat (front_dirty_end dev) \<le> mh dev"
    "back_buffer_start dev = 0 \<or> front_dirty_end dev = max_height dev"
  using assms by (simp_all add: fb_ok_def word_less_nat_alt word_le_nat_alt)

lemma mh_small: "fb_geometry dev \<Longrightarrow> mh dev * 13 < 2 ^ 16"
proof -
  assume "fb_geometry dev"
  then have "mh dev * 13 \<le> unat (height (cur_mode dev))" by (rule geometryD)
  moreover have "unat (height (cur_mode dev)) < 2 ^ LENGTH(16)" by (rule unsigned_less)
  ultimately show ?thesis by simp
qed

lemma circ_less: "fb_ok dev \<Longrightarrow> circ dev q < mh dev * 13"
  using geometryD(3)[OF fb_okD(1), of dev] by (simp add: circ_def)

lemma circ_cases:
  assumes "fb_ok dev" "q < mh dev * 13"
  shows "circ dev q = (if q + unat (back_buffer_start dev) * 13 < mh dev * 13 then q + unat (back_buffer_start dev) * 13
    else q + unat (back_buffer_start dev) * 13 - mh dev * 13)"
proof -
  let ?n = "q + unat (back_buffer_start dev) * 13"
  have "?n < mh dev * 13 + mh dev * 13" using assms(2) fb_okD(4)[OF assms(1)] by linarith
  then have "?n mod (mh dev * 13) = ?n - mh dev * 13" if "\<not> ?n < mh dev * 13"
    using that by (subst mod_if) (simp add: mod_less)
  then show ?thesis by (simp add: circ_def)
qed

section \<open>The copies in terms of scanlines\<close>

definition block_copy :: "fb_dev \<Rightarrow> nat \<times> nat \<times> nat \<Rightarrow> addr \<times> addr \<times> nat" where
  "block_copy dev = (\<lambda>(q, c, n). (front_at dev q 0, back_at dev c 0, n * lb dev))"

definition render_blocks :: "fb_dev \<Rightarrow> (nat \<times> nat \<times> nat) list" where
  "render_blocks dev =
     (let s = 13 * unat (back_buffer_start dev); e = 13 * unat (front_dirty_end dev); h = 13 * mh dev in
      if contig dev then (if s = 0 \<and> e < h then [(0, 0, e)] else [(0, s, h - s), (h - s, 0, s)])
      else [(q, circ dev q, 1). q \<leftarrow> [0..<e]])"

lemma ucast_of_nat: "(ucast (x :: u32) :: u64) = of_nat (unat x)"
  by simp

lemma render_start_end:
  assumes "fb_ok dev" "0 < unat (front_dirty_end dev)"
  shows "unat (render_start dev) = unat (back_buffer_start dev)"
    "unat (render_end dev) = (if back_buffer_start dev = 0 \<and> unat (front_dirty_end dev) < mh dev then unat (front_dirty_end dev)
       else unat (back_buffer_start dev))"
proof -
  have h: "mh dev < 2 ^ 16" using mh_small[OF fb_okD(1)[OF assms(1)]] by linarith
  then have "unat (front_dirty_end dev + back_buffer_start dev) = unat (front_dirty_end dev) + unat (back_buffer_start dev)"
    using fb_okD(4,6)[OF assms(1)] by (intro unat_add_lem [THEN iffD1]) simp
  then show "unat (render_end dev) = (if back_buffer_start dev = 0 \<and> unat (front_dirty_end dev) < mh dev
      then unat (front_dirty_end dev) else unat (back_buffer_start dev))"
    using fb_okD(4,6,7)[OF assms(1)] by (auto simp: render_end_def unat_mod)
  show "unat (render_start dev) = unat (back_buffer_start dev)"
    using fb_okD(4,5)[OF assms(1)] by (simp add: render_start_def unat_mod)
qed

lemma unat_char_line: "fb_geometry dev \<Longrightarrow> unat (font_height * bytes_per_scanline (cur_mode dev)) = 13 * pitch dev"
proof -
  assume g: "fb_geometry dev"
  have "13 * pitch dev \<le> unat (height (cur_mode dev)) * pitch dev" using geometryD(3,5)[OF g] by (intro mult_le_mono1) simp
  then have "13 * pitch dev < 2 ^ 32" using geometryD(8)[OF g] by linarith
  then show ?thesis by (simp add: font_height_def unat_mult_lem [THEN iffD1])
qed

lemma line_copy_eq:
  assumes "fb_geometry dev" "pitch dev = lb dev" "unat n \<le> mh dev"
  shows "(front_buffer dev + ucast a * ucast (font_height * bytes_per_scanline (cur_mode dev)),
      back_buffer dev + ucast b * ucast (font_height * bytes_per_scanline (cur_mode dev)),
      unat (ucast (n :: u32) * (ucast (font_height * bytes_per_scanline (cur_mode dev)) :: u64))) =
    block_copy dev (13 * unat (a :: u32), 13 * unat (b :: u32), 13 * unat n)"
proof -
  let ?cl = "ucast (font_height * bytes_per_scanline (cur_mode dev)) :: u64"
  have cl: "?cl = of_nat (13 * lb dev)" by (simp only: ucast_of_nat unat_char_line[OF assms(1)] assms(2))
  then have e: "ucast x * ?cl = of_nat (13 * unat x * lb dev)" for x :: u32 by (simp add: ac_simps)
  have "unat n * 13 * pitch dev \<le> unat (height (cur_mode dev)) * pitch dev"
    using geometryD(5)[OF assms(1)] assms(3) by (intro mult_le_mono1) linarith
  also have "\<dots> < 2 ^ 32" by (rule geometryD(8)[OF assms(1)])
  finally have "13 * unat n * lb dev < 2 ^ 64" using assms(2) by (simp add: ac_simps)
  then have "unat (ucast n * ?cl) = 13 * unat n * lb dev" by (simp only: e unat_of_nat_addr)
  then show ?thesis by (simp only: e block_copy_def front_at_def back_at_def assms(2) prod.case add_0_right)
qed

lemma contig_copies_eq:
  assumes "fb_ok dev" "0 < unat (front_dirty_end dev)" "contig dev"
  shows "contig_copies dev = map (block_copy dev) (render_blocks dev)"
proof -
  note g = fb_okD(1)[OF assms(1)]
  note p = geometryD(6)[OF g, THEN iffD1, OF assms(3)]
  note s = fb_okD(4)[OF assms(1)]
  have d: "unat (max_height dev - back_buffer_start dev) = mh dev - unat (back_buffer_start dev)"
    using s by (simp add: unat_sub word_le_nat_alt)
  note se = render_start_end[OF assms(1,2)]
  have lt: "render_start dev < render_end dev \<longleftrightarrow> back_buffer_start dev = 0 \<and> unat (front_dirty_end dev) < mh dev"
    using assms(2) by (auto simp: word_less_nat_alt se)
  show ?thesis
  proof (cases "back_buffer_start dev = 0 \<and> unat (front_dirty_end dev) < mh dev")
    case True
    then have e: "unat (render_end dev - render_start dev) = unat (front_dirty_end dev)"
      using lt se by (simp add: unat_sub order_less_imp_le)
    then have n: "unat (render_end dev - render_start dev) \<le> mh dev" using True by simp
    have "contig_copies dev = [block_copy dev (13 * unat (front_dirty_start dev), 13 * unat (render_start dev), 13 * unat (front_dirty_end dev))]"
      using True lt by (simp only: contig_copies_def Let_def line_copy_eq[OF g p n] e if_True simp_thms)
    then show ?thesis using True fb_okD(5)[OF assms(1)] se(1) assms(3) by (simp add: render_blocks_def)
  next
    case False
    have "contig_copies dev =
        [block_copy dev (13 * unat (front_dirty_start dev), 13 * unat (render_start dev), 13 * (mh dev - unat (back_buffer_start dev))),
         block_copy dev (13 * (mh dev - unat (back_buffer_start dev)), 13 * unat (0 :: u32), 13 * unat (render_end dev))]"
      using False lt line_copy_eq[OF g p, of "render_end dev" "max_height dev - back_buffer_start dev" 0]
        line_copy_eq[OF g p, of "max_height dev - back_buffer_start dev" 0 "render_start dev"] s fb_okD(5)[OF assms(1)]
      by (simp only: contig_copies_def Let_def if_False) (simp add: d se)
    moreover have "\<not> (13 * unat (back_buffer_start dev) = 0 \<and> 13 * unat (front_dirty_end dev) < 13 * mh dev)"
      using False by (simp add: unat_eq_0)
    ultimately show ?thesis using False fb_okD(5)[OF assms(1)] se assms(3)
      by (simp only: render_blocks_def Let_def if_True if_False) (simp add: right_diff_distrib')
  qed
qed

text \<open>The scanlines of the screen, by text line and by row of it.\<close>

lemma concat_rows:
  "[f i j. i \<leftarrow> map g [0..<n], j \<leftarrow> rows] = map (\<lambda>q. f (g (q div 13)) (of_nat (q mod 13))) [0..<13 * n]"
proof (induction n)
  case (Suc n)
  have "[0..<13 * Suc n] = [0..<13 * n] @ [13 * n..<13 * n + 13]" using upt_add_eq_append[of 0 "13 * n" 13] by (simp add: add.commute)
  also have "[13 * n..<13 * n + 13] = map (\<lambda>r. 13 * n + r) [0..<13]" using map_add_upt[of "13 * n" 13] by (simp only: add.commute)
  finally have "[0..<13 * Suc n] = [0..<13 * n] @ map (\<lambda>r. 13 * n + r) [0..<13]" .
  moreover have "(13 * n + r) div 13 = n" "(13 * n + r) mod 13 = r" if "r \<in> set [0..<13]" for r using that by simp_all
  ultimately have "map (\<lambda>q. f (g (q div 13)) (of_nat (q mod 13))) [0..<13 * Suc n] =
      map (\<lambda>q. f (g (q div 13)) (of_nat (q mod 13))) [0..<13 * n] @ map (\<lambda>r. f (g n) (of_nat r)) [0..<13]"
    by (simp only: map_append map_map o_def cong: map_cong)
  then show ?case using Suc by (simp add: rows_def font_height_def o_def)
qed simp

lemma line_bytes_eq:
  assumes "fb_geometry dev"
  shows "line_bytes (cur_mode dev) = of_nat (lb dev)" "unat (line_bytes (cur_mode dev)) = lb dev"
proof -
  have "unat (width (cur_mode dev)) < 2 ^ LENGTH(16)" by (rule unsigned_less)
  then have w: "unat (width (cur_mode dev)) < 2 ^ 16" by simp
  have "unat ((ucast (width (cur_mode dev)) :: u32) * ucast (depth (cur_mode dev)) div 8) = lb dev"
    using w by (cases rule: depth_cases[OF assms]) (simp_all add: lb_def unat_div unat_mult_lem [THEN iffD1] unat_arith)
  then show "line_bytes (cur_mode dev) = of_nat (lb dev)" by (simp add: line_bytes_def ucast_of_nat del: of_nat_unat)
  moreover have "lb dev < 2 ^ 64" using w by (cases rule: depth_cases[OF assms]) (simp_all add: lb_def)
  ultimately show "unat (line_bytes (cur_mode dev)) = lb dev" by (simp add: unat_of_nat_addr)
qed

lemma scanline_copy_eq:
  assumes "fb_geometry dev" "q < mh dev * 13" "c < mh dev * 13" "q = unat fl * 13 + r" "c = unat bl * 13 + r" "r < 13"
  shows "scanline_copy dev fl bl (of_nat r) = block_copy dev (q, c, 1)"
proof -
  have h: "mh dev * 13 < 2 ^ 16" by (rule mh_small[OF assms(1)])
  have u: "unat (l * font_height + of_nat r) = unat l * 13 + r" if "unat l * 13 + r < 2 ^ 16" for l :: u32
  proof -
    have "l * font_height + of_nat r = of_nat (unat l * 13 + r)" by (simp add: font_height_def)
    then show ?thesis using that by (simp only: unsigned_of_nat take_bit_nat_eq_self) (simp add: take_bit_nat_eq_self)
  qed
  have "unat (fl * font_height + of_nat r) = q" "unat (bl * font_height + of_nat r) = c" using assms h by (simp_all add: u)
  moreover have "q * pitch dev \<le> unat (height (cur_mode dev)) * pitch dev" using assms(2) geometryD(5)[OF assms(1)] by (intro mult_le_mono1) simp
  then have "q * pitch dev < 2 ^ 32" using geometryD(8)[OF assms(1)] by (rule le_less_trans)
  ultimately have "unat ((fl * font_height + of_nat r) * bytes_per_scanline (cur_mode dev)) = q * pitch dev"
    by (subst unat_mult_lem [THEN iffD1]) simp_all
  then show ?thesis using \<open>unat (bl * font_height + of_nat r) = c\<close> line_bytes_eq[OF assms(1)]
    by (simp add: scanline_copy_def block_copy_def front_at_def back_at_def ucast_of_nat del: of_nat_unat)
qed

lemma unat_of_nat_u32: "n < 2 ^ 16 \<Longrightarrow> unat (of_nat n :: u32) = n"
  by (simp add: unsigned_of_nat take_bit_nat_eq_self)

text \<open>The copy of \<open>n\<close> text lines, from line \<open>b\<close> of the back buffer to line \<open>a\<close> of the screen.\<close>

lemma lines_copy_eq:
  assumes "fb_geometry dev" "unat a + n \<le> mh dev" "unat b + n \<le> mh dev"
  shows "[scanline_copy dev (a + i) (b + i) j. i \<leftarrow> map of_nat [0..<n], j \<leftarrow> rows] =
    map (\<lambda>q. block_copy dev (unat a * 13 + q, unat b * 13 + q, 1)) [0..<13 * n]"
proof -
  have h: "mh dev * 13 < 2 ^ 16" by (rule mh_small[OF assms(1)])
  have plus: "unat (x + of_nat i) = unat x + i" if "unat x + i < 2 ^ 16" for x :: u32 and i
    using that by (subst unat_add_lem [THEN iffD1]) (simp_all add: unat_of_nat_u32)
  have "[scanline_copy dev (a + i) (b + i) j. i \<leftarrow> map of_nat [0..<n], j \<leftarrow> rows] =
      map (\<lambda>q. scanline_copy dev (a + of_nat (q div 13)) (b + of_nat (q div 13)) (of_nat (q mod 13))) [0..<13 * n]"
    by (rule concat_rows)
  also have "\<dots> = map (\<lambda>q. block_copy dev (unat a * 13 + q, unat b * 13 + q, 1)) [0..<13 * n]"
  proof (rule map_cong)
    fix q assume "q \<in> set [0..<13 * n]"
    then have q: "q < 13 * n" by simp
    then have i: "q div 13 < n" by (simp add: div_less_iff_less_mult mult.commute)
    have "unat (a + of_nat (q div 13)) = unat a + q div 13" "unat (b + of_nat (q div 13)) = unat b + q div 13"
      using i h assms(2,3) by (auto intro!: plus)
    then show "scanline_copy dev (a + of_nat (q div 13)) (b + of_nat (q div 13)) (of_nat (q mod 13)) =
        block_copy dev (unat a * 13 + q, unat b * 13 + q, 1)"
      using q assms(2,3) by (intro scanline_copy_eq[OF assms(1)]) (simp_all add: distrib_right)
  qed simp
  finally show ?thesis .
qed

lemma scanline_copies_eq:
  assumes "fb_ok dev" "0 < unat (front_dirty_end dev)"
  shows "scanline_copies dev = map (\<lambda>q. block_copy dev (q, circ dev q, 1)) [0..<13 * unat (front_dirty_end dev)]"
proof -
  note g = fb_okD(1)[OF assms(1)]
  note s = fb_okD(4)[OF assms(1)]
  let ?s = "unat (back_buffer_start dev)" and ?e = "unat (front_dirty_end dev)"
  note se = render_start_end[OF assms]
  have lt: "render_start dev < render_end dev \<longleftrightarrow> back_buffer_start dev = 0 \<and> ?e < mh dev"
    using assms(2) by (auto simp: word_less_nat_alt se)
  have d: "unat (max_height dev - back_buffer_start dev) = mh dev - ?s" using s by (simp add: unat_sub word_le_nat_alt)
  show ?thesis
  proof (cases "back_buffer_start dev = 0 \<and> ?e < mh dev")
    case True
    then have "scanline_copies dev = [scanline_copy dev (0 + i) (render_start dev + i) j. i \<leftarrow> map of_nat [0..<?e], j \<leftarrow> rows]"
      using lt se fb_okD(5)[OF assms(1)] by (simp add: scanline_copies_def Let_def)
    also have "\<dots> = map (\<lambda>q. block_copy dev (q, q, 1)) [0..<13 * ?e]"
      using lines_copy_eq[OF g, of 0 ?e "render_start dev"] True se(1) by simp
    also have "\<dots> = map (\<lambda>q. block_copy dev (q, circ dev q, 1)) [0..<13 * ?e]"
      using True by (intro map_cong) (auto simp: circ_def)
    finally show ?thesis .
  next
    case False
    then have e: "?e = mh dev" using fb_okD(6,7)[OF assms(1)] by auto
    let ?k = "mh dev - ?s"
    have nl: "\<not> render_start dev < render_end dev" and r: "unat (render_end dev) = ?s" using False lt se by auto
    have "scanline_copies dev =
        [scanline_copy dev (0 + i) (render_start dev + i) j. i \<leftarrow> map of_nat [0..<?k], j \<leftarrow> rows] @
        [scanline_copy dev (max_height dev - back_buffer_start dev + i) (0 + i) j. i \<leftarrow> map of_nat [0..<?s], j \<leftarrow> rows]"
      using nl r d fb_okD(5)[OF assms(1)] by (simp add: scanline_copies_def Let_def)
    also have "\<dots> = map (\<lambda>q. block_copy dev (q, ?s * 13 + q, 1)) [0..<13 * ?k] @
        map (\<lambda>q. block_copy dev (?k * 13 + q, q, 1)) [0..<13 * ?s]"
      using lines_copy_eq[OF g, of 0 ?k "render_start dev"] se(1) s
        lines_copy_eq[OF g, of "max_height dev - back_buffer_start dev" ?s 0] d by simp
    also have "map (\<lambda>q. block_copy dev (q, ?s * 13 + q, 1)) [0..<13 * ?k] = map (\<lambda>q. block_copy dev (q, circ dev q, 1)) [0..<13 * ?k]"
      using circ_cases[OF assms(1)] s by (intro map_cong) (auto simp: right_diff_distrib' add.commute)
    also have "map (\<lambda>q. block_copy dev (?k * 13 + q, q, 1)) [0..<13 * ?s] =
        map (\<lambda>q. block_copy dev (q, circ dev q, 1)) (map (\<lambda>q. ?k * 13 + q) [0..<13 * ?s])"
      using circ_cases[OF assms(1)] s by (auto simp: diff_mult_distrib)
    also have "map (\<lambda>q. ?k * 13 + q) [0..<13 * ?s] = [?k * 13..<13 * ?e]"
      using map_add_upt[of "?k * 13" "13 * ?s"] s e by (simp add: add.commute diff_mult_distrib mult.commute[of 13])
    also have "map (\<lambda>q. block_copy dev (q, circ dev q, 1)) [0..<13 * ?k] @ map (\<lambda>q. block_copy dev (q, circ dev q, 1)) [?k * 13..<13 * ?e] =
        map (\<lambda>q. block_copy dev (q, circ dev q, 1)) [0..<13 * ?e]"
      using upt_add_eq_append[of 0 "13 * ?k" "13 * ?e - 13 * ?k"] e by (simp flip: map_append add: mult.commute)
    finally show ?thesis .
  qed
qed

lemma render_copies:
  assumes "fb_ok dev" "0 < unat (front_dirty_end dev)"
  shows "(if contig dev then contig_copies dev else scanline_copies dev) = map (block_copy dev) (render_blocks dev)"
  using contig_copies_eq[OF assms] scanline_copies_eq[OF assms] by (simp add: render_blocks_def Let_def o_def)

section \<open>The rendered screen\<close>

text \<open>The bytes of the frame buffer that \<open>fb_render\<close> may change, and where each comes from.\<close>

definition front_region :: "fb_dev \<Rightarrow> addr set" where
  "front_region dev = {front_at dev q k | q k. q < unat (height (cur_mode dev)) \<and> k < pitch dev}"

definition source_of :: "fb_dev \<Rightarrow> addr \<Rightarrow> addr" where
  "source_of dev y = (let n = unat (y - front_buffer dev) in back_at dev (circ dev (n div pitch dev)) (n mod pitch dev))"

lemma source_of_front:
  assumes "fb_geometry dev" "q < unat (height (cur_mode dev))" "k < pitch dev"
  shows "source_of dev (front_at dev q k) = back_at dev (circ dev q) k"
proof -
  have "q * pitch dev + k < 2 ^ 64" using front_bound[OF assms] geometryD(12)[OF assms(1)] by linarith
  then have "unat (front_at dev q k - front_buffer dev) = q * pitch dev + k"
    unfolding front_at_def by (simp only: add_diff_cancel_left' unat_of_nat_addr)
  then show ?thesis using assms(3) by (simp add: source_of_def Let_def)
qed

text \<open>The scanlines that a block names: none but those of the screen, each once.\<close>

definition block_ok :: "fb_dev \<Rightarrow> nat \<times> nat \<times> nat \<Rightarrow> bool" where
  "block_ok dev = (\<lambda>(q, c, n). q + n \<le> mh dev * 13 \<and> (n = 1 \<or> pitch dev = lb dev) \<and> (\<forall>i < n. circ dev (q + i) = c + i))"

lemma block_offset:
  assumes "block_ok dev (q, c, n)" "i < n"
  shows "front_at dev (q + i) k = front_at dev q 0 + of_nat (i * lb dev + k)"
    and "back_at dev (c + i) k = back_at dev c 0 + of_nat (i * lb dev + k)"
proof -
  have "i * pitch dev = i * lb dev" using assms by (auto simp: block_ok_def)
  then show "front_at dev (q + i) k = front_at dev q 0 + of_nat (i * lb dev + k)"
    by (simp only: front_at_def distrib_right of_nat_add) (simp add: ac_simps)
qed (simp add: back_at_def algebra_simps)

lemma block_dest:
  assumes "fb_geometry dev" "block_ok dev (q, c, n)" "in_block (front_at dev q 0) (n * lb dev) y"
  obtains i k where "i < n" "k < lb dev" "y = front_at dev (q + i) k" "y - front_at dev q 0 = of_nat (i * lb dev + k)"
proof -
  let ?o = "unat (y - front_at dev q 0)" let ?i = "?o div lb dev" and ?k = "?o mod lb dev"
  have o: "?o < n * lb dev" using assms(3) by (simp add: in_block_def)
  then have "0 < lb dev" by (cases "lb dev") simp_all
  then have "?k < lb dev" "?i < n" using o by (simp_all add: div_less_iff_less_mult)
  moreover have e: "y - front_at dev q 0 = of_nat (?i * lb dev + ?k)" by simp
  moreover have "y = front_at dev (q + ?i) ?k"
    by (subst block_offset(1)[OF assms(2) \<open>?i < n\<close>], subst e [symmetric]) simp
  ultimately show thesis using that by blast
qed

lemma block_covers:
  assumes "fb_geometry dev" "block_ok dev (q, c, n)" "i < n" "k < lb dev"
  shows "in_block (front_at dev q 0) (n * lb dev) (front_at dev (q + i) k)"
proof -
  have o: "i * lb dev + k < n * lb dev" by (rule scanline_offset[OF assms(3,4) order_refl])
  moreover have "n * lb dev \<le> mh dev * 13 * lb dev" using assms(2) by (intro mult_le_mono1) (simp add: block_ok_def)
  ultimately have "i * lb dev + k < 2 ^ 64" using geometryD(11)[OF assms(1)] by linarith
  then have "unat (of_nat (i * lb dev + k) :: addr) = i * lb dev + k" by (rule unat_of_nat_addr)
  then show ?thesis using o by (simp only: in_block_def block_offset(1)[OF assms(2,3)] add_diff_cancel_left')
qed

lemma blocks_ok: "fb_ok dev \<Longrightarrow> b \<in> set (render_blocks dev) \<Longrightarrow> block_ok dev b"
  using circ_cases[of dev] fb_okD(4,6,7)[of dev] geometryD(6)[OF fb_okD(1), of dev]
  by (auto simp: render_blocks_def block_ok_def Let_def split: if_splits)

lemma blocks_cover:
  assumes "fb_ok dev"
  shows "(\<exists>(q, c, n) \<in> set (render_blocks dev). q \<le> p \<and> p < q + n) \<longleftrightarrow> p < 13 * unat (front_dirty_end dev)"
  using fb_okD(4,6,7)[OF assms] by (auto simp: render_blocks_def Let_def)

lemma front_at_inj:
  assumes "fb_geometry dev" "q < unat (height (cur_mode dev))" "k < pitch dev" "q' < unat (height (cur_mode dev))" "k' < pitch dev"
  shows "front_at dev q k = front_at dev q' k' \<longleftrightarrow> q = q' \<and> k = k'"
  using front_bound[OF assms(1-3)] front_bound[OF assms(1,4,5)] scanline_offset_eq[OF assms(3,5)]
  by (metis add_left_cancel)

lemma back_at_inj:
  assumes "fb_geometry dev" "q < mh dev * 13" "k < lb dev" "q' < mh dev * 13" "k' < lb dev"
  shows "back_at dev q k = back_at dev q' k' \<longleftrightarrow> q = q' \<and> k = k'"
  using back_bound[OF assms(1-3)] back_bound[OF assms(1,4,5)] scanline_offset_eq[OF assms(3,5)]
  by (metis add_left_cancel)

lemma block_copies:
  assumes "fb_ok dev" "(d, s, n) \<in> set (map (block_copy dev) (render_blocks dev))"
  shows "n \<le> 2 ^ 64 \<and> (in_block d n y \<longrightarrow> y \<in> front_region dev \<and> s + (y - d) = source_of dev y \<and> source_of dev y \<notin> front_region dev)"
proof -
  note g = fb_okD(1)[OF assms(1)]
  obtain q c i where b: "(q, c, i) \<in> set (render_blocks dev)" "d = front_at dev q 0" "s = back_at dev c 0" "n = i * lb dev"
    using assms(2) by (auto simp: block_copy_def)
  note ok = blocks_ok[OF assms(1) b(1)]
  have "n \<le> mh dev * 13 * lb dev" unfolding b(4) using ok by (intro mult_le_mono1) (simp add: block_ok_def)
  then have "n \<le> 2 ^ 64" using geometryD(11)[OF g] by linarith
  moreover have "y \<in> front_region dev \<and> s + (y - d) = source_of dev y \<and> source_of dev y \<notin> front_region dev" if y: "in_block d n y"
  proof -
    obtain j k where j: "j < i" "k < lb dev" "y = front_at dev (q + j) k" "y - d = of_nat (j * lb dev + k)"
      using block_dest[OF g ok y[unfolded b(2,4)]] b(2) by metis
    have q: "q + j < unat (height (cur_mode dev))" using ok j(1) rows_used[OF g, of "q + j"] by (simp add: block_ok_def)
    have k: "k < pitch dev" using j(2) geometryD(7)[OF g] by simp
    have src: "source_of dev y = back_at dev (circ dev (q + j)) k" unfolding j(3) by (rule source_of_front[OF g q k])
    moreover have "s + (y - d) = back_at dev (c + j) k" using block_offset(2)[OF ok j(1)] j(4) b(3) by simp
    moreover have "circ dev (q + j) = c + j" using ok j(1) by (simp add: block_ok_def)
    moreover have "back_at dev (circ dev (q + j)) k \<notin> front_region dev"
      using front_not_back[OF g _ _ circ_less[OF assms(1)] j(2)] unfolding front_region_def mem_Collect_eq by metis
    ultimately show ?thesis using j(3) q k by (auto simp: front_region_def)
  qed
  ultimately show ?thesis by blast
qed

text \<open>Every dirty scanline becomes that of the back buffer; all other bytes stay.\<close>

lemma fb_render_eq:
  assumes "fb_ok dev"
  shows "fb_render dev m y =
    (if \<exists>(d, s, n) \<in> set (map (block_copy dev) (render_blocks dev)). in_block d n y then m (source_of dev y) else m y)"
proof (cases "0 < unat (front_dirty_end dev)")
  case True
  then have "fb_render dev m = copy_all (map (block_copy dev) (render_blocks dev)) m"
    using fb_okD(5)[OF assms] geometryD(10)[OF fb_okD(1)[OF assms]] render_copies[OF assms True]
    by (simp add: fb_render_def unat_gt_0)
  then show ?thesis using copy_all_at[of "map (block_copy dev) (render_blocks dev)", OF block_copies[OF assms]] by simp
next
  case False
  then have "\<not> in_block d n y" if c: "(d, s, n) \<in> set (map (block_copy dev) (render_blocks dev))" for d s n
  proof -
    obtain q c i where b: "(q, c, i) \<in> set (render_blocks dev)" "d = front_at dev q 0" "n = i * lb dev"
      using c by (auto simp: block_copy_def)
    then have "i = 0" using blocks_cover[OF assms, of q] False by auto
    then show ?thesis by (simp add: b)
  qed
  then have "\<not> (\<exists>(d, s, n) \<in> set (map (block_copy dev) (render_blocks dev)). in_block d n y)" by blast
  moreover have "fb_render dev m = m" using False fb_okD(5)[OF assms] by (simp add: fb_render_def unat_eq_0)
  ultimately show ?thesis by (simp only: if_False)
qed

lemma fb_render_at:
  assumes "fb_ok dev" "q < unat (height (cur_mode dev))" "k < pitch dev"
  shows "fb_render dev m (front_at dev q k) =
    (if q < 13 * unat (front_dirty_end dev) \<and> k < lb dev then m (back_at dev (circ dev q) k) else m (front_at dev q k))"
proof -
  note g = fb_okD(1)[OF assms(1)]
  have "(\<exists>(d, s, n) \<in> set (map (block_copy dev) (render_blocks dev)). in_block d n (front_at dev q k)) \<longleftrightarrow>
      q < 13 * unat (front_dirty_end dev) \<and> k < lb dev" (is "?L \<longleftrightarrow> ?R")
  proof
    assume ?L
    then obtain q0 c n where b: "(q0, c, n) \<in> set (render_blocks dev)" "in_block (front_at dev q0 0) (n * lb dev) (front_at dev q k)"
      by (auto simp: block_copy_def)
    note ok = blocks_ok[OF assms(1) b(1)]
    obtain i k' where i: "i < n" "k' < lb dev" "front_at dev q k = front_at dev (q0 + i) k'"
      using block_dest[OF g ok b(2)] by blast
    moreover have "q0 + i < unat (height (cur_mode dev))" using ok i(1) rows_used[OF g, of "q0 + i"] by (simp add: block_ok_def)
    ultimately have "q = q0 + i" "k = k'" using front_at_inj[OF g assms(2,3)] geometryD(7)[OF g] by auto
    moreover have "\<exists>(q', c, n) \<in> set (render_blocks dev). q' \<le> q0 + i \<and> q0 + i < q' + n"
      using b(1) i(1) by (intro bexI[of _ "(q0, c, n)"]) simp_all
    ultimately show ?R using blocks_cover[OF assms(1), of q] i(2) by simp
  next
    assume r: ?R
    then obtain q0 c n where b: "(q0, c, n) \<in> set (render_blocks dev)" "q0 \<le> q" "q < q0 + n"
      using blocks_cover[OF assms(1), of q] by auto
    then show ?L using block_covers[OF g blocks_ok[OF assms(1) b(1)], of "q - q0" k] r b by (force simp: block_copy_def)
  qed
  then show ?thesis using source_of_front[OF g assms(2,3)] by (simp add: fb_render_eq[OF assms(1)])
qed

lemma fb_render_other:
  assumes "fb_ok dev" "y \<notin> front_region dev"
  shows "fb_render dev m y = m y"
proof -
  have "\<not> in_block d n y" if "(d, s, n) \<in> set (map (block_copy dev) (render_blocks dev))" for d s n
    using block_copies[OF assms(1) that] assms(2) by blast
  then have "\<not> (\<exists>(d, s, n) \<in> set (map (block_copy dev) (render_blocks dev)). in_block d n y)" by blast
  then show ?thesis by (simp only: fb_render_eq[OF assms(1)] if_False)
qed

end
