(* ===== verification/Framebuffer_Draw.thy ===== *)
theory Framebuffer_Draw
  imports Framebuffer_Render
begin

text \<open>
  Drawing into the back buffer: the four drawing functions store the rows of the same glyph at the
  cursor's cell, and change no other byte of the two buffers.
\<close>

section \<open>Bytes of pixels\<close>

lemma length_pixel_bytes: "fb_geometry dev \<Longrightarrow> length (pixel_bytes (depth (cur_mode dev)) p) = bpp dev"
  by (erule depth_cases) (simp_all add: pixel_bytes_def)

lemma bpp_pos: "fb_geometry dev \<Longrightarrow> 0 < bpp dev"
  by (erule depth_cases) simp_all

lemma bpp_depth: "fb_geometry dev \<Longrightarrow> unat (depth (cur_mode dev)) = 8 * bpp dev"
  by (erule depth_cases) simp_all

lemma length_concat_const: "(\<And>x. x \<in> set xs \<Longrightarrow> length (f x) = n) \<Longrightarrow> length (concat (map f xs)) = length xs * n"
  by (induction xs) simp_all

lemma length_glyph_row: "fb_geometry dev \<Longrightarrow> length (glyph_row font dev (depth (cur_mode dev)) c i) = 8 * bpp dev"
  unfolding glyph_row_def by (subst length_concat_const[where n = "bpp dev"]) (simp_all add: length_pixel_bytes)

lemma nth_concat_replicate: "i < n * length bs \<Longrightarrow> concat (replicate n bs) ! i = bs ! (i mod length bs)"
proof (induction n arbitrary: i)
  case (Suc n)
  show ?case
  proof (cases "i < length bs")
    case False
    then have "concat (replicate n bs) ! (i - length bs) = bs ! ((i - length bs) mod length bs)" using Suc by simp
    moreover have "(i - length bs) mod length bs = i mod length bs" using False by (simp add: le_mod_geq)
    ultimately show ?thesis using False by (simp add: nth_append)
  qed (simp add: nth_append)
qed simp

section \<open>Stores into the back buffer\<close>

lemma store_back:
  assumes "fb_geometry dev" "a + length bs \<le> mh dev * 13 * lb dev" "q < mh dev * 13" "k < lb dev"
  shows "store_bytes m (back_buffer dev + of_nat a) bs (back_at dev q k) =
    (if a \<le> q * lb dev + k \<and> q * lb dev + k < a + length bs then bs ! (q * lb dev + k - a) else m (back_at dev q k))"
  unfolding back_at_def using assms back_bound[OF assms(1,3,4)] geometryD(11)[OF assms(1)]
  by (intro store_offset) linarith+

lemma store_back_front:
  assumes "fb_geometry dev" "a + length bs \<le> mh dev * 13 * lb dev" "q < unat (height (cur_mode dev))" "k < pitch dev"
  shows "store_bytes m (back_buffer dev + of_nat a) bs (front_at dev q k) = m (front_at dev q k)"
  using front_bound[OF assms(1,3,4)] geometryD(11,13)[OF assms(1)] assms(2) by (intro store_outside) linarith+

text \<open>A store of part of one scanline.\<close>

lemma store_row:
  assumes "fb_geometry dev" "p < mh dev * 13" "x + length bs \<le> lb dev" "q < mh dev * 13" "k < lb dev"
  shows "store_bytes m (back_at dev p x) bs (back_at dev q k) =
    (if q = p \<and> x \<le> k \<and> k < x + length bs then bs ! (k - x) else m (back_at dev q k))"
proof -
  have "p * lb dev + lb dev \<le> mh dev * 13 * lb dev" using assms(2) mult_le_mono1[of "Suc p" "mh dev * 13" "lb dev"] by simp
  then have l: "p * lb dev + x + length bs \<le> mh dev * 13 * lb dev" using assms(3) by linarith
  have "p * lb dev + x \<le> q * lb dev + k \<and> q * lb dev + k < p * lb dev + x + length bs \<longleftrightarrow> q = p \<and> x \<le> k \<and> k < x + length bs"
  proof (cases q p rule: linorder_cases)
    case less
    then have "Suc q * lb dev \<le> p * lb dev" by (intro mult_le_mono1) simp
    then show ?thesis using less assms(5) by simp
  next
    case greater
    then have "Suc p * lb dev \<le> q * lb dev" by (intro mult_le_mono1) simp
    then show ?thesis using greater assms(3) by simp
  qed auto
  then show ?thesis using store_back[OF assms(1) l assms(4,5)] by (auto simp: back_at_def[of dev p])
qed

lemma store_row_front:
  assumes "fb_geometry dev" "p < mh dev * 13" "x + length bs \<le> lb dev" "q < unat (height (cur_mode dev))" "k < pitch dev"
  shows "store_bytes m (back_at dev p x) bs (front_at dev q k) = m (front_at dev q k)"
proof -
  have "p * lb dev + lb dev \<le> mh dev * 13 * lb dev" using assms(2) mult_le_mono1[of "Suc p" "mh dev * 13" "lb dev"] by simp
  then show ?thesis unfolding back_at_def[of dev p] using assms(3) by (intro store_back_front[OF assms(1) _ assms(4,5)]) simp
qed

section \<open>Glyphs\<close>

definition draw_rows :: "(nat \<Rightarrow> u8) \<Rightarrow> fb_dev \<Rightarrow> u8 \<Rightarrow> nat \<Rightarrow> nat \<Rightarrow> nat \<Rightarrow> bytes \<Rightarrow> bytes" where
  "draw_rows font dev c y x n = fold (\<lambda>i m. store_bytes m (back_at dev (y * 13) x + of_nat i * of_nat (lb dev))
     (glyph_row font dev (depth (cur_mode dev)) c i)) [0..<n]"

lemma draw_rows_Suc:
  "draw_rows font dev c y x (Suc n) m =
    store_bytes (draw_rows font dev c y x n m) (back_at dev (y * 13 + n) x) (glyph_row font dev (depth (cur_mode dev)) c n)"
  by (simp add: draw_rows_def back_at_def algebra_simps)

lemma draw_rows_back:
  assumes "fb_geometry dev" "y < mh dev" "x + 8 * bpp dev \<le> lb dev" "q < mh dev * 13" "k < lb dev" "n \<le> 13"
  shows "draw_rows font dev c y x n m (back_at dev q k) =
      (if q div 13 = y \<and> q mod 13 < n \<and> x \<le> k \<and> k < x + 8 * bpp dev
       then glyph_row font dev (depth (cur_mode dev)) c (q mod 13) ! (k - x) else m (back_at dev q k))"
  using assms(6)
proof (induction n)
  case (Suc n)
  have p: "y * 13 + n < mh dev * 13" using assms(2) Suc.prems by linarith
  have l: "x + length (glyph_row font dev (depth (cur_mode dev)) c n) \<le> lb dev" using assms(1,3) by (simp add: length_glyph_row)
  have "q = y * 13 + n \<longleftrightarrow> q div 13 = y \<and> q mod 13 = n" using Suc.prems by auto
  then show ?case
    using Suc by (simp add: draw_rows_Suc store_row[OF assms(1) p l assms(4,5)] length_glyph_row[OF assms(1)] less_Suc_eq)
qed (simp add: draw_rows_def)

lemma draw_rows_front:
  assumes "fb_geometry dev" "y < mh dev" "x + 8 * bpp dev \<le> lb dev" "q < unat (height (cur_mode dev))" "k < pitch dev" "n \<le> 13"
  shows "draw_rows font dev c y x n m (front_at dev q k) = m (front_at dev q k)"
  using assms(6)
proof (induction n)
  case (Suc n)
  have p: "y * 13 + n < mh dev * 13" using assms(2) Suc.prems by linarith
  have l: "x + length (glyph_row font dev (depth (cur_mode dev)) c n) \<le> lb dev" using assms(1,3) by (simp add: length_glyph_row)
  show ?case using Suc by (simp add: draw_rows_Suc store_row_front[OF assms(1) p l assms(4,5)])
qed (simp add: draw_rows_def)

section \<open>The drawing functions\<close>

text \<open>The text line of the back buffer the cursor is in.\<close>

definition cursor_line :: "fb_dev \<Rightarrow> nat" where
  "cursor_line dev = (unat (cur_y dev) + unat (back_buffer_start dev)) mod mh dev"

lemma draw_line:
  assumes "fb_ok dev"
  shows "unat ((cur_y dev + back_buffer_start dev) mod max_height dev) = cursor_line dev"
proof -
  have "mh dev < 2 ^ 16" using mh_small[OF fb_okD(1)[OF assms]] by linarith
  then have "unat (cur_y dev + back_buffer_start dev) = unat (cur_y dev) + unat (back_buffer_start dev)"
    using fb_okD(3,4)[OF assms] by (intro unat_add_lem [THEN iffD1]) simp
  then show ?thesis by (simp add: cursor_line_def unat_mod)
qed

lemma glyph_room:
  assumes "fb_ok dev"
  shows "unat (cur_x dev) * 8 * bpp dev + 8 * bpp dev \<le> lb dev"
proof -
  have "unat (cur_x dev) * 8 + 8 \<le> unat (width (cur_mode dev))" using fb_okD(2)[OF assms] geometryD(4)[OF fb_okD(1)[OF assms]] by linarith
  then have "(unat (cur_x dev) * 8 + 8) * bpp dev \<le> lb dev" unfolding lb_def by (rule mult_le_mono1)
  then show ?thesis by (simp add: algebra_simps)
qed

lemma unat_of_nat_u32': "n < 2 ^ 32 \<Longrightarrow> unat (of_nat n :: u32) = n"
  by (simp add: unsigned_of_nat take_bit_nat_eq_self)

lemma back_size: "fb_geometry dev \<Longrightarrow> q \<le> mh dev * 13 \<Longrightarrow> q * lb dev * 8 < 2 ^ 32"
proof -
  assume g: "fb_geometry dev" and q: "q \<le> mh dev * 13"
  have "q * lb dev * 8 = q * (unat (width (cur_mode dev)) * unat (depth (cur_mode dev)))" by (simp add: lb_def bpp_depth[OF g])
  also have "\<dots> \<le> unat (height (cur_mode dev)) * (unat (width (cur_mode dev)) * unat (depth (cur_mode dev)))"
    using q geometryD(5)[OF g] by (intro mult_le_mono1) simp
  also have "\<dots> < 2 ^ 32" using geometryD(9)[OF g] by (simp only: mult.assoc)
  finally show ?thesis .
qed

lemma draw_offsets:
  assumes "fb_ok dev" "unat y < mh dev" "b = of_nat (bpp dev)"
  shows "unat (y * font_height * (ucast (width (cur_mode dev)) * b)) = unat y * 13 * lb dev"
    and "unat (cur_x dev * font_width) = unat (cur_x dev) * 8"
    and "unat (cur_x dev * font_width * 3) = unat (cur_x dev) * 8 * 3"
    and "unat ((ucast (width (cur_mode dev)) :: u32) * b) = lb dev"
proof -
  note g = fb_okD(1)[OF assms(1)]
  have "unat y * 13 * lb dev < 2 ^ 32" using back_size[OF g, of "unat y * 13"] assms(2) by linarith
  moreover have "y * font_height * (ucast (width (cur_mode dev)) * b) = of_nat (unat y * 13 * lb dev)"
    by (simp add: assms(3) lb_def font_height_def)
  ultimately show "unat (y * font_height * (ucast (width (cur_mode dev)) * b)) = unat y * 13 * lb dev"
    by (simp only: unat_of_nat_u32')
  have "unat (width (cur_mode dev)) < 2 ^ LENGTH(16)" by (rule unsigned_less)
  then have w: "unat (width (cur_mode dev)) < 2 ^ 16" by simp
  then have x: "unat (cur_x dev) * 8 < 2 ^ 16" using fb_okD(2)[OF assms(1)] geometryD(4)[OF g] by linarith
  have "cur_x dev * font_width = of_nat (unat (cur_x dev) * 8)" "cur_x dev * font_width * 3 = of_nat (unat (cur_x dev) * 8 * 3)"
    by (simp_all add: font_width_def)
  then show "unat (cur_x dev * font_width) = unat (cur_x dev) * 8" "unat (cur_x dev * font_width * 3) = unat (cur_x dev) * 8 * 3"
    using x by (simp_all only:) (subst unat_of_nat_u32'; simp)+
  have "lb dev < 2 ^ 32" using w by (cases rule: depth_cases[OF g]) (simp_all add: lb_def)
  moreover have "(ucast (width (cur_mode dev)) :: u32) * b = of_nat (lb dev)" by (simp add: assms(3) lb_def)
  ultimately show "unat ((ucast (width (cur_mode dev)) :: u32) * b) = lb dev" by (simp only: unat_of_nat_u32')
qed

lemma draw_glyph_eq:
  assumes "dest = back_at dev (y * 13) x" "ptc = of_nat (lb dev)" "dp = depth (cur_mode dev)"
  shows "draw_glyph font dev dp c dest ptc m = draw_rows font dev c y x 13 m"
  using assms by (simp add: draw_glyph_def draw_rows_def font_height_def)

lemma write_char_depth_eq:
  assumes "fb_ok dev"
  shows "write_char_depth font dev c m = Inr (draw_rows font dev c (cursor_line dev) (unat (cur_x dev) * 8 * bpp dev) 13 m)"
proof -
  note g = fb_okD(1)[OF assms]
  let ?y = "(cur_y dev + back_buffer_start dev) mod max_height dev"
  have "unat ?y < mh dev" using draw_line[OF assms] geometryD(3)[OF g] by (simp add: cursor_line_def)
  note o = draw_offsets[OF assms this, unfolded draw_line[OF assms]]
  have t: "draw_target dev b = (back_buffer dev, ucast (width (cur_mode dev)) * b, ?y)" for b
    using geometryD(10)[OF g] by (simp add: draw_target_def)
  show ?thesis
  proof (cases rule: depth_cases[OF g])
    case 1
    have "fb_write_char_8 font dev c m = draw_rows font dev c (cursor_line dev) (unat (cur_x dev) * 8 * bpp dev) 13 m"
      unfolding fb_write_char_8_def t Let_def prod.case ucast_of_nat using o[of 1] 1
      by (intro draw_glyph_eq) (simp_all only: back_at_def of_nat_1 of_nat_add of_nat_mult add.assoc mult_1_right)
    then show ?thesis using 1 geometryD(1)[OF g] by (simp add: write_char_depth_def)
  next
    case 2
    have "fb_write_char_16 font dev c m = draw_rows font dev c (cursor_line dev) (unat (cur_x dev) * 8 * bpp dev) 13 m"
      unfolding fb_write_char_16_def t Let_def prod.case ucast_of_nat unat_div using o[of 2] 2
      by (intro draw_glyph_eq) (simp_all add: back_at_def lb_def)
    then show ?thesis using 2 geometryD(1)[OF g] by (simp add: write_char_depth_def)
  next
    case 3
    have "fb_write_char_24 font dev c m = draw_rows font dev c (cursor_line dev) (unat (cur_x dev) * 8 * bpp dev) 13 m"
      unfolding fb_write_char_24_def t Let_def prod.case ucast_of_nat using o[of 3] 3
      by (intro draw_glyph_eq) (simp_all add: back_at_def)
    then show ?thesis using 3 geometryD(1)[OF g] by (simp add: write_char_depth_def)
  next
    case 4
    have "fb_write_char_32 font dev c m = draw_rows font dev c (cursor_line dev) (unat (cur_x dev) * 8 * bpp dev) 13 m"
      unfolding fb_write_char_32_def t Let_def prod.case ucast_of_nat unat_div using o[of 4] 4
      by (intro draw_glyph_eq) (simp_all add: back_at_def lb_def)
    then show ?thesis using 4 geometryD(1)[OF g] by (simp add: write_char_depth_def)
  qed
qed

end
