(* ===== verification/Framebuffer_Terminal.thy ===== *)
theory Framebuffer_Terminal
  imports Framebuffer_Draw
begin

text \<open>
  An abstract text terminal, a grid of characters with a cursor, and the simulation that the console
  implements it: the back buffer always holds the pixels of the grid, and after \<open>fb_write\<close> so does the
  frame buffer.
\<close>

section \<open>The abstract terminal\<close>

record terminal =
  cells :: "nat \<Rightarrow> nat \<Rightarrow> u8 option"
  column :: nat
  line :: nat

definition term_feed :: "nat \<Rightarrow> terminal \<Rightarrow> terminal" where
  "term_feed H t = (if line t = H - 1 then t\<lparr>cells := (\<lambda>l. if l = H - 1 then Map.empty else cells t (l + 1))\<rparr>
     else t\<lparr>line := line t + 1\<rparr>)"

definition term_char :: "nat \<Rightarrow> nat \<Rightarrow> u8 \<Rightarrow> terminal \<Rightarrow> terminal" where
  "term_char W H c t =
     (if c = 0x0A then (term_feed H t)\<lparr>column := 0\<rparr>
      else if c = 0x0D then t\<lparr>column := 0\<rparr>
      else if c = 0x09 then t\<lparr>column := min (column t + (8 - column t mod 8)) (W - 1)\<rparr>
      else let t' = t\<lparr>cells := (cells t)(line t := (cells t (line t))(column t \<mapsto> c))\<rparr> in
        if column t + 1 = W then term_feed H (t'\<lparr>column := 0\<rparr>) else t'\<lparr>column := column t + 1\<rparr>)"

definition term_write :: "nat \<Rightarrow> nat \<Rightarrow> u8 list \<Rightarrow> terminal \<Rightarrow> terminal" where
  "term_write W H cs = fold (term_char W H) cs"

definition term_blank :: terminal where
  "term_blank = \<lparr>cells = (\<lambda>l. Map.empty), column = 0, line = 0\<rparr>"

section \<open>The pixels of the grid\<close>

text \<open>Byte \<open>k\<close> of row \<open>r\<close> of a text line.\<close>

definition row_byte :: "(nat \<Rightarrow> u8) \<Rightarrow> fb_dev \<Rightarrow> (nat \<Rightarrow> u8 option) \<Rightarrow> nat \<Rightarrow> nat \<Rightarrow> u8" where
  "row_byte font dev row r k =
     (case row (k div (8 * bpp dev)) of
        Some c \<Rightarrow> glyph_row font dev (depth (cur_mode dev)) c r ! (k mod (8 * bpp dev))
      | None \<Rightarrow> pixel_bytes (depth (cur_mode dev)) (pixel (background dev)) ! (k mod bpp dev))"

definition screen_byte :: "(nat \<Rightarrow> u8) \<Rightarrow> fb_dev \<Rightarrow> terminal \<Rightarrow> nat \<Rightarrow> nat \<Rightarrow> u8" where
  "screen_byte font dev t q k = row_byte font dev (cells t (q div 13)) (q mod 13) k"

definition back_shows :: "(nat \<Rightarrow> u8) \<Rightarrow> fb_dev \<Rightarrow> bytes \<Rightarrow> terminal \<Rightarrow> bool" where
  "back_shows font dev m t \<longleftrightarrow>
     (\<forall>q < mh dev * 13. \<forall>k < lb dev. m (back_at dev (circ dev q) k) = screen_byte font dev t q k)"

text \<open>The scanlines of the screen from \<open>n\<close> on show the grid.\<close>

definition front_shows :: "(nat \<Rightarrow> u8) \<Rightarrow> fb_dev \<Rightarrow> bytes \<Rightarrow> terminal \<Rightarrow> nat \<Rightarrow> bool" where
  "front_shows font dev m t n \<longleftrightarrow>
     (\<forall>q < mh dev * 13. \<forall>k < lb dev. n \<le> q \<longrightarrow> m (front_at dev q k) = screen_byte font dev t q k)"

definition fb_shows :: "(nat \<Rightarrow> u8) \<Rightarrow> fb_dev \<Rightarrow> bytes \<Rightarrow> terminal \<Rightarrow> bool" where
  "fb_shows font dev m t \<longleftrightarrow> fb_ok dev \<and> column t = unat (cur_x dev) \<and> line t = unat (cur_y dev) \<and>
     back_shows font dev m t \<and> front_shows font dev m t (13 * unat (front_dirty_end dev))"

text \<open>What the bytes of the screen depend on.\<close>

definition same_screen :: "fb_dev \<Rightarrow> fb_dev \<Rightarrow> bool" where
  "same_screen dev dev' \<longleftrightarrow> cur_mode dev' = cur_mode dev \<and> max_width dev' = max_width dev \<and> max_height dev' = max_height dev \<and>
     back_buffer dev' = back_buffer dev \<and> front_buffer dev' = front_buffer dev \<and> flags dev' = flags dev \<and>
     foreground dev' = foreground dev \<and> background dev' = background dev \<and> fb_write_char_depth dev' = fb_write_char_depth dev"

lemma same_screen_refl [simp]: "same_screen dev dev"
  by (simp add: same_screen_def)

lemma same_screen_trans: "same_screen a b \<Longrightarrow> same_screen b c \<Longrightarrow> same_screen a c"
  by (simp add: same_screen_def)

lemma same_screen_updates [simp]:
  "same_screen dev (dev'\<lparr>cur_x := x\<rparr>) \<longleftrightarrow> same_screen dev dev'"
  "same_screen dev (dev'\<lparr>cur_y := y\<rparr>) \<longleftrightarrow> same_screen dev dev'"
  "same_screen dev (dev'\<lparr>back_buffer_start := s\<rparr>) \<longleftrightarrow> same_screen dev dev'"
  "same_screen dev (dev'\<lparr>front_dirty_start := a\<rparr>) \<longleftrightarrow> same_screen dev dev'"
  "same_screen dev (dev'\<lparr>front_dirty_end := b\<rparr>) \<longleftrightarrow> same_screen dev dev'"
  by (simp_all add: same_screen_def)

lemma same_screen_eqs:
  assumes "same_screen dev dev'"
  shows "mh dev' = mh dev" "lb dev' = lb dev" "bpp dev' = bpp dev" "back_at dev' = back_at dev" "front_at dev' = front_at dev"
    "fb_geometry dev' = fb_geometry dev" "screen_byte font dev' = screen_byte font dev" "cur_mode dev' = cur_mode dev"
    "max_height dev' = max_height dev" "max_width dev' = max_width dev"
proof -
  have "glyph_row font dev' = glyph_row font dev" using assms by (simp add: same_screen_def glyph_row_def fun_eq_iff cong: if_cong)
  then show "screen_byte font dev' = screen_byte font dev"
    using assms by (simp add: same_screen_def screen_byte_def row_byte_def bpp_def fun_eq_iff cong: option.case_cong)
qed (use assms in \<open>auto simp: same_screen_def lb_def bpp_def back_at_def front_at_def fb_geometry_def fun_eq_iff\<close>)

lemma shows_cong:
  assumes "same_screen dev dev'" "cells t' = cells t"
  shows "back_buffer_start dev' = back_buffer_start dev \<Longrightarrow> back_shows font dev' m t' = back_shows font dev m t"
    and "front_shows font dev' m t' n = front_shows font dev m t n"
proof -
  have "screen_byte font dev t' = screen_byte font dev t" using assms(2) by (intro ext) (simp add: screen_byte_def)
  then show "back_buffer_start dev' = back_buffer_start dev \<Longrightarrow> back_shows font dev' m t' = back_shows font dev m t"
    and "front_shows font dev' m t' n = front_shows font dev m t n"
    by (simp_all add: back_shows_def front_shows_def same_screen_eqs[OF assms(1)] circ_def)
qed

section \<open>Lines of the circular buffer\<close>

lemma mod_lines: "r < 13 \<Longrightarrow> (a * 13 + r) mod (h * 13) = (a mod h) * 13 + (r :: nat)"
  by (simp add: mult.commute[of h] mod_mult2_eq)

lemma circ_line: "r < 13 \<Longrightarrow> circ dev (l * 13 + r) = ((l + unat (back_buffer_start dev)) mod mh dev) * 13 + r"
  using mod_lines[of r "l + unat (back_buffer_start dev)" "mh dev"] by (simp add: circ_def algebra_simps)

lemma circ_div_mod: "circ dev q div 13 = (q div 13 + unat (back_buffer_start dev)) mod mh dev" "circ dev q mod 13 = q mod 13"
  using circ_line[of "q mod 13" dev "q div 13"] by simp_all

lemma rotate_inj:
  fixes a b s h :: nat
  assumes "a < h" "b < h"
  shows "(a + s) mod h = (b + s) mod h \<longleftrightarrow> a = b"
proof -
  have e: "(x + s) mod h = (if x + s mod h < h then x + s mod h else x + s mod h - h)" if "x < h" for x
  proof -
    have "s mod h < h" using that by simp
    then have "x + s mod h - h < h" using that by linarith
    then have "(x + s mod h) mod h = (if x + s mod h < h then x + s mod h else x + s mod h - h)" by (simp add: mod_if[of "x + s mod h"])
    then show ?thesis by (simp only: mod_add_right_eq)
  qed
  have "s mod h < h" using assms by simp
  then show ?thesis using assms by (auto simp: e)
qed

lemma circ_cursor:
  assumes "fb_ok dev" "q < mh dev * 13"
  shows "circ dev q div 13 = cursor_line dev \<longleftrightarrow> q div 13 = unat (cur_y dev)"
  unfolding circ_div_mod cursor_line_def using assms fb_okD(3)[OF assms(1)] by (intro rotate_inj) auto

section \<open>Drawing a character\<close>

lemma draw_char_back:
  assumes "fb_ok dev" "back_shows font dev m t" "column t = unat (cur_x dev)" "line t = unat (cur_y dev)"
  shows "back_shows font dev (draw_rows font dev c (cursor_line dev) (unat (cur_x dev) * 8 * bpp dev) 13 m)
    (t\<lparr>cells := (cells t)(line t := (cells t (line t))(column t \<mapsto> c))\<rparr>)"
  unfolding back_shows_def
proof (intro allI impI)
  fix q k assume q: "q < mh dev * 13" and k: "k < lb dev"
  note g = fb_okD(1)[OF assms(1)]
  have y: "cursor_line dev < mh dev" using geometryD(3)[OF g] by (simp add: cursor_line_def)
  let ?x = "unat (cur_x dev)" let ?w = "8 * bpp dev"
  have "0 < ?w" using bpp_pos[OF g] by simp
  then have cell: "?x * 8 * bpp dev \<le> k \<and> k < ?x * 8 * bpp dev + ?w \<longleftrightarrow> k div ?w = ?x"
    using less_eq_div_iff_mult_less_eq[of ?w ?x k] div_less_iff_less_mult[of ?w k "Suc ?x"] by (auto simp: mult.assoc less_Suc_eq_le)
  have "k mod ?w = k - ?x * 8 * bpp dev" if "k div ?w = ?x" using that by (metis minus_div_mult_eq_mod mult.assoc)
  then show "draw_rows font dev c (cursor_line dev) (?x * 8 * bpp dev) 13 m (back_at dev (circ dev q) k) =
      screen_byte font dev (t\<lparr>cells := (cells t)(line t := (cells t (line t))(column t \<mapsto> c))\<rparr>) q k"
    using draw_rows_back[OF g y glyph_room[OF assms(1)] circ_less[OF assms(1)] k, of 13] circ_cursor[OF assms(1) q] cell assms(2-4) q k
    by (auto simp: circ_div_mod(2) screen_byte_def row_byte_def back_shows_def)
qed

lemma draw_char_front:
  assumes "fb_ok dev" "front_shows font dev m t n" "line t = unat (cur_y dev)"
    "max n (13 * (unat (cur_y dev) + 1)) \<le> n'"
  shows "front_shows font dev (draw_rows font dev c (cursor_line dev) (unat (cur_x dev) * 8 * bpp dev) 13 m)
    (t\<lparr>cells := (cells t)(line t := (cells t (line t))(column t \<mapsto> c))\<rparr>) n'"
  unfolding front_shows_def
proof (intro allI impI)
  fix q k assume q: "q < mh dev * 13" and k: "k < lb dev" and n: "n' \<le> q"
  note g = fb_okD(1)[OF assms(1)]
  have y: "cursor_line dev < mh dev" using geometryD(3)[OF g] by (simp add: cursor_line_def)
  have "q div 13 \<noteq> line t" using assms(3,4) n by auto
  moreover have "m (front_at dev q k) = screen_byte font dev t q k" using assms(2,4) q k n by (simp add: front_shows_def)
  ultimately show "draw_rows font dev c (cursor_line dev) (unat (cur_x dev) * 8 * bpp dev) 13 m (front_at dev q k) =
      screen_byte font dev (t\<lparr>cells := (cells t)(line t := (cells t (line t))(column t \<mapsto> c))\<rparr>) q k"
    using draw_rows_front[OF g y glyph_room[OF assms(1)] rows_used[OF g q], of k 13] k geometryD(7)[OF g]
    by (simp add: screen_byte_def)
qed

section \<open>Scrolling\<close>

lemma memset_pixel_lines:
  assumes "fb_geometry dev" "unat n = c * unat (width (cur_mode dev))" "p + c \<le> mh dev * 13"
  shows "q < mh dev * 13 \<Longrightarrow> k < lb dev \<Longrightarrow> memset_pixel dev (back_at dev p 0) x (unat (n :: u32)) m (back_at dev q k) =
      (if p \<le> q \<and> q < p + c then pixel_bytes (depth (cur_mode dev)) x ! (k mod bpp dev) else m (back_at dev q k))"
    and "q < unat (height (cur_mode dev)) \<Longrightarrow> k < pitch dev \<Longrightarrow>
      memset_pixel dev (back_at dev p 0) x (unat n) m (front_at dev q k) = m (front_at dev q k)"
proof -
  let ?bs = "concat (replicate (unat n) (pixel_bytes (depth (cur_mode dev)) x))"
  have len: "length ?bs = c * lb dev" using length_pixel_bytes[OF assms(1)] by (simp add: length_concat sum_list_replicate assms(2) lb_def)
  have "p * lb dev + c * lb dev \<le> mh dev * 13 * lb dev" using assms(3) by (simp only: add_mult_distrib [symmetric] mult_le_mono1)
  then have room: "p * lb dev + length ?bs \<le> mh dev * 13 * lb dev" by (simp only: len)
  have at: "memset_pixel dev (back_at dev p 0) x (unat n) m = store_bytes m (back_buffer dev + of_nat (p * lb dev)) ?bs"
    by (simp add: memset_pixel_def back_at_def)
  then show "memset_pixel dev (back_at dev p 0) x (unat n) m (front_at dev q k) = m (front_at dev q k)"
    if "q < unat (height (cur_mode dev))" "k < pitch dev"
    using store_back_front[OF assms(1) room that] by simp
  show "memset_pixel dev (back_at dev p 0) x (unat n) m (back_at dev q k) =
      (if p \<le> q \<and> q < p + c then pixel_bytes (depth (cur_mode dev)) x ! (k mod bpp dev) else m (back_at dev q k))"
    if qk: "q < mh dev * 13" "k < lb dev"
  proof -
    have "p * lb dev \<le> q * lb dev + k \<and> q * lb dev + k < p * lb dev + c * lb dev \<longleftrightarrow> p \<le> q \<and> q < p + c" (is "?A \<longleftrightarrow> ?B")
    proof -
      have "0 < lb dev" using qk(2) by simp
      then have "p * lb dev \<le> q * lb dev + k \<longleftrightarrow> p \<le> q" "q * lb dev + k < (p + c) * lb dev \<longleftrightarrow> q < p + c"
        using less_eq_div_iff_mult_less_eq[of "lb dev" p "q * lb dev + k"] div_less_iff_less_mult[of "lb dev" "q * lb dev + k" "p + c"] qk(2)
        by simp_all
      then show ?thesis by (simp add: add_mult_distrib)
    qed
    moreover have "?bs ! (q * lb dev + k - p * lb dev) = pixel_bytes (depth (cur_mode dev)) x ! (k mod bpp dev)" if b: ?B
    proof -
      have e: "q * lb dev + k - p * lb dev = (q - p) * unat (width (cur_mode dev)) * bpp dev + k"
        using b by (simp add: diff_mult_distrib lb_def mult.assoc)
      have "q * lb dev + k - p * lb dev < unat n * bpp dev"
        using calculation b len by (simp add: assms(2) lb_def mult.assoc) linarith
      then show ?thesis using length_pixel_bytes[OF assms(1), of x] by (simp add: nth_concat_replicate) (simp add: e)
    qed
    ultimately show ?thesis using store_back[OF assms(1) room qk] by (simp add: at len)
  qed
qed

lemma scroll_offset:
  assumes "fb_ok dev"
  shows "back_buffer dev + ucast (back_buffer_start dev * font_height * ucast (width (cur_mode dev)) * ucast (depth (cur_mode dev)) div 8) =
      back_at dev (unat (back_buffer_start dev) * 13) 0"
    and "unat ((ucast (width (cur_mode dev)) :: u32) * font_height) = 13 * unat (width (cur_mode dev))"
proof -
  note g = fb_okD(1)[OF assms]
  let ?w = "unat (width (cur_mode dev))" let ?n = "unat (back_buffer_start dev) * 13 * ?w * unat (depth (cur_mode dev))"
  have n: "?n = unat (back_buffer_start dev) * 13 * lb dev * 8" by (simp add: lb_def bpp_depth[OF g])
  have "unat (back_buffer_start dev) * 13 * lb dev * 8 < 2 ^ 32" using fb_okD(4)[OF assms] by (intro back_size[OF g]) simp
  then have "unat (of_nat ?n :: u32) = ?n" by (intro unat_of_nat_u32') (simp only: n)
  moreover have "back_buffer_start dev * font_height * ucast (width (cur_mode dev)) * ucast (depth (cur_mode dev)) = (of_nat ?n :: u32)"
    by (simp add: font_height_def)
  ultimately have "unat (back_buffer_start dev * font_height * ucast (width (cur_mode dev)) * ucast (depth (cur_mode dev)) div (8 :: u32)) = ?n div 8"
    by (simp only: unat_div) simp
  then show "back_buffer dev + ucast (back_buffer_start dev * font_height * ucast (width (cur_mode dev)) * ucast (depth (cur_mode dev)) div 8) =
      back_at dev (unat (back_buffer_start dev) * 13) 0"
    by (simp only: ucast_of_nat n back_at_def) simp
  have "?w < 2 ^ LENGTH(16)" by (rule unsigned_less)
  then have "unat (of_nat (13 * ?w) :: u32) = 13 * ?w" by (intro unat_of_nat_u32') simp
  moreover have "(ucast (width (cur_mode dev)) :: u32) * font_height = of_nat (13 * ?w)" by (simp add: font_height_def)
  ultimately show "unat ((ucast (width (cur_mode dev)) :: u32) * font_height) = 13 * ?w" by (simp only:)
qed

lemma scroll_start:
  assumes "fb_ok dev"
  shows "unat ((back_buffer_start dev + 1) mod max_height dev) = (unat (back_buffer_start dev) + 1) mod mh dev"
proof -
  have "mh dev < 2 ^ 16" using mh_small[OF fb_okD(1)[OF assms]] by linarith
  then have "unat (back_buffer_start dev + 1) = unat (back_buffer_start dev) + 1"
    using fb_okD(4)[OF assms] by (subst unat_add_lem [THEN iffD1]) simp_all
  then show ?thesis by (simp add: unat_mod)
qed

text \<open>After the scroll the lines are those one further in the circular buffer; the last is the one just cleared.\<close>

lemma circ_scrolled:
  assumes "fb_ok dev" "unat (back_buffer_start dev') = (unat (back_buffer_start dev) + 1) mod mh dev" "mh dev' = mh dev" "q < mh dev * 13"
  shows "circ dev' q = (if q div 13 = mh dev - 1 then unat (back_buffer_start dev) * 13 + q mod 13 else circ dev (q + 13))"
    and "q div 13 \<noteq> mh dev - 1 \<Longrightarrow> circ dev (q + 13) div 13 \<noteq> unat (back_buffer_start dev)"
proof -
  let ?s = "unat (back_buffer_start dev)"
  note s = fb_okD(4)[OF assms(1)]
  have l: "q div 13 < mh dev" using assms(4) by (simp add: div_less_iff_less_mult)
  have c': "circ dev' q = ((q div 13 + 1 + ?s) mod mh dev) * 13 + q mod 13"
    using circ_line[of "q mod 13" dev' "q div 13"] assms(2,3) by (simp add: mod_add_right_eq ac_simps)
  have c: "circ dev (q + 13) = ((q div 13 + 1 + ?s) mod mh dev) * 13 + q mod 13"
    using circ_line[of "q mod 13" dev "q div 13 + 1"] by (simp add: distrib_right)
  have "(mh dev + ?s) mod mh dev = ?s" using s by simp
  then show "circ dev' q = (if q div 13 = mh dev - 1 then ?s * 13 + q mod 13 else circ dev (q + 13))"
    using c c' l by auto
  show "circ dev (q + 13) div 13 \<noteq> ?s" if "q div 13 \<noteq> mh dev - 1"
  proof -
    have "q div 13 + 1 < mh dev" using that l by linarith
    then have "(q div 13 + 1 + ?s) mod mh dev \<noteq> (0 + ?s) mod mh dev" by (subst rotate_inj) auto
    then show ?thesis using s by (simp add: c)
  qed
qed

lemma fb_scroll_shows:
  assumes "fb_shows font dev m t" "line t = mh dev - 1" "fb_scroll dev m = (dev', m')"
  shows "fb_shows font dev' m' (term_feed (mh dev) t) \<and> same_screen dev dev'"
proof -
  have ok: "fb_ok dev" using assms(1) by (simp add: fb_shows_def)
  note g = fb_okD(1)[OF ok]
  let ?s = "unat (back_buffer_start dev)"
  have dev': "dev' = dev\<lparr>back_buffer_start := (back_buffer_start dev + 1) mod max_height dev, front_dirty_start := 0, front_dirty_end := max_height dev\<rparr>"
    and m': "m' = memset_pixel dev (back_at dev (?s * 13) 0) (pixel (background dev)) (unat (ucast (width (cur_mode dev)) * font_height)) m"
    using assms(3) geometryD(10)[OF g] scroll_offset(1)[OF ok] by (auto simp: fb_scroll_def Let_def)
  have same: "same_screen dev dev'" by (simp add: dev')
  note e = same_screen_eqs[OF same]
  have start: "unat (back_buffer_start dev') = (?s + 1) mod mh dev" using scroll_start[OF ok] by (simp add: dev')
  have ok': "fb_ok dev'" using ok geometryD(3)[OF g] fb_okD(4)[OF ok] start e(6)
    by (simp add: fb_ok_def word_less_nat_alt dev')
  have "?s * 13 + 13 \<le> mh dev * 13" using fb_okD(4)[OF ok] by linarith
  note ms = memset_pixel_lines[OF g scroll_offset(2)[OF ok] this]
  have "back_shows font dev' m' (term_feed (mh dev) t)"
    unfolding back_shows_def e
  proof (intro allI impI)
    fix q k assume q: "q < mh dev * 13" and k: "k < lb dev"
    note c = circ_scrolled[OF ok start e(1) q]
    show "m' (back_at dev (circ dev' q) k) = screen_byte font dev (term_feed (mh dev) t) q k"
    proof (cases "q div 13 = mh dev - 1")
      case True
      have "q mod 13 < 13" by simp
      then have "?s * 13 + q mod 13 < mh dev * 13" using fb_okD(4)[OF ok] by linarith
      then show ?thesis using ms(1)[of "?s * 13 + q mod 13" k] k c(1) True assms(2) \<open>q mod 13 < 13\<close>
        by (simp add: m' screen_byte_def row_byte_def term_feed_def)
    next
      case False
      moreover have "q div 13 < mh dev" using q by (simp add: div_less_iff_less_mult)
      ultimately have "q div 13 + 1 < mh dev" by linarith
      moreover have "q mod 13 < 13" "q = q div 13 * 13 + q mod 13" by simp_all
      ultimately have l: "q + 13 < mh dev * 13" by linarith
      have "circ dev (q + 13) < mh dev * 13" by (rule circ_less[OF ok])
      moreover have "\<not> (?s * 13 \<le> circ dev (q + 13) \<and> circ dev (q + 13) < ?s * 13 + 13)" using c(2)[OF False] by auto
      moreover have "m (back_at dev (circ dev (q + 13)) k) = screen_byte font dev t (q + 13) k"
        using assms(1) l k by (simp add: fb_shows_def back_shows_def)
      moreover have "(q + 13) div 13 = q div 13 + 1" by (rule div_add_self2) simp
      ultimately show ?thesis using ms(1)[of "circ dev (q + 13)" k] k c(1) False assms(2)
        by (auto simp: m' screen_byte_def term_feed_def)
    qed
  qed
  moreover have "front_shows font dev' m' (term_feed (mh dev) t) (13 * unat (front_dirty_end dev'))"
    by (simp add: front_shows_def dev')
  ultimately show ?thesis using same ok' assms(1,2) by (simp add: fb_shows_def dev' term_feed_def)
qed

lemma next_line_shows:
  assumes "fb_shows font dev m t" "next_line dev m = (dev', m')"
  shows "fb_shows font dev' m' (term_feed (mh dev) t) \<and> same_screen dev dev'"
proof (cases "cur_y dev = max_height dev - 1")
  case True
  have ok: "fb_ok dev" using assms(1) by (simp add: fb_shows_def)
  have "line t = mh dev - 1"
    using assms(1) True geometryD(3)[OF fb_okD(1)[OF ok]] by (simp add: fb_shows_def unat_minus_one unat_gt_0)
  then show ?thesis using assms True fb_scroll_shows[OF assms(1)] by (simp add: next_line_def)
next
  case False
  have ok: "fb_ok dev" using assms(1) by (simp add: fb_shows_def)
  note g = fb_okD(1)[OF ok]
  have last: "unat (max_height dev - 1) = mh dev - 1" using geometryD(3)[OF g] by (simp add: unat_minus_one unat_gt_0)
  then have y: "unat (cur_y dev) < mh dev - 1" using False fb_okD(3)[OF ok] by (metis Suc_pred' geometryD(3) g less_antisym word_unat_eq_iff diff_Suc_1')
  then have inc: "unat (cur_y dev + 1) = unat (cur_y dev) + 1" using mh_small[OF g] by (subst unat_add_lem [THEN iffD1]) simp_all
  have e: "dev' = dev\<lparr>cur_y := cur_y dev + 1\<rparr>" "m' = m" using assms(2) False by (simp_all add: next_line_def)
  have same: "same_screen dev dev'" by (simp add: e)
  have "fb_ok dev'" using ok same_screen_eqs(6)[OF same] y inc by (simp add: fb_ok_def e word_less_nat_alt)
  moreover have "back_shows font dev' m (t\<lparr>line := line t + 1\<rparr>)" "front_shows font dev' m (t\<lparr>line := line t + 1\<rparr>) (13 * unat (front_dirty_end dev'))"
    using assms(1) shows_cong[OF same, of "t\<lparr>line := line t + 1\<rparr>" t] by (simp_all add: fb_shows_def e)
  ultimately show ?thesis using assms(1) y inc same by (simp add: fb_shows_def term_feed_def e)
qed

lemma fb_line_dirty_eq:
  assumes "fb_ok dev"
  shows "fb_line_dirty dev (cur_y dev) = dev\<lparr>front_dirty_end := (if front_dirty_end dev \<le> cur_y dev then cur_y dev + 1 else front_dirty_end dev)\<rparr>"
  using fb_okD(5)[OF assms] by (simp add: fb_line_dirty_def Let_def)

section \<open>Characters and texts\<close>

text \<open>The state after a character is drawn and the cursor set to a column of the line.\<close>

lemma drawn_shows:
  assumes "fb_shows font dev m t" "x < max_width dev"
  shows "fb_shows font ((fb_line_dirty dev (cur_y dev))\<lparr>cur_x := x\<rparr>)
    (draw_rows font dev c (cursor_line dev) (unat (cur_x dev) * 8 * bpp dev) 13 m)
    (t\<lparr>cells := (cells t)(line t := (cells t (line t))(column t \<mapsto> c)), column := unat x\<rparr>)"
    (is "fb_shows font ?dev ?m ?t")
proof -
  have ok: "fb_ok dev" using assms(1) by (simp add: fb_shows_def)
  note g = fb_okD(1)[OF ok]
  have y: "unat (cur_y dev + 1) = unat (cur_y dev) + 1" using fb_okD(3)[OF ok] mh_small[OF g]
    by (subst unat_add_lem [THEN iffD1]) simp_all
  have e: "13 * unat (front_dirty_end ?dev) = max (13 * unat (front_dirty_end dev)) (13 * (unat (cur_y dev) + 1))"
    using y by (simp add: fb_line_dirty_eq[OF ok] word_le_nat_alt)
  have same: "same_screen dev ?dev" by (simp add: fb_line_dirty_eq[OF ok])
  have "fb_ok ?dev" using ok assms(2) y fb_okD(3)[OF ok] same_screen_eqs(6)[OF same]
    by (auto simp: fb_ok_def fb_line_dirty_eq[OF ok] word_le_nat_alt word_less_nat_alt)
  moreover have "back_shows font dev ?m ?t"
    using assms(1) draw_char_back[OF ok, of font m t c] shows_cong(1)[of dev dev ?t "t\<lparr>cells := (cells t)(line t := (cells t (line t))(column t \<mapsto> c))\<rparr>"]
    by (simp add: fb_shows_def)
  moreover have "front_shows font dev ?m ?t (13 * unat (front_dirty_end ?dev))"
    using assms(1) draw_char_front[OF ok, of font m t "13 * unat (front_dirty_end dev)" "13 * unat (front_dirty_end ?dev)" c] e
      shows_cong(2)[of dev dev ?t "t\<lparr>cells := (cells t)(line t := (cells t (line t))(column t \<mapsto> c))\<rparr>"]
    by (simp add: fb_shows_def)
  moreover have "cur_y ?dev = cur_y dev" "cur_x ?dev = x" "back_buffer_start ?dev = back_buffer_start dev"
    by (simp_all add: fb_line_dirty_eq[OF ok])
  ultimately show ?thesis using assms(1) shows_cong[OF same, of ?t ?t] by (simp add: fb_shows_def)
qed

lemma set_column_shows:
  assumes "fb_shows font dev m t" "x < max_width dev"
  shows "fb_shows font (dev\<lparr>cur_x := x\<rparr>) m (t\<lparr>column := unat x\<rparr>)"
proof -
  have "same_screen dev (dev\<lparr>cur_x := x\<rparr>)" by simp
  then show ?thesis using assms shows_cong[of dev "dev\<lparr>cur_x := x\<rparr>" "t\<lparr>column := unat x\<rparr>" t] same_screen_eqs(6)[of dev "dev\<lparr>cur_x := x\<rparr>"]
    by (auto simp: fb_shows_def fb_ok_def)
qed

lemma tab_column:
  assumes "fb_ok dev"
  shows "unat (cur_x dev + (8 - cur_x dev mod 8)) = unat (cur_x dev) + (8 - unat (cur_x dev) mod 8)"
    and "unat (max_width dev - 1) = unat (max_width dev) - 1"
proof -
  note g = fb_okD(1)[OF assms]
  have "unat (width (cur_mode dev)) < 2 ^ LENGTH(16)" by (rule unsigned_less)
  then have x: "unat (cur_x dev) < 2 ^ 16" using fb_okD(2)[OF assms] geometryD(4)[OF g] by simp
  have m: "unat (cur_x dev mod 8) = unat (cur_x dev) mod 8" by (simp add: unat_mod)
  moreover have "unat (cur_x dev) mod 8 < 8" by simp
  ultimately have "cur_x dev mod 8 \<le> 8" by (simp add: word_le_nat_alt)
  then have s: "unat (8 - cur_x dev mod 8) = 8 - unat (cur_x dev) mod 8" using m by (simp add: unat_sub)
  then show "unat (cur_x dev + (8 - cur_x dev mod 8)) = unat (cur_x dev) + (8 - unat (cur_x dev) mod 8)"
    using x by (subst unat_add_lem [THEN iffD1]) simp_all
  show "unat (max_width dev - 1) = unat (max_width dev) - 1" using geometryD(2)[OF g] by (simp add: unat_minus_one unat_gt_0)
qed

lemma unat_inc: "x < y \<Longrightarrow> unat (x + 1 :: u32) = unat x + 1"
proof -
  assume "x < y"
  moreover have "unat y < 2 ^ LENGTH(32)" by (rule unsigned_less)
  ultimately show ?thesis by (subst unat_add_lem [THEN iffD1]) (simp_all add: word_less_nat_alt)
qed

lemma fb_write_char_shows:
  assumes "fb_shows font dev m t"
  shows "\<exists>dev' m'. fb_write_char font dev c m = Inr (dev', m') \<and> same_screen dev dev' \<and>
    fb_shows font dev' m' (term_char (unat (max_width dev)) (mh dev) c t)"
proof -
  have ok: "fb_ok dev" using assms by (simp add: fb_shows_def)
  note g = fb_okD(1)[OF ok]
  have w: "0 < max_width dev" using geometryD(2)[OF g] by (simp add: unat_gt_0 word_gt_0)
  have at: "column t = unat (cur_x dev)" using assms by (simp add: fb_shows_def)
  consider (lf) "c = 0x0A" | (cr) "c = 0x0D" | (tab) "c = 0x09" | (other) "c \<noteq> 0x0A" "c \<noteq> 0x0D" "c \<noteq> 0x09" by blast
  then show ?thesis
  proof cases
    case lf
    obtain dev1 m1 where n: "next_line dev m = (dev1, m1)" by (cases "next_line dev m")
    note s = next_line_shows[OF assms n]
    then have "fb_shows font (dev1\<lparr>cur_x := 0\<rparr>) m1 ((term_feed (mh dev) t)\<lparr>column := 0\<rparr>)"
      using set_column_shows[of font dev1 m1 "term_feed (mh dev) t" 0] w by (simp add: same_screen_def)
    then show ?thesis using lf n s by (simp add: fb_write_char_def term_char_def)
  next
    case cr
    then show ?thesis using set_column_shows[OF assms w] by (simp add: fb_write_char_def term_char_def)
  next
    case tab
    let ?x = "if max_width dev \<le> cur_x dev + (8 - cur_x dev mod 8) then max_width dev - 1 else cur_x dev + (8 - cur_x dev mod 8)"
    note x = tab_column[OF ok]
    have "unat ?x = min (unat (cur_x dev) + (8 - unat (cur_x dev) mod 8)) (unat (max_width dev) - 1)" "unat ?x < unat (max_width dev)"
      using x geometryD(2)[OF g] by (auto simp: word_le_nat_alt)
    then show ?thesis using set_column_shows[OF assms, of ?x] tab at by (simp add: fb_write_char_def term_char_def Let_def word_less_nat_alt)
  next
    case other
    let ?dev = "fb_line_dirty dev (cur_y dev)"
    let ?m = "draw_rows font dev c (cursor_line dev) (unat (cur_x dev) * 8 * bpp dev) 13 m"
    let ?t = "t\<lparr>cells := (cells t)(line t := (cells t (line t))(column t \<mapsto> c))\<rparr>"
    have d: "cur_x ?dev = cur_x dev" "max_width ?dev = max_width dev" "same_screen dev ?dev" by (simp_all add: fb_line_dirty_eq[OF ok])
    have inc: "unat (cur_x dev + 1) = unat (cur_x dev) + 1"
      using fb_okD(2)[OF ok] tab_column(2)[OF ok] unat_inc[of "cur_x dev" "max_width dev"] by (simp add: word_less_nat_alt)
    show ?thesis
    proof (cases "cur_x dev + 1 = max_width dev")
      case True
      obtain dev1 m1 where n: "next_line (?dev\<lparr>cur_x := 0\<rparr>) ?m = (dev1, m1)" by (cases "next_line (?dev\<lparr>cur_x := 0\<rparr>) ?m")
      have sc: "same_screen dev (?dev\<lparr>cur_x := 0\<rparr>)" using d by simp
      note nl = next_line_shows[OF drawn_shows[OF assms w, of c] n]
      have "same_screen dev dev1" "fb_shows font dev1 m1 (term_feed (mh dev) (?t\<lparr>column := 0\<rparr>))"
        using nl same_screen_eqs(1)[OF sc] same_screen_trans[OF sc] by simp_all
      moreover have "column t + 1 = unat (max_width dev)" using True inc at by metis
      ultimately show ?thesis using other n True write_char_depth_eq[OF ok, of font c m] d
        by (simp add: fb_write_char_def term_char_def Let_def)
    next
      case False
      then have x: "cur_x dev + 1 < max_width dev"
        using fb_okD(2)[OF ok] inc by (metis Suc_eq_plus1 Suc_lessI word_less_nat_alt word_unat_eq_iff)
      then have "column t + 1 \<noteq> unat (max_width dev)" using inc at by (simp add: word_less_nat_alt)
      then show ?thesis using other drawn_shows[OF assms x, of c] write_char_depth_eq[OF ok, of font c m] d False inc at
        by (simp add: fb_write_char_def term_char_def Let_def)
    qed
  qed
qed

lemma fb_write_chars_shows:
  "fb_shows font dev m t \<Longrightarrow> \<exists>dev' m'. fb_write_chars font dev cs m = Inr (dev', m') \<and> same_screen dev dev' \<and>
    fb_shows font dev' m' (term_write (unat (max_width dev)) (mh dev) cs t)"
proof (induction cs arbitrary: dev m t)
  case Nil
  then show ?case by (simp add: term_write_def)
next
  case (Cons c cs)
  from fb_write_char_shows[OF Cons.prems, of c] obtain dev1 m1 where s1: "fb_write_char font dev c m = Inr (dev1, m1)" "same_screen dev dev1"
    "fb_shows font dev1 m1 (term_char (unat (max_width dev)) (mh dev) c t)" by blast
  from Cons.IH[OF s1(3)] obtain dev2 m2 where s2: "fb_write_chars font dev1 cs m1 = Inr (dev2, m2)" "same_screen dev1 dev2"
    "fb_shows font dev2 m2 (term_write (unat (max_width dev1)) (mh dev1) cs (term_char (unat (max_width dev)) (mh dev) c t))" by blast
  then show ?case using s1 same_screen_eqs(1,10)[OF s1(2)] same_screen_trans[OF s1(2) s2(2)] by (simp add: term_write_def)
qed

lemma fb_write_shows:
  assumes "fb_shows font dev m t"
  shows "\<exists>dev' m'. fb_write font dev cs m = Inr (dev', m') \<and> same_screen dev dev' \<and>
    fb_shows font dev' m' (term_write (unat (max_width dev)) (mh dev) cs t) \<and>
    front_shows font dev' m' (term_write (unat (max_width dev)) (mh dev) cs t) 0"
proof -
  let ?t = "term_write (unat (max_width dev)) (mh dev) cs t"
  from fb_write_chars_shows[OF assms, of cs] obtain dev1 m1 where s: "fb_write_chars font dev cs m = Inr (dev1, m1)" "same_screen dev dev1"
    "fb_shows font dev1 m1 ?t" by blast
  then have ok: "fb_ok dev1" by (simp add: fb_shows_def)
  note g = fb_okD(1)[OF ok]
  have front: "fb_render dev1 m1 (front_at dev1 q k) = screen_byte font dev1 ?t q k" if "q < mh dev1 * 13" "k < lb dev1" for q k
    using s(3) that fb_render_at[OF ok rows_used[OF g that(1)], of k m1] geometryD(7)[OF g]
    by (auto simp: fb_shows_def back_shows_def front_shows_def)
  have bk: "fb_render dev1 m1 (back_at dev1 (circ dev1 q) k) = screen_byte font dev1 ?t q k" if "q < mh dev1 * 13" "k < lb dev1" for q k
  proof -
    have "back_at dev1 (circ dev1 q) k \<notin> front_region dev1"
      using front_not_back[OF g _ _ circ_less[OF ok] that(2)] unfolding front_region_def mem_Collect_eq by metis
    then show ?thesis using s(3) that by (simp add: fb_render_other[OF ok] fb_shows_def back_shows_def)
  qed
  have "fb_shows font dev1 (fb_render dev1 m1) ?t" "front_shows font dev1 (fb_render dev1 m1) ?t 0"
    using s(3) front bk by (simp_all add: fb_shows_def back_shows_def front_shows_def)
  then show ?thesis using s(1,2) by (simp add: fb_write_def)
qed

section \<open>Initialisation\<close>

text \<open>The clearing of the frame buffer.\<close>

lemma memset_front:
  assumes "a + length bs \<le> unat (height (cur_mode dev)) * pitch dev" "fb_geometry dev"
  shows "q < unat (height (cur_mode dev)) \<Longrightarrow> k < pitch dev \<Longrightarrow> store_bytes m (front_buffer dev + of_nat a) bs (front_at dev q k) =
      (if a \<le> q * pitch dev + k \<and> q * pitch dev + k < a + length bs then bs ! (q * pitch dev + k - a) else m (front_at dev q k))"
    and "q < mh dev * 13 \<Longrightarrow> k < lb dev \<Longrightarrow> store_bytes m (front_buffer dev + of_nat a) bs (back_at dev q k) = m (back_at dev q k)"
proof -
  note g = assms(2)
  show "store_bytes m (front_buffer dev + of_nat a) bs (front_at dev q k) =
      (if a \<le> q * pitch dev + k \<and> q * pitch dev + k < a + length bs then bs ! (q * pitch dev + k - a) else m (front_at dev q k))"
    if "q < unat (height (cur_mode dev))" "k < pitch dev"
    unfolding front_at_def using assms(1) front_bound[OF g that] geometryD(12)[OF g] by (intro store_offset) linarith+
  show "store_bytes m (front_buffer dev + of_nat a) bs (back_at dev q k) = m (back_at dev q k)" if "q < mh dev * 13" "k < lb dev"
    using back_bound[OF g that] geometryD(12,13)[OF g] assms(1) by (intro store_outside) linarith+
qed

lemma clear_scanline:
  assumes "fb_geometry dev" "i < unat (height (cur_mode dev))" "w = unat (width (cur_mode dev))"
  defines "m' m x \<equiv> memset_pixel dev (front_buffer dev + ucast (of_nat i * bytes_per_scanline (cur_mode dev))) x w m"
  shows "q < unat (height (cur_mode dev)) \<Longrightarrow> k < lb dev \<Longrightarrow> m' m x (front_at dev q k) =
      (if q = i then pixel_bytes (depth (cur_mode dev)) x ! (k mod bpp dev) else m (front_at dev q k))"
    and "q < mh dev * 13 \<Longrightarrow> k < lb dev \<Longrightarrow> m' m x (back_at dev q k) = m (back_at dev q k)"
proof -
  note g = assms(1)
  let ?bs = "concat (replicate w (pixel_bytes (depth (cur_mode dev)) x))"
  have len: "length ?bs = lb dev" using length_pixel_bytes[OF g] by (simp add: length_concat sum_list_replicate assms(3) lb_def)
  have le: "i * pitch dev + pitch dev \<le> unat (height (cur_mode dev)) * pitch dev"
    using assms(2) mult_le_mono1[of "Suc i" "unat (height (cur_mode dev))" "pitch dev"] by simp
  then have room: "i * pitch dev + length ?bs \<le> unat (height (cur_mode dev)) * pitch dev" using geometryD(7)[OF g] len by linarith
  have "i * pitch dev < 2 ^ 32" using le geometryD(8)[OF g] by linarith
  then have "unat (of_nat (i * pitch dev) :: u32) = i * pitch dev" by (rule unat_of_nat_u32')
  then have a: "unat (of_nat i * bytes_per_scanline (cur_mode dev)) = i * pitch dev" by simp
  have at: "m' m x = store_bytes m (front_buffer dev + of_nat (i * pitch dev)) ?bs"
    by (simp only: m'_def memset_pixel_def ucast_of_nat a)
  show "m' m x (back_at dev q k) = m (back_at dev q k)" if "q < mh dev * 13" "k < lb dev"
    using memset_front(2)[OF room g that] by (simp only: at)
  assume q: "q < unat (height (cur_mode dev))" and k: "k < lb dev"
  have kp: "k < pitch dev" using k geometryD(7)[OF g] by simp
  have "i * pitch dev \<le> q * pitch dev + k \<and> q * pitch dev + k < i * pitch dev + lb dev \<longleftrightarrow> q = i"
  proof
    assume b: "i * pitch dev \<le> q * pitch dev + k \<and> q * pitch dev + k < i * pitch dev + lb dev"
    then have "i * pitch dev \<le> q * pitch dev + k" "q * pitch dev + k < Suc i * pitch dev" using geometryD(7)[OF g] by auto
    moreover have "0 < pitch dev" using kp by simp
    ultimately have "i \<le> (q * pitch dev + k) div pitch dev" "(q * pitch dev + k) div pitch dev < Suc i"
      by (simp_all only: less_eq_div_iff_mult_less_eq div_less_iff_less_mult)
    then show "q = i" using kp by simp
  qed (use k in simp)
  moreover have "?bs ! k = pixel_bytes (depth (cur_mode dev)) x ! (k mod bpp dev)"
    using k length_pixel_bytes[OF g, of x] by (subst nth_concat_replicate) (simp_all add: lb_def assms(3))
  ultimately show "m' m x (front_at dev q k) = (if q = i then pixel_bytes (depth (cur_mode dev)) x ! (k mod bpp dev) else m (front_at dev q k))"
    using memset_front(1)[OF room g q kp, of m] by (simp only: at len) simp
qed

lemma clear_scanlines:
  assumes "fb_geometry dev" "n \<le> unat (height (cur_mode dev))" "w = unat (width (cur_mode dev))" "k < lb dev"
  defines "m' m x \<equiv> fold (\<lambda>i. memset_pixel dev (front_buffer dev + ucast (of_nat i * bytes_per_scanline (cur_mode dev))) x w) [0..<n] m"
  shows "(q < unat (height (cur_mode dev)) \<longrightarrow> m' m x (front_at dev q k) =
      (if q < n then pixel_bytes (depth (cur_mode dev)) x ! (k mod bpp dev) else m (front_at dev q k))) \<and>
    (q < mh dev * 13 \<longrightarrow> m' m x (back_at dev q k) = m (back_at dev q k))"
  using assms(2) unfolding m'_def
proof (induction n)
  case (Suc n)
  note c = clear_scanline[OF assms(1) _ assms(3), of n]
  show ?case using Suc assms(4) by (simp add: c less_Suc_eq)
qed simp

lemma clear_contig:
  assumes "fb_geometry dev" "contig dev" "n = unat (width (cur_mode dev)) * unat (height (cur_mode dev))" "k < lb dev"
  shows "q < unat (height (cur_mode dev)) \<Longrightarrow> memset_pixel dev (front_buffer dev) x n m (front_at dev q k) =
      pixel_bytes (depth (cur_mode dev)) x ! (k mod bpp dev)"
    and "q < mh dev * 13 \<Longrightarrow> memset_pixel dev (front_buffer dev) x n m (back_at dev q k) = m (back_at dev q k)"
proof -
  note g = assms(1)
  note p = geometryD(6)[OF g, THEN iffD1, OF assms(2)]
  let ?bs = "concat (replicate n (pixel_bytes (depth (cur_mode dev)) x))"
  have nb: "n * bpp dev = unat (height (cur_mode dev)) * lb dev" by (simp add: assms(3) lb_def)
  have len: "length ?bs = n * bpp dev" using length_pixel_bytes[OF g] by (simp add: length_concat sum_list_replicate)
  have room: "0 + length ?bs \<le> unat (height (cur_mode dev)) * pitch dev" using p nb len by simp
  show "memset_pixel dev (front_buffer dev) x n m (back_at dev q k) = m (back_at dev q k)" if "q < mh dev * 13"
    using memset_front(2)[OF room g that assms(4)] by (simp add: memset_pixel_def)
  assume q: "q < unat (height (cur_mode dev))"
  have kp: "k < pitch dev" using assms(4) p by simp
  have b: "q * pitch dev + k < n * bpp dev" using scanline_offset[OF q kp order_refl] nb p by simp
  have "?bs ! (q * pitch dev + k) = pixel_bytes (depth (cur_mode dev)) x ! ((q * pitch dev + k) mod bpp dev)"
    using b length_pixel_bytes[OF g, of x] by (subst nth_concat_replicate) simp_all
  also have "(q * pitch dev + k) mod bpp dev = k mod bpp dev" unfolding p lb_def by (simp add: mult.assoc [symmetric])
  finally show "memset_pixel dev (front_buffer dev) x n m (front_at dev q k) = pixel_bytes (depth (cur_mode dev)) x ! (k mod bpp dev)"
    using memset_front(1)[OF room g q kp, of m] b by (simp add: memset_pixel_def len)
qed

text \<open>The modes and blocks for which the console works.\<close>

definition mode_ok :: "addr \<Rightarrow> mode_info \<Rightarrow> bool" where
  "mode_ok block mode \<longleftrightarrow>
     (let w = unat (width mode); h = unat (height mode); l = w * (unat (depth mode) div 8); p = unat (bytes_per_scanline mode);
          n = (h div 13) * 13 * l; b = unat block; f = unat (lfb_address mode) in
      depth mode \<in> {8, 16, 24, 32} \<and> 8 \<le> w \<and> 13 \<le> h \<and> l \<le> p \<and> h * p < 2 ^ 32 \<and> h * w * unat (depth mode) < 2 ^ 32 \<and>
      block \<noteq> NULL \<and> b + n \<le> 2 ^ 64 \<and> f + h * p \<le> 2 ^ 64 \<and> (b + n \<le> f \<or> f + h * p \<le> b))"

lemma fb_clear_buffers_fields:
  assumes "fb_clear_buffers dev m = (dev', m')" "back_buffer dev \<noteq> NULL"
  shows "dev' = dev\<lparr>cur_x := 0, cur_y := 0, back_buffer_start := 0, front_dirty_start := 0, front_dirty_end := 0\<rparr>"
    "m' = (let m = memset_pixel dev (back_buffer dev) (pixel (background dev)) (unat (ucast (width (cur_mode dev)) * max_height dev * font_height)) m in
       if contig dev then memset_pixel dev (front_buffer dev) (pixel (background dev)) (unat (ucast (width (cur_mode dev)) * (ucast (height (cur_mode dev)) :: u32))) m
       else fold (\<lambda>i. memset_pixel dev (front_buffer dev + ucast (of_nat i * bytes_per_scanline (cur_mode dev))) (pixel (background dev))
              (unat (ucast (width (cur_mode dev)) :: u32))) [0..<unat (height (cur_mode dev))] m)"
proof -
  have "memset_pixel (dev\<lparr>cur_x := 0, cur_y := 0, back_buffer_start := 0\<rparr>) = memset_pixel dev"
    by (simp add: memset_pixel_def fun_eq_iff)
  then show "dev' = dev\<lparr>cur_x := 0, cur_y := 0, back_buffer_start := 0, front_dirty_start := 0, front_dirty_end := 0\<rparr>"
    "m' = (let m = memset_pixel dev (back_buffer dev) (pixel (background dev)) (unat (ucast (width (cur_mode dev)) * max_height dev * font_height)) m in
       if contig dev then memset_pixel dev (front_buffer dev) (pixel (background dev)) (unat (ucast (width (cur_mode dev)) * (ucast (height (cur_mode dev)) :: u32))) m
       else fold (\<lambda>i. memset_pixel dev (front_buffer dev + ucast (of_nat i * bytes_per_scanline (cur_mode dev))) (pixel (background dev))
              (unat (ucast (width (cur_mode dev)) :: u32))) [0..<unat (height (cur_mode dev))] m)"
    using assms by (auto simp: fb_clear_buffers_def Let_def split: if_splits)
qed

lemma fb_clear_buffers_shows:
  assumes "fb_geometry dev" "fb_clear_buffers dev m = (dev', m')"
  shows "fb_shows font dev' m' term_blank \<and> same_screen dev dev'"
proof -
  note g = assms(1)
  note f = fb_clear_buffers_fields[OF assms(2) geometryD(10)[OF g]]
  let ?w = "unat (width (cur_mode dev))" and ?h = "unat (height (cur_mode dev))" and ?bg = "pixel (background dev)"
  have same: "same_screen dev dev'" by (simp add: f(1))
  note e = same_screen_eqs[OF same]
  have ok: "fb_ok dev'" using g e(6) geometryD(2,3)[OF g] by (simp add: fb_ok_def f(1) word_less_nat_alt)
  have px: "?h * ?w < 2 ^ 32" using geometryD(9)[OF g] bpp_depth[OF g] bpp_pos[OF g]
    by (metis le_less_trans le_square mult.right_neutral mult_le_mono2 nat_0_less_mult_iff One_nat_def Suc_leI zero_less_numeral)
  have "mh dev * 13 * ?w \<le> ?h * ?w" using geometryD(5)[OF g] by (rule mult_le_mono1)
  then have "unat (of_nat (mh dev * 13 * ?w) :: u32) = mh dev * 13 * ?w" using px by (intro unat_of_nat_u32') linarith
  moreover have "ucast (width (cur_mode dev)) * max_height dev * font_height = of_nat (mh dev * 13 * ?w)" by (simp add: font_height_def ac_simps)
  ultimately have nb: "unat (ucast (width (cur_mode dev)) * max_height dev * font_height) = mh dev * 13 * ?w" by simp
  have "unat (of_nat (?w * ?h) :: u32) = ?w * ?h" using px by (intro unat_of_nat_u32') (simp add: mult.commute)
  then have nf: "unat (ucast (width (cur_mode dev)) * (ucast (height (cur_mode dev)) :: u32)) = ?w * ?h" by simp
  have "?w < 2 ^ LENGTH(16)" by (rule unsigned_less)
  then have w32: "unat (ucast (width (cur_mode dev)) :: u32) = ?w" by (simp add: unat_arith)
  define m1 where "m1 = memset_pixel dev (back_at dev 0 0) ?bg (unat (ucast (width (cur_mode dev)) * max_height dev * font_height)) m"
  have m1: "m1 (back_at dev q k) = pixel_bytes (depth (cur_mode dev)) ?bg ! (k mod bpp dev)" if "q < mh dev * 13" "k < lb dev" for q k
    using memset_pixel_lines(1)[OF g nb _ that, of 0] that by (simp add: m1_def)
  have m': "m' (back_at dev q k) = pixel_bytes (depth (cur_mode dev)) ?bg ! (k mod bpp dev)"
    "m' (front_at dev q k) = pixel_bytes (depth (cur_mode dev)) ?bg ! (k mod bpp dev)" if "q < mh dev * 13" "k < lb dev" for q k
    using m1[OF that] clear_contig[OF g _ nf that(2), where q = q and m = m1 and x = ?bg] clear_scanlines[OF g order_refl w32 that(2), where q = q and m = m1 and x = ?bg] that rows_used[OF g that(1)]
    by (auto simp: f(2) Let_def m1_def back_at_def)
  moreover have "screen_byte font dev term_blank q k = pixel_bytes (depth (cur_mode dev)) ?bg ! (k mod bpp dev)" for q k
    by (simp add: screen_byte_def row_byte_def term_blank_def)
  ultimately have "back_shows font dev' m' term_blank" "front_shows font dev' m' term_blank n" for n
    using circ_less[OF ok] by (simp_all add: back_shows_def front_shows_def e)
  then show ?thesis using ok same by (simp add: fb_shows_def f(1) term_blank_def)
qed

lemma mode_bytes:
  assumes "depth mode \<in> {8, 16, 24, 32}"
  shows "unat ((ucast (width mode) :: u32) * ucast (depth mode) div 8) = unat (width mode) * (unat (depth mode) div 8)"
proof -
  have "unat (width mode) < 2 ^ LENGTH(16)" by (rule unsigned_less)
  then show ?thesis using assms by (auto simp: unat_div unat_mult_lem [THEN iffD1] unat_arith)
qed

lemma mode_cells:
  "unat ((ucast (width mode) :: u32) div font_width) = unat (width mode) div 8"
  "unat ((ucast (height mode) :: u32) div font_height) = unat (height mode) div 13"
proof -
  have "unat (width mode) < 2 ^ LENGTH(16)" "unat (height mode) < 2 ^ LENGTH(16)" by (rule unsigned_less)+
  then show "unat ((ucast (width mode) :: u32) div font_width) = unat (width mode) div 8"
    "unat ((ucast (height mode) :: u32) div font_height) = unat (height mode) div 13"
    by (simp_all add: unat_div unat_arith font_width_def font_height_def)
qed

lemma fb_init_shows:
  assumes "mode_ok block mode" "fb_init block dev0 mode m = (dev, m')"
  shows "fb_shows font dev m' term_blank" "cur_mode dev = mode" "unat (max_width dev) = unat (width mode) div 8"
    "mh dev = unat (height mode) div 13" "back_buffer dev = block" "front_buffer dev = lfb_address mode"
    "pixel (foreground dev) = fb_get_pixel_color mode 0xFF 0xFF 0xFF" "pixel (background dev) = 0"
proof -
  have dp: "depth mode \<in> {8, 16, 24, 32}" using assms(1) unfolding mode_ok_def Let_def by blast
  define dev1 where "dev1 = fb_reset_foreground_color (fb_reset_background_color
    (dev0\<lparr>cur_mode := mode, max_width := ucast (width mode) div font_width, max_height := ucast (height mode) div font_height,
       back_buffer := block, front_buffer := lfb_address mode, fb_write_char_depth := depth mode,
       flags := (if bytes_per_scanline mode = ucast (width mode) * ucast (depth mode) div 8 then CONTIG_SCANLINES else 0)\<rparr>))"
  have clear: "fb_clear_buffers dev1 m = (dev, m')"
    using assms(2) dp by (simp add: fb_init_def Let_def dev1_def)
  have fields: "cur_mode dev1 = mode" "max_width dev1 = ucast (width mode) div font_width" "max_height dev1 = ucast (height mode) div font_height"
    "back_buffer dev1 = block" "front_buffer dev1 = lfb_address mode" "fb_write_char_depth dev1 = depth mode"
    "pixel (foreground dev1) = fb_get_pixel_color mode 0xFF 0xFF 0xFF" "pixel (background dev1) = 0"
    by (simp_all add: dev1_def fb_reset_foreground_color_def fb_reset_background_color_def)
  have c: "contig dev1 \<longleftrightarrow> unat (bytes_per_scanline mode) = unat (width mode) * (unat (depth mode) div 8)"
    using mode_bytes[OF dp] by (simp add: dev1_def fb_reset_foreground_color_def fb_reset_background_color_def CONTIG_SCANLINES_def word_unat_eq_iff)
  have "fb_geometry dev1"
    using assms(1) unfolding fb_geometry_def mode_ok_def Let_def lb_def bpp_def c
    by (simp only: fields mode_cells) (simp add: div_greater_zero_iff div_times_less_eq_dividend)
  then have s: "fb_shows font dev m' term_blank" "same_screen dev1 dev" using fb_clear_buffers_shows[OF _ clear] by blast+
  then show "fb_shows font dev m' term_blank" by blast
  show "cur_mode dev = mode" "unat (max_width dev) = unat (width mode) div 8"
    "mh dev = unat (height mode) div 13" "back_buffer dev = block" "front_buffer dev = lfb_address mode"
    "pixel (foreground dev) = fb_get_pixel_color mode 0xFF 0xFF 0xFF" "pixel (background dev) = 0"
    using s(2) fields mode_cells by (simp_all add: same_screen_def)
qed

end
