(* ===== verification/Framebuffer_Properties.thy ===== *)
theory Framebuffer_Properties
  imports Framebuffer_Terminal
begin

text \<open>The properties of the frame buffer console.\<close>

section \<open>Sessions\<close>

text \<open>Calls of \<open>fb_write\<close> one after the other.\<close>

fun fb_writes :: "(nat \<Rightarrow> u8) \<Rightarrow> fb_dev \<Rightarrow> u8 list list \<Rightarrow> bytes \<Rightarrow> (fb_dev \<times> bytes) outcome" where
  "fb_writes font dev [] m = Inr (dev, m)"
| "fb_writes font dev (tx # texts) m = andthen (fb_write font dev tx m) (\<lambda>(dev, m). fb_writes font dev texts m)"

lemma fb_writes_shows:
  "fb_shows font dev m t \<Longrightarrow> front_shows font dev m t 0 \<Longrightarrow>
    \<exists>dev' m'. fb_writes font dev texts m = Inr (dev', m') \<and> same_screen dev dev' \<and>
      fb_shows font dev' m' (term_write (unat (max_width dev)) (mh dev) (concat texts) t) \<and>
      front_shows font dev' m' (term_write (unat (max_width dev)) (mh dev) (concat texts) t) 0"
proof (induction texts arbitrary: dev m t)
  case Nil
  then show ?case by (simp add: term_write_def)
next
  case (Cons tx texts)
  let ?W = "unat (max_width dev)" and ?H = "mh dev"
  from fb_write_shows[OF Cons.prems(1), of tx] obtain dev1 m1 where s1: "fb_write font dev tx m = Inr (dev1, m1)" "same_screen dev dev1"
    "fb_shows font dev1 m1 (term_write ?W ?H tx t)" "front_shows font dev1 m1 (term_write ?W ?H tx t) 0" by blast
  from Cons.IH[OF s1(3,4)] obtain dev2 m2 where s2: "fb_writes font dev1 texts m1 = Inr (dev2, m2)" "same_screen dev1 dev2"
    "fb_shows font dev2 m2 (term_write (unat (max_width dev1)) (mh dev1) (concat texts) (term_write ?W ?H tx t))"
    "front_shows font dev2 m2 (term_write (unat (max_width dev1)) (mh dev1) (concat texts) (term_write ?W ?H tx t)) 0" by blast
  then show ?case using s1 same_screen_eqs(1,10)[OF s1(2)] same_screen_trans[OF s1(2) s2(2)] by (simp add: term_write_def)
qed

lemma fb_shows_clear: "fb_shows font dev m t \<Longrightarrow> front_dirty_end dev = 0 \<Longrightarrow> front_shows font dev m t 0"
  by (simp add: fb_shows_def)

lemma fb_clear_buffers_clean: "front_dirty_end (fst (fb_clear_buffers dev m)) = 0"
  by (simp add: fb_clear_buffers_def Let_def)

lemma fb_init_clean: "fb_init block dev0 mode m = (dev, m') \<Longrightarrow> front_dirty_end dev = 0"
  unfolding fb_init_def Let_def by (metis fb_clear_buffers_clean fst_conv)

text \<open>A small mode with two lines of two characters, and a device.\<close>

definition small_mode :: mode_info where
  "small_mode = \<lparr>mode_identifier = 0, mode_type = 0, mode_attributes = 0, width = 16, height = 26, width_of_char_cell = 8,
     height_of_char_cell = 13, depth = 8, bytes_per_scanline = 20, red_mask_size = 3, red_field_pos = 5, green_mask_size = 3,
     green_field_pos = 2, blue_mask_size = 2, blue_field_pos = 0, reserved_mask_size = 0, reserved_field_pos = 0,
     lfb_address = 0x100000, max_pixel_clock = 0\<rparr>"

definition small_dev :: fb_dev where
  "small_dev = \<lparr>cur_mode = small_mode, max_width = 2, max_height = 2, cur_x = 1, cur_y = 1, back_buffer = 0x1000,
     front_buffer = 0x100000, back_buffer_start = 1, front_dirty_start = 0, front_dirty_end = 2, flags = 0,
     foreground = \<lparr>red = 0xFF, green = 0xFF, blue = 0xFF, pixel = 0xFF\<rparr>,
     background = \<lparr>red = 0, green = 0, blue = 0, pixel = 0\<rparr>, fb_write_char_depth = 8\<rparr>"

section \<open>Properties\<close>

text \<open>C9. The console implements a text terminal: after \<open>fb_init\<close> with a mode it supports, any sequence of
  calls of \<open>fb_write\<close> succeeds and leaves in the frame buffer exactly the pixels of the grid of
  characters that a terminal with line feed, carriage return, tabs, wrapping and scrolling shows.\<close>

theorem fb_console_refines_terminal:
  assumes "mode_ok block mode" "fb_init block dev0 mode m0 = (dev, m)"
  shows "\<exists>dev' m'. fb_writes font dev texts m = Inr (dev', m') \<and>
    (\<forall>q < unat (height mode) div 13 * 13. \<forall>k < unat (width mode) * (unat (depth mode) div 8).
       m' (lfb_address mode + of_nat (q * unat (bytes_per_scanline mode) + k)) =
       screen_byte font dev (term_write (unat (width mode) div 8) (unat (height mode) div 13) (concat texts) term_blank) q k)"
proof -
  note i = fb_init_shows[OF assms]
  note c = fb_shows_clear[OF i(1)[of font] fb_init_clean[OF assms(2)]]
  from fb_writes_shows[OF i(1)[of font] c, of texts] obtain dev' m' where s: "fb_writes font dev texts m = Inr (dev', m')" "same_screen dev dev'"
    "front_shows font dev' m' (term_write (unat (max_width dev)) (mh dev) (concat texts) term_blank) 0" by blast
  then show ?thesis using i(2-6) same_screen_eqs[OF s(2)]
    by (auto simp: front_shows_def front_at_def lb_def bpp_def)
qed

theorem fb_console_refines_terminal_witness:
  "\<exists>dev m dev' m'. fb_init 0x1000 small_dev small_mode (\<lambda>_. 0) = (dev, m) \<and>
    fb_writes (\<lambda>_. 0xFF) dev [[0x41, 0x0A], [0x42]] m = Inr (dev', m') \<and>
    (\<forall>q < 26. \<forall>k < 16. m' (0x100000 + of_nat (q * 20 + k)) =
       screen_byte (\<lambda>_. 0xFF) dev (term_write 2 2 [0x41, 0x0A, 0x42] term_blank) q k)"
proof -
  have ok: "mode_ok 0x1000 small_mode" by (simp add: mode_ok_def small_mode_def)
  obtain dev m where i: "fb_init 0x1000 small_dev small_mode (\<lambda>_. 0) = (dev, m)" by (cases "fb_init 0x1000 small_dev small_mode (\<lambda>_. 0)")
  from fb_console_refines_terminal[OF ok i, of "\<lambda>_. 0xFF" "[[0x41, 0x0A], [0x42]]"] i show ?thesis by (auto simp: small_mode_def)
qed

text \<open>C10. \<open>fb_render\<close> copies the circular back buffer to the screen: under the invariant of the console every
  dirty scanline of the frame buffer becomes the scanline of the back buffer it stands for, with and
  without gaps between the scanlines and on both sides of the wrap, and all other memory stays.\<close>

theorem fb_render_copies_dirty_lines:
  assumes "fb_ok dev"
  shows "(\<forall>q k. q < 13 * unat (front_dirty_end dev) \<and> k < lb dev \<longrightarrow>
      fb_render dev m (front_at dev q k) = m (back_at dev ((q + 13 * unat (back_buffer_start dev)) mod (13 * unat (max_height dev))) k)) \<and>
    (\<forall>y. (\<nexists>q k. q < 13 * unat (front_dirty_end dev) \<and> k < lb dev \<and> y = front_at dev q k) \<longrightarrow> fb_render dev m y = m y)"
proof (intro conjI allI impI)
  note g = fb_okD(1)[OF assms]
  have used: "q < unat (height (cur_mode dev))" "k < pitch dev" if "q < 13 * unat (front_dirty_end dev)" "k < lb dev" for q k
    using that fb_okD(6)[OF assms] rows_used[OF g, of q] geometryD(7)[OF g] by auto
  show "fb_render dev m (front_at dev q k) = m (back_at dev ((q + 13 * unat (back_buffer_start dev)) mod (13 * unat (max_height dev))) k)"
    if "q < 13 * unat (front_dirty_end dev) \<and> k < lb dev" for q k
    using that used[of q k] fb_render_at[OF assms, of q k m] by (simp add: circ_def mult.commute)
  fix y assume y: "\<nexists>q k. q < 13 * unat (front_dirty_end dev) \<and> k < lb dev \<and> y = front_at dev q k"
  show "fb_render dev m y = m y"
  proof (cases "y \<in> front_region dev")
    case True
    then obtain q k where "y = front_at dev q k" "q < unat (height (cur_mode dev))" "k < pitch dev" by (auto simp: front_region_def)
    then show ?thesis using y fb_render_at[OF assms, of q k m] by auto
  qed (rule fb_render_other[OF assms])
qed

theorem fb_render_copies_dirty_lines_witness:
  "fb_ok small_dev \<and> fb_render small_dev (\<lambda>a. if a = 0x1105 then 7 else 0) (front_at small_dev 3 5) = 7"
proof -
  have ok: "fb_ok small_dev"
    by (simp add: fb_ok_def fb_geometry_def small_dev_def small_mode_def lb_def bpp_def CONTIG_SCANLINES_def)
  have "back_at small_dev 16 5 = 0x1105" by (simp add: back_at_def lb_def bpp_def small_dev_def small_mode_def)
  then show ?thesis
    using ok fb_render_copies_dirty_lines[OF ok, of "\<lambda>a. if a = 0x1105 then 7 else 0", THEN conjunct1, rule_format, of 3 5]
    by (simp add: small_dev_def small_mode_def lb_def bpp_def)
qed

end
