(* ===== verification/Queue_Memory.thy ===== *)
theory Queue_Memory
  imports Gandr_Prelude
begin

text \<open>
  The memory that the list and queue macros of \<^verbatim>\<open>include/gd_queue.h\<close> work on: pointers stored at
  addresses.  An element is its address; the member \<open>field\<close> that links it is at the offset \<open>off\<close>, its
  first pointer at \<open>off\<close> and its second, where it has one, at \<open>off + 8\<close>.  A dereference of the null
  pointer is a crash.
\<close>

type_synonym ptrs = "addr \<Rightarrow> addr"

text \<open>\<open>p->f\<close> as a value and as a destination; the offset 0 is that of \<open>*p\<close>.\<close>

definition getp :: "addr \<Rightarrow> u64 \<Rightarrow> ptrs \<Rightarrow> addr outcome" where
  "getp p f m = (if p = NULL then Inl Crash else Inr (m (p + f)))"

definition putp :: "addr \<Rightarrow> u64 \<Rightarrow> addr \<Rightarrow> ptrs \<Rightarrow> ptrs outcome" where
  "putp p f v m = (if p = NULL then Inl Crash else Inr (m(p + f := v)))"

lemma getp_simps [simp]: "getp NULL f m = Inl Crash" "p \<noteq> NULL \<Longrightarrow> getp p f m = Inr (m (p + f))"
  by (simp_all add: getp_def)

lemma putp_simps [simp]: "putp NULL f v m = Inl Crash" "p \<noteq> NULL \<Longrightarrow> putp p f v m = Inr (m(p + f := v))"
  by (simp_all add: putp_def)

section \<open>Loops over the elements\<close>

text \<open>
  The two shapes of the \<open>FOREACH\<close> macros: the plain one steps after the body, the safe one reads the
  next element before it.  The state is the memory with data of the caller; a loop that does not end
  is \<open>None\<close>.
\<close>

partial_function (option) for_each ::
  "addr \<Rightarrow> (addr \<Rightarrow> ptrs \<Rightarrow> addr outcome) \<Rightarrow> (addr \<Rightarrow> ptrs \<times> 's \<Rightarrow> (ptrs \<times> 's) outcome) \<Rightarrow> addr \<Rightarrow> ptrs \<times> 's \<Rightarrow> (ptrs \<times> 's) outcome option" where
  "for_each fin step body v st =
     (if v = fin then Some (Inr st)
      else case body v st of Inl e \<Rightarrow> Some (Inl e)
        | Inr st' \<Rightarrow> (case step v (fst st') of Inl e \<Rightarrow> Some (Inl e) | Inr v' \<Rightarrow> for_each fin step body v' st'))"

partial_function (option) for_each_safe ::
  "addr \<Rightarrow> (addr \<Rightarrow> ptrs \<Rightarrow> addr outcome) \<Rightarrow> (addr \<Rightarrow> ptrs \<times> 's \<Rightarrow> (ptrs \<times> 's) outcome) \<Rightarrow> addr \<Rightarrow> ptrs \<times> 's \<Rightarrow> (ptrs \<times> 's) outcome option" where
  "for_each_safe fin step body v st =
     (if v = fin then Some (Inr st)
      else case step v (fst st) of Inl e \<Rightarrow> Some (Inl e)
        | Inr v' \<Rightarrow> (case body v st of Inl e \<Rightarrow> Some (Inl e) | Inr st' \<Rightarrow> for_each_safe fin step body v' st'))"

definition from_first :: "('a \<Rightarrow> 'b outcome option) \<Rightarrow> 'a outcome \<Rightarrow> 'b outcome option" where
  "from_first loop v = (case v of Inl e \<Rightarrow> Some (Inl e) | Inr x \<Rightarrow> loop x)"

text \<open>A body that leaves the memory alone and records the element it is called for.\<close>

definition record_elm :: "addr \<Rightarrow> ptrs \<times> addr list \<Rightarrow> (ptrs \<times> addr list) outcome" where
  "record_elm v = (\<lambda>(m, seen). Inr (m, seen @ [v]))"

lemma fold_record: "fold (\<lambda>v s. s @ [v]) vs s = s @ vs"
  by (induction vs arbitrary: s) simp_all

section \<open>Layout\<close>

text \<open>The cells that a head of \<open>n\<close> pointers takes, and the layouts in which nothing overlaps.\<close>

definition head_cells :: "addr \<Rightarrow> addr set" where
  "head_cells h = {h, h + 8, h + 16}"

definition no_overlap :: "u64 \<Rightarrow> addr \<Rightarrow> addr set \<Rightarrow> bool" where
  "no_overlap off h S \<longleftrightarrow> h \<noteq> NULL \<and> (\<forall>x \<in> S. x \<noteq> NULL \<and> x \<noteq> h \<and> x + off \<noteq> NULL \<and> x + off \<notin> head_cells h \<and> x + off + 8 \<notin> head_cells h) \<and>
     (\<forall>x \<in> S. \<forall>y \<in> S. x + off \<noteq> y + off + 8)"

lemma no_overlap_subset: "no_overlap off h S \<Longrightarrow> T \<subseteq> S \<Longrightarrow> no_overlap off h T"
  by (auto simp: no_overlap_def)

lemma no_overlap_head: "no_overlap off h S \<Longrightarrow> h \<noteq> NULL"
  by (simp add: no_overlap_def)

lemma no_overlap_cells:
  assumes "no_overlap off h S" "x \<in> S"
  shows "x \<noteq> NULL" "x \<noteq> h" "h \<noteq> NULL" "x + off \<noteq> NULL" "h \<noteq> x + off" "h + 8 \<noteq> x + off" "h + 16 \<noteq> x + off"
    "x + off \<noteq> h" "x + off \<noteq> h + 8" "x + off \<noteq> h + 16" "x + off + 8 \<noteq> h" "x + off + 8 \<noteq> h + 8" "x + off + 8 \<noteq> h + 16"
    "h \<noteq> x + off + 8" "h + 8 \<noteq> x + off + 8" "h + 16 \<noteq> x + off + 8"
  using assms unfolding no_overlap_def head_cells_def by (metis insertCI)+

lemma no_overlap_links:
  "no_overlap off h S \<Longrightarrow> x \<in> S \<Longrightarrow> y \<in> S \<Longrightarrow> x + off \<noteq> y + off + 8 \<and> y + off + 8 \<noteq> x + off"
  unfolding no_overlap_def by metis

section \<open>Sequences of operations\<close>

text \<open>An operation on each of several elements, and the removal of \<open>n\<close> elements from the front.\<close>

fun run_all :: "(addr \<Rightarrow> ptrs \<Rightarrow> ptrs outcome) \<Rightarrow> addr list \<Rightarrow> ptrs \<Rightarrow> ptrs outcome" where
  "run_all f [] m = Inr m"
| "run_all f (e # es) m = andthen (f e m) (run_all f es)"

fun drain :: "(ptrs \<Rightarrow> addr outcome) \<Rightarrow> (ptrs \<Rightarrow> ptrs outcome) \<Rightarrow> nat \<Rightarrow> ptrs \<Rightarrow> (addr list \<times> ptrs) outcome" where
  "drain first remove 0 m = Inr ([], m)"
| "drain first remove (Suc n) m = andthen (first m) (\<lambda>x. andthen (remove m) (\<lambda>m.
     andthen (drain first remove n m) (\<lambda>(xs, m). Inr (x # xs, m))))"

section \<open>Contracts\<close>

text \<open>
  What the macros promise: \<open>rep m h xs\<close> says that the structure at \<open>h\<close> holds the elements \<open>xs\<close> in this
  order, \<open>room h S\<close> that the elements \<open>S\<close> may be linked there together.
\<close>

locale link_list =
  fixes rep :: "ptrs \<Rightarrow> addr \<Rightarrow> addr list \<Rightarrow> bool"
    and room :: "addr \<Rightarrow> addr set \<Rightarrow> bool"
    and insert_head :: "addr \<Rightarrow> addr \<Rightarrow> ptrs \<Rightarrow> ptrs outcome"
    and is_empty :: "addr \<Rightarrow> ptrs \<Rightarrow> bool outcome"
    and first :: "addr \<Rightarrow> ptrs \<Rightarrow> addr outcome"
    and step :: "addr \<Rightarrow> addr \<Rightarrow> ptrs \<Rightarrow> addr outcome"
    and fin :: "addr \<Rightarrow> addr"
  assumes room_subset: "room h S \<Longrightarrow> T \<subseteq> S \<Longrightarrow> room h T"
    and rep_distinct: "rep m h xs \<Longrightarrow> distinct xs"
    and rep_insert_head: "rep m h xs \<Longrightarrow> room h (insert e (set xs)) \<Longrightarrow> e \<notin> set xs \<Longrightarrow>
      \<exists>m'. insert_head h e m = Inr m' \<and> rep m' h (e # xs)"
    and rep_empty: "rep m h xs \<Longrightarrow> is_empty h m = Inr (xs = [])"
    and rep_first: "rep m h xs \<Longrightarrow> first h m = Inr (case xs of [] \<Rightarrow> fin h | x # _ \<Rightarrow> x)"
    and rep_step: "rep m h (xs @ x # ys) \<Longrightarrow> step h x m = Inr (case ys of [] \<Rightarrow> fin h | y # _ \<Rightarrow> y)"
    and rep_not_fin: "rep m h xs \<Longrightarrow> fin h \<notin> set xs"
begin

text \<open>Elements pushed one after the other.\<close>

lemma insert_heads_rep:
  "rep m h xs \<Longrightarrow> room h (set es \<union> set xs) \<Longrightarrow> distinct es \<Longrightarrow> set es \<inter> set xs = {} \<Longrightarrow>
    \<exists>m'. run_all (insert_head h) es m = Inr m' \<and> rep m' h (rev es @ xs)"
proof (induction es arbitrary: m xs)
  case (Cons e es)
  have "room h (insert e (set xs))" by (rule room_subset[OF Cons.prems(2)]) auto
  with rep_insert_head[OF Cons.prems(1)] Cons.prems(4) obtain m1 where m1: "insert_head h e m = Inr m1" "rep m1 h (e # xs)" by auto
  moreover have "room h (set es \<union> set (e # xs))" by (rule room_subset[OF Cons.prems(2)]) auto
  ultimately obtain m2 where "run_all (insert_head h) es m1 = Inr m2" "rep m2 h (rev es @ e # xs)" using Cons by fastforce
  then show ?case using m1 by auto
qed simp

text \<open>A loop whose body leaves the structure alone meets every element once, in order, and ends.\<close>

lemma for_each_visits:
  assumes "\<And>v m s. rep m h xs \<Longrightarrow> v \<in> set xs \<Longrightarrow> \<exists>m' . body v (m, s) = Inr (m', f v s) \<and> rep m' h xs"
  shows "rep m h xs \<Longrightarrow> xs = us @ vs \<Longrightarrow>
    \<exists>m'. for_each (fin h) (step h) body (case vs of [] \<Rightarrow> fin h | v # _ \<Rightarrow> v) (m, s) = Some (Inr (m', fold f vs s)) \<and> rep m' h xs"
proof (induction vs arbitrary: us m s)
  case Nil
  then show ?case by (subst for_each.simps) simp
next
  case (Cons v vs)
  then have v: "v \<in> set xs" "v \<noteq> fin h" using rep_not_fin by fastforce+
  obtain m1 where m1: "body v (m, s) = Inr (m1, f v s)" "rep m1 h xs" using assms[OF Cons.prems(1) v(1)] by blast
  have "step h v m1 = Inr (case vs of [] \<Rightarrow> fin h | y # _ \<Rightarrow> y)" using rep_step[of m1 h us v vs] m1(2) Cons.prems(2) by simp
  then show ?case using Cons.IH[OF m1(2), of "us @ [v]" "f v s"] Cons.prems(2) v(2) m1(1) by (subst for_each.simps) simp
qed

lemma record_visits:
  assumes "rep m h xs"
  shows "\<exists>m'. from_first (\<lambda>v. for_each (fin h) (step h) record_elm v (m, [])) (first h m) = Some (Inr (m', xs))"
  using for_each_visits[of h xs record_elm "\<lambda>v s. s @ [v]" m "[]" xs "[]"] rep_first[OF assms] assms
  by (auto simp: record_elm_def fold_record from_first_def)

end

text \<open>Queues add elements at the end and take them from the front.\<close>

locale link_queue = link_list +
  fixes insert_tail :: "addr \<Rightarrow> addr \<Rightarrow> ptrs \<Rightarrow> ptrs outcome"
    and remove_head :: "addr \<Rightarrow> ptrs \<Rightarrow> ptrs outcome"
  assumes rep_insert_tail: "rep m h xs \<Longrightarrow> room h (insert e (set xs)) \<Longrightarrow> e \<notin> set xs \<Longrightarrow>
      \<exists>m'. insert_tail h e m = Inr m' \<and> rep m' h (xs @ [e])"
    and rep_remove_head: "rep m h (x # xs) \<Longrightarrow> \<exists>m'. remove_head h m = Inr m' \<and> rep m' h xs"
begin

lemma enqueue_all_rep:
  "rep m h xs \<Longrightarrow> room h (set es \<union> set xs) \<Longrightarrow> distinct es \<Longrightarrow> set es \<inter> set xs = {} \<Longrightarrow>
    \<exists>m'. run_all (insert_tail h) es m = Inr m' \<and> rep m' h (xs @ es)"
proof (induction es arbitrary: m xs)
  case (Cons e es)
  have "room h (insert e (set xs))" by (rule room_subset[OF Cons.prems(2)]) auto
  with rep_insert_tail[OF Cons.prems(1)] Cons.prems(4) obtain m1 where m1: "insert_tail h e m = Inr m1" "rep m1 h (xs @ [e])" by auto
  moreover have "room h (set es \<union> set (xs @ [e]))" by (rule room_subset[OF Cons.prems(2)]) auto
  ultimately obtain m2 where "run_all (insert_tail h) es m1 = Inr m2" "rep m2 h (xs @ e # es)" using Cons by fastforce
  then show ?case using m1 by auto
qed simp

lemma dequeue_all_rep:
  "rep m h (xs @ ys) \<Longrightarrow> \<exists>m'. drain (first h) (remove_head h) (length xs) m = Inr (xs, m') \<and> rep m' h ys"
proof (induction xs arbitrary: m)
  case (Cons x xs)
  then obtain m1 where "remove_head h m = Inr m1" "rep m1 h (xs @ ys)" using rep_remove_head[of m h x "xs @ ys"] by auto
  then show ?case using Cons rep_first[OF Cons.prems] by fastforce
qed simp

text \<open>First in, first out.\<close>

lemma fifo:
  assumes "rep m h []" "room h (set es)" "distinct es"
  shows "\<exists>m' m''. run_all (insert_tail h) es m = Inr m' \<and> rep m' h es \<and> drain (first h) (remove_head h) (length es) m' = Inr (es, m'') \<and> rep m'' h []"
  using enqueue_all_rep[OF assms(1), of es] dequeue_all_rep[of _ h es "[]"] assms by fastforce

end

end
