(* ===== verification/Queue.thy ===== *)
theory Queue
  imports Queue_Memory
begin

text \<open>
  The macros of \<^verbatim>\<open>include/gd_queue.h\<close>: singly-linked lists, lists, simple queues, XOR simple queues, tail
  queues and circular queues.  Each macro that changes a structure is a function from the memory to
  the memory after it; \<open>off\<close> is the offset of the member \<open>field\<close> in the elements.  \<open>_Q_INVALIDATE\<close> is
  empty, as it is without \<open>QUEUE_MACRO_DEBUG\<close>.
\<close>

section \<open>Singly-linked lists\<close>

definition SLIST_FIRST :: "addr \<Rightarrow> ptrs \<Rightarrow> addr outcome" where
  "SLIST_FIRST head m = getp head 0 m"

definition SLIST_END :: "addr \<Rightarrow> addr" where
  "SLIST_END head = NULL"

definition SLIST_EMPTY :: "addr \<Rightarrow> ptrs \<Rightarrow> bool outcome" where
  "SLIST_EMPTY head m = andthen (SLIST_FIRST head m) (\<lambda>v. Inr (v = SLIST_END head))"

definition SLIST_NEXT :: "u64 \<Rightarrow> addr \<Rightarrow> ptrs \<Rightarrow> addr outcome" where
  "SLIST_NEXT off elm m = getp elm off m"

definition SLIST_FOREACH where
  "SLIST_FOREACH off head body st =
     from_first (\<lambda>v. for_each (SLIST_END head) (SLIST_NEXT off) body v st) (SLIST_FIRST head (fst st))"

definition SLIST_FOREACH_SAFE where
  "SLIST_FOREACH_SAFE off head body st =
     from_first (\<lambda>v. for_each_safe NULL (SLIST_NEXT off) body v st) (SLIST_FIRST head (fst st))"

definition SLIST_INIT :: "addr \<Rightarrow> ptrs \<Rightarrow> ptrs outcome" where
  "SLIST_INIT head = putp head 0 (SLIST_END head)"

definition SLIST_INSERT_AFTER :: "u64 \<Rightarrow> addr \<Rightarrow> addr \<Rightarrow> ptrs \<Rightarrow> ptrs outcome" where
  "SLIST_INSERT_AFTER off slistelm elm m =
     andthen (getp slistelm off m) (\<lambda>n. andthen (putp elm off n m) (putp slistelm off elm))"

definition SLIST_INSERT_HEAD :: "u64 \<Rightarrow> addr \<Rightarrow> addr \<Rightarrow> ptrs \<Rightarrow> ptrs outcome" where
  "SLIST_INSERT_HEAD off head elm m =
     andthen (getp head 0 m) (\<lambda>f. andthen (putp elm off f m) (putp head 0 elm))"

definition SLIST_REMOVE_AFTER :: "u64 \<Rightarrow> addr \<Rightarrow> ptrs \<Rightarrow> ptrs outcome" where
  "SLIST_REMOVE_AFTER off elm m =
     andthen (getp elm off m) (\<lambda>n. andthen (getp n off m) (\<lambda>nn. putp elm off nn m))"

definition SLIST_REMOVE_HEAD :: "u64 \<Rightarrow> addr \<Rightarrow> ptrs \<Rightarrow> ptrs outcome" where
  "SLIST_REMOVE_HEAD off head m =
     andthen (getp head 0 m) (\<lambda>f. andthen (getp f off m) (\<lambda>n. putp head 0 n m))"

text \<open>The search for the predecessor, which runs for ever on a cyclic list without the element.\<close>

partial_function (option) find_pred :: "u64 \<Rightarrow> addr \<Rightarrow> addr \<Rightarrow> ptrs \<Rightarrow> addr outcome option" where
  "find_pred off elm curelm m =
     (case getp curelm off m of Inl e \<Rightarrow> Some (Inl e)
      | Inr n \<Rightarrow> (if n \<noteq> elm then find_pred off elm n m else Some (Inr curelm)))"

definition SLIST_REMOVE :: "u64 \<Rightarrow> addr \<Rightarrow> addr \<Rightarrow> ptrs \<Rightarrow> ptrs outcome option" where
  "SLIST_REMOVE off head elm m =
     (case getp head 0 m of Inl e \<Rightarrow> Some (Inl e)
      | Inr f \<Rightarrow> (if f = elm then Some (SLIST_REMOVE_HEAD off head m)
          else case find_pred off elm f m of None \<Rightarrow> None | Some (Inl e) \<Rightarrow> Some (Inl e)
            | Some (Inr cur) \<Rightarrow> Some (andthen (getp cur off m) (\<lambda>n. andthen (getp n off m) (\<lambda>nn. putp cur off nn m)))))"

section \<open>Lists\<close>

definition LIST_FIRST :: "addr \<Rightarrow> ptrs \<Rightarrow> addr outcome" where
  "LIST_FIRST head m = getp head 0 m"

definition LIST_END :: "addr \<Rightarrow> addr" where
  "LIST_END head = NULL"

definition LIST_EMPTY :: "addr \<Rightarrow> ptrs \<Rightarrow> bool outcome" where
  "LIST_EMPTY head m = andthen (LIST_FIRST head m) (\<lambda>v. Inr (v = LIST_END head))"

definition LIST_NEXT :: "u64 \<Rightarrow> addr \<Rightarrow> ptrs \<Rightarrow> addr outcome" where
  "LIST_NEXT off elm m = getp elm off m"

definition LIST_FOREACH where
  "LIST_FOREACH off head body st =
     from_first (\<lambda>v. for_each (LIST_END head) (LIST_NEXT off) body v st) (LIST_FIRST head (fst st))"

definition LIST_FOREACH_SAFE where
  "LIST_FOREACH_SAFE off head body st =
     from_first (\<lambda>v. for_each_safe NULL (LIST_NEXT off) body v st) (LIST_FIRST head (fst st))"

definition LIST_INIT :: "addr \<Rightarrow> ptrs \<Rightarrow> ptrs outcome" where
  "LIST_INIT head = putp head 0 (LIST_END head)"

definition LIST_INSERT_AFTER :: "u64 \<Rightarrow> addr \<Rightarrow> addr \<Rightarrow> ptrs \<Rightarrow> ptrs outcome" where
  "LIST_INSERT_AFTER off listelm elm m =
     andthen (getp listelm off m) (\<lambda>n. andthen (putp elm off n m) (\<lambda>m.
     andthen (if n \<noteq> NULL then andthen (getp listelm off m) (\<lambda>n. putp n (off + 8) (elm + off) m) else Inr m) (\<lambda>m.
     andthen (putp listelm off elm m) (putp elm (off + 8) (listelm + off)))))"

definition LIST_INSERT_BEFORE :: "u64 \<Rightarrow> addr \<Rightarrow> addr \<Rightarrow> ptrs \<Rightarrow> ptrs outcome" where
  "LIST_INSERT_BEFORE off listelm elm m =
     andthen (getp listelm (off + 8) m) (\<lambda>p. andthen (putp elm (off + 8) p m) (\<lambda>m.
     andthen (putp elm off listelm m) (\<lambda>m. andthen (getp listelm (off + 8) m) (\<lambda>p.
     andthen (putp p 0 elm m) (putp listelm (off + 8) (elm + off))))))"

definition LIST_INSERT_HEAD :: "u64 \<Rightarrow> addr \<Rightarrow> addr \<Rightarrow> ptrs \<Rightarrow> ptrs outcome" where
  "LIST_INSERT_HEAD off head elm m =
     andthen (getp head 0 m) (\<lambda>f. andthen (putp elm off f m) (\<lambda>m.
     andthen (if f \<noteq> NULL then andthen (getp head 0 m) (\<lambda>f. putp f (off + 8) (elm + off) m) else Inr m) (\<lambda>m.
     andthen (putp head 0 elm m) (putp elm (off + 8) head))))"

definition LIST_REMOVE :: "u64 \<Rightarrow> addr \<Rightarrow> ptrs \<Rightarrow> ptrs outcome" where
  "LIST_REMOVE off elm m =
     andthen (getp elm off m) (\<lambda>n.
     andthen (if n \<noteq> NULL then andthen (getp elm (off + 8) m) (\<lambda>p. putp n (off + 8) p m) else Inr m) (\<lambda>m.
     andthen (getp elm (off + 8) m) (\<lambda>p. andthen (getp elm off m) (\<lambda>n. putp p 0 n m))))"

definition LIST_REPLACE :: "u64 \<Rightarrow> addr \<Rightarrow> addr \<Rightarrow> ptrs \<Rightarrow> ptrs outcome" where
  "LIST_REPLACE off elm elm2 m =
     andthen (getp elm off m) (\<lambda>n. andthen (putp elm2 off n m) (\<lambda>m.
     andthen (if n \<noteq> NULL then andthen (getp elm2 off m) (\<lambda>n. putp n (off + 8) (elm2 + off) m) else Inr m) (\<lambda>m.
     andthen (getp elm (off + 8) m) (\<lambda>p. andthen (putp elm2 (off + 8) p m) (\<lambda>m.
     andthen (getp elm2 (off + 8) m) (\<lambda>p. putp p 0 elm2 m))))))"

section \<open>Simple queues\<close>

definition SIMPLEQ_FIRST :: "addr \<Rightarrow> ptrs \<Rightarrow> addr outcome" where
  "SIMPLEQ_FIRST head m = getp head 0 m"

definition SIMPLEQ_END :: "addr \<Rightarrow> addr" where
  "SIMPLEQ_END head = NULL"

definition SIMPLEQ_EMPTY :: "addr \<Rightarrow> ptrs \<Rightarrow> bool outcome" where
  "SIMPLEQ_EMPTY head m = andthen (SIMPLEQ_FIRST head m) (\<lambda>v. Inr (v = SIMPLEQ_END head))"

definition SIMPLEQ_NEXT :: "u64 \<Rightarrow> addr \<Rightarrow> ptrs \<Rightarrow> addr outcome" where
  "SIMPLEQ_NEXT off elm m = getp elm off m"

definition SIMPLEQ_FOREACH where
  "SIMPLEQ_FOREACH off head body st =
     from_first (\<lambda>v. for_each (SIMPLEQ_END head) (SIMPLEQ_NEXT off) body v st) (SIMPLEQ_FIRST head (fst st))"

definition SIMPLEQ_FOREACH_SAFE where
  "SIMPLEQ_FOREACH_SAFE off head body st =
     from_first (\<lambda>v. for_each_safe NULL (SIMPLEQ_NEXT off) body v st) (SIMPLEQ_FIRST head (fst st))"

definition SIMPLEQ_INIT :: "addr \<Rightarrow> ptrs \<Rightarrow> ptrs outcome" where
  "SIMPLEQ_INIT head m = andthen (putp head 0 NULL m) (putp head 8 head)"

definition SIMPLEQ_INSERT_HEAD :: "u64 \<Rightarrow> addr \<Rightarrow> addr \<Rightarrow> ptrs \<Rightarrow> ptrs outcome" where
  "SIMPLEQ_INSERT_HEAD off head elm m =
     andthen (getp head 0 m) (\<lambda>f. andthen (putp elm off f m) (\<lambda>m.
     andthen (if f = NULL then putp head 8 (elm + off) m else Inr m) (putp head 0 elm)))"

definition SIMPLEQ_INSERT_TAIL :: "u64 \<Rightarrow> addr \<Rightarrow> addr \<Rightarrow> ptrs \<Rightarrow> ptrs outcome" where
  "SIMPLEQ_INSERT_TAIL off head elm m =
     andthen (putp elm off NULL m) (\<lambda>m. andthen (getp head 8 m) (\<lambda>l.
     andthen (putp l 0 elm m) (putp head 8 (elm + off))))"

definition SIMPLEQ_INSERT_AFTER :: "u64 \<Rightarrow> addr \<Rightarrow> addr \<Rightarrow> addr \<Rightarrow> ptrs \<Rightarrow> ptrs outcome" where
  "SIMPLEQ_INSERT_AFTER off head listelm elm m =
     andthen (getp listelm off m) (\<lambda>n. andthen (putp elm off n m) (\<lambda>m.
     andthen (if n = NULL then putp head 8 (elm + off) m else Inr m) (putp listelm off elm)))"

definition SIMPLEQ_REMOVE_HEAD :: "u64 \<Rightarrow> addr \<Rightarrow> ptrs \<Rightarrow> ptrs outcome" where
  "SIMPLEQ_REMOVE_HEAD off head m =
     andthen (getp head 0 m) (\<lambda>f. andthen (getp f off m) (\<lambda>n. andthen (putp head 0 n m) (\<lambda>m.
     if n = NULL then putp head 8 head m else Inr m)))"

definition SIMPLEQ_REMOVE_AFTER :: "u64 \<Rightarrow> addr \<Rightarrow> addr \<Rightarrow> ptrs \<Rightarrow> ptrs outcome" where
  "SIMPLEQ_REMOVE_AFTER off head elm m =
     andthen (getp elm off m) (\<lambda>n. andthen (getp n off m) (\<lambda>nn. andthen (putp elm off nn m) (\<lambda>m.
     if nn = NULL then putp head 8 (elm + off) m else Inr m)))"

section \<open>XOR simple queues\<close>

text \<open>The pointers of the queue are stored combined with the cookie in its head.\<close>

definition XSIMPLEQ_XOR :: "addr \<Rightarrow> addr \<Rightarrow> ptrs \<Rightarrow> addr outcome" where
  "XSIMPLEQ_XOR head ptr m = andthen (getp head 16 m) (\<lambda>c. Inr (c XOR ptr))"

definition XSIMPLEQ_FIRST :: "addr \<Rightarrow> ptrs \<Rightarrow> addr outcome" where
  "XSIMPLEQ_FIRST head m = andthen (getp head 0 m) (\<lambda>f. XSIMPLEQ_XOR head f m)"

definition XSIMPLEQ_END :: "addr \<Rightarrow> addr" where
  "XSIMPLEQ_END head = NULL"

definition XSIMPLEQ_EMPTY :: "addr \<Rightarrow> ptrs \<Rightarrow> bool outcome" where
  "XSIMPLEQ_EMPTY head m = andthen (XSIMPLEQ_FIRST head m) (\<lambda>v. Inr (v = XSIMPLEQ_END head))"

definition XSIMPLEQ_NEXT :: "u64 \<Rightarrow> addr \<Rightarrow> addr \<Rightarrow> ptrs \<Rightarrow> addr outcome" where
  "XSIMPLEQ_NEXT off head elm m = andthen (getp elm off m) (\<lambda>n. XSIMPLEQ_XOR head n m)"

definition XSIMPLEQ_FOREACH where
  "XSIMPLEQ_FOREACH off head body st =
     from_first (\<lambda>v. for_each (XSIMPLEQ_END head) (XSIMPLEQ_NEXT off head) body v st) (XSIMPLEQ_FIRST head (fst st))"

definition XSIMPLEQ_FOREACH_SAFE where
  "XSIMPLEQ_FOREACH_SAFE off head body st =
     from_first (\<lambda>v. for_each_safe NULL (XSIMPLEQ_NEXT off head) body v st) (XSIMPLEQ_FIRST head (fst st))"

text \<open>\<open>cookie\<close> is the number that \<open>arc4random_buf\<close> stores.\<close>

definition XSIMPLEQ_INIT :: "u64 \<Rightarrow> addr \<Rightarrow> ptrs \<Rightarrow> ptrs outcome" where
  "XSIMPLEQ_INIT cookie head m =
     andthen (putp head 16 cookie m) (\<lambda>m.
     andthen (XSIMPLEQ_XOR head NULL m) (\<lambda>x. andthen (putp head 0 x m) (\<lambda>m.
     andthen (XSIMPLEQ_XOR head head m) (\<lambda>x. putp head 8 x m))))"

definition XSIMPLEQ_INSERT_HEAD :: "u64 \<Rightarrow> addr \<Rightarrow> addr \<Rightarrow> ptrs \<Rightarrow> ptrs outcome" where
  "XSIMPLEQ_INSERT_HEAD off head elm m =
     andthen (getp head 0 m) (\<lambda>f. andthen (putp elm off f m) (\<lambda>m. andthen (XSIMPLEQ_XOR head NULL m) (\<lambda>z.
     andthen (if f = z then andthen (XSIMPLEQ_XOR head (elm + off) m) (\<lambda>x. putp head 8 x m) else Inr m) (\<lambda>m.
     andthen (XSIMPLEQ_XOR head elm m) (\<lambda>x. putp head 0 x m)))))"

definition XSIMPLEQ_INSERT_TAIL :: "u64 \<Rightarrow> addr \<Rightarrow> addr \<Rightarrow> ptrs \<Rightarrow> ptrs outcome" where
  "XSIMPLEQ_INSERT_TAIL off head elm m =
     andthen (XSIMPLEQ_XOR head NULL m) (\<lambda>z. andthen (putp elm off z m) (\<lambda>m.
     andthen (getp head 8 m) (\<lambda>l. andthen (XSIMPLEQ_XOR head l m) (\<lambda>l. andthen (XSIMPLEQ_XOR head elm m) (\<lambda>x.
     andthen (putp l 0 x m) (\<lambda>m. andthen (XSIMPLEQ_XOR head (elm + off) m) (\<lambda>x. putp head 8 x m)))))))"

definition XSIMPLEQ_INSERT_AFTER :: "u64 \<Rightarrow> addr \<Rightarrow> addr \<Rightarrow> addr \<Rightarrow> ptrs \<Rightarrow> ptrs outcome" where
  "XSIMPLEQ_INSERT_AFTER off head listelm elm m =
     andthen (getp listelm off m) (\<lambda>n. andthen (putp elm off n m) (\<lambda>m. andthen (XSIMPLEQ_XOR head NULL m) (\<lambda>z.
     andthen (if n = z then andthen (XSIMPLEQ_XOR head (elm + off) m) (\<lambda>x. putp head 8 x m) else Inr m) (\<lambda>m.
     andthen (XSIMPLEQ_XOR head elm m) (\<lambda>x. putp listelm off x m)))))"

definition XSIMPLEQ_REMOVE_HEAD :: "u64 \<Rightarrow> addr \<Rightarrow> ptrs \<Rightarrow> ptrs outcome" where
  "XSIMPLEQ_REMOVE_HEAD off head m =
     andthen (getp head 0 m) (\<lambda>f. andthen (XSIMPLEQ_XOR head f m) (\<lambda>f. andthen (getp f off m) (\<lambda>n.
     andthen (putp head 0 n m) (\<lambda>m. andthen (XSIMPLEQ_XOR head NULL m) (\<lambda>z.
     if n = z then andthen (XSIMPLEQ_XOR head head m) (\<lambda>x. putp head 8 x m) else Inr m)))))"

definition XSIMPLEQ_REMOVE_AFTER :: "u64 \<Rightarrow> addr \<Rightarrow> addr \<Rightarrow> ptrs \<Rightarrow> ptrs outcome" where
  "XSIMPLEQ_REMOVE_AFTER off head elm m =
     andthen (getp elm off m) (\<lambda>n. andthen (XSIMPLEQ_XOR head n m) (\<lambda>n. andthen (getp n off m) (\<lambda>nn.
     andthen (putp elm off nn m) (\<lambda>m. andthen (XSIMPLEQ_XOR head NULL m) (\<lambda>z.
     if nn = z then andthen (XSIMPLEQ_XOR head (elm + off) m) (\<lambda>x. putp head 8 x m) else Inr m)))))"

section \<open>Tail queues\<close>

definition TAILQ_FIRST :: "addr \<Rightarrow> ptrs \<Rightarrow> addr outcome" where
  "TAILQ_FIRST head m = getp head 0 m"

definition TAILQ_END :: "addr \<Rightarrow> addr" where
  "TAILQ_END head = NULL"

definition TAILQ_NEXT :: "u64 \<Rightarrow> addr \<Rightarrow> ptrs \<Rightarrow> addr outcome" where
  "TAILQ_NEXT off elm m = getp elm off m"

text \<open>The last element and the predecessor, read through a link taken for a head.\<close>

definition TAILQ_LAST :: "addr \<Rightarrow> ptrs \<Rightarrow> addr outcome" where
  "TAILQ_LAST head m = andthen (getp head 8 m) (\<lambda>l. andthen (getp l 8 m) (\<lambda>p. getp p 0 m))"

definition TAILQ_PREV :: "u64 \<Rightarrow> addr \<Rightarrow> ptrs \<Rightarrow> addr outcome" where
  "TAILQ_PREV off elm m = andthen (getp elm (off + 8) m) (\<lambda>p. andthen (getp p 8 m) (\<lambda>q. getp q 0 m))"

definition TAILQ_EMPTY :: "addr \<Rightarrow> ptrs \<Rightarrow> bool outcome" where
  "TAILQ_EMPTY head m = andthen (TAILQ_FIRST head m) (\<lambda>v. Inr (v = TAILQ_END head))"

definition TAILQ_FOREACH where
  "TAILQ_FOREACH off head body st =
     from_first (\<lambda>v. for_each (TAILQ_END head) (TAILQ_NEXT off) body v st) (TAILQ_FIRST head (fst st))"

definition TAILQ_FOREACH_SAFE where
  "TAILQ_FOREACH_SAFE off head body st =
     from_first (\<lambda>v. for_each_safe (TAILQ_END head) (TAILQ_NEXT off) body v st) (TAILQ_FIRST head (fst st))"

definition TAILQ_FOREACH_REVERSE where
  "TAILQ_FOREACH_REVERSE off head body st =
     from_first (\<lambda>v. for_each (TAILQ_END head) (TAILQ_PREV off) body v st) (TAILQ_LAST head (fst st))"

definition TAILQ_FOREACH_REVERSE_SAFE where
  "TAILQ_FOREACH_REVERSE_SAFE off head body st =
     from_first (\<lambda>v. for_each_safe (TAILQ_END head) (TAILQ_PREV off) body v st) (TAILQ_LAST head (fst st))"

definition TAILQ_INIT :: "addr \<Rightarrow> ptrs \<Rightarrow> ptrs outcome" where
  "TAILQ_INIT head m = andthen (putp head 0 NULL m) (putp head 8 head)"

definition TAILQ_INSERT_HEAD :: "u64 \<Rightarrow> addr \<Rightarrow> addr \<Rightarrow> ptrs \<Rightarrow> ptrs outcome" where
  "TAILQ_INSERT_HEAD off head elm m =
     andthen (getp head 0 m) (\<lambda>f. andthen (putp elm off f m) (\<lambda>m.
     andthen (if f \<noteq> NULL then andthen (getp head 0 m) (\<lambda>f. putp f (off + 8) (elm + off) m) else putp head 8 (elm + off) m) (\<lambda>m.
     andthen (putp head 0 elm m) (putp elm (off + 8) head))))"

definition TAILQ_INSERT_TAIL :: "u64 \<Rightarrow> addr \<Rightarrow> addr \<Rightarrow> ptrs \<Rightarrow> ptrs outcome" where
  "TAILQ_INSERT_TAIL off head elm m =
     andthen (putp elm off NULL m) (\<lambda>m. andthen (getp head 8 m) (\<lambda>l. andthen (putp elm (off + 8) l m) (\<lambda>m.
     andthen (getp head 8 m) (\<lambda>l. andthen (putp l 0 elm m) (putp head 8 (elm + off))))))"

definition TAILQ_INSERT_AFTER :: "u64 \<Rightarrow> addr \<Rightarrow> addr \<Rightarrow> addr \<Rightarrow> ptrs \<Rightarrow> ptrs outcome" where
  "TAILQ_INSERT_AFTER off head listelm elm m =
     andthen (getp listelm off m) (\<lambda>n. andthen (putp elm off n m) (\<lambda>m.
     andthen (if n \<noteq> NULL then andthen (getp elm off m) (\<lambda>n. putp n (off + 8) (elm + off) m) else putp head 8 (elm + off) m) (\<lambda>m.
     andthen (putp listelm off elm m) (putp elm (off + 8) (listelm + off)))))"

definition TAILQ_INSERT_BEFORE :: "u64 \<Rightarrow> addr \<Rightarrow> addr \<Rightarrow> ptrs \<Rightarrow> ptrs outcome" where
  "TAILQ_INSERT_BEFORE off listelm elm m =
     andthen (getp listelm (off + 8) m) (\<lambda>p. andthen (putp elm (off + 8) p m) (\<lambda>m.
     andthen (putp elm off listelm m) (\<lambda>m. andthen (getp listelm (off + 8) m) (\<lambda>p.
     andthen (putp p 0 elm m) (putp listelm (off + 8) (elm + off))))))"

definition TAILQ_REMOVE :: "u64 \<Rightarrow> addr \<Rightarrow> addr \<Rightarrow> ptrs \<Rightarrow> ptrs outcome" where
  "TAILQ_REMOVE off head elm m =
     andthen (getp elm off m) (\<lambda>n. andthen (getp elm (off + 8) m) (\<lambda>p.
     andthen (if n \<noteq> NULL then putp n (off + 8) p m else putp head 8 p m) (\<lambda>m.
     andthen (getp elm (off + 8) m) (\<lambda>p. andthen (getp elm off m) (\<lambda>n. putp p 0 n m)))))"

definition TAILQ_REPLACE :: "u64 \<Rightarrow> addr \<Rightarrow> addr \<Rightarrow> addr \<Rightarrow> ptrs \<Rightarrow> ptrs outcome" where
  "TAILQ_REPLACE off head elm elm2 m =
     andthen (getp elm off m) (\<lambda>n. andthen (putp elm2 off n m) (\<lambda>m.
     andthen (if n \<noteq> NULL then andthen (getp elm2 off m) (\<lambda>n. putp n (off + 8) (elm2 + off) m) else putp head 8 (elm2 + off) m) (\<lambda>m.
     andthen (getp elm (off + 8) m) (\<lambda>p. andthen (putp elm2 (off + 8) p m) (\<lambda>m.
     andthen (getp elm2 (off + 8) m) (\<lambda>p. putp p 0 elm2 m))))))"

section \<open>Circular queues\<close>

definition CIRCLEQ_FIRST :: "addr \<Rightarrow> ptrs \<Rightarrow> addr outcome" where
  "CIRCLEQ_FIRST head m = getp head 0 m"

definition CIRCLEQ_LAST :: "addr \<Rightarrow> ptrs \<Rightarrow> addr outcome" where
  "CIRCLEQ_LAST head m = getp head 8 m"

definition CIRCLEQ_END :: "addr \<Rightarrow> addr" where
  "CIRCLEQ_END head = head"

definition CIRCLEQ_NEXT :: "u64 \<Rightarrow> addr \<Rightarrow> ptrs \<Rightarrow> addr outcome" where
  "CIRCLEQ_NEXT off elm m = getp elm off m"

definition CIRCLEQ_PREV :: "u64 \<Rightarrow> addr \<Rightarrow> ptrs \<Rightarrow> addr outcome" where
  "CIRCLEQ_PREV off elm m = getp elm (off + 8) m"

definition CIRCLEQ_EMPTY :: "addr \<Rightarrow> ptrs \<Rightarrow> bool outcome" where
  "CIRCLEQ_EMPTY head m = andthen (CIRCLEQ_FIRST head m) (\<lambda>v. Inr (v = CIRCLEQ_END head))"

definition CIRCLEQ_FOREACH where
  "CIRCLEQ_FOREACH off head body st =
     from_first (\<lambda>v. for_each (CIRCLEQ_END head) (CIRCLEQ_NEXT off) body v st) (CIRCLEQ_FIRST head (fst st))"

definition CIRCLEQ_FOREACH_SAFE where
  "CIRCLEQ_FOREACH_SAFE off head body st =
     from_first (\<lambda>v. for_each_safe (CIRCLEQ_END head) (CIRCLEQ_NEXT off) body v st) (CIRCLEQ_FIRST head (fst st))"

definition CIRCLEQ_FOREACH_REVERSE where
  "CIRCLEQ_FOREACH_REVERSE off head body st =
     from_first (\<lambda>v. for_each (CIRCLEQ_END head) (CIRCLEQ_PREV off) body v st) (CIRCLEQ_LAST head (fst st))"

definition CIRCLEQ_INIT :: "addr \<Rightarrow> ptrs \<Rightarrow> ptrs outcome" where
  "CIRCLEQ_INIT head m = andthen (putp head 0 (CIRCLEQ_END head) m) (putp head 8 (CIRCLEQ_END head))"

definition CIRCLEQ_INSERT_AFTER :: "u64 \<Rightarrow> addr \<Rightarrow> addr \<Rightarrow> addr \<Rightarrow> ptrs \<Rightarrow> ptrs outcome" where
  "CIRCLEQ_INSERT_AFTER off head listelm elm m =
     andthen (getp listelm off m) (\<lambda>n. andthen (putp elm off n m) (\<lambda>m.
     andthen (putp elm (off + 8) listelm m) (\<lambda>m. andthen (getp listelm off m) (\<lambda>n.
     andthen (if n = CIRCLEQ_END head then putp head 8 elm m else putp n (off + 8) elm m) (putp listelm off elm)))))"

definition CIRCLEQ_INSERT_BEFORE :: "u64 \<Rightarrow> addr \<Rightarrow> addr \<Rightarrow> addr \<Rightarrow> ptrs \<Rightarrow> ptrs outcome" where
  "CIRCLEQ_INSERT_BEFORE off head listelm elm m =
     andthen (putp elm off listelm m) (\<lambda>m. andthen (getp listelm (off + 8) m) (\<lambda>p.
     andthen (putp elm (off + 8) p m) (\<lambda>m. andthen (getp listelm (off + 8) m) (\<lambda>p.
     andthen (if p = CIRCLEQ_END head then putp head 0 elm m else putp p off elm m) (putp listelm (off + 8) elm)))))"

definition CIRCLEQ_INSERT_HEAD :: "u64 \<Rightarrow> addr \<Rightarrow> addr \<Rightarrow> ptrs \<Rightarrow> ptrs outcome" where
  "CIRCLEQ_INSERT_HEAD off head elm m =
     andthen (getp head 0 m) (\<lambda>f. andthen (putp elm off f m) (\<lambda>m. andthen (putp elm (off + 8) (CIRCLEQ_END head) m) (\<lambda>m.
     andthen (getp head 8 m) (\<lambda>l.
     andthen (if l = CIRCLEQ_END head then putp head 8 elm m else andthen (getp head 0 m) (\<lambda>f. putp f (off + 8) elm m)) (putp head 0 elm)))))"

definition CIRCLEQ_INSERT_TAIL :: "u64 \<Rightarrow> addr \<Rightarrow> addr \<Rightarrow> ptrs \<Rightarrow> ptrs outcome" where
  "CIRCLEQ_INSERT_TAIL off head elm m =
     andthen (putp elm off (CIRCLEQ_END head) m) (\<lambda>m. andthen (getp head 8 m) (\<lambda>l. andthen (putp elm (off + 8) l m) (\<lambda>m.
     andthen (getp head 0 m) (\<lambda>f.
     andthen (if f = CIRCLEQ_END head then putp head 0 elm m else andthen (getp head 8 m) (\<lambda>l. putp l off elm m)) (putp head 8 elm)))))"

definition CIRCLEQ_REMOVE :: "u64 \<Rightarrow> addr \<Rightarrow> addr \<Rightarrow> ptrs \<Rightarrow> ptrs outcome" where
  "CIRCLEQ_REMOVE off head elm m =
     andthen (getp elm off m) (\<lambda>n. andthen (getp elm (off + 8) m) (\<lambda>p.
     andthen (if n = CIRCLEQ_END head then putp head 8 p m else putp n (off + 8) p m) (\<lambda>m.
     andthen (getp elm (off + 8) m) (\<lambda>p. andthen (getp elm off m) (\<lambda>n.
     if p = CIRCLEQ_END head then putp head 0 n m else putp p off n m)))))"

definition CIRCLEQ_REPLACE :: "u64 \<Rightarrow> addr \<Rightarrow> addr \<Rightarrow> addr \<Rightarrow> ptrs \<Rightarrow> ptrs outcome" where
  "CIRCLEQ_REPLACE off head elm elm2 m =
     andthen (getp elm off m) (\<lambda>n. andthen (putp elm2 off n m) (\<lambda>m.
     andthen (if n = CIRCLEQ_END head then putp head 8 elm2 m else andthen (getp elm2 off m) (\<lambda>n. putp n (off + 8) elm2 m)) (\<lambda>m.
     andthen (getp elm (off + 8) m) (\<lambda>p. andthen (putp elm2 (off + 8) p m) (\<lambda>m.
     if p = CIRCLEQ_END head then putp head 0 elm2 m else andthen (getp elm2 (off + 8) m) (\<lambda>p. putp p off elm2 m))))))"

end
