(* ===== verification/Queue_Singly.thy ===== *)
theory Queue_Singly
  imports Queue
begin

text \<open>
  Singly-linked lists, simple queues and XOR simple queues: a chain of cells, each holding the next
  element combined with a cookie, which is 0 for the first two.
\<close>

section \<open>Chains\<close>

fun linked :: "ptrs \<Rightarrow> u64 \<Rightarrow> u64 \<Rightarrow> addr \<Rightarrow> addr list \<Rightarrow> bool" where
  "linked m off ck c [] \<longleftrightarrow> m c = ck"
| "linked m off ck c (x # xs) \<longleftrightarrow> m c = ck XOR x \<and> x \<noteq> NULL \<and> linked m off ck (x + off) xs"

text \<open>The cell that the next element after \<open>xs\<close> is to be stored in.\<close>

definition end_cell :: "u64 \<Rightarrow> addr \<Rightarrow> addr list \<Rightarrow> addr" where
  "end_cell off c xs = (if xs = [] then c else last xs + off)"

lemma end_cell_simps [simp]:
  "end_cell off c [] = c" "end_cell off c (x # xs) = end_cell off (x + off) xs" "end_cell off c (xs @ [x]) = x + off"
  by (simp_all add: end_cell_def)

lemma end_cell_cases: "end_cell off c xs = c \<or> (\<exists>x \<in> set xs. end_cell off c xs = x + off)"
  by (cases xs rule: rev_cases) auto

lemma linked_cong:
  "linked m off ck c xs \<Longrightarrow> m' c' = m c \<Longrightarrow> (\<And>x. x \<in> set xs \<Longrightarrow> m' (x + off) = m (x + off)) \<Longrightarrow> linked m' off ck c' xs"
  by (induction xs arbitrary: c c') auto

lemma linked_end: "linked m off ck c xs \<Longrightarrow> m (end_cell off c xs) = ck"
  by (induction xs arbitrary: c) auto

lemma linked_at: "linked m off ck c (xs @ ys) \<Longrightarrow> m (end_cell off c xs) = (case ys of [] \<Rightarrow> ck | y # _ \<Rightarrow> ck XOR y)"
  by (induction xs arbitrary: c) (auto split: list.splits)

lemma linked_not_null: "linked m off ck c xs \<Longrightarrow> NULL \<notin> set xs"
  by (induction xs arbitrary: c) auto

text \<open>Insertion and removal at the cell after \<open>xs\<close>.\<close>

lemma linked_insert:
  assumes "linked m off ck c (xs @ ys)" "distinct (xs @ ys)" "e \<noteq> NULL" "e \<notin> set (xs @ ys)"
    "\<And>x. x \<in> insert e (set (xs @ ys)) \<Longrightarrow> c \<noteq> x + off"
  shows "linked (m(e + off := m (end_cell off c xs), end_cell off c xs := ck XOR e)) off ck c (xs @ e # ys)"
  using assms
proof (induction xs arbitrary: c)
  case Nil
  let ?m = "m(e + off := m c, c := ck XOR e)"
  have "linked ?m off ck (e + off) ys" by (rule linked_cong[of m off ck c]) (use Nil in auto)
  then show ?case using Nil.prems by (simp add: fun_upd_def)
next
  case (Cons x xs)
  have "end_cell off (x + off) xs \<noteq> c" using end_cell_cases[of off "x + off" xs] Cons.prems(5) by fastforce
  moreover have "linked (m(e + off := m (end_cell off (x + off) xs), end_cell off (x + off) xs := ck XOR e)) off ck (x + off) (xs @ e # ys)"
    using Cons.prems by (intro Cons.IH) auto
  ultimately show ?case using Cons.prems(1,4) Cons.prems(5)[of e] by (simp add: fun_upd_def)
qed

lemma linked_remove:
  assumes "linked m off ck c (xs @ e # ys)" "distinct (xs @ e # ys)" "\<And>x. x \<in> set (xs @ e # ys) \<Longrightarrow> c \<noteq> x + off"
  shows "linked (m(end_cell off c xs := m (e + off))) off ck c (xs @ ys)"
  using assms
proof (induction xs arbitrary: c)
  case Nil
  show ?case by simp (rule linked_cong[of m off ck "e + off"]; use Nil in auto)
next
  case (Cons x xs)
  have "end_cell off (x + off) xs \<noteq> c" using end_cell_cases[of off "x + off" xs] Cons.prems(3) by fastforce
  moreover have "linked (m(end_cell off (x + off) xs := m (e + off))) off ck (x + off) (xs @ ys)"
    using Cons.prems by (intro Cons.IH) auto
  ultimately show ?case using Cons.prems(1) by (simp add: fun_upd_def)
qed

text \<open>Updates elsewhere.\<close>

lemma linked_other: "linked m off ck c xs \<Longrightarrow> a \<noteq> c \<Longrightarrow> (\<And>x. x \<in> set xs \<Longrightarrow> a \<noteq> x + off) \<Longrightarrow> linked (m(a := v)) off ck c xs"
  by (rule linked_cong[of m]) auto

text \<open>A chain from the first cell of a head, and the same with a pointer to its last cell behind it.\<close>

definition chain :: "u64 \<Rightarrow> u64 \<Rightarrow> ptrs \<Rightarrow> addr \<Rightarrow> addr list \<Rightarrow> bool" where
  "chain off ck m h xs \<longleftrightarrow> no_overlap off h (set xs) \<and> distinct xs \<and> linked m off ck h xs"

definition chain_last :: "u64 \<Rightarrow> u64 \<Rightarrow> ptrs \<Rightarrow> addr \<Rightarrow> addr list \<Rightarrow> bool" where
  "chain_last off ck m h xs \<longleftrightarrow> chain off ck m h xs \<and> m (h + 8) = ck XOR end_cell off h xs"

lemma chain_facts:
  assumes "chain off ck m h xs"
  shows "h \<noteq> NULL" "distinct xs" "linked m off ck h xs" "no_overlap off h (set xs)" "\<And>x. x \<in> set xs \<Longrightarrow> x \<noteq> NULL \<and> h \<noteq> x + off"
  using assms no_overlap_head[of off h "set xs"] no_overlap_cells(1,5)[of off h "set xs"] unfolding chain_def by simp_all

lemma chain_insert:
  assumes "chain off ck m h (xs @ ys)" "no_overlap off h (insert e (set (xs @ ys)))" "e \<notin> set (xs @ ys)"
  shows "chain off ck (m(e + off := m (end_cell off h xs), end_cell off h xs := ck XOR e)) h (xs @ e # ys)"
proof -
  have "linked (m(e + off := m (end_cell off h xs), end_cell off h xs := ck XOR e)) off ck h (xs @ e # ys)"
    using assms no_overlap_cells(1,5)[OF assms(2)] by (intro linked_insert) (auto simp: chain_def)
  then show ?thesis using assms by (auto simp: chain_def)
qed

lemma chain_remove:
  assumes "chain off ck m h (xs @ e # ys)"
  shows "chain off ck (m(end_cell off h xs := m (e + off))) h (xs @ ys)"
  using assms linked_remove[OF chain_facts(3)[OF assms] chain_facts(2)[OF assms]] chain_facts(5)[OF assms]
    no_overlap_subset[of off h "set (xs @ e # ys)" "set (xs @ ys)"] by (auto simp: chain_def)

text \<open>The cookie alone marks the end of the elements.\<close>

lemma xor_cancel [simp]: "c XOR (c XOR x) = (x :: u64)" "c XOR x = c \<longleftrightarrow> x = 0" "c = c XOR x \<longleftrightarrow> x = 0"
proof -
  show c: "c XOR (c XOR x) = x" by (simp add: bit_eq_iff bit_simps)
  show "c XOR x = c \<longleftrightarrow> x = 0" using c by (metis xor_self_eq xor.right_neutral)
  then show "c = c XOR x \<longleftrightarrow> x = 0" by metis
qed

lemma chain_next: "chain off ck m h (xs @ ys) \<Longrightarrow> m (end_cell off h xs) = ck \<longleftrightarrow> ys = []"
  using linked_at[of m off ck h xs ys] chain_facts(3,5)[of off ck m h "xs @ ys"]
  by (cases ys) auto

lemma chain_other: "chain off ck m h xs \<Longrightarrow> a \<in> {h + 8, h + 16} \<Longrightarrow> chain off ck (m(a := v)) h xs"
  using linked_other[of m off ck h xs a v] no_overlap_cells(6,7)[of off h "set xs"] by (auto simp: chain_def)

lemma chain_last_facts:
  assumes "chain_last off ck m h xs"
  shows "chain off ck m h xs" "m (h + 8) = ck XOR end_cell off h xs" "h + 8 \<noteq> end_cell off h xs" "h + 16 \<noteq> end_cell off h xs"
    "\<And>x. x \<in> set xs \<Longrightarrow> h + 8 \<noteq> x + off \<and> h + 16 \<noteq> x + off" "end_cell off h xs \<noteq> NULL"
proof -
  show s: "chain off ck m h xs" "m (h + 8) = ck XOR end_cell off h xs" using assms by (simp_all add: chain_last_def)
  note o = no_overlap_cells[OF chain_facts(4)[OF s(1)]]
  show "h + 8 \<noteq> x + off \<and> h + 16 \<noteq> x + off" if "x \<in> set xs" for x using o(6,7)[OF that] by simp
  show "h + 8 \<noteq> end_cell off h xs" "h + 16 \<noteq> end_cell off h xs" "end_cell off h xs \<noteq> NULL"
    using end_cell_cases[of off h xs] o(4,6,7) chain_facts(1)[OF s(1)] by fastforce+
qed

lemma chain_last_set: "chain off ck m h xs \<Longrightarrow> v = ck XOR end_cell off h xs \<Longrightarrow> chain_last off ck (m(h + 8 := v)) h xs"
  by (simp add: chain_last_def chain_other)

lemma chain_last_insert:
  assumes "chain_last off ck m h (xs @ ys)" "no_overlap off h (insert e (set (xs @ ys)))" "e \<notin> set (xs @ ys)"
  shows "chain_last off ck (m(e + off := m (end_cell off h xs), end_cell off h xs := ck XOR e,
    h + 8 := (if ys = [] then ck XOR (e + off) else m (h + 8)))) h (xs @ e # ys)"
  using chain_insert[OF chain_last_facts(1)[OF assms(1)] assms(2,3)] chain_last_facts(2)[OF assms(1)]
  by (intro chain_last_set) (simp_all add: end_cell_def)

lemma chain_last_remove:
  assumes "chain_last off ck m h (xs @ e # ys)"
  shows "chain_last off ck (m(end_cell off h xs := m (e + off),
    h + 8 := (if ys = [] then ck XOR end_cell off h xs else m (h + 8)))) h (xs @ ys)"
  using chain_remove[OF chain_last_facts(1)[OF assms]] chain_last_facts(2)[OF assms]
  by (intro chain_last_set) (simp_all add: end_cell_def)

section \<open>Singly-linked lists\<close>

abbreviation slist :: "u64 \<Rightarrow> ptrs \<Rightarrow> addr \<Rightarrow> addr list \<Rightarrow> bool" where
  "slist off \<equiv> chain off 0"

lemmas slist_facts = chain_facts[where ck = 0]
lemmas slist_insert = chain_insert[where ck = 0, simplified]
lemmas slist_remove = chain_remove[where ck = 0]
lemmas slist_next_null = chain_next[where ck = 0]

lemma slist_init: "no_overlap off h {} \<Longrightarrow> \<exists>m'. SLIST_INIT h m = Inr m' \<and> slist off m' h []"
  by (simp add: SLIST_INIT_def SLIST_END_def chain_def no_overlap_def)

lemma slist_insert_head:
  assumes "slist off m h xs" "no_overlap off h (insert e (set xs))" "e \<notin> set xs"
  shows "\<exists>m'. SLIST_INSERT_HEAD off h e m = Inr m' \<and> slist off m' h (e # xs)"
  using slist_insert[of off m h "[]" xs e] assms slist_facts(1)[OF assms(1)] no_overlap_cells(1)[OF assms(2), of e]
  by (simp add: SLIST_INSERT_HEAD_def)

lemma slist_insert_after:
  assumes "slist off m h (xs @ x # ys)" "no_overlap off h (insert e (set (xs @ x # ys)))" "e \<notin> set (xs @ x # ys)"
  shows "\<exists>m'. SLIST_INSERT_AFTER off x e m = Inr m' \<and> slist off m' h (xs @ x # e # ys)"
  using slist_insert[of off m h "xs @ [x]" ys e] assms slist_facts(5)[OF assms(1), of x] no_overlap_cells(1)[OF assms(2), of e]
  by (simp add: SLIST_INSERT_AFTER_def)

lemma slist_remove_head: "slist off m h (x # xs) \<Longrightarrow> \<exists>m'. SLIST_REMOVE_HEAD off h m = Inr m' \<and> slist off m' h xs"
  using slist_remove[of off m h "[]" x xs] slist_facts[of off m h "x # xs"] by (simp add: SLIST_REMOVE_HEAD_def)

lemma slist_remove_after:
  "slist off m h (xs @ x # y # ys) \<Longrightarrow> \<exists>m'. SLIST_REMOVE_AFTER off x m = Inr m' \<and> slist off m' h (xs @ x # ys)"
  using slist_remove[of off m h "xs @ [x]" y ys] slist_facts(5)[of off m h "xs @ x # y # ys"]
    linked_at[of m off 0 h "xs @ [x]" "y # ys"] slist_facts(3)[of off m h "xs @ x # y # ys"]
  by (simp add: SLIST_REMOVE_AFTER_def)

text \<open>The search finds the predecessor of an element of the list, and crashes at the end of a list without it.\<close>

lemma find_pred_found:
  assumes "linked m off 0 c (x # xs @ e # ys)" "e \<notin> set xs"
  shows "find_pred off e x m = Some (Inr (last (x # xs)))"
  using assms
proof (induction xs arbitrary: c x)
  case Nil
  then show ?case by (subst find_pred.simps) auto
next
  case (Cons y xs)
  then have "find_pred off e y m = Some (Inr (last (y # xs)))" by auto
  then show ?case using Cons.prems by (subst find_pred.simps) auto
qed

lemma find_pred_missing:
  assumes "linked m off 0 c (x # xs)" "e \<notin> set xs" "e \<noteq> NULL"
  shows "find_pred off e x m = Some (Inl Crash)"
  using assms
proof (induction xs arbitrary: c x)
  case Nil
  have "find_pred off e NULL m = Some (Inl Crash)" by (subst find_pred.simps) simp
  then show ?case using Nil by (subst find_pred.simps) auto
next
  case (Cons y xs)
  then have "find_pred off e y m = Some (Inl Crash)" by auto
  then show ?case using Cons.prems by (subst find_pred.simps) auto
qed

lemma slist_remove_elm:
  assumes "slist off m h (xs @ e # ys)"
  shows "\<exists>m'. SLIST_REMOVE off h e m = Some (Inr m') \<and> slist off m' h (xs @ ys)"
proof (cases xs)
  case Nil
  then show ?thesis using assms slist_remove_head[of off m h e ys] slist_facts(1,3)[OF assms] by (auto simp: SLIST_REMOVE_def)
next
  case (Cons x xs')
  note f = slist_facts[OF assms]
  have "find_pred off e x m = Some (Inr (last xs))" using find_pred_found[of m off h x xs' e ys] f(2,3) Cons by auto
  moreover have "m h = x" "x \<noteq> e" using f(2,3) Cons by auto
  moreover have "xs = butlast xs @ [last xs]" using Cons by simp
  then have "m (last xs + off) = e" using linked_at[of m off 0 h xs "e # ys"] f(3) Cons by (simp add: end_cell_def)
  moreover have "last xs \<noteq> NULL" "e \<noteq> NULL" using f(5) Cons by auto
  ultimately show ?thesis using slist_remove[OF assms] f(1) Cons by (auto simp: SLIST_REMOVE_def end_cell_def)
qed

interpretation sl: link_list "slist off" "\<lambda>h S. no_overlap off h S" "SLIST_INSERT_HEAD off" SLIST_EMPTY SLIST_FIRST "\<lambda>h. SLIST_NEXT off" SLIST_END
  for off
proof unfold_locales
  fix m h xs
  assume "slist off m h xs"
  then show "distinct xs" "SLIST_EMPTY h m = Inr (xs = [])" "SLIST_FIRST h m = Inr (case xs of [] \<Rightarrow> SLIST_END h | x # _ \<Rightarrow> x)" "SLIST_END h \<notin> set xs"
    using slist_facts[of off m h xs] by (cases xs; auto simp: SLIST_EMPTY_def SLIST_FIRST_def SLIST_END_def)+
next
  fix m h xs x ys
  assume "slist off m h (xs @ x # ys)"
  then show "SLIST_NEXT off x m = Inr (case ys of [] \<Rightarrow> SLIST_END h | y # _ \<Rightarrow> y)"
    using slist_facts(3,5)[of off m h "xs @ x # ys"] linked_at[of m off 0 h "xs @ [x]" ys]
    by (auto simp: SLIST_NEXT_def SLIST_END_def split: list.splits)
qed (use no_overlap_subset slist_insert_head in auto)

section \<open>Simple queues\<close>

abbreviation simpleq :: "u64 \<Rightarrow> ptrs \<Rightarrow> addr \<Rightarrow> addr list \<Rightarrow> bool" where
  "simpleq off \<equiv> chain_last off 0"

lemmas simpleq_facts = chain_last_facts[where ck = 0, simplified]
lemmas simpleq_insert = chain_last_insert[where ck = 0, simplified]
lemmas simpleq_remove = chain_last_remove[where ck = 0, simplified]

lemma simpleq_init: "no_overlap off h {} \<Longrightarrow> \<exists>m'. SIMPLEQ_INIT h m = Inr m' \<and> simpleq off m' h []"
  by (simp add: SIMPLEQ_INIT_def chain_last_def chain_def no_overlap_def)

lemma simpleq_insert_head:
  assumes "simpleq off m h xs" "no_overlap off h (insert e (set xs))" "e \<notin> set xs"
  shows "\<exists>m'. SIMPLEQ_INSERT_HEAD off h e m = Inr m' \<and> simpleq off m' h (e # xs)"
proof -
  note f = simpleq_facts[OF assms(1)]
  note n = no_overlap_cells[OF assms(2), of e, simplified]
  have "SIMPLEQ_INSERT_HEAD off h e m = Inr (m(e + off := m h, h := e, h + 8 := (if xs = [] then e + off else m (h + 8))))"
    using n slist_next_null[of off m h "[]" xs] f(1) by (auto simp: SIMPLEQ_INSERT_HEAD_def fun_eq_iff)
  then show ?thesis using simpleq_insert[of off m h "[]" xs e] assms by (simp cong: if_cong)
qed

lemma simpleq_insert_tail:
  assumes "simpleq off m h xs" "no_overlap off h (insert e (set xs))" "e \<notin> set xs"
  shows "\<exists>m'. SIMPLEQ_INSERT_TAIL off h e m = Inr m' \<and> simpleq off m' h (xs @ [e])"
proof -
  note f = simpleq_facts[OF assms(1)]
  note n = no_overlap_cells[OF assms(2), of e, simplified]
  have "end_cell off h xs \<noteq> e + off" using end_cell_cases[of off h xs] n assms(3) by fastforce
  moreover have "m (end_cell off h xs) = NULL" using slist_next_null[of off m h xs "[]"] f(1) by simp
  ultimately have "SIMPLEQ_INSERT_TAIL off h e m = Inr (m(e + off := m (end_cell off h xs), end_cell off h xs := e, h + 8 := e + off))"
    using n f by (simp add: SIMPLEQ_INSERT_TAIL_def)
  then show ?thesis using simpleq_insert[of off m h xs "[]" e] assms by (simp cong: if_cong)
qed

lemma simpleq_insert_after:
  assumes "simpleq off m h (xs @ x # ys)" "no_overlap off h (insert e (set (xs @ x # ys)))" "e \<notin> set (xs @ x # ys)"
  shows "\<exists>m'. SIMPLEQ_INSERT_AFTER off h x e m = Inr m' \<and> simpleq off m' h (xs @ x # e # ys)"
proof -
  note f = simpleq_facts[OF assms(1)]
  note n = no_overlap_cells[OF assms(2), of e, simplified] no_overlap_cells[OF assms(2), of x, simplified]
  have "SIMPLEQ_INSERT_AFTER off h x e m = Inr (m(e + off := m (x + off), x + off := e, h + 8 := (if ys = [] then e + off else m (h + 8))))"
    using n slist_next_null[of off m h "xs @ [x]" ys] f(1) by (auto simp: SIMPLEQ_INSERT_AFTER_def fun_eq_iff)
  then show ?thesis using simpleq_insert[of off m h "xs @ [x]" ys e] assms by (simp cong: if_cong)
qed

lemma simpleq_remove_head:
  assumes "simpleq off m h (x # xs)"
  shows "\<exists>m'. SIMPLEQ_REMOVE_HEAD off h m = Inr m' \<and> simpleq off m' h xs"
proof -
  note f = simpleq_facts[OF assms]
  note s = slist_facts[OF f(1)]
  have "SIMPLEQ_REMOVE_HEAD off h m = Inr (m(h := m (x + off), h + 8 := (if xs = [] then h else m (h + 8))))"
    using s slist_next_null[of off m h "[x]" xs] f(1) by (auto simp: SIMPLEQ_REMOVE_HEAD_def fun_eq_iff)
  then show ?thesis using simpleq_remove[of off m h "[]" x xs] assms by (simp cong: if_cong)
qed

lemma simpleq_remove_after:
  assumes "simpleq off m h (xs @ x # y # ys)"
  shows "\<exists>m'. SIMPLEQ_REMOVE_AFTER off h x m = Inr m' \<and> simpleq off m' h (xs @ x # ys)"
proof -
  note f = simpleq_facts[OF assms]
  note s = slist_facts[OF f(1)]
  have "m (x + off) = y" using linked_at[of m off 0 h "xs @ [x]" "y # ys"] s(3) by simp
  then have "SIMPLEQ_REMOVE_AFTER off h x m = Inr (m(x + off := m (y + off), h + 8 := (if ys = [] then x + off else m (h + 8))))"
    using s(1,5) f(5) slist_next_null[of off m h "xs @ [x, y]" ys] f(1) by (auto simp: SIMPLEQ_REMOVE_AFTER_def fun_eq_iff end_cell_def)
  then show ?thesis using simpleq_remove[of off m h "xs @ [x]" y ys] assms by (simp cong: if_cong)
qed

interpretation sq: link_queue "simpleq off" "\<lambda>h S. no_overlap off h S" "SIMPLEQ_INSERT_HEAD off" SIMPLEQ_EMPTY SIMPLEQ_FIRST "\<lambda>h. SIMPLEQ_NEXT off" SIMPLEQ_END
  "SIMPLEQ_INSERT_TAIL off" "SIMPLEQ_REMOVE_HEAD off"
  for off
proof unfold_locales
  fix m h xs
  assume a: "simpleq off m h xs"
  show "distinct xs" using sl.rep_distinct simpleq_facts(1)[OF a] by blast
  show "SIMPLEQ_EMPTY h m = Inr (xs = [])" "SIMPLEQ_FIRST h m = Inr (case xs of [] \<Rightarrow> SIMPLEQ_END h | x # _ \<Rightarrow> x)" "SIMPLEQ_END h \<notin> set xs"
    using sl.rep_empty[OF simpleq_facts(1)[OF a]] sl.rep_first[OF simpleq_facts(1)[OF a]] sl.rep_not_fin[OF simpleq_facts(1)[OF a]]
    by (simp_all add: SIMPLEQ_EMPTY_def SIMPLEQ_FIRST_def SIMPLEQ_END_def SLIST_EMPTY_def SLIST_FIRST_def SLIST_END_def cong: list.case_cong)
next
  fix m h xs x ys
  assume "simpleq off m h (xs @ x # ys)"
  then show "SIMPLEQ_NEXT off x m = Inr (case ys of [] \<Rightarrow> SIMPLEQ_END h | y # _ \<Rightarrow> y)"
    using sl.rep_step[of off m h xs x ys] by (simp add: simpleq_facts(1) SIMPLEQ_NEXT_def SLIST_NEXT_def SIMPLEQ_END_def SLIST_END_def cong: list.case_cong)
qed (use no_overlap_subset simpleq_insert_head simpleq_insert_tail simpleq_remove_head in auto)

section \<open>XOR simple queues\<close>

definition xsimpleq :: "u64 \<Rightarrow> ptrs \<Rightarrow> addr \<Rightarrow> addr list \<Rightarrow> bool" where
  "xsimpleq off m h xs \<longleftrightarrow> chain_last off (m (h + 16)) m h xs"

lemma xsimpleq_facts:
  assumes "xsimpleq off m h xs"
  shows "chain_last off (m (h + 16)) m h xs" "chain off (m (h + 16)) m h xs" "h \<noteq> NULL"
  using assms chain_last_facts(1)[of off "m (h + 16)" m h xs] chain_facts(1)[of off "m (h + 16)" m h xs] by (simp_all add: xsimpleq_def)

lemma xor_read: "h \<noteq> NULL \<Longrightarrow> XSIMPLEQ_XOR h p m = Inr (m (h + 16) XOR p)"
  by (simp add: XSIMPLEQ_XOR_def)

text \<open>Changes of the chain that leave the cookie.\<close>

lemma xsimpleq_intro: "chain_last off (m (h + 16)) m' h xs \<Longrightarrow> m' (h + 16) = m (h + 16) \<Longrightarrow> xsimpleq off m' h xs"
  by (simp add: xsimpleq_def)

lemma xsimpleq_init: "no_overlap off h {} \<Longrightarrow> \<exists>m'. XSIMPLEQ_INIT cookie h m = Inr m' \<and> xsimpleq off m' h [] \<and> m' (h + 16) = cookie"
  by (auto simp: XSIMPLEQ_INIT_def xsimpleq_def chain_last_def chain_def no_overlap_def xor_read)

lemma xsimpleq_insert_head:
  assumes "xsimpleq off m h xs" "no_overlap off h (insert e (set xs))" "e \<notin> set xs"
  shows "\<exists>m'. XSIMPLEQ_INSERT_HEAD off h e m = Inr m' \<and> xsimpleq off m' h (e # xs)"
proof -
  note f = xsimpleq_facts[OF assms(1)]
  note n = no_overlap_cells[OF assms(2), of e, simplified]
  let ?c = "m (h + 16)"
  let ?m = "m(e + off := m h, h := ?c XOR e, h + 8 := (if xs = [] then ?c XOR (e + off) else m (h + 8)))"
  have "XSIMPLEQ_INSERT_HEAD off h e m = Inr ?m"
    using n f(3) chain_next[of off ?c m h "[]" xs] f(2) by (auto simp: XSIMPLEQ_INSERT_HEAD_def xor_read fun_eq_iff)
  moreover have "xsimpleq off ?m h (e # xs)"
    using chain_last_insert[of off ?c m h "[]" xs e] f(1) assms(2,3) n by (intro xsimpleq_intro[of _ m]) auto
  ultimately show ?thesis by simp
qed

lemma xsimpleq_insert_tail:
  assumes "xsimpleq off m h xs" "no_overlap off h (insert e (set xs))" "e \<notin> set xs"
  shows "\<exists>m'. XSIMPLEQ_INSERT_TAIL off h e m = Inr m' \<and> xsimpleq off m' h (xs @ [e])"
proof -
  note f = xsimpleq_facts[OF assms(1)]
  note l = chain_last_facts[OF f(1)]
  note n = no_overlap_cells[OF assms(2), of e, simplified]
  let ?c = "m (h + 16)"
  let ?m = "m(e + off := m (end_cell off h xs), end_cell off h xs := ?c XOR e, h + 8 := ?c XOR (e + off))"
  have "end_cell off h xs \<noteq> e + off" using end_cell_cases[of off h xs] n assms(3) by fastforce
  moreover have "m (end_cell off h xs) = ?c" using chain_next[of off ?c m h xs "[]"] f(2) by simp
  ultimately have "XSIMPLEQ_INSERT_TAIL off h e m = Inr ?m"
    using n l f(3) by (simp add: XSIMPLEQ_INSERT_TAIL_def xor_read)
  moreover have "xsimpleq off ?m h (xs @ [e])"
    using chain_last_insert[of off ?c m h xs "[]" e] f(1) assms(2,3) n l by (intro xsimpleq_intro[of _ m]) auto
  ultimately show ?thesis by simp
qed

lemma xsimpleq_insert_after:
  assumes "xsimpleq off m h (xs @ x # ys)" "no_overlap off h (insert e (set (xs @ x # ys)))" "e \<notin> set (xs @ x # ys)"
  shows "\<exists>m'. XSIMPLEQ_INSERT_AFTER off h x e m = Inr m' \<and> xsimpleq off m' h (xs @ x # e # ys)"
proof -
  note f = xsimpleq_facts[OF assms(1)]
  note n = no_overlap_cells[OF assms(2), of e, simplified] no_overlap_cells[OF assms(2), of x, simplified]
  let ?c = "m (h + 16)"
  let ?m = "m(e + off := m (x + off), x + off := ?c XOR e, h + 8 := (if ys = [] then ?c XOR (e + off) else m (h + 8)))"
  have "XSIMPLEQ_INSERT_AFTER off h x e m = Inr ?m"
    using n f(3) chain_next[of off ?c m h "xs @ [x]" ys] f(2) by (auto simp: XSIMPLEQ_INSERT_AFTER_def xor_read fun_eq_iff)
  moreover have "xsimpleq off ?m h (xs @ x # e # ys)"
    using chain_last_insert[of off ?c m h "xs @ [x]" ys e] f(1) assms(2,3) n by (intro xsimpleq_intro[of _ m]) auto
  ultimately show ?thesis by simp
qed

lemma xsimpleq_remove_head:
  assumes "xsimpleq off m h (x # xs)"
  shows "\<exists>m'. XSIMPLEQ_REMOVE_HEAD off h m = Inr m' \<and> xsimpleq off m' h xs"
proof -
  note f = xsimpleq_facts[OF assms]
  note s = chain_facts[OF f(2)]
  let ?c = "m (h + 16)"
  let ?m = "m(h := m (x + off), h + 8 := (if xs = [] then ?c XOR h else m (h + 8)))"
  have "XSIMPLEQ_REMOVE_HEAD off h m = Inr ?m"
    using s chain_next[of off ?c m h "[x]" xs] f(2) by (auto simp: XSIMPLEQ_REMOVE_HEAD_def xor_read fun_eq_iff)
  moreover have "xsimpleq off ?m h xs"
    using chain_last_remove[of off ?c m h "[]" x xs] f(1) by (intro xsimpleq_intro[of _ m]) auto
  ultimately show ?thesis by simp
qed

lemma xsimpleq_remove_after:
  assumes "xsimpleq off m h (xs @ x # y # ys)"
  shows "\<exists>m'. XSIMPLEQ_REMOVE_AFTER off h x m = Inr m' \<and> xsimpleq off m' h (xs @ x # ys)"
proof -
  note f = xsimpleq_facts[OF assms]
  note s = chain_facts[OF f(2)]
  note l = chain_last_facts(5)[OF f(1)]
  let ?c = "m (h + 16)"
  let ?m = "m(x + off := m (y + off), h + 8 := (if ys = [] then ?c XOR (x + off) else m (h + 8)))"
  have "m (x + off) = ?c XOR y" using linked_at[of m off ?c h "xs @ [x]" "y # ys"] s(3) by simp
  then have "XSIMPLEQ_REMOVE_AFTER off h x m = Inr ?m"
    using s(1,5) l chain_next[of off ?c m h "xs @ [x, y]" ys] f(2)
    by (auto simp: XSIMPLEQ_REMOVE_AFTER_def xor_read fun_eq_iff end_cell_def)
  moreover have "xsimpleq off ?m h (xs @ x # ys)"
    using chain_last_remove[of off ?c m h "xs @ [x]" y ys] f(1) l[of x] by (intro xsimpleq_intro[of _ m]) auto
  ultimately show ?thesis by simp
qed

interpretation xq: link_queue "xsimpleq off" "\<lambda>h S. no_overlap off h S" "XSIMPLEQ_INSERT_HEAD off" XSIMPLEQ_EMPTY XSIMPLEQ_FIRST "XSIMPLEQ_NEXT off" XSIMPLEQ_END
  "XSIMPLEQ_INSERT_TAIL off" "XSIMPLEQ_REMOVE_HEAD off"
  for off
proof unfold_locales
  fix m h xs
  assume "xsimpleq off m h xs"
  note f = xsimpleq_facts(2,3)[OF this]
  note s = chain_facts[OF f(1)]
  show "distinct xs" by (rule s(2))
  show "XSIMPLEQ_EMPTY h m = Inr (xs = [])" "XSIMPLEQ_FIRST h m = Inr (case xs of [] \<Rightarrow> XSIMPLEQ_END h | x # _ \<Rightarrow> x)" "XSIMPLEQ_END h \<notin> set xs"
    using s f(2) by (cases xs; auto simp: XSIMPLEQ_EMPTY_def XSIMPLEQ_FIRST_def XSIMPLEQ_END_def xor_read)+
next
  fix m h xs x ys
  assume "xsimpleq off m h (xs @ x # ys)"
  note f = xsimpleq_facts(2,3)[OF this]
  note s = chain_facts[OF f(1)]
  show "XSIMPLEQ_NEXT off h x m = Inr (case ys of [] \<Rightarrow> XSIMPLEQ_END h | y # _ \<Rightarrow> y)"
    using s f(2) linked_at[of m off "m (h + 16)" h "xs @ [x]" ys]
    by (auto simp: XSIMPLEQ_NEXT_def XSIMPLEQ_END_def xor_read split: list.splits)
qed (use no_overlap_subset xsimpleq_insert_head xsimpleq_insert_tail xsimpleq_remove_head in auto)

end
