(* ===== verification/Queue_Doubly.thy ===== *)
theory Queue_Doubly
  imports Queue_Singly
begin

text \<open>
  Lists and tail queues: chains whose elements also hold the address of the cell that points to them.
\<close>

section \<open>Back pointers\<close>

fun backed :: "ptrs \<Rightarrow> u64 \<Rightarrow> addr \<Rightarrow> addr list \<Rightarrow> bool" where
  "backed m off c [] \<longleftrightarrow> True"
| "backed m off c (x # xs) \<longleftrightarrow> m (x + off + 8) = c \<and> backed m off (x + off) xs"

lemma backed_append: "backed m off c (xs @ ys) \<longleftrightarrow> backed m off c xs \<and> backed m off (end_cell off c xs) ys"
  by (induction xs arbitrary: c) auto

lemma backed_cong: "backed m off c xs \<Longrightarrow> (\<And>x. x \<in> set xs \<Longrightarrow> m' (x + off + 8) = m (x + off + 8)) \<Longrightarrow> backed m' off c xs"
  by (induction xs arbitrary: c) auto

lemma backed_at: "backed m off c (xs @ x # ys) \<Longrightarrow> m (x + off + 8) = end_cell off c xs"
  by (simp add: backed_append)

text \<open>The back pointer of the first element of \<open>ys\<close>.\<close>

definition set_back :: "u64 \<Rightarrow> addr list \<Rightarrow> addr \<Rightarrow> ptrs \<Rightarrow> ptrs" where
  "set_back off ys c m = (case ys of [] \<Rightarrow> m | y # _ \<Rightarrow> m(y + off + 8 := c))"

lemma set_back_backed:
  assumes "backed m off c ys" "distinct ys"
  shows "backed (set_back off ys c' m) off c' ys"
proof (cases ys)
  case (Cons y zs)
  have "backed (m(y + off + 8 := c')) off (y + off) zs" by (rule backed_cong[of m]) (use assms Cons in auto)
  then show ?thesis using Cons by (simp add: set_back_def fun_upd_def)
qed (simp add: set_back_def)

lemma set_back_other: "(\<And>y. y \<in> set ys \<Longrightarrow> a \<noteq> y + off + 8) \<Longrightarrow> set_back off ys c m a = m a"
  by (cases ys) (auto simp: set_back_def)

section \<open>Lists\<close>

definition dlist :: "u64 \<Rightarrow> ptrs \<Rightarrow> addr \<Rightarrow> addr list \<Rightarrow> bool" where
  "dlist off m h xs \<longleftrightarrow> slist off m h xs \<and> backed m off h xs"

lemma dlist_facts:
  assumes "dlist off m h xs"
  shows "slist off m h xs" "backed m off h xs" "h \<noteq> NULL" "distinct xs"
    "\<And>x. x \<in> set xs \<Longrightarrow> x \<noteq> NULL \<and> x + off \<noteq> NULL \<and> h \<noteq> x + off \<and> h \<noteq> x + off + 8 \<and> h + 8 \<noteq> x + off \<and> h + 8 \<noteq> x + off + 8"
    "\<And>x y. x \<in> set xs \<Longrightarrow> y \<in> set xs \<Longrightarrow> x + off \<noteq> y + off + 8"
proof -
  show s: "slist off m h xs" "backed m off h xs" using assms by (simp_all add: dlist_def)
  then show "h \<noteq> NULL" "distinct xs" using slist_facts by blast+
  note o = no_overlap_cells[OF slist_facts(4)[OF s(1)]]
  show "x \<noteq> NULL \<and> x + off \<noteq> NULL \<and> h \<noteq> x + off \<and> h \<noteq> x + off + 8 \<and> h + 8 \<noteq> x + off \<and> h + 8 \<noteq> x + off + 8" if "x \<in> set xs" for x
    using o(1,4,5,6,14,15)[OF that] by simp
  show "x + off \<noteq> y + off + 8" if "x \<in> set xs" "y \<in> set xs" for x y
    using no_overlap_links[OF slist_facts(4)[OF s(1)] that] by simp
qed

text \<open>Changes of back pointers leave the chain and changes of the chain leave the back pointers.\<close>

lemma slist_cong:
  "slist off m h xs \<Longrightarrow> m' h = m h \<Longrightarrow> (\<And>x. x \<in> set xs \<Longrightarrow> m' (x + off) = m (x + off)) \<Longrightarrow> slist off m' h xs"
  unfolding chain_def by (auto intro: linked_cong)

lemma end_cell_apart:
  assumes "no_overlap off h S" "set xs \<subseteq> S"
  shows "end_cell off h xs \<noteq> NULL" "end_cell off h xs \<noteq> h + 8" "y \<in> S \<Longrightarrow> end_cell off h xs \<noteq> y + off + 8"
    "y \<in> S \<Longrightarrow> y \<notin> set xs \<Longrightarrow> end_cell off h xs \<noteq> y + off"
proof -
  consider "end_cell off h xs = h" | x where "x \<in> set xs" "x \<in> S" "end_cell off h xs = x + off"
    using end_cell_cases[of off h xs] assms(2) by blast
  then show "end_cell off h xs \<noteq> NULL" "end_cell off h xs \<noteq> h + 8" "y \<in> S \<Longrightarrow> end_cell off h xs \<noteq> y + off + 8"
    "y \<in> S \<Longrightarrow> y \<notin> set xs \<Longrightarrow> end_cell off h xs \<noteq> y + off"
    using no_overlap_head[OF assms(1)] no_overlap_cells[OF assms(1)] no_overlap_links[OF assms(1)] by (cases; auto)+
qed

lemma dlist_insert:
  assumes "dlist off m h (xs @ ys)" "no_overlap off h (insert e (set (xs @ ys)))" "e \<notin> set (xs @ ys)"
  shows "dlist off (set_back off ys (e + off) (m(e + off := m (end_cell off h xs), end_cell off h xs := e, e + off + 8 := end_cell off h xs))) h (xs @ e # ys)"
    (is "dlist off ?m h _")
proof -
  note f = dlist_facts[OF assms(1)]
  note n = no_overlap_cells[OF assms(2)] no_overlap_links[OF assms(2)]
  let ?p = "end_cell off h xs" let ?m1 = "m(e + off := m ?p, ?p := e)"
  have p: "?p \<noteq> y + off + 8" if "y \<in> insert e (set (xs @ ys))" for y using end_cell_apart(3)[OF assms(2) _ that, of xs] by auto
  have e: "e + off \<noteq> y + off + 8" if "y \<in> insert e (set (xs @ ys))" for y using n(17)[of e y] that by simp
  have "slist off ?m h (xs @ e # ys)"
  proof (rule slist_cong)
    show "slist off ?m1 h (xs @ e # ys)" using slist_insert[of off m h xs ys e] f(1) assms(2,3) by simp
    show "?m h = ?m1 h" using n(14) by (subst set_back_other) auto
    show "?m (x + off) = ?m1 (x + off)" if "x \<in> set (xs @ e # ys)" for x using n(17)[of x] that by (subst set_back_other) auto
  qed
  moreover have "backed ?m off h (xs @ e # ys)"
  proof -
    let ?m2 = "?m1(e + off + 8 := ?p)"
    have "backed ?m2 off h (xs @ ys)" by (rule backed_cong[OF f(2)]) (use p p[THEN not_sym] e assms(3) in auto)
    then have b: "backed ?m2 off h xs" "backed ?m2 off ?p ys" by (simp_all add: backed_append)
    have "backed ?m off (e + off) ys" by (rule set_back_backed[OF b(2)]) (use f(4) in auto)
    moreover have "backed ?m off h xs" by (rule backed_cong[OF b(1)], subst set_back_other) (use f(4) in auto)
    moreover have "?m (e + off + 8) = ?p" using assms(3) by (subst set_back_other) auto
    ultimately show ?thesis by (simp add: backed_append)
  qed
  ultimately show ?thesis by (simp add: dlist_def)
qed

lemma dlist_remove:
  assumes "dlist off m h (xs @ e # ys)"
  shows "dlist off (set_back off ys (end_cell off h xs) (m(end_cell off h xs := m (e + off)))) h (xs @ ys)" (is "dlist off ?m h _")
proof -
  note f = dlist_facts[OF assms]
  note o = slist_facts(4)[OF f(1)]
  let ?p = "end_cell off h xs" let ?m1 = "m(?p := m (e + off))"
  have p: "?p \<noteq> y + off + 8" if "y \<in> set (xs @ e # ys)" for y using end_cell_apart(3)[OF o _ that, of xs] by auto
  have "slist off ?m h (xs @ ys)"
  proof (rule slist_cong)
    show "slist off ?m1 h (xs @ ys)" by (rule slist_remove[OF f(1)])
    show "?m h = ?m1 h" using f(5) by (subst set_back_other) auto
    show "?m (x + off) = ?m1 (x + off)" if "x \<in> set (xs @ ys)" for x using f(6)[of x] that by (subst set_back_other) auto
  qed
  moreover have "backed ?m off h (xs @ ys)"
  proof -
    have "backed ?m1 off h (xs @ e # ys)" by (rule backed_cong[OF f(2)]) (use p[THEN not_sym] in simp)
    then have b: "backed ?m1 off h xs" "backed ?m1 off (e + off) ys" by (simp_all add: backed_append)
    have "backed ?m off ?p ys" by (rule set_back_backed[OF b(2)]) (use f(4) in auto)
    moreover have "backed ?m off h xs" by (rule backed_cong[OF b(1)], subst set_back_other) (use f(4) in auto)
    ultimately show ?thesis by (simp add: backed_append)
  qed
  ultimately show ?thesis by (simp add: dlist_def)
qed

text \<open>The last change of an insertion and that of a removal commute with the others.\<close>

lemma dlist_first: "dlist off m h xs \<Longrightarrow> m h = (case xs of [] \<Rightarrow> NULL | x # _ \<Rightarrow> x)"
  using slist_facts(3)[of off m h xs] dlist_facts(1)[of off m h xs] by (cases xs) auto

lemma dlist_next: "dlist off m h (xs @ ys) \<Longrightarrow> m (end_cell off h xs) = (case ys of [] \<Rightarrow> NULL | y # _ \<Rightarrow> y)"
  using linked_at[of m off 0 h xs ys] slist_facts(3)[OF dlist_facts(1), of off m h "xs @ ys"] by (auto split: list.splits)

lemma dlist_init: "no_overlap off h {} \<Longrightarrow> \<exists>m'. LIST_INIT h m = Inr m' \<and> dlist off m' h []"
  by (simp add: LIST_INIT_def LIST_END_def dlist_def chain_def no_overlap_def)

lemma dlist_insert_head:
  assumes "dlist off m h xs" "no_overlap off h (insert e (set xs))" "e \<notin> set xs"
  shows "\<exists>m'. LIST_INSERT_HEAD off h e m = Inr m' \<and> dlist off m' h (e # xs)"
proof -
  note f = dlist_facts[OF assms(1)]
  note n = no_overlap_cells[OF assms(2)] no_overlap_links[OF assms(2)]
  have "LIST_INSERT_HEAD off h e m = Inr (set_back off xs (e + off) (m(e + off := m h, h := e, e + off + 8 := h)))"
  proof (cases xs)
    case Nil
    then show ?thesis using dlist_first[OF assms(1)] f(3) n(1)[of e] n(8)[of e] by (simp add: LIST_INSERT_HEAD_def set_back_def add.assoc)
  next
    case (Cons x xs')
    then have "m h = x" using dlist_first[OF assms(1)] by simp
    moreover have "e \<noteq> x" using Cons assms(3) by auto
    ultimately show ?thesis using Cons f(3) n(1,8,11,14)[of e] n(1,8,11,14)[of x] n(17)[of e x] n(17)[of e e]
      by (auto simp: LIST_INSERT_HEAD_def set_back_def fun_eq_iff add.assoc)
  qed
  then show ?thesis using dlist_insert[of off m h "[]" xs e] assms by simp
qed

lemma dlist_insert_after:
  assumes "dlist off m h (xs @ x # ys)" "no_overlap off h (insert e (set (xs @ x # ys)))" "e \<notin> set (xs @ x # ys)"
  shows "\<exists>m'. LIST_INSERT_AFTER off x e m = Inr m' \<and> dlist off m' h (xs @ x # e # ys)"
proof -
  note f = dlist_facts[OF assms(1)]
  note n = no_overlap_cells[OF assms(2)] no_overlap_links[OF assms(2)]
  have next1: "m (x + off) = (case ys of [] \<Rightarrow> NULL | y # _ \<Rightarrow> y)" using dlist_next[of off m h "xs @ [x]" ys] assms(1) by simp
  have "x \<noteq> e" "x \<noteq> NULL" "e \<noteq> NULL" using assms(3) n(1) by auto
  have "LIST_INSERT_AFTER off x e m = Inr (set_back off ys (e + off) (m(e + off := m (x + off), x + off := e, e + off + 8 := x + off)))"
  proof (cases ys)
    case Nil
    then show ?thesis using next1 \<open>x \<noteq> e\<close> \<open>x \<noteq> NULL\<close> \<open>e \<noteq> NULL\<close> by (simp add: LIST_INSERT_AFTER_def set_back_def add.assoc)
  next
    case (Cons y ys')
    then have y: "y \<noteq> NULL" "y \<noteq> e" "y \<noteq> x" using n(1) assms(3) f(4) by auto
    then show ?thesis using next1 Cons \<open>x \<noteq> e\<close> \<open>x \<noteq> NULL\<close> \<open>e \<noteq> NULL\<close> n(17)[of x y] n(17)[of e y] n(17)[of x e]
      by (auto simp: LIST_INSERT_AFTER_def set_back_def fun_eq_iff add.assoc)
  qed
  then show ?thesis using dlist_insert[of off m h "xs @ [x]" ys e] assms by simp
qed

lemma dlist_insert_before:
  assumes "dlist off m h (xs @ x # ys)" "no_overlap off h (insert e (set (xs @ x # ys)))" "e \<notin> set (xs @ x # ys)"
  shows "\<exists>m'. LIST_INSERT_BEFORE off x e m = Inr m' \<and> dlist off m' h (xs @ e # x # ys)"
proof -
  note f = dlist_facts[OF assms(1)]
  note n = no_overlap_cells[OF assms(2)] no_overlap_links[OF assms(2)]
  let ?p = "end_cell off h xs"
  have p: "?p \<noteq> x + off + 8" "?p \<noteq> e + off + 8" "?p \<noteq> e + off" "?p \<noteq> NULL"
    using end_cell_apart[OF assms(2), of xs] assms(3) by (auto simp del: add_left_cancel)
  have "m (x + (off + 8)) = ?p" using backed_at[OF f(2)] by (simp add: add.assoc)
  moreover have "m ?p = x" using dlist_next[of off m h xs "x # ys"] assms(1) by simp
  moreover have "x \<noteq> e" "x \<noteq> NULL" "e \<noteq> NULL" using assms(3) n(1) by auto
  ultimately have "LIST_INSERT_BEFORE off x e m = Inr (set_back off (x # ys) (e + off) (m(e + off := m ?p, ?p := e, e + off + 8 := ?p)))"
    using p n(17)[of e x] n(17)[of e e] by (auto simp: LIST_INSERT_BEFORE_def set_back_def fun_eq_iff add.assoc)
  then show ?thesis using dlist_insert[of off m h xs "x # ys" e] assms by simp
qed

lemma dlist_remove_elm:
  assumes "dlist off m h (xs @ e # ys)"
  shows "\<exists>m'. LIST_REMOVE off e m = Inr m' \<and> dlist off m' h (xs @ ys)"
proof -
  note f = dlist_facts[OF assms]
  let ?p = "end_cell off h xs"
  have p: "?p \<noteq> NULL" "?p \<noteq> y + off + 8" if "y \<in> set (xs @ e # ys)" for y
    using end_cell_apart(1,3)[OF slist_facts(4)[OF f(1)], of xs] that by auto
  have b: "m (e + (off + 8)) = ?p" using backed_at[OF f(2)] by (simp add: add.assoc)
  have n: "m (e + off) = (case ys of [] \<Rightarrow> NULL | y # _ \<Rightarrow> y)" using dlist_next[of off m h "xs @ [e]" ys] assms by simp
  have "LIST_REMOVE off e m = Inr (set_back off ys ?p (m(?p := m (e + off))))"
  proof (cases ys)
    case Nil
    then show ?thesis using b n p[of e] f(5)[of e] by (simp add: LIST_REMOVE_def set_back_def)
  next
    case (Cons y ys')
    moreover have "e \<noteq> y" using f(4) Cons by auto
    ultimately show ?thesis using b n p[of e] p[of y] f(5)[of e] f(5)[of y] f(6)[of e y]
      by (auto simp: LIST_REMOVE_def set_back_def fun_eq_iff add.assoc)
  qed
  then show ?thesis using dlist_remove[OF assms] by simp
qed

lemma set_back_insert_removed:
  assumes "distinct (xs @ e # ys)" "p = end_cell off h xs" "\<And>y. y \<in> set ys \<Longrightarrow> p \<noteq> y + off + 8 \<and> e2 + off \<noteq> y + off + 8 \<and> e2 \<noteq> y"
  shows "set_back off ys (e2 + off) ((set_back off ys p (m(p := v)))(e2 + off := set_back off ys p (m(p := v)) p, p := e2, e2 + off + 8 := p)) =
    set_back off ys (e2 + off) (m(e2 + off := v, p := e2, e2 + off + 8 := p))"
  using assms(3) by (cases ys) (auto simp: set_back_def fun_eq_iff)

lemma dlist_replace:
  assumes "dlist off m h (xs @ e # ys)" "no_overlap off h (insert e2 (set (xs @ e # ys)))" "e2 \<notin> set (xs @ e # ys)"
  shows "dlist off (set_back off ys (e2 + off) (m(e2 + off := m (e + off), end_cell off h xs := e2, e2 + off + 8 := end_cell off h xs))) h (xs @ e2 # ys)"
proof -
  let ?p = "end_cell off h xs"
  have "no_overlap off h (insert e2 (set (xs @ ys)))" by (rule no_overlap_subset[OF assms(2)]) auto
  then have "dlist off (set_back off ys (e2 + off) ((set_back off ys ?p (m(?p := m (e + off))))(e2 + off := set_back off ys ?p (m(?p := m (e + off))) ?p, ?p := e2, e2 + off + 8 := ?p))) h (xs @ e2 # ys)"
    using dlist_insert[OF dlist_remove[OF assms(1)], of e2] assms(3) by simp
  moreover have "?p \<noteq> y + off + 8 \<and> e2 + off \<noteq> y + off + 8 \<and> e2 \<noteq> y" if "y \<in> set ys" for y
    using end_cell_apart(3)[OF assms(2), of xs y] no_overlap_links[OF assms(2), of e2 y] assms(3) that by auto
  ultimately show ?thesis using set_back_insert_removed[of xs e ys ?p off h e2 m "m (e + off)"] dlist_facts(4)[OF assms(1)] by simp
qed

lemma dlist_replace_elm:
  assumes "dlist off m h (xs @ e # ys)" "no_overlap off h (insert e2 (set (xs @ e # ys)))" "e2 \<notin> set (xs @ e # ys)"
  shows "\<exists>m'. LIST_REPLACE off e e2 m = Inr m' \<and> dlist off m' h (xs @ e2 # ys)"
proof -
  note f = dlist_facts[OF assms(1)]
  note n = no_overlap_cells[OF assms(2)] no_overlap_links[OF assms(2)]
  let ?p = "end_cell off h xs"
  have "set xs \<subseteq> insert e2 (set (xs @ e # ys))" by auto
  note p = end_cell_apart[OF assms(2) this]
  have b: "m (e + (off + 8)) = ?p" using backed_at[OF f(2)] by (simp add: add.assoc)
  have nx: "m (e + off) = (case ys of [] \<Rightarrow> NULL | y # _ \<Rightarrow> y)" using dlist_next[of off m h "xs @ [e]" ys] assms(1) by simp
  have e: "e \<noteq> e2" "e \<noteq> NULL" "e2 \<noteq> NULL" using assms(3) n(1) by auto
  have "LIST_REPLACE off e e2 m = Inr (set_back off ys (e2 + off) (m(e2 + off := m (e + off), ?p := e2, e2 + off + 8 := ?p)))"
  proof (cases ys)
    case Nil
    then show ?thesis using b nx e p(1) p(3)[of e2] p(4)[of e2] n(17)[of e2 e] assms(3)
      by (auto simp: LIST_REPLACE_def set_back_def add.assoc fun_eq_iff)
  next
    case (Cons y ys')
    then have y: "y \<noteq> NULL" "y \<noteq> e" "y \<noteq> e2" using n(1) assms(3) f(4) by auto
    then show ?thesis using Cons b nx e p(1) p(3)[of e2] p(3)[of y] p(4)[of e2] n(17)[of e2 e] n(17)[of e2 y] n(17)[of e2 e2] assms(3)
      by (auto simp: LIST_REPLACE_def set_back_def fun_eq_iff add.assoc)
  qed
  then show ?thesis using dlist_replace[OF assms] by simp
qed

interpretation dl: link_list "dlist off" "\<lambda>h S. no_overlap off h S" "LIST_INSERT_HEAD off" LIST_EMPTY LIST_FIRST "\<lambda>h. LIST_NEXT off" LIST_END
  for off
proof unfold_locales
  fix m h xs
  assume a: "dlist off m h xs"
  show "distinct xs" by (rule dlist_facts(4)[OF a])
  show "LIST_EMPTY h m = Inr (xs = [])" "LIST_FIRST h m = Inr (case xs of [] \<Rightarrow> LIST_END h | x # _ \<Rightarrow> x)" "LIST_END h \<notin> set xs"
    using dlist_first[OF a] dlist_facts(3,5)[OF a] by (cases xs; auto simp: LIST_EMPTY_def LIST_FIRST_def LIST_END_def)+
next
  fix m h xs x ys
  assume a: "dlist off m h (xs @ x # ys)"
  then show "LIST_NEXT off x m = Inr (case ys of [] \<Rightarrow> LIST_END h | y # _ \<Rightarrow> y)"
    using dlist_next[of off m h "xs @ [x]" ys] dlist_facts(5)[OF a, of x] by (auto simp: LIST_NEXT_def LIST_END_def split: list.splits)
qed (use no_overlap_subset dlist_insert_head in auto)

section \<open>Tail queues\<close>

definition tailq :: "u64 \<Rightarrow> ptrs \<Rightarrow> addr \<Rightarrow> addr list \<Rightarrow> bool" where
  "tailq off m h xs \<longleftrightarrow> dlist off m h xs \<and> m (h + 8) = end_cell off h xs"

lemma tailq_facts: "tailq off m h xs \<Longrightarrow> dlist off m h xs" "tailq off m h xs \<Longrightarrow> m (h + 8) = end_cell off h xs"
  by (simp_all add: tailq_def)

lemma dlist_last: "dlist off m h xs \<Longrightarrow> dlist off (m(h + 8 := v)) h xs"
proof -
  assume a: "dlist off m h xs"
  have "backed (m(h + 8 := v)) off h xs" by (rule backed_cong[OF dlist_facts(2)[OF a]]) (use dlist_facts(5)[OF a] in fastforce)
  then show ?thesis using chain_other[OF dlist_facts(1)[OF a]] by (simp add: dlist_def)
qed

lemma tailq_last: "dlist off m h xs \<Longrightarrow> v = end_cell off h xs \<Longrightarrow> tailq off (m(h + 8 := v)) h xs"
  by (simp add: tailq_def dlist_last)

lemma tailq_insert:
  assumes "tailq off m h (xs @ ys)" "no_overlap off h (insert e (set (xs @ ys)))" "e \<notin> set (xs @ ys)"
  shows "tailq off ((set_back off ys (e + off) (m(e + off := m (end_cell off h xs), end_cell off h xs := e, e + off + 8 := end_cell off h xs)))
    (h + 8 := (if ys = [] then e + off else m (h + 8)))) h (xs @ e # ys)"
  using dlist_insert[OF tailq_facts(1)[OF assms(1)] assms(2,3)] tailq_facts(2)[OF assms(1)]
  by (intro tailq_last) (simp_all add: end_cell_def)

lemma tailq_remove:
  assumes "tailq off m h (xs @ e # ys)"
  shows "tailq off ((set_back off ys (end_cell off h xs) (m(end_cell off h xs := m (e + off))))
    (h + 8 := (if ys = [] then end_cell off h xs else m (h + 8)))) h (xs @ ys)"
  using dlist_remove[OF tailq_facts(1)[OF assms(1)]] tailq_facts(2)[OF assms(1)]
  by (intro tailq_last) (simp_all add: end_cell_def)

lemma tailq_replace:
  assumes "tailq off m h (xs @ e # ys)" "no_overlap off h (insert e2 (set (xs @ e # ys)))" "e2 \<notin> set (xs @ e # ys)"
  shows "tailq off ((set_back off ys (e2 + off) (m(e2 + off := m (e + off), end_cell off h xs := e2, e2 + off + 8 := end_cell off h xs)))
    (h + 8 := (if ys = [] then e2 + off else m (h + 8)))) h (xs @ e2 # ys)"
  using dlist_replace[OF tailq_facts(1)[OF assms(1)] assms(2,3)] tailq_facts(2)[OF assms(1)]
  by (intro tailq_last) (simp_all add: end_cell_def)

lemma tailq_init: "no_overlap off h {} \<Longrightarrow> \<exists>m'. TAILQ_INIT h m = Inr m' \<and> tailq off m' h []"
  by (simp add: TAILQ_INIT_def tailq_def dlist_def chain_def no_overlap_def)

text \<open>The facts that the proofs about single macros share.\<close>

lemma tailq_parts:
  assumes "tailq off m h (xs @ ys)" "no_overlap off h S" "set (xs @ ys) \<subseteq> S"
  shows "h \<noteq> NULL" "distinct (xs @ ys)" "m (end_cell off h xs) = (case ys of [] \<Rightarrow> NULL | y # _ \<Rightarrow> y)"
    "m (h + 8) = end_cell off h (xs @ ys)" "end_cell off h xs \<noteq> NULL" "end_cell off h xs \<noteq> h + 8"
    "\<And>y. y \<in> S \<Longrightarrow> end_cell off h xs \<noteq> y + off + 8" "\<And>y. y \<in> S \<Longrightarrow> y \<notin> set xs \<Longrightarrow> end_cell off h xs \<noteq> y + off"
    "\<And>x. x \<in> set (xs @ ys) \<Longrightarrow> x \<noteq> NULL"
  using dlist_facts[OF tailq_facts(1)[OF assms(1)]] dlist_next[OF tailq_facts(1)[OF assms(1)]] tailq_facts(2)[OF assms(1)]
    end_cell_apart[OF assms(2), of xs] assms(3) by auto

lemma tailq_insert_head:
  assumes "tailq off m h xs" "no_overlap off h (insert e (set xs))" "e \<notin> set xs"
  shows "\<exists>m'. TAILQ_INSERT_HEAD off h e m = Inr m' \<and> tailq off m' h (e # xs)"
proof -
  have a: "tailq off m h ([] @ xs)" "set ([] @ xs) \<subseteq> insert e (set xs)" using assms(1) by auto
  note t = tailq_parts[OF a(1) assms(2) a(2)]
  note n = no_overlap_cells[OF assms(2)] no_overlap_links[OF assms(2)]
  have "TAILQ_INSERT_HEAD off h e m = Inr ((set_back off xs (e + off) (m(e + off := m h, h := e, e + off + 8 := h)))
      (h + 8 := (if xs = [] then e + off else m (h + 8))))"
  proof (cases xs)
    case Nil
    then show ?thesis using t n(1,6,8,14,15)[of e] by (auto simp: TAILQ_INSERT_HEAD_def set_back_def add.assoc fun_eq_iff)
  next
    case (Cons x xs')
    moreover have "e \<noteq> x" using Cons assms(3) by auto
    ultimately show ?thesis using t n(1,6,8,11,14,15)[of e] n(1,6,8,11,14,15)[of x] n(17)[of e x] n(17)[of e e]
      by (auto simp: TAILQ_INSERT_HEAD_def set_back_def fun_eq_iff add.assoc)
  qed
  then show ?thesis using tailq_insert[of off m h "[]" xs e] assms by simp
qed

lemma tailq_insert_tail:
  assumes "tailq off m h xs" "no_overlap off h (insert e (set xs))" "e \<notin> set xs"
  shows "\<exists>m'. TAILQ_INSERT_TAIL off h e m = Inr m' \<and> tailq off m' h (xs @ [e])"
proof -
  have a: "tailq off m h (xs @ [])" "set (xs @ []) \<subseteq> insert e (set xs)" using assms(1) by auto
  note t = tailq_parts[OF a(1) assms(2) a(2)]
  note n = no_overlap_cells[OF assms(2)] no_overlap_links[OF assms(2)]
  have "TAILQ_INSERT_TAIL off h e m = Inr ((set_back off [] (e + off) (m(e + off := m (end_cell off h xs), end_cell off h xs := e, e + off + 8 := end_cell off h xs)))
      (h + 8 := e + off))"
    using t(1,3,4,5,6) t(7)[of e] t(8)[of e] n(1,6,8,14,15)[of e] assms(3)
    by (auto simp: TAILQ_INSERT_TAIL_def set_back_def add.assoc fun_eq_iff)
  then show ?thesis using tailq_insert[of off m h xs "[]" e] assms by simp
qed

lemma tailq_insert_after:
  assumes "tailq off m h (xs @ x # ys)" "no_overlap off h (insert e (set (xs @ x # ys)))" "e \<notin> set (xs @ x # ys)"
  shows "\<exists>m'. TAILQ_INSERT_AFTER off h x e m = Inr m' \<and> tailq off m' h (xs @ x # e # ys)"
proof -
  have a: "tailq off m h ((xs @ [x]) @ ys)" "set ((xs @ [x]) @ ys) \<subseteq> insert e (set (xs @ x # ys))" using assms(1) by auto
  note t = tailq_parts[OF a(1) assms(2) a(2)]
  note n = no_overlap_cells[OF assms(2)] no_overlap_links[OF assms(2)]
  have x: "x \<noteq> e" "x \<noteq> NULL" "e \<noteq> NULL" using assms(3) n(1) by auto
  have "TAILQ_INSERT_AFTER off h x e m = Inr ((set_back off ys (e + off) (m(e + off := m (x + off), x + off := e, e + off + 8 := x + off)))
      (h + 8 := (if ys = [] then e + off else m (h + 8))))"
  proof (cases ys)
    case Nil
    then show ?thesis using t(1,3,4) x n(6,8,14,15)[of e] n(6)[of x] n(17)[of x e] by (auto simp: TAILQ_INSERT_AFTER_def set_back_def add.assoc fun_eq_iff)
  next
    case (Cons y ys')
    moreover have "y \<noteq> NULL" "y \<noteq> e" "y \<noteq> x" using n(1) assms(3) t(2) Cons by auto
    ultimately show ?thesis using t(1,3,4) x n(6,8,14,15)[of e] n(6)[of x] n(6,14,15)[of y] n(17)[of x y] n(17)[of e y] n(17)[of x e]
      by (auto simp: TAILQ_INSERT_AFTER_def set_back_def fun_eq_iff add.assoc)
  qed
  then show ?thesis using tailq_insert[of off m h "xs @ [x]" ys e] assms by simp
qed

lemma tailq_insert_before:
  assumes "tailq off m h (xs @ x # ys)" "no_overlap off h (insert e (set (xs @ x # ys)))" "e \<notin> set (xs @ x # ys)"
  shows "\<exists>m'. TAILQ_INSERT_BEFORE off x e m = Inr m' \<and> tailq off m' h (xs @ e # x # ys)"
proof -
  have a: "set (xs @ x # ys) \<subseteq> insert e (set (xs @ x # ys))" by auto
  note t = tailq_parts[OF assms(1,2) a]
  note n = no_overlap_cells[OF assms(2)] no_overlap_links[OF assms(2)]
  let ?p = "end_cell off h xs"
  have b: "m (x + (off + 8)) = ?p" using backed_at[OF dlist_facts(2)[OF tailq_facts(1)[OF assms(1)]]] by (simp add: add.assoc)
  have x: "x \<noteq> e" "x \<noteq> NULL" "e \<noteq> NULL" using assms(3) n(1) by auto
  have "TAILQ_INSERT_BEFORE off x e m = Inr ((set_back off (x # ys) (e + off) (m(e + off := m ?p, ?p := e, e + off + 8 := ?p)))(h + 8 := m (h + 8)))"
    using b x t(1,3,4,5,6) t(7)[of e] t(7)[of x] t(8)[of e] n(6,8,14,15)[of e] n(6,14,15)[of x] n(17)[of e x] n(17)[of e e] assms(3)
    by (auto simp: TAILQ_INSERT_BEFORE_def set_back_def fun_eq_iff add.assoc)
  then show ?thesis using tailq_insert[of off m h xs "x # ys" e] assms by simp
qed

lemma tailq_remove_elm:
  assumes "tailq off m h (xs @ e # ys)"
  shows "\<exists>m'. TAILQ_REMOVE off h e m = Inr m' \<and> tailq off m' h (xs @ ys)"
proof -
  note o = slist_facts(4)[OF dlist_facts(1)[OF tailq_facts(1)[OF assms]]]
  note t = tailq_parts[OF assms o order_refl]
  note n = no_overlap_cells[OF o] no_overlap_links[OF o]
  let ?p = "end_cell off h xs"
  have b: "m (e + (off + 8)) = ?p" using backed_at[OF dlist_facts(2)[OF tailq_facts(1)[OF assms]]] by (simp add: add.assoc)
  have nx: "m (e + off) = (case ys of [] \<Rightarrow> NULL | y # _ \<Rightarrow> y)" using dlist_next[of off m h "xs @ [e]" ys] tailq_facts(1)[OF assms] by simp
  have "TAILQ_REMOVE off h e m = Inr ((set_back off ys ?p (m(?p := m (e + off))))(h + 8 := (if ys = [] then ?p else m (h + 8))))"
  proof (cases ys)
    case Nil
    then show ?thesis using b nx t(1,5,6) t(7)[of e] n(1,6,14,15)[of e] by (auto simp: TAILQ_REMOVE_def set_back_def fun_eq_iff add.assoc)
  next
    case (Cons y ys')
    moreover have "e \<noteq> y" using t(2) Cons by auto
    ultimately show ?thesis using b nx t(1,5,6) t(7)[of e] t(7)[of y] n(1,6,14,15)[of e] n(1,6,14,15)[of y] n(17)[of e y]
      by (auto simp: TAILQ_REMOVE_def set_back_def fun_eq_iff add.assoc)
  qed
  then show ?thesis using tailq_remove[OF assms] by simp
qed

lemma tailq_replace_elm:
  assumes "tailq off m h (xs @ e # ys)" "no_overlap off h (insert e2 (set (xs @ e # ys)))" "e2 \<notin> set (xs @ e # ys)"
  shows "\<exists>m'. TAILQ_REPLACE off h e e2 m = Inr m' \<and> tailq off m' h (xs @ e2 # ys)"
proof -
  have a: "set (xs @ e # ys) \<subseteq> insert e2 (set (xs @ e # ys))" by auto
  note t = tailq_parts[OF assms(1,2) a]
  note n = no_overlap_cells[OF assms(2)] no_overlap_links[OF assms(2)]
  let ?p = "end_cell off h xs"
  have b: "m (e + (off + 8)) = ?p" using backed_at[OF dlist_facts(2)[OF tailq_facts(1)[OF assms(1)]]] by (simp add: add.assoc)
  have nx: "m (e + off) = (case ys of [] \<Rightarrow> NULL | y # _ \<Rightarrow> y)" using dlist_next[of off m h "xs @ [e]" ys] tailq_facts(1)[OF assms(1)] by simp
  have e: "e \<noteq> e2" "e \<noteq> NULL" "e2 \<noteq> NULL" using assms(3) n(1) by auto
  have "TAILQ_REPLACE off h e e2 m = Inr ((set_back off ys (e2 + off) (m(e2 + off := m (e + off), ?p := e2, e2 + off + 8 := ?p)))
      (h + 8 := (if ys = [] then e2 + off else m (h + 8))))"
  proof (cases ys)
    case Nil
    then show ?thesis using b nx e t(1,5,6) t(7)[of e2] t(8)[of e2] n(17)[of e2 e] n(6,14,15)[of e2] n(14,15)[of e] assms(3)
      by (auto simp: TAILQ_REPLACE_def set_back_def fun_eq_iff add.assoc)
  next
    case (Cons y ys')
    then have y: "y \<noteq> NULL" "y \<noteq> e" "y \<noteq> e2" using n(1) assms(3) t(2) by auto
    then show ?thesis
      using Cons b nx e t(1,5,6) t(7)[of e2] t(7)[of y] t(8)[of e2] n(17)[of e2 e] n(17)[of e2 y] n(17)[of e2 e2] n(6,14,15)[of e2] n(6,14,15)[of y] assms(3)
      by (auto simp: TAILQ_REPLACE_def set_back_def fun_eq_iff add.assoc)
  qed
  then show ?thesis using tailq_replace[OF assms] by simp
qed

section \<open>Traversal of tail queues\<close>

text \<open>The element that a cell of the queue belongs to, read through the back pointer behind it.\<close>

lemma tailq_cell:
  assumes "tailq off m h (xs @ ys)"
  shows "andthen (getp (end_cell off h xs) 8 m) (\<lambda>p. getp p 0 m) = Inr (if xs = [] then NULL else last xs)"
proof (cases xs rule: rev_cases)
  case Nil
  note f = dlist_facts[OF tailq_facts(1)[OF assms]]
  have "m (end_cell off h ys) = NULL" using dlist_next[of off m h ys "[]"] tailq_facts(1)[OF assms] Nil by simp
  moreover have "end_cell off h ys \<noteq> NULL" using end_cell_apart(1)[OF slist_facts(4)[OF f(1)], of ys] Nil by simp
  ultimately show ?thesis using Nil f(3) tailq_facts(2)[OF assms] by simp
next
  case (snoc zs z)
  note f = dlist_facts[OF tailq_facts(1)[OF assms]]
  have z: "z + off \<noteq> NULL" using f(5)[of z] snoc by simp
  have "m (z + off + 8) = end_cell off h zs" using backed_at[of m off h zs z ys] f(2) snoc by simp
  moreover have "m (end_cell off h zs) = z" using dlist_next[of off m h zs "z # ys"] tailq_facts(1)[OF assms] snoc by simp
  moreover have "end_cell off h zs \<noteq> NULL" using end_cell_apart(1)[OF slist_facts(4)[OF f(1)], of zs] snoc by auto
  ultimately show ?thesis using snoc z by simp
qed

lemma tailq_LAST: "tailq off m h xs \<Longrightarrow> TAILQ_LAST h m = Inr (if xs = [] then NULL else last xs)"
  using tailq_cell[of off m h xs "[]"] tailq_facts(2)[of off m h xs] dlist_facts(3)[OF tailq_facts(1), of off m h xs]
  by (simp add: TAILQ_LAST_def)

lemma tailq_PREV:
  assumes "tailq off m h (xs @ x # ys)"
  shows "TAILQ_PREV off x m = Inr (if xs = [] then NULL else last xs)"
proof -
  note f = dlist_facts[OF tailq_facts(1)[OF assms]]
  have "m (x + (off + 8)) = end_cell off h xs" using backed_at[OF f(2)] by (simp add: add.assoc)
  then show ?thesis using tailq_cell[OF assms] f(5)[of x] by (simp add: TAILQ_PREV_def)
qed

definition TAILQ_remove_first :: "u64 \<Rightarrow> addr \<Rightarrow> ptrs \<Rightarrow> ptrs outcome" where
  "TAILQ_remove_first off h m = andthen (TAILQ_FIRST h m) (\<lambda>x. TAILQ_REMOVE off h x m)"

lemma tailq_accessors:
  assumes "tailq off m h xs"
  shows "TAILQ_EMPTY h m = Inr (xs = [])" "TAILQ_FIRST h m = Inr (case xs of [] \<Rightarrow> TAILQ_END h | x # _ \<Rightarrow> x)" "TAILQ_END h \<notin> set xs"
  using dlist_first[OF tailq_facts(1)[OF assms]] dlist_facts(3,5)[OF tailq_facts(1)[OF assms]]
  by (cases xs; auto simp: TAILQ_EMPTY_def TAILQ_FIRST_def TAILQ_END_def)+

lemma tailq_NEXT:
  "tailq off m h (xs @ x # ys) \<Longrightarrow> TAILQ_NEXT off x m = Inr (case ys of [] \<Rightarrow> TAILQ_END h | y # _ \<Rightarrow> y)"
  using dlist_next[of off m h "xs @ [x]" ys] dlist_facts(5)[OF tailq_facts(1), of off m h "xs @ x # ys" x] tailq_facts(1)
  by (auto simp: TAILQ_NEXT_def TAILQ_END_def split: list.splits)

interpretation tq: link_queue "tailq off" "\<lambda>h S. no_overlap off h S" "TAILQ_INSERT_HEAD off" TAILQ_EMPTY TAILQ_FIRST "\<lambda>h. TAILQ_NEXT off" TAILQ_END
  "TAILQ_INSERT_TAIL off" "TAILQ_remove_first off"
  for off
proof unfold_locales
  fix m h x xs
  assume a: "tailq off m h (x # xs)"
  show "\<exists>m'. TAILQ_remove_first off h m = Inr m' \<and> tailq off m' h xs"
    using tailq_remove_elm[of off m h "[]" x xs] tailq_accessors(2)[OF a] a by (simp add: TAILQ_remove_first_def)
qed (use no_overlap_subset tailq_insert_head tailq_insert_tail tailq_accessors tailq_NEXT dlist_facts(4)[OF tailq_facts(1)] in auto)

text \<open>Read backwards, a tail queue is again a list, with its end as the head.\<close>

interpretation tr: link_list "\<lambda>m h xs. tailq off m h (rev xs)" "\<lambda>h S. no_overlap off h S" "TAILQ_INSERT_TAIL off" TAILQ_EMPTY TAILQ_LAST "\<lambda>h. TAILQ_PREV off" TAILQ_END
  for off
proof unfold_locales
  fix m h xs
  assume a: "tailq off m h (rev xs)"
  show "distinct xs" using dlist_facts(4)[OF tailq_facts(1)[OF a]] by simp
  show "TAILQ_EMPTY h m = Inr (xs = [])" "TAILQ_END h \<notin> set xs" using tailq_accessors[OF a] by simp_all
  show "TAILQ_LAST h m = Inr (case xs of [] \<Rightarrow> TAILQ_END h | x # _ \<Rightarrow> x)"
    using tailq_LAST[OF a] by (cases xs) (simp_all add: TAILQ_END_def)
next
  fix m h xs x ys
  assume "tailq off m h (rev (xs @ x # ys))"
  then show "TAILQ_PREV off x m = Inr (case ys of [] \<Rightarrow> TAILQ_END h | y # _ \<Rightarrow> y)"
    using tailq_PREV[of off m h "rev ys" x "rev xs"] by (cases ys) (simp_all add: TAILQ_END_def)
qed (use no_overlap_subset tailq_insert_tail in auto)

end
