(* ===== verification/Queue_Circular.thy ===== *)
theory Queue_Circular
  imports Queue_Memory Queue
begin

text \<open>Circular queues: the head takes part in the ring, as if it were an element.\<close>

section \<open>Rings\<close>

text \<open>The cells of the forward and of the backward pointer of an element or of the head.\<close>

definition nx :: "u64 \<Rightarrow> addr \<Rightarrow> addr \<Rightarrow> addr" where
  "nx off h p = (if p = h then h else p + off)"

definition pv :: "u64 \<Rightarrow> addr \<Rightarrow> addr \<Rightarrow> addr" where
  "pv off h p = (if p = h then h + 8 else p + off + 8)"

definition joined :: "u64 \<Rightarrow> addr \<Rightarrow> ptrs \<Rightarrow> addr \<Rightarrow> addr \<Rightarrow> bool" where
  "joined off h m p q \<longleftrightarrow> m (nx off h p) = q \<and> m (pv off h q) = p"

definition circleq :: "u64 \<Rightarrow> ptrs \<Rightarrow> addr \<Rightarrow> addr list \<Rightarrow> bool" where
  "circleq off m h xs \<longleftrightarrow> no_overlap off h (set xs) \<and> distinct xs \<and> successively (joined off h m) (h # xs @ [h])"

lemma cells_distinct:
  assumes "no_overlap off h S" "a \<in> insert h S" "b \<in> insert h S"
  shows "nx off h a = nx off h b \<longleftrightarrow> a = b" "pv off h a = pv off h b \<longleftrightarrow> a = b" "nx off h a \<noteq> pv off h b" "pv off h a \<noteq> nx off h b"
proof -
  have hx: "h \<noteq> x + off" "h + 8 \<noteq> x + off" "x + off + 8 \<noteq> h" "x + off + 8 \<noteq> h + 8" if "x \<in> S" for x
    using no_overlap_cells(5,6,11,12)[OF assms(1) that] .
  have xy: "x + off \<noteq> y + off + 8" if "x \<in> S" "y \<in> S" for x y using no_overlap_links[OF assms(1) that] by blast
  show "nx off h a = nx off h b \<longleftrightarrow> a = b" unfolding nx_def using assms(2,3) hx(1) by (metis add_right_cancel insertE)
  show "pv off h a = pv off h b \<longleftrightarrow> a = b" unfolding pv_def using assms(2,3) hx(4) by (metis add_right_cancel insertE)
  have *: "nx off h x \<noteq> pv off h y" if "x \<in> insert h S" "y \<in> insert h S" for x y
  proof (cases "x = h"; cases "y = h")
    assume "x = h" "y = h" then show ?thesis by (simp add: nx_def pv_def)
  next
    assume "x = h" "y \<noteq> h" then show ?thesis using hx(3)[of y] that by (auto simp: nx_def pv_def)
  next
    assume "x \<noteq> h" "y = h" then show ?thesis using hx(2)[of x] that by (auto simp: nx_def pv_def)
  next
    assume "x \<noteq> h" "y \<noteq> h" then show ?thesis using xy[of x y] that by (auto simp: nx_def pv_def)
  qed
  show "nx off h a \<noteq> pv off h b" "pv off h a \<noteq> nx off h b" using *[OF assms(2,3)] *[OF assms(3,2)] by auto
qed

lemma successively_inner:
  assumes "successively P xs" "\<And>x y. x \<in> set (butlast xs) \<Longrightarrow> y \<in> set (tl xs) \<Longrightarrow> P x y \<Longrightarrow> Q x y"
  shows "successively Q xs"
  using assms
proof (induction xs rule: induct_list012)
  case (3 x y zs)
  then have "successively Q (y # zs)" by (intro "3.IH"(2)) (auto split: if_splits)
  then show ?case using 3 by simp
qed simp_all

lemma circleq_parts:
  "circleq off m h (xs @ ys) \<longleftrightarrow> no_overlap off h (set (xs @ ys)) \<and> distinct (xs @ ys) \<and>
    successively (joined off h m) (h # xs) \<and> successively (joined off h m) (ys @ [h]) \<and> joined off h m (last (h # xs)) (hd (ys @ [h]))"
proof -
  have "h # (xs @ ys) @ [h] = (h # xs) @ (ys @ [h])" by simp
  then show ?thesis unfolding circleq_def by (simp only: successively_append_iff) auto
qed

lemma last_hd_distinct:
  "distinct zs \<Longrightarrow> zs \<noteq> [] \<Longrightarrow> last zs \<notin> set (butlast zs)" "distinct zs \<Longrightarrow> zs \<noteq> [] \<Longrightarrow> hd zs \<notin> set (tl zs)"
  by (cases zs rule: rev_cases; simp) (cases zs; simp)

lemma successively_insert:
  "successively P (a # xs) \<Longrightarrow> successively P (ys @ [b]) \<Longrightarrow> P (last (a # xs)) e \<Longrightarrow> P e (hd (ys @ [b])) \<Longrightarrow>
    successively P ((a # xs) @ e # (ys @ [b]))"
  unfolding successively_append_iff[of P "a # xs"] successively_Cons[of P e] by simp

text \<open>The neighbours of the place after \<open>xs\<close>.\<close>

lemma ring_place:
  assumes "no_overlap off h (set (xs @ ys))" "distinct (xs @ ys)" "p = last (h # xs)" "q = hd (ys @ [h])"
  shows "h \<notin> set (xs @ ys)" "p \<in> insert h (set (xs @ ys))" "q \<in> insert h (set (xs @ ys))" "p \<notin> set (butlast (h # xs))" "p \<notin> set ys"
    "q \<notin> set xs" "q \<notin> set (tl (ys @ [h]))"
proof -
  show h: "h \<notin> set (xs @ ys)" using no_overlap_cells(2)[OF assms(1)] by blast
  have d: "distinct (h # xs)" "distinct (ys @ [h])" using h assms(2) by auto
  show "p \<in> insert h (set (xs @ ys))" "p \<notin> set ys" using assms(2,3) h by (auto simp: last_in_set split: if_splits dest: last_in_set)
  show "q \<in> insert h (set (xs @ ys))" "q \<notin> set xs" using assms(2,4) h by (auto simp: hd_append split: if_splits dest: hd_in_set)
  show "p \<notin> set (butlast (h # xs))" using last_hd_distinct(1)[OF d(1)] assms(3) by simp
  show "q \<notin> set (tl (ys @ [h]))" using last_hd_distinct(2)[OF d(2)] assms(4) by simp
qed

text \<open>A change of the pointers between the neighbours leaves both parts of the ring alone.\<close>

lemma ring_untouched:
  assumes "no_overlap off h (set (xs @ ys))" "distinct (xs @ ys)" "p = last (h # xs)" "q = hd (ys @ [h])"
    "successively (joined off h m) (h # xs)" "successively (joined off h m) (ys @ [h])"
    "\<And>z. z \<in> insert h (set (xs @ ys)) \<Longrightarrow> z \<noteq> p \<Longrightarrow> m' (nx off h z) = m (nx off h z)"
    "\<And>z. z \<in> insert h (set (xs @ ys)) \<Longrightarrow> z \<noteq> q \<Longrightarrow> m' (pv off h z) = m (pv off h z)"
  shows "successively (joined off h m') (h # xs)" "successively (joined off h m') (ys @ [h])"
proof -
  note r = ring_place[OF assms(1-4)]
  show "successively (joined off h m') (h # xs)"
  proof (rule successively_inner[OF assms(5)])
    fix x y assume x: "x \<in> set (butlast (h # xs))" and y: "y \<in> set (tl (h # xs))" and "joined off h m x y"
    moreover have "x \<in> insert h (set (xs @ ys))" "x \<noteq> p" using in_set_butlastD[OF x] x r(4) by auto
    moreover have "y \<in> insert h (set (xs @ ys))" "y \<noteq> q" using y r(6) by auto
    ultimately show "joined off h m' x y" using assms(7)[of x] assms(8)[of y] by (simp add: joined_def)
  qed
  show "successively (joined off h m') (ys @ [h])"
  proof (rule successively_inner[OF assms(6)])
    fix x y assume x: "x \<in> set (butlast (ys @ [h]))" and y: "y \<in> set (tl (ys @ [h]))" and "joined off h m x y"
    moreover have "x \<in> insert h (set (xs @ ys))" "x \<noteq> p" using x r(5) by auto
    moreover have "y \<in> insert h (set (xs @ ys))" "y \<noteq> q" using y r(7) list.set_sel(2)[of "ys @ [h]" y] by auto
    ultimately show "joined off h m' x y" using assms(7)[of x] assms(8)[of y] by (simp add: joined_def)
  qed
qed

lemma circleq_insert:
  assumes "circleq off m h (xs @ ys)" "no_overlap off h (insert e (set (xs @ ys)))" "e \<notin> set (xs @ ys)"
    "p = last (h # xs)" "q = hd (ys @ [h])"
  shows "circleq off (m(nx off h e := q, pv off h e := p, pv off h q := e, nx off h p := e)) h (xs @ e # ys)" (is "circleq off ?m h _")
proof -
  note c = assms(1)[unfolded circleq_parts]
  let ?S = "insert e (set (xs @ ys))"
  note r = ring_place[OF conjunct1[OF c] conjunct1[OF conjunct2[OF c]] assms(4,5)]
  have eh: "e \<noteq> h" using no_overlap_cells(2)[OF assms(2), of e] by simp
  have S: "p \<in> insert h ?S" "q \<in> insert h ?S" "e \<in> insert h ?S" and ne: "e \<noteq> p" "e \<noteq> q" using r(2,3) assms(3) eh by auto
  note d = cells_distinct[OF assms(2)]
  have nxs: "?m (nx off h z) = m (nx off h z)" if "z \<in> insert h (set (xs @ ys))" "z \<noteq> p" for z
  proof -
    have z: "z \<in> insert h ?S" "z \<noteq> e" using that assms(3) eh by auto
    show ?thesis using that(2) z(2) d[OF z(1) S(1)] d[OF z(1) S(2)] d[OF z(1) S(3)] by simp
  qed
  have pvs: "?m (pv off h z) = m (pv off h z)" if "z \<in> insert h (set (xs @ ys))" "z \<noteq> q" for z
  proof -
    have z: "z \<in> insert h ?S" "z \<noteq> e" using that assms(3) eh by auto
    show ?thesis using that(2) z(2) d[OF z(1) S(1)] d[OF z(1) S(2)] d[OF z(1) S(3)] by simp
  qed
  have "successively (joined off h ?m) (h # xs)" "successively (joined off h ?m) (ys @ [h])"
    using ring_untouched[OF _ _ assms(4,5) _ _ nxs pvs] c by blast+
  moreover have "joined off h ?m p e" "joined off h ?m e q"
    using ne d[OF S(3,1)] d[OF S(3,2)] d[OF S(2,1)] d[OF S(3,3)] by (simp_all add: joined_def)
  ultimately have "successively (joined off h ?m) ((h # xs) @ e # (ys @ [h]))"
    using successively_insert[of "joined off h ?m" h xs ys h e, folded assms(4,5)] by blast
  then show ?thesis using assms(2,3) c by (auto simp: circleq_def)
qed

lemma circleq_remove:
  assumes "circleq off m h (xs @ e # ys)" "p = last (h # xs)" "q = hd (ys @ [h])"
  shows "circleq off (m(pv off h q := p, nx off h p := q)) h (xs @ ys)" (is "circleq off ?m h _")
proof -
  note c = assms(1)[unfolded circleq_def]
  have o: "no_overlap off h (set (xs @ ys))" by (rule no_overlap_subset[OF conjunct1[OF c]]) auto
  have ds: "distinct (xs @ ys)" using c by auto
  note r = ring_place[OF o ds assms(2,3)]
  note d = cells_distinct[OF o]
  have "h # (xs @ e # ys) @ [h] = (h # xs) @ e # (ys @ [h])" by simp
  then have ring: "successively (joined off h m) (h # xs)" "successively (joined off h m) (ys @ [h])"
    using c by (simp_all only: successively_append_iff successively_Cons) auto
  have nxs: "?m (nx off h z) = m (nx off h z)" if "z \<in> insert h (set (xs @ ys))" "z \<noteq> p" for z
    using that(2) d[OF that(1) r(2)] d[OF that(1) r(3)] by simp
  have pvs: "?m (pv off h z) = m (pv off h z)" if "z \<in> insert h (set (xs @ ys))" "z \<noteq> q" for z
    using that(2) d[OF that(1) r(2)] d[OF that(1) r(3)] by simp
  note u = ring_untouched[OF o ds assms(2,3) ring nxs pvs]
  have j: "joined off h ?m p q" using d[OF r(3,2)] by (simp add: joined_def)
  show ?thesis unfolding circleq_parts assms(2,3)[symmetric] using o ds u j by blast
qed

section \<open>The macros\<close>

lemma circleq_facts:
  assumes "circleq off m h (xs @ ys)" "p = last (h # xs)" "q = hd (ys @ [h])"
  shows "h \<noteq> NULL" "m (nx off h p) = q" "m (pv off h q) = p" "distinct (xs @ ys)" "no_overlap off h (set (xs @ ys))" "NULL \<notin> set (xs @ ys)" "h \<notin> set (xs @ ys)"
proof -
  note c = assms(1)[unfolded circleq_parts]
  show o: "no_overlap off h (set (xs @ ys))" "distinct (xs @ ys)" using c by auto
  show "h \<noteq> NULL" "NULL \<notin> set (xs @ ys)" "h \<notin> set (xs @ ys)" using no_overlap_head[OF o(1)] no_overlap_cells(1,2)[OF o(1)] by blast+
  show "m (nx off h p) = q" "m (pv off h q) = p" unfolding assms(2,3) using c by (auto simp: joined_def)
qed

text \<open>The accesses of the macros in terms of cells; the choice between the head and an element is that of its cell.\<close>

lemma cell_access:
  "h \<noteq> NULL \<Longrightarrow> getp h 0 m = Inr (m (nx off h h))" "h \<noteq> NULL \<Longrightarrow> getp h 8 m = Inr (m (pv off h h))"
  "h \<noteq> NULL \<Longrightarrow> putp h 0 v m = Inr (m(nx off h h := v))" "h \<noteq> NULL \<Longrightarrow> putp h 8 v m = Inr (m(pv off h h := v))"
  "x \<noteq> NULL \<Longrightarrow> x \<noteq> h \<Longrightarrow> getp x off m = Inr (m (nx off h x))" "x \<noteq> NULL \<Longrightarrow> x \<noteq> h \<Longrightarrow> getp x (off + 8) m = Inr (m (pv off h x))"
  "x \<noteq> NULL \<Longrightarrow> x \<noteq> h \<Longrightarrow> putp x off v m = Inr (m(nx off h x := v))" "x \<noteq> NULL \<Longrightarrow> x \<noteq> h \<Longrightarrow> putp x (off + 8) v m = Inr (m(pv off h x := v))"
  by (simp_all add: nx_def pv_def add.assoc)

lemma nx_pv_twist:
  "nx off h a \<noteq> pv off h b \<Longrightarrow> g(nx off h a := v, pv off h b := w) = (g :: ptrs)(pv off h b := w, nx off h a := v)"
  by (rule fun_upd_twist)

lemma circleq_init: "no_overlap off h {} \<Longrightarrow> \<exists>m'. CIRCLEQ_INIT h m = Inr m' \<and> circleq off m' h []"
  by (simp add: CIRCLEQ_INIT_def CIRCLEQ_END_def circleq_def joined_def nx_def pv_def no_overlap_def)

text \<open>The neighbours of a place as values of the macros.\<close>

lemma circleq_neighbours:
  assumes "circleq off m h (xs @ ys)" "no_overlap off h (insert e (set (xs @ ys)))" "e \<notin> set (xs @ ys)" "p = last (h # xs)" "q = hd (ys @ [h])"
  shows "h \<noteq> NULL" "e \<noteq> NULL" "e \<noteq> h" "p \<noteq> NULL" "q \<noteq> NULL" "p \<noteq> e" "q \<noteq> e" "m (nx off h p) = q" "m (pv off h q) = p"
    "p = h \<longleftrightarrow> xs = []" "q = h \<longleftrightarrow> ys = []"
    "\<And>a b. a \<in> {h, e, p, q} \<Longrightarrow> b \<in> {h, e, p, q} \<Longrightarrow> (nx off h a = nx off h b \<longleftrightarrow> a = b) \<and> (pv off h a = pv off h b \<longleftrightarrow> a = b) \<and>
      nx off h a \<noteq> pv off h b \<and> pv off h a \<noteq> nx off h b"
proof -
  note f = circleq_facts[OF assms(1,4,5)]
  have in_p: "p = h \<and> xs = [] \<or> p \<in> set xs \<and> xs \<noteq> []" using assms(4) by (auto dest: last_in_set)
  have in_q: "q = h \<and> ys = [] \<or> q \<in> set ys \<and> ys \<noteq> []" using assms(5) by (cases ys) auto
  show "h \<noteq> NULL" "m (nx off h p) = q" "m (pv off h q) = p" by fact+
  show "e \<noteq> NULL" and eh: "e \<noteq> h" using no_overlap_cells(1,2)[OF assms(2), of e] by auto
  show "p \<noteq> NULL" "q \<noteq> NULL" "p \<noteq> e" "q \<noteq> e" "p = h \<longleftrightarrow> xs = []" "q = h \<longleftrightarrow> ys = []" using in_p in_q f assms(3) eh by auto
  fix a b assume "a \<in> {h, e, p, q}" "b \<in> {h, e, p, q}"
  then have "a \<in> insert h (insert e (set (xs @ ys)))" "b \<in> insert h (insert e (set (xs @ ys)))" using in_p in_q by auto
  from cells_distinct[OF assms(2) this] show "(nx off h a = nx off h b \<longleftrightarrow> a = b) \<and> (pv off h a = pv off h b \<longleftrightarrow> a = b) \<and>
      nx off h a \<noteq> pv off h b \<and> pv off h a \<noteq> nx off h b" by blast
qed

lemma circleq_insert_after:
  assumes "circleq off m h (xs @ x # ys)" "no_overlap off h (insert e (set (xs @ x # ys)))" "e \<notin> set (xs @ x # ys)"
  shows "\<exists>m'. CIRCLEQ_INSERT_AFTER off h x e m = Inr m' \<and> circleq off m' h (xs @ x # e # ys)"
proof -
  let ?q = "hd (ys @ [h])"
  have a: "circleq off m h ((xs @ [x]) @ ys)" "no_overlap off h (insert e (set ((xs @ [x]) @ ys)))" "e \<notin> set ((xs @ [x]) @ ys)" "x = last (h # xs @ [x])"
    using assms by simp_all
  note f = circleq_neighbours[OF a refl]
  have "CIRCLEQ_INSERT_AFTER off h x e m = Inr (m(nx off h e := ?q, pv off h e := x, pv off h ?q := e, nx off h x := e))"
    using f(1-8,10) f(12)[of x e]
    by (cases "?q = h") (simp_all add: CIRCLEQ_INSERT_AFTER_def CIRCLEQ_END_def cell_access[where h = h and off = off] del: getp_simps putp_simps)
  then show ?thesis using circleq_insert[OF a refl] by simp
qed

lemma circleq_insert_before:
  assumes "circleq off m h (xs @ x # ys)" "no_overlap off h (insert e (set (xs @ x # ys)))" "e \<notin> set (xs @ x # ys)"
  shows "\<exists>m'. CIRCLEQ_INSERT_BEFORE off h x e m = Inr m' \<and> circleq off m' h (xs @ e # x # ys)"
proof -
  let ?p = "last (h # xs)"
  have q: "x = hd ((x # ys) @ [h])" by simp
  note f = circleq_neighbours[OF assms refl q]
  have "CIRCLEQ_INSERT_BEFORE off h x e m = Inr (m(nx off h e := x, pv off h e := ?p, pv off h x := e, nx off h ?p := e))"
    using f(1-9,11) f(12)[of x e] f(12)[of x ?p] f(12)[of ?p x] f(12)[of e e] f(12)[of e x] f(12)[of ?p e]
    by (cases "?p = h") (simp_all add: CIRCLEQ_INSERT_BEFORE_def CIRCLEQ_END_def cell_access[where h = h and off = off] nx_pv_twist del: getp_simps putp_simps last.simps)
  then show ?thesis using circleq_insert[OF assms refl q] by simp
qed

lemma circleq_insert_head:
  assumes "circleq off m h xs" "no_overlap off h (insert e (set xs))" "e \<notin> set xs"
  shows "\<exists>m'. CIRCLEQ_INSERT_HEAD off h e m = Inr m' \<and> circleq off m' h (e # xs)"
proof -
  let ?q = "hd (xs @ [h])"
  have a: "circleq off m h ([] @ xs)" "no_overlap off h (insert e (set ([] @ xs)))" "e \<notin> set ([] @ xs)" "h = last [h]"
    using assms by simp_all
  note f = circleq_neighbours[OF a refl]
  have l: "m (pv off h h) = h \<longleftrightarrow> xs = []"
    using circleq_facts(3,7)[of off m h xs "[]", OF _ refl refl] assms(1) by (auto dest: last_in_set split: if_splits)
  have "CIRCLEQ_INSERT_HEAD off h e m = Inr (m(nx off h e := ?q, pv off h e := h, pv off h ?q := e, nx off h h := e))"
    using f(1-9,11) f(12)[of h e] l
    by (cases "xs = []") (simp_all add: CIRCLEQ_INSERT_HEAD_def CIRCLEQ_END_def cell_access[where h = h and off = off] del: getp_simps putp_simps)
  then show ?thesis using circleq_insert[OF a refl] by simp
qed

lemma circleq_insert_tail:
  assumes "circleq off m h xs" "no_overlap off h (insert e (set xs))" "e \<notin> set xs"
  shows "\<exists>m'. CIRCLEQ_INSERT_TAIL off h e m = Inr m' \<and> circleq off m' h (xs @ [e])"
proof -
  let ?p = "last (h # xs)"
  have a: "circleq off m h (xs @ [])" "no_overlap off h (insert e (set (xs @ [])))" "e \<notin> set (xs @ [])" "h = hd ([] @ [h])"
    using assms by simp_all
  note f = circleq_neighbours[OF a(1-3) refl a(4)]
  have l: "m (nx off h h) = h \<longleftrightarrow> xs = []"
    using circleq_facts(2,7)[of off m h "[]" xs, OF _ refl refl] assms(1) by (cases xs) auto
  have "CIRCLEQ_INSERT_TAIL off h e m = Inr (m(nx off h e := h, pv off h e := ?p, pv off h h := e, nx off h ?p := e))"
    using f(1-9,10) f(12)[of h e] f(12)[of h ?p] f(12)[of ?p h] f(12)[of e e] f(12)[of e h] f(12)[of ?p e] l
    by (cases "xs = []") (simp_all add: CIRCLEQ_INSERT_TAIL_def CIRCLEQ_END_def cell_access[where h = h and off = off] nx_pv_twist del: getp_simps putp_simps last.simps)
  then show ?thesis using circleq_insert[OF a(1-3) refl a(4)] by simp
qed

lemma circleq_remove_elm:
  assumes "circleq off m h (xs @ e # ys)"
  shows "\<exists>m'. CIRCLEQ_REMOVE off h e m = Inr m' \<and> circleq off m' h (xs @ ys)"
proof -
  let ?p = "last (h # xs)" and ?q = "hd (ys @ [h])"
  have a: "circleq off m h ((xs @ [e]) @ ys)" "e = last (h # xs @ [e])" "e = hd ((e # ys) @ [h])" using assms by simp_all
  note n = circleq_facts[OF a(1,2) refl] circleq_facts(3)[OF assms refl a(3)]
  have in_p: "?p = h \<or> ?p \<in> set xs" and in_q: "?q = h \<or> ?q \<in> set ys" by (auto dest: last_in_set simp: hd_append)
  have "e \<in> insert h (set ((xs @ [e]) @ ys))" "?q \<in> insert h (set ((xs @ [e]) @ ys))" using in_q by auto
  note d = cells_distinct[OF n(5) this]
  have "e \<noteq> h" "e \<noteq> NULL" "?p \<noteq> NULL" "?q \<noteq> NULL" "e \<noteq> ?q" using n in_p in_q by auto
  then have "CIRCLEQ_REMOVE off h e m = Inr (m(pv off h ?q := ?p, nx off h ?p := ?q))"
    using n(1,2,8) d
    by (cases "?p = h"; cases "?q = h") (simp_all add: CIRCLEQ_REMOVE_def CIRCLEQ_END_def cell_access[where h = h and off = off] del: getp_simps putp_simps last.simps)
  then show ?thesis using circleq_remove[OF assms refl refl] by simp
qed

lemma circleq_replace_elm:
  assumes "circleq off m h (xs @ e # ys)" "no_overlap off h (insert e2 (set (xs @ e # ys)))" "e2 \<notin> set (xs @ e # ys)"
  shows "\<exists>m'. CIRCLEQ_REPLACE off h e e2 m = Inr m' \<and> circleq off m' h (xs @ e2 # ys)"
proof -
  let ?p = "last (h # xs)" and ?q = "hd (ys @ [h])"
  let ?m = "m(nx off h e2 := ?q, pv off h e2 := ?p, pv off h ?q := e2, nx off h ?p := e2)"
  have a: "circleq off m h ((xs @ [e]) @ ys)" "e = last (h # xs @ [e])" "e = hd ((e # ys) @ [h])" using assms(1) by simp_all
  note n = circleq_facts[OF a(1,2) refl] circleq_facts(3)[OF assms(1) refl a(3)]
  have in_p: "?p = h \<or> ?p \<in> set xs" and in_q: "?q = h \<or> ?q \<in> set ys" by (auto dest: last_in_set simp: hd_append)
  let ?S = "insert h (insert e2 (set (xs @ e # ys)))"
  have S: "e \<in> ?S" "?p \<in> ?S" "?q \<in> ?S" "e2 \<in> ?S" using in_p in_q by auto
  note d = cells_distinct[OF assms(2)]
  have ne: "e \<noteq> h" "e \<noteq> NULL" "?p \<noteq> NULL" "?q \<noteq> NULL" "e \<noteq> ?q" "e2 \<noteq> h" "e2 \<noteq> NULL" "e2 \<noteq> e" "e2 \<noteq> ?p" "e2 \<noteq> ?q"
    using n in_p in_q no_overlap_cells(1,2)[OF assms(2), of e2] assms(3) by auto
  have tw: "g(pv off h ?q := v, pv off h e2 := w) = g(pv off h e2 := w, pv off h ?q := v)" for g :: ptrs and v w
    using d(2)[OF S(3,4)] ne by (intro fun_upd_twist) simp
  have "CIRCLEQ_REPLACE off h e e2 m = Inr ?m"
    using ne n(1,2,8) d[OF S(1,3)] d[OF S(4,1)] d[OF S(4,3)] d[OF S(4,2)] d[OF S(4,4)] tw
    by (cases "?p = h"; cases "?q = h") (simp_all add: CIRCLEQ_REPLACE_def CIRCLEQ_END_def cell_access[where h = h and off = off] del: getp_simps putp_simps last.simps)
  moreover have "circleq off ?m h (xs @ e2 # ys)"
  proof -
    have "no_overlap off h (insert e2 (set (xs @ ys)))" by (rule no_overlap_subset[OF assms(2)]) auto
    then have "circleq off ((m(pv off h ?q := ?p, nx off h ?p := ?q))(nx off h e2 := ?q, pv off h e2 := ?p, pv off h ?q := e2, nx off h ?p := e2)) h (xs @ e2 # ys)"
      using assms(3) by (intro circleq_insert[OF circleq_remove[OF assms(1) refl refl]]) auto
    moreover have "(m(pv off h ?q := ?p, nx off h ?p := ?q))(nx off h e2 := ?q, pv off h e2 := ?p, pv off h ?q := e2, nx off h ?p := e2) = ?m"
      by (simp add: fun_eq_iff)
    ultimately show ?thesis by simp
  qed
  ultimately show ?thesis by blast
qed

text \<open>The queue in both directions.\<close>

definition CIRCLEQ_remove_first :: "u64 \<Rightarrow> addr \<Rightarrow> ptrs \<Rightarrow> ptrs outcome" where
  "CIRCLEQ_remove_first off h m = andthen (CIRCLEQ_FIRST h m) (\<lambda>x. CIRCLEQ_REMOVE off h x m)"

lemma circleq_ends:
  assumes "circleq off m h xs"
  shows "CIRCLEQ_FIRST h m = Inr (hd (xs @ [h]))" "CIRCLEQ_LAST h m = Inr (last (h # xs))" "h \<notin> set xs" "distinct xs" "CIRCLEQ_EMPTY h m = Inr (xs = [])"
proof -
  have a: "circleq off m h ([] @ xs)" "circleq off m h (xs @ [])" using assms by simp_all
  note f = circleq_facts[OF a(1) refl refl] and g = circleq_facts[OF a(2) refl refl]
  show first: "CIRCLEQ_FIRST h m = Inr (hd (xs @ [h]))" and "CIRCLEQ_LAST h m = Inr (last (h # xs))" "h \<notin> set xs" "distinct xs"
    using f(1,2,4,7) g(3) by (simp_all add: CIRCLEQ_FIRST_def CIRCLEQ_LAST_def nx_def pv_def)
  then show "CIRCLEQ_EMPTY h m = Inr (xs = [])" by (cases xs) (auto simp: CIRCLEQ_EMPTY_def CIRCLEQ_END_def)
qed

lemma circleq_steps:
  assumes "circleq off m h (xs @ x # ys)"
  shows "CIRCLEQ_NEXT off x m = Inr (hd (ys @ [h]))" "CIRCLEQ_PREV off x m = Inr (last (h # xs))"
proof -
  have a: "circleq off m h ((xs @ [x]) @ ys)" "x = last (h # xs @ [x])" "x = hd ((x # ys) @ [h])" using assms by simp_all
  note f = circleq_facts[OF a(1,2) refl] and g = circleq_facts(3)[OF assms refl a(3)]
  show "CIRCLEQ_NEXT off x m = Inr (hd (ys @ [h]))" "CIRCLEQ_PREV off x m = Inr (last (h # xs))"
    using f(2,6,7) g by (auto simp: CIRCLEQ_NEXT_def CIRCLEQ_PREV_def nx_def pv_def add.assoc simp del: last.simps)
qed

interpretation cq: link_queue "circleq off" "\<lambda>h S. no_overlap off h S" "CIRCLEQ_INSERT_HEAD off" CIRCLEQ_EMPTY CIRCLEQ_FIRST "\<lambda>h. CIRCLEQ_NEXT off" CIRCLEQ_END
  "CIRCLEQ_INSERT_TAIL off" "CIRCLEQ_remove_first off"
  for off
proof unfold_locales
  fix m h xs assume a: "circleq off m h xs"
  show "CIRCLEQ_FIRST h m = Inr (case xs of [] \<Rightarrow> CIRCLEQ_END h | x # _ \<Rightarrow> x)" using circleq_ends(1)[OF a] by (cases xs) (simp_all add: CIRCLEQ_END_def)
  show "distinct xs" "CIRCLEQ_EMPTY h m = Inr (xs = [])" "CIRCLEQ_END h \<notin> set xs" using circleq_ends[OF a] by (simp_all add: CIRCLEQ_END_def)
next
  fix m h xs x ys assume a: "circleq off m h (xs @ x # ys)"
  show "CIRCLEQ_NEXT off x m = Inr (case ys of [] \<Rightarrow> CIRCLEQ_END h | y # _ \<Rightarrow> y)" using circleq_steps(1)[OF a] by (cases ys) (simp_all add: CIRCLEQ_END_def)
next
  fix m h x xs assume a: "circleq off m h (x # xs)"
  then show "\<exists>m'. CIRCLEQ_remove_first off h m = Inr m' \<and> circleq off m' h xs"
    using circleq_remove_elm[of off m h "[]" x xs] circleq_ends(1)[OF a] by (simp add: CIRCLEQ_remove_first_def)
qed (use no_overlap_subset circleq_insert_head circleq_insert_tail in auto)

interpretation cr: link_list "\<lambda>m h xs. circleq off m h (rev xs)" "\<lambda>h S. no_overlap off h S" "CIRCLEQ_INSERT_TAIL off" CIRCLEQ_EMPTY CIRCLEQ_LAST "\<lambda>h. CIRCLEQ_PREV off" CIRCLEQ_END
  for off
proof unfold_locales
  fix m h xs assume a: "circleq off m h (rev xs)"
  show "distinct xs" "CIRCLEQ_EMPTY h m = Inr (xs = [])" "CIRCLEQ_END h \<notin> set xs" using circleq_ends[OF a] by (simp_all add: CIRCLEQ_END_def)
  show "CIRCLEQ_LAST h m = Inr (case xs of [] \<Rightarrow> CIRCLEQ_END h | x # _ \<Rightarrow> x)" using circleq_ends(2)[OF a] by (cases xs) (simp_all add: CIRCLEQ_END_def)
next
  fix m h xs x ys assume "circleq off m h (rev (xs @ x # ys))"
  then show "CIRCLEQ_PREV off x m = Inr (case ys of [] \<Rightarrow> CIRCLEQ_END h | y # _ \<Rightarrow> y)"
    using circleq_steps(2)[of off m h "rev ys" x "rev xs"] by (cases ys) (simp_all add: CIRCLEQ_END_def)
qed (use no_overlap_subset circleq_insert_tail in auto)

end
