(* ===== verification/Queue_Properties.thy ===== *)
theory Queue_Properties
  imports Queue_Doubly Queue_Circular
begin

text \<open>The properties of the lists and queues of \<^verbatim>\<open>include/gd_queue.h\<close>.\<close>

section \<open>Properties\<close>

text \<open>C24. The queues are first in, first out: after \<open>INIT\<close>, elements inserted at the tail one after the other
  come out at the head in the same order and leave the queue empty, for simple queues, XOR simple
  queues with any cookie, tail queues and circular queues.\<close>

theorem queues_are_fifo:
  assumes "no_overlap off h (set es)" "distinct es"
  shows "(\<exists>m1 m2 m3. SIMPLEQ_INIT h m = Inr m1 \<and> run_all (SIMPLEQ_INSERT_TAIL off h) es m1 = Inr m2 \<and>
      drain (SIMPLEQ_FIRST h) (SIMPLEQ_REMOVE_HEAD off h) (length es) m2 = Inr (es, m3) \<and> SIMPLEQ_EMPTY h m3 = Inr True) \<and>
    (\<exists>m1 m2 m3. XSIMPLEQ_INIT cookie h m = Inr m1 \<and> run_all (XSIMPLEQ_INSERT_TAIL off h) es m1 = Inr m2 \<and>
      drain (XSIMPLEQ_FIRST h) (XSIMPLEQ_REMOVE_HEAD off h) (length es) m2 = Inr (es, m3) \<and> XSIMPLEQ_EMPTY h m3 = Inr True) \<and>
    (\<exists>m1 m2 m3. TAILQ_INIT h m = Inr m1 \<and> run_all (TAILQ_INSERT_TAIL off h) es m1 = Inr m2 \<and>
      drain (TAILQ_FIRST h) (TAILQ_remove_first off h) (length es) m2 = Inr (es, m3) \<and> TAILQ_EMPTY h m3 = Inr True) \<and>
    (\<exists>m1 m2 m3. CIRCLEQ_INIT h m = Inr m1 \<and> run_all (CIRCLEQ_INSERT_TAIL off h) es m1 = Inr m2 \<and>
      drain (CIRCLEQ_FIRST h) (CIRCLEQ_remove_first off h) (length es) m2 = Inr (es, m3) \<and> CIRCLEQ_EMPTY h m3 = Inr True)"
proof (intro conjI)
  have o: "no_overlap off h {}" by (rule no_overlap_subset[OF assms(1)]) simp
  show "\<exists>m1 m2 m3. SIMPLEQ_INIT h m = Inr m1 \<and> run_all (SIMPLEQ_INSERT_TAIL off h) es m1 = Inr m2 \<and>
      drain (SIMPLEQ_FIRST h) (SIMPLEQ_REMOVE_HEAD off h) (length es) m2 = Inr (es, m3) \<and> SIMPLEQ_EMPTY h m3 = Inr True"
    using simpleq_init[OF o, of m] sq.fifo[OF _ assms] sq.rep_empty by fastforce
  show "\<exists>m1 m2 m3. XSIMPLEQ_INIT cookie h m = Inr m1 \<and> run_all (XSIMPLEQ_INSERT_TAIL off h) es m1 = Inr m2 \<and>
      drain (XSIMPLEQ_FIRST h) (XSIMPLEQ_REMOVE_HEAD off h) (length es) m2 = Inr (es, m3) \<and> XSIMPLEQ_EMPTY h m3 = Inr True"
    using xsimpleq_init[OF o, of cookie m] xq.fifo[OF _ assms] xq.rep_empty by fastforce
  show "\<exists>m1 m2 m3. TAILQ_INIT h m = Inr m1 \<and> run_all (TAILQ_INSERT_TAIL off h) es m1 = Inr m2 \<and>
      drain (TAILQ_FIRST h) (TAILQ_remove_first off h) (length es) m2 = Inr (es, m3) \<and> TAILQ_EMPTY h m3 = Inr True"
    using tailq_init[OF o, of m] tq.fifo[OF _ assms] tq.rep_empty by fastforce
  show "\<exists>m1 m2 m3. CIRCLEQ_INIT h m = Inr m1 \<and> run_all (CIRCLEQ_INSERT_TAIL off h) es m1 = Inr m2 \<and>
      drain (CIRCLEQ_FIRST h) (CIRCLEQ_remove_first off h) (length es) m2 = Inr (es, m3) \<and> CIRCLEQ_EMPTY h m3 = Inr True"
    using circleq_init[OF o, of m] cq.fifo[OF _ assms] cq.rep_empty by fastforce
qed

theorem queues_are_fifo_witness:
  "no_overlap 8 0x100 {0x200, 0x300} \<and> (\<exists>m1 m2 m3. CIRCLEQ_INIT 0x100 (\<lambda>_. 0) = Inr m1 \<and>
    run_all (CIRCLEQ_INSERT_TAIL 8 0x100) [0x200, 0x300] m1 = Inr m2 \<and>
    drain (CIRCLEQ_FIRST 0x100) (CIRCLEQ_remove_first 8 0x100) 2 m2 = Inr ([0x200, 0x300], m3))"
proof -
  have "no_overlap 8 0x100 (set [0x200, 0x300])" "distinct [0x200, 0x300 :: addr]" by (simp_all add: no_overlap_def head_cells_def)
  from queues_are_fifo[OF this, where m = "\<lambda>_. 0" and cookie = 0] this(1) show ?thesis
    by (auto simp: numeral_2_eq_2 simp del: run_all.simps drain.simps)
qed

text \<open>C23. Every macro that changes a tail queue does to its elements what its name says, and
  keeps the queue well-formed: the chain, the back pointers and the pointer to the last cell.  \<open>TAILQ_INIT\<close> gives the empty queue; insertion at
  the head and at the tail works on every queue, the empty one too; insertion after and before an element, removal and replacement
  work at every element, the first and the last included; \<open>TAILQ_NEXT\<close> and \<open>TAILQ_PREV\<close> give the neighbours.\<close>

theorem tailq_operations:
  assumes "tailq off m h zs" "no_overlap off h (insert e (set zs))" "e \<notin> set zs"
  shows "(\<exists>m'. TAILQ_INIT h m = Inr m' \<and> tailq off m' h []) \<and>
    (\<exists>m'. TAILQ_INSERT_HEAD off h e m = Inr m' \<and> tailq off m' h (e # zs)) \<and>
    (\<exists>m'. TAILQ_INSERT_TAIL off h e m = Inr m' \<and> tailq off m' h (zs @ [e])) \<and>
    (\<forall>xs x ys. zs = xs @ x # ys \<longrightarrow>
      (\<exists>m'. TAILQ_INSERT_AFTER off h x e m = Inr m' \<and> tailq off m' h (xs @ x # e # ys)) \<and>
      (\<exists>m'. TAILQ_INSERT_BEFORE off x e m = Inr m' \<and> tailq off m' h (xs @ e # x # ys)) \<and>
      (\<exists>m'. TAILQ_REMOVE off h x m = Inr m' \<and> tailq off m' h (xs @ ys)) \<and>
      (\<exists>m'. TAILQ_REPLACE off h x e m = Inr m' \<and> tailq off m' h (xs @ e # ys)) \<and>
      TAILQ_NEXT off x m = Inr (if ys = [] then NULL else hd ys) \<and> TAILQ_PREV off x m = Inr (if xs = [] then NULL else last xs))"
proof (intro conjI allI impI)
  have "no_overlap off h {}" using assms(2) by (rule no_overlap_subset) simp
  then show "\<exists>m'. TAILQ_INIT h m = Inr m' \<and> tailq off m' h []" by (rule tailq_init)
  show "\<exists>m'. TAILQ_INSERT_HEAD off h e m = Inr m' \<and> tailq off m' h (e # zs)"
    "\<exists>m'. TAILQ_INSERT_TAIL off h e m = Inr m' \<and> tailq off m' h (zs @ [e])"
    using tailq_insert_head[OF assms] tailq_insert_tail[OF assms] by blast+
  fix xs x ys
  assume zs: "zs = xs @ x # ys"
  note a = assms[unfolded zs]
  show "\<exists>m'. TAILQ_INSERT_AFTER off h x e m = Inr m' \<and> tailq off m' h (xs @ x # e # ys)"
    "\<exists>m'. TAILQ_INSERT_BEFORE off x e m = Inr m' \<and> tailq off m' h (xs @ e # x # ys)"
    "\<exists>m'. TAILQ_REMOVE off h x m = Inr m' \<and> tailq off m' h (xs @ ys)"
    "\<exists>m'. TAILQ_REPLACE off h x e m = Inr m' \<and> tailq off m' h (xs @ e # ys)"
    using tailq_insert_after[OF a] tailq_insert_before[OF a] tailq_remove_elm[OF a(1)] tailq_replace_elm[OF a] by blast+
  show "TAILQ_NEXT off x m = Inr (if ys = [] then NULL else hd ys)" "TAILQ_PREV off x m = Inr (if xs = [] then NULL else last xs)"
    using tailq_NEXT[OF a(1)] tailq_PREV[OF a(1)] by (cases ys; simp add: TAILQ_END_def)+
qed

text \<open>A tail queue of two elements.\<close>

definition two_elements :: ptrs where
  "two_elements = (\<lambda>_. 0)(0x100 := 0x200, 0x108 := 0x308, 0x208 := 0x300, 0x210 := 0x100, 0x310 := 0x208)"

lemma two_elements_tailq: "tailq 8 two_elements 0x100 [0x200, 0x300]" "no_overlap 8 0x100 {0x200, 0x300, 0x400}"
  by (simp_all add: tailq_def dlist_def chain_def two_elements_def end_cell_def no_overlap_def head_cells_def)

theorem tailq_operations_witness:
  "(\<exists>m'. TAILQ_REPLACE 8 0x100 0x200 0x400 two_elements = Inr m' \<and> tailq 8 m' 0x100 [0x400, 0x300]) \<and>
    (\<exists>m'. TAILQ_INSERT_HEAD 8 0x100 0x400 two_elements = Inr m' \<and> tailq 8 m' 0x100 [0x400, 0x200, 0x300])"
  using tailq_operations[of 8 two_elements "0x100" "[0x200, 0x300]" "0x400"] two_elements_tailq
  by (auto simp: insert_commute Cons_eq_append_conv)

text \<open>C37. The \<open>FOREACH\<close> loops end and meet every element exactly once, in the order of the list, and the reverse
  ones in the opposite order, for all six structures.\<close>

theorem foreach_visits_elements:
  shows "(slist off m h xs \<longrightarrow> (\<exists>m'. SLIST_FOREACH off h record_elm (m, []) = Some (Inr (m', xs)))) \<and>
    (dlist off m h xs \<longrightarrow> (\<exists>m'. LIST_FOREACH off h record_elm (m, []) = Some (Inr (m', xs)))) \<and>
    (simpleq off m h xs \<longrightarrow> (\<exists>m'. SIMPLEQ_FOREACH off h record_elm (m, []) = Some (Inr (m', xs)))) \<and>
    (xsimpleq off m h xs \<longrightarrow> (\<exists>m'. XSIMPLEQ_FOREACH off h record_elm (m, []) = Some (Inr (m', xs)))) \<and>
    (tailq off m h xs \<longrightarrow> (\<exists>m'. TAILQ_FOREACH off h record_elm (m, []) = Some (Inr (m', xs))) \<and>
      (\<exists>m'. TAILQ_FOREACH_REVERSE off h record_elm (m, []) = Some (Inr (m', rev xs)))) \<and>
    (circleq off m h xs \<longrightarrow> (\<exists>m'. CIRCLEQ_FOREACH off h record_elm (m, []) = Some (Inr (m', xs))) \<and>
      (\<exists>m'. CIRCLEQ_FOREACH_REVERSE off h record_elm (m, []) = Some (Inr (m', rev xs))))"
proof (intro conjI impI)
  show "\<exists>m'. SLIST_FOREACH off h record_elm (m, []) = Some (Inr (m', xs))" if "slist off m h xs"
    using sl.record_visits[OF that] by (simp add: SLIST_FOREACH_def)
  show "\<exists>m'. LIST_FOREACH off h record_elm (m, []) = Some (Inr (m', xs))" if "dlist off m h xs"
    using dl.record_visits[OF that] by (simp add: LIST_FOREACH_def)
  show "\<exists>m'. SIMPLEQ_FOREACH off h record_elm (m, []) = Some (Inr (m', xs))" if "simpleq off m h xs"
    using sq.record_visits[OF that] by (simp add: SIMPLEQ_FOREACH_def)
  show "\<exists>m'. XSIMPLEQ_FOREACH off h record_elm (m, []) = Some (Inr (m', xs))" if "xsimpleq off m h xs"
    using xq.record_visits[OF that] by (simp add: XSIMPLEQ_FOREACH_def)
  show "\<exists>m'. TAILQ_FOREACH off h record_elm (m, []) = Some (Inr (m', xs))" if "tailq off m h xs"
    using tq.record_visits[OF that] by (simp add: TAILQ_FOREACH_def)
  show "\<exists>m'. TAILQ_FOREACH_REVERSE off h record_elm (m, []) = Some (Inr (m', rev xs))" if "tailq off m h xs"
    using tr.record_visits[of off m h "rev xs"] that by (simp add: TAILQ_FOREACH_REVERSE_def)
  show "\<exists>m'. CIRCLEQ_FOREACH off h record_elm (m, []) = Some (Inr (m', xs))" if "circleq off m h xs"
    using cq.record_visits[OF that] by (simp add: CIRCLEQ_FOREACH_def)
  show "\<exists>m'. CIRCLEQ_FOREACH_REVERSE off h record_elm (m, []) = Some (Inr (m', rev xs))" if "circleq off m h xs"
    using cr.record_visits[of off m h "rev xs"] that by (simp add: CIRCLEQ_FOREACH_REVERSE_def)
qed

theorem foreach_visits_elements_witness:
  "\<exists>m'. TAILQ_FOREACH_REVERSE 8 0x100 record_elm (two_elements, []) = Some (Inr (m', [0x300, 0x200]))"
  using foreach_visits_elements[of 8 two_elements "0x100" "[0x200, 0x300]"] two_elements_tailq(1) by simp

text \<open>\<open>SLIST_REMOVE\<close> takes the given element out of the list wherever it is; for an element that is not in the
  list it runs off the end and dereferences the null pointer.\<close>

theorem slist_remove_or_crash:
  assumes "slist off m h xs" "e \<noteq> NULL"
  shows "(\<forall>us vs. xs = us @ e # vs \<longrightarrow> (\<exists>m'. SLIST_REMOVE off h e m = Some (Inr m') \<and> slist off m' h (us @ vs))) \<and>
    (e \<notin> set xs \<longrightarrow> SLIST_REMOVE off h e m = Some (Inl Crash))"
proof (intro conjI allI impI)
  show "\<exists>m'. SLIST_REMOVE off h e m = Some (Inr m') \<and> slist off m' h (us @ vs)" if "xs = us @ e # vs" for us vs
    using slist_remove_elm assms(1) that by blast
  assume e: "e \<notin> set xs"
  note f = slist_facts[OF assms(1)]
  show "SLIST_REMOVE off h e m = Some (Inl Crash)"
  proof (cases xs)
    case Nil
    have "find_pred off e NULL m = Some (Inl Crash)" by (subst find_pred.simps) simp
    then show ?thesis using Nil f(1,3) assms(2) by (simp add: SLIST_REMOVE_def)
  next
    case (Cons x xs')
    then show ?thesis using find_pred_missing[of m off h x xs' e] f(1,3) e assms(2) by (auto simp: SLIST_REMOVE_def)
  qed
qed

theorem slist_remove_or_crash_witness:
  "\<exists>m'. SLIST_REMOVE 8 0x100 0x300 two_elements = Some (Inr m') \<and> slist 8 m' 0x100 [0x200]"
proof -
  have s: "slist 8 two_elements 0x100 [0x200, 0x300]" using two_elements_tailq(1) by (simp add: tailq_def dlist_def)
  show ?thesis using slist_remove_or_crash[OF s, of "0x300", THEN conjunct1, rule_format, of "[0x200]" "[]"] by simp
qed

end
