(* ===== verification/Vbe_Mode.thy ===== *)
theory Vbe_Mode
  imports Framebuffer Bios_Services
begin

text \<open>
  Video modes of the VESA BIOS extensions (\<^verbatim>\<open>bal/platform/bios/vbe.c\<close> and \<^verbatim>\<open>vbe.h\<close>): the blocks that
  the firmware fills, and the translation of the block of a mode into the \<^verbatim>\<open>struct mode_info\<close> of the
  frame buffer console, as the body of the loop of \<^verbatim>\<open>vbe_init\<close> has it.
\<close>

section \<open>Blocks filled by the firmware\<close>

record vbe_info_block =
  signature :: "u8 list"
  version :: u16
  oem_string_ptr :: u32
  capabilities :: "u8 list"
  video_modes_ptr :: u32
  total_memory :: u16
  oem_software_rev :: u16
  oem_vendor_name_ptr :: u32
  oem_product_name_ptr :: u32
  oem_product_rev_ptr :: u32

definition load_info_block :: "bytes \<Rightarrow> addr \<Rightarrow> vbe_info_block" where
  "load_info_block m a = \<lparr>signature = load_bytes m a 4, version = load16 m (a + 4), oem_string_ptr = load32 m (a + 6),
     capabilities = load_bytes m (a + 10) 4, video_modes_ptr = load32 m (a + 14), total_memory = load16 m (a + 18),
     oem_software_rev = load16 m (a + 20), oem_vendor_name_ptr = load32 m (a + 22), oem_product_name_ptr = load32 m (a + 26),
     oem_product_rev_ptr = load32 m (a + 30)\<rparr>"

text \<open>The members of \<^verbatim>\<open>struct vbe_mode_info\<close>, with a prefix where \<^verbatim>\<open>struct mode_info\<close> has the same name.\<close>

record vbe_mode_info =
  vbe_attributes :: u16
  window_a_attr :: u8
  window_b_attr :: u8
  window_granularity :: u16
  window_size :: u16
  window_a_seg :: u16
  window_b_seg :: u16
  window_position_func :: u32
  vbe_bytes_per_scanline :: u16
  vbe_width :: u16
  vbe_height :: u16
  vbe_width_of_char_cell :: u8
  vbe_height_of_char_cell :: u8
  memory_planes :: u8
  bpp :: u8
  banks :: u8
  memory_model :: u8
  size_of_bank :: u8
  image_pages :: u8
  vbe_red_mask_size :: u8
  vbe_red_field_pos :: u8
  vbe_green_mask_size :: u8
  vbe_green_field_pos :: u8
  vbe_blue_mask_size :: u8
  vbe_blue_field_pos :: u8
  vbe_reserved_mask_size :: u8
  vbe_reserved_field_pos :: u8
  direct_color_attr :: u8
  vbe_lfb_address :: u32
  lin_bytes_per_scanline :: u16
  banked_num_images :: u8
  lin_num_images :: u8
  lin_red_mask_size :: u8
  lin_red_field_pos :: u8
  lin_green_mask_size :: u8
  lin_green_field_pos :: u8
  lin_blue_mask_size :: u8
  lin_blue_field_pos :: u8
  lin_reserved_mask_size :: u8
  lin_reserved_field_pos :: u8
  vbe_max_pixel_clock :: u32

text \<open>The members at their offsets in the bytes of the packed structure.\<close>

definition member16 :: "u8 list \<Rightarrow> nat \<Rightarrow> u16" where
  "member16 bs k = le_word (take 2 (drop k bs))"

definition member32 :: "u8 list \<Rightarrow> nat \<Rightarrow> u32" where
  "member32 bs k = le_word (take 4 (drop k bs))"

definition mode_info_of :: "u8 list \<Rightarrow> vbe_mode_info" where
  "mode_info_of b =
    \<lparr>vbe_attributes = member16 b 0, window_a_attr = b ! 2, window_b_attr = b ! 3, window_granularity = member16 b 4,
     window_size = member16 b 6, window_a_seg = member16 b 8, window_b_seg = member16 b 10,
     window_position_func = member32 b 12, vbe_bytes_per_scanline = member16 b 16, vbe_width = member16 b 18,
     vbe_height = member16 b 20, vbe_width_of_char_cell = b ! 22, vbe_height_of_char_cell = b ! 23,
     memory_planes = b ! 24, bpp = b ! 25, banks = b ! 26, memory_model = b ! 27, size_of_bank = b ! 28,
     image_pages = b ! 29, vbe_red_mask_size = b ! 31, vbe_red_field_pos = b ! 32, vbe_green_mask_size = b ! 33,
     vbe_green_field_pos = b ! 34, vbe_blue_mask_size = b ! 35, vbe_blue_field_pos = b ! 36,
     vbe_reserved_mask_size = b ! 37, vbe_reserved_field_pos = b ! 38, direct_color_attr = b ! 39,
     vbe_lfb_address = member32 b 40, lin_bytes_per_scanline = member16 b 50, banked_num_images = b ! 52,
     lin_num_images = b ! 53, lin_red_mask_size = b ! 54, lin_red_field_pos = b ! 55, lin_green_mask_size = b ! 56,
     lin_green_field_pos = b ! 57, lin_blue_mask_size = b ! 58, lin_blue_field_pos = b ! 59,
     lin_reserved_mask_size = b ! 60, lin_reserved_field_pos = b ! 61, vbe_max_pixel_clock = member32 b 62\<rparr>"

definition sizeof_vbe_mode_info :: nat where
  "sizeof_vbe_mode_info = 256"

definition load_mode_info :: "bytes \<Rightarrow> addr \<Rightarrow> vbe_mode_info" where
  "load_mode_info m a = mode_info_of (load_bytes m a sizeof_vbe_mode_info)"

definition VBE_MODE_ATTR_SUPPORTED :: u16 where "VBE_MODE_ATTR_SUPPORTED = push_bit 0 1"
definition VBE_MODE_ATTR_EXTENDED_INFORMATION_AVAILABLE :: u16 where "VBE_MODE_ATTR_EXTENDED_INFORMATION_AVAILABLE = push_bit 1 1"
definition VBE_MODE_ATTR_COLOR_MODE :: u16 where "VBE_MODE_ATTR_COLOR_MODE = push_bit 3 1"
definition VBE_MODE_ATTR_NOT_VGA_COMPATIBLE :: u16 where "VBE_MODE_ATTR_NOT_VGA_COMPATIBLE = push_bit 5 1"
definition VBE_MODE_ATTR_LINEAR_FRAME_BUFFER_MODE :: u16 where "VBE_MODE_ATTR_LINEAR_FRAME_BUFFER_MODE = push_bit 7 1"
definition VBE_MODE_ATTR_DOUBLE_SCAN_MODE :: u16 where "VBE_MODE_ATTR_DOUBLE_SCAN_MODE = push_bit 8 1"
definition VBE_MODE_ATTR_INTERLACE_MODE :: u16 where "VBE_MODE_ATTR_INTERLACE_MODE = push_bit 9 1"

definition VBE_WINDOW_ATTR_SUPPORTED :: u8 where "VBE_WINDOW_ATTR_SUPPORTED = push_bit 0 1"
definition VBE_WINDOW_ATTR_READABLE :: u8 where "VBE_WINDOW_ATTR_READABLE = push_bit 1 1"
definition VBE_WINDOW_ATTR_WRITEABLE :: u8 where "VBE_WINDOW_ATTR_WRITEABLE = push_bit 2 1"

definition VBE_DC_ATTR_COLOR_RAMP_PROGRAMMABLE :: u8 where "VBE_DC_ATTR_COLOR_RAMP_PROGRAMMABLE = push_bit 0 1"
definition VBE_DC_ATTR_RESERVED_FIELD_USABLE :: u8 where "VBE_DC_ATTR_RESERVED_FIELD_USABLE = push_bit 1 1"

definition VBE_MM_TEXT_MODE :: u8 where "VBE_MM_TEXT_MODE = 0"
definition VBE_MM_PACKED_PIXEL :: u8 where "VBE_MM_PACKED_PIXEL = 4"
definition VBE_MM_DIRECT_COLOR :: u8 where "VBE_MM_DIRECT_COLOR = 6"

definition VBE_ID_USE_LFB :: u32 where "VBE_ID_USE_LFB = push_bit 14 1"

definition ATTR_RESERVED_FIELD_USABLE :: u32 where "ATTR_RESERVED_FIELD_USABLE = push_bit 0 1"
definition ATTR_DOUBLE_SCAN_MODE_SUPPORTED :: u32 where "ATTR_DOUBLE_SCAN_MODE_SUPPORTED = push_bit 1 1"
definition ATTR_INTERLACE_MODE_SUPPORTED :: u32 where "ATTR_INTERLACE_MODE_SUPPORTED = push_bit 2 1"
definition ATTR_VGA_COMPATIBLE :: u32 where "ATTR_VGA_COMPATIBLE = push_bit 3 1"

definition DIRECT_COLOR_MODE :: u16 where "DIRECT_COLOR_MODE = 0"
definition PACKED_PIXEL_MODE :: u16 where "PACKED_PIXEL_MODE = 1"
definition VGA_TEXT_MODE :: u16 where "VGA_TEXT_MODE = 2"

lemmas vbe_consts = VBE_MODE_ATTR_SUPPORTED_def VBE_MODE_ATTR_EXTENDED_INFORMATION_AVAILABLE_def VBE_MODE_ATTR_COLOR_MODE_def
  VBE_MODE_ATTR_NOT_VGA_COMPATIBLE_def VBE_MODE_ATTR_LINEAR_FRAME_BUFFER_MODE_def VBE_MODE_ATTR_DOUBLE_SCAN_MODE_def
  VBE_MODE_ATTR_INTERLACE_MODE_def VBE_WINDOW_ATTR_SUPPORTED_def VBE_WINDOW_ATTR_READABLE_def VBE_WINDOW_ATTR_WRITEABLE_def
  VBE_DC_ATTR_COLOR_RAMP_PROGRAMMABLE_def VBE_DC_ATTR_RESERVED_FIELD_USABLE_def VBE_MM_TEXT_MODE_def VBE_MM_PACKED_PIXEL_def
  VBE_MM_DIRECT_COLOR_def VBE_ID_USE_LFB_def ATTR_RESERVED_FIELD_USABLE_def ATTR_DOUBLE_SCAN_MODE_SUPPORTED_def
  ATTR_INTERLACE_MODE_SUPPORTED_def ATTR_VGA_COMPATIBLE_def

lemmas mode_types = DIRECT_COLOR_MODE_def PACKED_PIXEL_MODE_def VGA_TEXT_MODE_def

section \<open>Modes known in advance\<close>

record mode_brief =
  brief_width :: u16
  brief_height :: u16
  brief_bpp :: u8
  brief_text :: u8

abbreviation brief :: "u16 \<Rightarrow> u16 \<Rightarrow> u8 \<Rightarrow> u8 \<Rightarrow> mode_brief" where
  "brief w h b t \<equiv> \<lparr>brief_width = w, brief_height = h, brief_bpp = b, brief_text = t\<rparr>"

definition vesa_defined_modes :: "mode_brief list" where
  "vesa_defined_modes =
    [brief 640 400 8 0, brief 640 480 8 0, brief 800 600 4 0, brief 800 600 8 0, brief 1024 768 4 0, brief 1024 768 8 0,
     brief 1280 1024 4 0, brief 1280 1024 8 0, brief 80 60 0 1, brief 132 25 0 1, brief 132 43 0 1, brief 132 50 0 1,
     brief 132 60 0 1, brief 320 200 15 0, brief 320 200 16 0, brief 320 200 24 0, brief 640 480 15 0, brief 640 480 16 0,
     brief 640 480 24 0, brief 800 600 15 0, brief 800 600 16 0, brief 800 600 24 0, brief 1024 768 15 0, brief 1024 768 16 0,
     brief 1024 768 24 0, brief 1280 1024 15 0, brief 1280 1024 16 0, brief 1280 1024 24 0]"

definition zero_mode :: mode_info where
  "zero_mode = \<lparr>mode_identifier = 0, mode_type = 0, mode_attributes = 0, width = 0, height = 0, width_of_char_cell = 0,
     height_of_char_cell = 0, depth = 0, bytes_per_scanline = 0, red_mask_size = 0, red_field_pos = 0, green_mask_size = 0,
     green_field_pos = 0, blue_mask_size = 0, blue_field_pos = 0, reserved_mask_size = 0, reserved_field_pos = 0,
     lfb_address = 0, max_pixel_clock = 0\<rparr>"

section \<open>From the block of the firmware to a mode\<close>

text \<open>
  The body of the loop fills \<^verbatim>\<open>new_mode\<close> member by member and may give up (\<^verbatim>\<open>continue\<close>) on the way,
  which leaves what was filled so far in the variable.
\<close>

datatype translation = Reject mode_info | Accept mode_info

fun unless_rejected :: "translation \<Rightarrow> (mode_info \<Rightarrow> translation) \<Rightarrow> translation" where
  "unless_rejected (Reject m) f = Reject m"
| "unless_rejected (Accept m) f = f m"

definition check_attributes :: "vbe_mode_info \<Rightarrow> mode_info \<Rightarrow> translation" where
  "check_attributes vi m =
     (if vbe_attributes vi AND VBE_MODE_ATTR_SUPPORTED = 0 then Reject m
      else if vbe_attributes vi AND VBE_MODE_ATTR_COLOR_MODE = 0 then Reject m
      else Accept m)"

definition fill_attributes :: "u16 \<Rightarrow> vbe_mode_info \<Rightarrow> mode_info \<Rightarrow> mode_info" where
  "fill_attributes ident vi m =
     (let m = m\<lparr>mode_identifier := ucast ident\<rparr>;
          m = (if vbe_attributes vi AND VBE_MODE_ATTR_DOUBLE_SCAN_MODE \<noteq> 0
               then m\<lparr>mode_attributes := mode_attributes m OR ATTR_DOUBLE_SCAN_MODE_SUPPORTED\<rparr> else m);
          m = (if vbe_attributes vi AND VBE_MODE_ATTR_INTERLACE_MODE \<noteq> 0
               then m\<lparr>mode_attributes := mode_attributes m OR ATTR_INTERLACE_MODE_SUPPORTED\<rparr> else m);
          m = (if direct_color_attr vi AND VBE_DC_ATTR_RESERVED_FIELD_USABLE \<noteq> 0
               then m\<lparr>mode_attributes := mode_attributes m OR ATTR_RESERVED_FIELD_USABLE\<rparr> else m)
      in m\<lparr>mode_attributes := mode_attributes m OR ATTR_VGA_COMPATIBLE, bytes_per_scanline := ucast (vbe_bytes_per_scanline vi)\<rparr>)"

definition fill_predefined :: "u16 \<Rightarrow> mode_info \<Rightarrow> translation" where
  "fill_predefined ident m =
     (if ident < 0x100 \<or> ident > 0x11B then Reject m
      else let b = vesa_defined_modes ! unat (ident - 0x100) in
        if brief_bpp b = 4 then Reject m
        else Accept (m\<lparr>mode_type := (if brief_text b \<noteq> 0 then VGA_TEXT_MODE else PACKED_PIXEL_MODE),
                       width := brief_width b, height := brief_height b, depth := brief_bpp b\<rparr>))"

definition fill_geometry :: "vbe_mode_info \<Rightarrow> mode_info \<Rightarrow> mode_info" where
  "fill_geometry vi m =
     (let m = m\<lparr>width := vbe_width vi, height := vbe_height vi, depth := bpp vi\<rparr> in
      if memory_model vi = VBE_MM_TEXT_MODE then
        m\<lparr>mode_type := VGA_TEXT_MODE, depth := 0, width_of_char_cell := vbe_width_of_char_cell vi,
          height_of_char_cell := vbe_height_of_char_cell vi\<rparr>
      else if memory_model vi = VBE_MM_PACKED_PIXEL then m\<lparr>mode_type := PACKED_PIXEL_MODE\<rparr>
      else if memory_model vi = VBE_MM_DIRECT_COLOR then m\<lparr>mode_type := DIRECT_COLOR_MODE\<rparr>
      else m)"

definition fill_compatible :: "vbe_mode_info \<Rightarrow> mode_info \<Rightarrow> translation" where
  "fill_compatible vi m =
     (if vbe_attributes vi AND VBE_MODE_ATTR_NOT_VGA_COMPATIBLE \<noteq> 0 then
        (let m = m\<lparr>mode_attributes := mode_attributes m AND NOT ATTR_VGA_COMPATIBLE\<rparr> in
         if depth m = 8 \<and> mode_type m = PACKED_PIXEL_MODE \<and> direct_color_attr vi AND VBE_DC_ATTR_COLOR_RAMP_PROGRAMMABLE = 0
         then Reject m else Accept m)
      else Accept m)"

definition fill_extended :: "u16 \<Rightarrow> vbe_mode_info \<Rightarrow> mode_info \<Rightarrow> translation" where
  "fill_extended ver vi m =
     (if memory_planes vi \<noteq> 1 then Reject m
      else if memory_model vi \<noteq> VBE_MM_TEXT_MODE \<and> memory_model vi \<noteq> VBE_MM_PACKED_PIXEL \<and> memory_model vi \<noteq> VBE_MM_DIRECT_COLOR
      then Reject m
      else if memory_model vi \<noteq> VBE_MM_TEXT_MODE \<and> bpp vi \<noteq> 8 \<and> bpp vi \<noteq> 15 \<and> bpp vi \<noteq> 16 \<and> bpp vi \<noteq> 24 \<and> bpp vi \<noteq> 32
      then Reject m
      else unless_rejected (fill_compatible vi (fill_geometry vi m)) (\<lambda>m.
        Accept (if ver \<ge> 0x0300 then m\<lparr>max_pixel_clock := vbe_max_pixel_clock vi\<rparr> else m)))"

text \<open>The colour fields, as sizes and positions of red, green, blue and the reserved bits.\<close>

definition set_fields :: "u8 \<Rightarrow> u8 \<Rightarrow> u8 \<Rightarrow> u8 \<Rightarrow> u8 \<Rightarrow> u8 \<Rightarrow> u8 \<Rightarrow> u8 \<Rightarrow> mode_info \<Rightarrow> mode_info" where
  "set_fields rz rp gz gp bz bp xz xp m = m\<lparr>red_mask_size := rz, red_field_pos := rp, green_mask_size := gz, green_field_pos := gp,
     blue_mask_size := bz, blue_field_pos := bp, reserved_mask_size := xz, reserved_field_pos := xp\<rparr>"

definition fill_fields :: "vbe_mode_info \<Rightarrow> mode_info \<Rightarrow> mode_info" where
  "fill_fields vi m =
     (if mode_type m = DIRECT_COLOR_MODE then
        set_fields (vbe_red_mask_size vi) (vbe_red_field_pos vi) (vbe_green_mask_size vi) (vbe_green_field_pos vi)
          (vbe_blue_mask_size vi) (vbe_blue_field_pos vi) (vbe_reserved_mask_size vi) (vbe_reserved_field_pos vi) m
      else if mode_type m = PACKED_PIXEL_MODE then
        (if depth m = 8 then set_fields 3 5 3 2 2 0 0 15 m
         else if depth m = 15 then set_fields 5 10 5 5 5 0 1 15 m
         else if depth m = 16 then set_fields 5 11 6 5 5 0 0 0 m
         else if depth m = 24 then set_fields 8 16 8 8 8 0 0 0 m
         else if depth m = 32 then set_fields 8 16 8 8 8 0 8 24 m
         else m)
      else m)"

definition fill_linear :: "u16 \<Rightarrow> vbe_mode_info \<Rightarrow> mode_info \<Rightarrow> mode_info" where
  "fill_linear ver vi m =
     (let m = m\<lparr>mode_identifier := mode_identifier m OR VBE_ID_USE_LFB, lfb_address := ucast (vbe_lfb_address vi)\<rparr> in
      if ver \<ge> 0x0300 then
        (let m = m\<lparr>bytes_per_scanline := ucast (lin_bytes_per_scanline vi)\<rparr> in
         if mode_type m = DIRECT_COLOR_MODE then
           set_fields (lin_red_mask_size vi) (lin_red_field_pos vi) (lin_green_mask_size vi) (lin_green_field_pos vi)
             (lin_blue_mask_size vi) (lin_blue_field_pos vi) (lin_reserved_mask_size vi) (lin_reserved_field_pos vi) m
         else m)
      else m)"

definition window_full :: u8 where
  "window_full = VBE_WINDOW_ATTR_SUPPORTED OR VBE_WINDOW_ATTR_READABLE OR VBE_WINDOW_ATTR_WRITEABLE"

text \<open>The window through which a mode without a linear frame buffer is reached; the address is computed in an \<open>int\<close>.\<close>

definition window_seg :: "vbe_mode_info \<Rightarrow> u16 option" where
  "window_seg vi =
     (if window_a_attr vi = window_full \<and> window_a_seg vi \<noteq> 0 then Some (window_a_seg vi)
      else if window_b_attr vi = window_full \<and> window_b_seg vi \<noteq> 0 then Some (window_b_seg vi)
      else if window_a_seg vi \<noteq> 0 \<and> window_a_attr vi AND VBE_WINDOW_ATTR_SUPPORTED = 0 then Some (window_a_seg vi)
      else if window_b_seg vi \<noteq> 0 \<and> window_b_attr vi AND VBE_WINDOW_ATTR_SUPPORTED = 0 then Some (window_b_seg vi)
      else None)"

definition fill_window :: "vbe_mode_info \<Rightarrow> mode_info \<Rightarrow> translation" where
  "fill_window vi m =
     (let m = m\<lparr>mode_identifier := mode_identifier m AND NOT VBE_ID_USE_LFB\<rparr> in
      if ucast (height m) * bytes_per_scanline m > ucast (window_size vi) then Reject m
      else case window_seg vi of None \<Rightarrow> Reject m | Some s \<Rightarrow> Accept (m\<lparr>lfb_address := push_bit 4 (ucast s)\<rparr>))"

definition fill_buffer :: "u16 \<Rightarrow> vbe_mode_info \<Rightarrow> mode_info \<Rightarrow> translation" where
  "fill_buffer ver vi m =
     (let m = m\<lparr>depth := (if depth m = 15 then 16 else depth m)\<rparr> in
      if ver \<ge> 0x0200 \<and> vbe_attributes vi AND VBE_MODE_ATTR_LINEAR_FRAME_BUFFER_MODE \<noteq> 0
      then Accept (fill_linear ver vi m) else fill_window vi m)"

definition translate_mode :: "u16 \<Rightarrow> u16 \<Rightarrow> vbe_mode_info \<Rightarrow> translation" where
  "translate_mode ver ident vi =
     unless_rejected (check_attributes vi zero_mode) (\<lambda>m.
       let m = fill_attributes ident vi m in
       unless_rejected
         (if ver < 0x0102 \<and> vbe_attributes vi AND VBE_MODE_ATTR_EXTENDED_INFORMATION_AVAILABLE = 0
          then fill_predefined ident m else fill_extended ver vi m)
         (\<lambda>m. fill_buffer ver vi (fill_fields vi m)))"

end
