(* ===== verification/Vbe.thy ===== *)
theory Vbe
  imports Vbe_Mode
begin

text \<open>
  The search for a video mode and the switch to it (\<^verbatim>\<open>vbe_init\<close> and \<^verbatim>\<open>vbe_switch_mode\<close> of
  \<^verbatim>\<open>bal/platform/bios/vbe.c\<close>).  The list of modes and the palette are in byte memory, the frame buffer
  device is kept beside it.  The firmware and the ports are the platform, \<open>malloc\<close> is a parameter.
\<close>

section \<open>State\<close>

record 'w vbe_state =
  vmach :: "'w machine"
  fb :: fb_dev

text \<open>Where the linker puts the variables, the allocator, and the bound on the number of modes looked at.\<close>

record 'w vbe_env =
  info_ptr :: addr
  scratch_ptr :: addr
  modes_ptr :: addr
  vga_modes_ptr :: addr
  palette_ptr :: addr
  malloc :: "nat \<Rightarrow> 'w machine \<Rightarrow> addr \<times> 'w machine"
  mode_limit :: nat

abbreviation put :: "addr \<Rightarrow> u8 list \<Rightarrow> 'w machine \<Rightarrow> 'w machine" where
  "put a bs mc \<equiv> mc\<lparr>mem := store_bytes (mem mc) a bs\<rparr>"

section \<open>The list of modes\<close>

text \<open>The bytes of a \<^verbatim>\<open>struct mode_info\<close>, with its padding, and what is read back from them.\<close>

definition mode_info_bytes :: "mode_info \<Rightarrow> u8 list" where
  "mode_info_bytes m = word_le 4 (mode_identifier m) @ word_le 2 (mode_type m) @ [0, 0] @ word_le 4 (mode_attributes m) @
     word_le 2 (width m) @ word_le 2 (height m) @ [width_of_char_cell m, height_of_char_cell m, depth m, 0] @
     word_le 4 (bytes_per_scanline m) @ [red_mask_size m, red_field_pos m, green_mask_size m, green_field_pos m,
     blue_mask_size m, blue_field_pos m, reserved_mask_size m, reserved_field_pos m] @ word_le 8 (lfb_address m) @
     word_le 4 (max_pixel_clock m) @ [0, 0, 0, 0]"

definition sizeof_mode_list_entry :: nat where
  "sizeof_mode_list_entry = 56"

text \<open>\<^verbatim>\<open>SLIST_INSERT_HEAD(&modes, elm, node)\<close> on the bytes of the head and of the element.\<close>

definition insert_mode :: "addr \<Rightarrow> addr \<Rightarrow> 'w machine \<Rightarrow> 'w machine" where
  "insert_mode modes elm mc =
     (let mc = put elm (word_le 8 (load64 (mem mc) modes)) mc in put modes (word_le 8 elm) mc)"

section \<open>Switching\<close>

text \<open>One colour of palette entry \<open>i\<close>, for a mask of at most 8 bits and 1 to 8 bits for each colour.\<close>

definition palette_level :: "u8 \<Rightarrow> u8 \<Rightarrow> u8 \<Rightarrow> nat \<Rightarrow> u8" where
  "palette_level pos sz bits i =
     (let v = ucast (drop_bit (unat pos) (of_nat i :: u32) AND mask (unat sz)) :: u8
      in drop_bit (8 - unat bits) (push_bit (8 - unat sz) v))"

definition palette_entry :: "mode_info \<Rightarrow> u8 \<Rightarrow> nat \<Rightarrow> u8 list" where
  "palette_entry mode bits i =
     [palette_level (blue_field_pos mode) (blue_mask_size mode) bits i,
      palette_level (green_field_pos mode) (green_mask_size mode) bits i,
      palette_level (red_field_pos mode) (red_mask_size mode) bits i, 0]"

definition palette :: "mode_info \<Rightarrow> u8 \<Rightarrow> u8 list list" where
  "palette mode bits = map (palette_entry mode bits) [0..<256]"

text \<open>Shifts by a negative number or by the width of an \<open>int\<close> are undefined.\<close>

definition shifts_defined :: "mode_info \<Rightarrow> u8 \<Rightarrow> bool" where
  "shifts_defined mode bits \<longleftrightarrow> bits \<le> 8 \<and> red_mask_size mode \<le> 8 \<and> green_mask_size mode \<le> 8 \<and> blue_mask_size mode \<le> 8 \<and>
     red_field_pos mode < 32 \<and> green_field_pos mode < 32 \<and> blue_field_pos mode < 32"

definition vga_outputs :: "u8 list list \<Rightarrow> (u16 \<times> u8) list" where
  "vga_outputs pal = [(0x3C6, 0xFF), (0x3C8, 0x00)] @ concat (map (\<lambda>e. [(0x3C9, e ! 2), (0x3C9, e ! 1), (0x3C9, e ! 0)]) pal)"

definition outb_all :: "'w platform \<Rightarrow> (u16 \<times> u8) list \<Rightarrow> 'w machine \<Rightarrow> 'w machine" where
  "outb_all pf os mc = fold (\<lambda>(p, v). port_out pf p v) os mc"

definition call_ok :: "bios_registers \<Rightarrow> bool" where
  "call_ok regs \<longleftrightarrow> eax regs AND 0xFFFF = 0x004F"

definition ramp_bits :: "'w platform \<Rightarrow> bios_registers \<Rightarrow> 'w machine \<Rightarrow> u8 \<times> bios_registers \<times> 'w machine" where
  "ramp_bits pf regs mc =
     (let (regs, mc) = bios_int_call pf 0x10 (regs\<lparr>eax := 0x4F08, ebx := 0x0001\<rparr>) mc
      in (if call_ok regs then ucast (drop_bit 8 (ebx regs) AND 0xFF) else 6, regs, mc))"

text \<open>The palette of an 8-bit mode; the result says whether the switch goes on.\<close>

definition set_palette :: "'w vbe_env \<Rightarrow> 'w platform \<Rightarrow> mode_info \<Rightarrow> bios_registers \<Rightarrow> 'w machine \<Rightarrow> (bool \<times> 'w machine) outcome" where
  "set_palette env pf mode regs mc =
     (let (bits, regs, mc) = ramp_bits pf regs mc in
      if \<not> shifts_defined mode bits then Inl Crash
      else
        (let mc = put (palette_ptr env) (concat (palette mode bits)) mc in
         if mode_attributes mode AND ATTR_VGA_COMPATIBLE \<noteq> 0 then Inr (True, outb_all pf (vga_outputs (palette mode bits)) mc)
         else
           (let (regs, mc) = bios_int_call pf 0x10 (regs\<lparr>eax := 0x4F09, ebx := 0x80, ecx := 256, edx := 0,
                  es := rm_seg_from_ptr (palette_ptr env), edi := ucast (rm_offset_from_ptr (palette_ptr env))\<rparr>) mc
            in Inr (call_ok regs, mc))))"

definition back_buffer_bytes :: "mode_info \<Rightarrow> nat" where
  "back_buffer_bytes mode = unat (ucast (width mode) * (ucast (height mode) div font_height) * font_height * ucast (depth mode) div (8 :: u32))"

definition vbe_switch_mode :: "'w vbe_env \<Rightarrow> 'w platform \<Rightarrow> mode_info \<Rightarrow> 'w vbe_state \<Rightarrow> (int \<times> 'w vbe_state) outcome" where
  "vbe_switch_mode env pf mode st =
     (let (regs, mc) = bios_int_call pf 0x10 (zero_registers\<lparr>eax := 0x4F02, ebx := mode_identifier mode\<rparr>) (vmach st) in
      if \<not> call_ok regs then Inr (- 1, st\<lparr>vmach := mc\<rparr>)
      else andthen (if depth mode = 8 \<and> mode_type mode = PACKED_PIXEL_MODE then set_palette env pf mode regs mc else Inr (True, mc))
        (\<lambda>(ok, mc). if \<not> ok then Inr (- 1, st\<lparr>vmach := mc\<rparr>)
           else
             (let (block, mc) = malloc env (back_buffer_bytes mode) mc;
                  (dev, m) = fb_init block (fb st) mode (mem mc)
              in Inr (0, st\<lparr>vmach := mc\<lparr>mem := m\<rparr>, fb := dev\<rparr>))))"

section \<open>Searching\<close>

definition info_call :: "'w vbe_env \<Rightarrow> bios_registers \<Rightarrow> bios_registers" where
  "info_call env regs = regs\<lparr>eax := 0x4F00, es := rm_seg_from_ptr (info_ptr env), edi := ucast (rm_offset_from_ptr (info_ptr env))\<rparr>"

definition mode_call :: "'w vbe_env \<Rightarrow> u16 \<Rightarrow> bios_registers \<Rightarrow> bios_registers" where
  "mode_call env ident regs = regs\<lparr>eax := 0x4F01, ecx := ucast ident, es := rm_seg_from_ptr (scratch_ptr env),
     edi := ucast (rm_offset_from_ptr (scratch_ptr env))\<rparr>"

definition function_supported :: "bios_registers \<Rightarrow> bool" where
  "function_supported regs \<longleftrightarrow> eax regs AND 0xFF = 0x4F"

definition call_failed :: "bios_registers \<Rightarrow> bool" where
  "call_failed regs \<longleftrightarrow> drop_bit 8 (eax regs) AND 0xFF \<noteq> 0"

definition preferred :: "mode_info \<Rightarrow> bool" where
  "preferred m \<longleftrightarrow> width m > 700 \<and> depth m = 32"

text \<open>
  The loop over the identifiers from \<open>p\<close> on.  The result is what \<^verbatim>\<open>new_mode\<close> holds when the loop is
  left, or \<open>None\<close> when \<^verbatim>\<open>vbe_init\<close> returns from inside of it.
\<close>

fun mode_loop :: "nat \<Rightarrow> 'w vbe_env \<Rightarrow> 'w platform \<Rightarrow> addr \<Rightarrow> bios_registers \<Rightarrow> mode_info \<Rightarrow> 'w machine \<Rightarrow> (mode_info option \<times> 'w machine) outcome" where
  "mode_loop 0 env pf p regs new_mode mc = Inl Fuel"
| "mode_loop (Suc n) env pf p regs new_mode mc =
     (if load16 (mem mc) p = 0xFFFF then Inr (Some new_mode, mc)
      else
        (let regs = mode_call env (load16 (mem mc) p) regs;
             (regs, mc) = bios_int_call pf 0x10 regs (put (scratch_ptr env) (replicate sizeof_vbe_mode_info 0) mc) in
         if \<not> function_supported regs then Inr (None, mc)
         else if call_failed regs then mode_loop n env pf (p + 2) regs new_mode mc
         else case translate_mode (version (load_info_block (mem mc) (info_ptr env))) (load16 (mem mc) p)
                     (load_mode_info (mem mc) (scratch_ptr env)) of
             Reject m \<Rightarrow> mode_loop n env pf (p + 2) regs m mc
           | Accept m \<Rightarrow>
               (let (new_entry, mc) = malloc env sizeof_mode_list_entry mc in
                if new_entry = NULL then Inr (None, mc)
                else
                  (let mc = insert_mode (modes_ptr env) new_entry (put new_entry (mode_info_bytes m) mc) in
                   if preferred m then Inr (Some m, mc) else mode_loop n env pf (p + 2) regs m mc))))"

definition vbe_signature :: "u8 list" where
  "vbe_signature = [0x56, 0x42, 0x45, 0x32]"

definition vesa_signature :: "u8 list" where
  "vesa_signature = [0x56, 0x45, 0x53, 0x41]"

text \<open>\<open>new_mode\<close> is not initialised before the loop: its first value is an argument.\<close>

definition vbe_init :: "'w vbe_env \<Rightarrow> 'w platform \<Rightarrow> mode_info \<Rightarrow> 'w vbe_state \<Rightarrow> 'w vbe_state outcome" where
  "vbe_init env pf new_mode st =
     (let (regs, mc) = bios_int_call pf 0x10 (zero_registers\<lparr>eax := 0x1A00\<rparr>) (vmach st) in
      if eax regs AND 0xFF \<noteq> 0x1A then Inr (st\<lparr>vmach := mc\<rparr>)
      else
        (let mc = put (info_ptr env) vbe_signature (insert_mode (modes_ptr env) (vga_modes_ptr env) mc);
             (regs, mc) = bios_int_call pf 0x10 (info_call env regs) mc;
             info = load_info_block (mem mc) (info_ptr env) in
         if \<not> function_supported regs \<or> call_failed regs then Inr (st\<lparr>vmach := mc\<rparr>)
         else if signature info \<noteq> vesa_signature then Inr (st\<lparr>vmach := mc\<rparr>)
         else andthen (mode_loop (mode_limit env) env pf (rm_ptr_from_far (video_modes_ptr info)) regs new_mode mc)
           (\<lambda>(choice, mc). case choice of None \<Rightarrow> Inr (st\<lparr>vmach := mc\<rparr>)
              | Some m \<Rightarrow> andthen (vbe_switch_mode env pf m (st\<lparr>vmach := mc\<rparr>)) (\<lambda>(_, st). Inr st))))"

end
