(* ===== verification/Vbe_Correct.thy ===== *)
theory Vbe_Correct
  imports Vbe Framebuffer_Bytes
begin

text \<open>
  What the translation of modes guarantees, what the palette shows, and the loop over the modes of
  the firmware as a function of the answers of the firmware.
\<close>

section \<open>Translated modes\<close>

text \<open>A mode with a depth that its type allows, before and after 15 bits are taken for 16.\<close>

definition typed_mode :: "mode_info \<Rightarrow> bool" where
  "typed_mode m \<longleftrightarrow> mode_type m = VGA_TEXT_MODE \<and> depth m = 0 \<or>
     mode_type m \<in> {PACKED_PIXEL_MODE, DIRECT_COLOR_MODE} \<and> depth m \<in> {8, 15, 16, 24, 32}"

text \<open>Blue below green below red, each of at most 8 bits, all of them within the pixel.\<close>

definition fields_fit :: "mode_info \<Rightarrow> bool" where
  "fields_fit m \<longleftrightarrow> unat (blue_mask_size m) \<le> 8 \<and> unat (green_mask_size m) \<le> 8 \<and> unat (red_mask_size m) \<le> 8 \<and>
     unat (blue_field_pos m) + unat (blue_mask_size m) \<le> unat (green_field_pos m) \<and>
     unat (green_field_pos m) + unat (green_mask_size m) \<le> unat (red_field_pos m) \<and>
     unat (red_field_pos m) + unat (red_mask_size m) \<le> unat (depth m)"

lemma unless_rejected_Accept: "unless_rejected t f = Accept m \<longleftrightarrow> (\<exists>m'. t = Accept m' \<and> f m' = Accept m)"
  by (cases t) simp_all

lemma predefined_typed: "b \<in> set vesa_defined_modes \<Longrightarrow> brief_bpp b \<noteq> 4 \<Longrightarrow>
    (brief_text b \<noteq> 0 \<longrightarrow> brief_bpp b = 0) \<and> (brief_text b = 0 \<longrightarrow> brief_bpp b \<in> {8, 15, 16, 24, 32})"
  by (auto simp: vesa_defined_modes_def)

lemma fill_predefined_typed:
  assumes "fill_predefined ident m = Accept m'"
  shows "typed_mode m'" "bytes_per_scanline m' = bytes_per_scanline m" "mode_identifier m' = mode_identifier m"
proof -
  have "\<not> (ident < 0x100 \<or> ident > 0x11B)" using assms by (auto simp: fill_predefined_def)
  then have "unat (ident - 0x100) < 28" by (auto simp: unat_sub word_le_nat_alt word_less_nat_alt not_less)
  then have "vesa_defined_modes ! unat (ident - 0x100) \<in> set vesa_defined_modes"
    by (intro nth_mem) (simp add: vesa_defined_modes_def)
  from predefined_typed[OF this] assms show "typed_mode m'"
    by (auto simp: fill_predefined_def typed_mode_def Let_def mode_types split: if_splits)
  show "bytes_per_scanline m' = bytes_per_scanline m" "mode_identifier m' = mode_identifier m"
    using assms by (auto simp: fill_predefined_def Let_def split: if_splits)
qed

lemma fill_extended_typed:
  assumes "fill_extended ver vi m = Accept m'"
  shows "typed_mode m'" "bytes_per_scanline m' = bytes_per_scanline m" "mode_identifier m' = mode_identifier m"
  using assms by (auto simp: fill_extended_def fill_compatible_def fill_geometry_def typed_mode_def Let_def
    vbe_consts mode_types unless_rejected_Accept split: if_splits)

lemma fill_attributes_keeps [simp]:
  "bytes_per_scanline (fill_attributes ident vi m) = ucast (vbe_bytes_per_scanline vi)"
  "mode_identifier (fill_attributes ident vi m) = ucast ident"
  by (simp_all add: fill_attributes_def Let_def)

lemma fill_fields_keeps [simp]:
  "mode_type (fill_fields vi m) = mode_type m" "depth (fill_fields vi m) = depth m"
  "bytes_per_scanline (fill_fields vi m) = bytes_per_scanline m" "mode_identifier (fill_fields vi m) = mode_identifier m"
  by (simp_all add: fill_fields_def set_fields_def)

lemma fill_fields_fit:
  "typed_mode m \<Longrightarrow> mode_type m = PACKED_PIXEL_MODE \<Longrightarrow> fields_fit (fill_fields vi m)"
  by (auto simp: typed_mode_def fill_fields_def set_fields_def fields_fit_def mode_types)

text \<open>The parts of the translation of an accepted mode.\<close>

lemma translate_mode_cases:
  assumes "translate_mode ver ident vi = Accept m"
  obtains m' where "fill_buffer ver vi (fill_fields vi m') = Accept m" "typed_mode m'"
    "bytes_per_scanline m' = ucast (vbe_bytes_per_scanline vi)" "mode_identifier m' = ucast ident"
proof -
  let ?m = "fill_attributes ident vi zero_mode"
  have "check_attributes vi zero_mode = Accept zero_mode \<or> (\<exists>m. check_attributes vi zero_mode = Reject m)"
    by (simp add: check_attributes_def)
  then obtain m' where m': "fill_buffer ver vi (fill_fields vi m') = Accept m" "fill_predefined ident ?m = Accept m' \<or> fill_extended ver vi ?m = Accept m'"
    using assms by (auto simp: translate_mode_def unless_rejected_Accept Let_def split: if_splits)
  then have "typed_mode m'" "bytes_per_scanline m' = ucast (vbe_bytes_per_scanline vi)" "mode_identifier m' = ucast ident"
    using fill_predefined_typed[of ident ?m m'] fill_extended_typed[of ver vi ?m m'] by auto
  with m'(1) show thesis by (rule that)
qed

definition linear_mode :: "u16 \<Rightarrow> vbe_mode_info \<Rightarrow> bool" where
  "linear_mode ver vi \<longleftrightarrow> ver \<ge> 0x0200 \<and> vbe_attributes vi AND VBE_MODE_ATTR_LINEAR_FRAME_BUFFER_MODE \<noteq> 0"

lemma fill_buffer_typed:
  assumes "fill_buffer ver vi m = Accept m'" "typed_mode m"
  shows "typed_mode m'" "depth m' \<noteq> 15" "mode_type m' = mode_type m" "mode_type m = PACKED_PIXEL_MODE \<Longrightarrow> fields_fit m \<Longrightarrow> fields_fit m'"
proof -
  have f: "set_fields a b c d e f g h m = m\<lparr>red_mask_size := a, red_field_pos := b, green_mask_size := c, green_field_pos := d,
     blue_mask_size := e, blue_field_pos := f, reserved_mask_size := g, reserved_field_pos := h\<rparr>" for a b c d e f g h m
    by (simp add: set_fields_def)
  show "mode_type m' = mode_type m" "depth m' \<noteq> 15" "typed_mode m'"
    using assms by (auto simp: fill_buffer_def fill_linear_def fill_window_def f typed_mode_def Let_def split: if_splits option.splits)
  show "fields_fit m'" if "mode_type m = PACKED_PIXEL_MODE" "fields_fit m"
    using assms that by (auto simp: fill_buffer_def fill_linear_def fill_window_def fields_fit_def mode_types Let_def
      split: if_splits option.splits)
qed

lemma fill_buffer_identifier:
  assumes "fill_buffer ver vi m = Accept m'"
  shows "mode_identifier m' = (if linear_mode ver vi then mode_identifier m OR VBE_ID_USE_LFB else mode_identifier m AND NOT VBE_ID_USE_LFB)"
  using assms by (auto simp: fill_buffer_def fill_linear_def fill_window_def set_fields_def linear_mode_def Let_def split: if_splits option.splits)

lemma unat_u16: "unat (x :: u16) < 65536"
proof -
  have "unat x < 2 ^ LENGTH(16)" by (rule unsigned_less)
  then show ?thesis by simp
qed

lemma unat_u16_u32 [simp]: "unat (ucast (x :: u16) :: u32) = unat x"
  using unat_u16[of x] by (simp add: unat_ucast_mod)

lemma u16_product: "unat (ucast (h :: u16) * ucast (b :: u16) :: u32) = unat h * unat b"
proof -
  have "unat h * unat b \<le> 65535 * 65535" using unat_u16[of h] unat_u16[of b] by (intro mult_mono) simp_all
  then show ?thesis by (simp add: unat_word_ariths)
qed

lemma fill_buffer_window:
  assumes "fill_buffer ver vi m = Accept m'" "\<not> linear_mode ver vi" "bytes_per_scanline m = ucast (vbe_bytes_per_scanline vi)"
  shows "unat (height m') * unat (bytes_per_scanline m') \<le> unat (window_size vi) \<and>
    (\<exists>s. s \<in> {window_a_seg vi, window_b_seg vi} \<and> s \<noteq> 0 \<and> lfb_address m' = push_bit 4 (ucast s))"
proof -
  obtain s where s: "window_seg vi = Some s" "\<not> ucast (height m') * bytes_per_scanline m' > (ucast (window_size vi) :: u32)"
    "bytes_per_scanline m' = ucast (vbe_bytes_per_scanline vi)" "lfb_address m' = push_bit 4 (ucast s)"
    using assms by (auto simp: fill_buffer_def fill_window_def linear_mode_def Let_def split: if_splits option.splits)
  have "unat (height m') * unat (bytes_per_scanline m') \<le> unat (window_size vi)"
    using s(2,3) u16_product[of "height m'" "vbe_bytes_per_scanline vi"] by (simp add: word_less_nat_alt)
  moreover have "s \<in> {window_a_seg vi, window_b_seg vi} \<and> s \<noteq> 0" using s(1) by (auto simp: window_seg_def split: if_splits)
  ultimately show ?thesis using s(4) by blast
qed

text \<open>A device that was initialised with a graphics mode can draw.\<close>

lemma fb_init_depth: "depth m \<in> {8, 16, 24, 32} \<Longrightarrow> fb_write_char_depth (fst (fb_init block dev m mm)) = depth m"
  by (auto simp: fb_init_def fb_clear_buffers_def fb_reset_foreground_color_def fb_reset_background_color_def Let_def)

lemma typed_depth: "typed_mode m \<Longrightarrow> depth m \<noteq> 15 \<Longrightarrow> depth m = 0 \<and> mode_type m = VGA_TEXT_MODE \<or>
    depth m \<in> {8, 16, 24, 32} \<and> mode_type m \<in> {PACKED_PIXEL_MODE, DIRECT_COLOR_MODE}"
  by (auto simp: typed_mode_def)

section \<open>The palette\<close>

lemma bit_palette_level:
  assumes "bits \<le> 8" "sz \<le> 8" "pos < 32"
  shows "bit (palette_level pos sz bits i) n \<longleftrightarrow>
    n < unat bits \<and> 8 \<le> n + (8 - unat bits) + unat sz \<and> bit (of_nat i :: u32) (unat pos + (n + (8 - unat bits) - (8 - unat sz)))"
proof -
  have "unat bits \<le> 8" "unat sz \<le> 8" "unat pos < 32" using assms by (simp_all add: word_le_nat_alt word_less_nat_alt)
  then show ?thesis by (auto simp: palette_level_def Let_def bit_simps)
qed

text \<open>
  The colours of entry \<open>i\<close>, scaled from \<open>bits\<close> to 8 bits as the hardware shows them, are drawn with the
  pixel \<open>i\<close> itself.
\<close>

definition palette_mode :: "mode_info \<Rightarrow> bool" where
  "palette_mode m \<longleftrightarrow> red_mask_size m = 3 \<and> red_field_pos m = 5 \<and> green_mask_size m = 3 \<and> green_field_pos m = 2 \<and>
     blue_mask_size m = 2 \<and> blue_field_pos m = 0"

lemma accepted_palette_mode:
  assumes "fill_buffer ver vi (fill_fields vi m') = Accept m" "typed_mode m'" "mode_type m = PACKED_PIXEL_MODE" "depth m = 8"
  shows "palette_mode m"
proof -
  have "mode_type m' = PACKED_PIXEL_MODE" "depth m' = 8"
    using assms by (auto simp: fill_buffer_def fill_linear_def fill_window_def set_fields_def Let_def split: if_splits option.splits)
  then have "palette_mode (fill_fields vi m')" "mode_type (fill_fields vi m') = PACKED_PIXEL_MODE"
    by (simp_all add: fill_fields_def set_fields_def palette_mode_def mode_types)
  then show ?thesis using assms(1)
    by (auto simp: fill_buffer_def fill_linear_def fill_window_def palette_mode_def mode_types Let_def split: if_splits option.splits)
qed

lemma concat_triples: "(\<And>x. length (f x) = 3) \<Longrightarrow> i < length xs \<Longrightarrow> take 3 (drop (3 * i) (concat (map f xs))) = f (xs ! i)"
proof (induction xs arbitrary: i)
  case (Cons x xs)
  then show ?case by (cases i) auto
qed simp

lemma vga_outputs_entry:
  "i < length pal \<Longrightarrow> take 3 (drop (2 + 3 * i) (vga_outputs pal)) = [(0x3C9, pal ! i ! 2), (0x3C9, pal ! i ! 1), (0x3C9, pal ! i ! 0)]"
  using concat_triples[of "\<lambda>e. [(0x3C9, e ! 2), (0x3C9, e ! 1), (0x3C9, e ! 0)]" i pal] by (simp add: vga_outputs_def)

definition shown :: "u8 \<Rightarrow> u8 \<Rightarrow> u8" where
  "shown bits v = push_bit (8 - unat bits) v"

lemma bit_shown_level:
  assumes "sz \<le> bits" "bits \<le> 8" "pos < 32"
  shows "bit (drop_bit (8 - unat sz) (shown bits (palette_level pos sz bits i))) n \<longleftrightarrow> n < unat sz \<and> bit (of_nat i :: u32) (unat pos + n)"
proof -
  have s: "unat sz \<le> unat bits" "unat bits \<le> 8" using assms by (simp_all add: word_le_nat_alt)
  have "sz \<le> 8" using assms(1,2) by (rule order_trans)
  note b = bit_palette_level[OF assms(2) this assms(3)]
  show ?thesis using s by (auto simp: shown_def bit_simps b)
qed

lemma palette_pixel:
  assumes m: "palette_mode m" and "3 \<le> bits" "bits \<le> 8" "i < 256"
  shows "fb_get_pixel_color m (shown bits (palette_entry m bits i ! 2)) (shown bits (palette_entry m bits i ! 1))
    (shown bits (palette_entry m bits i ! 0)) = of_nat i"
proof (rule bit_word_eqI)
  fix n assume n: "n < LENGTH(32)"
  have i: "\<not> bit (of_nat i :: u32) n" if "8 \<le> n"
  proof -
    have "i < 2 ^ n" using assms(4) power_increasing[OF that, of "2 :: nat"] by simp
    then have "\<not> bit i n" by (simp add: bit_iff_odd)
    then show ?thesis by (simp add: bit_simps)
  qed
  have 2: "2 \<le> bits" using order_trans[OF _ assms(2), of 2] by simp
  have b: "bit (drop_bit 5 (shown bits (palette_level 5 3 bits i))) k \<longleftrightarrow> k < 3 \<and> bit (of_nat i :: u32) (5 + k)"
    "bit (drop_bit 5 (shown bits (palette_level 2 3 bits i))) k \<longleftrightarrow> k < 3 \<and> bit (of_nat i :: u32) (2 + k)"
    "bit (drop_bit 6 (shown bits (palette_level 0 2 bits i))) k \<longleftrightarrow> k < 2 \<and> bit (of_nat i :: u32) k" for k
    using bit_shown_level[of 3 bits 5 i k, OF assms(2,3)] bit_shown_level[of 3 bits 2 i k, OF assms(2,3)]
      bit_shown_level[of 2 bits 0 i k, OF 2 assms(3)] by simp_all
  have e: "fb_get_pixel_color m (shown bits (palette_entry m bits i ! 2)) (shown bits (palette_entry m bits i ! 1))
      (shown bits (palette_entry m bits i ! 0)) = push_bit 5 (ucast (drop_bit 5 (shown bits (palette_level 5 3 bits i)))) OR
      push_bit 2 (ucast (drop_bit 5 (shown bits (palette_level 2 3 bits i)))) OR ucast (drop_bit 6 (shown bits (palette_level 0 2 bits i)))"
    using m by (simp add: palette_mode_def fb_get_pixel_color_def palette_entry_def)
  have h: "2 \<le> n \<Longrightarrow> Suc (Suc (n - 2)) = n" "n < 8 \<Longrightarrow> n - 5 < 3 \<and> n - 5 < 32" by auto
  show "bit (fb_get_pixel_color m (shown bits (palette_entry m bits i ! 2)) (shown bits (palette_entry m bits i ! 1))
    (shown bits (palette_entry m bits i ! 0))) n \<longleftrightarrow> bit (of_nat i :: u32) n"
    unfolding e bit_or_iff bit_push_bit_iff bit_ucast_iff b using i n h by (cases "n < 2"; cases "n < 5"; cases "n < 8") simp_all
qed

section \<open>The search\<close>

datatype vbe_answer = Unsupported | Failed | Info vbe_mode_info

text \<open>The mode that the search ends with, from the answers of the firmware; \<open>None\<close> if \<^verbatim>\<open>vbe_init\<close> gives up.\<close>

fun select_mode :: "u16 \<Rightarrow> (u16 \<times> vbe_answer) list \<Rightarrow> mode_info \<Rightarrow> mode_info option" where
  "select_mode ver [] m = Some m"
| "select_mode ver ((ident, Unsupported) # xs) m = None"
| "select_mode ver ((ident, Failed) # xs) m = select_mode ver xs m"
| "select_mode ver ((ident, Info vi) # xs) m =
     (case translate_mode ver ident vi of
        Reject m' \<Rightarrow> select_mode ver xs m'
      | Accept m' \<Rightarrow> if preferred m' then Some m' else select_mode ver xs m')"

text \<open>What the search reads again and again: the version and the list of identifiers with its end mark.\<close>

definition listing :: "'w vbe_env \<Rightarrow> addr \<Rightarrow> u16 \<Rightarrow> u16 list \<Rightarrow> bytes \<Rightarrow> bool" where
  "listing env p ver ids m \<longleftrightarrow> load16 m (info_ptr env + 4) = ver \<and> (\<forall>k < length ids. load16 m (p + of_nat (2 * k)) = ids ! k) \<and>
     load16 m (p + of_nat (2 * length ids)) = 0xFFFF \<and> 0xFFFF \<notin> set ids"

fun answered :: "vbe_answer \<Rightarrow> vbe_mode_info \<Rightarrow> bios_registers \<Rightarrow> bool" where
  "answered Unsupported vi regs = (\<not> function_supported regs)"
| "answered Failed vi regs = (function_supported regs \<and> call_failed regs)"
| "answered (Info v) vi regs = (function_supported regs \<and> \<not> call_failed regs \<and> vi = v)"

text \<open>
  The firmware answers function 4F01 for each identifier of the list, with the block in the buffer
  it was given, and leaves the list alone; so do the new entries of the list of modes.
\<close>

definition vbe_reports :: "'w vbe_env \<Rightarrow> 'w platform \<Rightarrow> addr \<Rightarrow> u16 \<Rightarrow> (u16 \<times> vbe_answer) list \<Rightarrow> bool" where
  "vbe_reports env pf p ver xs \<longleftrightarrow>
     (\<forall>mc regs k. k < length xs \<and> listing env p ver (map fst xs) (mem mc) \<longrightarrow>
        (case bios_int_call pf 0x10 (mode_call env (fst (xs ! k)) regs) (put (scratch_ptr env) (replicate sizeof_vbe_mode_info 0) mc) of
           (regs', mc') \<Rightarrow> listing env p ver (map fst xs) (mem mc') \<and>
             answered (snd (xs ! k)) (load_mode_info (mem mc') (scratch_ptr env)) regs')) \<and>
     (\<forall>mc m. listing env p ver (map fst xs) (mem mc) \<longrightarrow>
        (case malloc env sizeof_mode_list_entry mc of (a, mc') \<Rightarrow> a \<noteq> NULL \<and>
           listing env p ver (map fst xs) (mem (insert_mode (modes_ptr env) a (put a (mode_info_bytes m) mc')))))"

lemma mode_loop_chooses:
  assumes rep: "vbe_reports env pf p ver xs"
  shows "k \<le> length xs \<Longrightarrow> length xs - k < n \<Longrightarrow> listing env p ver (map fst xs) (mem mc) \<Longrightarrow>
    \<exists>mc'. mode_loop n env pf (p + of_nat (2 * k)) regs m mc = Inr (select_mode ver (drop k xs) m, mc') \<and>
      listing env p ver (map fst xs) (mem mc')"
proof (induction n arbitrary: k regs m mc)
  case (Suc n)
  let ?put = "put (scratch_ptr env) (replicate sizeof_vbe_mode_info 0) mc"
  show ?case
  proof (cases "k = length xs")
    case True
    then show ?thesis using Suc.prems(3) by (simp add: listing_def del: load_bytes.simps)
  next
    case False
    with Suc.prems(1) have k: "k < length xs" by simp
    then obtain ident a where x: "xs ! k = (ident, a)" "drop k xs = (ident, a) # drop (Suc k) xs"
      by (metis Cons_nth_drop_Suc surj_pair)
    have id: "load16 (mem mc') (p + of_nat (2 * k)) = ident" if "listing env p ver (map fst xs) (mem mc')" for mc' :: "'a machine"
      using that k x(1) by (simp add: listing_def del: load_bytes.simps)
    have ne: "ident \<noteq> 0xFFFF" using Suc.prems(3) k x(1) nth_mem[OF k] by (force simp: listing_def)
    obtain regs1 mc1 where c: "bios_int_call pf 0x10 (mode_call env ident regs) ?put = (regs1, mc1)" by (cases "bios_int_call pf 0x10 (mode_call env ident regs) ?put")
    have r: "listing env p ver (map fst xs) (mem mc1)" "answered a (load_mode_info (mem mc1) (scratch_ptr env)) regs1"
      using rep k Suc.prems(3) x(1) c by (auto simp: vbe_reports_def simp del: load_bytes.simps dest!: spec[of _ mc] spec[of _ regs] spec[of _ k])
    have ver: "version (load_info_block (mem mc1) (info_ptr env)) = ver" using r(1) by (simp add: listing_def load_info_block_def del: load_bytes.simps)
    have p: "p + of_nat (2 * k) + 2 = p + of_nat (2 * Suc k)" by (simp add: algebra_simps)
    have IH: "\<exists>mc'. mode_loop n env pf (p + of_nat (2 * Suc k)) regs' m' mc0 = Inr (select_mode ver (drop (Suc k) xs) m', mc') \<and>
        listing env p ver (map fst xs) (mem mc')"
      if "listing env p ver (map fst xs) (mem mc0)" for regs' m' mc0
      using Suc.IH[of "Suc k" mc0 regs' m'] k Suc.prems(2) that by simp
    let ?vi = "load_mode_info (mem mc1) (scratch_ptr env)"
    have step: "mode_loop (Suc n) env pf (p + of_nat (2 * k)) regs m mc =
      (if \<not> function_supported regs1 then Inr (None, mc1)
       else if call_failed regs1 then mode_loop n env pf (p + of_nat (2 * Suc k)) regs1 m mc1
       else case translate_mode ver ident ?vi of
           Reject m \<Rightarrow> mode_loop n env pf (p + of_nat (2 * Suc k)) regs1 m mc1
         | Accept m \<Rightarrow> (let (new_entry, mc) = malloc env sizeof_mode_list_entry mc1 in
             if new_entry = NULL then Inr (None, mc)
             else (let mc = insert_mode (modes_ptr env) new_entry (put new_entry (mode_info_bytes m) mc) in
               if preferred m then Inr (Some m, mc) else mode_loop n env pf (p + of_nat (2 * Suc k)) regs1 m mc)))"
      unfolding mode_loop.simps id[OF Suc.prems(3)] Let_def c prod.case id[OF r(1)] ver p using ne by simp
    show ?thesis
    proof (cases a)
      case (Info vi)
      then have a: "function_supported regs1" "\<not> call_failed regs1" "?vi = vi" using r(2) by simp_all
      show ?thesis
      proof (cases "translate_mode ver ident vi")
        case (Reject m')
        then show ?thesis unfolding step using IH[OF r(1)] a x(2) Info by simp
      next
        case (Accept m')
        obtain e mc2 where e: "malloc env sizeof_mode_list_entry mc1 = (e, mc2)" by (cases "malloc env sizeof_mode_list_entry mc1")
        have "e \<noteq> NULL \<and> listing env p ver (map fst xs) (mem (insert_mode (modes_ptr env) e (put e (mode_info_bytes m') mc2)))"
          using rep r(1) e unfolding vbe_reports_def by fastforce
        then show ?thesis unfolding step using IH a x(2) Info Accept e by (simp add: Let_def)
      qed
    next
      case Unsupported
      then show ?thesis unfolding step using r x(2) by simp
    next
      case Failed
      then show ?thesis unfolding step using r(2) x(2) IH[OF r(1)] by simp
    qed
  qed
qed simp

text \<open>The calls before the search: a VGA card, and a VESA BIOS with the list of modes at \<open>p\<close>.\<close>

definition vbe_present :: "'w vbe_env \<Rightarrow> 'w platform \<Rightarrow> addr \<Rightarrow> u16 \<Rightarrow> u16 list \<Rightarrow> bool" where
  "vbe_present env pf p ver ids \<longleftrightarrow>
     (\<forall>mc. case bios_int_call pf 0x10 (zero_registers\<lparr>eax := 0x1A00\<rparr>) mc of (regs, mc') \<Rightarrow> eax regs AND 0xFF = 0x1A) \<and>
     (\<forall>mc regs. case bios_int_call pf 0x10 (info_call env regs) (put (info_ptr env) vbe_signature mc) of (regs', mc') \<Rightarrow>
        function_supported regs' \<and> \<not> call_failed regs' \<and> signature (load_info_block (mem mc') (info_ptr env)) = vesa_signature \<and>
        rm_ptr_from_far (video_modes_ptr (load_info_block (mem mc') (info_ptr env))) = p \<and> listing env p ver ids (mem mc'))"

lemma vbe_init_chooses:
  assumes "vbe_present env pf p ver (map fst xs)" "vbe_reports env pf p ver xs" "length xs < mode_limit env"
  shows "\<exists>mc. listing env p ver (map fst xs) (mem mc) \<and> vbe_init env pf m0 st = (case select_mode ver xs m0 of None \<Rightarrow> Inr (st\<lparr>vmach := mc\<rparr>)
    | Some m \<Rightarrow> andthen (vbe_switch_mode env pf m (st\<lparr>vmach := mc\<rparr>)) (\<lambda>(_, st). Inr st))"
proof -
  obtain regs1 mc1 where c1: "bios_int_call pf 0x10 (zero_registers\<lparr>eax := 0x1A00\<rparr>) (vmach st) = (regs1, mc1)" by fastforce
  let ?mc = "insert_mode (modes_ptr env) (vga_modes_ptr env) mc1"
  obtain regs2 mc2 where c2: "bios_int_call pf 0x10 (info_call env regs1) (put (info_ptr env) vbe_signature ?mc) = (regs2, mc2)" by fastforce
  have 1: "eax regs1 AND 0xFF = 0x1A" using assms(1) c1 unfolding vbe_present_def by (metis (mono_tags, lifting) case_prod_conv)
  have 2: "function_supported regs2" "\<not> call_failed regs2" "signature (load_info_block (mem mc2) (info_ptr env)) = vesa_signature"
    "rm_ptr_from_far (video_modes_ptr (load_info_block (mem mc2) (info_ptr env))) = p" "listing env p ver (map fst xs) (mem mc2)"
    using assms(1) c2 unfolding vbe_present_def by (auto dest!: spec[of _ ?mc] spec[of _ regs1])
  obtain mc3 where "mode_loop (mode_limit env) env pf p regs2 m0 mc2 = Inr (select_mode ver xs m0, mc3)" "listing env p ver (map fst xs) (mem mc3)"
    using mode_loop_chooses[OF assms(2) _ _ 2(5), of 0 "mode_limit env" regs2 m0] assms(3) by auto
  then have "listing env p ver (map fst xs) (mem mc3)" "vbe_init env pf m0 st = (case select_mode ver xs m0 of None \<Rightarrow> Inr (st\<lparr>vmach := mc3\<rparr>)
    | Some m \<Rightarrow> andthen (vbe_switch_mode env pf m (st\<lparr>vmach := mc3\<rparr>)) (\<lambda>(_, st). Inr st))"
    unfolding vbe_init_def c1 Let_def prod.case c2 using 1 2 by simp_all
  then show ?thesis by blast
qed

text \<open>The first preferred mode is found if the firmware answers for all modes before it.\<close>

fun passed_over :: "u16 \<Rightarrow> u16 \<times> vbe_answer \<Rightarrow> bool" where
  "passed_over ver (ident, Unsupported) = False"
| "passed_over ver (ident, Failed) = True"
| "passed_over ver (ident, Info vi) = (case translate_mode ver ident vi of Reject m \<Rightarrow> True | Accept m \<Rightarrow> \<not> preferred m)"

lemma select_mode_first:
  assumes "\<forall>x\<in>set as. passed_over ver x" "translate_mode ver ident vi = Accept m" "preferred m"
  shows "select_mode ver (as @ (ident, Info vi) # bs) m0 = Some m"
  using assms(1)
proof (induction as arbitrary: m0)
  case (Cons x as)
  obtain i a where "x = (i, a)" by (cases x)
  then show ?case using Cons by (cases a) (auto split: translation.splits)
qed (use assms(2,3) in simp)

text \<open>
  What becomes of a chosen mode that needs no palette: the firmware is told to set it, on the machine \<open>mc\<close> that the search
  leaves.  If the firmware does, the back buffer is allocated and the console set up for the mode; if it refuses, the console
  is as before.
\<close>

definition mode_set :: "'w vbe_env \<Rightarrow> 'w platform \<Rightarrow> mode_info \<Rightarrow> 'w machine \<Rightarrow> 'w vbe_state \<Rightarrow> 'w vbe_state \<Rightarrow> bool" where
  "mode_set env pf m mc st st' \<longleftrightarrow> (\<exists>regs mc1. bios_int_call pf 0x10 (zero_registers\<lparr>eax := 0x4F02, ebx := mode_identifier m\<rparr>) mc = (regs, mc1) \<and>
     (if eax regs AND 0xFFFF = 0x4F
      then \<exists>block mc2. malloc env (back_buffer_bytes m) mc1 = (block, mc2) \<and> world (vmach st') = world mc2 \<and>
        fb_init block (fb st) m (mem mc2) = (fb st', mem (vmach st'))
      else vmach st' = mc1 \<and> fb st' = fb st))"

lemma vbe_init_selected:
  assumes "vbe_present env pf p ver (map fst xs)" "vbe_reports env pf p ver xs" "length xs < mode_limit env"
    "select_mode ver xs m0 = Some m" "depth m \<noteq> 8"
  shows "\<exists>mc st'. vbe_init env pf m0 st = Inr st' \<and> listing env p ver (map fst xs) (mem mc) \<and> mode_set env pf m mc st st'"
proof -
  obtain mc where l: "listing env p ver (map fst xs) (mem mc)" and
    i: "vbe_init env pf m0 st = andthen (vbe_switch_mode env pf m (st\<lparr>vmach := mc\<rparr>)) (\<lambda>(_, st). Inr st)"
    using vbe_init_chooses[OF assms(1-3), of m0 st] assms(4) by auto
  obtain regs mc1 where c: "bios_int_call pf 0x10 (zero_registers\<lparr>eax := 0x4F02, ebx := mode_identifier m\<rparr>) mc = (regs, mc1)" by fastforce
  obtain block mc2 where b: "malloc env (back_buffer_bytes m) mc1 = (block, mc2)" by fastforce
  obtain dev mm where f: "fb_init block (fb st) m (mem mc2) = (dev, mm)" by fastforce
  define st' where "st' = (if call_ok regs then st\<lparr>vmach := mc2\<lparr>mem := mm\<rparr>, fb := dev\<rparr> else st\<lparr>vmach := mc1\<rparr>)"
  have "vbe_init env pf m0 st = Inr st'"
    unfolding i vbe_switch_mode_def st'_def using c assms(5) b f by simp
  moreover have "mode_set env pf m mc st st'"
    unfolding mode_set_def using c b f by (simp add: st'_def call_ok_def)
  ultimately show ?thesis using l by blast
qed

end
