(* ===== verification/Vbe_Properties.thy ===== *)
theory Vbe_Properties
  imports Vbe_Correct
begin

text \<open>The properties of the video mode selection, with instances on a firmware that has one mode.\<close>

section \<open>A firmware with one mode\<close>

text \<open>1024 by 768 pixels of 32 bits in a linear frame buffer, VBE 3.0; the list of modes follows the block of information.\<close>

definition sample_block :: "u8 list" where
  "sample_block = [0x9B, 0, 7, 0, 64, 0, 64, 0, 0, 0xA0, 0, 0, 0, 0, 0, 0, 0, 0x10, 0, 4, 0, 3, 8, 16, 1, 32, 1, 6, 0, 0, 1,
     8, 16, 8, 8, 8, 0, 8, 24, 0, 0, 0, 0, 0xE0, 0, 0, 0, 0, 0, 0, 0, 0x10, 0, 0, 8, 16, 8, 8, 8, 0, 8, 24, 0, 0, 0, 0] @ replicate 190 0"

definition sample_info :: "u8 list" where
  "sample_info = [0x56, 0x45, 0x53, 0x41, 0, 3, 0, 0, 0, 0, 0, 0, 0, 0, 2, 0, 2, 8] @ replicate 16 0 @ [0x18, 1, 0xFF, 0xFF]"

definition vbe_firmware :: "u32 \<Rightarrow> u8 \<Rightarrow> addr \<Rightarrow> unit machine \<Rightarrow> unit machine" where
  "vbe_firmware target num sp mc =
     (let regs = load_regs (mem mc) sp; buf = ucast (es regs) * 16 + ucast (ucast (edi regs) :: u16);
          bs = (if eax regs = 0x4F00 then sample_info else if eax regs = 0x4F01 then sample_block else []);
          regs' = regs\<lparr>eax := (if eax regs = 0x1A00 then 0x1A else 0x4F)\<rparr>
      in mc\<lparr>mem := store_bytes (store_bytes (mem mc) buf bs) sp (regs_bytes regs')\<rparr>)"

definition vbe_platform :: "unit platform" where
  "vbe_platform = \<lparr>bios_services = \<lparr>magic = 0, tsize = 20, rm_stack = 0x7000, far_call_ptr = 0, int_call_ptr = 0\<rparr>,
     int_entry = vbe_firmware, far_entry = (\<lambda>_ _ mc. mc), port_in = (\<lambda>_ mc. (0, mc)), port_out = (\<lambda>_ _ mc. mc)\<rparr>"

definition sample_env :: "unit vbe_env" where
  "sample_env = \<lparr>info_ptr = 0x8000, scratch_ptr = 0x9000, modes_ptr = 0xA000, vga_modes_ptr = 0xA100, palette_ptr = 0xA200,
     malloc = (\<lambda>_ mc. (0xB000, mc)), mode_limit = 2\<rparr>"

text \<open>The answer to a call: the registers with the status, the block in the buffer, and memory outside of the stack as it was.\<close>

lemma vbe_platform_call:
  fixes mc :: "unit machine"
  defines "bs regs \<equiv> (if eax regs = 0x4F00 then sample_info else if eax regs = 0x4F01 then sample_block else [])"
  assumes "v < 0x100000" "es regs = rm_seg_from_ptr v" "edi regs = ucast (rm_offset_from_ptr v)"
  shows "\<exists>m. (\<forall>x. \<not> in_block 0x6FD0 48 x \<longrightarrow> m x = mem mc x) \<and>
    bios_int_call vbe_platform num regs mc = (regs\<lparr>eax := (if eax regs = 0x1A00 then 0x1A else 0x4F)\<rparr>,
      mc\<lparr>mem := store_bytes (store_bytes m v (bs regs)) 0x6FD0 (regs_bytes (regs\<lparr>eax := (if eax regs = 0x1A00 then 0x1A else 0x4F)\<rparr>))\<rparr>)"
proof -
  have f: "int_frame vbe_platform = 0x6FD0" by (simp add: int_frame_def vbe_platform_def)
  obtain m where m: "load_regs m 0x6FD0 = regs" "\<forall>x. \<not> in_block 0x6FD0 48 x \<longrightarrow> m x = mem mc x"
    "bios_int_call vbe_platform num regs mc = (load_regs (mem (vbe_firmware 0 num 0x6FD0 (mc\<lparr>mem := m\<rparr>))) 0x6FD0,
      vbe_firmware 0 num 0x6FD0 (mc\<lparr>mem := m\<rparr>))"
    using int_call_frame[where pf = vbe_platform and regs = regs and mc = mc and num = num] f by (auto simp: vbe_platform_def Let_def)
  have "ucast (ucast (rm_offset_from_ptr v) :: u32) = rm_offset_from_ptr v"
    using unat_u16[of "rm_offset_from_ptr v"] by (simp add: word_unat_eq_iff unat_ucast_mod)
  then have b: "ucast (es regs) * 16 + ucast (ucast (edi regs) :: u16) = v" using seg_offset[OF assms(2)] assms(3,4) by simp
  have "mem (vbe_firmware 0 num 0x6FD0 (mc\<lparr>mem := m\<rparr>)) =
    store_bytes (store_bytes m v (bs regs)) 0x6FD0 (regs_bytes (regs\<lparr>eax := (if eax regs = 0x1A00 then 0x1A else 0x4F)\<rparr>))"
    unfolding vbe_firmware_def using m(1) b by (simp add: bs_def Let_def del: store_bytes.simps)
  then show ?thesis
    using m(2,3) by (intro exI[of _ m]) (simp add: load_store_regs vbe_firmware_def bs_def Let_def m(1) b del: store_bytes.simps)
qed

lemma vbe_platform_loads:
  fixes mc :: "unit machine"
  assumes "v < 0x100000" "0x7000 \<le> v" "es regs = rm_seg_from_ptr v" "edi regs = ucast (rm_offset_from_ptr v)"
    and bs: "bs = (if eax regs = 0x4F00 then sample_info else if eax regs = 0x4F01 then sample_block else [])"
  shows "\<exists>mc'. bios_int_call vbe_platform num regs mc = (regs\<lparr>eax := (if eax regs = 0x1A00 then 0x1A else 0x4F)\<rparr>, mc') \<and>
    (\<forall>a n. 0x7000 \<le> a \<and> unat a + n < 2 ^ 64 \<longrightarrow> load_bytes (mem mc') a n = load_bytes (store_bytes (mem mc) v bs) a n)"
proof -
  let ?R = "regs_bytes (regs\<lparr>eax := (if eax regs = 0x1A00 then 0x1A else 0x4F)\<rparr>)"
  obtain m where m: "\<forall>x. \<not> in_block 0x6FD0 48 x \<longrightarrow> m x = mem mc x"
    "bios_int_call vbe_platform num regs mc = (regs\<lparr>eax := (if eax regs = 0x1A00 then 0x1A else 0x4F)\<rparr>,
      mc\<lparr>mem := store_bytes (store_bytes m v bs) 0x6FD0 ?R\<rparr>)"
    using vbe_platform_call[OF assms(1,3,4), where mc = mc and num = num] bs by auto
  have l: "length bs \<le> 256" by (simp add: bs sample_info_def sample_block_def)
  have "load_bytes (store_bytes (store_bytes m v bs) 0x6FD0 ?R) a n = load_bytes (store_bytes (mem mc) v bs) a n"
    if a: "0x7000 \<le> a" "unat a + n < 2 ^ 64" for a n
  proof -
    have u: "0x7000 \<le> unat a" "unat v < 0x100000" using a assms(1) by (simp_all add: word_le_nat_alt word_less_nat_alt)
    have "store_bytes m v bs x = store_bytes (mem mc) v bs x" if "in_block a n x" for x
    proof -
      have "\<not> in_block 0x6FD0 48 x" using in_block_range[OF a(2) that] in_block_range[of "0x6FD0" 48 x] u by auto
      then show ?thesis using m(1) l by (cases "in_block v (length bs) x") (simp_all add: nth_store_bytes store_bytes_other)
    qed
    then have "load_bytes (store_bytes m v bs) a n = load_bytes (store_bytes (mem mc) v bs) a n" by (rule load_bytes_cong)
    then show ?thesis using u a(2) by (subst load_store_apart) auto
  qed
  with m(2) show ?thesis by auto
qed

lemma sample_listing_store:
  assumes "listing sample_env 0x8022 0x300 [0x118] m" "unat b + length bs < 2 ^ 64" "unat b + length bs \<le> 0x8000 \<or> 0x8026 \<le> unat b"
  shows "listing sample_env 0x8022 0x300 [0x118] (store_bytes m b bs)"
proof -
  have "load_bytes (store_bytes m b bs) a 2 = load_bytes m a 2" if "0x8000 \<le> unat a" "unat a + 2 \<le> 0x8026" for a
    using that assms(2,3) by (intro load_store_apart) auto
  then show ?thesis using assms(1) by (simp add: listing_def sample_env_def del: load_bytes.simps store_bytes.simps)
qed

lemma sample_listing_cong:
  assumes "listing sample_env 0x8022 0x300 [0x118] m" "\<And>a n. 0x7000 \<le> a \<Longrightarrow> unat a + n < 2 ^ 64 \<Longrightarrow> load_bytes m' a n = load_bytes m a n"
  shows "listing sample_env 0x8022 0x300 [0x118] m'"
  using assms by (simp add: listing_def sample_env_def del: load_bytes.simps store_bytes.simps)

lemma load_sample_block: "load_mode_info (store_bytes m 0x9000 sample_block) 0x9000 = mode_info_of sample_block"
  using load_store_bytes[of sample_block m "0x9000"]
  by (simp add: load_mode_info_def sizeof_vbe_mode_info_def sample_block_def del: load_bytes.simps store_bytes.simps)

lemma sample_reports: "vbe_reports sample_env vbe_platform 0x8022 0x300 [(0x118, Info (mode_info_of sample_block))]"
  unfolding vbe_reports_def
proof (intro conjI allI impI)
  fix mc :: "unit machine" and regs k
  assume "k < length [(0x118 :: u16, Info (mode_info_of sample_block))] \<and>
    listing sample_env 0x8022 0x300 (map fst [(0x118, Info (mode_info_of sample_block))]) (mem mc)"
  then have k: "k = 0" and l: "listing sample_env 0x8022 0x300 [0x118] (mem mc)" by simp_all
  let ?mc = "put 0x9000 (replicate sizeof_vbe_mode_info 0) mc"
  obtain mc' where c: "bios_int_call vbe_platform 0x10 (mode_call sample_env 0x118 regs) ?mc = ((mode_call sample_env 0x118 regs)\<lparr>eax := 0x4F\<rparr>, mc')"
    "\<And>a n. 0x7000 \<le> a \<Longrightarrow> unat a + n < 2 ^ 64 \<Longrightarrow> load_bytes (mem mc') a n = load_bytes (store_bytes (mem ?mc) 0x9000 sample_block) a n"
    using vbe_platform_loads[of "0x9000" "mode_call sample_env 0x118 regs" sample_block "0x10" ?mc] by (auto simp: mode_call_def sample_env_def simp del: load_bytes.simps store_bytes.simps)
  have "listing sample_env 0x8022 0x300 [0x118] (store_bytes (mem ?mc) 0x9000 sample_block)"
    using l by (intro sample_listing_store) (simp_all add: sample_listing_store sizeof_vbe_mode_info_def sample_block_def del: store_bytes.simps)
  then have "listing sample_env 0x8022 0x300 [0x118] (mem mc')" using c(2) by (rule sample_listing_cong)
  moreover have "load_mode_info (mem mc') 0x9000 = mode_info_of sample_block"
    using load_sample_block[of "mem ?mc"] c(2)[of "0x9000" 256] by (simp add: load_mode_info_def sizeof_vbe_mode_info_def del: load_bytes.simps store_bytes.simps)
  ultimately show "case bios_int_call vbe_platform 0x10 (mode_call sample_env (fst ([(0x118, Info (mode_info_of sample_block))] ! k)) regs)
      (put (scratch_ptr sample_env) (replicate sizeof_vbe_mode_info 0) mc) of (regs', mc') \<Rightarrow>
    listing sample_env 0x8022 0x300 (map fst [(0x118, Info (mode_info_of sample_block))]) (mem mc') \<and>
    answered (snd ([(0x118, Info (mode_info_of sample_block))] ! k)) (load_mode_info (mem mc') (scratch_ptr sample_env)) regs'"
    using c(1) k by (simp add: sample_env_def function_supported_def call_failed_def del: load_bytes.simps store_bytes.simps)
next
  fix mc :: "unit machine" and m
  assume "listing sample_env 0x8022 0x300 (map fst [(0x118, Info (mode_info_of sample_block))]) (mem mc)"
  then have "listing sample_env 0x8022 0x300 [0x118] (mem mc)" by simp
  then have "listing sample_env 0x8022 0x300 [0x118] (mem (insert_mode 0xA000 0xB000 (put 0xB000 (mode_info_bytes m) mc)))"
    by (simp add: insert_mode_def Let_def sample_listing_store mode_info_bytes_def del: store_bytes.simps load_bytes.simps word_le.simps)
  then show "case malloc sample_env sizeof_mode_list_entry mc of (a, mc') \<Rightarrow> a \<noteq> NULL \<and> listing sample_env 0x8022 0x300
      (map fst [(0x118, Info (mode_info_of sample_block))]) (mem (insert_mode (modes_ptr sample_env) a (put a (mode_info_bytes m) mc')))"
    by (simp add: sample_env_def)
qed

lemma sample_info_loads:
  "load_bytes (store_bytes m 0x8000 sample_info) 0x8000 4 = vesa_signature"
  "load32 (store_bytes m 0x8000 sample_info) 0x800E = 0x08020002"
  "listing sample_env 0x8022 0x300 [0x118] (store_bytes m 0x8000 sample_info)"
proof -
  have at: "store_bytes m 0x8000 sample_info x = sample_info ! unat (x - 0x8000)" if "unat (x - 0x8000) < 38" for x
    using that by (subst nth_store_bytes) (simp_all add: in_block_def sample_info_def)
  have l: "load_bytes f a 2 = [f a, f (a + 1)]" "load_bytes f a 4 = [f a, f (a + 1), f (a + 2), f (a + 3)]" for f a
    by (simp_all add: eval_nat_numeral ac_simps)
  show "load_bytes (store_bytes m 0x8000 sample_info) 0x8000 4 = vesa_signature"
    "load32 (store_bytes m 0x8000 sample_info) 0x800E = 0x08020002"
    "listing sample_env 0x8022 0x300 [0x118] (store_bytes m 0x8000 sample_info)"
    by (simp_all add: l at listing_def sample_env_def del: store_bytes.simps load_bytes.simps)
      (simp_all add: sample_info_def vesa_signature_def nth_append)
qed

lemma sample_present: "vbe_present sample_env vbe_platform 0x8022 0x300 [0x118]"
  unfolding vbe_present_def
proof (intro conjI allI)
  fix mc :: "unit machine"
  obtain m where "bios_int_call vbe_platform 0x10 (zero_registers\<lparr>eax := 0x1A00\<rparr>) mc = ((zero_registers\<lparr>eax := 0x1A00\<rparr>)\<lparr>eax := 0x1A\<rparr>, m)"
    using vbe_platform_call[of 0 "zero_registers\<lparr>eax := 0x1A00\<rparr>" mc "0x10"]
    by (auto simp: zero_registers_def rm_seg_from_ptr_def rm_offset_from_ptr_def)
  then show "case bios_int_call vbe_platform 0x10 (zero_registers\<lparr>eax := 0x1A00\<rparr>) mc of (regs, mc') \<Rightarrow> eax regs AND 0xFF = 0x1A" by simp
next
  fix mc :: "unit machine" and regs
  let ?mc = "put 0x8000 vbe_signature mc"
  obtain mc' where c: "bios_int_call vbe_platform 0x10 (info_call sample_env regs) ?mc = ((info_call sample_env regs)\<lparr>eax := 0x4F\<rparr>, mc')"
    "\<And>a n. 0x7000 \<le> a \<Longrightarrow> unat a + n < 2 ^ 64 \<Longrightarrow> load_bytes (mem mc') a n = load_bytes (store_bytes (mem ?mc) 0x8000 sample_info) a n"
    using vbe_platform_loads[of "0x8000" "info_call sample_env regs" sample_info "0x10" ?mc] by (auto simp: info_call_def sample_env_def simp del: load_bytes.simps store_bytes.simps)
  have "listing sample_env 0x8022 0x300 [0x118] (mem mc')" using sample_info_loads(3) c(2) by (rule sample_listing_cong)
  moreover have "signature (load_info_block (mem mc') 0x8000) = vesa_signature" "video_modes_ptr (load_info_block (mem mc') 0x8000) = 0x08020002"
    using sample_info_loads(1,2)[of "mem ?mc"] c(2)[of "0x8000" 4] c(2)[of "0x800E" 4] by (simp_all add: load_info_block_def del: load_bytes.simps store_bytes.simps)
  moreover have "rm_ptr_from_far 0x08020002 = 0x8022" by (simp add: rm_ptr_from_far_def)
  ultimately show "case bios_int_call vbe_platform 0x10 (info_call sample_env regs) (put (info_ptr sample_env) vbe_signature mc) of (regs', mc') \<Rightarrow>
    function_supported regs' \<and> \<not> call_failed regs' \<and> signature (load_info_block (mem mc') (info_ptr sample_env)) = vesa_signature \<and>
    rm_ptr_from_far (video_modes_ptr (load_info_block (mem mc') (info_ptr sample_env))) = 0x8022 \<and> listing sample_env 0x8022 0x300 [0x118] (mem mc')"
    using c(1) by (simp add: sample_env_def function_supported_def call_failed_def del: load_bytes.simps store_bytes.simps)
qed

section \<open>Properties\<close>

definition sample_mode :: mode_info where
  "sample_mode = \<lparr>mode_identifier = 0x4118, mode_type = DIRECT_COLOR_MODE, mode_attributes = ATTR_VGA_COMPATIBLE, width = 1024, height = 768,
     width_of_char_cell = 0, height_of_char_cell = 0, depth = 32, bytes_per_scanline = 4096, red_mask_size = 8, red_field_pos = 16,
     green_mask_size = 8, green_field_pos = 8, blue_mask_size = 8, blue_field_pos = 0, reserved_mask_size = 8, reserved_field_pos = 24,
     lfb_address = 0xE0000000, max_pixel_clock = 0\<rparr>"

lemma sample_translated: "translate_mode 0x300 0x118 (mode_info_of sample_block) = Accept sample_mode"
  by (simp add: translate_mode_def sample_mode_def check_attributes_def fill_attributes_def fill_extended_def fill_geometry_def
    fill_compatible_def fill_fields_def fill_buffer_def fill_linear_def set_fields_def zero_mode_def mode_info_of_def member16_def
    member32_def sample_block_def vbe_consts mode_types Let_def)

text \<open>C13. The search for a mode ends and finds one: when the firmware reports a list of modes and answers for each,
  the first mode of 32 bits that is wider than 700 pixels is chosen, and the firmware is called with function 4F02 and the
  identifier of exactly the mode translated from its block, after the search and with the list of modes still in place.  If it
  answers 004F, a back buffer is allocated and the console is initialised with this mode and draws 32 bits for each pixel; with
  any other answer \<open>vbe_init\<close> returns with the console as it was.\<close>

theorem vbe_init_sets_preferred_mode:
  assumes "vbe_present env pf p ver (map fst (as @ (ident, Info vi) # bs))" "vbe_reports env pf p ver (as @ (ident, Info vi) # bs)"
    and "length as + length bs + 1 < mode_limit env" "\<forall>x\<in>set as. passed_over ver x"
    and "translate_mode ver ident vi = Accept m" "preferred m"
  shows "\<exists>mc st' regs mc1. vbe_init env pf m0 st = Inr st' \<and> listing env p ver (map fst (as @ (ident, Info vi) # bs)) (mem mc) \<and>
    bios_int_call pf 0x10 (zero_registers\<lparr>eax := 0x4F02, ebx := mode_identifier m\<rparr>) mc = (regs, mc1) \<and>
    (if eax regs AND 0xFFFF = 0x4F
     then fb_write_char_depth (fb st') = 32 \<and> (\<exists>block mc2. malloc env (back_buffer_bytes m) mc1 = (block, mc2) \<and>
        world (vmach st') = world mc2 \<and> fb_init block (fb st) m (mem mc2) = (fb st', mem (vmach st')))
     else vmach st' = mc1 \<and> fb st' = fb st)"
proof -
  have d: "depth m = 32" "depth m \<noteq> 8" using assms(6) by (simp_all add: preferred_def)
  have "length (as @ (ident, Info vi) # bs) < mode_limit env" using assms(3) by simp
  from vbe_init_selected[OF assms(1,2) this select_mode_first[OF assms(4-6)] d(2), of m0 st] obtain mc st' where
    v: "vbe_init env pf m0 st = Inr st'" "listing env p ver (map fst (as @ (ident, Info vi) # bs)) (mem mc)" "mode_set env pf m mc st st'" by blast
  have "fb_write_char_depth (fb st') = 32" if "fb_init block (fb st) m mm = (fb st', mm')" for block mm mm'
    using fb_init_depth[of m block "fb st" mm] d(1) that by simp
  with v(3) obtain regs mc1 where "bios_int_call pf 0x10 (zero_registers\<lparr>eax := 0x4F02, ebx := mode_identifier m\<rparr>) mc = (regs, mc1)"
    "if eax regs AND 0xFFFF = 0x4F
     then fb_write_char_depth (fb st') = 32 \<and> (\<exists>block mc2. malloc env (back_buffer_bytes m) mc1 = (block, mc2) \<and>
        world (vmach st') = world mc2 \<and> fb_init block (fb st) m (mem mc2) = (fb st', mem (vmach st')))
     else vmach st' = mc1 \<and> fb st' = fb st"
    unfolding mode_set_def by (metis (no_types, lifting))
  with v(1,2) show ?thesis by blast
qed

lemma sample_mode_set:
  "eax (fst (bios_int_call vbe_platform 0x10 (zero_registers\<lparr>eax := 0x4F02, ebx := mode_identifier sample_mode\<rparr>) mc)) AND 0xFFFF = 0x4F"
  using vbe_platform_call[of 0 "zero_registers\<lparr>eax := 0x4F02, ebx := mode_identifier sample_mode\<rparr>" mc "0x10"]
  by (auto simp: zero_registers_def rm_seg_from_ptr_def rm_offset_from_ptr_def)

theorem vbe_init_sets_preferred_mode_witness:
  "\<forall>dev. \<exists>st' block mm. vbe_init sample_env vbe_platform zero_mode \<lparr>vmach = \<lparr>mem = (\<lambda>_. 0), world = ()\<rparr>, fb = dev\<rparr> = Inr st' \<and>
    fb_init block dev sample_mode mm = (fb st', mem (vmach st')) \<and> fb_write_char_depth (fb st') = 32"
proof
  fix dev
  let ?st = "\<lparr>vmach = \<lparr>mem = (\<lambda>_. 0), world = ()\<rparr>, fb = dev\<rparr>" and ?xs = "[] @ (0x118, Info (mode_info_of sample_block)) # []"
  have h: "vbe_present sample_env vbe_platform 0x8022 0x300 (map fst ?xs)" "vbe_reports sample_env vbe_platform 0x8022 0x300 ?xs"
    "length [] + length [] + 1 < mode_limit sample_env" "\<forall>x\<in>set []. passed_over 0x300 x" "preferred sample_mode"
    using sample_present sample_reports by (simp_all add: sample_env_def preferred_def sample_mode_def)
  obtain mc st' regs mc1 where v: "vbe_init sample_env vbe_platform zero_mode ?st = Inr st'"
    "bios_int_call vbe_platform 0x10 (zero_registers\<lparr>eax := 0x4F02, ebx := mode_identifier sample_mode\<rparr>) mc = (regs, mc1)"
    "if eax regs AND 0xFFFF = 0x4F
     then fb_write_char_depth (fb st') = 32 \<and> (\<exists>block mc2. malloc sample_env (back_buffer_bytes sample_mode) mc1 = (block, mc2) \<and>
        world (vmach st') = world mc2 \<and> fb_init block (fb ?st) sample_mode (mem mc2) = (fb st', mem (vmach st')))
     else vmach st' = mc1 \<and> fb st' = fb ?st"
    using vbe_init_sets_preferred_mode[OF h(1-4) sample_translated h(5), of zero_mode ?st] by blast
  have "eax regs AND 0xFFFF = 0x4F" using sample_mode_set[of mc] v(2) by simp
  with v(1,3) show "\<exists>st' block mm. vbe_init sample_env vbe_platform zero_mode ?st = Inr st' \<and>
      fb_init block dev sample_mode mm = (fb st', mem (vmach st')) \<and> fb_write_char_depth (fb st') = 32"
    by (intro exI[of _ st']) auto
qed



text \<open>C26. The palette is the identity: in the 8-bit modes the pixel that the console computes for the colours
  of palette entry \<open>i\<close>, as the hardware with 3 to 8 bits for each colour shows them, is \<open>i\<close>; on a
  VGA compatible adapter the entries are sent to the ports in their order, red first.\<close>

theorem palette_shows_pixels:
  assumes "translate_mode ver ident vi = Accept m" "mode_type m = PACKED_PIXEL_MODE" "depth m = 8" "3 \<le> bits" "bits \<le> 8"
  shows "(\<forall>i < 256. \<exists>r g b. palette m bits ! i = [b, g, r, 0] \<and>
      fb_get_pixel_color m (shown bits r) (shown bits g) (shown bits b) = of_nat i \<and>
      take 3 (drop (2 + 3 * i) (vga_outputs (palette m bits))) = [(0x3C9, r), (0x3C9, g), (0x3C9, b)])"
proof (intro allI impI)
  fix i :: nat assume i: "i < 256"
  obtain m' where m': "fill_buffer ver vi (fill_fields vi m') = Accept m" "typed_mode m'"
    using translate_mode_cases[OF assms(1)] by blast
  have pm: "palette_mode m" using m' assms(2,3) by (rule accepted_palette_mode)
  let ?e = "palette_entry m bits i"
  have p: "palette m bits ! i = ?e" "length (palette m bits) = 256" using i by (simp_all add: palette_def)
  have e: "?e = [?e ! 0, ?e ! 1, ?e ! 2, 0]" by (simp add: palette_entry_def)
  have "take 3 (drop (2 + 3 * i) (vga_outputs (palette m bits))) = [(0x3C9, ?e ! 2), (0x3C9, ?e ! 1), (0x3C9, ?e ! 0)]"
    using vga_outputs_entry[of i "palette m bits"] i p by simp
  then show "\<exists>r g b. palette m bits ! i = [b, g, r, 0] \<and> fb_get_pixel_color m (shown bits r) (shown bits g) (shown bits b) = of_nat i \<and>
      take 3 (drop (2 + 3 * i) (vga_outputs (palette m bits))) = [(0x3C9, r), (0x3C9, g), (0x3C9, b)]"
    using palette_pixel[OF pm assms(4,5) i] p(1) e by metis
qed

definition indexed_vi :: vbe_mode_info where
  "indexed_vi = (mode_info_of sample_block)\<lparr>memory_model := VBE_MM_PACKED_PIXEL, bpp := 8\<rparr>"

definition indexed_mode :: mode_info where
  "indexed_mode = sample_mode\<lparr>mode_type := PACKED_PIXEL_MODE, depth := 8, red_mask_size := 3, red_field_pos := 5, green_mask_size := 3,
     green_field_pos := 2, blue_mask_size := 2, blue_field_pos := 0, reserved_mask_size := 0, reserved_field_pos := 15\<rparr>"

lemma indexed_translated: "translate_mode 0x300 0x118 indexed_vi = Accept indexed_mode"
  by (simp add: translate_mode_def sample_mode_def indexed_mode_def indexed_vi_def check_attributes_def fill_attributes_def fill_extended_def
    fill_geometry_def fill_compatible_def fill_fields_def fill_buffer_def fill_linear_def set_fields_def zero_mode_def mode_info_of_def
    member16_def member32_def sample_block_def vbe_consts mode_types Let_def)

theorem palette_shows_pixels_witness:
  "\<exists>r g b. palette indexed_mode 6 ! 0xE3 = [b, g, r, 0] \<and> fb_get_pixel_color indexed_mode (shown 6 r) (shown 6 g) (shown 6 b) = 0xE3"
proof -
  have t: "mode_type indexed_mode = PACKED_PIXEL_MODE" "depth indexed_mode = 8" by (simp_all add: indexed_mode_def)
  have b: "3 \<le> (6 :: u8)" "(6 :: u8) \<le> 8" by simp_all
  show ?thesis using palette_shows_pixels[OF indexed_translated t b, rule_format, of "0xE3"] by auto
qed

end
