(* ===== verification/Dt_Tree.thy ===== *)
theory Dt_Tree
  imports RB_Traverse Byte_Memory
begin

text \<open>
  The device tree (\<^verbatim>\<open>bal/device/dt/dt_tree.c\<close>): nodes with named children and named properties, both
  kept in red-black trees.  Nodes and properties are objects in a store, with the links of the trees
  in stores of their own, and the value of a property is a block of bytes.  The answers of \<open>malloc\<close>
  and \<open>realloc\<close> are part of the state: an arbitrary list of addresses, \<open>NULL\<close> for out of memory.
\<close>

section \<open>State\<close>

record dt_property =
  value_len :: u64
  pname :: string
  pvalue :: addr

record dt_node =
  children :: addr
  properties :: addr
  parent :: addr
  bound_device :: addr
  nname :: string

record dt_state =
  nodes :: "addr \<Rightarrow> dt_node"
  node_links :: "addr \<Rightarrow> rb_entry"
  props :: "addr \<Rightarrow> dt_property"
  prop_links :: "addr \<Rightarrow> rb_entry"
  blocks :: "addr \<Rightarrow> u8 list"
  live :: "addr set"
  answers :: "addr list"

text \<open>The heads \<open>children\<close> and \<open>properties\<close> of a node with the links of all nodes and properties.\<close>

abbreviation child_tree :: "dt_state \<Rightarrow> addr \<Rightarrow> rb_tree" where
  "child_tree s n \<equiv> \<lparr>rbn = node_links s, rbh_root = children (nodes s n)\<rparr>"

abbreviation prop_tree :: "dt_state \<Rightarrow> addr \<Rightarrow> rb_tree" where
  "prop_tree s n \<equiv> \<lparr>rbn = prop_links s, rbh_root = properties (nodes s n)\<rparr>"

definition zero_links :: rb_entry where
  "zero_links = \<lparr>rbe_left = NULL, rbe_right = NULL, rbe_parent = NULL, rbe_color = RB_BLACK\<rparr>"

definition set_node :: "addr \<Rightarrow> (dt_node \<Rightarrow> dt_node) \<Rightarrow> dt_state \<Rightarrow> dt_state" where
  "set_node n f s = s\<lparr>nodes := (nodes s)(n := f (nodes s n))\<rparr>"

definition set_prop :: "addr \<Rightarrow> (dt_property \<Rightarrow> dt_property) \<Rightarrow> dt_state \<Rightarrow> dt_state" where
  "set_prop p f s = s\<lparr>props := (props s)(p := f (props s p))\<rparr>"

section \<open>Allocation\<close>

definition next_answer :: "dt_state \<Rightarrow> addr \<times> dt_state" where
  "next_answer s = (case answers s of [] \<Rightarrow> (NULL, s) | a # as \<Rightarrow> (a, s\<lparr>answers := as\<rparr>))"

definition dt_malloc :: "dt_state \<Rightarrow> addr \<times> dt_state" where
  "dt_malloc s = (let (a, s) = next_answer s in if a = NULL then (NULL, s) else (a, s\<lparr>live := insert a (live s)\<rparr>))"

definition dt_free :: "addr \<Rightarrow> dt_state \<Rightarrow> dt_state" where
  "dt_free a s = s\<lparr>live := live s - {a}\<rparr>"

text \<open>\<open>realloc\<close> keeps the old block when it fails; the contents of the new block are overwritten by the caller.\<close>

definition dt_realloc :: "addr \<Rightarrow> dt_state \<Rightarrow> addr \<times> dt_state" where
  "dt_realloc old s = (let (a, s) = next_answer s in
     if a = NULL then (NULL, s) else (a, s\<lparr>live := insert a (live s - {old})\<rparr>))"

section \<open>Names\<close>

text \<open>\<open>strcmp\<close> on strings without the terminating zero.\<close>

fun strcmp :: "string \<Rightarrow> string \<Rightarrow> int" where
  "strcmp [] [] = 0"
| "strcmp [] (b # bs) = - of_char b"
| "strcmp (a # as) [] = of_char a"
| "strcmp (a # as) (b # bs) = (if a = b then strcmp as bs else of_char a - of_char b)"

definition dt_property_cmp :: "dt_state \<Rightarrow> addr \<Rightarrow> addr \<Rightarrow> int" where
  "dt_property_cmp s lhs rhs = strcmp (pname (props s lhs)) (pname (props s rhs))"

definition dt_node_cmp :: "dt_state \<Rightarrow> addr \<Rightarrow> addr \<Rightarrow> int" where
  "dt_node_cmp s lhs rhs = strcmp (nname (nodes s lhs)) (nname (nodes s rhs))"

section \<open>Nodes\<close>

definition insert_child :: "addr \<Rightarrow> addr \<Rightarrow> dt_state \<Rightarrow> dt_state outcome" where
  "insert_child par n s = andthen (orcrash (RB_INSERT (dt_node_cmp s) (child_tree s par) n)) (\<lambda>(t, old).
     Inr (set_node par (children_update (\<lambda>_. rbh_root t)) (s\<lparr>node_links := rbn t\<rparr>)))"

definition dt_node_alloc :: "addr \<Rightarrow> string \<Rightarrow> dt_state \<Rightarrow> (addr \<times> dt_state) outcome" where
  "dt_node_alloc par name s =
     (let (n, s) = dt_malloc s in
      if n = NULL then Inr (NULL, s)
      else
        (let s = s\<lparr>nodes := (nodes s)(n := \<lparr>children = NULL, properties = NULL, parent = par, bound_device = NULL, nname = name\<rparr>),
                  node_links := (node_links s)(n := zero_links)\<rparr> in
         if par \<noteq> NULL then andthen (insert_child par n s) (\<lambda>s. Inr (n, s)) else Inr (n, s)))"

text \<open>The structure on the stack that is searched for has the name only.\<close>

definition dt_node_find_child :: "addr \<Rightarrow> string \<Rightarrow> dt_state \<Rightarrow> addr outcome" where
  "dt_node_find_child par name s =
     (if par = NULL then Inl Crash else orcrash (RB_FIND (\<lambda>x. strcmp name (nname (nodes s x))) (child_tree s par)))"

section \<open>Properties\<close>

definition dt_node_find_property :: "addr \<Rightarrow> string \<Rightarrow> dt_state \<Rightarrow> addr outcome" where
  "dt_node_find_property n name s =
     (if n = NULL then Inl Crash else orcrash (RB_FIND (\<lambda>x. strcmp name (pname (props s x))) (prop_tree s n)))"

definition dt_node_has_property :: "addr \<Rightarrow> string \<Rightarrow> dt_state \<Rightarrow> bool outcome" where
  "dt_node_has_property n name s = andthen (dt_node_find_property n name s) (\<lambda>p. Inr (p \<noteq> NULL))"

definition dt_node_get_property :: "addr \<Rightarrow> string \<Rightarrow> dt_state \<Rightarrow> addr outcome" where
  "dt_node_get_property n name s =
     andthen (dt_node_find_property n name s) (\<lambda>p. Inr (if p \<noteq> NULL then pvalue (props s p) else NULL))"

definition insert_property :: "addr \<Rightarrow> addr \<Rightarrow> dt_state \<Rightarrow> dt_state outcome" where
  "insert_property n p s = andthen (orcrash (RB_INSERT (dt_property_cmp s) (prop_tree s n) p)) (\<lambda>(t, old).
     Inr (set_node n (properties_update (\<lambda>_. rbh_root t)) (s\<lparr>prop_links := rbn t\<rparr>)))"

text \<open>The length and the bytes of the value, at the end of the function.\<close>

definition store_value :: "addr \<Rightarrow> u8 list \<Rightarrow> dt_state \<Rightarrow> (addr \<times> dt_state) outcome" where
  "store_value p val s =
     (let s = set_prop p (value_len_update (\<lambda>_. of_nat (length val))) s
      in Inr (p, s\<lparr>blocks := (blocks s)(pvalue (props s p) := val)\<rparr>))"

definition dt_node_set_property :: "addr \<Rightarrow> string \<Rightarrow> u8 list \<Rightarrow> dt_state \<Rightarrow> (addr \<times> dt_state) outcome" where
  "dt_node_set_property n name val s =
     andthen (dt_node_find_property n name s) (\<lambda>p.
       if p = NULL then
         (let (vp, s) = dt_malloc s in
          if vp = NULL then Inr (NULL, s)
          else
            (let (p, s) = dt_malloc s in
             if p = NULL then Inr (NULL, dt_free vp s)
             else
               (let s = s\<lparr>props := (props s)(p := \<lparr>value_len = 0, pname = name, pvalue = vp\<rparr>),
                         prop_links := (prop_links s)(p := zero_links)\<rparr>
                in andthen (insert_property n p s) (store_value p val))))
       else if value_len (props s p) \<noteq> of_nat (length val) then
         (let (vp, s) = dt_realloc (pvalue (props s p)) s in
          if vp = NULL then Inr (NULL, s) else store_value p val (set_prop p (pvalue_update (\<lambda>_. vp)) s))
       else store_value p val s)"

section \<open>Typed values\<close>

text \<open>The conversions of \<^verbatim>\<open>libfdt\<close> from the byte order of the tree.\<close>

record fdt_order =
  fdt32_to_cpu :: "u32 \<Rightarrow> u32"
  fdt64_to_cpu :: "u64 \<Rightarrow> u64"

definition dt_property_get_uint32 :: "fdt_order \<Rightarrow> addr \<Rightarrow> dt_state \<Rightarrow> u32 outcome" where
  "dt_property_get_uint32 fo p s =
     (if value_len (props s p) \<noteq> 4 then Inl (Panic ''dt_property_get_uint32: property not 32-bit'')
      else Inr (fdt32_to_cpu fo (le_word (take 4 (blocks s (pvalue (props s p)))))))"

definition dt_property_get_uint64 :: "fdt_order \<Rightarrow> addr \<Rightarrow> dt_state \<Rightarrow> u64 outcome" where
  "dt_property_get_uint64 fo p s =
     (if value_len (props s p) \<noteq> 8 then Inl (Panic ''dt_property_get_uint64: property not 64-bit'')
      else Inr (fdt64_to_cpu fo (le_word (take 8 (blocks s (pvalue (props s p)))))))"

definition dt_node_get_address_cells :: "fdt_order \<Rightarrow> addr \<Rightarrow> dt_state \<Rightarrow> u32 outcome" where
  "dt_node_get_address_cells fo n s = andthen (dt_node_find_property n ''#address_cells'' s) (\<lambda>p.
     if p = NULL then Inl (Panic ''Node without address cells'') else dt_property_get_uint32 fo p s)"

definition dt_node_get_size_cells :: "fdt_order \<Rightarrow> addr \<Rightarrow> dt_state \<Rightarrow> u32 outcome" where
  "dt_node_get_size_cells fo n s = andthen (dt_node_find_property n ''#size_cells'' s) (\<lambda>p.
     if p = NULL then Inl (Panic ''Node without size cells'') else dt_property_get_uint32 fo p s)"

section \<open>Register windows\<close>

text \<open>A read of \<open>k\<close> bytes at an index of 32-bit cells; outside of the block it is a crash.\<close>

definition read_cells :: "addr \<Rightarrow> u64 \<Rightarrow> nat \<Rightarrow> dt_state \<Rightarrow> u8 list outcome" where
  "read_cells a i k s = (let b = blocks s a; at = 4 * unat i in
     if at + k \<le> length b then Inr (take k (drop at b)) else Inl Crash)"

text \<open>
  The variables behind the pointers \<open>ptr\<close> and \<open>sz\<close> come in with the values they have at the call.
  The comparisons with \<open>UINTPTR_MAX\<close> and \<open>SIZE_MAX\<close> never hold for 64-bit values.
\<close>

definition read_address :: "fdt_order \<Rightarrow> addr \<Rightarrow> u32 \<Rightarrow> u32 \<Rightarrow> u64 \<Rightarrow> dt_state \<Rightarrow> u64 outcome" where
  "read_address fo a acells base ptr s =
     (if acells = 1 then andthen (read_cells a (ucast base) 4 s) (\<lambda>b. Inr (ucast (fdt32_to_cpu fo (le_word b))))
      else if acells = 2 then andthen (read_cells a (ucast base) 8 s) (\<lambda>b. Inr (fdt64_to_cpu fo (le_word b)))
      else Inr ptr)"

definition read_size :: "fdt_order \<Rightarrow> addr \<Rightarrow> u32 \<Rightarrow> u32 \<Rightarrow> u32 \<Rightarrow> u64 \<times> u64 \<Rightarrow> dt_state \<Rightarrow> (u64 \<times> u64) outcome" where
  "read_size fo a acells scells base ps s =
     (if scells = 1 then andthen (read_cells a (ucast acells) 4 s) (\<lambda>b. Inr (ucast (fdt32_to_cpu fo (le_word b)), snd ps))
      else if scells = 2 then andthen (read_cells a (ucast base) 8 s) (\<lambda>b. Inr (fst ps, fdt64_to_cpu fo (le_word b)))
      else Inr ps)"

definition dt_node_get_reg_range :: "fdt_order \<Rightarrow> addr \<Rightarrow> u32 \<Rightarrow> u64 \<times> u64 \<Rightarrow> dt_state \<Rightarrow> (bool \<times> u64 \<times> u64) outcome" where
  "dt_node_get_reg_range fo n idx ps s =
     andthen (dt_node_find_property n ''regs'' s) (\<lambda>prop.
       if prop = NULL then Inr (False, ps)
       else andthen (dt_node_get_address_cells fo (parent (nodes s n)) s) (\<lambda>acells.
         andthen (dt_node_get_size_cells fo (parent (nodes s n)) s) (\<lambda>scells.
           let cells = acells + scells; base = idx * cells in
           if ucast (base + cells) * 4 > value_len (props s prop) then Inr (False, ps)
           else andthen (read_address fo (pvalue (props s prop)) acells base (fst ps) s) (\<lambda>ptr.
             andthen (read_size fo (pvalue (props s prop)) acells scells base (ptr, snd ps) s) (\<lambda>ps. Inr (True, ps))))))"

definition dt_node_get_reg_count :: "fdt_order \<Rightarrow> addr \<Rightarrow> dt_state \<Rightarrow> u32 outcome" where
  "dt_node_get_reg_count fo n s =
     andthen (dt_node_find_property n ''regs'' s) (\<lambda>prop.
       if prop = NULL then Inr 0
       else andthen (dt_node_get_address_cells fo (parent (nodes s n)) s) (\<lambda>acells.
         andthen (dt_node_get_size_cells fo (parent (nodes s n)) s) (\<lambda>scells.
           let cells = acells + scells; len = value_len (props s prop) in
           if cells = 0 then Inl Crash
           else if len mod (ucast cells * 4) \<noteq> 0 then Inl (Panic ''dt: node: regs has a size which is not divisible by cells'')
           else Inr (ucast (len div (4 * ucast cells))))))"

end
