(* ===== verification/Dt_System.thy ===== *)
theory Dt_System
  imports Dt_Tree Memory_Map_Whole
begin

text \<open>
  Start-up from a flattened device tree (\<^verbatim>\<open>bal/device/dt/dt_system.c\<close>): the memory reservations and the
  memory node go to the memory map, the nodes and properties to the device tree.  The flattened tree
  is read through \<^verbatim>\<open>libfdt\<close>, which is not part of the repository: its functions on the blob are the
  parameter \<open>lib\<close>.  The progress messages are left out.
\<close>

section \<open>The library\<close>

text \<open>
  A property is its name offset and its bytes, \<open>None\<close> for a failure.  \<open>fdt_getprop\<close> gives the length
  (negative for a failure) and the bytes.
\<close>

record fdt_lib =
  order :: fdt_order
  fdt_check_header :: int
  fdt_num_mem_rsv :: int
  fdt_get_mem_rsv :: "int \<Rightarrow> u64 \<times> u64"
  fdt_next_node :: "int \<Rightarrow> int"
  fdt_address_cells :: "int \<Rightarrow> u32"
  fdt_size_cells :: "int \<Rightarrow> u32"
  fdt_subnode_offset :: "int \<Rightarrow> string \<Rightarrow> int"
  fdt_getprop :: "int \<Rightarrow> string \<Rightarrow> int \<times> u8 list"
  fdt_get_name :: "int \<Rightarrow> string"
  fdt_first_property_offset :: "int \<Rightarrow> int"
  fdt_next_property_offset :: "int \<Rightarrow> int"
  fdt_get_property_by_offset :: "int \<Rightarrow> (u32 \<times> u8 list) option"
  fdt_string :: "u32 \<Rightarrow> string"
  fdt_first_subnode :: "int \<Rightarrow> int"
  fdt_next_subnode :: "int \<Rightarrow> int"

definition FDT_ERR_NOTFOUND :: int where
  "FDT_ERR_NOTFOUND = 1"

section \<open>Nodes\<close>

text \<open>The first argument bounds the number of steps of the loops and the depth of the recursion.\<close>

fun add_properties :: "nat \<Rightarrow> fdt_lib \<Rightarrow> addr \<Rightarrow> int \<Rightarrow> dt_state \<Rightarrow> dt_state outcome" where
  "add_properties 0 lib n propoff s = Inl Fuel"
| "add_properties (Suc k) lib n propoff s =
     (if propoff < 0 then Inr s
      else case fdt_get_property_by_offset lib propoff of
          None \<Rightarrow> Inl (Panic ''Error getting property'')
        | Some (nameoff, data) \<Rightarrow>
            andthen (dt_node_set_property n (fdt_string lib (fdt32_to_cpu (order lib) nameoff)) data s) (\<lambda>(p, s).
              if p = NULL then Inl (Panic ''Out of memory allocating property'')
              else add_properties k lib n (fdt_next_property_offset lib propoff) s))"

fun add_device_fdt :: "nat \<Rightarrow> fdt_lib \<Rightarrow> addr \<Rightarrow> int \<Rightarrow> dt_state \<Rightarrow> (addr \<times> dt_state) outcome"
  and add_subnodes :: "nat \<Rightarrow> fdt_lib \<Rightarrow> addr \<Rightarrow> int \<Rightarrow> dt_state \<Rightarrow> dt_state outcome" where
  "add_device_fdt 0 lib par fdt_node s = Inl Fuel"
| "add_device_fdt (Suc k) lib par fdt_node s =
     andthen (dt_node_alloc par (fdt_get_name lib fdt_node) s) (\<lambda>(n, s).
       if n = NULL then Inl (Panic ''Out of memory enumerating node'')
       else andthen (add_properties (Suc k) lib n (fdt_first_property_offset lib fdt_node) s) (\<lambda>s.
         andthen (add_subnodes k lib n (fdt_first_subnode lib fdt_node) s) (\<lambda>s. Inr (n, s))))"
| "add_subnodes 0 lib n suboff s = Inl Fuel"
| "add_subnodes (Suc k) lib n suboff s =
     (if suboff = - FDT_ERR_NOTFOUND then Inr s
      else andthen (add_device_fdt k lib n suboff s) (\<lambda>(_, s). add_subnodes k lib n (fdt_next_subnode lib suboff) s))"

section \<open>Memory\<close>

text \<open>The members of the entry for a reservation; \<open>virtual_start\<close> is set after the call of the library.\<close>

definition reserved_entry :: "fdt_lib \<Rightarrow> int \<Rightarrow> gd_memory_map_entry" where
  "reserved_entry lib i = (let (start, sz) = fdt_get_mem_rsv lib i in
     \<lparr>etype = gd_reserved_memory_type, physical_start = start, virtual_start = start, esize = sz, attributes = 0\<rparr>)"

definition memory_entry :: "u64 \<Rightarrow> u64 \<Rightarrow> gd_memory_map_entry" where
  "memory_entry base sz = \<lparr>etype = gd_conventional_memory, physical_start = base, virtual_start = base, esize = sz, attributes = 0\<rparr>"

fun add_reservations :: "nat \<Rightarrow> fdt_lib \<Rightarrow> int list \<Rightarrow> mmap_state \<Rightarrow> mmap_state outcome" where
  "add_reservations d lib [] m = Inr m"
| "add_reservations d lib (i # is) m = andthen (mmap_add_entry d m (reserved_entry lib i)) (add_reservations d lib is)"

text \<open>A read of the cells from index \<open>i\<close> on, which must be in the property.\<close>

definition cells_at :: "u8 list \<Rightarrow> nat \<Rightarrow> nat \<Rightarrow> u8 list outcome" where
  "cells_at p i k = (if 4 * i + k \<le> length p then Inr (take k (drop (4 * i) p)) else Inl Crash)"

definition cell_value :: "fdt_lib \<Rightarrow> u8 list \<Rightarrow> u32 \<Rightarrow> nat \<Rightarrow> u64 outcome" where
  "cell_value lib p cells i =
     (if cells = 1 then andthen (cells_at p i 4) (\<lambda>b. Inr (ucast (fdt32_to_cpu (order lib) (le_word b))))
      else if cells = 2 then andthen (cells_at p i 8) (\<lambda>b. Inr (fdt64_to_cpu (order lib) (le_word b)))
      else Inr 0)"

text \<open>The loop over the ranges of the memory node; without any cells it does not advance.\<close>

fun add_memory :: "nat \<Rightarrow> nat \<Rightarrow> fdt_lib \<Rightarrow> int \<times> u8 list \<Rightarrow> u32 \<Rightarrow> u32 \<Rightarrow> nat \<Rightarrow> mmap_state \<Rightarrow> mmap_state outcome" where
  "add_memory 0 d lib reg ac sc i m = Inl Fuel"
| "add_memory (Suc k) d lib reg ac sc i m =
     (if int i < fst reg div 4 then
        andthen (cell_value lib (snd reg) ac i) (\<lambda>base.
          andthen (cell_value lib (snd reg) sc (i + unat ac)) (\<lambda>sz.
            andthen (mmap_add_entry d m (memory_entry base sz)) (\<lambda>m.
              add_memory k d lib reg ac sc (i + unat (ac + sc)) m)))
      else Inr m)"

section \<open>Initialisation\<close>

record dt_system =
  sysmap :: mmap_state
  tree :: dt_state
  dt_root :: addr

text \<open>\<open>k\<close> bounds the enumeration and \<open>d\<close> the recursion of \<open>mmap_add_entry\<close>.\<close>

definition dt_platform_init_fdt :: "nat \<Rightarrow> nat \<Rightarrow> fdt_lib \<Rightarrow> dt_system \<Rightarrow> dt_system outcome" where
  "dt_platform_init_fdt k d lib st =
     (if fdt_check_header lib \<noteq> 0 then Inl (Panic ''Bad FDT'')
      else andthen (add_reservations d lib [0..fdt_num_mem_rsv lib - 1] (sysmap st)) (\<lambda>m.
        let root = fdt_next_node lib (- 1); ac = fdt_address_cells lib root; sc = fdt_size_cells lib root;
            mem_offs = fdt_subnode_offset lib root ''memory'' in
        if mem_offs < 0 then Inl (Panic ''Unable to locate memory node'')
        else andthen (add_memory k d lib (fdt_getprop lib mem_offs ''reg'') ac sc 0 m) (\<lambda>m.
          andthen (add_device_fdt k lib NULL root (tree st)) (\<lambda>(n, s).
            Inr \<lparr>sysmap = m, tree = s, dt_root = n\<rparr>))))"

end
