(* ===== verification/Dt_Names.thy ===== *)
theory Dt_Names
  imports Dt_Tree
begin

text \<open>
  Trees ordered by name, as the device tree uses them for children and for properties: what
  \<open>RB_FIND\<close> and \<open>RB_INSERT\<close> do in terms of the names of the elements, and the dictionary that the
  elements of such a tree stand for.
\<close>

section \<open>The order of strings\<close>

abbreviation c_string :: "string \<Rightarrow> bool" where
  "c_string s \<equiv> CHR 0x00 \<notin> set s"

lemma of_char_ge_0: "0 \<le> (of_char c :: int)"
  by (cases c) simp

lemma of_char_eq_iff: "(of_char c :: int) = of_char d \<longleftrightarrow> c = d"
  using inj_of_char by (blast dest: injD)

lemma of_char_pos: "c \<noteq> CHR 0x00 \<Longrightarrow> 0 < (of_char c :: int)"
proof -
  assume "c \<noteq> CHR 0x00"
  then have "(of_char c :: int) \<noteq> 0" using of_char_eq_iff[of c "CHR 0x00"] by simp
  then show ?thesis using of_char_ge_0[of c] by linarith
qed

lemma strcmp_swap: "strcmp b a = - strcmp a b"
  by (induction a b rule: strcmp.induct) auto

lemma strcmp_refl [simp]: "strcmp a a = 0"
  by (induction a) simp_all

lemma strcmp_zero: "c_string a \<Longrightarrow> c_string b \<Longrightarrow> strcmp a b = 0 \<longleftrightarrow> a = b"
proof (induction a b rule: strcmp.induct)
  case (2 b bs)
  then have "0 < (of_char b :: int)" by (intro of_char_pos) auto
  then show ?case by simp
next
  case (3 a as)
  then have "0 < (of_char a :: int)" by (intro of_char_pos) auto
  then show ?case by simp
next
  case (4 a as b bs)
  then show ?case by (simp add: of_char_eq_iff)
qed simp

lemma strcmp_trans: "strcmp a b < 0 \<Longrightarrow> strcmp b c < 0 \<Longrightarrow> strcmp a c < 0"
proof (induction a b arbitrary: c rule: strcmp.induct)
  case (2 b bs)
  then show ?case using of_char_ge_0[of b] by (cases c) (auto split: if_splits)
next
  case (3 a as)
  then show ?case using leD[OF of_char_ge_0[of a]] by simp
next
  case (4 a as b bs)
  then show ?case using of_char_ge_0[of b] by (cases c) (auto split: if_splits)
qed simp

section \<open>Trees ordered by name\<close>

definition names_ok :: "(addr \<Rightarrow> string) \<Rightarrow> addr list \<Rightarrow> bool" where
  "names_ok nm xs \<longleftrightarrow> sorted_wrt (\<lambda>x y. strcmp (nm x) (nm y) < 0) xs \<and> (\<forall>x\<in>set xs. c_string (nm x))"

lemma names_ok_cong: "(\<And>x. x \<in> set xs \<Longrightarrow> nm' x = nm x) \<Longrightarrow> names_ok nm xs \<Longrightarrow> names_ok nm' xs"
  by (auto simp: names_ok_def elim!: sorted_wrt_mono_rel[rotated])

lemma names_ok_Nil [simp]: "names_ok nm []"
  by (simp add: names_ok_def)

lemma names_distinct: "names_ok nm xs \<Longrightarrow> distinct (map nm xs)"
  by (auto simp: names_ok_def distinct_map inj_on_def sorted_wrt_iff_nth_less distinct_conv_nth in_set_conv_nth)
     (metis less_irrefl linorder_neqE_nat strcmp_refl)+

lemma ordered_names:
  assumes "names_ok nm xs" "c_string name"
  shows "ordered_for (\<lambda>x. strcmp name (nm x)) xs"
proof -
  have "strcmp name (nm y) < 0" if "x \<in> set xs" "y \<in> set xs" "strcmp (nm x) (nm y) < 0" "strcmp name (nm x) \<le> 0" for x y
    using that assms strcmp_zero[of name "nm x"] strcmp_trans[of name "nm x" "nm y"] by (force simp: names_ok_def order_le_less)
  then show ?thesis using assms(1) unfolding ordered_for_def names_ok_def by (auto elim!: sorted_wrt_mono_rel[rotated])
qed

lemma named_find:
  assumes "rb_inv t xs" "names_ok nm xs" "c_string name"
  shows "RB_FIND (\<lambda>x. strcmp name (nm x)) t = Some (first_or NULL (filter (\<lambda>x. nm x = name) xs))"
proof -
  have "filter (\<lambda>x. strcmp name (nm x) = 0) xs = filter (\<lambda>x. nm x = name) xs"
    using assms(2,3) by (intro filter_cong) (auto simp: names_ok_def strcmp_zero)
  then show ?thesis using rb.lookup[OF assms(1) ordered_names[OF assms(2,3)]] by simp
qed

lemma named_find_cases:
  assumes "rb_inv t xs" "names_ok nm xs" "c_string name"
  obtains "RB_FIND (\<lambda>x. strcmp name (nm x)) t = Some NULL" "\<forall>x\<in>set xs. nm x \<noteq> name"
  | x where "RB_FIND (\<lambda>x. strcmp name (nm x)) t = Some x" "x \<in> set xs" "x \<noteq> NULL" "nm x = name"
proof (cases "filter (\<lambda>x. nm x = name) xs")
  case Nil
  then show ?thesis using that(1) named_find[OF assms] by (auto simp: filter_empty_conv)
next
  case (Cons x ys)
  then have "x \<in> set (filter (\<lambda>x. nm x = name) xs)" by simp
  then have "x \<in> set xs \<and> nm x = name" by simp
  moreover have "x \<noteq> NULL" using calculation rb.elems_null[OF assms(1)] by auto
  ultimately show ?thesis using that(2) named_find[OF assms] Cons by simp
qed

lemma named_insert:
  assumes "rb_inv t xs" "names_ok nm xs" "e \<noteq> NULL" "e \<notin> set xs" "c_string (nm e)" "\<forall>x\<in>set xs. nm x \<noteq> nm e"
  shows "\<exists>t' as bs. xs = as @ bs \<and> RB_INSERT (\<lambda>x y. strcmp (nm x) (nm y)) t e = Some (t', NULL) \<and> rb_inv t' (as @ e # bs) \<and>
    names_ok nm (as @ e # bs) \<and> (\<forall>z. z \<notin> set xs \<longrightarrow> z \<noteq> e \<longrightarrow> rbn t' z = rbn t z)"
proof -
  have nz: "strcmp (nm e) (nm x) \<noteq> 0" if "x \<in> set xs" for x
    using that assms(2,5,6) strcmp_zero[of "nm e" "nm x"] by (force simp: names_ok_def)
  obtain as bs where x: "xs = as @ bs" "\<forall>x\<in>set as. strcmp (nm e) (nm x) > 0" "\<forall>x\<in>set bs. strcmp (nm e) (nm x) < 0"
  proof (cases rule: ordered_for_cases[OF ordered_names[OF assms(2,5)]])
    case (2 as z bs)
    then show ?thesis using nz[of z] by simp
  qed (rule that)
  then obtain t' where t': "RB_INSERT (\<lambda>x y. strcmp (nm x) (nm y)) t e = Some (t', NULL)" "rb_inv t' (as @ e # bs)"
    "\<forall>z. z \<notin> set (as @ bs) \<longrightarrow> z \<noteq> e \<longrightarrow> rbn t' z = rbn t z"
    using rb.ins_between[of t as bs e "\<lambda>x y. strcmp (nm x) (nm y)"] assms(1,3,4) by auto
  have "strcmp (nm y) (nm e) < 0" if "y \<in> set as" for y using that x(2) strcmp_swap[of "nm y" "nm e"] by auto
  then have "names_ok nm (as @ e # bs)" using x assms(2,5) by (auto simp: names_ok_def sorted_wrt_append)
  with t' x(1) show ?thesis by blast
qed

section \<open>Dictionaries\<close>

definition dict :: "(addr \<Rightarrow> string) \<Rightarrow> (addr \<Rightarrow> 'v) \<Rightarrow> addr list \<Rightarrow> string \<rightharpoonup> 'v" where
  "dict nm f xs = map_of (map (\<lambda>x. (nm x, f x)) xs)"

lemma dict_elem: "names_ok nm xs \<Longrightarrow> x \<in> set xs \<Longrightarrow> dict nm f xs (nm x) = Some (f x)"
  unfolding dict_def using names_distinct[of nm xs] by (intro map_of_is_SomeI) (auto simp: comp_def)

lemma dict_none: "\<forall>x\<in>set xs. nm x \<noteq> name \<Longrightarrow> dict nm f xs name = None"
  unfolding dict_def by (auto simp: map_of_eq_None_iff)

lemma dict_cong: "(\<And>x. x \<in> set xs \<Longrightarrow> nm' x = nm x \<and> f' x = f x) \<Longrightarrow> dict nm' f' xs = dict nm f xs"
  unfolding dict_def by (auto intro: arg_cong[of _ _ map_of])

lemma dict_insert: "names_ok nm (as @ e # bs) \<Longrightarrow> dict nm f (as @ e # bs) = (dict nm f (as @ bs))(nm e \<mapsto> f e)"
proof -
  assume "names_ok nm (as @ e # bs)"
  then have "nm e \<notin> set (map nm as)" using names_distinct[of nm "as @ e # bs"] by auto
  then have "map_of (map (\<lambda>x. (nm x, f x)) as) (nm e) = None" by (auto simp: map_of_eq_None_iff)
  then show ?thesis unfolding dict_def by (auto simp: map_add_def fun_eq_iff split: option.splits)
qed

lemma dict_update:
  assumes "names_ok nm xs" "x \<in> set xs" "f' x = v" "\<And>y. y \<in> set xs \<Longrightarrow> y \<noteq> x \<Longrightarrow> f' y = f y"
  shows "dict nm f' xs = (dict nm f xs)(nm x \<mapsto> v)"
proof -
  obtain as bs where xs: "xs = as @ x # bs" using assms(2) by (meson split_list)
  have "x \<notin> set (as @ bs)" using names_distinct[OF assms(1)] xs by auto
  then have "dict nm f' (as @ bs) = dict nm f (as @ bs)" using assms(4) xs by (intro dict_cong) auto
  then show ?thesis using dict_insert[of nm as x bs f'] dict_insert[of nm as x bs f] assms(1,3) unfolding xs by simp
qed

end
