(* ===== verification/Dt_Properties_Correct.thy ===== *)
theory Dt_Properties_Correct
  imports Dt_Names
begin

text \<open>
  The invariant of the properties of a set of nodes, and what reading and setting a property do to
  the dictionaries from names to values that the nodes stand for.
\<close>

section \<open>Invariant\<close>

text \<open>\<open>P n\<close> is the list of the properties of node \<open>n\<close>, in the order of their names.\<close>

definition all_props :: "addr set \<Rightarrow> (addr \<Rightarrow> addr list) \<Rightarrow> addr set" where
  "all_props N P = (\<Union>n\<in>N. set (P n))"

definition value_of :: "dt_state \<Rightarrow> addr \<Rightarrow> u8 list" where
  "value_of s p = blocks s (pvalue (props s p))"

definition props_ok :: "dt_state \<Rightarrow> addr set \<Rightarrow> (addr \<Rightarrow> addr list) \<Rightarrow> bool" where
  "props_ok s N P \<longleftrightarrow> NULL \<notin> N \<and>
     (\<forall>n\<in>N. rb_inv (prop_tree s n) (P n) \<and> names_ok (\<lambda>x. pname (props s x)) (P n)) \<and>
     (\<forall>n\<in>N. \<forall>m\<in>N. n \<noteq> m \<longrightarrow> set (P n) \<inter> set (P m) = {}) \<and>
     inj_on (\<lambda>x. pvalue (props s x)) (all_props N P) \<and>
     (\<forall>x\<in>all_props N P. pvalue (props s x) \<noteq> NULL \<and> length (value_of s x) < 2 ^ 64 \<and> value_len (props s x) = of_nat (length (value_of s x)))"

text \<open>The properties of a node as a dictionary.\<close>

definition prop_dict :: "dt_state \<Rightarrow> (addr \<Rightarrow> addr list) \<Rightarrow> addr \<Rightarrow> string \<rightharpoonup> u8 list" where
  "prop_dict s P n = dict (\<lambda>x. pname (props s x)) (value_of s) (P n)"

lemma props_okD:
  assumes "props_ok s N P" "n \<in> N"
  shows "n \<noteq> NULL" "rb_inv (prop_tree s n) (P n)" "names_ok (\<lambda>x. pname (props s x)) (P n)"
    "\<And>x. x \<in> set (P n) \<Longrightarrow> x \<in> all_props N P"
  using assms by (auto simp: props_ok_def all_props_def)

text \<open>Addresses that an allocation may return: not in use as a property or as a value.\<close>

definition unused_prop :: "dt_state \<Rightarrow> addr set \<Rightarrow> (addr \<Rightarrow> addr list) \<Rightarrow> addr \<Rightarrow> bool" where
  "unused_prop s N P a \<longleftrightarrow> a \<notin> all_props N P \<and> (\<forall>x\<in>all_props N P. pvalue (props s x) \<noteq> a)"

section \<open>Reading\<close>

lemma find_property_cases:
  assumes "props_ok s N P" "n \<in> N" "c_string name"
  obtains "dt_node_find_property n name s = Inr NULL" "prop_dict s P n name = None" "\<forall>x\<in>set (P n). pname (props s x) \<noteq> name"
  | p where "dt_node_find_property n name s = Inr p" "p \<in> set (P n)" "p \<noteq> NULL" "pname (props s p) = name"
      "prop_dict s P n name = Some (value_of s p)"
proof -
  note d = props_okD[OF assms(1,2)]
  show thesis
  proof (cases rule: named_find_cases[OF d(2,3) assms(3)])
    case 1
    then show ?thesis using that(1) d(1) by (simp add: dt_node_find_property_def prop_dict_def dict_none)
  next
    case (2 x)
    then show ?thesis using that(2)[of x] d(1) dict_elem[OF d(3), of x "value_of s"] by (simp add: dt_node_find_property_def prop_dict_def)
  qed
qed

lemma get_property_value:
  assumes "props_ok s N P" "n \<in> N" "c_string name"
  shows "dt_node_has_property n name s = Inr (prop_dict s P n name \<noteq> None)"
    "\<exists>a. dt_node_get_property n name s = Inr a \<and> (case prop_dict s P n name of None \<Rightarrow> a = NULL | Some v \<Rightarrow> a \<noteq> NULL \<and> blocks s a = v)"
proof -
  have v: "pvalue (props s p) \<noteq> NULL" if "p \<in> set (P n)" for p
    using assms(1) props_okD(4)[OF assms(1,2) that] by (simp add: props_ok_def)
  show "dt_node_has_property n name s = Inr (prop_dict s P n name \<noteq> None)"
    by (cases rule: find_property_cases[OF assms]) (simp_all add: dt_node_has_property_def)
  show "\<exists>a. dt_node_get_property n name s = Inr a \<and> (case prop_dict s P n name of None \<Rightarrow> a = NULL | Some v \<Rightarrow> a \<noteq> NULL \<and> blocks s a = v)"
    using v by (cases rule: find_property_cases[OF assms]) (auto simp: dt_node_get_property_def value_of_def)
qed

section \<open>Writing a value\<close>

lemma props_ok_store:
  assumes ok: "props_ok s N P" and p: "p \<in> set (P n)" "n \<in> N" and v: "length val < 2 ^ 64"
    and a: "a \<noteq> NULL" "\<And>x. x \<in> all_props N P \<Longrightarrow> x \<noteq> p \<Longrightarrow> pvalue (props s x) \<noteq> a"
    and s': "s' = s\<lparr>props := (props s)(p := (props s p)\<lparr>pvalue := a, value_len := of_nat (length val)\<rparr>), blocks := (blocks s)(a := val),
      live := L, answers := as\<rparr>"
  shows "props_ok s' N P" "prop_dict s' P n = (prop_dict s P n)(pname (props s p) \<mapsto> val)"
    "m \<in> N \<Longrightarrow> m \<noteq> n \<Longrightarrow> prop_dict s' P m = prop_dict s P m"
proof -
  have pa: "p \<in> all_props N P" using p by (auto simp: all_props_def)
  have nm: "pname (props s' x) = pname (props s x)" for x by (simp add: s')
  have vo: "value_of s' x = (if x = p then val else value_of s x)" if "x \<in> all_props N P" for x
    using a(2)[OF that] by (simp add: s' value_of_def)
  have "inj_on (\<lambda>x. pvalue (props s' x)) (all_props N P)"
    using ok a(2) by (auto simp: props_ok_def s' inj_on_def)
  moreover have "rb_inv (prop_tree s' m) (P m)" if "m \<in> N" for m using ok that by (simp add: props_ok_def s')
  ultimately show "props_ok s' N P" using ok v a(1) vo nm unfolding props_ok_def by (auto simp: s')
  have pn: "names_ok (\<lambda>x. pname (props s x)) (P n)" using props_okD(3)[OF ok p(2)] .
  show "prop_dict s' P n = (prop_dict s P n)(pname (props s p) \<mapsto> val)"
    unfolding prop_dict_def nm using pn p props_okD(4)[OF ok p(2)] vo by (intro dict_update) auto
  show "prop_dict s' P m = prop_dict s P m" if "m \<in> N" "m \<noteq> n"
  proof -
    have "p \<notin> set (P m)" using ok p that by (auto simp: props_ok_def)
    then show ?thesis unfolding prop_dict_def using vo props_okD(4)[OF ok that(1)] nm by (intro dict_cong) auto
  qed
qed

section \<open>A new property\<close>

lemma all_props_insert: "n \<in> N \<Longrightarrow> P n = as @ bs \<Longrightarrow> all_props N (P(n := as @ p # bs)) = insert p (all_props N P)"
proof -
  assume n: "n \<in> N" "P n = as @ bs"
  have "all_props N Q = set (Q n) \<union> (\<Union>m\<in>N - {n}. set (Q m))" for Q using n(1) by (auto simp: all_props_def)
  then show ?thesis using n(2) by auto
qed

text \<open>The state with the new property \<open>p\<close> at its place in the tree \<open>t\<close> of node \<open>n\<close>.\<close>

lemma props_ok_new:
  assumes ok: "props_ok s N P" and n: "n \<in> N" "P n = as @ bs" and p: "p \<notin> all_props N P"
    and vp: "vp \<noteq> NULL" "\<And>x. x \<in> all_props N P \<Longrightarrow> pvalue (props s x) \<noteq> vp" and v: "length val < 2 ^ 64"
    and t: "rb_inv t (as @ p # bs)" "names_ok (\<lambda>x. pname (props s' x)) (as @ p # bs)" "\<And>z. z \<notin> set (P n) \<Longrightarrow> z \<noteq> p \<Longrightarrow> rbn t z = prop_links s z"
    and s': "props s' = (props s)(p := \<lparr>value_len = of_nat (length val), pname = name, pvalue = vp\<rparr>)" "blocks s' = (blocks s)(vp := val)"
      "prop_links s' = rbn t" "\<And>m. properties (nodes s' m) = (if m = n then rbh_root t else properties (nodes s m))"
  shows "props_ok s' N (P(n := as @ p # bs))" "prop_dict s' (P(n := as @ p # bs)) n = (prop_dict s P n)(name \<mapsto> val)"
    "m \<in> N \<Longrightarrow> m \<noteq> n \<Longrightarrow> prop_dict s' (P(n := as @ p # bs)) m = prop_dict s P m"
proof -
  let ?P = "P(n := as @ p # bs)"
  have out: "x \<noteq> p" if "x \<in> set (P m)" "m \<in> N" for x m using p that by (auto simp: all_props_def)
  have all: "all_props N ?P = insert p (all_props N P)" using n by (rule all_props_insert)
  have vo: "value_of s' x = (if x = p then val else value_of s x)" if "x \<in> insert p (all_props N P)" for x
    using vp(2)[of x] that by (auto simp: value_of_def s'(1,2))
  have 1: "rb_inv (prop_tree s' m) (?P m)" if m: "m \<in> N" for m
  proof (cases "m = n")
    case True
    have "prop_tree s' n = t" by (simp add: s')
    then show ?thesis using True t(1) by simp
  next
    case False
    then have "set (P m) \<inter> set (P n) = {}" using ok m n(1) by (auto simp: props_ok_def)
    then have "rbn t z = prop_links s z" if "z \<in> set (P m)" for z using that out[OF that m] t(3)[of z] by blast
    then show ?thesis using False props_okD(2)[OF ok m]
      by (auto intro!: rb_inv_frame[where t = "prop_tree s m"] simp: s')
  qed
  have 2: "names_ok (\<lambda>x. pname (props s' x)) (?P m)" if "m \<in> N" for m
    using t(2) names_ok_cong[OF _ props_okD(3)[OF ok that], of "\<lambda>x. pname (props s' x)"] out[OF _ that] by (simp add: s'(1))
  have 3: "set (?P a) \<inter> set (?P b) = {}" if "a \<in> N" "b \<in> N" "a \<noteq> b" for a b
  proof -
    have "set (P a) \<inter> set (P b) = {}" using ok that by (auto simp: props_ok_def)
    then show ?thesis using that out[OF _ that(1)] out[OF _ that(2)] n(2) by (auto split: if_splits)
  qed
  have 4: "inj_on (\<lambda>x. pvalue (props s' x)) (all_props N ?P)"
    using ok vp(2) p unfolding all by (auto simp: props_ok_def inj_on_def s'(1))
  have 5: "pvalue (props s' x) \<noteq> NULL \<and> length (value_of s' x) < 2 ^ 64 \<and> value_len (props s' x) = of_nat (length (value_of s' x))"
    if "x \<in> all_props N ?P" for x
    using that ok v vp(1) vo[of x] unfolding all by (auto simp: props_ok_def s'(1))
  show "props_ok s' N ?P" unfolding props_ok_def
  proof (intro conjI ballI impI)
    show "NULL \<notin> N" using ok by (simp add: props_ok_def)
  qed (use 1 2 3 4 5 in simp_all)
  have eq: "dict (\<lambda>x. pname (props s' x)) (value_of s') (P m) = dict (\<lambda>x. pname (props s x)) (value_of s) (P m)" if "m \<in> N" for m
  proof (rule dict_cong)
    fix x assume x: "x \<in> set (P m)"
    then have "x \<in> all_props N P" using that by (auto simp: all_props_def)
    then show "pname (props s' x) = pname (props s x) \<and> value_of s' x = value_of s x" using vo[of x] out[OF x that] by (simp add: s'(1))
  qed
  have "pname (props s' p) = name" by (simp add: s'(1))
  then show "prop_dict s' ?P n = (prop_dict s P n)(name \<mapsto> val)"
    using eq[OF n(1)] unfolding prop_dict_def n(2) using dict_insert[OF t(2), of "value_of s'"] vo[of p] by simp
  show "prop_dict s' ?P m = prop_dict s P m" if "m \<in> N" "m \<noteq> n" using eq[OF that(1)] that unfolding prop_dict_def by simp
qed

lemma insert_property_tree:
  assumes ok: "props_ok s N P" and n: "n \<in> N" and p: "p \<noteq> NULL" "p \<notin> all_props N P"
    and name: "c_string name" "\<forall>x\<in>set (P n). pname (props s x) \<noteq> name"
    and s1: "prop_links s1 = (prop_links s)(p := l)" "props s1 = (props s)(p := \<lparr>value_len = len, pname = name, pvalue = vp\<rparr>)" "nodes s1 = nodes s"
  obtains t as bs where "P n = as @ bs" "insert_property n p s1 = Inr (set_node n (properties_update (\<lambda>_. rbh_root t)) (s1\<lparr>prop_links := rbn t\<rparr>))"
    "rb_inv t (as @ p # bs)" "names_ok (\<lambda>x. pname (props s1 x)) (as @ p # bs)" "\<And>z. z \<notin> set (P n) \<Longrightarrow> z \<noteq> p \<Longrightarrow> rbn t z = prop_links s z"
proof -
  let ?nm = "\<lambda>x. pname (props s1 x)"
  have out: "x \<noteq> p" if "x \<in> set (P n)" for x using p(2) n that by (auto simp: all_props_def)
  have inv1: "rb_inv (prop_tree s1 n) (P n)"
    using props_okD(2)[OF ok n] out by (auto intro!: rb_inv_frame[where t = "prop_tree s n"] simp: s1)
  have names1: "names_ok ?nm (P n)" using props_okD(3)[OF ok n] out by (elim names_ok_cong[rotated]) (auto simp: s1)
  have "p \<notin> set (P n)" "\<forall>x\<in>set (P n). ?nm x \<noteq> ?nm p" "c_string (?nm p)" using out name by (auto simp: s1)
  then obtain t as bs where t: "P n = as @ bs" "RB_INSERT (\<lambda>x y. strcmp (?nm x) (?nm y)) (prop_tree s1 n) p = Some (t, NULL)"
    "rb_inv t (as @ p # bs)" "names_ok ?nm (as @ p # bs)" "\<forall>z. z \<notin> set (P n) \<longrightarrow> z \<noteq> p \<longrightarrow> rbn t z = prop_links s1 z"
    using named_insert[OF inv1 names1 p(1)] by auto
  have cmp: "dt_property_cmp s1 = (\<lambda>x y. strcmp (?nm x) (?nm y))" by (simp add: dt_property_cmp_def fun_eq_iff)
  have ins: "insert_property n p s1 = Inr (set_node n (properties_update (\<lambda>_. rbh_root t)) (s1\<lparr>prop_links := rbn t\<rparr>))"
    using t(2) by (simp add: insert_property_def cmp)
  show thesis using that[OF t(1) ins t(3,4)] t(5) by (simp add: s1(1))
qed

section \<open>Setting a property\<close>

text \<open>What setting a property leaves alone: the nodes but for the roots of their property trees.\<close>

definition same_nodes :: "dt_state \<Rightarrow> dt_state \<Rightarrow> bool" where
  "same_nodes s s' \<longleftrightarrow> node_links s' = node_links s \<and> (\<forall>m. nodes s' m = (nodes s m)\<lparr>properties := properties (nodes s' m)\<rparr>)"

lemma same_nodes_simps:
  "same_nodes s s' \<Longrightarrow> node_links s' = node_links s" "same_nodes s s' \<Longrightarrow> children (nodes s' m) = children (nodes s m)"
  "same_nodes s s' \<Longrightarrow> parent (nodes s' m) = parent (nodes s m)" "same_nodes s s' \<Longrightarrow> nname (nodes s' m) = nname (nodes s m)"
  "same_nodes s s' \<Longrightarrow> bound_device (nodes s' m) = bound_device (nodes s m)"
  unfolding same_nodes_def by (metis dt_node.select_convs dt_node.surjective dt_node.update_convs(2))+

text \<open>The answers of the allocator are fresh: the ones that the call may take are not in use and differ.\<close>

definition fresh_answers :: "dt_state \<Rightarrow> addr set \<Rightarrow> (addr \<Rightarrow> addr list) \<Rightarrow> bool" where
  "fresh_answers s N P \<longleftrightarrow> (\<forall>a\<in>set (take 2 (answers s)). a \<noteq> NULL \<longrightarrow> unused_prop s N P a) \<and>
     (case answers s of a # b # _ \<Rightarrow> a = NULL \<or> a \<noteq> b | _ \<Rightarrow> True)"

text \<open>
  What setting \<open>name\<close> to a value of \<open>len\<close> bytes asks of the allocator: two blocks for a new property, none for a
  value of the old length, and otherwise one, which may be the old block of the value.
\<close>

definition set_answers :: "dt_state \<Rightarrow> addr set \<Rightarrow> (addr \<Rightarrow> addr list) \<Rightarrow> addr \<Rightarrow> string \<Rightarrow> bool" where
  "set_answers s N P n name \<longleftrightarrow>
     (if prop_dict s P n name = None then fresh_answers s N P
      else \<forall>a\<in>set (take 1 (answers s)). a = NULL \<or> unused_prop s N P a \<or> (\<exists>p\<in>set (P n). pname (props s p) = name \<and> pvalue (props s p) = a))"

definition enough_memory :: "dt_state \<Rightarrow> (addr \<Rightarrow> addr list) \<Rightarrow> addr \<Rightarrow> string \<Rightarrow> nat \<Rightarrow> bool" where
  "enough_memory s P n name len \<longleftrightarrow>
     (case prop_dict s P n name of
        None \<Rightarrow> (\<exists>vp p ans. answers s = vp # p # ans \<and> vp \<noteq> NULL \<and> p \<noteq> NULL)
      | Some v \<Rightarrow> length v = len \<or> (\<exists>a ans. answers s = a # ans \<and> a \<noteq> NULL))"

text \<open>The outcome of a call that succeeded: the dictionary of the node is updated and nothing else.\<close>

definition property_set :: "dt_state \<Rightarrow> addr set \<Rightarrow> (addr \<Rightarrow> addr list) \<Rightarrow> addr \<Rightarrow> string \<Rightarrow> u8 list \<Rightarrow> addr \<Rightarrow> dt_state \<Rightarrow> (addr \<Rightarrow> addr list) \<Rightarrow> bool" where
  "property_set s N P n name val p s' P' \<longleftrightarrow> p \<noteq> NULL \<and> p \<in> set (P' n) \<and> props_ok s' N P' \<and> same_nodes s s' \<and>
     prop_dict s' P' n = (prop_dict s P n)(name \<mapsto> val) \<and> (\<forall>m\<in>N. m \<noteq> n \<longrightarrow> prop_dict s' P' m = prop_dict s P m)"

lemma set_property_new:
  assumes ok: "props_ok s N P" and n: "n \<in> N" and name: "c_string name" "\<forall>x\<in>set (P n). pname (props s x) \<noteq> name" and v: "length val < 2 ^ 64"
    and f: "dt_node_find_property n name s = Inr NULL" and ans: "answers s = vp # p # ans" "vp \<noteq> NULL" "p \<noteq> NULL" "fresh_answers s N P"
  shows "\<exists>s' as bs. dt_node_set_property n name val s = Inr (p, s') \<and> P n = as @ bs \<and> property_set s N P n name val p s' (P(n := as @ p # bs)) \<and>
    answers s' = ans \<and> live s' = insert p (insert vp (live s)) \<and>
    props s' = (props s)(p := \<lparr>value_len = of_nat (length val), pname = name, pvalue = vp\<rparr>)"
proof -
  define s1 where "s1 = s\<lparr>answers := ans, live := insert p (insert vp (live s)),
    props := (props s)(p := \<lparr>value_len = 0, pname = name, pvalue = vp\<rparr>), prop_links := (prop_links s)(p := zero_links)\<rparr>"
  have u: "p \<notin> all_props N P" "\<And>x. x \<in> all_props N P \<Longrightarrow> pvalue (props s x) \<noteq> vp" using ans by (auto simp: fresh_answers_def unused_prop_def)
  have s1: "prop_links s1 = (prop_links s)(p := zero_links)" "props s1 = (props s)(p := \<lparr>value_len = 0, pname = name, pvalue = vp\<rparr>)" "nodes s1 = nodes s"
    by (simp_all add: s1_def)
  obtain t as bs where t: "P n = as @ bs" "insert_property n p s1 = Inr (set_node n (properties_update (\<lambda>_. rbh_root t)) (s1\<lparr>prop_links := rbn t\<rparr>))"
    "rb_inv t (as @ p # bs)" "names_ok (\<lambda>x. pname (props s1 x)) (as @ p # bs)" "\<And>z. z \<notin> set (P n) \<Longrightarrow> z \<noteq> p \<Longrightarrow> rbn t z = prop_links s z"
    by (rule insert_property_tree[OF ok n ans(3) u(1) name s1]) (rule that)
  define s' where "s' = (set_node n (properties_update (\<lambda>_. rbh_root t)) (s1\<lparr>prop_links := rbn t\<rparr>))
    \<lparr>props := (props s)(p := \<lparr>value_len = of_nat (length val), pname = name, pvalue = vp\<rparr>), blocks := (blocks s)(vp := val)\<rparr>"
  have "dt_node_set_property n name val s = andthen (insert_property n p s1) (store_value p val)"
    using f ans(1-3) by (simp add: dt_node_set_property_def dt_malloc_def next_answer_def s1_def insert_commute)
  then have call: "dt_node_set_property n name val s = Inr (p, s')"
    using t(2) by (simp add: store_value_def set_prop_def set_node_def s'_def s1_def)
  have nm: "(\<lambda>x. pname (props s' x)) = (\<lambda>x. pname (props s1 x))" by (auto simp: s'_def s1_def)
  have s': "props s' = (props s)(p := \<lparr>value_len = of_nat (length val), pname = name, pvalue = vp\<rparr>)" "blocks s' = (blocks s)(vp := val)"
    "prop_links s' = rbn t" "\<And>m. properties (nodes s' m) = (if m = n then rbh_root t else properties (nodes s m))"
    by (simp_all add: s'_def set_node_def s1_def)
  note new = props_ok_new[OF ok n t(1) u(1) ans(2) u(2) v t(3) t(4)[folded nm] t(5) s']
  have "property_set s N P n name val p s' (P(n := as @ p # bs))"
    unfolding property_set_def using new ans(3) by (simp add: same_nodes_def s'_def set_node_def s1_def)
  moreover have "answers s' = ans" "live s' = insert p (insert vp (live s))" by (simp_all add: s'_def set_node_def s1_def)
  ultimately show ?thesis using call t(1) s'(1) by blast
qed

text \<open>A property that exists gets the new value, in a new block if the length differs.\<close>

lemma set_property_old:
  assumes ok: "props_ok s N P" and n: "n \<in> N" and p: "p \<in> set (P n)" "p \<noteq> NULL" and v: "length val < 2 ^ 64"
    and f: "dt_node_find_property n (pname (props s p)) s = Inr p"
    and a: "a = (if value_len (props s p) = of_nat (length val) then pvalue (props s p) else fst (next_answer s))" "a \<noteq> NULL"
    and fr: "a = pvalue (props s p) \<or> unused_prop s N P a"
  shows "\<exists>s'. dt_node_set_property n (pname (props s p)) val s = Inr (p, s') \<and> property_set s N P n (pname (props s p)) val p s' P"
proof -
  have pa: "p \<in> all_props N P" using n p(1) by (auto simp: all_props_def)
  have other: "pvalue (props s x) \<noteq> a" if "x \<in> all_props N P" "x \<noteq> p" for x
    using ok pa that a(1) fr by (auto simp: props_ok_def inj_on_def unused_prop_def split: if_splits)
  obtain L as where s': "dt_node_set_property n (pname (props s p)) val s = Inr (p, s\<lparr>props := (props s)(p := (props s p)\<lparr>pvalue := a,
      value_len := of_nat (length val)\<rparr>), blocks := (blocks s)(a := val), live := L, answers := as\<rparr>)"
  proof (cases "value_len (props s p) = of_nat (length val)")
    case True
    then show ?thesis using that[where L = "live s" and as = "answers s"] f p(2) a(1) by (simp add: dt_node_set_property_def store_value_def set_prop_def)
  next
    case False
    then obtain as where na: "next_answer s = (a, s\<lparr>answers := as\<rparr>)" using a by (auto simp: next_answer_def split: list.splits)
    show ?thesis using f p(2) a(2) False na
      by (intro that[where L = "insert a (live s - {pvalue (props s p)})" and as = as])
        (simp add: dt_node_set_property_def dt_realloc_def store_value_def set_prop_def)
  qed
  let ?s = "s\<lparr>props := (props s)(p := (props s p)\<lparr>pvalue := a, value_len := of_nat (length val)\<rparr>), blocks := (blocks s)(a := val), live := L, answers := as\<rparr>"
  note st = props_ok_store[OF ok p(1) n v a(2) other refl, where L = L and as = as]
  have "property_set s N P n (pname (props s p)) val p ?s P"
    unfolding property_set_def using st p by (simp add: same_nodes_def)
  with s' show ?thesis by blast
qed

text \<open>Out of memory: the null pointer, with the dictionaries as they were.\<close>

definition property_kept :: "dt_state \<Rightarrow> addr set \<Rightarrow> (addr \<Rightarrow> addr list) \<Rightarrow> dt_state \<Rightarrow> bool" where
  "property_kept s N P s' \<longleftrightarrow> props_ok s' N P \<and> same_nodes s s' \<and> (\<forall>m\<in>N. prop_dict s' P m = prop_dict s P m) \<and> live s' \<subseteq> live s"

lemma property_kept_alloc:
  assumes "props_ok s N P" "L \<subseteq> live s"
  shows "property_kept s N P (s\<lparr>live := L, answers := as\<rparr>)"
  using assms by (auto simp: property_kept_def props_ok_def same_nodes_def prop_dict_def value_of_def[abs_def] all_props_def)

lemma set_property_no_memory:
  assumes f: "dt_node_find_property n name s = Inr NULL" and no: "\<nexists>vp p ans. answers s = vp # p # ans \<and> vp \<noteq> NULL \<and> p \<noteq> NULL"
  obtains L as where "L \<subseteq> live s" "dt_node_set_property n name val s = Inr (NULL, s\<lparr>live := L, answers := as\<rparr>)"
proof -
  have call: "dt_node_set_property n name val s = Inr (NULL, s\<lparr>live := live s, answers := tl (answers s)\<rparr>)" if "fst (next_answer s) = NULL"
    using f that by (auto simp: dt_node_set_property_def dt_malloc_def next_answer_def split: list.splits)
  show thesis
  proof (cases "fst (next_answer s) = NULL")
    case True
    then show ?thesis using call that[of "live s" "tl (answers s)"] by simp
  next
    case False
    then obtain vp as where a: "answers s = vp # as" "vp \<noteq> NULL" by (auto simp: next_answer_def split: list.splits)
    then have "as = [] \<or> hd as = NULL" using no by (cases as) auto
    then have "dt_node_set_property n name val s = Inr (NULL, s\<lparr>live := insert vp (live s) - {vp}, answers := tl as\<rparr>)"
      using a f by (cases as) (simp_all add: dt_node_set_property_def dt_malloc_def next_answer_def dt_free_def)
    then show ?thesis using that[of "insert vp (live s) - {vp}" "tl as"] by auto
  qed
qed

lemma set_property_ok:
  assumes ok: "props_ok s N P" and n: "n \<in> N" and name: "c_string name" and v: "length val < 2 ^ 64" and fr: "set_answers s N P n name"
  shows "\<exists>p s'. dt_node_set_property n name val s = Inr (p, s') \<and> (p \<noteq> NULL \<longleftrightarrow> enough_memory s P n name (length val)) \<and>
    (if p = NULL then property_kept s N P s' else \<exists>P'. property_set s N P n name val p s' P')"
proof (cases rule: find_property_cases[OF ok n name])
  case 1
  have fr: "fresh_answers s N P" using fr 1(2) by (simp add: set_answers_def)
  show ?thesis
  proof (cases "\<exists>vp p ans. answers s = vp # p # ans \<and> vp \<noteq> NULL \<and> p \<noteq> NULL")
    case True
    then obtain vp p ans where a: "answers s = vp # p # ans" "vp \<noteq> NULL" "p \<noteq> NULL" by blast
    then obtain s' as bs where "dt_node_set_property n name val s = Inr (p, s')" "property_set s N P n name val p s' (P(n := as @ p # bs))"
      using set_property_new[OF ok n name 1(3) v 1(1) a fr] by (elim exE conjE) (rule that)
    then show ?thesis using a by (auto simp: enough_memory_def 1(2))
  next
    case False
    then obtain L as where "L \<subseteq> live s" "dt_node_set_property n name val s = Inr (NULL, s\<lparr>live := L, answers := as\<rparr>)"
      by (rule set_property_no_memory[OF 1(1)])
    then show ?thesis using property_kept_alloc[OF ok, of L as] False by (simp add: enough_memory_def 1(2))
  qed
next
  case (2 p)
  let ?a = "if value_len (props s p) = of_nat (length val) then pvalue (props s p) else fst (next_answer s)"
  have nm: "pname (props s p) = name" and f: "dt_node_find_property n (pname (props s p)) s = Inr p" using 2 by simp_all
  have pa: "p \<in> all_props N P" using n 2(2) by (auto simp: all_props_def)
  then have pv: "pvalue (props s p) \<noteq> NULL" "length (value_of s p) < 2 ^ 64" "value_len (props s p) = of_nat (length (value_of s p))"
    using ok by (simp_all add: props_ok_def)
  have len: "value_len (props s p) = of_nat (length val) \<longleftrightarrow> length (value_of s p) = length val"
    using pv(2,3) v by (auto simp: word_unat_eq_iff unat_of_nat)
  have e: "enough_memory s P n name (length val) \<longleftrightarrow> ?a \<noteq> NULL"
    using pv(1) by (auto simp: enough_memory_def 2(5) len next_answer_def split: list.splits)
  show ?thesis
  proof (cases "?a = NULL")
    case True
    then have "value_len (props s p) \<noteq> of_nat (length val) \<and> fst (next_answer s) = NULL" using pv(1) by (auto split: if_splits)
    then have "dt_node_set_property n name val s = Inr (NULL, s\<lparr>live := live s, answers := tl (answers s)\<rparr>)"
      using 2 by (auto simp: dt_node_set_property_def dt_realloc_def next_answer_def split: list.splits)
    then show ?thesis using property_kept_alloc[OF ok subset_refl] e True by fastforce
  next
    case False
    have same: "q = p" if "q \<in> set (P n)" "pname (props s q) = name" for q
      using that 2(2,4) names_distinct[OF props_okD(3)[OF ok n]] by (auto simp: distinct_map inj_on_def)
    have u: "?a = pvalue (props s p) \<or> unused_prop s N P ?a"
      using False fr same by (auto simp: set_answers_def 2(5) next_answer_def split: list.splits)
    obtain s' where "dt_node_set_property n name val s = Inr (p, s')" "property_set s N P n name val p s' P"
      using set_property_old[OF ok n 2(2,3) v f refl False u] unfolding nm by (elim exE conjE) (rule that)
    then show ?thesis using 2(3) e False by (intro exI[of _ p] exI[of _ s']) auto
  qed
qed

end
