(* ===== verification/Dt_Nodes_Correct.thy ===== *)
theory Dt_Nodes_Correct
  imports Dt_Properties_Correct
begin

text \<open>
  The invariant of the nodes of a device tree: the children of every node in a tree ordered by
  name, and what allocating a node and searching for a child do.
\<close>

section \<open>Invariant\<close>

text \<open>\<open>K n\<close> is the list of the children of node \<open>n\<close>, in the order of their names.\<close>

definition kids_ok :: "dt_state \<Rightarrow> addr set \<Rightarrow> (addr \<Rightarrow> addr list) \<Rightarrow> bool" where
  "kids_ok s N K \<longleftrightarrow> NULL \<notin> N \<and>
     (\<forall>n\<in>N. rb_inv (child_tree s n) (K n) \<and> names_ok (\<lambda>x. nname (nodes s x)) (K n) \<and>
        (\<forall>c\<in>set (K n). c \<in> N \<and> parent (nodes s c) = n))"

definition child_dict :: "dt_state \<Rightarrow> (addr \<Rightarrow> addr list) \<Rightarrow> addr \<Rightarrow> string \<rightharpoonup> addr" where
  "child_dict s K n = dict (\<lambda>x. nname (nodes s x)) (\<lambda>x. x) (K n)"

definition dt_ok :: "dt_state \<Rightarrow> addr set \<Rightarrow> (addr \<Rightarrow> addr list) \<Rightarrow> (addr \<Rightarrow> addr list) \<Rightarrow> bool" where
  "dt_ok s N K P \<longleftrightarrow> kids_ok s N K \<and> props_ok s N P"

lemma kids_okD:
  assumes "kids_ok s N K" "n \<in> N"
  shows "n \<noteq> NULL" "rb_inv (child_tree s n) (K n)" "names_ok (\<lambda>x. nname (nodes s x)) (K n)"
    "\<And>c. c \<in> set (K n) \<Longrightarrow> c \<in> N" "\<And>c. c \<in> set (K n) \<Longrightarrow> parent (nodes s c) = n"
  using assms by (auto simp: kids_ok_def)

lemma kids_ok_same: "kids_ok s N K \<Longrightarrow> same_nodes s s' \<Longrightarrow> kids_ok s' N K"
  by (simp add: kids_ok_def same_nodes_simps)

lemma child_dict_same: "same_nodes s s' \<Longrightarrow> child_dict s' K n = child_dict s K n"
  by (simp add: child_dict_def same_nodes_simps)

lemma find_child_dict:
  assumes "kids_ok s N K" "n \<in> N" "c_string name"
  shows "dt_node_find_child n name s = Inr (case child_dict s K n name of None \<Rightarrow> NULL | Some c \<Rightarrow> c)"
proof -
  note d = kids_okD[OF assms(1,2)]
  show ?thesis
  proof (cases rule: named_find_cases[OF d(2,3) assms(3)])
    case 1
    then show ?thesis using d(1) by (simp add: dt_node_find_child_def child_dict_def dict_none)
  next
    case (2 x)
    then show ?thesis using d(1) dict_elem[OF d(3), of x "\<lambda>x. x"] by (simp add: dt_node_find_child_def child_dict_def)
  qed
qed

section \<open>A new node\<close>

text \<open>A node of its own, before it is inserted into the children of its parent.\<close>

lemma dt_ok_alone:
  assumes ok: "dt_ok s N K P" and n: "n \<noteq> NULL" "n \<notin> N"
    and s': "nodes s' = (nodes s)(n := \<lparr>children = NULL, properties = NULL, parent = par, bound_device = NULL, nname = name\<rparr>)"
      "node_links s' = (node_links s)(n := l)" "props s' = props s" "prop_links s' = prop_links s" "blocks s' = blocks s"
  shows "dt_ok s' (insert n N) (K(n := [])) (P(n := []))"
    "prop_dict s' (P(n := [])) n = Map.empty" "child_dict s' (K(n := [])) n = Map.empty"
    "m \<in> N \<Longrightarrow> prop_dict s' (P(n := [])) m = prop_dict s P m" "m \<in> N \<Longrightarrow> child_dict s' (K(n := [])) m = child_dict s K m"
proof -
  have k: "kids_ok s N K" and p: "props_ok s N P" using ok by (auto simp: dt_ok_def)
  have empty: "rb_inv \<lparr>rbn = h, rbh_root = NULL\<rparr> []" for h
    unfolding rb_inv_def by (intro exI[of _ Lf] exI[of _ 0]) (simp add: tree_at_def)
  have all: "all_props (insert n N) (P(n := [])) = all_props N P" using n(2) by (auto simp: all_props_def split: if_splits)
  have vo: "value_of s' = value_of s" by (simp add: value_of_def[abs_def] s')
  have kid: "c \<noteq> n" if "m \<in> N" "c \<in> set (K m)" for m c using that kids_okD(4)[OF k that(1)] n(2) by auto
  have "rb_inv (child_tree s' m) ((K(n := [])) m)" if "m \<in> insert n N" for m
  proof (cases "m = n")
    case True
    then show ?thesis using empty by (simp add: s')
  next
    case False
    then have m: "m \<in> N" using that by simp
    show ?thesis by (rule rb_inv_frame[where t = "child_tree s m"]) (use False kids_okD(2)[OF k m] kid[OF m] in \<open>auto simp: s'\<close>)
  qed
  moreover have "names_ok (\<lambda>x. nname (nodes s' x)) ((K(n := [])) m)" if "m \<in> insert n N" for m
    using that names_ok_cong[OF _ kids_okD(3)[OF k]] kid by (auto simp: s')
  moreover have "c \<in> insert n N \<and> parent (nodes s' c) = m" if "m \<in> insert n N" "c \<in> set ((K(n := [])) m)" for m c
    using that kids_okD(4,5)[OF k] kid n(2) by (auto simp: s' split: if_splits)
  ultimately have "kids_ok s' (insert n N) (K(n := []))" using k n(1) by (simp add: kids_ok_def)
  moreover have "props_ok s' (insert n N) (P(n := []))"
    using p n empty unfolding props_ok_def all vo by (auto simp: s')
  ultimately show "dt_ok s' (insert n N) (K(n := [])) (P(n := []))" by (simp add: dt_ok_def)
  show "prop_dict s' (P(n := [])) n = Map.empty" "child_dict s' (K(n := [])) n = Map.empty"
    by (simp_all add: prop_dict_def child_dict_def dict_def)
  show "prop_dict s' (P(n := [])) m = prop_dict s P m" if "m \<in> N" using that n(2) by (auto simp: prop_dict_def vo s')
  show "child_dict s' (K(n := [])) m = child_dict s K m" if "m \<in> N"
    using that n(2) kid by (auto simp: child_dict_def s' intro!: dict_cong)
qed

lemma insert_child_ok:
  assumes ok: "dt_ok s N K P" and N: "par \<in> N" "n \<in> N" and pn: "parent (nodes s n) = par" and out: "\<And>m. m \<in> N \<Longrightarrow> n \<notin> set (K m)"
    and name: "c_string (nname (nodes s n))" "\<forall>x\<in>set (K par). nname (nodes s x) \<noteq> nname (nodes s n)"
  obtains s' as bs where "insert_child par n s = Inr s'" "K par = as @ bs" "dt_ok s' N (K(par := as @ n # bs)) P"
    "child_dict s' (K(par := as @ n # bs)) par = (child_dict s K par)(nname (nodes s n) \<mapsto> n)"
    "\<And>m. m \<noteq> par \<Longrightarrow> child_dict s' (K(par := as @ n # bs)) m = child_dict s K m"
    "\<And>m. prop_dict s' P m = prop_dict s P m" "\<And>m. nname (nodes s' m) = nname (nodes s m)" "\<And>m. parent (nodes s' m) = parent (nodes s m)"
    "props s' = props s" "answers s' = answers s" "live s' = live s"
proof -
  have k: "kids_ok s N K" and p: "props_ok s N P" using ok by (auto simp: dt_ok_def)
  let ?nm = "\<lambda>x. nname (nodes s x)"
  note d = kids_okD[OF k]
  obtain t as bs where t: "K par = as @ bs" "RB_INSERT (\<lambda>x y. strcmp (?nm x) (?nm y)) (child_tree s par) n = Some (t, NULL)"
    "rb_inv t (as @ n # bs)" "names_ok ?nm (as @ n # bs)" "\<forall>z. z \<notin> set (K par) \<longrightarrow> z \<noteq> n \<longrightarrow> rbn t z = node_links s z"
    using named_insert[OF d(2)[OF N(1)] d(3)[OF N(1)] d(1)[OF N(2)] out[OF N(1)] name] by auto
  define s' where "s' = set_node par (children_update (\<lambda>_. rbh_root t)) (s\<lparr>node_links := rbn t\<rparr>)"
  let ?K = "K(par := as @ n # bs)"
  have cmp: "dt_node_cmp s = (\<lambda>x y. strcmp (?nm x) (?nm y))" by (simp add: dt_node_cmp_def fun_eq_iff)
  have ins: "insert_child par n s = Inr s'" using t(2) by (simp add: insert_child_def cmp s'_def)
  have f: "nname (nodes s' m) = ?nm m" "parent (nodes s' m) = parent (nodes s m)" "prop_tree s' m = prop_tree s m" for m
    by (simp_all add: s'_def set_node_def)
  have 1: "rb_inv (child_tree s' m) (?K m)" if m: "m \<in> N" for m
  proof (cases "m = par")
    case True
    have "child_tree s' par = t" by (simp add: s'_def set_node_def)
    then show ?thesis using True t(3) by simp
  next
    case False
    have "z \<notin> set (K par) \<and> z \<noteq> n" if "z \<in> set (K m)" for z
      using that False d(5)[OF m that] d(5)[OF N(1), of z] out[OF m] by blast
    then have "rbn t z = node_links s z" if "z \<in> set (K m)" for z using that t(5)[rule_format, of z] by blast
    then show ?thesis using False d(2)[OF m] by (auto simp: s'_def set_node_def intro!: rb_inv_frame[where t = "child_tree s m"])
  qed
  have 2: "names_ok (\<lambda>x. nname (nodes s' x)) (?K m)" if "m \<in> N" for m using d(3)[OF that] t(4) by (simp add: f)
  have 3: "c \<in> N \<and> parent (nodes s' c) = m" if "m \<in> N" "c \<in> set (?K m)" for m c
    using that d(4,5)[OF that(1)] N(2) pn t(1) by (auto simp: f split: if_splits)
  have "NULL \<notin> N" using k by (simp add: kids_ok_def)
  then have "kids_ok s' N ?K" unfolding kids_ok_def using 1 2 3 by blast
  moreover have vo: "value_of s' = value_of s" by (simp add: value_of_def[abs_def] s'_def set_node_def)
  moreover have pr: "props s' = props s" by (simp add: s'_def set_node_def)
  then have "props_ok s' N P" using p unfolding props_ok_def vo f(3) by simp
  ultimately have ok': "dt_ok s' N ?K P" by (simp add: dt_ok_def)
  have cd: "child_dict s' ?K par = (child_dict s K par)(?nm n \<mapsto> n)"
    unfolding child_dict_def f using dict_insert[OF t(4), of "\<lambda>x. x"] t(1) by simp
  show thesis
    by (rule that[OF ins t(1) ok' cd]) (simp_all add: child_dict_def prop_dict_def f vo pr, simp_all add: s'_def set_node_def)
qed

section \<open>Allocating a node\<close>

text \<open>What a client sees of a node: its name, its properties and its children.\<close>

definition view :: "dt_state \<Rightarrow> (addr \<Rightarrow> addr list) \<Rightarrow> (addr \<Rightarrow> addr list) \<Rightarrow> addr \<Rightarrow> string \<times> (string \<rightharpoonup> u8 list) \<times> (string \<rightharpoonup> addr)" where
  "view s K P m = (nname (nodes s m), prop_dict s P m, child_dict s K m)"

definition add_kid :: "string \<Rightarrow> addr \<Rightarrow> string \<times> (string \<rightharpoonup> u8 list) \<times> (string \<rightharpoonup> addr) \<Rightarrow> string \<times> (string \<rightharpoonup> u8 list) \<times> (string \<rightharpoonup> addr)" where
  "add_kid name c = (\<lambda>(nm, ps, ks). (nm, ps, ks(name \<mapsto> c)))"

text \<open>The answers of the allocator are addresses that are not in use, all different.\<close>

definition fresh_supply :: "dt_state \<Rightarrow> addr set \<Rightarrow> (addr \<Rightarrow> addr list) \<Rightarrow> bool" where
  "fresh_supply s N P \<longleftrightarrow> distinct (answers s) \<and> (\<forall>a\<in>set (answers s). a \<noteq> NULL \<and> a \<notin> N \<and> unused_prop s N P a)"

lemma fresh_supply_answers: "fresh_supply s N P \<Longrightarrow> fresh_answers s N P"
  by (auto simp: fresh_supply_def fresh_answers_def split: list.splits dest: in_set_takeD)

lemma node_alloc_ok:
  assumes ok: "dt_ok s N K P" and a: "answers s = n # ans" and fr: "fresh_supply s N P" and name: "c_string name"
    and par: "par = NULL \<or> par \<in> N \<and> child_dict s K par name = None"
  shows "\<exists>s' K'. dt_node_alloc par name s = Inr (n, s') \<and> dt_ok s' (insert n N) K' (P(n := [])) \<and> answers s' = ans \<and>
    fresh_supply s' (insert n N) (P(n := [])) \<and> n \<notin> N \<and> view s' K' (P(n := [])) n = (name, Map.empty, Map.empty) \<and>
    (\<forall>m\<in>N. view s' K' (P(n := [])) m = (if m = par then add_kid name n (view s K P m) else view s K P m))"
proof -
  let ?P = "P(n := [])" and ?N = "insert n N"
  have n: "n \<noteq> NULL" "n \<notin> N" using fr a by (auto simp: fresh_supply_def)
  define s1 where "s1 = s\<lparr>answers := ans, live := insert n (live s),
    nodes := (nodes s)(n := \<lparr>children = NULL, properties = NULL, parent = par, bound_device = NULL, nname = name\<rparr>), node_links := (node_links s)(n := zero_links)\<rparr>"
  have s1: "nodes s1 = (nodes s)(n := \<lparr>children = NULL, properties = NULL, parent = par, bound_device = NULL, nname = name\<rparr>)"
    "node_links s1 = (node_links s)(n := zero_links)" "props s1 = props s" "prop_links s1 = prop_links s" "blocks s1 = blocks s" "answers s1 = ans"
    by (simp_all add: s1_def)
  note al = dt_ok_alone[OF ok n s1(1-5)]
  have call: "dt_node_alloc par name s = (if par \<noteq> NULL then andthen (insert_child par n s1) (\<lambda>s. Inr (n, s)) else Inr (n, s1))"
    using a n(1) by (simp add: dt_node_alloc_def dt_malloc_def next_answer_def s1_def)
  have fr1: "fresh_supply s' ?N ?P" if "props s' = props s" "answers s' = ans" for s'
    using fr a n that by (auto simp: fresh_supply_def unused_prop_def all_props_def split: if_splits)
  have v1: "view s1 (K(n := [])) ?P n = (name, Map.empty, Map.empty)" using al(2,3) by (simp add: view_def s1)
  have v1m: "view s1 (K(n := [])) ?P m = view s K P m" if "m \<in> N" for m using al(4,5)[OF that] that n(2) by (auto simp: view_def s1)
  show ?thesis
  proof (cases "par = NULL")
    case True
    then have "par \<notin> N" using ok by (simp add: dt_ok_def kids_ok_def)
    then show ?thesis using True call al(1) fr1[OF s1(3,6)] v1 v1m n(2) s1(6) by (intro exI[of _ s1] exI[of _ "K(n := [])"]) auto
  next
    case False
    then have pN: "par \<in> N" and new: "child_dict s K par name = None" using par by auto
    have kN: "c \<in> N" if "m \<in> N" "c \<in> set (K m)" for m c using ok that by (auto simp: dt_ok_def kids_ok_def)
    have out: "n \<notin> set ((K(n := [])) m)" if "m \<in> ?N" for m using that n(2) kN[of m n] by auto
    have nm: "\<forall>x\<in>set ((K(n := [])) par). nname (nodes s1 x) \<noteq> nname (nodes s1 n)"
      using new kN[OF pN] n(2) pN by (auto simp: s1 child_dict_def dict_def map_of_eq_None_iff image_iff)
    have "parent (nodes s1 n) = par" "par \<in> ?N" "n \<in> ?N" "c_string (nname (nodes s1 n))" using pN name by (simp_all add: s1)
    then obtain s' as bs where s': "insert_child par n s1 = Inr s'" "dt_ok s' ?N ((K(n := []))(par := as @ n # bs)) ?P"
      "child_dict s' ((K(n := []))(par := as @ n # bs)) par = (child_dict s1 (K(n := [])) par)(nname (nodes s1 n) \<mapsto> n)"
      "\<And>m. m \<noteq> par \<Longrightarrow> child_dict s' ((K(n := []))(par := as @ n # bs)) m = child_dict s1 (K(n := [])) m"
      "\<And>m. prop_dict s' ?P m = prop_dict s1 ?P m" "\<And>m. nname (nodes s' m) = nname (nodes s1 m)" "props s' = props s1" "answers s' = answers s1"
      using insert_child_ok[OF al(1) _ _ _ out _ nm] by metis
    let ?K = "(K(n := []))(par := as @ n # bs)"
    have "view s' ?K ?P m = (if m = par then add_kid name n (view s1 (K(n := [])) ?P m) else view s1 (K(n := [])) ?P m)" for m
      using s'(3-6) by (auto simp: view_def add_kid_def s1)
    then show ?thesis using call False s'(1,2) s'(7,8) fr1[of s'] v1 v1m n(2) s1(3,6) pN by (intro exI[of _ s'] exI[of _ ?K]) auto
  qed
qed

text \<open>A new property, in the same terms.\<close>

lemma set_property_view:
  assumes ok: "dt_ok s N K P" and n: "n \<in> N" and fr: "fresh_supply s N P" and name: "c_string name" "prop_dict s P n name = None"
    and v: "length val < 2 ^ 64" and a: "answers s = vp # p # ans"
  shows "\<exists>s' P'. dt_node_set_property n name val s = Inr (p, s') \<and> p \<noteq> NULL \<and> dt_ok s' N K P' \<and> fresh_supply s' N P' \<and> answers s' = ans \<and>
    prop_dict s' P' n = (prop_dict s P n)(name \<mapsto> val) \<and>
    view s' K P' n = (fst (view s K P n), (prop_dict s P n)(name \<mapsto> val), child_dict s K n) \<and> (\<forall>m\<in>N. m \<noteq> n \<longrightarrow> view s' K P' m = view s K P m)"
proof -
  have pok: "props_ok s N P" and kok: "kids_ok s N K" using ok by (auto simp: dt_ok_def)
  have nz: "vp \<noteq> NULL" "p \<noteq> NULL" using fr a by (auto simp: fresh_supply_def)
  have none: "dt_node_find_property n name s = Inr NULL" "\<forall>x\<in>set (P n). pname (props s x) \<noteq> name"
    using name(2) by (cases rule: find_property_cases[OF pok n name(1)]; simp)+
  obtain s' as bs where s': "dt_node_set_property n name val s = Inr (p, s')" "P n = as @ bs" "property_set s N P n name val p s' (P(n := as @ p # bs))"
    "answers s' = ans" "props s' = (props s)(p := \<lparr>value_len = of_nat (length val), pname = name, pvalue = vp\<rparr>)"
    using set_property_new[OF pok n name(1) none(2) v none(1) a nz fresh_supply_answers[OF fr]] by (elim exE conjE) (rule that)
  let ?P = "P(n := as @ p # bs)"
  have sn: "same_nodes s s'" and ps: "props_ok s' N ?P" "prop_dict s' ?P n = (prop_dict s P n)(name \<mapsto> val)"
    "\<forall>m\<in>N. m \<noteq> n \<longrightarrow> prop_dict s' ?P m = prop_dict s P m" using s'(3) by (auto simp: property_set_def)
  have "fresh_supply s' N ?P"
    using fr a s'(4,5) all_props_insert[of n N P as bs p] n s'(2) by (auto simp: fresh_supply_def unused_prop_def)
  moreover have "dt_ok s' N K ?P" using ps(1) kids_ok_same[OF kok sn] by (simp add: dt_ok_def)
  moreover have "view s' K ?P m = (fst (view s K P m), prop_dict s' ?P m, child_dict s K m)" for m
    by (simp add: view_def same_nodes_simps[OF sn] child_dict_same[OF sn])
  moreover have "view s K P m = (fst (view s K P m), prop_dict s P m, child_dict s K m)" for m by (simp add: view_def)
  ultimately show ?thesis using s'(1,4) nz(2) ps(2,3) by (intro exI[of _ s'] exI[of _ ?P]) metis
qed

end
