(* ===== verification/Dt_System_Correct.thy ===== *)
theory Dt_System_Correct
  imports Dt_System Dt_Nodes_Correct Memory_Map_Sequence
begin

text \<open>
  The enumeration of a flattened device tree builds exactly the tree that the blob encodes, and the
  ranges of memory that the start-up adds to the memory map.
\<close>

section \<open>Flattened trees\<close>

datatype fdt_tree = Fnode (fname: string) (fprops: "(string \<times> u8 list) list") (fkids: "fdt_tree list")

text \<open>What the functions of the library return on a blob with the tree at an offset.\<close>

fun prop_chain :: "fdt_lib \<Rightarrow> int \<Rightarrow> (string \<times> u8 list) list \<Rightarrow> bool" where
  "prop_chain lib off [] \<longleftrightarrow> off < 0"
| "prop_chain lib off ((nm, v) # ps) \<longleftrightarrow> 0 \<le> off \<and>
     (\<exists>no. fdt_get_property_by_offset lib off = Some (no, v) \<and> fdt_string lib (fdt32_to_cpu (order lib) no) = nm) \<and>
     prop_chain lib (fdt_next_property_offset lib off) ps"

function encodes :: "fdt_lib \<Rightarrow> int \<Rightarrow> fdt_tree \<Rightarrow> bool"
  and encodes_subs :: "fdt_lib \<Rightarrow> int \<Rightarrow> fdt_tree list \<Rightarrow> bool" where
  "encodes lib off (Fnode nm ps ts) \<longleftrightarrow> fdt_get_name lib off = nm \<and> prop_chain lib (fdt_first_property_offset lib off) ps \<and>
     encodes_subs lib (fdt_first_subnode lib off) ts"
| "encodes_subs lib off [] \<longleftrightarrow> off = - FDT_ERR_NOTFOUND"
| "encodes_subs lib off (t # ts) \<longleftrightarrow> off \<noteq> - FDT_ERR_NOTFOUND \<and> encodes lib off t \<and> encodes_subs lib (fdt_next_subnode lib off) ts"
  by pat_completeness auto

termination
  by (relation "measure (case_sum (\<lambda>(_, _, t). size t) (\<lambda>(_, _, ts). size_list size ts))") auto

text \<open>Names without zero bytes, no two properties and no two children of a node with the same name.\<close>

fun tree_ok :: "fdt_tree \<Rightarrow> bool" where
  "tree_ok (Fnode nm ps ts) \<longleftrightarrow> c_string nm \<and> distinct (map fst ps) \<and> (\<forall>(n, v)\<in>set ps. c_string n \<and> length v < 2 ^ 64) \<and>
     distinct (map fname ts) \<and> list_all tree_ok ts"

text \<open>The number of blocks a tree takes, and the bound that its enumeration needs.\<close>

fun cost :: "fdt_tree \<Rightarrow> nat" where
  "cost (Fnode nm ps ts) = Suc (2 * length ps + sum_list (map cost ts))"

function need :: "fdt_tree \<Rightarrow> nat" and need_subs :: "fdt_tree list \<Rightarrow> nat" where
  "need (Fnode nm ps ts) = Suc (max (length ps) (need_subs ts))"
| "need_subs [] = 1"
| "need_subs (t # ts) = Suc (max (need t) (need_subs ts))"
  by pat_completeness auto

termination
  by (relation "measure (case_sum size (size_list size))") auto

section \<open>Trees in memory\<close>

type_synonym node_view = "string \<times> (string \<rightharpoonup> u8 list) \<times> (string \<rightharpoonup> addr)"

text \<open>Node \<open>n\<close> and the nodes below it, all in \<open>M\<close>, hold the tree.\<close>

function holds :: "(addr \<Rightarrow> node_view) \<Rightarrow> addr set \<Rightarrow> addr \<Rightarrow> fdt_tree \<Rightarrow> bool"
  and holds_kids :: "(addr \<Rightarrow> node_view) \<Rightarrow> addr set \<Rightarrow> (string \<rightharpoonup> addr) \<Rightarrow> fdt_tree list \<Rightarrow> bool" where
  "holds V M n (Fnode nm ps ts) \<longleftrightarrow> n \<in> M \<and> (\<exists>cd. V n = (nm, map_of ps, cd) \<and> dom cd = fname ` set ts \<and> holds_kids V M cd ts)"
| "holds_kids V M cd [] \<longleftrightarrow> True"
| "holds_kids V M cd (t # ts) \<longleftrightarrow> (\<exists>c. cd (fname t) = Some c \<and> holds V M c t) \<and> holds_kids V M cd ts"
  by pat_completeness auto

termination
  by (relation "measure (case_sum (\<lambda>(_, _, _, t). size t) (\<lambda>(_, _, _, ts). size_list size ts))") auto

lemma holds_frame:
  "(\<And>m. m \<in> M \<Longrightarrow> V' m = V m) \<Longrightarrow> M \<subseteq> M' \<Longrightarrow> holds V M n t \<Longrightarrow> holds V' M' n t"
  "(\<And>m. m \<in> M \<Longrightarrow> V' m = V m) \<Longrightarrow> M \<subseteq> M' \<Longrightarrow> holds_kids V M cd ts \<Longrightarrow> holds_kids V' M' cd ts"
  by (induction V M n t and V M cd ts rule: holds_holds_kids.induct) auto

lemma holds_kids_cong: "(\<And>t. t \<in> set ts \<Longrightarrow> cd' (fname t) = cd (fname t)) \<Longrightarrow> holds_kids V M cd ts \<Longrightarrow> holds_kids V M cd' ts"
  by (induction ts) auto

section \<open>Properties of a node\<close>

lemma add_properties_ok:
  assumes "dt_ok s N K P" "n \<in> N" "fresh_supply s N P" "prop_chain lib off ps" "length ps < k" "2 * length ps \<le> length (answers s)"
    "distinct (map fst ps)" "\<forall>(nm, v)\<in>set ps. c_string nm \<and> length v < 2 ^ 64" "\<forall>nm\<in>fst ` set ps. prop_dict s P n nm = None"
  shows "\<exists>s' P'. add_properties k lib n off s = Inr s' \<and> dt_ok s' N K P' \<and> fresh_supply s' N P' \<and> answers s' = drop (2 * length ps) (answers s) \<and>
    view s' K P' n = (fst (view s K P n), prop_dict s P n ++ map_of ps, child_dict s K n) \<and> (\<forall>m\<in>N. m \<noteq> n \<longrightarrow> view s' K P' m = view s K P m)"
  using assms
proof (induction ps arbitrary: off k s P)
  case Nil
  then show ?case by (cases k) (auto simp: view_def)
next
  case (Cons x ps)
  obtain nm v where x: "x = (nm, v)" by (cases x)
  obtain k' where k: "k = Suc k'" using Cons.prems(5) by (cases k) auto
  have "2 \<le> length (answers s)" using Cons.prems(6) by simp
  then obtain vp p ans where a: "answers s = vp # p # ans" by (cases "answers s" rule: list.exhaust; cases "tl (answers s)" rule: list.exhaust) auto
  have nv: "c_string nm" "prop_dict s P n nm = None" "length v < 2 ^ 64" using Cons.prems(8,9) x by auto
  obtain s1 P1 where s1: "dt_node_set_property n nm v s = Inr (p, s1)" "p \<noteq> NULL" "dt_ok s1 N K P1" "fresh_supply s1 N P1" "answers s1 = ans"
    "prop_dict s1 P1 n = (prop_dict s P n)(nm \<mapsto> v)" "view s1 K P1 n = (fst (view s K P n), (prop_dict s P n)(nm \<mapsto> v), child_dict s K n)"
    "\<forall>m\<in>N. m \<noteq> n \<longrightarrow> view s1 K P1 m = view s K P m"
    using set_property_view[OF Cons.prems(1-3) nv a] by (elim exE conjE) (rule that)
  have step: "add_properties k lib n off s = add_properties k' lib n (fdt_next_property_offset lib off) s1"
    using Cons.prems(4) x k s1(1,2) by auto
  have rest: "\<forall>nm'\<in>fst ` set ps. prop_dict s1 P1 n nm' = None" using Cons.prems(7,9) x s1(6) by force
  have "length ps < k'" "2 * length ps \<le> length (answers s1)" using Cons.prems(5,6) k a s1(5) by simp_all
  then obtain s' P' where s': "add_properties k' lib n (fdt_next_property_offset lib off) s1 = Inr s'" "dt_ok s' N K P'" "fresh_supply s' N P'"
    "answers s' = drop (2 * length ps) (answers s1)" "view s' K P' n = (fst (view s1 K P1 n), prop_dict s1 P1 n ++ map_of ps, child_dict s1 K n)"
    "\<forall>m\<in>N. m \<noteq> n \<longrightarrow> view s' K P' m = view s1 K P1 m"
    using Cons.IH[OF s1(3) Cons.prems(2) s1(4), of "fdt_next_property_offset lib off" k'] Cons.prems(4,7,8) x rest by auto
  have "map_of ps nm = None" using Cons.prems(7) x by (simp add: map_of_eq_None_iff)
  then have "(prop_dict s P n)(nm \<mapsto> v) ++ map_of ps = prop_dict s P n ++ map_of (x # ps)"
    using x by (auto simp: fun_eq_iff map_add_def split: option.splits)
  moreover have "child_dict s1 K n = child_dict s K n" using s1(7) by (simp add: view_def)
  ultimately have "view s' K P' n = (fst (view s K P n), prop_dict s P n ++ map_of (x # ps), child_dict s K n)" using s'(5) s1(6,7) by simp
  moreover have "answers s' = drop (2 * length (x # ps)) (answers s)" using s'(4) s1(5) a by simp
  moreover have "\<forall>m\<in>N. m \<noteq> n \<longrightarrow> view s' K P' m = view s K P m" using s'(6) s1(8) by simp
  moreover have "add_properties k lib n off s = Inr s'" using step s'(1) by simp
  ultimately show ?case using s'(2,3) by (intro exI[of _ s'] exI[of _ P'] conjI)
qed

section \<open>Nodes\<close>

text \<open>The contract of the enumeration of a subtree below \<open>par\<close>, and of the subtrees below \<open>n\<close>.\<close>

definition adds_tree :: "fdt_lib \<Rightarrow> fdt_tree \<Rightarrow> bool" where
  "adds_tree lib t \<longleftrightarrow> (\<forall>k par off s N K P. need t \<le> k \<and> encodes lib off t \<and> tree_ok t \<and> dt_ok s N K P \<and> fresh_supply s N P \<and>
     cost t \<le> length (answers s) \<and> (par = NULL \<or> par \<in> N \<and> child_dict s K par (fname t) = None) \<longrightarrow>
     (\<exists>n s' N' K' P'. add_device_fdt k lib par off s = Inr (n, s') \<and> dt_ok s' N' K' P' \<and> fresh_supply s' N' P' \<and>
        answers s' = drop (cost t) (answers s) \<and> N \<subseteq> N' \<and> holds (view s' K' P') (N' - N) n t \<and>
        (\<forall>m\<in>N. view s' K' P' m = (if m = par then add_kid (fname t) n (view s K P m) else view s K P m))))"

lemma adds_treeD:
  assumes "adds_tree lib t" "need t \<le> k" "encodes lib off t" "tree_ok t" "dt_ok s N K P" "fresh_supply s N P" "cost t \<le> length (answers s)"
    "par = NULL \<or> par \<in> N \<and> child_dict s K par (fname t) = None"
  obtains n s' N' K' P' where "add_device_fdt k lib par off s = Inr (n, s')" "dt_ok s' N' K' P'" "fresh_supply s' N' P'"
    "answers s' = drop (cost t) (answers s)" "N \<subseteq> N'" "holds (view s' K' P') (N' - N) n t"
    "\<And>m. m \<in> N \<Longrightarrow> view s' K' P' m = (if m = par then add_kid (fname t) n (view s K P m) else view s K P m)"
proof -
  have "need t \<le> k \<and> encodes lib off t \<and> tree_ok t \<and> dt_ok s N K P \<and> fresh_supply s N P \<and>
     cost t \<le> length (answers s) \<and> (par = NULL \<or> par \<in> N \<and> child_dict s K par (fname t) = None)" using assms(2-8) by simp
  note h = assms(1)[unfolded adds_tree_def, THEN spec[of _ k], THEN spec[of _ par], THEN spec[of _ off], THEN spec[of _ s],
    THEN spec[of _ N], THEN spec[of _ K], THEN spec[of _ P], THEN mp, OF this]
  obtain n s' N' K' P' where r: "add_device_fdt k lib par off s = Inr (n, s')" "dt_ok s' N' K' P'" "fresh_supply s' N' P'"
    "answers s' = drop (cost t) (answers s)" "N \<subseteq> N'" "holds (view s' K' P') (N' - N) n t"
    "\<forall>m\<in>N. view s' K' P' m = (if m = par then add_kid (fname t) n (view s K P m) else view s K P m)"
    using h by (elim exE conjE) (rule that)
  show thesis by (rule that[OF r(1-6)]) (rule r(7)[THEN bspec])
qed

lemma add_subnodes_ok:
  assumes "list_all (adds_tree lib) ts" "need_subs ts \<le> k" "encodes_subs lib off ts" "list_all tree_ok ts" "distinct (map fname ts)"
    "dt_ok s N K P" "fresh_supply s N P" "sum_list (map cost ts) \<le> length (answers s)" "n \<in> N" "\<forall>t\<in>set ts. child_dict s K n (fname t) = None"
  shows "\<exists>s' N' K' P' cd. add_subnodes k lib n off s = Inr s' \<and> dt_ok s' N' K' P' \<and> fresh_supply s' N' P' \<and>
    answers s' = drop (sum_list (map cost ts)) (answers s) \<and> N \<subseteq> N' \<and> (\<forall>m\<in>N. m \<noteq> n \<longrightarrow> view s' K' P' m = view s K P m) \<and>
    view s' K' P' n = (fst (view s K P n), prop_dict s P n, cd) \<and> dom cd = dom (child_dict s K n) \<union> fname ` set ts \<and>
    (\<forall>nm. nm \<notin> fname ` set ts \<longrightarrow> cd nm = child_dict s K n nm) \<and> holds_kids (view s' K' P') (N' - N) cd ts"
  using assms
proof (induction ts arbitrary: k off s N K P)
  case Nil
  then show ?case by (cases k) (auto simp: view_def)
next
  case (Cons t ts)
  obtain k' where k: "k = Suc k'" "need t \<le> k'" "need_subs ts \<le> k'" using Cons.prems(2) by (cases k) auto
  have par: "n = NULL \<or> n \<in> N \<and> child_dict s K n (fname t) = None" using Cons.prems(9,10) by simp
  have c: "adds_tree lib t" "encodes lib off t" "tree_ok t" "cost t \<le> length (answers s)" using Cons.prems by simp_all
  obtain c s1 N1 K1 P1 where s1: "add_device_fdt k' lib n off s = Inr (c, s1)" "dt_ok s1 N1 K1 P1" "fresh_supply s1 N1 P1"
    "answers s1 = drop (cost t) (answers s)" "N \<subseteq> N1" "holds (view s1 K1 P1) (N1 - N) c t"
    "\<And>m. m \<in> N \<Longrightarrow> view s1 K1 P1 m = (if m = n then add_kid (fname t) c (view s K P m) else view s K P m)"
    by (rule adds_treeD[OF c(1) k(2) c(2,3) Cons.prems(6,7) c(4) par]) (rule that)
  have v1: "view s1 K1 P1 n = (fst (view s K P n), prop_dict s P n, (child_dict s K n)(fname t \<mapsto> c))"
    using s1(7)[OF Cons.prems(9)] by (simp add: view_def add_kid_def)
  then have d1: "prop_dict s1 P1 n = prop_dict s P n" "child_dict s1 K1 n = (child_dict s K n)(fname t \<mapsto> c)" by (simp_all add: view_def)
  have pre: "list_all (adds_tree lib) ts" "encodes_subs lib (fdt_next_subnode lib off) ts" "list_all tree_ok ts" "distinct (map fname ts)"
    "sum_list (map cost ts) \<le> length (answers s1)" "n \<in> N1" "\<forall>t'\<in>set ts. child_dict s1 K1 n (fname t') = None"
    using Cons.prems s1(4,5) d1(2) by (auto simp: image_iff)
  obtain s' N' K' P' cd where s': "add_subnodes k' lib n (fdt_next_subnode lib off) s1 = Inr s'" "dt_ok s' N' K' P'" "fresh_supply s' N' P'"
    "answers s' = drop (sum_list (map cost ts)) (answers s1)" "N1 \<subseteq> N'" "\<forall>m\<in>N1. m \<noteq> n \<longrightarrow> view s' K' P' m = view s1 K1 P1 m"
    "view s' K' P' n = (fst (view s1 K1 P1 n), prop_dict s1 P1 n, cd)" "dom cd = dom (child_dict s1 K1 n) \<union> fname ` set ts"
    "\<forall>nm. nm \<notin> fname ` set ts \<longrightarrow> cd nm = child_dict s1 K1 n nm" "holds_kids (view s' K' P') (N' - N1) cd ts"
    using Cons.IH[OF pre(1) k(3) pre(2-4) s1(2,3) pre(5-7)] by (elim exE conjE) (rule that)
  have eq: "view s' K' P' m = view s1 K1 P1 m" if "m \<in> N1 - N" for m
  proof -
    have "m \<noteq> n" using that Cons.prems(9) by auto
    then show ?thesis using that s'(6) by simp
  qed
  have "holds (view s' K' P') (N' - N) c t" by (rule holds_frame(1)[OF eq _ s1(6)]) (use s'(5) in auto)
  moreover have "cd (fname t) = Some c" using s'(9) d1(2) Cons.prems(5) by (simp add: image_iff)
  moreover have "holds_kids (view s' K' P') (N' - N) cd ts" by (rule holds_frame(2)[OF refl _ s'(10)]) (use s1(5) in auto)
  ultimately have "holds_kids (view s' K' P') (N' - N) cd (t # ts)" by simp
  moreover have "add_subnodes k lib n off s = Inr s'" using k(1) Cons.prems(3) s1(1) s'(1) by simp
  moreover have "answers s' = drop (sum_list (map cost (t # ts))) (answers s)" using s'(4) s1(4) by (simp add: add.commute)
  moreover have "\<forall>m\<in>N. m \<noteq> n \<longrightarrow> view s' K' P' m = view s K P m" using s'(6) s1(5,7) by auto
  moreover have "view s' K' P' n = (fst (view s K P n), prop_dict s P n, cd)" using s'(7) v1 d1(1) by simp
  moreover have "dom cd = dom (child_dict s K n) \<union> fname ` set (t # ts)" using s'(8) d1(2) by auto
  moreover have "\<forall>nm. nm \<notin> fname ` set (t # ts) \<longrightarrow> cd nm = child_dict s K n nm" using s'(9) d1(2) by simp
  moreover have "N \<subseteq> N'" using s1(5) s'(5) by blast
  ultimately show ?case using s'(2,3) by (intro exI[of _ s'] exI[of _ N'] exI[of _ K'] exI[of _ P'] exI[of _ cd] conjI)
qed

lemma adds_tree_all: "adds_tree lib t"
proof (induction t)
  case (Fnode nm ps ts)
  then have IH: "list_all (adds_tree lib) ts" by (simp add: list_all_iff)
  show ?case unfolding adds_tree_def
  proof (intro allI impI, elim conjE)
    fix k par off s N K P
    assume k: "need (Fnode nm ps ts) \<le> k" and enc: "encodes lib off (Fnode nm ps ts)" and tok: "tree_ok (Fnode nm ps ts)" and ok: "dt_ok s N K P"
      and fr: "fresh_supply s N P" and c: "cost (Fnode nm ps ts) \<le> length (answers s)"
      and par: "par = NULL \<or> par \<in> N \<and> child_dict s K par (fname (Fnode nm ps ts)) = None"
    obtain k' where k': "k = Suc k'" "length ps \<le> k'" "need_subs ts \<le> k'" using k by (cases k) auto
    obtain n ans where a: "answers s = n # ans" using c by (cases "answers s") auto
    have nm: "c_string nm" and nz: "n \<noteq> NULL" using tok fr a by (auto simp: fresh_supply_def)
    obtain s1 K1 where s1: "dt_node_alloc par nm s = Inr (n, s1)" "dt_ok s1 (insert n N) K1 (P(n := []))" "answers s1 = ans"
      "fresh_supply s1 (insert n N) (P(n := []))" "n \<notin> N" "view s1 K1 (P(n := [])) n = (nm, Map.empty, Map.empty)"
      "\<forall>m\<in>N. view s1 K1 (P(n := [])) m = (if m = par then add_kid nm n (view s K P m) else view s K P m)"
      using node_alloc_ok[OF ok a fr nm par[simplified]] by (elim exE conjE) (rule that)
    have v1: "fst (view s1 K1 (P(n := [])) n) = nm" "prop_dict s1 (P(n := [])) n = Map.empty" "child_dict s1 K1 n = Map.empty"
      using s1(6) by (simp_all add: view_def)
    have pre: "prop_chain lib (fdt_first_property_offset lib off) ps" "length ps < Suc k'" "2 * length ps \<le> length (answers s1)"
      "distinct (map fst ps)" "\<forall>(nm, v)\<in>set ps. c_string nm \<and> length v < 2 ^ 64" "\<forall>nm\<in>fst ` set ps. prop_dict s1 (P(n := [])) n nm = None"
      using enc tok c a k'(2) s1(3) v1(2) by auto
    obtain s2 P2 where s2: "add_properties (Suc k') lib n (fdt_first_property_offset lib off) s1 = Inr s2" "dt_ok s2 (insert n N) K1 P2"
      "fresh_supply s2 (insert n N) P2" "answers s2 = drop (2 * length ps) (answers s1)"
      "view s2 K1 P2 n = (fst (view s1 K1 (P(n := [])) n), prop_dict s1 (P(n := [])) n ++ map_of ps, child_dict s1 K1 n)"
      "\<forall>m\<in>insert n N. m \<noteq> n \<longrightarrow> view s2 K1 P2 m = view s1 K1 (P(n := [])) m"
      using add_properties_ok[OF s1(2) insertI1 s1(4) pre] by (elim exE conjE) (rule that)
    have v2: "fst (view s2 K1 P2 n) = nm" "prop_dict s2 P2 n = map_of ps" "child_dict s2 K1 n = Map.empty"
      using s2(5) unfolding v1 by (simp_all add: view_def)
    have pre2: "encodes_subs lib (fdt_first_subnode lib off) ts" "list_all tree_ok ts" "distinct (map fname ts)"
      "sum_list (map cost ts) \<le> length (answers s2)" "\<forall>t\<in>set ts. child_dict s2 K1 n (fname t) = None"
      using enc tok c a s2(4) s1(3) v2(3) by auto
    obtain s' N' K' P' cd where s': "add_subnodes k' lib n (fdt_first_subnode lib off) s2 = Inr s'" "dt_ok s' N' K' P'" "fresh_supply s' N' P'"
      "answers s' = drop (sum_list (map cost ts)) (answers s2)" "insert n N \<subseteq> N'" "\<forall>m\<in>insert n N. m \<noteq> n \<longrightarrow> view s' K' P' m = view s2 K1 P2 m"
      "view s' K' P' n = (fst (view s2 K1 P2 n), prop_dict s2 P2 n, cd)" "dom cd = dom (child_dict s2 K1 n) \<union> fname ` set ts"
      "holds_kids (view s' K' P') (N' - insert n N) cd ts"
      using add_subnodes_ok[OF IH k'(3) pre2(1-3) s2(2,3) pre2(4) insertI1 pre2(5)] by (elim exE conjE) (rule that)
    have "add_device_fdt k lib par off s = Inr (n, s')" using k'(1) enc s1(1) nz s2(1) s'(1) by simp
    moreover have "answers s' = drop (cost (Fnode nm ps ts)) (answers s)" using s'(4) s2(4) s1(3) a by (simp add: add.commute)
    moreover have "holds_kids (view s' K' P') (N' - N) cd ts" by (rule holds_frame(2)[OF refl _ s'(9)]) auto
    then have "holds (view s' K' P') (N' - N) n (Fnode nm ps ts)" using s'(5,7,8) s1(5) v2 by auto
    moreover have "\<forall>m\<in>N. view s' K' P' m = (if m = par then add_kid (fname (Fnode nm ps ts)) n (view s K P m) else view s K P m)"
      using s'(6) s2(6) s1(5,7) by auto
    moreover have "N \<subseteq> N'" using s'(5) by blast
    ultimately show "\<exists>n s' N' K' P'. add_device_fdt k lib par off s = Inr (n, s') \<and> dt_ok s' N' K' P' \<and> fresh_supply s' N' P' \<and>
        answers s' = drop (cost (Fnode nm ps ts)) (answers s) \<and> N \<subseteq> N' \<and> holds (view s' K' P') (N' - N) n (Fnode nm ps ts) \<and>
        (\<forall>m\<in>N. view s' K' P' m = (if m = par then add_kid (fname (Fnode nm ps ts)) n (view s K P m) else view s K P m))"
      using s'(2,3) by (intro exI[of _ n] exI[of _ s'] exI[of _ N'] exI[of _ K'] exI[of _ P'] conjI)
  qed
qed

section \<open>What the interface shows\<close>

text \<open>The tree as the functions of the device tree show it to a driver.\<close>

definition shows_property :: "dt_state \<Rightarrow> addr \<Rightarrow> string \<Rightarrow> u8 list option \<Rightarrow> bool" where
  "shows_property s n name v \<longleftrightarrow> (\<exists>a. dt_node_get_property n name s = Inr a \<and> (case v of None \<Rightarrow> a = NULL | Some b \<Rightarrow> a \<noteq> NULL \<and> blocks s a = b))"

function presents :: "dt_state \<Rightarrow> addr \<Rightarrow> fdt_tree \<Rightarrow> bool" and presents_kids :: "dt_state \<Rightarrow> addr \<Rightarrow> fdt_tree list \<Rightarrow> bool" where
  "presents s n (Fnode nm ps ts) \<longleftrightarrow> nname (nodes s n) = nm \<and> (\<forall>name. c_string name \<longrightarrow> shows_property s n name (map_of ps name)) \<and>
     (\<forall>name. c_string name \<and> name \<notin> fname ` set ts \<longrightarrow> dt_node_find_child n name s = Inr NULL) \<and> presents_kids s n ts"
| "presents_kids s n [] \<longleftrightarrow> True"
| "presents_kids s n (t # ts) \<longleftrightarrow> (\<exists>c. dt_node_find_child n (fname t) s = Inr c \<and> c \<noteq> NULL \<and> presents s c t) \<and> presents_kids s n ts"
  by pat_completeness auto

termination
  by (relation "measure (case_sum (\<lambda>(_, _, t). size t) (\<lambda>(_, _, ts). size_list size ts))") auto

lemma holds_in: "holds V M n t \<Longrightarrow> n \<in> M"
  by (cases t) simp

lemma tree_ok_name: "tree_ok t \<Longrightarrow> c_string (fname t)"
  by (cases t) simp

lemma holds_presents:
  assumes "dt_ok s N K P"
  shows "V = view s K P \<Longrightarrow> M \<subseteq> N \<Longrightarrow> tree_ok t \<Longrightarrow> holds V M n t \<Longrightarrow> presents s n t"
    "V = view s K P \<Longrightarrow> M \<subseteq> N \<Longrightarrow> list_all tree_ok ts \<Longrightarrow> holds_kids V M cd ts \<Longrightarrow>
      \<forall>n'. n' \<in> N \<and> child_dict s K n' = cd \<longrightarrow> presents_kids s n' ts"
proof (induction V M n t and V M cd ts rule: holds_holds_kids.induct)
  case (1 V M n nm ps ts)
  obtain cd where cd: "V n = (nm, map_of ps, cd)" "dom cd = fname ` set ts" "holds_kids V M cd ts" and n: "n \<in> N" using 1(3,5) by auto
  have v: "nname (nodes s n) = nm" "prop_dict s P n = map_of ps" "child_dict s K n = cd" using cd(1) 1(2) by (simp_all add: view_def)
  have p: "props_ok s N P" and k: "kids_ok s N K" using assms by (auto simp: dt_ok_def)
  have "shows_property s n name (map_of ps name)" if "c_string name" for name
    using get_property_value(2)[OF p n that] v(2) by (simp add: shows_property_def)
  moreover have "dt_node_find_child n name s = Inr NULL" if "c_string name" "name \<notin> fname ` set ts" for name
    using find_child_dict[OF k n that(1)] v(3) cd(2) that(2) by (simp add: domIff flip: cd(2))
  moreover have "presents_kids s n ts" using 1(1)[of cd] 1(2-4) cd(3) n v(3) by simp
  ultimately show ?case using v(1) by simp
next
  case (3 V M cd t ts)
  then obtain c where c: "cd (fname t) = Some c" "holds V M c t" by auto
  have cN: "c \<in> N" using holds_in[OF c(2)] 3(4) by auto
  then have nz: "c \<noteq> NULL" using assms by (auto simp: dt_ok_def kids_ok_def)
  have p: "presents s c t" using 3(1)[of c] 3(3-5) c(2) by simp
  show ?case
  proof (intro allI impI)
    fix n' assume n': "n' \<in> N \<and> child_dict s K n' = cd"
    have "dt_node_find_child n' (fname t) s = Inr c"
      using find_child_dict[of s N K n' "fname t"] assms n' 3(5) c(1) tree_ok_name[of t] by (simp add: dt_ok_def)
    moreover have "presents_kids s n' ts" using 3(2) 3(3-6) n' by simp
    ultimately show "presents_kids s n' (t # ts)" using nz p by auto
  qed
qed simp

section \<open>Memory\<close>

lemma add_reservations_list: "add_reservations d lib is m = add_list d m (map (reserved_entry lib) is)"
proof (induction "is" arbitrary: m)
  case (Cons i "is")
  then have "add_reservations d lib is = (\<lambda>m. add_list d m (map (reserved_entry lib) is))" by (simp add: fun_eq_iff)
  then show ?case by simp
qed simp

text \<open>The ranges in the value of \<open>reg\<close>, each of \<open>ac + sc\<close> cells.\<close>

definition memory_ranges :: "fdt_lib \<Rightarrow> u8 list \<Rightarrow> u32 \<Rightarrow> u32 \<Rightarrow> (u64 \<times> u64) list \<Rightarrow> bool" where
  "memory_ranges lib b ac sc rs \<longleftrightarrow> length b = 4 * unat (ac + sc) * length rs \<and> unat (ac + sc) = unat ac + unat sc \<and> 0 < unat (ac + sc) \<and>
     (\<forall>j < length rs. cell_value lib b ac (unat (ac + sc) * j) = Inr (fst (rs ! j)) \<and>
        cell_value lib b sc (unat (ac + sc) * j + unat ac) = Inr (snd (rs ! j)))"

lemma add_memory_from:
  assumes r: "memory_ranges lib b ac sc rs" and "j \<le> length rs" "length rs - j < k"
  shows "add_memory k d lib (int (length b), b) ac sc (unat (ac + sc) * j) m = add_list d m (map (case_prod memory_entry) (drop j rs))"
  using assms(2,3)
proof (induction "length rs - j" arbitrary: j k m)
  case 0
  then obtain k' where "k = Suc k'" by (cases k) auto
  moreover have "length b = 4 * (unat (ac + sc) * length rs)" using r unfolding memory_ranges_def by (simp add: mult.assoc)
  then have "int (length b) div 4 = int (unat (ac + sc) * length rs)" by linarith
  ultimately show ?case using 0 by simp
next
  case (Suc l)
  then obtain k' where k: "k = Suc k'" by (cases k) auto
  have j: "j < length rs" using Suc.hyps(2) by simp
  have "0 < unat (ac + sc)" using r unfolding memory_ranges_def by blast
  then have "unat (ac + sc) * j < unat (ac + sc) * length rs" using j by (rule mult_less_mono2[rotated])
  moreover have "length b = 4 * (unat (ac + sc) * length rs)" using r unfolding memory_ranges_def by (simp add: mult.assoc)
  ultimately have lt: "int (unat (ac + sc) * j) < int (length b) div 4" by linarith
  have v: "cell_value lib b ac (unat (ac + sc) * j) = Inr (fst (rs ! j))" "cell_value lib b sc (unat (ac + sc) * j + unat ac) = Inr (snd (rs ! j))"
    using r j unfolding memory_ranges_def by blast+
  have IH: "add_memory k' d lib (int (length b), b) ac sc (unat (ac + sc) * j + unat (ac + sc)) = (\<lambda>m. add_list d m (map (case_prod memory_entry) (drop (Suc j) rs)))"
    using Suc.hyps(1)[of "Suc j" k'] Suc.hyps(2) Suc.prems k by (simp add: fun_eq_iff add.commute)
  have d: "drop j rs = rs ! j # drop (Suc j) rs" using j by (simp add: Cons_nth_drop_Suc)
  show ?case unfolding k add_memory.simps fst_conv snd_conv v andthen_simps IH d using lt by (simp add: split_beta)
qed

end
