(* ===== verification/Dt_Device.thy ===== *)
theory Dt_Device
  imports Dt_Tree
begin

text \<open>
  The operations of devices that stand for nodes of the device tree (\<^verbatim>\<open>bal/device/dt/dt_device.c\<close>) and
  the driver of simple buses (\<^verbatim>\<open>bal/device/bus/simple-bus/simple-bus.c\<close>).  The node of a device is asked
  for through a generated call, the parameter \<open>dt_node_of\<close>: an error number and the node.
\<close>

section \<open>Strings\<close>

definition ENOENT :: int where
  "ENOENT = 2"

definition ERANGE :: int where
  "ERANGE = 34"

text \<open>The contents of the buffer up to the terminating zero, and the return value of \<open>strlcpy\<close>.\<close>

definition strlcpy :: "string \<Rightarrow> string \<Rightarrow> nat \<Rightarrow> string \<times> nat" where
  "strlcpy buf src sz = (if sz = 0 then buf else take (sz - 1) src, length src)"

definition strlcat :: "string \<Rightarrow> string \<Rightarrow> nat \<Rightarrow> string" where
  "strlcat buf src sz = (if length buf < sz then buf @ take (sz - 1 - length buf) src else buf)"

section \<open>Devices of nodes\<close>

text \<open>The results are the return value, the buffer and the size needed, where the code stores one.\<close>

definition dt_device_get_name ::
  "(addr \<Rightarrow> int \<times> addr) \<Rightarrow> dt_state \<Rightarrow> addr \<Rightarrow> string \<Rightarrow> nat \<Rightarrow> nat \<Rightarrow> (int \<times> string \<times> nat) outcome" where
  "dt_device_get_name dt_node_of s dev buf szBuf szNeeded =
     (let (rv, node) = dt_node_of dev in
      if rv \<noteq> 0 then Inr (rv, buf, szNeeded)
      else if node = NULL then Inl Crash
      else let (buf, needed) = strlcpy buf (nname (nodes s node)) szBuf in Inr (0, buf, needed))"

definition dt_device_get_parent :: "(addr \<Rightarrow> int \<times> addr) \<Rightarrow> dt_state \<Rightarrow> addr \<Rightarrow> addr \<Rightarrow> (int \<times> addr) outcome" where
  "dt_device_get_parent dt_node_of s dev pparent =
     (let (rv, node) = dt_node_of dev in
      if rv \<noteq> 0 then Inr (rv, pparent)
      else if node = NULL then Inl Crash
      else if parent (nodes s node) \<noteq> NULL then Inr (0, bound_device (nodes s (parent (nodes s node))))
      else Inr (ENOENT, pparent))"

text \<open>The path of the parent is asked for through its device, whose base operations are these again.\<close>

fun dt_device_get_path ::
  "nat \<Rightarrow> (addr \<Rightarrow> int \<times> addr) \<Rightarrow> dt_state \<Rightarrow> addr \<Rightarrow> string \<Rightarrow> nat \<Rightarrow> nat \<Rightarrow> (int \<times> string \<times> nat) outcome" where
  "dt_device_get_path 0 dt_node_of s dev buf szBuf szNeeded = Inl Fuel"
| "dt_device_get_path (Suc k) dt_node_of s dev buf szBuf szNeeded =
     (let (rv, node) = dt_node_of dev in
      if rv \<noteq> 0 then Inr (rv, buf, szNeeded)
      else if node = NULL then Inl Crash
      else
        (let name = nname (nodes s node);
             last = (\<lambda>(buf, needed). Inr (0, strlcat buf name szBuf, needed + length name)) in
         if parent (nodes s node) \<noteq> NULL then
           (let par = bound_device (nodes s (parent (nodes s node))) in
            if par = NULL then Inr (ENOENT, buf, szNeeded)
            else andthen (dt_device_get_path k dt_node_of s par buf szBuf szNeeded) (\<lambda>(rv, buf, needed).
              if rv \<noteq> 0 then Inr (rv, buf, needed) else last (buf, needed)))
         else last (strlcpy buf ''/'' szBuf)))"

section \<open>Simple buses\<close>

text \<open>The address and the length that are stored through the pointers, or the error.\<close>

definition sb_bus_get_child_reg_addr ::
  "(addr \<Rightarrow> int \<times> addr) \<Rightarrow> fdt_order \<Rightarrow> dt_state \<Rightarrow> addr \<Rightarrow> u32 \<Rightarrow> u64 \<times> u64 \<Rightarrow> (int + u64 \<times> u64) outcome" where
  "sb_bus_get_child_reg_addr dt_node_of fo s child idx uninit =
     (let (rv, node) = dt_node_of child in
      if rv \<noteq> 0 then Inr (Inl rv)
      else andthen (dt_node_get_reg_range fo node idx uninit s) (\<lambda>(found, base, sz).
        Inr (if found then Inr (base, sz) else Inl ERANGE)))"

definition sb_bus_get_child_reg_count :: "(addr \<Rightarrow> int \<times> addr) \<Rightarrow> fdt_order \<Rightarrow> dt_state \<Rightarrow> addr \<Rightarrow> (int + u32) outcome" where
  "sb_bus_get_child_reg_count dt_node_of fo s child =
     (let (rv, node) = dt_node_of child in
      if rv \<noteq> 0 then Inr (Inl rv) else andthen (dt_node_get_reg_count fo node s) (\<lambda>count. Inr (Inr count)))"

record simple_bus_dev =
  sb_self :: addr
  sb_node :: addr

definition sb_driver_attach :: "fdt_order \<Rightarrow> addr \<Rightarrow> dt_state \<Rightarrow> (simple_bus_dev option \<times> dt_state) outcome" where
  "sb_driver_attach fo node s =
     (let (self, s) = dt_malloc s in
      if self = NULL then Inr (None, s)
      else andthen (dt_node_get_address_cells fo node s) (\<lambda>addr_cells.
        andthen (dt_node_get_size_cells fo node s) (\<lambda>size_cells.
          if addr_cells < 1 \<or> addr_cells > 2 then Inl (Panic ''simple-bus with address cells'')
          else if size_cells < 1 \<or> size_cells > 2 then Inl (Panic ''simple-bus with size cells'')
          else Inr (Some \<lparr>sb_self = self, sb_node = node\<rparr>, s))))"

end
