(* ===== verification/Dt_Regs_Correct.thy ===== *)
theory Dt_Regs_Correct
  imports Dt_Nodes_Correct Dt_Device
begin

text \<open>
  The register windows of a node in terms of the dictionaries of the node and its parent, and the
  path of a device in terms of the names of the nodes above it.
\<close>

section \<open>Typed values\<close>

text \<open>What \<open>dt_node_get_address_cells\<close> and \<open>dt_node_get_size_cells\<close> make of the value of a property.\<close>

definition cells_of :: "fdt_order \<Rightarrow> string \<Rightarrow> u8 list option \<Rightarrow> u32 outcome" where
  "cells_of fo msg v = (case v of None \<Rightarrow> Inl (Panic msg)
     | Some b \<Rightarrow> if length b \<noteq> 4 then Inl (Panic ''dt_property_get_uint32: property not 32-bit'') else Inr (fdt32_to_cpu fo (le_word b)))"

lemma of_nat_u64_eq: "n < 2 ^ 64 \<Longrightarrow> m < 2 ^ 64 \<Longrightarrow> (of_nat n :: u64) = of_nat m \<longleftrightarrow> n = m"
  by (simp add: word_unat_eq_iff unsigned_of_nat take_bit_nat_eq_self)

lemma unat_ucast_u64: "unat (ucast (x :: u32) :: u64) = unat x"
proof -
  have "unat x < 2 ^ LENGTH(32)" by (rule unsigned_less)
  then show ?thesis by (simp add: unat_ucast_mod)
qed

lemma prop_value:
  assumes "props_ok s N P" "n \<in> N" "p \<in> set (P n)"
  shows "value_len (props s p) = of_nat (length (value_of s p))" "length (value_of s p) < 2 ^ 64"
  using assms props_okD(4)[OF assms] by (auto simp: props_ok_def)

lemma get_uint32_value:
  assumes "props_ok s N P" "n \<in> N" "p \<in> set (P n)"
  shows "dt_property_get_uint32 fo p s =
    (if length (value_of s p) \<noteq> 4 then Inl (Panic ''dt_property_get_uint32: property not 32-bit'') else Inr (fdt32_to_cpu fo (le_word (value_of s p))))"
  using prop_value[OF assms] of_nat_u64_eq[of "length (value_of s p)" 4] by (simp add: dt_property_get_uint32_def value_of_def)

lemma address_cells_dict:
  assumes "props_ok s N P" "n \<in> N"
  shows "dt_node_get_address_cells fo n s = cells_of fo ''Node without address cells'' (prop_dict s P n ''#address_cells'')"
proof -
  have c: "c_string ''#address_cells''" by simp
  show ?thesis
    by (cases rule: find_property_cases[OF assms c])
      (simp_all add: dt_node_get_address_cells_def cells_of_def get_uint32_value[OF assms])
qed

lemma size_cells_dict:
  assumes "props_ok s N P" "n \<in> N"
  shows "dt_node_get_size_cells fo n s = cells_of fo ''Node without size cells'' (prop_dict s P n ''#size_cells'')"
proof -
  have c: "c_string ''#size_cells''" by simp
  show ?thesis
    by (cases rule: find_property_cases[OF assms c])
      (simp_all add: dt_node_get_size_cells_def cells_of_def get_uint32_value[OF assms])
qed

section \<open>Register windows\<close>

text \<open>The range that the code reports, from the value of \<open>regs\<close> and the numbers of cells.\<close>

definition cell_bytes :: "u8 list \<Rightarrow> nat \<Rightarrow> nat \<Rightarrow> u8 list outcome" where
  "cell_bytes b i k = (if 4 * i + k \<le> length b then Inr (take k (drop (4 * i) b)) else Inl Crash)"

lemma read_cells_bytes: "read_cells a i k s = cell_bytes (blocks s a) (unat i) k"
  by (simp add: read_cells_def cell_bytes_def Let_def)

lemma reg_range_dict:
  assumes ok: "props_ok s N P" and n: "n \<in> N" "parent (nodes s n) \<in> N" and v: "prop_dict s P n ''regs'' = Some b"
    and a: "prop_dict s P (parent (nodes s n)) ''#address_cells'' = Some ab" "length ab = 4" "fdt32_to_cpu fo (le_word ab) = ac"
    and z: "prop_dict s P (parent (nodes s n)) ''#size_cells'' = Some zb" "length zb = 4" "fdt32_to_cpu fo (le_word zb) = sc"
  shows "\<exists>p. blocks s (pvalue (props s p)) = b \<and> dt_node_get_reg_range fo n idx ps s =
    (if unat (idx * (ac + sc) + (ac + sc)) * 4 > length b then Inr (False, ps)
     else andthen (read_address fo (pvalue (props s p)) ac (idx * (ac + sc)) (fst ps) s) (\<lambda>ptr.
       andthen (read_size fo (pvalue (props s p)) ac sc (idx * (ac + sc)) (ptr, snd ps) s) (\<lambda>ps. Inr (True, ps))))"
proof -
  have c: "c_string ''regs''" by simp
  obtain p where p: "dt_node_find_property n ''regs'' s = Inr p" "p \<in> set (P n)" "p \<noteq> NULL" "value_of s p = b"
    using v by (cases rule: find_property_cases[OF ok n(1) c]) auto
  have len: "value_len (props s p) = of_nat (length b)" "length b < 2 ^ 64" using prop_value[OF ok n(1) p(2)] p(4) by simp_all
  have "ucast (x :: u32) * 4 > (of_nat (length b) :: u64) \<longleftrightarrow> unat x * 4 > length b" for x
  proof -
    have "unat x < 2 ^ LENGTH(32)" by (rule unsigned_less)
    then have "unat (ucast x * 4 :: u64) = unat x * 4" by (simp add: unat_word_ariths unat_ucast_mod)
    then show ?thesis using len(2) by (simp add: word_less_nat_alt unsigned_of_nat take_bit_nat_eq_self)
  qed
  moreover have "dt_node_get_address_cells fo (parent (nodes s n)) s = Inr ac" "dt_node_get_size_cells fo (parent (nodes s n)) s = Inr sc"
    using address_cells_dict[OF ok n(2)] size_cells_dict[OF ok n(2)] a z by (simp_all add: cells_of_def)
  ultimately show ?thesis
    using p len(1) by (intro exI[of _ p]) (simp add: dt_node_get_reg_range_def value_of_def Let_def)
qed

section \<open>Paths\<close>

text \<open>The names from the root down to a node, whose devices are all bound.\<close>

fun chain_names :: "(addr \<Rightarrow> int \<times> addr) \<Rightarrow> dt_state \<Rightarrow> (addr \<times> addr) list \<Rightarrow> bool" where
  "chain_names dt_node_of s [] \<longleftrightarrow> False"
| "chain_names dt_node_of s [(dev, n)] \<longleftrightarrow> dt_node_of dev = (0, n) \<and> n \<noteq> NULL \<and> parent (nodes s n) = NULL"
| "chain_names dt_node_of s ((dev, n) # (pdev, p) # xs) \<longleftrightarrow> dt_node_of dev = (0, n) \<and> n \<noteq> NULL \<and> parent (nodes s n) = p \<and> p \<noteq> NULL \<and>
     bound_device (nodes s p) = pdev \<and> pdev \<noteq> NULL \<and> chain_names dt_node_of s ((pdev, p) # xs)"

definition joined_names :: "dt_state \<Rightarrow> (addr \<times> addr) list \<Rightarrow> string" where
  "joined_names s xs = ''/'' @ concat (rev (map (\<lambda>(_, n). nname (nodes s n)) xs))"

lemma strlcat_take: "0 < sz \<Longrightarrow> strlcat (take (sz - Suc 0) a) b sz = take (sz - Suc 0) (a @ b)"
  by (simp add: strlcat_def min_def)

lemma get_path_names:
  assumes "chain_names dt_node_of s xs" "xs = (dev, n) # ys" "length xs \<le> k" "0 < szBuf"
  shows "dt_device_get_path k dt_node_of s dev buf szBuf szNeeded =
    Inr (0, take (szBuf - 1) (joined_names s xs), length (joined_names s xs))"
  using assms
proof (induction dt_node_of s xs arbitrary: k dev n ys rule: chain_names.induct)
  case (2 dt_node_of s d m)
  then obtain k' where "k = Suc k'" by (cases k) auto
  with 2 show ?case by (auto simp: joined_names_def strlcpy_def strlcat_take Let_def)
next
  case (3 dt_node_of s d m pd p xs)
  then obtain k' where k: "k = Suc k'" "length ((pd, p) # xs) \<le> k'" by (cases k) auto
  have "dt_device_get_path k' dt_node_of s pd buf szBuf szNeeded =
    Inr (0, take (szBuf - 1) (joined_names s ((pd, p) # xs)), length (joined_names s ((pd, p) # xs)))"
    using 3 k(2) by auto
  then show ?case using 3 k(1) by (auto simp: joined_names_def Let_def strlcat_take)
qed simp

end
