(* ===== verification/Dt_Tree_Properties.thy ===== *)
theory Dt_Tree_Properties
  imports Dt_System_Correct Dt_Regs_Correct Memory_Map_Properties
begin

text \<open>The properties of the device tree, with instances on a blob of two nodes.\<close>

section \<open>A small blob\<close>

text \<open>A root with one property, and a memory node with 1 MiB of memory at address 1 MiB.\<close>

definition byte_swap :: fdt_order where
  "byte_swap = \<lparr>fdt32_to_cpu = (\<lambda>w. le_word (rev (word_le 4 w))), fdt64_to_cpu = (\<lambda>w. le_word (rev (word_le 8 w)))\<rparr>"

definition memory_reg :: "u8 list" where
  "memory_reg = [0, 0x10, 0, 0, 0, 0x10, 0, 0]"

definition sample_blob :: fdt_lib where
  "sample_blob = \<lparr>order = byte_swap, fdt_check_header = 0, fdt_num_mem_rsv = 1, fdt_get_mem_rsv = (\<lambda>_. (0x100000, 0x1000)),
     fdt_next_node = (\<lambda>_. 0), fdt_address_cells = (\<lambda>_. 1), fdt_size_cells = (\<lambda>_. 1), fdt_subnode_offset = (\<lambda>_ _. 8),
     fdt_getprop = (\<lambda>_ _. (8, memory_reg)), fdt_get_name = (\<lambda>off. if off = 0 then '''' else ''memory''),
     fdt_first_property_offset = (\<lambda>off. off + 1), fdt_next_property_offset = (\<lambda>_. - 1),
     fdt_get_property_by_offset = (\<lambda>off. Some (if off = 1 then (0, [0, 0, 0, 1]) else (0x04000000, memory_reg))),
     fdt_string = (\<lambda>off. if off = 0 then ''#address_cells'' else ''reg''),
     fdt_first_subnode = (\<lambda>off. if off = 0 then 8 else - 1), fdt_next_subnode = (\<lambda>_. - 1)\<rparr>"

definition sample_fdt :: fdt_tree where
  "sample_fdt = Fnode '''' [(''#address_cells'', [0, 0, 0, 1])] [Fnode ''memory'' [(''reg'', memory_reg)] []]"

definition no_tree :: dt_state where
  "no_tree = \<lparr>nodes = (\<lambda>_. \<lparr>children = NULL, properties = NULL, parent = NULL, bound_device = NULL, nname = ''''\<rparr>), node_links = (\<lambda>_. zero_links),
     props = (\<lambda>_. \<lparr>value_len = 0, pname = '''', pvalue = NULL\<rparr>), prop_links = (\<lambda>_. zero_links), blocks = (\<lambda>_. []), live = {},
     answers = [16, 32, 48, 64, 80, 96]\<rparr>"

lemma word_le_4: "word_le 4 w = [ucast w, ucast (drop_bit 8 w), ucast (drop_bit 16 w), ucast (drop_bit 24 w)]"
  by (simp add: numeral_eq_Suc)

lemma sample_encodes: "encodes sample_blob 0 sample_fdt" "tree_ok sample_fdt" "need sample_fdt = 4" "cost sample_fdt = 6"
  by (simp_all add: sample_blob_def sample_fdt_def FDT_ERR_NOTFOUND_def memory_reg_def byte_swap_def word_le_4)

lemma sample_ranges: "memory_ranges sample_blob memory_reg 1 1 [(0x100000, 0x100000)]"
  by (simp add: memory_ranges_def cell_value_def cells_at_def memory_reg_def sample_blob_def byte_swap_def word_le_4)

section \<open>Properties\<close>

text \<open>C11. The device tree in memory is the one in the blob: when the functions of \<^verbatim>\<open>libfdt\<close> encode a tree of
  distinctly named properties and children and the allocator has enough fresh blocks, start-up ends,
  the interface of the device tree shows exactly the names, properties and children of the blob at
  every node, and the memory map gets the reservations and then the ranges of the memory node, in order.\<close>

theorem dt_platform_init_presents_blob:
  assumes "fdt_check_header lib = 0" "encodes lib (fdt_next_node lib (- 1)) t" "tree_ok t" "need t \<le> k"
    and "distinct (answers (tree st))" "NULL \<notin> set (answers (tree st))" "cost t \<le> length (answers (tree st))"
    and "0 \<le> fdt_subnode_offset lib (fdt_next_node lib (- 1)) ''memory''"
    and "fdt_getprop lib (fdt_subnode_offset lib (fdt_next_node lib (- 1)) ''memory'') ''reg'' = (int (length b), b)"
    and "memory_ranges lib b (fdt_address_cells lib (fdt_next_node lib (- 1))) (fdt_size_cells lib (fdt_next_node lib (- 1))) rs" "length rs < k"
  shows "\<exists>n s'. presents s' n t \<and> dt_platform_init_fdt k d lib st =
    andthen (add_list d (sysmap st) (map (reserved_entry lib) [0..fdt_num_mem_rsv lib - 1] @ map (case_prod memory_entry) rs))
      (\<lambda>m. Inr \<lparr>sysmap = m, tree = s', dt_root = n\<rparr>)"
proof -
  let ?root = "fdt_next_node lib (- 1)"
  have ok: "dt_ok (tree st) {} (\<lambda>_. []) (\<lambda>_. [])" by (simp add: dt_ok_def kids_ok_def props_ok_def all_props_def)
  have fr: "fresh_supply (tree st) {} (\<lambda>_. [])" using assms(5,6) by (auto simp: fresh_supply_def unused_prop_def all_props_def)
  obtain n s' N K P where a: "add_device_fdt k lib NULL ?root (tree st) = Inr (n, s')" "dt_ok s' N K P" "holds (view s' K P) (N - {}) n t"
    by (rule adds_treeD[OF adds_tree_all assms(4,2,3) ok fr assms(7), of NULL]) (simp, rule that, assumption+)
  have p: "presents s' n t" using holds_presents(1)[OF a(2) refl _ assms(3) a(3)] by simp
  have m: "add_memory k d lib (int (length b), b) (fdt_address_cells lib ?root) (fdt_size_cells lib ?root) 0 m =
    add_list d m (map (case_prod memory_entry) rs)" for m
    using add_memory_from[OF assms(10), of 0 k] assms(11) by simp
  have app: "add_list d m (xs @ ys) = andthen (add_list d m xs) (\<lambda>m. add_list d m ys)" for m xs ys
    by (induction xs arbitrary: m) (simp_all add: andthen_def split: sum.splits)
  have "dt_platform_init_fdt k d lib st =
    andthen (add_list d (sysmap st) (map (reserved_entry lib) [0..fdt_num_mem_rsv lib - 1] @ map (case_prod memory_entry) rs))
      (\<lambda>m. Inr \<lparr>sysmap = m, tree = s', dt_root = n\<rparr>)"
    unfolding dt_platform_init_fdt_def Let_def using assms(1,8,9) a(1)
    by (simp add: add_reservations_list m app) (simp add: andthen_def split: sum.splits)
  with p show ?thesis by blast
qed

theorem dt_platform_init_presents_blob_witness:
  "\<forall>m. \<exists>n s'. presents s' n sample_fdt \<and> dt_platform_init_fdt 4 9 sample_blob \<lparr>sysmap = m, tree = no_tree, dt_root = NULL\<rparr> =
    andthen (add_list 9 m [reserved_entry sample_blob 0, memory_entry 0x100000 0x100000]) (\<lambda>m. Inr \<lparr>sysmap = m, tree = s', dt_root = n\<rparr>)"
proof
  fix m
  let ?st = "\<lparr>sysmap = m, tree = no_tree, dt_root = NULL\<rparr>"
  have b: "fdt_check_header sample_blob = 0" "fdt_next_node sample_blob (- 1) = 0" "fdt_subnode_offset sample_blob 0 ''memory'' = 8"
    "fdt_getprop sample_blob 8 ''reg'' = (int (length memory_reg), memory_reg)" "fdt_address_cells sample_blob 0 = 1" "fdt_size_cells sample_blob 0 = 1"
    "fdt_num_mem_rsv sample_blob = 1" by (simp_all add: sample_blob_def memory_reg_def)
  show "\<exists>n s'. presents s' n sample_fdt \<and> dt_platform_init_fdt 4 9 sample_blob ?st =
    andthen (add_list 9 m [reserved_entry sample_blob 0, memory_entry 0x100000 0x100000]) (\<lambda>m. Inr \<lparr>sysmap = m, tree = s', dt_root = n\<rparr>)"
    using dt_platform_init_presents_blob[of sample_blob sample_fdt 4 ?st memory_reg "[(0x100000, 0x100000)]" 9] sample_encodes sample_ranges b
    by (simp add: no_tree_def del: add_list.simps)
qed



text \<open>C39. What \<open>dt_node_get_reg_range\<close> reports under a parent with one address cell and one size cell: for
  a window that lies in the property it returns true with the size of the first window in place of
  the address and the size untouched; for the index \<open>0x7FFFFFFF\<close>, whose end wraps around, it
  reads outside of the property; with two cells each, the size it reports is the address.\<close>

theorem dt_reg_range_reports:
  assumes "props_ok s N P" "n \<in> N" "parent (nodes s n) \<in> N" "prop_dict s P n ''regs'' = Some b"
    and "prop_dict s P (parent (nodes s n)) ''#address_cells'' = Some ab" "length ab = 4" "fdt32_to_cpu fo (le_word ab) = c"
    and "prop_dict s P (parent (nodes s n)) ''#size_cells'' = Some zb" "length zb = 4" "fdt32_to_cpu fo (le_word zb) = c"
  shows "(c = 1 \<and> 8 * (unat idx + 1) \<le> length b \<and> unat idx < 2 ^ 30 \<longrightarrow> dt_node_get_reg_range fo n idx (ptr, sz) s =
      Inr (True, ucast (fdt32_to_cpu fo (le_word (take 4 (drop 4 b)))), sz)) \<and>
    (c = 1 \<and> length b < 2 ^ 34 - 8 \<longrightarrow> dt_node_get_reg_range fo n 0x7FFFFFFF (ptr, sz) s = Inl Crash) \<and>
    (c = 2 \<and> 16 * (unat idx + 1) \<le> length b \<and> unat idx < 2 ^ 28 \<longrightarrow>
      (\<exists>a. a = fdt64_to_cpu fo (le_word (take 8 (drop (16 * unat idx) b))) \<and> dt_node_get_reg_range fo n idx (ptr, sz) s = Inr (True, a, a)))"
proof -
  have r: "\<exists>p. blocks s (pvalue (props s p)) = b \<and> dt_node_get_reg_range fo n i (ptr, sz) s =
    (if unat (i * (c + c) + (c + c)) * 4 > length b then Inr (False, ptr, sz)
     else andthen (read_address fo (pvalue (props s p)) c (i * (c + c)) ptr s) (\<lambda>ptr.
       andthen (read_size fo (pvalue (props s p)) c c (i * (c + c)) (ptr, sz) s) (\<lambda>ps. Inr (True, ps))))" for i
    using reg_range_dict[OF assms(1-4) assms(5-7) assms(8-10), of i "(ptr, sz)"] by (simp only: fst_conv snd_conv)
  have 1: "dt_node_get_reg_range fo n idx (ptr, sz) s = Inr (True, ucast (fdt32_to_cpu fo (le_word (take 4 (drop 4 b)))), sz)"
    if h: "c = 1" "8 * (unat idx + 1) \<le> length b" "unat idx < 2 ^ 30"
  proof -
    have "unat (idx * 2 :: u32) = 2 * unat idx" "unat (idx * 2 + 2 :: u32) = 2 * unat idx + 2" using h(3) by (simp_all add: unat_word_ariths)
    then show ?thesis using r[of idx] h(1,2) by (auto simp: read_address_def read_size_def read_cells_bytes cell_bytes_def unat_ucast_u64)
  qed
  have 2: "dt_node_get_reg_range fo n 0x7FFFFFFF (ptr, sz) s = Inl Crash" if h: "c = 1" "length b < 2 ^ 34 - 8"
    using r[of "0x7FFFFFFF"] h by (auto simp: read_address_def read_cells_bytes cell_bytes_def)
  have 3: "dt_node_get_reg_range fo n idx (ptr, sz) s = Inr (True, a, a)"
    if h: "c = 2" "16 * (unat idx + 1) \<le> length b" "unat idx < 2 ^ 28" "a = fdt64_to_cpu fo (le_word (take 8 (drop (16 * unat idx) b)))" for a
  proof -
    have "unat (idx * 4 :: u32) = 4 * unat idx" "unat (idx * 4 + 4 :: u32) = 4 * unat idx + 4" using h(3) by (simp_all add: unat_word_ariths)
    then show ?thesis using r[of idx] h(1,2,4) by (auto simp: read_address_def read_size_def read_cells_bytes cell_bytes_def unat_ucast_u64)
  qed
  from 1 2 3 show ?thesis by blast
qed

text \<open>A bus at 8 with one cell for addresses and sizes, and a device at 24 with two windows.\<close>

definition bus_props :: "addr \<Rightarrow> dt_property" where
  "bus_props = (\<lambda>_. \<lparr>value_len = 4, pname = ''#size_cells'', pvalue = 0x1000\<rparr>)
     (32 := \<lparr>value_len = 4, pname = ''#address_cells'', pvalue = 0x2000\<rparr>, 64 := \<lparr>value_len = 16, pname = ''regs'', pvalue = 0x3000\<rparr>)"

definition two_windows :: "u8 list" where
  "two_windows = [0x09, 0, 0, 0, 0, 0, 0x10, 0, 0x0A, 0, 0, 0, 0, 0, 0x20, 0]"

definition bus_state :: dt_state where
  "bus_state = no_tree\<lparr>nodes := (nodes no_tree)(8 := (nodes no_tree 8)\<lparr>properties := 32\<rparr>, 24 := (nodes no_tree 24)\<lparr>properties := 64, parent := 8\<rparr>),
     props := bus_props, prop_links := (\<lambda>_. zero_links)(32 := zero_links\<lparr>rbe_right := 48\<rparr>, 48 := zero_links\<lparr>rbe_parent := 32, rbe_color := RB_RED\<rparr>),
     blocks := (\<lambda>_. [0, 0, 0, 1])(0x3000 := two_windows)\<rparr>"

definition bus_lists :: "addr \<Rightarrow> addr list" where
  "bus_lists = (\<lambda>_. [])(8 := [32, 48], 24 := [64])"

lemma bus_ok: "props_ok bus_state {8, 24} bus_lists"
proof -
  have "rb_inv (prop_tree bus_state 8) [32, 48]" unfolding rb_inv_def
    by (intro exI[of _ "Bk Lf 32 (Rd Lf 48 Lf)"] exI[of _ "Suc 0"]) (simp add: tree_at_def bus_state_def zero_links_def no_tree_def)
  moreover have "rb_inv (prop_tree bus_state 24) [64]" unfolding rb_inv_def
    by (intro exI[of _ "Bk Lf 64 Lf"] exI[of _ "Suc 0"]) (simp add: tree_at_def bus_state_def zero_links_def no_tree_def)
  ultimately show ?thesis
    by (simp add: props_ok_def bus_lists_def all_props_def names_ok_def) (simp add: bus_state_def bus_props_def value_of_def two_windows_def inj_on_def)
qed

theorem dt_reg_range_reports_witness:
  "dt_node_get_reg_range byte_swap 24 1 (0, 7) bus_state = Inr (True, 0x1000, 7) \<and>
   dt_node_get_reg_range byte_swap 24 0x7FFFFFFF (0, 7) bus_state = Inl Crash"
proof -
  have p: "parent (nodes bus_state 24) = 8" by (simp add: bus_state_def)
  have d: "prop_dict bus_state bus_lists 24 ''regs'' = Some two_windows" "prop_dict bus_state bus_lists 8 ''#address_cells'' = Some [0, 0, 0, 1]"
    "prop_dict bus_state bus_lists 8 ''#size_cells'' = Some [0, 0, 0, 1]"
    by (simp_all add: prop_dict_def dict_def bus_lists_def bus_state_def bus_props_def value_of_def)
  have o: "fdt32_to_cpu byte_swap (le_word [0, 0, 0, 1]) = 1" by (simp add: byte_swap_def word_le_4)
  note r = dt_reg_range_reports[OF bus_ok, of 24, unfolded p, OF _ _ d(1) d(2) _ o d(3) _ o, of 1 0 7]
  have "ucast (fdt32_to_cpu byte_swap (le_word (take 4 (drop 4 two_windows)))) = (0x1000 :: u64)" "length two_windows = 16"
    by (simp_all add: byte_swap_def word_le_4 two_windows_def)
  then show ?thesis using r by simp
qed

text \<open>The path of a device is the root slash followed by the names of the nodes from the root down, with
  nothing between them, cut to the size of the buffer; the size reported is that of the whole path.\<close>

theorem dt_path_joins_names:
  assumes "chain_names dt_node_of s ((dev, n) # xs)" "length xs < k" "0 < szBuf"
  shows "dt_device_get_path k dt_node_of s dev buf szBuf szNeeded =
    Inr (0, take (szBuf - 1) (''/'' @ concat (rev (map (\<lambda>(_, n). nname (nodes s n)) ((dev, n) # xs)))),
      1 + length (concat (rev (map (\<lambda>(_, n). nname (nodes s n)) ((dev, n) # xs)))))"
  using get_path_names[OF assms(1) refl, of k szBuf buf szNeeded] assms(2,3) by (simp add: joined_names_def)

theorem dt_path_joins_names_witness:
  "dt_device_get_path 3 (\<lambda>dev. (0, dev)) (no_tree\<lparr>nodes := (nodes no_tree)(16 := (nodes no_tree 16)\<lparr>nname := ''soc'', parent := 8, bound_device := 16\<rparr>,
     8 := (nodes no_tree 8)\<lparr>bound_device := 8\<rparr>, 24 := (nodes no_tree 24)\<lparr>nname := ''uart'', parent := 16\<rparr>)\<rparr>) 24 '''' 64 0 = Inr (0, ''/socuart'', 8)"
  by (subst dt_path_joins_names[where n = 24 and xs = "[(16, 16), (8, 8)]"]) (simp_all add: no_tree_def)

end
