(* ===== verification/Bios_Tables.thy ===== *)
theory Bios_Tables
  imports Bios_Memory_Map
begin

text \<open>
  The tables that the boot loader passes on (\<^verbatim>\<open>include/gd_common.h\<close>) and the search for the tables of
  the firmware (\<^verbatim>\<open>bal/platform/bios/tables.c\<close> and its header): the ACPI root pointer, the MP floating
  pointer and the SMBIOS entry point, each recognised by a signature and a checksum at a multiple of
  16 bytes.
\<close>

section \<open>Tables\<close>

record gd_table =
  table_id :: u32
  table_length :: u32

definition GD_TABLE_ID :: "u8 \<Rightarrow> u8 \<Rightarrow> u8 \<Rightarrow> u8 \<Rightarrow> u32" where
  "GD_TABLE_ID a b c d = push_bit 24 (ucast a) OR push_bit 16 (ucast b) OR push_bit 8 (ucast c) OR ucast d"

text \<open>The five bytes that \<open>gd_table_id_to_string\<close> writes.\<close>

definition gd_table_id_to_string :: "gd_table \<Rightarrow> u8 list" where
  "gd_table_id_to_string t = [ucast (drop_bit 24 (table_id t) AND 0xFF), ucast (drop_bit 16 (table_id t) AND 0xFF),
     ucast (drop_bit 8 (table_id t) AND 0xFF), ucast (table_id t AND 0xFF), 0]"

definition gd_next_table :: "addr \<Rightarrow> gd_table \<Rightarrow> addr" where
  "gd_next_table a t = a + ucast ((table_length t + 7) AND NOT 7)"

definition gd_mmap_get_size :: "gd_table \<Rightarrow> u64" where
  "gd_mmap_get_size t = (ucast (table_length t) - 8) div 40"

record gd_rsdt_pointer_table =
  rsdt_header :: gd_table
  xsdt_address :: u64
  rsdt_address :: u32

text \<open>The 16 bytes of an \<^verbatim>\<open>mpfp_structure\<close>; its \<^verbatim>\<open>length\<close> is byte 8.\<close>

type_synonym mpfp_structure = "u8 list"

record gd_pc_pointer_table =
  pc_header :: gd_table
  mpfp :: mpfp_structure
  smbios_entry_point_address :: u32

definition mpfp_length :: "gd_pc_pointer_table \<Rightarrow> u8" where
  "mpfp_length pc = mpfp pc ! 8"

definition GD_RSDT_POINTER_TABLE_ID :: u32 where
  "GD_RSDT_POINTER_TABLE_ID = GD_TABLE_ID 0x52 0x53 0x44 0x54"

definition GD_PC_POINTER_TABLE_ID :: u32 where
  "GD_PC_POINTER_TABLE_ID = GD_TABLE_ID 0x50 0x43 0x54 0x42"

definition sizeof_rsdt_pointer :: u32 where
  "sizeof_rsdt_pointer = 24"

definition sizeof_pc_pointer :: u32 where
  "sizeof_pc_pointer = 28"

text \<open>The two variables of \<^verbatim>\<open>tables.c\<close> and their initial values.\<close>

record tables =
  rsdt_pointer :: gd_rsdt_pointer_table
  pc_pointer :: gd_pc_pointer_table

definition initial_tables :: tables where
  "initial_tables = \<lparr>rsdt_pointer = \<lparr>rsdt_header = \<lparr>table_id = GD_RSDT_POINTER_TABLE_ID, table_length = 0\<rparr>,
       xsdt_address = 0, rsdt_address = 0\<rparr>,
     pc_pointer = \<lparr>pc_header = \<lparr>table_id = GD_PC_POINTER_TABLE_ID, table_length = 0\<rparr>, mpfp = replicate 16 0,
       smbios_entry_point_address = 0\<rparr>\<rparr>"

section \<open>Recognising a table\<close>

definition TABLE_SIGNATURE :: "u8 \<Rightarrow> u8 \<Rightarrow> u8 \<Rightarrow> u8 \<Rightarrow> u32" where
  "TABLE_SIGNATURE a b c d = push_bit 24 (ucast a) OR push_bit 16 (ucast b) OR push_bit 8 (ucast c) OR ucast d"

definition RSDP_SIGNATURE_LOW :: u32 where
  "RSDP_SIGNATURE_LOW = TABLE_SIGNATURE 0x52 0x53 0x44 0x20"

definition RSDP_SIGNATURE_HIGH :: u32 where
  "RSDP_SIGNATURE_HIGH = TABLE_SIGNATURE 0x50 0x54 0x52 0x20"

definition SMBIOS_ENTRY_POINT_SIGNATURE :: u32 where
  "SMBIOS_ENTRY_POINT_SIGNATURE = TABLE_SIGNATURE 0x5F 0x53 0x4D 0x5F"

definition MPFP_SIGNATURE :: u32 where
  "MPFP_SIGNATURE = TABLE_SIGNATURE 0x5F 0x4D 0x50 0x5F"

definition sizeof_rsdp :: nat where
  "sizeof_rsdp = 20"

fun checksum_loop :: "bytes \<Rightarrow> addr \<Rightarrow> nat \<Rightarrow> u8 \<Rightarrow> u8" where
  "checksum_loop m table 0 checksum = checksum"
| "checksum_loop m table (Suc n) checksum = checksum_loop m (table + 1) n (checksum + m table)"

definition checksum_table :: "bytes \<Rightarrow> addr \<Rightarrow> nat \<Rightarrow> u8" where
  "checksum_table m table n = checksum_loop m table n 0"

definition signature_at :: "bytes \<Rightarrow> addr \<Rightarrow> u32" where
  "signature_at m a = TABLE_SIGNATURE (m a) (m (a + 1)) (m (a + 2)) (m (a + 3))"

definition rsdp_at :: "bytes \<Rightarrow> addr \<Rightarrow> bool" where
  "rsdp_at m a \<longleftrightarrow> signature_at m a = RSDP_SIGNATURE_LOW \<and> signature_at m (a + 4) = RSDP_SIGNATURE_HIGH \<and>
     checksum_table m a sizeof_rsdp = 0"

definition mpfp_at :: "bytes \<Rightarrow> addr \<Rightarrow> bool" where
  "mpfp_at m a \<longleftrightarrow> signature_at m a = MPFP_SIGNATURE \<and> checksum_table m a (unat (m (a + 8)) * 0x10) = 0"

definition smbios_at :: "bytes \<Rightarrow> addr \<Rightarrow> bool" where
  "smbios_at m a \<longleftrightarrow> signature_at m a = SMBIOS_ENTRY_POINT_SIGNATURE \<and> checksum_table m a (unat (m (a + 5))) = 0"

section \<open>Taking over a table\<close>

definition set_header_length :: "u32 \<Rightarrow> gd_table \<Rightarrow> gd_table" where
  "set_header_length n t = t\<lparr>table_length := n\<rparr>"

record rsdp_extended =
  rsdp_signature :: "u8 list"
  rsdp_checksum :: u8
  oemid :: "u8 list"
  revision :: u8
  rsdp_rsdt_address :: u32
  rsdp_length :: u32
  rsdp_xsdt_address :: u64
  extended_checksum :: u8
  reserved :: "u8 list"

definition load_rsdp :: "bytes \<Rightarrow> addr \<Rightarrow> rsdp_extended" where
  "load_rsdp m a = \<lparr>rsdp_signature = load_bytes m a 8, rsdp_checksum = m (a + 8), oemid = load_bytes m (a + 9) 6,
     revision = m (a + 15), rsdp_rsdt_address = load32 m (a + 16), rsdp_length = load32 m (a + 20),
     rsdp_xsdt_address = load64 m (a + 24), extended_checksum = m (a + 32), reserved = load_bytes m (a + 33) 3\<rparr>"

definition take_rsdp :: "bytes \<Rightarrow> addr \<Rightarrow> gd_rsdt_pointer_table \<Rightarrow> gd_rsdt_pointer_table" where
  "take_rsdp m a r =
     (let rsdp = load_rsdp m a;
          r = r\<lparr>rsdt_header := set_header_length sizeof_rsdt_pointer (rsdt_header r), rsdt_address := rsdp_rsdt_address rsdp\<rparr> in
      if revision rsdp > 0 \<and> checksum_table m a (unat (rsdp_length rsdp)) = 0 then r\<lparr>xsdt_address := rsdp_xsdt_address rsdp\<rparr>
      else r)"

definition take_mpfp :: "bytes \<Rightarrow> addr \<Rightarrow> gd_pc_pointer_table \<Rightarrow> gd_pc_pointer_table" where
  "take_mpfp m a pc =
     (let n = (if unat (m (a + 8)) * 0x10 > 16 then 16 else unat (m (a + 8)) * 0x10) in
      pc\<lparr>pc_header := set_header_length sizeof_pc_pointer (pc_header pc),
         mpfp := load_bytes m a n @ drop n (mpfp pc)\<rparr>)"

definition take_smbios :: "addr \<Rightarrow> gd_pc_pointer_table \<Rightarrow> gd_pc_pointer_table" where
  "take_smbios a pc = pc\<lparr>pc_header := set_header_length sizeof_pc_pointer (pc_header pc),
     smbios_entry_point_address := ucast a\<rparr>"

section \<open>The search\<close>

text \<open>
  The loop of \<open>search_region\<close>, with its variables \<open>region\<close> (here \<open>reg\<close>) and \<open>i\<close>; the lengths it is called with are
  1024 and 0x10000, so that \<open>i\<close> does not wrap around.
\<close>

function search_loop :: "bytes \<Rightarrow> addr \<Rightarrow> nat \<Rightarrow> nat \<Rightarrow> bool \<Rightarrow> bool \<Rightarrow> bool \<Rightarrow> tables \<Rightarrow> tables" where
  "search_loop m reg len i rsdp_search mpfp_search smbios_search t =
     (if \<not> i < len then t
      else if \<not> rsdp_search \<and> \<not> mpfp_search \<and> \<not> smbios_search then t
      else
        let (rsdp_search, t) = (if rsdp_search \<and> rsdp_at m reg
              then (False, t\<lparr>rsdt_pointer := take_rsdp m reg (rsdt_pointer t)\<rparr>) else (rsdp_search, t));
            (mpfp_search, t) = (if mpfp_search \<and> mpfp_at m reg
              then (False, t\<lparr>pc_pointer := take_mpfp m reg (pc_pointer t)\<rparr>) else (mpfp_search, t));
            (smbios_search, t) = (if smbios_search \<and> smbios_at m reg
              then (False, t\<lparr>pc_pointer := take_smbios reg (pc_pointer t)\<rparr>) else (smbios_search, t))
        in search_loop m (reg + 16) len (i + 16) rsdp_search mpfp_search smbios_search t)"
  by pat_completeness auto
termination by (relation "measure (\<lambda>(m, reg, len, i, _). len - i)") auto

declare search_loop.simps [simp del]

definition search_region :: "bytes \<Rightarrow> addr \<Rightarrow> nat \<Rightarrow> bool \<Rightarrow> bool \<Rightarrow> bool \<Rightarrow> tables \<Rightarrow> tables" where
  "search_region m reg len = search_loop m reg len 0"

record 'w tables_state =
  bst :: "'w bios_state"
  tabs :: tables

definition tables_init :: "'w platform \<Rightarrow> 'w tables_state \<Rightarrow> 'w tables_state" where
  "tables_init pf st =
     (let ebda = push_bit 4 (ucast (load16 (mem (mach (bst st))) 0x40E)) :: addr;
          (base32, b) = get_base_memory pf (bst st);
          base = ucast base32 :: addr;
          m = mem (mach b);
          t = tabs st;
          t = (if ebda \<noteq> 0 \<and> ebda > base \<and> ebda < 0xA0000 then search_region m ebda 1024 True True False t
               else search_region m base 1024 True True False t);
          t = search_region m (base - 1024) 1024 False (mpfp_length (pc_pointer t) = 0) False t;
          t = search_region m 0xE0000 0x10000 (table_length (rsdt_header (rsdt_pointer t)) = 0)
                (mpfp_length (pc_pointer t) = 0) False t;
          t = search_region m 0xF0000 0x10000 (table_length (rsdt_header (rsdt_pointer t)) = 0)
                (mpfp_length (pc_pointer t) = 0) True t
      in \<lparr>bst = b, tabs = t\<rparr>)"

end
