(* ===== verification/Alignment.thy ===== *)
theory Alignment
  imports Gandr_Prelude
begin

text \<open>
  Clearing the low bits of a word, as the code does to align sizes and addresses, read as arithmetic
  on natural numbers.
\<close>

lemma and_not_mask_diff: "x AND NOT (mask n) = x - take_bit n (x :: 'a::len word)"
proof -
  have "x = take_bit n x OR (x AND NOT (mask n))" by (simp add: bit_eq_iff bit_simps) blast
  also have "\<dots> = take_bit n x + (x AND NOT (mask n))" by (rule disjunctive_add [symmetric]) (simp add: bit_simps)
  finally show ?thesis by (metis add_diff_cancel_left')
qed

lemma unat_and_not_mask: "unat (x AND NOT (mask n)) = 2 ^ n * (unat (x :: 'a::len word) div 2 ^ n)"
proof -
  have "unat (take_bit n x) \<le> unat x" by (simp add: unat_take_bit)
  then have "unat (x AND NOT (mask n)) = unat x - unat x mod 2 ^ n"
    by (simp only: and_not_mask_diff unat_sub word_le_nat_alt unat_take_bit)
  then show ?thesis by (simp add: minus_mod_eq_mult_div)
qed

lemma clear_low_bits:
  "unat (x AND NOT 7) = 8 * (unat (x :: 'a::len word) div 8)"
  "unat (x AND NOT 0x7FF) = 2048 * (unat x div 2048)"
proof -
  have m: "(7 :: 'a word) = mask 3" "(0x7FF :: 'a word) = mask 11" by (simp_all add: mask_eq_exp_minus_1)
  show "unat (x AND NOT 7) = 8 * (unat x div 8)" "unat (x AND NOT 0x7FF) = 2048 * (unat x div 2048)"
    unfolding m unat_and_not_mask by simp_all
qed

text \<open>Rounding up: \<open>(x + (align - 1)) & ~(align - 1)\<close> is the next multiple of a power of two.\<close>

lemma unat_round_up:
  assumes "unat x + (2 ^ n - 1) < 2 ^ LENGTH('a)" "n < LENGTH('a)"
  shows "unat ((x + mask n) AND NOT (mask n)) = 2 ^ n * ((unat (x :: 'a::len word) + (2 ^ n - 1)) div 2 ^ n)"
proof -
  have "(mask n :: 'a word) = of_nat (2 ^ n - 1)" by (simp add: mask_eq_exp_minus_1)
  moreover have "2 ^ n - 1 < (2 :: nat) ^ LENGTH('a)" using assms(2) by (meson diff_le_self le_less_trans power_strict_increasing_iff one_less_numeral_iff semiring_norm(76))
  ultimately have "unat (mask n :: 'a word) = 2 ^ n - 1" by (simp only: unat_of_nat) simp
  then have "unat (x + mask n) = unat x + (2 ^ n - 1)" using assms(1) by (simp add: unat_word_ariths)
  then show ?thesis by (simp add: unat_and_not_mask)
qed

text \<open>It is the least multiple of \<open>a\<close> that is not below \<open>n\<close>.\<close>

lemma round_up_nat:
  assumes "0 < (a :: nat)"
  shows "n \<le> a * ((n + (a - 1)) div a)" "a * ((n + (a - 1)) div a) < n + a"
proof -
  have "n + (a - 1) = a * ((n + (a - 1)) div a) + (n + (a - 1)) mod a" by simp
  moreover have "(n + (a - 1)) mod a < a" using assms by simp
  ultimately show "n \<le> a * ((n + (a - 1)) div a)" "a * ((n + (a - 1)) div a) < n + a" using assms by linarith+
qed

end
