(* ===== verification/Bios_Tables_Correct.thy ===== *)
theory Bios_Tables_Correct
  imports Bios_Tables Alignment
begin

text \<open>
  The search for the firmware's tables finds, of each kind, the first table in the order of the
  regions; and the arithmetic of the tables that are passed on.
\<close>

section \<open>One region\<close>

text \<open>The addresses that a search looks at, from step \<open>i\<close> on.\<close>

definition slots :: "addr \<Rightarrow> nat \<Rightarrow> addr list" where
  "slots a n = map (\<lambda>k. a + 16 * of_nat k) [0..<n div 16]"

fun give_rsdp :: "bytes \<Rightarrow> addr option \<Rightarrow> tables \<Rightarrow> tables" where
  "give_rsdp m None t = t"
| "give_rsdp m (Some a) t = t\<lparr>rsdt_pointer := take_rsdp m a (rsdt_pointer t)\<rparr>"

fun give_mpfp :: "bytes \<Rightarrow> addr option \<Rightarrow> tables \<Rightarrow> tables" where
  "give_mpfp m None t = t"
| "give_mpfp m (Some a) t = t\<lparr>pc_pointer := take_mpfp m a (pc_pointer t)\<rparr>"

fun give_smbios :: "addr option \<Rightarrow> tables \<Rightarrow> tables" where
  "give_smbios None t = t"
| "give_smbios (Some a) t = t\<lparr>pc_pointer := take_smbios a (pc_pointer t)\<rparr>"

definition wanted :: "bool \<Rightarrow> (addr \<Rightarrow> bool) \<Rightarrow> addr list \<Rightarrow> addr option" where
  "wanted s P xs = (if s then find P xs else None)"

lemma wanted_simps [simp]: "wanted False P xs = None" "wanted s P [] = None"
  "wanted True P (x # xs) = (if P x then Some x else wanted True P xs)"
  by (simp_all add: wanted_def)

lemma slots_Suc: "slots a (16 * Suc k) = a # slots (a + 16) (16 * k)"
proof -
  have "[0..<Suc k] = 0 # map Suc [0..<k]" by (simp only: map_Suc_upt) (rule upt_conv_Cons, simp)
  moreover have "16 * Suc k div 16 = Suc k" "16 * k div 16 = k" by simp_all
  ultimately show ?thesis by (simp only: slots_def list.map map_map) (simp add: algebra_simps)
qed

lemma slots_0 [simp]: "slots a 0 = []"
  by (simp add: slots_def)

lemma slots_append: "slots a (16 * (k + n)) = slots a (16 * k) @ slots (a + 16 * of_nat k) (16 * n)"
proof (induction k arbitrary: a)
  case (Suc k)
  have e: "Suc k + n = Suc (k + n)" by simp
  show ?case unfolding e slots_Suc Suc by (simp add: algebra_simps)
qed simp

lemma smbios_mpfp_commute: "give_smbios b (give_mpfp m a t) = give_mpfp m a (give_smbios b t)"
  by (cases a; cases b) (simp_all add: take_smbios_def take_mpfp_def set_header_length_def Let_def)

lemma rsdp_commute:
  "give_mpfp m b (give_rsdp m a t) = give_rsdp m a (give_mpfp m b t)"
  "give_smbios c (give_rsdp m a t) = give_rsdp m a (give_smbios c t)"
  by (cases a; cases b; simp) (cases a; cases c; simp)

lemmas give_commute = smbios_mpfp_commute rsdp_commute

text \<open>One step of the loop in terms of \<open>give_rsdp\<close>, \<open>give_mpfp\<close> and \<open>give_smbios\<close>.\<close>

lemma search_loop_step:
  assumes "i < len" "r \<or> p \<or> s"
  shows "search_loop m a len i r p s t =
     search_loop m (a + 16) len (i + 16) (if r \<and> rsdp_at m a then False else r) (if p \<and> mpfp_at m a then False else p)
       (if s \<and> smbios_at m a then False else s)
       (give_smbios (if s \<and> smbios_at m a then Some a else None) (give_mpfp m (if p \<and> mpfp_at m a then Some a else None)
         (give_rsdp m (if r \<and> rsdp_at m a then Some a else None) t)))"
proof -
  have "(\<not> r \<and> \<not> p \<and> \<not> s) = False" using assms(2) by blast
  then show ?thesis unfolding search_loop.simps [of m a len i]
    by (simp only: assms(1) not_True_eq_False if_False Let_def)
      (cases "r \<and> rsdp_at m a"; cases "p \<and> mpfp_at m a"; cases "s \<and> smbios_at m a"; simp only: simp_thms if_True if_False prod.case
        give_rsdp.simps give_mpfp.simps give_smbios.simps)
qed

declare give_rsdp.simps(2) [simp del] give_mpfp.simps(2) [simp del] give_smbios.simps(2) [simp del]

lemma give_wanted:
  "give_rsdp m (wanted (if r \<and> P x then False else r) P xs) (give_rsdp m (if r \<and> P x then Some x else None) t) = give_rsdp m (wanted r P (x # xs)) t"
  "give_mpfp m (wanted (if r \<and> P x then False else r) P xs) (give_mpfp m (if r \<and> P x then Some x else None) t) = give_mpfp m (wanted r P (x # xs)) t"
  "give_smbios (wanted (if r \<and> P x then False else r) P xs) (give_smbios (if r \<and> P x then Some x else None) t) = give_smbios (wanted r P (x # xs)) t"
  by (simp_all add: wanted_def)

lemma search_loop_finds:
  assumes "len = i + 16 * k"
  shows "search_loop m a len i r p s t =
     give_rsdp m (wanted r (rsdp_at m) (slots a (16 * k)))
       (give_mpfp m (wanted p (mpfp_at m) (slots a (16 * k))) (give_smbios (wanted s (smbios_at m) (slots a (16 * k))) t))"
  using assms
proof (induction k arbitrary: a i r p s t)
  case 0
  then show ?case by (simp add: search_loop.simps)
next
  case (Suc k)
  show ?case
  proof (cases "r \<or> p \<or> s")
    case True
    have l: "len = (i + 16) + 16 * k" "i < len" using Suc.prems by simp_all
    show ?thesis unfolding search_loop_step [OF l(2) True] Suc.IH [OF l(1)] slots_Suc
      by (simp only: give_commute give_wanted)
  qed (use Suc.prems in \<open>simp add: search_loop.simps\<close>)
qed

lemma search_region_finds:
  "search_region m a (16 * k) r p s t =
     give_rsdp m (wanted r (rsdp_at m) (slots a (16 * k)))
       (give_mpfp m (wanted p (mpfp_at m) (slots a (16 * k))) (give_smbios (wanted s (smbios_at m) (slots a (16 * k))) t))"
  unfolding search_region_def by (rule search_loop_finds) simp

section \<open>All regions\<close>

definition found :: "bytes \<Rightarrow> addr option \<Rightarrow> addr option \<Rightarrow> addr option \<Rightarrow> tables \<Rightarrow> tables" where
  "found m r p s t = give_rsdp m r (give_mpfp m p (give_smbios s t))"

lemma find_append: "find P (xs @ ys) = (case find P xs of None \<Rightarrow> find P ys | Some x \<Rightarrow> Some x)"
  by (induction xs) simp_all

text \<open>A later region is searched for what the earlier ones did not have.\<close>

lemma give_later:
  "give_rsdp m (wanted (find P xs = None) P ys) (give_rsdp m (find P xs) t) = give_rsdp m (find P (xs @ ys)) t"
  "give_mpfp m (wanted (find P xs = None) P ys) (give_mpfp m (find P xs) t) = give_mpfp m (find P (xs @ ys)) t"
  by (auto simp: find_append wanted_def split: option.split)

lemma found_later:
  assumes "r' = wanted (find R xs = None) R ys" "p' = wanted (find P us = None) P vs"
  shows "found m r' p' s (found m (find R xs) (find P us) None t) = found m (find R (xs @ ys)) (find P (us @ vs)) s t"
  unfolding found_def assms by (simp only: give_commute give_later give_smbios.simps(1))

lemma rsdt_found:
  "rsdt_pointer (found m r p s t) = (case r of None \<Rightarrow> rsdt_pointer t | Some a \<Rightarrow> take_rsdp m a (rsdt_pointer t))"
  by (cases r; cases p; cases s)
    (simp_all add: found_def give_rsdp.simps give_mpfp.simps give_smbios.simps)

lemma pc_found:
  "pc_pointer (found m r p s t) =
     (case p of None \<Rightarrow> id | Some a \<Rightarrow> take_mpfp m a) ((case s of None \<Rightarrow> id | Some a \<Rightarrow> take_smbios a) (pc_pointer t))"
  by (cases r; cases p; cases s)
    (simp_all add: found_def give_rsdp.simps give_mpfp.simps give_smbios.simps)

lemma mpfp_taken:
  assumes "m (a + 8) \<noteq> 0" "length (mpfp pc) = 16"
  shows "mpfp (take_mpfp m a pc) = load_bytes m a 16"
proof -
  have "unat (m (a + 8)) \<noteq> 0" using assms(1) by (simp add: unat_eq_0)
  then show ?thesis using assms(2) by (cases "unat (m (a + 8)) = 1") (auto simp: take_mpfp_def Let_def simp del: load_bytes.simps)
qed

lemma rsdt_missing: "table_length (rsdt_header (rsdt_pointer (found m r p s initial_tables))) = 0 \<longleftrightarrow> r = None"
  by (cases r) (simp_all add: rsdt_found initial_tables_def take_rsdp_def set_header_length_def sizeof_rsdt_pointer_def Let_def)

lemma mpfp_pointer_found:
  assumes "\<And>a. p = Some a \<Longrightarrow> m (a + 8) \<noteq> 0"
  shows "mpfp (pc_pointer (found m r p s initial_tables)) = (case p of None \<Rightarrow> replicate 16 0 | Some a \<Rightarrow> load_bytes m a 16)"
  using assms by (cases p; cases s) (simp_all add: pc_found mpfp_taken take_smbios_def initial_tables_def del: load_bytes.simps)

lemma mpfp_missing:
  assumes "\<And>a. p = Some a \<Longrightarrow> m (a + 8) \<noteq> 0"
  shows "mpfp_length (pc_pointer (found m r p s initial_tables)) = 0 \<longleftrightarrow> p = None"
  using mpfp_pointer_found [of p m r s, OF assms] assms
  by (cases p) (auto simp: mpfp_length_def nth_load_bytes simp del: load_bytes.simps)

lemma find_SomeD: "find P xs = Some x \<Longrightarrow> P x \<and> x \<in> set xs"
  by (auto simp: find_Some_iff)

definition low_start :: "addr \<Rightarrow> addr \<Rightarrow> addr" where
  "low_start ebda base = (if ebda \<noteq> 0 \<and> ebda > base \<and> ebda < 0xA0000 then ebda else base)"

lemma rom_slots: "slots 0xE0000 0x20000 = slots 0xE0000 0x10000 @ slots 0xF0000 0x10000"
  using slots_append [of "0xE0000" "0x1000" "0x1000"] by simp

lemma search_region_found:
  "search_region m a (16 * k) r p s t = found m (wanted r (rsdp_at m) (slots a (16 * k)))
     (wanted p (mpfp_at m) (slots a (16 * k))) (wanted s (smbios_at m) (slots a (16 * k))) t"
  by (simp only: search_region_finds found_def)

lemmas search_found = search_region_found [of _ _ 64, simplified] search_region_found [of _ _ "0x1000", simplified]

text \<open>The tables after searching \<open>xs\<close> for the ACPI structure and \<open>us\<close> for the MP structure.\<close>

abbreviation first_found :: "bytes \<Rightarrow> addr list \<Rightarrow> addr list \<Rightarrow> addr option \<Rightarrow> tables" where
  "first_found m xs us s \<equiv> found m (find (rsdp_at m) xs) (find (mpfp_at m) us) s initial_tables"

lemma search_later:
  assumes "\<forall>x\<in>set us. mpfp_at m x \<longrightarrow> m (x + 8) \<noteq> 0"
  shows
    "search_region m a 0x10000 (table_length (rsdt_header (rsdt_pointer (first_found m xs us None))) = 0)
       (mpfp_length (pc_pointer (first_found m xs us None)) = 0) s (first_found m xs us None) =
     first_found m (xs @ slots a 0x10000) (us @ slots a 0x10000) (wanted s (smbios_at m) (slots a 0x10000))"
    "search_region m a 1024 False (mpfp_length (pc_pointer (first_found m xs us None)) = 0) False (first_found m xs us None) =
     first_found m xs (us @ slots a 1024) None"
proof -
  have "m (x + 8) \<noteq> 0" if "find (mpfp_at m) us = Some x" for x
    using find_SomeD [OF that] assms by blast
  then have p: "(mpfp_length (pc_pointer (first_found m xs us None)) = 0) = (find (mpfp_at m) us = None)" by (rule mpfp_missing)
  show "search_region m a 0x10000 (table_length (rsdt_header (rsdt_pointer (first_found m xs us None))) = 0)
       (mpfp_length (pc_pointer (first_found m xs us None)) = 0) s (first_found m xs us None) =
     first_found m (xs @ slots a 0x10000) (us @ slots a 0x10000) (wanted s (smbios_at m) (slots a 0x10000))"
    unfolding search_found p rsdt_missing by (rule found_later) (rule refl)+
  show "search_region m a 1024 False (mpfp_length (pc_pointer (first_found m xs us None)) = 0) False (first_found m xs us None) =
     first_found m xs (us @ slots a 1024) None"
    unfolding search_found p using found_later [of None "rsdp_at m" xs "[]" _ "mpfp_at m" us "slots a 1024" m None]
    by (simp add: wanted_def)
qed

lemma search_low:
  "(if e \<noteq> 0 \<and> e > base \<and> e < 0xA0000 then search_region m e 1024 True True False t
    else search_region m base 1024 True True False t) =
   found m (find (rsdp_at m) (slots (low_start e base) 1024)) (find (mpfp_at m) (slots (low_start e base) 1024)) None t"
  by (simp add: low_start_def search_found wanted_def)

lemma tables_init_found:
  assumes base: "get_base_memory pf (bst st) = (base, b)" and init: "tabs st = initial_tables"
    and m: "m = mem (mach b)"
    and low: "low = slots (low_start (push_bit 4 (ucast (load16 (mem (mach (bst st))) 0x40E))) (ucast base)) 1024"
    and upper: "upper = slots (ucast base - 1024) 1024"
    and sized: "\<forall>a\<in>set (low @ upper @ slots 0xE0000 0x20000). mpfp_at m a \<longrightarrow> m (a + 8) \<noteq> 0"
  shows "tables_init pf st = \<lparr>bst = b, tabs = first_found m (low @ slots 0xE0000 0x20000)
     (low @ upper @ slots 0xE0000 0x20000) (find (smbios_at m) (slots 0xF0000 0x10000))\<rparr>"
proof -
  let ?e = "slots 0xE0000 0x10000" and ?f = "slots 0xF0000 0x10000"
  have s1: "\<forall>x\<in>set low. mpfp_at m x \<longrightarrow> m (x + 8) \<noteq> 0" using sized by simp
  have s2: "\<forall>x\<in>set (low @ upper). mpfp_at m x \<longrightarrow> m (x + 8) \<noteq> 0" using sized by auto
  have s3: "\<forall>x\<in>set ((low @ upper) @ ?e). mpfp_at m x \<longrightarrow> m (x + 8) \<noteq> 0" using sized by (auto simp: rom_slots)
  have "tables_init pf st = \<lparr>bst = b, tabs = first_found m ((low @ ?e) @ ?f) (((low @ upper) @ ?e) @ ?f) (wanted True (smbios_at m) ?f)\<rparr>"
    unfolding tables_init_def Let_def base prod.case m [symmetric] init search_low low [symmetric]
    unfolding search_later(2) [OF s1] upper [symmetric] search_later(1) [OF s2] wanted_simps search_later(1) [OF s3] ..
  then show ?thesis by (simp add: rom_slots wanted_def)
qed

section \<open>Tables that are passed on\<close>

lemma table_id_bytes: "gd_table_id_to_string \<lparr>table_id = GD_TABLE_ID a b c d, table_length = n\<rparr> = [a, b, c, d, 0]"
proof -
  have "\<not> bit (w :: u8) n" if "8 \<le> n" for w n using that bit_imp_le_length [of w n] by auto
  then show ?thesis unfolding gd_table_id_to_string_def GD_TABLE_ID_def low_masks
    by (auto simp: bit_eq_iff bit_simps)
qed

text \<open>The next table lies at the next multiple of 8 after the end of this one.\<close>

lemma next_table:
  assumes "unat (table_length t) + 7 < 2 ^ 32" "unat a + unat (table_length t) + 7 < 2 ^ 64" "unat a mod 8 = 0"
  shows "unat (gd_next_table a t) = 8 * ((unat a + unat (table_length t) + 7) div 8)"
proof -
  let ?n = "table_length t"
  have "unat (?n + 7) = unat ?n + 7" using assms(1) by (simp add: unat_word_ariths)
  then have l: "unat ((?n + 7) AND NOT 7) = 8 * ((unat ?n + 7) div 8)" by (simp only: clear_low_bits)
  moreover have le: "8 * ((unat ?n + 7) div 8) \<le> unat ?n + 7" by simp
  ultimately have "unat (ucast ((?n + 7) AND NOT 7) :: addr) = 8 * ((unat ?n + 7) div 8)"
    using assms(1) by (simp only: unat_ucast_mod) simp
  moreover have "unat a + 8 * ((unat ?n + 7) div 8) < 2 ^ 64" using le assms(2) by linarith
  ultimately have "unat (gd_next_table a t) = unat a + 8 * ((unat ?n + 7) div 8)"
    by (simp only: gd_next_table_def unat_word_ariths) simp
  also have "\<dots> = 8 * ((unat a + unat ?n + 7) div 8)" using assms(3) by presburger
  finally show ?thesis .
qed

lemma mmap_table_size:
  assumes "n < 107374182"
  shows "gd_mmap_get_size \<lparr>table_id = i, table_length = of_nat (8 + 40 * n)\<rparr> = of_nat n"
proof -
  have l: "unat (of_nat (8 + 40 * n) :: u32) = 8 + 40 * n" using assms by (simp only: unat_of_nat) simp
  have "(ucast (of_nat (8 + 40 * n) :: u32) :: u64) = of_nat (8 + 40 * n)"
    unfolding word_unat_eq_iff unat_ucast_mod l unat_of_nat using assms by simp
  then have "ucast (of_nat (8 + 40 * n) :: u32) - (8 :: u64) = of_nat (40 * n)" by simp
  then show ?thesis using assms by (simp add: gd_mmap_get_size_def word_unat_eq_iff unat_div unat_of_nat del: of_nat_mult)
qed

end
