(* ===== verification/Bios_Tables_Properties.thy ===== *)
theory Bios_Tables_Properties
  imports Bios_Tables_Correct Bios_Properties
begin

text \<open>The properties of the tables and of the search for them, with instances on a small memory.\<close>

section \<open>Checksums and signatures\<close>

text \<open>The checksum is the sum of the bytes.\<close>

lemma checksum_loop_sum: "checksum_loop m a n c = c + sum_list (load_bytes m a n)"
  by (induction m a n arbitrary: c rule: load_bytes.induct) (simp_all add: ac_simps)

lemma checksum_sum: "checksum_table m a n = sum_list (load_bytes m a n)"
  by (simp add: checksum_table_def checksum_loop_sum)

lemma signature_bytes:
  "TABLE_SIGNATURE a b c d = TABLE_SIGNATURE a' b' c' d' \<longleftrightarrow> a = a' \<and> b = b' \<and> c = c' \<and> d = d'"
proof
  assume "TABLE_SIGNATURE a b c d = TABLE_SIGNATURE a' b' c' d'"
  then have "GD_TABLE_ID a b c d = GD_TABLE_ID a' b' c' d'" by (simp only: TABLE_SIGNATURE_def GD_TABLE_ID_def)
  then have "[a, b, c, d, 0] = [a', b', c', d', 0]" using table_id_bytes by metis
  then show "a = a' \<and> b = b' \<and> c = c' \<and> d = d'" by simp
qed simp

section \<open>The search\<close>

text \<open>C21. From the initial tables, \<open>tables_init\<close> takes over the first ACPI root pointer of the low
  kilobyte (of the extended BIOS data area if its pointer is plausible, else of the end of base memory) and
  the ROM from 0xE0000 to 0xFFFFF, the first MP floating pointer of the low kilobyte, the last
  kilobyte of base memory and the ROM, and the first SMBIOS entry point of the upper half of the ROM; each is recognised
  by its signature and checksum at multiples of 16 bytes.  The extended address is taken when the revision
  and the extended checksum allow it.  A table that is passed on has a length other than zero if and
  only if something was found for it, provided that no MP floating pointer claims length zero.\<close>

theorem tables_init_finds_first:
  assumes "get_base_memory pf (bst st) = (base, b)" "tabs st = initial_tables" "m = mem (mach b)"
    "low = slots (low_start (push_bit 4 (ucast (load16 (mem (mach (bst st))) 0x40E))) (ucast base)) 1024"
    "upper = slots (ucast base - 1024) 1024" "rom = slots 0xE0000 0x20000"
    "\<forall>a\<in>set (low @ upper @ rom). mpfp_at m a \<longrightarrow> m (a + 8) \<noteq> 0"
    "t = tabs (tables_init pf st)"
  shows "(case find (rsdp_at m) (low @ rom) of
      None \<Rightarrow> rsdt_pointer t = rsdt_pointer initial_tables
    | Some a \<Rightarrow> table_length (rsdt_header (rsdt_pointer t)) = 24 \<and> rsdt_address (rsdt_pointer t) = load32 m (a + 16) \<and>
        xsdt_address (rsdt_pointer t) =
          (if m (a + 15) \<noteq> 0 \<and> sum_list (load_bytes m a (unat (load32 m (a + 20)))) = 0 then load64 m (a + 24) else 0)) \<and>
    mpfp (pc_pointer t) = (case find (mpfp_at m) (low @ upper @ rom) of None \<Rightarrow> replicate 16 0 | Some a \<Rightarrow> load_bytes m a 16) \<and>
    smbios_entry_point_address (pc_pointer t) =
      (case find (smbios_at m) (slots 0xF0000 0x10000) of None \<Rightarrow> 0 | Some a \<Rightarrow> ucast a) \<and>
    table_length (pc_header (pc_pointer t)) =
      (if find (mpfp_at m) (low @ upper @ rom) = None \<and> find (smbios_at m) (slots 0xF0000 0x10000) = None then 0 else 28)"
proof -
  let ?r = "find (rsdp_at m) (low @ rom)" and ?p = "find (mpfp_at m) (low @ upper @ rom)"
    and ?s = "find (smbios_at m) (slots 0xF0000 0x10000)"
  have t: "t = found m ?r ?p ?s initial_tables"
    using tables_init_found [OF assms(1,2,3,4,5)] assms(6,7,8) by simp
  have p: "m (a + 8) \<noteq> 0" if "?p = Some a" for a using find_SomeD [OF that] assms(7) by blast
  have "mpfp (pc_pointer t) = (case ?p of None \<Rightarrow> replicate 16 0 | Some a \<Rightarrow> load_bytes m a 16)"
    unfolding t by (rule mpfp_pointer_found) (rule p)
  moreover have "smbios_entry_point_address (pc_pointer t) = (case ?s of None \<Rightarrow> 0 | Some a \<Rightarrow> ucast a)"
    unfolding t pc_found by (cases ?p; cases ?s) (simp_all add: take_mpfp_def take_smbios_def initial_tables_def Let_def)
  moreover have "table_length (pc_header (pc_pointer t)) = (if ?p = None \<and> ?s = None then 0 else 28)"
    unfolding t pc_found by (cases ?p; cases ?s)
      (simp_all add: take_mpfp_def take_smbios_def initial_tables_def set_header_length_def sizeof_pc_pointer_def Let_def)
  moreover have "case ?r of None \<Rightarrow> rsdt_pointer t = rsdt_pointer initial_tables
    | Some a \<Rightarrow> table_length (rsdt_header (rsdt_pointer t)) = 24 \<and> rsdt_address (rsdt_pointer t) = load32 m (a + 16) \<and>
        xsdt_address (rsdt_pointer t) =
          (if m (a + 15) \<noteq> 0 \<and> sum_list (load_bytes m a (unat (load32 m (a + 20)))) = 0 then load64 m (a + 24) else 0)"
    unfolding t rsdt_found by (cases ?r)
      (simp_all add: take_rsdp_def load_rsdp_def initial_tables_def set_header_length_def sizeof_rsdt_pointer_def checksum_sum word_neq_0_conv Let_def
        del: load_bytes.simps)
  ultimately show ?thesis by (intro conjI)
qed

definition rsdp_sample :: "u8 list" where
  "rsdp_sample = [0x52, 0x53, 0x44, 0x20, 0x50, 0x54, 0x52, 0x20, 0xCD, 0, 0, 0, 0, 0, 0, 0, 0x78, 0x56, 0x34, 0x12]"

definition mpfp_sample :: "u8 list" where
  "mpfp_sample = [0x5F, 0x4D, 0x50, 0x5F, 0, 0, 0, 0, 1, 4, 0xA0, 0, 0, 0, 0, 0]"

definition table_memory :: bytes where
  "table_memory = store_bytes (store_bytes (\<lambda>_. 0) 0xE0010 rsdp_sample) 0xF0020 mpfp_sample"

definition table_state :: "unit tables_state" where
  "table_state = \<lparr>bst = \<lparr>mach = \<lparr>mem = table_memory, world = ()\<rparr>, sysmap = sysmap start_state, base_memory = 0x9FC00\<rparr>,
     tabs = initial_tables\<rparr>"

lemma find_unique:
  assumes "\<And>x. P x \<longleftrightarrow> x = k" "k \<in> set xs"
  shows "find P xs = Some k"
  using assms(2) by (induction xs) (auto simp: assms(1))

lemma slot: "k < n div 16 \<Longrightarrow> a + 16 * of_nat k \<in> set (slots a n)"
  by (auto simp: slots_def)

lemma table_memory_bytes:
  "table_memory a = 0x52 \<Longrightarrow> a = 0xE0010 \<or> a = 0xE0016"
  "table_memory a = 0x5F \<Longrightarrow> a = 0xF0020 \<or> a = 0xF0023"
  unfolding table_memory_def rsdp_sample_def mpfp_sample_def
  by (simp add: fun_upd_apply split: if_split_asm)+

lemma samples_in_memory:
  "load_bytes table_memory 0xE0010 20 = rsdp_sample" "load_bytes table_memory 0xF0020 16 = mpfp_sample"
proof -
  have l: "length rsdp_sample = 20" "length mpfp_sample = 16" by (simp_all add: rsdp_sample_def mpfp_sample_def)
  have "load_bytes table_memory 0xE0010 20 = load_bytes (store_bytes (\<lambda>_. 0) 0xE0010 rsdp_sample) 0xE0010 20"
    unfolding table_memory_def by (rule load_store_apart) (simp_all add: l)
  then show "load_bytes table_memory 0xE0010 20 = rsdp_sample" using load_store_bytes [of rsdp_sample] l by simp
  show "load_bytes table_memory 0xF0020 16 = mpfp_sample"
    unfolding table_memory_def using load_store_bytes [of mpfp_sample] l by simp
qed

lemma sample_bytes:
  "k < 20 \<Longrightarrow> table_memory (0xE0010 + of_nat k) = rsdp_sample ! k"
  "k < 16 \<Longrightarrow> table_memory (0xF0020 + of_nat k) = mpfp_sample ! k"
  using nth_load_bytes [of k 20 table_memory "0xE0010"] nth_load_bytes [of k 16 table_memory "0xF0020"]
  by (simp_all add: samples_in_memory del: load_bytes.simps)

lemma table_memory_rsdp: "rsdp_at table_memory a \<longleftrightarrow> a = 0xE0010"
proof
  assume "rsdp_at table_memory a"
  then have "table_memory a = 0x52" "table_memory (a + 1) = 0x53"
    by (simp_all add: rsdp_at_def signature_at_def RSDP_SIGNATURE_LOW_def signature_bytes)
  moreover have "table_memory 0xE0017 \<noteq> 0x53" using sample_bytes(1) [of 7] by (simp add: rsdp_sample_def)
  ultimately show "a = 0xE0010" using table_memory_bytes(1) [of a] by auto
next
  have "sum_list rsdp_sample = 0" by (simp add: rsdp_sample_def)
  then show "rsdp_at table_memory a" if "a = 0xE0010"
    unfolding that rsdp_at_def signature_at_def RSDP_SIGNATURE_LOW_def RSDP_SIGNATURE_HIGH_def signature_bytes checksum_sum
      sizeof_rsdp_def samples_in_memory
    using sample_bytes(1) [of 0] sample_bytes(1) [of 1] sample_bytes(1) [of 2] sample_bytes(1) [of 3] sample_bytes(1) [of 4]
      sample_bytes(1) [of 5] sample_bytes(1) [of 6] sample_bytes(1) [of 7]
    by (simp add: rsdp_sample_def)
qed

lemma table_memory_mpfp: "mpfp_at table_memory a \<longleftrightarrow> a = 0xF0020"
proof
  assume "mpfp_at table_memory a"
  then have "table_memory a = 0x5F" "table_memory (a + 1) = 0x4D"
    by (simp_all add: mpfp_at_def signature_at_def MPFP_SIGNATURE_def signature_bytes)
  moreover have "table_memory 0xF0024 \<noteq> 0x4D" using sample_bytes(2) [of 4] by (simp add: mpfp_sample_def)
  ultimately show "a = 0xF0020" using table_memory_bytes(2) [of a] by auto
next
  have "sum_list mpfp_sample = 0" by (simp add: mpfp_sample_def)
  moreover have "unat (table_memory (0xF0020 + 8)) * 0x10 = 16" using sample_bytes(2) [of 8] by (simp add: mpfp_sample_def)
  ultimately show "mpfp_at table_memory a" if "a = 0xF0020"
    unfolding that mpfp_at_def signature_at_def MPFP_SIGNATURE_def signature_bytes checksum_sum
    using sample_bytes(2) [of 0] sample_bytes(2) [of 1] sample_bytes(2) [of 2] sample_bytes(2) [of 3]
    by (simp add: samples_in_memory mpfp_sample_def del: load_bytes.simps)
qed

theorem tables_init_finds_first_witness:
  "let t = tabs (tables_init (list_platform []) table_state) in
     rsdt_address (rsdt_pointer t) = 0x12345678 \<and> xsdt_address (rsdt_pointer t) = 0 \<and> mpfp (pc_pointer t) = mpfp_sample \<and>
     table_length (rsdt_header (rsdt_pointer t)) = 24 \<and> table_length (pc_header (pc_pointer t)) = 28"
proof -
  let ?m = table_memory and ?rom = "slots 0xE0000 0x20000"
  let ?low = "slots (low_start (push_bit 4 (ucast (load16 (mem (mach (bst table_state))) 0x40E))) (ucast (0x9FC00 :: u32))) 1024"
    and ?upper = "slots (ucast (0x9FC00 :: u32) - 1024) 1024"
  have g: "get_base_memory (list_platform []) (bst table_state) = (0x9FC00, bst table_state)"
    by (simp add: get_base_memory_def table_state_def)
  have m: "?m = mem (mach (bst table_state))" "tabs table_state = initial_tables" by (simp_all add: table_state_def)
  have in_rom: "0xE0010 \<in> set ?rom" "0xF0020 \<in> set ?rom" using slot [of 1 "0x20000" "0xE0000"] slot [of "0x1002" "0x20000" "0xE0000"] by simp_all
  have f: "find (rsdp_at ?m) (?low @ ?rom) = Some 0xE0010" "find (mpfp_at ?m) (?low @ ?upper @ ?rom) = Some 0xF0020"
    by (rule find_unique; use in_rom in \<open>simp add: table_memory_rsdp table_memory_mpfp\<close>)+
  have four: "4 = Suc (Suc (Suc (Suc 0)))" by simp
  have "load_bytes ?m (0xE0010 + 16) 4 = [0x78, 0x56, 0x34, 0x12]"
    using sample_bytes(1) [of 16] sample_bytes(1) [of 17] sample_bytes(1) [of 18] sample_bytes(1) [of 19]
    unfolding four by (simp add: rsdp_sample_def)
  then have "load32 ?m (0xE0010 + 16) = 0x12345678" by simp
  moreover have "?m (0xF0020 + 8) = 1" "?m (0xE0010 + 15) = 0"
    using sample_bytes(2) [of 8] sample_bytes(1) [of 15] by (simp_all add: mpfp_sample_def rsdp_sample_def)
  ultimately show ?thesis
    using tables_init_finds_first [OF g m(2,1) refl refl refl _ refl] f
    by (simp add: table_memory_mpfp samples_in_memory Let_def del: load_bytes.simps)
qed

section \<open>Tables that are passed on\<close>

text \<open>The identifier of a table read back as a string gives its four characters and a zero; the
  next table lies at the first multiple of 8 that is not below the end of this one; and the memory
  map table of \<open>n\<close> entries has \<open>n\<close> entries.\<close>

theorem gd_table_layout:
  "gd_table_id_to_string \<lparr>table_id = GD_TABLE_ID a b c d, table_length = l\<rparr> = [a, b, c, d, 0] \<and>
   (unat (table_length t) + 7 < 2 ^ 32 \<longrightarrow> unat p + unat (table_length t) + 7 < 2 ^ 64 \<longrightarrow> unat p mod 8 = 0 \<longrightarrow>
     unat (gd_next_table p t) mod 8 = 0 \<and> unat p + unat (table_length t) \<le> unat (gd_next_table p t) \<and>
     unat (gd_next_table p t) < unat p + unat (table_length t) + 8) \<and>
   (n < 107374182 \<longrightarrow> gd_mmap_get_size \<lparr>table_id = i, table_length = of_nat (8 + 40 * n)\<rparr> = of_nat n)"
proof -
  have "unat (gd_next_table p t) mod 8 = 0 \<and> unat p + unat (table_length t) \<le> unat (gd_next_table p t) \<and>
     unat (gd_next_table p t) < unat p + unat (table_length t) + 8"
    if "unat (table_length t) + 7 < 2 ^ 32" "unat p + unat (table_length t) + 7 < 2 ^ 64" "unat p mod 8 = 0"
    unfolding next_table [OF that] using round_up_nat [of 8 "unat p + unat (table_length t)"] by simp
  then show ?thesis using table_id_bytes mmap_table_size by blast
qed

theorem gd_table_layout_witness:
  "gd_table_id_to_string \<lparr>table_id = GD_RSDT_POINTER_TABLE_ID, table_length = 20\<rparr> = [0x52, 0x53, 0x44, 0x54, 0] \<and>
   unat (gd_next_table 0x1000 \<lparr>table_id = GD_RSDT_POINTER_TABLE_ID, table_length = 20\<rparr>) mod 8 = 0 \<and>
   gd_mmap_get_size \<lparr>table_id = 0, table_length = of_nat (8 + 40 * 3)\<rparr> = of_nat 3"
  using gd_table_layout [where a = "0x52" and b = "0x53" and c = "0x44" and d = "0x54" and l = 20 and p = "0x1000"
      and t = "\<lparr>table_id = GD_RSDT_POINTER_TABLE_ID, table_length = 20\<rparr>" and n = 3 and i = 0]
  by (simp add: GD_RSDT_POINTER_TABLE_ID_def)

end
