(* ===== verification/Splay.thy ===== *)
theory Splay
  imports Gandr_Prelude
begin

text \<open>
  The splay tree macros of \<^verbatim>\<open>include/gd_tree.h\<close>, over an explicit store of \<open>SPLAY_ENTRY\<close> members.  As for
  the red-black trees, a dereference of \<open>NULL\<close> and a loop that does not end are \<open>None\<close>.  The function
  \<open>SPLAY\<close> collects the parts of the tree that it passes in a structure \<^verbatim>\<open>__node\<close> on the stack; its address
  is the argument \<open>node\<close>, and the macros write to the store there.  \<open>f x\<close> stands for \<^verbatim>\<open>(cmp)(elm, x)\<close>.
\<close>

section \<open>Elements, heads and field access\<close>

record sp_entry =
  spe_left :: addr
  spe_right :: addr

record sp_tree =
  spn :: "addr \<Rightarrow> sp_entry"
  sph_root :: addr

definition SPLAY_INIT :: "sp_tree \<Rightarrow> sp_tree" where
  "SPLAY_INIT t = t\<lparr>sph_root := NULL\<rparr>"

definition SPLAY_EMPTY :: "sp_tree \<Rightarrow> bool" where
  "SPLAY_EMPTY t \<longleftrightarrow> sph_root t = NULL"

definition SPLAY_LEFT :: "sp_tree \<Rightarrow> addr \<Rightarrow> addr option" where
  "SPLAY_LEFT t e = (if e = NULL then None else Some (spe_left (spn t e)))"

definition SPLAY_RIGHT :: "sp_tree \<Rightarrow> addr \<Rightarrow> addr option" where
  "SPLAY_RIGHT t e = (if e = NULL then None else Some (spe_right (spn t e)))"

definition put_left :: "sp_tree \<Rightarrow> addr \<Rightarrow> addr \<Rightarrow> sp_tree option" where
  "put_left t e v = (if e = NULL then None else Some (t\<lparr>spn := (spn t)(e := (spn t e)\<lparr>spe_left := v\<rparr>)\<rparr>))"

definition put_right :: "sp_tree \<Rightarrow> addr \<Rightarrow> addr \<Rightarrow> sp_tree option" where
  "put_right t e v = (if e = NULL then None else Some (t\<lparr>spn := (spn t)(e := (spn t e)\<lparr>spe_right := v\<rparr>)\<rparr>))"

section \<open>Rotations and links\<close>

definition SPLAY_ROTATE_RIGHT :: "sp_tree \<Rightarrow> addr \<Rightarrow> sp_tree option" where
  "SPLAY_ROTATE_RIGHT t tmp = do {
     r \<leftarrow> SPLAY_RIGHT t tmp;
     t \<leftarrow> put_left t (sph_root t) r;
     t \<leftarrow> put_right t tmp (sph_root t);
     Some (t\<lparr>sph_root := tmp\<rparr>) }"

definition SPLAY_ROTATE_LEFT :: "sp_tree \<Rightarrow> addr \<Rightarrow> sp_tree option" where
  "SPLAY_ROTATE_LEFT t tmp = do {
     l \<leftarrow> SPLAY_LEFT t tmp;
     t \<leftarrow> put_right t (sph_root t) l;
     t \<leftarrow> put_left t tmp (sph_root t);
     Some (t\<lparr>sph_root := tmp\<rparr>) }"

text \<open>The two link macros assign the old root to their argument \<open>tmp\<close>, the first component of the result.\<close>

definition SPLAY_LINKLEFT :: "sp_tree \<Rightarrow> addr \<Rightarrow> (addr \<times> sp_tree) option" where
  "SPLAY_LINKLEFT t tmp = do {
     t \<leftarrow> put_left t tmp (sph_root t);
     l \<leftarrow> SPLAY_LEFT t (sph_root t);
     Some (sph_root t, t\<lparr>sph_root := l\<rparr>) }"

definition SPLAY_LINKRIGHT :: "sp_tree \<Rightarrow> addr \<Rightarrow> (addr \<times> sp_tree) option" where
  "SPLAY_LINKRIGHT t tmp = do {
     t \<leftarrow> put_right t tmp (sph_root t);
     r \<leftarrow> SPLAY_RIGHT t (sph_root t);
     Some (sph_root t, t\<lparr>sph_root := r\<rparr>) }"

definition SPLAY_ASSEMBLE :: "sp_tree \<Rightarrow> addr \<Rightarrow> addr \<Rightarrow> addr \<Rightarrow> sp_tree option" where
  "SPLAY_ASSEMBLE t node left right = do {
     l \<leftarrow> SPLAY_LEFT t (sph_root t);
     t \<leftarrow> put_right t left l;
     r \<leftarrow> SPLAY_RIGHT t (sph_root t);
     t \<leftarrow> put_left t right r;
     nr \<leftarrow> SPLAY_RIGHT t node;
     t \<leftarrow> put_left t (sph_root t) nr;
     nl \<leftarrow> SPLAY_LEFT t node;
     put_right t (sph_root t) nl }"

section \<open>Splaying\<close>

partial_function (option) splay_loop ::
  "(addr \<Rightarrow> int) \<Rightarrow> addr \<Rightarrow> addr \<Rightarrow> sp_tree \<Rightarrow> (addr \<times> addr \<times> sp_tree) option" where
  "splay_loop f left right t =
     (if sph_root t = NULL then None
      else if f (sph_root t) < 0 then do {
        tmp \<leftarrow> SPLAY_LEFT t (sph_root t);
        if tmp = NULL then Some (left, right, t)
        else if f tmp < 0 then do {
          t \<leftarrow> SPLAY_ROTATE_RIGHT t tmp;
          l \<leftarrow> SPLAY_LEFT t (sph_root t);
          if l = NULL then Some (left, right, t)
          else do { (right, t) \<leftarrow> SPLAY_LINKLEFT t right; splay_loop f left right t } }
        else do { (right, t) \<leftarrow> SPLAY_LINKLEFT t right; splay_loop f left right t } }
      else if f (sph_root t) > 0 then do {
        tmp \<leftarrow> SPLAY_RIGHT t (sph_root t);
        if tmp = NULL then Some (left, right, t)
        else if f tmp > 0 then do {
          t \<leftarrow> SPLAY_ROTATE_LEFT t tmp;
          r \<leftarrow> SPLAY_RIGHT t (sph_root t);
          if r = NULL then Some (left, right, t)
          else do { (left, t) \<leftarrow> SPLAY_LINKRIGHT t left; splay_loop f left right t } }
        else do { (left, t) \<leftarrow> SPLAY_LINKRIGHT t left; splay_loop f left right t } }
      else Some (left, right, t))"

definition SPLAY :: "addr \<Rightarrow> (addr \<Rightarrow> int) \<Rightarrow> sp_tree \<Rightarrow> sp_tree option" where
  "SPLAY node f t = do {
     t \<leftarrow> put_right t node NULL;
     t \<leftarrow> put_left t node NULL;
     (left, right, t) \<leftarrow> splay_loop f node node t;
     SPLAY_ASSEMBLE t node left right }"

partial_function (option) minmax_loop ::
  "int \<Rightarrow> addr \<Rightarrow> addr \<Rightarrow> sp_tree \<Rightarrow> (addr \<times> addr \<times> sp_tree) option" where
  "minmax_loop cmp_v left right t =
     (if cmp_v < 0 then do {
        tmp \<leftarrow> SPLAY_LEFT t (sph_root t);
        if tmp = NULL then Some (left, right, t)
        else if cmp_v < 0 then do {
          t \<leftarrow> SPLAY_ROTATE_RIGHT t tmp;
          l \<leftarrow> SPLAY_LEFT t (sph_root t);
          if l = NULL then Some (left, right, t)
          else do { (right, t) \<leftarrow> SPLAY_LINKLEFT t right; minmax_loop cmp_v left right t } }
        else do { (right, t) \<leftarrow> SPLAY_LINKLEFT t right; minmax_loop cmp_v left right t } }
      else if cmp_v > 0 then do {
        tmp \<leftarrow> SPLAY_RIGHT t (sph_root t);
        if tmp = NULL then Some (left, right, t)
        else if cmp_v > 0 then do {
          t \<leftarrow> SPLAY_ROTATE_LEFT t tmp;
          r \<leftarrow> SPLAY_RIGHT t (sph_root t);
          if r = NULL then Some (left, right, t)
          else do { (left, t) \<leftarrow> SPLAY_LINKRIGHT t left; minmax_loop cmp_v left right t } }
        else do { (left, t) \<leftarrow> SPLAY_LINKRIGHT t left; minmax_loop cmp_v left right t } }
      else minmax_loop cmp_v left right t)"

definition SPLAY_MINMAX :: "addr \<Rightarrow> int \<Rightarrow> sp_tree \<Rightarrow> sp_tree option" where
  "SPLAY_MINMAX node cmp_v t = do {
     t \<leftarrow> put_right t node NULL;
     t \<leftarrow> put_left t node NULL;
     (left, right, t) \<leftarrow> minmax_loop cmp_v node node t;
     SPLAY_ASSEMBLE t node left right }"

section \<open>Operations\<close>

definition SPLAY_INSERT :: "addr \<Rightarrow> (addr \<Rightarrow> addr \<Rightarrow> int) \<Rightarrow> sp_tree \<Rightarrow> addr \<Rightarrow> (sp_tree \<times> addr) option" where
  "SPLAY_INSERT node cmp t elm =
     (if SPLAY_EMPTY t then do {
        t \<leftarrow> put_right t elm NULL;
        t \<leftarrow> put_left t elm NULL;
        Some (t\<lparr>sph_root := elm\<rparr>, NULL) }
      else do {
        t \<leftarrow> SPLAY node (cmp elm) t;
        let cmp_v = cmp elm (sph_root t);
        if cmp_v < 0 then do {
          l \<leftarrow> SPLAY_LEFT t (sph_root t);
          t \<leftarrow> put_left t elm l;
          t \<leftarrow> put_right t elm (sph_root t);
          t \<leftarrow> put_left t (sph_root t) NULL;
          Some (t\<lparr>sph_root := elm\<rparr>, NULL) }
        else if cmp_v > 0 then do {
          r \<leftarrow> SPLAY_RIGHT t (sph_root t);
          t \<leftarrow> put_right t elm r;
          t \<leftarrow> put_left t elm (sph_root t);
          t \<leftarrow> put_right t (sph_root t) NULL;
          Some (t\<lparr>sph_root := elm\<rparr>, NULL) }
        else Some (t, sph_root t) })"

definition SPLAY_REMOVE :: "addr \<Rightarrow> (addr \<Rightarrow> addr \<Rightarrow> int) \<Rightarrow> sp_tree \<Rightarrow> addr \<Rightarrow> (sp_tree \<times> addr) option" where
  "SPLAY_REMOVE node cmp t elm =
     (if SPLAY_EMPTY t then Some (t, NULL)
      else do {
        t \<leftarrow> SPLAY node (cmp elm) t;
        if cmp elm (sph_root t) = 0 then do {
          l \<leftarrow> SPLAY_LEFT t (sph_root t);
          tmp \<leftarrow> SPLAY_RIGHT t (sph_root t);
          if l = NULL then Some (t\<lparr>sph_root := tmp\<rparr>, elm)
          else do {
            t \<leftarrow> SPLAY node (cmp elm) (t\<lparr>sph_root := l\<rparr>);
            t \<leftarrow> put_right t (sph_root t) tmp;
            Some (t, elm) } }
        else Some (t, NULL) })"

definition SPLAY_FIND :: "addr \<Rightarrow> (addr \<Rightarrow> int) \<Rightarrow> sp_tree \<Rightarrow> (sp_tree \<times> addr) option" where
  "SPLAY_FIND node f t =
     (if SPLAY_EMPTY t then Some (t, NULL)
      else do {
        t \<leftarrow> SPLAY node f t;
        Some (t, if f (sph_root t) = 0 then sph_root t else NULL) })"

partial_function (option) leftmost_from :: "sp_tree \<Rightarrow> addr \<Rightarrow> addr option" where
  "leftmost_from t elm = do {
     l \<leftarrow> SPLAY_LEFT t elm;
     if l \<noteq> NULL then leftmost_from t l else Some elm }"

definition SPLAY_NEXT :: "addr \<Rightarrow> (addr \<Rightarrow> addr \<Rightarrow> int) \<Rightarrow> sp_tree \<Rightarrow> addr \<Rightarrow> (sp_tree \<times> addr) option" where
  "SPLAY_NEXT node cmp t elm = do {
     t \<leftarrow> SPLAY node (cmp elm) t;
     r \<leftarrow> SPLAY_RIGHT t elm;
     if r \<noteq> NULL then do { x \<leftarrow> leftmost_from t r; Some (t, x) } else Some (t, NULL) }"

definition SPLAY_MIN_MAX :: "addr \<Rightarrow> int \<Rightarrow> sp_tree \<Rightarrow> (sp_tree \<times> addr) option" where
  "SPLAY_MIN_MAX node v t = do { t \<leftarrow> SPLAY_MINMAX node v t; Some (t, sph_root t) }"

definition SPLAY_NEGINF :: int where
  "SPLAY_NEGINF = -1"

definition SPLAY_INF :: int where
  "SPLAY_INF = 1"

definition SPLAY_MIN :: "addr \<Rightarrow> sp_tree \<Rightarrow> (sp_tree \<times> addr) option" where
  "SPLAY_MIN node t = (if SPLAY_EMPTY t then Some (t, NULL) else SPLAY_MIN_MAX node SPLAY_NEGINF t)"

definition SPLAY_MAX :: "addr \<Rightarrow> sp_tree \<Rightarrow> (sp_tree \<times> addr) option" where
  "SPLAY_MAX node t = (if SPLAY_EMPTY t then Some (t, NULL) else SPLAY_MIN_MAX node SPLAY_INF t)"

text \<open>The elements that a loop visits whose step also changes the tree, with the tree at the end.\<close>

partial_function (option) tree_walk ::
  "('t \<Rightarrow> 'a \<Rightarrow> ('t \<times> 'a) option) \<Rightarrow> 'a \<Rightarrow> 't \<Rightarrow> 'a \<Rightarrow> ('t \<times> 'a list) option" where
  "tree_walk nxt null t x =
     (if x = null then Some (t, [])
      else do { (t, y) \<leftarrow> nxt t x; (t, ys) \<leftarrow> tree_walk nxt null t y; Some (t, x # ys) })"

definition SPLAY_FOREACH :: "addr \<Rightarrow> (addr \<Rightarrow> addr \<Rightarrow> int) \<Rightarrow> sp_tree \<Rightarrow> (sp_tree \<times> addr list) option" where
  "SPLAY_FOREACH node cmp t = do { (t, x) \<leftarrow> SPLAY_MIN node t; tree_walk (SPLAY_NEXT node cmp) NULL t x }"

end
