(* ===== verification/Splay_Shape.thy ===== *)
theory Splay_Shape
  imports Splay Ordered_Tree "HOL-Library.Tree"
begin

text \<open>
  The state of a splaying loop: the tree in the middle, and the two chains that collect what was
  passed.  A chain is a list of pairs of an element and the subtree that hangs on its outer side,
  the oldest first; the last element's inner link is not yet valid.
\<close>

section \<open>Trees and chains in the store\<close>

fun is_sp :: "(addr \<Rightarrow> sp_entry) \<Rightarrow> addr \<Rightarrow> addr tree \<Rightarrow> bool" where
  "is_sp s a Leaf \<longleftrightarrow> a = NULL"
| "is_sp s a (Node l x r) \<longleftrightarrow> a = x \<and> x \<noteq> NULL \<and> is_sp s (spe_left (s x)) l \<and> is_sp s (spe_right (s x)) r"

fun lchain :: "(addr \<Rightarrow> sp_entry) \<Rightarrow> addr \<Rightarrow> (addr tree \<times> addr) list \<Rightarrow> addr \<Rightarrow> bool" where
  "lchain s p [] q \<longleftrightarrow> p = q"
| "lchain s p ((l, x) # L) q \<longleftrightarrow> spe_right (s p) = x \<and> x \<noteq> NULL \<and> is_sp s (spe_left (s x)) l \<and> lchain s x L q"

fun rchain :: "(addr \<Rightarrow> sp_entry) \<Rightarrow> addr \<Rightarrow> (addr \<times> addr tree) list \<Rightarrow> addr \<Rightarrow> bool" where
  "rchain s p [] q \<longleftrightarrow> p = q"
| "rchain s p ((x, r) # R) q \<longleftrightarrow> spe_left (s p) = x \<and> x \<noteq> NULL \<and> is_sp s (spe_right (s x)) r \<and> rchain s x R q"

definition llist :: "(addr tree \<times> addr) list \<Rightarrow> addr list" where
  "llist L = concat (map (\<lambda>(l, x). inorder l @ [x]) L)"

definition rlist :: "(addr \<times> addr tree) list \<Rightarrow> addr list" where
  "rlist R = concat (map (\<lambda>(x, r). x # inorder r) (rev R))"

fun lbuild :: "(addr tree \<times> addr) list \<Rightarrow> addr tree \<Rightarrow> addr tree" where
  "lbuild [] t = t"
| "lbuild ((l, x) # L) t = Node l x (lbuild L t)"

fun rbuild :: "(addr \<times> addr tree) list \<Rightarrow> addr tree \<Rightarrow> addr tree" where
  "rbuild [] t = t"
| "rbuild ((x, r) # R) t = Node (rbuild R t) x r"

lemma list_simps [simp]:
  "llist [] = []" "llist ((l, x) # L) = inorder l @ x # llist L" "llist (L @ L') = llist L @ llist L'"
  "rlist [] = []" "rlist ((x, r) # R) = rlist R @ x # inorder r" "rlist (R @ R') = rlist R' @ rlist R"
  by (simp_all add: llist_def rlist_def)

lemma inorder_build [simp]: "inorder (lbuild L t) = llist L @ inorder t" "inorder (rbuild R t) = inorder t @ rlist R"
  by (induction L t rule: lbuild.induct; simp) (induction R t rule: rbuild.induct; simp)

lemma is_sp_cong: "(\<And>z. z \<in> set (inorder T) \<Longrightarrow> s' z = s z) \<Longrightarrow> is_sp s' a T = is_sp s a T"
  by (induction T arbitrary: a) auto

lemma is_sp_upd [simp]: "q \<notin> set_tree T \<Longrightarrow> is_sp (s(q := e)) a T = is_sp s a T"
  by (rule is_sp_cong) auto

lemma is_sp_upd_if [simp]: "q \<notin> set_tree T \<Longrightarrow> is_sp (\<lambda>z. if z = q then e else s z) a T = is_sp s a T"
  by (rule is_sp_cong) auto

lemma is_sp_null [simp]: "is_sp s NULL T \<longleftrightarrow> T = Leaf"
  by (cases T) auto

lemma is_sp_not_null: "is_sp s a T \<Longrightarrow> NULL \<notin> set (inorder T)"
  by (induction T arbitrary: a) auto

section \<open>Frames\<close>

lemma chain_end:
  "lchain s p L q \<Longrightarrow> q = p \<or> q \<in> set (llist L)"
  "rchain s p R q \<Longrightarrow> q = p \<or> q \<in> set (rlist R)"
  by (induction s p L q rule: lchain.induct; auto) (induction s p R q rule: rchain.induct; auto)

lemma chain_not_null:
  "lchain s p L q \<Longrightarrow> NULL \<notin> set (llist L)" "rchain s p R q \<Longrightarrow> NULL \<notin> set (rlist R)"
  by (induction s p L q rule: lchain.induct; auto dest: is_sp_not_null)
    (induction s p R q rule: rchain.induct; auto dest: is_sp_not_null)

lemma lchain_other:
  "(\<And>z. z \<in> set (llist L) \<Longrightarrow> s' z = s z) \<Longrightarrow> spe_right (s' p) = spe_right (s p) \<Longrightarrow> lchain s p L q \<Longrightarrow> lchain s' p L q"
proof (induction s p L q rule: lchain.induct)
  case (2 s p l x L q)
  then show ?case using is_sp_cong [of l s' s] by auto
qed simp

lemma rchain_other:
  "(\<And>z. z \<in> set (rlist R) \<Longrightarrow> s' z = s z) \<Longrightarrow> spe_left (s' p) = spe_left (s p) \<Longrightarrow> rchain s p R q \<Longrightarrow> rchain s' p R q"
proof (induction s p R q rule: rchain.induct)
  case (2 s p x r R q)
  then show ?case using is_sp_cong [of r s' s] by auto
qed simp

text \<open>A chain does not depend on the inner link of its last element.\<close>

lemma lchain_end_link:
  "lchain s p L q \<Longrightarrow> distinct (llist L) \<Longrightarrow> p \<notin> set (llist L) \<Longrightarrow> lchain (s(q := (s q)\<lparr>spe_right := v\<rparr>)) p L q"
proof (induction L arbitrary: p)
  case (Cons a L)
  obtain l x where a: "a = (l, x)" by force
  with Cons have x: "spe_right (s p) = x" "x \<noteq> NULL" "is_sp s (spe_left (s x)) l" "lchain s x L q" by simp_all
  then have "q \<noteq> p" "q \<notin> set_tree l" using chain_end(1) [of s x L q] Cons.prems a by auto
  then show ?case using Cons x by (auto simp: a)
qed simp

lemma rchain_end_link:
  "rchain s p R q \<Longrightarrow> distinct (rlist R) \<Longrightarrow> p \<notin> set (rlist R) \<Longrightarrow> rchain (s(q := (s q)\<lparr>spe_left := v\<rparr>)) p R q"
proof (induction R arbitrary: p)
  case (Cons a R)
  obtain r x where a: "a = (x, r)" by force
  with Cons have x: "spe_left (s p) = x" "x \<noteq> NULL" "is_sp s (spe_right (s x)) r" "rchain s x R q" by simp_all
  then have "q \<noteq> p" "q \<notin> set_tree r" using chain_end(2) [of s x R q] Cons.prems a by auto
  then show ?case using Cons x by (auto simp: a)
qed simp

lemma chain_snoc:
  "lchain s p (L @ [(l, x)]) q \<longleftrightarrow>
     (\<exists>q'. lchain s p L q' \<and> spe_right (s q') = x) \<and> x \<noteq> NULL \<and> is_sp s (spe_left (s x)) l \<and> q = x"
  "rchain s p (R @ [(x, r)]) q \<longleftrightarrow>
     (\<exists>q'. rchain s p R q' \<and> spe_left (s q') = x) \<and> x \<noteq> NULL \<and> is_sp s (spe_right (s x)) r \<and> q = x"
proof -
  show "lchain s p (L @ [(l, x)]) q \<longleftrightarrow>
     (\<exists>q'. lchain s p L q' \<and> spe_right (s q') = x) \<and> x \<noteq> NULL \<and> is_sp s (spe_left (s x)) l \<and> q = x"
    by (induction L arbitrary: p) auto
  show "rchain s p (R @ [(x, r)]) q \<longleftrightarrow>
     (\<exists>q'. rchain s p R q' \<and> spe_left (s q') = x) \<and> x \<noteq> NULL \<and> is_sp s (spe_right (s x)) r \<and> q = x"
    by (induction R arbitrary: p) auto
qed

text \<open>With its last inner link pointing to a tree, a chain is a tree.\<close>

lemma lchain_build: "lchain s p L q \<Longrightarrow> is_sp s (spe_right (s q)) t \<Longrightarrow> is_sp s (spe_right (s p)) (lbuild L t)"
  by (induction s p L q rule: lchain.induct) auto

lemma rchain_build: "rchain s p R q \<Longrightarrow> is_sp s (spe_left (s q)) t \<Longrightarrow> is_sp s (spe_left (s p)) (rbuild R t)"
  by (induction s p R q rule: rchain.induct) auto

section \<open>The state of the loop\<close>

text \<open>
  \<open>splaying node f s0 W l r t L T R\<close>: the elements are those of the list \<open>W\<close>, in order; the store differs
  from \<open>s0\<close> only at them and at \<open>node\<close>; everything in the left chain has a smaller key and everything in the right chain a larger one.
\<close>

definition splaying ::
  "addr \<Rightarrow> (addr \<Rightarrow> int) \<Rightarrow> (addr \<Rightarrow> sp_entry) \<Rightarrow> addr list \<Rightarrow> addr \<Rightarrow> addr \<Rightarrow> sp_tree \<Rightarrow>
    (addr tree \<times> addr) list \<Rightarrow> addr tree \<Rightarrow> (addr \<times> addr tree) list \<Rightarrow> bool" where
  "splaying node f s0 W lp rp t L T R \<longleftrightarrow>
     lchain (spn t) node L lp \<and> rchain (spn t) node R rp \<and> is_sp (spn t) (sph_root t) T \<and>
     llist L @ inorder T @ rlist R = W \<and> distinct W \<and> node \<notin> set W \<and> node \<noteq> NULL \<and> ordered_for f W \<and>
     (\<forall>z. z \<notin> set W \<longrightarrow> z \<noteq> node \<longrightarrow> spn t z = s0 z) \<and>
     (\<forall>z\<in>set (llist L). f z > 0) \<and> (\<forall>z\<in>set (rlist R). f z < 0)"

lemma splaying_rotate_right:
  assumes "splaying node f s0 W lp rp t L (Node (Node a y b) x r) R"
  shows "\<exists>t'. SPLAY_ROTATE_RIGHT t y = Some t' \<and> splaying node f s0 W lp rp t' L (Node a y (Node b x r)) R"
proof -
  let ?s = "spn t"
  let ?s' = "(?s(x := (?s x)\<lparr>spe_left := spe_right (?s y)\<rparr>))(y := (?s y)\<lparr>spe_right := x\<rparr>)"
  have i: "lchain ?s node L lp" "rchain ?s node R rp" "sph_root t = x" "x \<noteq> NULL" "y \<noteq> NULL" "spe_left (?s x) = y"
    "is_sp ?s (spe_left (?s y)) a" "is_sp ?s (spe_right (?s y)) b" "is_sp ?s (spe_right (?s x)) r"
    "node \<noteq> NULL" "ordered_for f W" "\<forall>z. z \<notin> set W \<longrightarrow> z \<noteq> node \<longrightarrow> ?s z = s0 z"
    "\<forall>z\<in>set (llist L). f z > 0" "\<forall>z\<in>set (rlist R). f z < 0"
    and W: "W = llist L @ inorder a @ y # inorder b @ x # inorder r @ rlist R" "distinct W" "node \<notin> set W"
    using assms unfolding splaying_def by simp_all
  have d: "x \<notin> set (llist L)" "y \<notin> set (llist L)" "x \<notin> set (rlist R)" "y \<notin> set (rlist R)" "x \<noteq> y" "x \<noteq> node" "y \<noteq> node"
    "x \<notin> set_tree a" "x \<notin> set_tree b" "x \<notin> set_tree r" "y \<notin> set_tree a" "y \<notin> set_tree b" "y \<notin> set_tree r"
    using W(2,3) unfolding W(1) by auto
  have "SPLAY_ROTATE_RIGHT t y = Some (t\<lparr>spn := ?s', sph_root := y\<rparr>)"
    using i(3-6) d by (simp add: SPLAY_ROTATE_RIGHT_def SPLAY_RIGHT_def put_left_def put_right_def)
  moreover have "lchain ?s' node L lp" by (rule lchain_other [OF _ _ i(1)]) (use d in auto)
  moreover have "rchain ?s' node R rp" by (rule rchain_other [OF _ _ i(2)]) (use d in auto)
  moreover have "is_sp ?s' y (Node a y (Node b x r))" using i(4-9) d by simp
  moreover have "\<forall>z. z \<notin> set W \<longrightarrow> z \<noteq> node \<longrightarrow> ?s' z = s0 z" using i(12) by (simp add: W(1))
  ultimately show ?thesis using i(10,11,13,14) W unfolding splaying_def by simp
qed

lemma splaying_rotate_left:
  assumes "splaying node f s0 W lp rp t L (Node l x (Node b y c)) R"
  shows "\<exists>t'. SPLAY_ROTATE_LEFT t y = Some t' \<and> splaying node f s0 W lp rp t' L (Node (Node l x b) y c) R"
proof -
  let ?s = "spn t"
  let ?s' = "(?s(x := (?s x)\<lparr>spe_right := spe_left (?s y)\<rparr>))(y := (?s y)\<lparr>spe_left := x\<rparr>)"
  have i: "lchain ?s node L lp" "rchain ?s node R rp" "sph_root t = x" "x \<noteq> NULL" "y \<noteq> NULL" "spe_right (?s x) = y"
    "is_sp ?s (spe_left (?s x)) l" "is_sp ?s (spe_left (?s y)) b" "is_sp ?s (spe_right (?s y)) c"
    "node \<noteq> NULL" "ordered_for f W" "\<forall>z. z \<notin> set W \<longrightarrow> z \<noteq> node \<longrightarrow> ?s z = s0 z"
    "\<forall>z\<in>set (llist L). f z > 0" "\<forall>z\<in>set (rlist R). f z < 0"
    and W: "W = llist L @ inorder l @ x # inorder b @ y # inorder c @ rlist R" "distinct W" "node \<notin> set W"
    using assms unfolding splaying_def by simp_all
  have d: "x \<notin> set (llist L)" "y \<notin> set (llist L)" "x \<notin> set (rlist R)" "y \<notin> set (rlist R)" "x \<noteq> y" "x \<noteq> node" "y \<noteq> node"
    "x \<notin> set_tree l" "x \<notin> set_tree b" "x \<notin> set_tree c" "y \<notin> set_tree l" "y \<notin> set_tree b" "y \<notin> set_tree c"
    using W(2,3) unfolding W(1) by auto
  have "SPLAY_ROTATE_LEFT t y = Some (t\<lparr>spn := ?s', sph_root := y\<rparr>)"
    using i(3-6) d by (simp add: SPLAY_ROTATE_LEFT_def SPLAY_LEFT_def put_left_def put_right_def)
  moreover have "lchain ?s' node L lp" by (rule lchain_other [OF _ _ i(1)]) (use d in auto)
  moreover have "rchain ?s' node R rp" by (rule rchain_other [OF _ _ i(2)]) (use d in auto)
  moreover have "is_sp ?s' y (Node (Node l x b) y c)" using i(4-9) d by simp
  moreover have "\<forall>z. z \<notin> set W \<longrightarrow> z \<noteq> node \<longrightarrow> ?s' z = s0 z" using i(12) by (simp add: W(1))
  ultimately show ?thesis using i(10,11,13,14) W unfolding splaying_def by simp
qed

text \<open>The ends of the chains are not in the tree; the end of each chain is in the other one only if it is \<open>node\<close>.\<close>

lemma chain_ends_apart:
  assumes "splaying node f s0 W lp rp t L T R"
  shows "lp \<noteq> NULL" "rp \<noteq> NULL" "lp \<notin> set_tree T" "rp \<notin> set_tree T" "lp \<notin> set (rlist R)" "rp \<notin> set (llist L)"
    "lp = node \<or> lp \<in> set (llist L)" "rp = node \<or> rp \<in> set (rlist R)"
proof -
  have i: "lchain (spn t) node L lp" "rchain (spn t) node R rp" "node \<noteq> NULL" and W: "W = llist L @ inorder T @ rlist R" "distinct W" "node \<notin> set W"
    using assms unfolding splaying_def by simp_all
  note e = chain_end(1) [OF i(1)] chain_end(2) [OF i(2)]
  show "lp \<noteq> NULL" "rp \<noteq> NULL" using e chain_not_null(1) [OF i(1)] chain_not_null(2) [OF i(2)] i(3) by auto
  show "lp \<notin> set_tree T" "rp \<notin> set_tree T" "lp \<notin> set (rlist R)" "rp \<notin> set (llist L)" using e W(2,3) unfolding W(1) by auto
  show "lp = node \<or> lp \<in> set (llist L)" "rp = node \<or> rp \<in> set (rlist R)" using e by simp_all
qed

lemma splaying_link_left:
  assumes "splaying node f s0 W lp rp t L (Node l x r) R" "f x < 0"
  shows "\<exists>t'. SPLAY_LINKLEFT t rp = Some (x, t') \<and> splaying node f s0 W lp x t' L l (R @ [(x, r)])"
proof -
  let ?s = "spn t"
  let ?s' = "?s(rp := (?s rp)\<lparr>spe_left := x\<rparr>)"
  have i: "lchain ?s node L lp" "rchain ?s node R rp" "sph_root t = x" "x \<noteq> NULL" "is_sp ?s (spe_left (?s x)) l" "is_sp ?s (spe_right (?s x)) r"
    "node \<noteq> NULL" "ordered_for f W" "\<forall>z. z \<notin> set W \<longrightarrow> z \<noteq> node \<longrightarrow> ?s z = s0 z"
    "\<forall>z\<in>set (llist L). f z > 0" "\<forall>z\<in>set (rlist R). f z < 0"
    and W: "W = llist L @ inorder l @ x # inorder r @ rlist R" "distinct W" "node \<notin> set W"
    using assms unfolding splaying_def by simp_all
  note e = chain_ends_apart [OF assms(1)]
  have "SPLAY_LINKLEFT t rp = Some (x, t\<lparr>spn := ?s', sph_root := spe_left (?s x)\<rparr>)"
    using i(3,4) e by (auto simp: SPLAY_LINKLEFT_def SPLAY_LEFT_def put_left_def)
  moreover have "lchain ?s' node L lp" by (rule lchain_other [OF _ _ i(1)]) (use e in auto)
  moreover have "rchain ?s' node R rp" by (rule rchain_end_link [OF i(2)]) (use W(2,3) in \<open>simp_all add: W(1)\<close>)
  then have "rchain ?s' node (R @ [(x, r)]) x" unfolding chain_snoc using i(4,6) e by (intro conjI exI [of _ rp]) auto
  moreover have "is_sp ?s' (spe_left (?s x)) l" using i(5) e by simp
  moreover have "\<forall>z. z \<notin> set W \<longrightarrow> z \<noteq> node \<longrightarrow> ?s' z = s0 z" using i(9) e(8) by (auto simp: W(1))
  moreover have "\<forall>z\<in>set (rlist (R @ [(x, r)])). f z < 0"
    using i(8,11) assms(2) unfolding W(1) by (auto simp: ordered_for_append ordered_for_Cons)
  ultimately show ?thesis using i(7,8,10) W unfolding splaying_def by simp
qed

lemma splaying_link_right:
  assumes "splaying node f s0 W lp rp t L (Node l x r) R" "f x > 0"
  shows "\<exists>t'. SPLAY_LINKRIGHT t lp = Some (x, t') \<and> splaying node f s0 W x rp t' (L @ [(l, x)]) r R"
proof -
  let ?s = "spn t"
  let ?s' = "?s(lp := (?s lp)\<lparr>spe_right := x\<rparr>)"
  have i: "lchain ?s node L lp" "rchain ?s node R rp" "sph_root t = x" "x \<noteq> NULL" "is_sp ?s (spe_left (?s x)) l" "is_sp ?s (spe_right (?s x)) r"
    "node \<noteq> NULL" "ordered_for f W" "\<forall>z. z \<notin> set W \<longrightarrow> z \<noteq> node \<longrightarrow> ?s z = s0 z"
    "\<forall>z\<in>set (llist L). f z > 0" "\<forall>z\<in>set (rlist R). f z < 0"
    and W: "W = llist L @ inorder l @ x # inorder r @ rlist R" "distinct W" "node \<notin> set W"
    using assms unfolding splaying_def by simp_all
  note e = chain_ends_apart [OF assms(1)]
  have "SPLAY_LINKRIGHT t lp = Some (x, t\<lparr>spn := ?s', sph_root := spe_right (?s x)\<rparr>)"
    using i(3,4) e by (auto simp: SPLAY_LINKRIGHT_def SPLAY_RIGHT_def put_right_def)
  moreover have "lchain ?s' node L lp" by (rule lchain_end_link [OF i(1)]) (use W(2,3) in \<open>simp_all add: W(1)\<close>)
  then have "lchain ?s' node (L @ [(l, x)]) x" unfolding chain_snoc using i(4,5) e by (intro conjI exI [of _ lp]) auto
  moreover have "rchain ?s' node R rp" by (rule rchain_other [OF _ _ i(2)]) (use e in auto)
  moreover have "is_sp ?s' (spe_right (?s x)) r" using i(6) e by simp
  moreover have "\<forall>z. z \<notin> set W \<longrightarrow> z \<noteq> node \<longrightarrow> ?s' z = s0 z" using i(9) e(7) by (auto simp: W(1))
  moreover have "\<forall>z\<in>set (llist (L @ [(l, x)])). f z > 0"
    using i(8,10) assms(2) unfolding W(1) by (fastforce simp: ordered_for_append ordered_for_Cons)
  ultimately show ?thesis using i(7,8,11) W unfolding splaying_def by simp
qed

end
