(* ===== verification/Splay_Correct.thy ===== *)
theory Splay_Correct
  imports Splay_Shape
begin

text \<open>
  Splaying brings the element with the key, or one of its neighbours, to the root and keeps the
  order of the elements; and what the operations on splay trees do to the elements in order.
\<close>

section \<open>The loop\<close>

text \<open>Where the loop stops: at the key, or at the last element on its side.\<close>

definition splay_stop :: "(addr \<Rightarrow> int) \<Rightarrow> addr tree \<Rightarrow> bool" where
  "splay_stop f T \<longleftrightarrow> (case T of Leaf \<Rightarrow> False
     | Node l x r \<Rightarrow> f x = 0 \<or> f x < 0 \<and> l = Leaf \<or> f x > 0 \<and> r = Leaf)"

lemma splaying_root:
  assumes "splaying node f s0 W lp rp t L (Node l x r) R"
  shows "sph_root t = x" "x \<noteq> NULL" "SPLAY_LEFT t x = Some (spe_left (spn t x))" "SPLAY_RIGHT t x = Some (spe_right (spn t x))"
    "spe_left (spn t x) = NULL \<longleftrightarrow> l = Leaf" "spe_right (spn t x) = NULL \<longleftrightarrow> r = Leaf"
    "l = Node a y b \<Longrightarrow> spe_left (spn t x) = y" "r = Node a y b \<Longrightarrow> spe_right (spn t x) = y"
  using assms by (auto simp: splaying_def SPLAY_LEFT_def SPLAY_RIGHT_def)

definition splayed :: "addr \<Rightarrow> (addr \<Rightarrow> int) \<Rightarrow> (addr \<Rightarrow> sp_entry) \<Rightarrow> addr list \<Rightarrow> (addr \<times> addr \<times> sp_tree) option \<Rightarrow> bool" where
  "splayed node f s0 W res \<longleftrightarrow>
     (\<exists>lp rp t L T R. res = Some (lp, rp, t) \<and> splaying node f s0 W lp rp t L T R \<and> splay_stop f T)"

lemma splayedI:
  "splaying node f s0 W lp rp t L T R \<Longrightarrow> splay_stop f T \<Longrightarrow> splayed node f s0 W (Some (lp, rp, t))"
  unfolding splayed_def by blast

lemma splay_loop_left:
  assumes "splaying node f s0 W lp rp t L (Node l x r) R" "f x < 0"
    and IH: "\<And>lp rp t L T R. splaying node f s0 W lp rp t L T R \<Longrightarrow> T \<noteq> Leaf \<Longrightarrow> size T < size (Node l x r) \<Longrightarrow>
      splayed node f s0 W (splay_loop f lp rp t)"
  shows "splayed node f s0 W (splay_loop f lp rp t)"
proof (cases l)
  case Leaf
  then have "splay_loop f lp rp t = Some (lp, rp, t)"
    using splaying_root [OF assms(1)] assms(2) by (simp add: splay_loop.simps)
  then show ?thesis using splayedI [OF assms(1)] Leaf assms(2) by (simp add: splay_stop_def)
next
  case (Node a y b)
  note root = splaying_root [OF assms(1)]
  have y: "spe_left (spn t x) = y" "y \<noteq> NULL" using root(5,7) Node by auto
  show ?thesis
  proof (cases "f y < 0")
    case False
    from splaying_link_left [OF assms(1,2)] obtain t' where t': "SPLAY_LINKLEFT t rp = Some (x, t')"
      "splaying node f s0 W lp x t' L l (R @ [(x, r)])" by blast
    then have "splay_loop f lp rp t = splay_loop f lp x t'"
      using root assms(2) y False by (subst splay_loop.simps) simp
    then show ?thesis using IH [OF t'(2)] Node by simp
  next
    case True
    from splaying_rotate_right [OF assms(1) [unfolded Node]] obtain t' where t': "SPLAY_ROTATE_RIGHT t y = Some t'"
      "splaying node f s0 W lp rp t' L (Node a y (Node b x r)) R" by blast
    note root' = splaying_root [OF t'(2)]
    show ?thesis
    proof (cases a)
      case Leaf
      then have "splay_loop f lp rp t = Some (lp, rp, t')"
        using root root' assms(2) y True t'(1) by (subst splay_loop.simps) simp
      then show ?thesis using splayedI [OF t'(2)] Leaf True by (simp add: splay_stop_def)
    next
      case a: (Node _ _ _)
      from splaying_link_left [OF t'(2) True] obtain u where u: "SPLAY_LINKLEFT t' rp = Some (y, u)"
        "splaying node f s0 W lp y u L a (R @ [(y, Node b x r)])" by blast
      then have "splay_loop f lp rp t = splay_loop f lp y u"
        using root root' assms(2) y True t'(1) a by (subst splay_loop.simps) simp
      then show ?thesis using IH [OF u(2)] a Node by simp
    qed
  qed
qed

lemma splay_loop_right:
  assumes "splaying node f s0 W lp rp t L (Node l x r) R" "f x > 0"
    and IH: "\<And>lp rp t L T R. splaying node f s0 W lp rp t L T R \<Longrightarrow> T \<noteq> Leaf \<Longrightarrow> size T < size (Node l x r) \<Longrightarrow>
      splayed node f s0 W (splay_loop f lp rp t)"
  shows "splayed node f s0 W (splay_loop f lp rp t)"
proof (cases r)
  case Leaf
  then have "splay_loop f lp rp t = Some (lp, rp, t)"
    using splaying_root [OF assms(1)] assms(2) by (simp add: splay_loop.simps)
  then show ?thesis using splayedI [OF assms(1)] Leaf assms(2) by (simp add: splay_stop_def)
next
  case (Node b y c)
  note root = splaying_root [OF assms(1)]
  have y: "spe_right (spn t x) = y" "y \<noteq> NULL" using root(6,8) Node by auto
  show ?thesis
  proof (cases "f y > 0")
    case False
    from splaying_link_right [OF assms(1,2)] obtain t' where t': "SPLAY_LINKRIGHT t lp = Some (x, t')"
      "splaying node f s0 W x rp t' (L @ [(l, x)]) r R" by blast
    then have "splay_loop f lp rp t = splay_loop f x rp t'"
      using root assms(2) y False by (subst splay_loop.simps) simp
    then show ?thesis using IH [OF t'(2)] Node by simp
  next
    case True
    from splaying_rotate_left [OF assms(1) [unfolded Node]] obtain t' where t': "SPLAY_ROTATE_LEFT t y = Some t'"
      "splaying node f s0 W lp rp t' L (Node (Node l x b) y c) R" by blast
    note root' = splaying_root [OF t'(2)]
    show ?thesis
    proof (cases c)
      case Leaf
      then have "splay_loop f lp rp t = Some (lp, rp, t')"
        using root root' assms(2) y True t'(1) by (subst splay_loop.simps) simp
      then show ?thesis using splayedI [OF t'(2)] Leaf True by (simp add: splay_stop_def)
    next
      case c: (Node _ _ _)
      from splaying_link_right [OF t'(2) True] obtain u where u: "SPLAY_LINKRIGHT t' lp = Some (y, u)"
        "splaying node f s0 W y rp u (L @ [(Node l x b, y)]) c R" by blast
      then have "splay_loop f lp rp t = splay_loop f y rp u"
        using root root' assms(2) y True t'(1) c by (subst splay_loop.simps) simp
      then show ?thesis using IH [OF u(2)] c Node by simp
    qed
  qed
qed

lemma splay_loop_ok:
  "splaying node f s0 W lp rp t L T R \<Longrightarrow> T \<noteq> Leaf \<Longrightarrow> splayed node f s0 W (splay_loop f lp rp t)"
proof (induction "size T" arbitrary: lp rp t L T R rule: less_induct)
  case less
  then obtain l x r where T: "T = Node l x r" by (cases T) auto
  consider "f x = 0" | "f x < 0" | "f x > 0" by linarith
  then show ?case
  proof cases
    case 1
    then have "splay_loop f lp rp t = Some (lp, rp, t)"
      using splaying_root [OF less.prems(1) [unfolded T]] by (simp add: splay_loop.simps)
    then show ?thesis using splayedI [OF less.prems(1)] 1 by (simp add: splay_stop_def T)
  qed (use splay_loop_left [OF less.prems(1) [unfolded T]] splay_loop_right [OF less.prems(1) [unfolded T]] less.hyps T in blast)+
qed

section \<open>Assembling\<close>

text \<open>
  The tree after splaying: the elements \<open>W\<close> in order, with smaller keys on the left of the root and
  larger ones on the right.
\<close>

definition splay_post :: "addr \<Rightarrow> (addr \<Rightarrow> int) \<Rightarrow> (addr \<Rightarrow> sp_entry) \<Rightarrow> addr list \<Rightarrow> sp_tree \<Rightarrow> addr tree \<Rightarrow> addr \<Rightarrow> addr tree \<Rightarrow> bool" where
  "splay_post node f s0 W t l x r \<longleftrightarrow> sph_root t = x \<and> is_sp (spn t) x (Node l x r) \<and> inorder l @ x # inorder r = W \<and>
     (\<forall>y\<in>set_tree l. f y > 0) \<and> (\<forall>y\<in>set_tree r. f y < 0) \<and> (\<forall>z. z \<notin> set W \<longrightarrow> z \<noteq> node \<longrightarrow> spn t z = s0 z)"

lemma splay_stop_keys:
  assumes "splay_stop f (Node l x r)" "ordered_for f (inorder l @ x # inorder r)"
  shows "\<forall>y\<in>set_tree l. f y > 0" "\<forall>y\<in>set_tree r. f y < 0"
  using assms by (fastforce simp: splay_stop_def ordered_for_append ordered_for_Cons)+

lemma assemble_ok:
  assumes "splaying node f s0 W lp rp t L (Node l x r) R" "splay_stop f (Node l x r)"
  shows "\<exists>t'. SPLAY_ASSEMBLE t node lp rp = Some t' \<and> splay_post node f s0 W t' (lbuild L l) x (rbuild R r)"
proof -
  let ?s = "spn t"
  let ?s1 = "?s(lp := (?s lp)\<lparr>spe_right := spe_left (?s x)\<rparr>)"
  let ?s2 = "?s1(rp := (?s1 rp)\<lparr>spe_left := spe_right (?s x)\<rparr>)"
  let ?e = "(?s2 x)\<lparr>spe_left := spe_right (?s2 node), spe_right := spe_left (?s2 node)\<rparr>"
  have i: "lchain ?s node L lp" "rchain ?s node R rp" "sph_root t = x" "x \<noteq> NULL" "is_sp ?s (spe_left (?s x)) l" "is_sp ?s (spe_right (?s x)) r"
    "node \<noteq> NULL" "ordered_for f W" "\<forall>z. z \<notin> set W \<longrightarrow> z \<noteq> node \<longrightarrow> ?s z = s0 z"
    "\<forall>z\<in>set (llist L). f z > 0" "\<forall>z\<in>set (rlist R). f z < 0"
    and W: "W = llist L @ inorder l @ x # inorder r @ rlist R" "distinct W" "node \<notin> set W"
    using assms unfolding splaying_def by simp_all
  note e = chain_ends_apart [OF assms(1)]
  have x: "lp \<noteq> x" "rp \<noteq> x" "node \<noteq> x" "x \<notin> set (llist L)" "x \<notin> set_tree l" "x \<notin> set_tree r" "x \<notin> set (rlist R)"
    using e W(2,3) unfolding W(1) by auto
  have "SPLAY_ASSEMBLE t node lp rp = Some (t\<lparr>spn := ?s2(x := ?e)\<rparr>)"
    using i(3,4,7) e(1,2) x(1-3) by (auto simp: SPLAY_ASSEMBLE_def SPLAY_LEFT_def SPLAY_RIGHT_def put_left_def put_right_def)
  moreover have "lchain ?s1 node L lp" by (rule lchain_end_link [OF i(1)]) (use W(2,3) in \<open>simp_all add: W(1)\<close>)
  then have "lchain ?s2 node L lp" by (rule lchain_other [rotated 2]) (use e in auto)
  then have "is_sp ?s2 (spe_right (?s2 node)) (lbuild L l)" by (rule lchain_build) (use i(5) e in auto)
  then have "is_sp (?s2(x := ?e)) (spe_right (?s2 node)) (lbuild L l)" by (subst is_sp_upd) (use x in \<open>simp_all add: set_inorder [symmetric] del: set_inorder\<close>)
  moreover have "rchain ?s1 node R rp" by (rule rchain_other [OF _ _ i(2)]) (use e in auto)
  then have "rchain ?s2 node R rp" by (rule rchain_end_link) (use W(2,3) in \<open>simp_all add: W(1)\<close>)
  then have "is_sp ?s2 (spe_left (?s2 node)) (rbuild R r)" by (rule rchain_build) (use i(6) e in auto)
  then have "is_sp (?s2(x := ?e)) (spe_left (?s2 node)) (rbuild R r)" by (subst is_sp_upd) (use x in \<open>simp_all add: set_inorder [symmetric] del: set_inorder\<close>)
  moreover have "\<forall>z. z \<notin> set W \<longrightarrow> z \<noteq> node \<longrightarrow> (?s2(x := ?e)) z = s0 z" using i(9) e(7,8) by (auto simp: W(1))
  moreover have "W = llist L @ (inorder l @ x # inorder r) @ rlist R" by (simp add: W(1))
  then have "ordered_for f (inorder l @ x # inorder r)" using i(8) ordered_for_append by metis
  note splay_stop_keys [OF assms(2) this]
  ultimately show ?thesis
    using i(3,4,10,11) by (auto simp: splay_post_def W(1) set_inorder [symmetric] simp del: set_inorder)
qed

section \<open>Splaying\<close>

definition sp_inv :: "sp_tree \<Rightarrow> addr list \<Rightarrow> bool" where
  "sp_inv t xs \<longleftrightarrow> (\<exists>T. is_sp (spn t) (sph_root t) T \<and> inorder T = xs \<and> distinct xs)"

lemma splay_start:
  assumes "is_sp (spn t) (sph_root t) T" "T \<noteq> Leaf" "distinct (inorder T)" "node \<noteq> NULL" "node \<notin> set_tree T" "ordered_for f (inorder T)"
  shows "\<exists>t'. put_right t node NULL \<bind> (\<lambda>t. put_left t node NULL) = Some t' \<and>
    splaying node f (spn t) (inorder T) node node t' [] T []"
  using assms by (simp add: put_left_def put_right_def splaying_def)

lemma splay_ok:
  assumes "is_sp (spn t) (sph_root t) T" "T \<noteq> Leaf" "distinct (inorder T)" "node \<noteq> NULL" "node \<notin> set_tree T" "ordered_for f (inorder T)"
  shows "\<exists>t' l x r. SPLAY node f t = Some t' \<and> splay_post node f (spn t) (inorder T) t' l x r"
proof -
  from splay_start [OF assms] obtain u where u: "put_right t node NULL \<bind> (\<lambda>t. put_left t node NULL) = Some u"
    "splaying node f (spn t) (inorder T) node node u [] T []" by blast
  from splay_loop_ok [OF u(2) assms(2)] obtain lp rp v L V R where v: "splay_loop f node node u = Some (lp, rp, v)"
    "splaying node f (spn t) (inorder T) lp rp v L V R" "splay_stop f V" unfolding splayed_def by blast
  then obtain l x r where V: "V = Node l x r" by (cases V) (auto simp: splay_stop_def)
  have "SPLAY node f t = SPLAY_ASSEMBLE v node lp rp"
    unfolding SPLAY_def bind_assoc [symmetric] u(1) by (simp add: v(1))
  then show ?thesis using assemble_ok [OF v(2,3) [unfolded V]] by auto
qed

end
