(* ===== verification/Splay_Operations.thy ===== *)
theory Splay_Operations
  imports Splay_Correct
begin

text \<open>What the operations on splay trees do to the elements in order.\<close>

section \<open>Trees that are splayed\<close>

text \<open>The stack variable lies outside of the tree.\<close>

definition stack_ok :: "addr \<Rightarrow> addr list \<Rightarrow> bool" where
  "stack_ok node xs \<longleftrightarrow> node \<noteq> NULL \<and> node \<notin> set xs"

lemma sp_inv_root: "sp_inv t xs \<Longrightarrow> sph_root t = NULL \<longleftrightarrow> xs = []"
proof -
  assume "sp_inv t xs"
  then obtain T where "is_sp (spn t) (sph_root t) T" "inorder T = xs" by (auto simp: sp_inv_def)
  then show ?thesis by (cases T) auto
qed

lemma splay_inv:
  assumes "sp_inv t xs" "xs \<noteq> []" "stack_ok node xs" "ordered_for f xs"
  shows "\<exists>t' l x r. SPLAY node f t = Some t' \<and> splay_post node f (spn t) xs t' l x r"
proof -
  from assms(1) obtain T where T: "is_sp (spn t) (sph_root t) T" "inorder T = xs" "distinct xs" by (auto simp: sp_inv_def)
  then show ?thesis using splay_ok [OF T(1), of node f] assms by (auto simp: stack_ok_def)
qed

lemma splay_postD:
  assumes "splay_post node f s W t l x r" "distinct W"
  shows "sph_root t = x" "x \<noteq> NULL" "is_sp (spn t) (spe_left (spn t x)) l" "is_sp (spn t) (spe_right (spn t x)) r"
    "W = inorder l @ x # inorder r" "\<forall>y\<in>set_tree l. f y > 0" "\<forall>y\<in>set_tree r. f y < 0"
    "x \<notin> set_tree l" "x \<notin> set_tree r" "set_tree l \<inter> set_tree r = {}" "distinct (inorder l)" "distinct (inorder r)"
    "\<And>z. z \<notin> set W \<Longrightarrow> z \<noteq> node \<Longrightarrow> spn t z = s z" "sp_inv t W"
  using assms by (auto simp: splay_post_def sp_inv_def intro!: exI [of _ "Node l x r"])

lemma sp_inv_distinct: "sp_inv t xs \<Longrightarrow> distinct xs"
  by (auto simp: sp_inv_def)

section \<open>Insertion and search\<close>

lemma splay_insert_new:
  assumes "sp_inv t xs" "stack_ok node xs" "ordered_for (cmp e) xs" "e \<noteq> NULL" "e \<notin> set xs" "e \<noteq> node" "\<forall>z\<in>set xs. cmp e z \<noteq> 0"
  shows "\<exists>t'. SPLAY_INSERT node cmp t e = Some (t', NULL) \<and> sp_inv t' (insert_place cmp e xs) \<and>
    (\<forall>z. z \<notin> set xs \<longrightarrow> z \<noteq> e \<longrightarrow> z \<noteq> node \<longrightarrow> spn t' z = spn t z)"
proof (cases "xs = []")
  case True
  then show ?thesis using assms(4) sp_inv_root [OF assms(1)]
    by (auto simp: SPLAY_INSERT_def SPLAY_EMPTY_def put_left_def put_right_def sp_inv_def insert_place_def intro!: exI [of _ "Node Leaf e Leaf"])
next
  case False
  from splay_inv [OF assms(1) False assms(2,3)] obtain u l x r where u: "SPLAY node (cmp e) t = Some u"
    "splay_post node (cmp e) (spn t) xs u l x r" by blast
  note d = splay_postD [OF u(2) sp_inv_distinct [OF assms(1)]]
  have e: "e \<noteq> x" "e \<notin> set_tree l" "e \<notin> set_tree r" using assms(5) by (auto simp: d(5))
  have ne: "\<not> SPLAY_EMPTY t" using sp_inv_root [OF assms(1)] False by (simp add: SPLAY_EMPTY_def)
  consider "cmp e x < 0" | "cmp e x > 0" using assms(7) d(5) by fastforce
  then show ?thesis
  proof cases
    case 1
    let ?s = "(spn u)(e := (spn u e)\<lparr>spe_left := spe_left (spn u x), spe_right := x\<rparr>, x := (spn u x)\<lparr>spe_left := NULL\<rparr>)"
    have "SPLAY_INSERT node cmp t e = Some (u\<lparr>spn := ?s, sph_root := e\<rparr>, NULL)"
      using ne u(1) d(1,2) e 1 assms(4) by (simp add: SPLAY_INSERT_def SPLAY_LEFT_def put_left_def put_right_def)
    moreover have "is_sp ?s e (Node l e (Node Leaf x r))" using d e assms(4) by simp
    moreover have "insert_place cmp e xs = inorder l @ e # x # inorder r"
      using insert_place_split [of "inorder l" cmp e "x # inorder r"] d(5,6,7) 1 by simp
    ultimately show ?thesis using d e sp_inv_distinct [OF assms(1)]
      by (auto simp: sp_inv_def intro!: exI [of _ "Node l e (Node Leaf x r)"])
  next
    case 2
    let ?s = "(spn u)(e := (spn u e)\<lparr>spe_right := spe_right (spn u x), spe_left := x\<rparr>, x := (spn u x)\<lparr>spe_right := NULL\<rparr>)"
    have "SPLAY_INSERT node cmp t e = Some (u\<lparr>spn := ?s, sph_root := e\<rparr>, NULL)"
      using ne u(1) d(1,2) e 2 assms(4) by (simp add: SPLAY_INSERT_def SPLAY_RIGHT_def put_left_def put_right_def)
    moreover have "is_sp ?s e (Node (Node l x Leaf) e r)" using d e assms(4) by simp
    moreover have "insert_place cmp e xs = inorder l @ x # e # inorder r"
      using insert_place_split [of "inorder l @ [x]" cmp e "inorder r"] d(5,6,7) 2 by simp
    ultimately show ?thesis using d e sp_inv_distinct [OF assms(1)]
      by (auto simp: sp_inv_def intro!: exI [of _ "Node (Node l x Leaf) e r"])
  qed
qed

text \<open>The element with the key, if there is one, is the root.\<close>

lemma splay_post_key:
  assumes "splay_post node f s W t l x r" "distinct W" "z \<in> set W" "f z = 0"
  shows "z = x"
  using splay_postD(5-7) [OF assms(1,2)] assms(3,4) by fastforce

lemma splay_insert_found:
  assumes "sp_inv t xs" "stack_ok node xs" "ordered_for (cmp e) xs" "z \<in> set xs" "cmp e z = 0"
  shows "\<exists>t'. SPLAY_INSERT node cmp t e = Some (t', z) \<and> sp_inv t' xs \<and> (\<forall>z. z \<notin> set xs \<longrightarrow> z \<noteq> node \<longrightarrow> spn t' z = spn t z)"
proof -
  have ne: "xs \<noteq> []" "\<not> SPLAY_EMPTY t" using sp_inv_root [OF assms(1)] assms(4) by (auto simp: SPLAY_EMPTY_def)
  from splay_inv [OF assms(1) ne(1) assms(2,3)] obtain u l x r where u: "SPLAY node (cmp e) t = Some u"
    "splay_post node (cmp e) (spn t) xs u l x r" by blast
  note d = splay_postD [OF u(2) sp_inv_distinct [OF assms(1)]]
  have "z = x" using splay_post_key [OF u(2) sp_inv_distinct [OF assms(1)] assms(4,5)] .
  then show ?thesis using ne u(1) d assms(5) by (simp add: SPLAY_INSERT_def)
qed

lemma splay_post_filter:
  assumes "splay_post node f s W t l x r" "distinct W"
  shows "filter (\<lambda>z. f z = 0) W = (if f x = 0 then [x] else [])"
    "filter (\<lambda>z. f z \<noteq> 0) W = (if f x = 0 then inorder l @ inorder r else W)"
proof -
  note d = splay_postD(5-7) [OF assms]
  have "filter (\<lambda>z. f z = 0) (inorder l) = []" "filter (\<lambda>z. f z = 0) (inorder r) = []"
    "filter (\<lambda>z. f z \<noteq> 0) (inorder l) = inorder l" "filter (\<lambda>z. f z \<noteq> 0) (inorder r) = inorder r"
    using d(2,3) by (force simp: filter_empty_conv intro!: filter_True)+
  then show "filter (\<lambda>z. f z = 0) W = (if f x = 0 then [x] else [])"
    "filter (\<lambda>z. f z \<noteq> 0) W = (if f x = 0 then inorder l @ inorder r else W)" by (simp_all add: d(1))
qed

lemma splay_find_ok:
  assumes "sp_inv t xs" "stack_ok node xs" "ordered_for f xs"
  shows "\<exists>t'. SPLAY_FIND node f t = Some (t', first_or NULL (filter (\<lambda>z. f z = 0) xs)) \<and> sp_inv t' xs \<and>
    (\<forall>z. z \<notin> set xs \<longrightarrow> z \<noteq> node \<longrightarrow> spn t' z = spn t z)"
proof (cases "xs = []")
  case False
  then have ne: "\<not> SPLAY_EMPTY t" using sp_inv_root [OF assms(1)] by (simp add: SPLAY_EMPTY_def)
  from splay_inv [OF assms(1) False assms(2,3)] obtain u l x r where u: "SPLAY node f t = Some u"
    "splay_post node f (spn t) xs u l x r" by blast
  note d = splay_postD [OF u(2) sp_inv_distinct [OF assms(1)]] splay_post_filter [OF u(2) sp_inv_distinct [OF assms(1)]]
  then show ?thesis using ne u(1) by (simp add: SPLAY_FIND_def)
qed (use assms sp_inv_root [OF assms(1)] in \<open>simp add: SPLAY_FIND_def SPLAY_EMPTY_def\<close>)

section \<open>Removal\<close>

lemma splay_remove_root:
  assumes "splay_post node f s xs u l x r" "distinct xs" "stack_ok node xs" "l \<noteq> Leaf"
  shows "\<exists>v y. SPLAY node f (u\<lparr>sph_root := spe_left (spn u x)\<rparr>) = Some v \<and> sph_root v = y \<and> y \<noteq> NULL \<and>
    sp_inv (v\<lparr>spn := (spn v)(y := (spn v y)\<lparr>spe_right := spe_right (spn u x)\<rparr>)\<rparr>) (inorder l @ inorder r) \<and>
    y \<in> set xs \<and> (\<forall>z. z \<notin> set xs \<longrightarrow> z \<noteq> node \<longrightarrow> spn v z = s z)"
proof -
  note d = splay_postD [OF assms(1,2)]
  have "is_sp (spn (u\<lparr>sph_root := spe_left (spn u x)\<rparr>)) (sph_root (u\<lparr>sph_root := spe_left (spn u x)\<rparr>)) l" using d(3) by simp
  moreover have "node \<noteq> NULL" "node \<notin> set_tree l" using assms(3) by (auto simp: stack_ok_def d(5))
  moreover have "ordered_for f (inorder l)" using d(6) by (intro ordered_for_pos) simp
  ultimately obtain v l' y r' where v: "SPLAY node f (u\<lparr>sph_root := spe_left (spn u x)\<rparr>) = Some v"
    "splay_post node f (spn u) (inorder l) v l' y r'" using splay_ok [OF _ assms(4) d(11)] by fastforce
  note e = splay_postD [OF v(2) d(11)]
  have sub: "set_tree l = insert y (set_tree l' \<union> set_tree r')" using arg_cong [OF e(5), of set] by auto
  have "r' = Leaf"
  proof (cases r')
    case (Node a b c)
    then have "b \<in> set_tree l" "b \<in> set_tree r'" using sub by auto
    then show ?thesis using e(7) d(6) by force
  qed simp
  then have l: "inorder l = inorder l' @ [y]" using e(5) by simp
  let ?s = "(spn v)(y := (spn v y)\<lparr>spe_right := spe_right (spn u x)\<rparr>)"
  have y: "y \<notin> set_tree r" "y \<in> set xs" using sub d(5,10) by auto
  have "is_sp (spn v) (spe_right (spn u x)) r = is_sp (spn u) (spe_right (spn u x)) r"
    using e(13) d(10) assms(3) by (intro is_sp_cong) (auto simp: stack_ok_def d(5))
  then have "is_sp ?s y (Node l' y r)" using d(4) e(2,3,8) y(1) by simp
  moreover have "distinct (inorder l @ inorder r)" using assms(2) unfolding d(5) by simp
  ultimately have "sp_inv (v\<lparr>spn := ?s\<rparr>) (inorder l @ inorder r)"
    using e(1) l by (auto simp: sp_inv_def intro!: exI [of _ "Node l' y r"])
  moreover have "spn v z = s z" if "z \<notin> set xs" "z \<noteq> node" for z using that e(13) [of z] d(13) [of z] by (auto simp: d(5))
  ultimately show ?thesis using v(1) e(1,2) y(2) by blast
qed

lemma splay_remove_ok:
  assumes "sp_inv t xs" "stack_ok node xs" "ordered_for (cmp e) xs"
  shows "\<exists>t'. SPLAY_REMOVE node cmp t e = Some (t', if \<exists>z\<in>set xs. cmp e z = 0 then e else NULL) \<and>
    sp_inv t' (filter (\<lambda>z. cmp e z \<noteq> 0) xs) \<and> (\<forall>z. z \<notin> set xs \<longrightarrow> z \<noteq> node \<longrightarrow> spn t' z = spn t z)"
proof (cases "xs = []")
  case False
  then have ne: "\<not> SPLAY_EMPTY t" using sp_inv_root [OF assms(1)] by (simp add: SPLAY_EMPTY_def)
  from splay_inv [OF assms(1) False assms(2,3)] obtain u l x r where u: "SPLAY node (cmp e) t = Some u"
    "splay_post node (cmp e) (spn t) xs u l x r" by blast
  note dis = sp_inv_distinct [OF assms(1)]
  note d = splay_postD [OF u(2) dis] and fl = splay_post_filter [OF u(2) dis]
  have found: "(\<exists>z\<in>set xs. cmp e z = 0) \<longleftrightarrow> cmp e x = 0" using splay_post_key [OF u(2) dis] d(5) by auto
  show ?thesis
  proof (cases "cmp e x = 0")
    case True
    show ?thesis
    proof (cases l)
      case Leaf
      then have "spe_left (spn u x) = NULL" using d(3) by simp
      then have "SPLAY_REMOVE node cmp t e = Some (u\<lparr>sph_root := spe_right (spn u x)\<rparr>, e)"
        using ne u(1) d(1,2) True by (simp add: SPLAY_REMOVE_def SPLAY_LEFT_def SPLAY_RIGHT_def)
      moreover have "sp_inv (u\<lparr>sph_root := spe_right (spn u x)\<rparr>) (inorder r)" using d(4,12) by (auto simp: sp_inv_def)
      ultimately show ?thesis using found fl(2) True Leaf d(13) by auto
    next
      case (Node a b c)
      then have "spe_left (spn u x) \<noteq> NULL" using d(3) by auto
      moreover from splay_remove_root [OF u(2) dis assms(2)] Node obtain v y where v:
        "SPLAY node (cmp e) (u\<lparr>sph_root := spe_left (spn u x)\<rparr>) = Some v" "sph_root v = y" "y \<noteq> NULL"
        "sp_inv (v\<lparr>spn := (spn v)(y := (spn v y)\<lparr>spe_right := spe_right (spn u x)\<rparr>)\<rparr>) (inorder l @ inorder r)"
        "y \<in> set xs" "\<forall>z. z \<notin> set xs \<longrightarrow> z \<noteq> node \<longrightarrow> spn v z = spn t z" by blast
      ultimately have "SPLAY_REMOVE node cmp t e = Some (v\<lparr>spn := (spn v)(y := (spn v y)\<lparr>spe_right := spe_right (spn u x)\<rparr>)\<rparr>, e)"
        using ne u(1) d(1,2) True by (simp add: SPLAY_REMOVE_def SPLAY_LEFT_def SPLAY_RIGHT_def put_right_def)
      then show ?thesis using found fl(2) True v(4-6) by auto
    qed
  next
    case False
    then have "SPLAY_REMOVE node cmp t e = Some (u, NULL)" using ne u(1) d(1,2) by (simp add: SPLAY_REMOVE_def)
    then show ?thesis using found fl(2) False d(13,14) by simp
  qed
qed (use assms sp_inv_root [OF assms(1)] in \<open>simp add: SPLAY_REMOVE_def SPLAY_EMPTY_def\<close>)

section \<open>Traversal\<close>

lemma leftmost_ok: "is_sp (spn t) a T \<Longrightarrow> T \<noteq> Leaf \<Longrightarrow> leftmost_from t a = Some (first_or NULL (inorder T))"
proof (induction T arbitrary: a)
  case (Node l x r)
  then show ?case by (cases l) (auto simp: leftmost_from.simps [of t x] SPLAY_LEFT_def first_or_append)
qed simp

lemma splay_next_ok:
  assumes "sp_inv t (as @ x # bs)" "stack_ok node (as @ x # bs)" "ordered_for (cmp x) (as @ x # bs)" "cmp x x = 0"
  shows "\<exists>t'. SPLAY_NEXT node cmp t x = Some (t', first_or NULL bs) \<and> sp_inv t' (as @ x # bs)"
proof -
  from splay_inv [OF assms(1) _ assms(2,3)] obtain u l y r where u: "SPLAY node (cmp x) t = Some u"
    "splay_post node (cmp x) (spn t) (as @ x # bs) u l y r" by blast
  note dis = sp_inv_distinct [OF assms(1)]
  note d = splay_postD [OF u(2) dis]
  have y: "y = x" using splay_post_key [OF u(2) dis, of x] assms(4) by simp
  then have "inorder r = bs" using distinct_split_unique [of as x bs "inorder l" "inorder r"] d(5) dis by metis
  then show ?thesis
    using u(1) d(2,4,14) y leftmost_ok [OF d(4)] by (cases r) (auto simp: SPLAY_NEXT_def SPLAY_RIGHT_def)
qed

text \<open>The loop of \<open>SPLAY_MINMAX\<close> is that of \<open>SPLAY\<close> with a key beyond all others.\<close>

lemma minmax_loop_eq:
  assumes "splay_loop f l r t = Some res" "f = (\<lambda>_. c)" "c \<noteq> 0"
  shows "minmax_loop c l r t = Some res"
proof -
  have "f = (\<lambda>_. c) \<longrightarrow> minmax_loop c l r t = Some res"
  proof (rule splay_loop.raw_induct [where P = "\<lambda>f l r t res. f = (\<lambda>_. c) \<longrightarrow> minmax_loop c l r t = Some res", OF _ assms(1)], goal_cases)
    case (1 loop f l r t res)
    then have IH: "minmax_loop c l r t = Some res" if "loop (\<lambda>_. c) l r t = Some res" for l r t res using that by blast
    show ?case
    proof
      assume f: "f = (\<lambda>_. c)"
      show "minmax_loop c l r t = Some res"
        using 1(2) assms(3) unfolding f
        by (subst minmax_loop.simps) (auto split: if_split_asm Option.bind_split_asm dest: IH)
    qed
  qed
  with assms show ?thesis by blast
qed

text \<open>So the smallest element, or the largest one, becomes the root.\<close>

lemma splay_minmax_ok:
  assumes "sp_inv t xs" "xs \<noteq> []" "stack_ok node xs" "c \<noteq> 0"
  shows "\<exists>t'. SPLAY_MINMAX node c t = Some t' \<and> sp_inv t' xs \<and> sph_root t' = (if c < 0 then hd xs else last xs)"
proof -
  have "ordered_for (\<lambda>_. c) xs" using assms(4) ordered_for_neg [of xs "\<lambda>_. c"] ordered_for_pos [of xs "\<lambda>_. c"] by fastforce
  from splay_inv [OF assms(1-3) this] obtain u l x r where u: "SPLAY node (\<lambda>_. c) t = Some u"
    "splay_post node (\<lambda>_. c) (spn t) xs u l x r" by blast
  note d = splay_postD [OF u(2) sp_inv_distinct [OF assms(1)]]
  have "SPLAY_MINMAX node c t = Some u"
    using u(1) minmax_loop_eq [OF _ refl assms(4)] unfolding SPLAY_def SPLAY_MINMAX_def
    by (fastforce simp: Option.bind_eq_Some_conv)
  moreover have "c < 0 \<Longrightarrow> l = Leaf" "c > 0 \<Longrightarrow> r = Leaf" using d(6,7) by (cases l; cases r; force)+
  then have "x = (if c < 0 then hd xs else last xs)" using assms(4) by (auto simp: d(5))
  ultimately show ?thesis using d(1,14) by auto
qed

lemma splay_min_ok:
  assumes "sp_inv t xs" "stack_ok node xs"
  shows "\<exists>t'. SPLAY_MIN node t = Some (t', first_or NULL xs) \<and> sp_inv t' xs"
    "\<exists>t'. SPLAY_MAX node t = Some (t', last_or NULL xs) \<and> sp_inv t' xs"
proof -
  note root = sp_inv_root [OF assms(1)]
  have "\<exists>t'. SPLAY_MIN node t = Some (t', first_or NULL xs) \<and> sp_inv t' xs" if "xs \<noteq> []"
    using splay_minmax_ok [OF assms(1) that assms(2), of SPLAY_NEGINF] that root
    by (cases xs) (auto simp: SPLAY_MIN_def SPLAY_MIN_MAX_def SPLAY_EMPTY_def SPLAY_NEGINF_def)
  moreover have "\<exists>t'. SPLAY_MAX node t = Some (t', last_or NULL xs) \<and> sp_inv t' xs" if "xs \<noteq> []"
    using splay_minmax_ok [OF assms(1) that assms(2), of SPLAY_INF] that root
    by (cases xs rule: rev_cases) (auto simp: SPLAY_MAX_def SPLAY_MIN_MAX_def SPLAY_EMPTY_def SPLAY_INF_def)
  ultimately show "\<exists>t'. SPLAY_MIN node t = Some (t', first_or NULL xs) \<and> sp_inv t' xs"
    "\<exists>t'. SPLAY_MAX node t = Some (t', last_or NULL xs) \<and> sp_inv t' xs"
    using root assms(1) by (cases "xs = []"; simp add: SPLAY_MIN_def SPLAY_MAX_def SPLAY_EMPTY_def)+
qed

section \<open>Loops over a tree that changes\<close>

locale adjusting_tree =
  fixes elems :: "'t \<Rightarrow> 'a list \<Rightarrow> bool"
    and null :: 'a
    and fst_elem :: "'t \<Rightarrow> ('t \<times> 'a) option"
    and nxt :: "'t \<Rightarrow> 'a \<Rightarrow> ('t \<times> 'a) option"
  assumes elems_null: "elems t xs \<Longrightarrow> null \<notin> set xs"
    and fst_elem: "elems t xs \<Longrightarrow> \<exists>t'. fst_elem t = Some (t', first_or null xs) \<and> elems t' xs"
    and nxt: "elems t (as @ x # bs) \<Longrightarrow> \<exists>t'. nxt t x = Some (t', first_or null bs) \<and> elems t' (as @ x # bs)"
begin

lemma walk_rest:
  "elems t (as @ bs) \<Longrightarrow> \<exists>t'. tree_walk nxt null t (first_or null bs) = Some (t', bs) \<and> elems t' (as @ bs)"
proof (induction bs arbitrary: t as)
  case Nil
  then show ?case by (simp add: tree_walk.simps)
next
  case (Cons b bs)
  from nxt [OF Cons.prems] obtain u where u: "nxt t b = Some (u, first_or null bs)" "elems u (as @ b # bs)" by blast
  with Cons.IH [of u "as @ [b]"] obtain t' where "tree_walk nxt null u (first_or null bs) = Some (t', bs)" "elems t' (as @ b # bs)" by auto
  moreover have "b \<noteq> null" using elems_null [OF Cons.prems] by auto
  ultimately show ?case using u(1) by (simp add: tree_walk.simps [of _ _ _ b])
qed

text \<open>A loop from the first element to the end visits exactly the elements, in order.\<close>

lemma walk_elems: "elems t xs \<Longrightarrow> \<exists>t'. (fst_elem t \<bind> (\<lambda>(t, x). tree_walk nxt null t x)) = Some (t', xs) \<and> elems t' xs"
  using fst_elem [of t xs] walk_rest [of _ "[]" xs] by auto

end

text \<open>The splay macros implement it, for a comparison that is consistent with the order of the elements.\<close>

definition cmp_ok :: "(addr \<Rightarrow> addr \<Rightarrow> int) \<Rightarrow> addr list \<Rightarrow> bool" where
  "cmp_ok cmp xs \<longleftrightarrow> (\<forall>x\<in>set xs. ordered_for (cmp x) xs \<and> cmp x x = 0)"

interpretation sp: adjusting_tree "\<lambda>t xs. sp_inv t xs \<and> stack_ok node xs \<and> cmp_ok cmp xs" NULL "SPLAY_MIN node" "SPLAY_NEXT node cmp"
  for node cmp
proof
  fix t :: sp_tree and xs assume "sp_inv t xs \<and> stack_ok node xs \<and> cmp_ok cmp xs"
  then show "NULL \<notin> set xs" by (auto simp: sp_inv_def dest: is_sp_not_null)
  show "\<exists>t'. SPLAY_MIN node t = Some (t', first_or NULL xs) \<and> sp_inv t' xs \<and> stack_ok node xs \<and> cmp_ok cmp xs"
    using splay_min_ok(1) [of t xs node] \<open>sp_inv t xs \<and> _\<close> by auto
next
  fix t :: sp_tree and as x bs assume a: "sp_inv t (as @ x # bs) \<and> stack_ok node (as @ x # bs) \<and> cmp_ok cmp (as @ x # bs)"
  then have "ordered_for (cmp x) (as @ x # bs)" "cmp x x = 0" by (auto simp: cmp_ok_def)
  then show "\<exists>t'. SPLAY_NEXT node cmp t x = Some (t', first_or NULL bs) \<and> sp_inv t' (as @ x # bs) \<and>
      stack_ok node (as @ x # bs) \<and> cmp_ok cmp (as @ x # bs)"
    using splay_next_ok [of t as x bs node cmp] a by auto
qed

lemma splay_foreach_ok:
  assumes "sp_inv t xs" "stack_ok node xs" "cmp_ok cmp xs"
  shows "\<exists>t'. SPLAY_FOREACH node cmp t = Some (t', xs) \<and> sp_inv t' xs"
  using sp.walk_elems [of t xs node cmp] assms unfolding SPLAY_FOREACH_def by auto

end
