(* ===== verification/Splay_Properties.thy ===== *)
theory Splay_Properties
  imports Splay_Operations
begin

text \<open>
  What the splay tree macros promise to their users, stated over the macros themselves, with
  instances on a small concrete tree.
\<close>

section \<open>A concrete tree\<close>

text \<open>Three elements, at the addresses 16, 32 and 48, compared by address; the stack variable is at 64.\<close>

definition sample_splay :: sp_tree where
  "sample_splay = \<lparr>spn = (\<lambda>_. \<lparr>spe_left = 0, spe_right = 0\<rparr>)(16 := \<lparr>spe_left = 0, spe_right = 32\<rparr>, 32 := \<lparr>spe_left = 0, spe_right = 48\<rparr>),
     sph_root = 16\<rparr>"

definition key_cmp :: "addr \<Rightarrow> addr \<Rightarrow> int" where
  "key_cmp x y = uint x - uint y"

lemma sample_splay_inv: "sp_inv sample_splay [16, 32, 48]" "stack_ok 64 [16, 32, 48]"
  by (auto simp: sp_inv_def sample_splay_def stack_ok_def intro!: exI [of _ "Node Leaf 16 (Node Leaf 32 (Node Leaf 48 Leaf))"])

lemma sample_keys: "cmp_ok key_cmp [16, 32, 48]" "ordered_for (key_cmp 40) [16, 32, 48]" "ordered_for (key_cmp 32) [16, 32, 48]"
  by (auto simp: cmp_ok_def ordered_for_def key_cmp_def)

section \<open>Splaying\<close>

text \<open>C14. On a non-empty tree that is ordered for the key, \<open>SPLAY\<close> ends without a null dereference; the
  tree holds the same elements in the same order; everything on the left of the new root is smaller than
  the key and everything on its right is larger, so that the root is the element with the key if there is one; and only links
  of elements and the stack variable change.\<close>

theorem SPLAY_moves_key_to_root:
  assumes "sp_inv t xs" "xs \<noteq> []" "stack_ok node xs" "ordered_for f xs"
  shows "\<exists>t' as bs. SPLAY node f t = Some t' \<and> sp_inv t' xs \<and> xs = as @ sph_root t' # bs \<and>
    (\<forall>y\<in>set as. f y > 0) \<and> (\<forall>y\<in>set bs. f y < 0) \<and> ((\<exists>z\<in>set xs. f z = 0) \<longrightarrow> f (sph_root t') = 0) \<and>
    (\<forall>z. z \<notin> set xs \<longrightarrow> z \<noteq> node \<longrightarrow> spn t' z = spn t z)"
proof -
  from splay_inv [OF assms] obtain t' l x r where t': "SPLAY node f t = Some t'" "splay_post node f (spn t) xs t' l x r" by blast
  note d = splay_postD [OF t'(2) sp_inv_distinct [OF assms(1)]]
  have "(\<exists>z\<in>set xs. f z = 0) \<longrightarrow> f x = 0" using splay_post_key [OF t'(2) sp_inv_distinct [OF assms(1)]] by blast
  then show ?thesis using t'(1) d(1,5,6,7,13,14) by (intro exI [of _ t'] exI [of _ "inorder l"] exI [of _ "inorder r"]) simp
qed

theorem SPLAY_moves_key_to_root_witness:
  "\<exists>t'. SPLAY 64 (key_cmp 32) sample_splay = Some t' \<and> sp_inv t' [16, 32, 48] \<and> key_cmp 32 (sph_root t') = 0"
  using SPLAY_moves_key_to_root [OF sample_splay_inv(1) _ sample_splay_inv(2) sample_keys(3)] by (auto simp: key_cmp_def)

section \<open>Insertion and removal\<close>

text \<open>C15. \<open>SPLAY_INSERT\<close> puts a new element at its place in the order and returns \<open>NULL\<close>; if an element
  with an equal key is there, it returns that one and keeps the elements.\<close>

theorem SPLAY_INSERT_inserts:
  assumes "sp_inv t xs" "stack_ok node xs" "ordered_for (cmp e) xs" "e \<noteq> NULL" "e \<notin> set xs" "e \<noteq> node"
  shows "\<exists>t' r. SPLAY_INSERT node cmp t e = Some (t', r) \<and>
    (if \<forall>z\<in>set xs. cmp e z \<noteq> 0 then r = NULL \<and> sp_inv t' (insert_place cmp e xs)
     else r \<in> set xs \<and> cmp e r = 0 \<and> sp_inv t' xs)"
proof (cases "\<forall>z\<in>set xs. cmp e z \<noteq> 0")
  case True
  then show ?thesis using splay_insert_new [of t xs node cmp e] assms by auto
next
  case False
  then obtain z where "z \<in> set xs" "cmp e z = 0" by auto
  then show ?thesis using splay_insert_found [of t xs node cmp e] assms by fastforce
qed

theorem SPLAY_INSERT_inserts_witness:
  "\<exists>t'. SPLAY_INSERT 64 key_cmp sample_splay 40 = Some (t', NULL) \<and> sp_inv t' [16, 32, 40, 48]"
  using SPLAY_INSERT_inserts [of _ _ _ key_cmp 40, OF sample_splay_inv sample_keys(2)] by (auto simp: key_cmp_def insert_place_def)

text \<open>C16. \<open>SPLAY_REMOVE\<close> takes the element with an equal key out of the tree, keeps the order of the others
  and returns its argument; without such an element it returns \<open>NULL\<close> and keeps the elements.\<close>

theorem SPLAY_REMOVE_removes:
  assumes "sp_inv t xs" "stack_ok node xs" "ordered_for (cmp e) xs"
  shows "\<exists>t'. SPLAY_REMOVE node cmp t e = Some (t', if \<exists>z\<in>set xs. cmp e z = 0 then e else NULL) \<and>
    sp_inv t' (filter (\<lambda>z. cmp e z \<noteq> 0) xs) \<and> (\<forall>z. z \<notin> set xs \<longrightarrow> z \<noteq> node \<longrightarrow> spn t' z = spn t z)"
  using assms by (rule splay_remove_ok)

theorem SPLAY_REMOVE_removes_witness:
  "\<exists>t'. SPLAY_REMOVE 64 key_cmp sample_splay 32 = Some (t', 32) \<and> sp_inv t' [16, 48]"
  using SPLAY_REMOVE_removes [of _ _ _ key_cmp 32, OF sample_splay_inv sample_keys(3)] by (auto simp: key_cmp_def)

section \<open>Search and traversal\<close>

text \<open>C28. \<open>SPLAY_FIND\<close> returns the element with the key, or \<open>NULL\<close>; \<open>SPLAY_MIN\<close> and \<open>SPLAY_MAX\<close> the first and
  the last element, or \<open>NULL\<close>; and the loop \<open>SPLAY_FOREACH\<close>, which splays at every step, ends and visits
  every element once, in order.  All of them keep the elements.\<close>

theorem SPLAY_FOREACH_visits:
  assumes "sp_inv t xs" "stack_ok node xs" "ordered_for f xs" "cmp_ok cmp xs"
  shows "(\<exists>t'. SPLAY_FIND node f t = Some (t', first_or NULL (filter (\<lambda>z. f z = 0) xs)) \<and> sp_inv t' xs) \<and>
    (\<exists>t'. SPLAY_MIN node t = Some (t', first_or NULL xs) \<and> sp_inv t' xs) \<and>
    (\<exists>t'. SPLAY_MAX node t = Some (t', last_or NULL xs) \<and> sp_inv t' xs) \<and>
    (\<exists>t'. SPLAY_FOREACH node cmp t = Some (t', xs) \<and> sp_inv t' xs)"
  using splay_find_ok [OF assms(1-3)] splay_min_ok [OF assms(1,2)] splay_foreach_ok [OF assms(1,2,4)] by blast

theorem SPLAY_FOREACH_visits_witness:
  "(\<exists>t'. SPLAY_FIND 64 (key_cmp 40) sample_splay = Some (t', NULL) \<and> sp_inv t' [16, 32, 48]) \<and>
   (\<exists>t'. SPLAY_FOREACH 64 key_cmp sample_splay = Some (t', [16, 32, 48]))"
  using SPLAY_FOREACH_visits [OF sample_splay_inv sample_keys(2,1)] by (auto simp: key_cmp_def)

end
