(* ===== verification/Bios_Devices.thy ===== *)
theory Bios_Devices
  imports Bios_Memory_Map Alignment
begin

text \<open>
  Devices behind the firmware: the text console (\<^verbatim>\<open>bal/platform/bios/bios_console.c\<close>) and the CD-ROM
  drive (\<^verbatim>\<open>bal/platform/bios/device/cdrom.c\<close>).  The ioctl tables are generated code and are left out.
\<close>

section \<open>Console\<close>

record bios_console_dev =
  con_width :: u8
  cur_page :: u8

text \<open>
  The loop of \<open>bios_console_write\<close>: the structure \<open>regs\<close> is initialised once and carries the registers
  that the firmware returned into the next call.
\<close>

fun console_loop :: "'w platform \<Rightarrow> bios_console_dev \<Rightarrow> u8 list \<Rightarrow> bios_registers \<Rightarrow> 'w machine \<Rightarrow> 'w machine" where
  "console_loop pf dev [] regs mc = mc"
| "console_loop pf dev (c # cs) regs mc =
     (let (regs, mc) = bios_int_call pf 0x10 (regs\<lparr>eax := 0x0E00 OR ucast c, ebx := push_bit 8 (ucast (cur_page dev))\<rparr>) mc in
      console_loop pf dev cs regs mc)"

text \<open>The return value, the number of bytes written and the machine.\<close>

definition bios_console_write :: "'w platform \<Rightarrow> bios_console_dev \<Rightarrow> u8 list \<Rightarrow> 'w machine \<Rightarrow> int \<times> nat \<times> 'w machine" where
  "bios_console_write pf dev buf mc = (0, length buf, console_loop pf dev buf zero_registers mc)"

definition bios_console_init :: "'w platform \<Rightarrow> 'w machine \<Rightarrow> bios_console_dev \<times> 'w machine" where
  "bios_console_init pf mc =
     (let (regs, mc) = bios_int_call pf 0x10 (zero_registers\<lparr>eax := 0x0F00\<rparr>) mc in
      (\<lparr>con_width = ucast (drop_bit 8 (eax regs) AND 0xFF), cur_page = ucast (drop_bit 8 (ebx regs) AND 0xFF)\<rparr>, mc))"

section \<open>CD-ROM drive\<close>

definition CD_EINVAL :: int where
  "CD_EINVAL = 22"

definition CD_EIO :: int where
  "CD_EIO = 5"

record cdrom_dev =
  drive_number :: u8

definition cdrom_init :: "u8 \<Rightarrow> cdrom_dev" where
  "cdrom_init n = \<lparr>drive_number = n\<rparr>"

text \<open>Where the linker puts \<^verbatim>\<open>lba_packet\<close> and \<^verbatim>\<open>scratch_buffer\<close>.\<close>

record cd_vars =
  lba_packet :: addr
  scratch_buffer :: addr

definition sizeof_scratch_buffer :: u64 where
  "sizeof_scratch_buffer = 4096"

text \<open>The 16 bytes of the packet: size, reserved, blocks, far pointer to the buffer, first block.\<close>

definition lba_packet_bytes :: "u16 \<Rightarrow> u32 \<Rightarrow> u64 \<Rightarrow> u8 list" where
  "lba_packet_bytes blocks buffer_far_ptr lba = [16, 0] @ word_le 2 blocks @ word_le 4 buffer_far_ptr @ word_le 8 lba"

text \<open>The buffer that the firmware reads to, and the number of bytes that fit there.\<close>

definition read_target :: "cd_vars \<Rightarrow> addr \<Rightarrow> u64 \<Rightarrow> addr \<times> u64" where
  "read_target v buf nbytes =
     (if buf > 0x100000 - 2048 then
        (scratch_buffer v, if nbytes > sizeof_scratch_buffer then sizeof_scratch_buffer AND NOT 0x7FF else nbytes)
      else (buf, if nbytes > 0x100000 - buf then (0x100000 - buf) AND NOT 0x7FF else nbytes))"

definition block_count :: "u64 \<Rightarrow> u16" where
  "block_count nbytes = (if nbytes div 2048 > 0x7F then 0x7F else ucast (nbytes div 2048))"

definition cd_regs :: "cd_vars \<Rightarrow> cdrom_dev \<Rightarrow> bios_registers" where
  "cd_regs v dev = zero_registers\<lparr>eax := 0x4200, edx := ucast (drive_number dev), ds := rm_seg_from_ptr (lba_packet v),
     edi := ucast (rm_offset_from_ptr (lba_packet v))\<rparr>"

text \<open>The call of the firmware: its registers and the count that it leaves in the packet.\<close>

definition cd_call :: "cd_vars \<Rightarrow> 'w platform \<Rightarrow> cdrom_dev \<Rightarrow> addr \<Rightarrow> u16 \<Rightarrow> u64 \<Rightarrow> 'w machine \<Rightarrow> bios_registers \<times> u16 \<times> 'w machine" where
  "cd_call v pf dev target blocks lba mc =
     (let (regs, mc) = bios_int_call pf 0x13 (cd_regs v dev)
            (mc\<lparr>mem := store_bytes (mem mc) (lba_packet v) (lba_packet_bytes blocks (rm_far_from_ptr target) lba)\<rparr>)
      in (regs, load16 (mem mc) (lba_packet v + 2), mc))"

definition copy_out :: "addr \<Rightarrow> addr \<Rightarrow> u16 \<Rightarrow> 'w machine \<Rightarrow> 'w machine" where
  "copy_out buf target blocks mc =
     (if target \<noteq> buf then mc\<lparr>mem := store_bytes (mem mc) buf (load_bytes (mem mc) target (unat blocks * 2048))\<rparr> else mc)"

lemma clear_low_bits_le: "x AND NOT 0x7FF \<le> (x :: u64)"
  unfolding word_le_nat_alt clear_low_bits by simp

lemma read_target_le: "snd (read_target v buf n) \<le> n"
  using clear_low_bits_le [of "0x100000 - buf"]
  by (auto simp: read_target_def sizeof_scratch_buffer_def)

text \<open>\<open>cdrom_pread\<close> is \<^verbatim>\<open>pread\<close>; its results are the return value, \<^verbatim>\<open>*nbytesread\<close> and the machine.\<close>

function cdrom_pread :: "cd_vars \<Rightarrow> 'w platform \<Rightarrow> cdrom_dev \<Rightarrow> addr \<Rightarrow> u64 \<Rightarrow> u64 \<Rightarrow> 'w machine \<Rightarrow> int \<times> u64 \<times> 'w machine" where
  "cdrom_pread v pf dev buf nbytes offset mc =
     (if offset mod 2048 \<noteq> 0 then (CD_EINVAL, 0, mc)
      else if nbytes AND NOT 0x7FF = 0 then (0, 0, mc)
      else
        (let (target, n) = read_target v buf (nbytes AND NOT 0x7FF);
             (regs, blocks, mc) = cd_call v pf dev target (block_count n) (offset div 2048) mc in
         if carry regs \<or> blocks = 0 then
           (if n > 2048 then cdrom_pread v pf dev buf 2048 offset mc else (CD_EIO, 0, mc))
         else (0, ucast blocks * 2048, copy_out buf target blocks mc)))"
  by pat_completeness auto
termination
proof (relation "measure (\<lambda>(v, pf, dev, buf, nbytes, _). unat nbytes)", goal_cases)
  case (2 v pf dev buf nbytes offset mc x target n y regs z blocks mc')
  then have "read_target v buf (nbytes AND NOT 0x7FF) = (target, n)" by simp
  with read_target_le [of v buf "nbytes AND NOT 0x7FF"] have "n \<le> nbytes AND NOT 0x7FF" by (simp only: snd_conv)
  then have "n \<le> nbytes" using clear_low_bits_le [of nbytes] by (rule order_trans)
  then have "unat (2048 :: u64) < unat nbytes" using \<open>n > 2048\<close> unfolding word_less_nat_alt word_le_nat_alt by linarith
  then show ?case by simp
qed simp

declare cdrom_pread.simps [simp del]

end
