(* ===== verification/Block_Device.thy ===== *)
theory Block_Device
  imports Gandr_Prelude
begin

text \<open>
  The interface between a file system and the device that it is on: reads of one block of 2048 bytes
  with \<^verbatim>\<open>gd_pread\<close>.
\<close>

text \<open>
  \<open>usable d buf\<close>: the device \<open>d\<close> can read to the buffer; \<open>readable d i\<close>: block \<open>i\<close> can be read; \<open>holds d buf i s\<close>: the buffer
  holds block \<open>i\<close>; \<open>keeps d buf s s'\<close>: nothing has changed but what a read to the buffer may change.
\<close>

locale block_device =
  fixes pread :: "'d \<Rightarrow> addr \<Rightarrow> u64 \<Rightarrow> u64 \<Rightarrow> 's \<Rightarrow> int \<times> u64 \<times> 's"
    and usable :: "'d \<Rightarrow> addr \<Rightarrow> bool"
    and readable :: "'d \<Rightarrow> nat \<Rightarrow> bool"
    and holds :: "'d \<Rightarrow> addr \<Rightarrow> nat \<Rightarrow> 's \<Rightarrow> bool"
    and keeps :: "'d \<Rightarrow> addr \<Rightarrow> 's \<Rightarrow> 's \<Rightarrow> bool"
  assumes read_block: "usable d buf \<Longrightarrow> offset mod 2048 = 0 \<Longrightarrow> pread d buf 2048 offset s = (ret, got, s') \<Longrightarrow>
    (if readable d (unat offset div 2048) then ret = 0 \<and> got = 2048 \<and> holds d buf (unat offset div 2048) s' else ret \<noteq> 0) \<and> keeps d buf s s'"

end
