(* ===== verification/Bios_Devices_Correct.thy ===== *)
theory Bios_Devices_Correct
  imports Bios_Devices Block_Device
begin

text \<open>
  What the console and the CD-ROM driver make of the firmware.  The firmware is the parameter \<open>pf\<close>;
  the hypotheses on it state the documented behaviour of the interrupt functions.
\<close>

section \<open>Console\<close>

text \<open>
  The teletype function of interrupt 0x10 prints the character in AL on the page in BH: \<open>tty c page\<close> is
  its effect on the display.
\<close>

definition prints :: "'w platform \<Rightarrow> (u8 \<Rightarrow> u8 \<Rightarrow> 'w \<Rightarrow> 'w) \<Rightarrow> bool" where
  "prints pf tty \<longleftrightarrow> (\<forall>regs mc. ucast (drop_bit 8 (eax regs)) = (0x0E :: u8) \<longrightarrow>
     world (snd (bios_int_call pf 0x10 regs mc)) = tty (ucast (eax regs)) (ucast (drop_bit 8 (ebx regs))) (world mc))"

lemma drop_byte [simp]: "drop_bit 8 (ucast (c :: u8) :: u32) = 0"
proof -
  have "unat c < 256" using unsigned_less [of c] by simp
  then show ?thesis by (simp add: word_unat_eq_iff unat_drop_bit unat_ucast_mod)
qed

lemma console_registers:
  "ucast (drop_bit 8 (0x0E00 OR ucast (c :: u8) :: u32)) = (0x0E :: u8)" "ucast (0x0E00 OR ucast c :: u32) = c"
  "ucast (drop_bit 8 (push_bit 8 (ucast p) :: u32)) = (p :: u8)"
proof -
  have "unat p < 256" using unsigned_less [of p] by simp
  then show "ucast (drop_bit 8 (push_bit 8 (ucast p) :: u32)) = (p :: u8)"
    by (simp add: word_unat_eq_iff unat_arith)
  have "ucast (0x0E00 OR ucast c :: u32) = (ucast (0x0E00 :: u32) OR ucast (ucast c :: u32) :: u8)"
    by (rule unsigned_or_eq)
  moreover have "ucast (0x0E00 :: u32) = (0 :: u8)" by (simp add: word_unat_eq_iff unat_ucast_mod)
  moreover have "unat c < 256" using unsigned_less [of c] by simp
  then have "ucast (ucast c :: u32) = c" by (simp add: word_unat_eq_iff unat_ucast_mod)
  ultimately show "ucast (0x0E00 OR ucast c :: u32) = c" by (simp only: or.left_neutral)
  show "ucast (drop_bit 8 (0x0E00 OR ucast (c :: u8) :: u32)) = (0x0E :: u8)" by simp
qed

lemma console_loop_prints:
  assumes "prints pf tty"
  shows "world (console_loop pf dev cs regs mc) = fold (\<lambda>c. tty c (cur_page dev)) cs (world mc)"
proof (induction cs arbitrary: regs mc)
  case (Cons c cs)
  let ?r = "regs\<lparr>eax := 0x0E00 OR ucast c, ebx := push_bit 8 (ucast (cur_page dev))\<rparr>"
  have "world (snd (bios_int_call pf 0x10 ?r mc)) = tty c (cur_page dev) (world mc)"
    using assms [unfolded prints_def, rule_format, of ?r mc] by (simp add: console_registers)
  then show ?case using Cons.IH by (simp add: case_prod_beta Let_def)
qed simp

section \<open>CD-ROM drive\<close>

text \<open>The bytes of \<open>n\<close> blocks from block \<open>lba\<close> on.\<close>

definition disc_blocks :: "(nat \<Rightarrow> u8) \<Rightarrow> nat \<Rightarrow> nat \<Rightarrow> u8 list" where
  "disc_blocks disc lba n = map disc [2048 * lba..<2048 * (lba + n)]"

lemma length_disc_blocks [simp]: "length (disc_blocks disc lba n) = 2048 * n"
  by (simp add: disc_blocks_def)

text \<open>
  Function 0x42 of interrupt 0x13 finds its packet at DS:SI.  For a packet of 1 to 127 blocks it
  sets the carry flag if it cannot read the blocks (\<open>readable\<close>); else it stores them at the far pointer of the packet and leaves
  the count as it is.  It changes nothing but the buffer, the count and its stack (\<open>stk\<close>), if packet and buffer are clear of
  the stack and of each other.
\<close>

definition edd_reads :: "'w platform \<Rightarrow> (addr \<Rightarrow> bool) \<Rightarrow> u32 \<Rightarrow> (nat \<Rightarrow> u8) \<Rightarrow> (nat \<Rightarrow> nat \<Rightarrow> bool) \<Rightarrow> bool" where
  "edd_reads pf stk drive disc readable \<longleftrightarrow>
     (\<forall>mc regs p blocks fp lba. eax regs = 0x4200 \<and> edx regs = drive \<and>
        p = ucast (ds regs) * 16 + ucast (ucast (esi regs) :: u16) \<and> load_bytes (mem mc) p 16 = lba_packet_bytes blocks fp lba \<and>
        0 < blocks \<and> blocks \<le> 0x7F \<and> (\<forall>x. stk x \<longrightarrow> \<not> in_block p 16 x \<and> \<not> in_block (rm_ptr_from_far fp) (2048 * unat blocks) x) \<and>
        (\<forall>x. in_block p 16 x \<longrightarrow> \<not> in_block (rm_ptr_from_far fp) (2048 * unat blocks) x) \<longrightarrow>
      (let (regs', mc') = bios_int_call pf 0x13 regs mc; ok = readable (unat lba) (unat blocks) in
        (carry regs' \<longleftrightarrow> \<not> ok) \<and>
        (ok \<longrightarrow> load16 (mem mc') (p + 2) = blocks \<and>
          load_bytes (mem mc') (rm_ptr_from_far fp) (2048 * unat blocks) = disc_blocks disc (unat lba) (unat blocks)) \<and>
        (\<forall>x. stk x \<or> in_block p 16 x \<or> in_block (rm_ptr_from_far fp) (2048 * unat blocks) x \<or> mem mc' x = mem mc x)))"

text \<open>
  Where the variables may lie: the packet at a multiple of 16, so that its offset is zero, which is
  what SI holds; packet and target below 1 MiB, clear of the stack and of each other.
\<close>

definition cd_layout :: "cd_vars \<Rightarrow> (addr \<Rightarrow> bool) \<Rightarrow> addr \<Rightarrow> nat \<Rightarrow> bool" where
  "cd_layout v stk target n \<longleftrightarrow> lba_packet v < 0x100000 \<and> unat (lba_packet v) mod 16 = 0 \<and> target < 0x100000 \<and>
     (\<forall>x. stk x \<longrightarrow> \<not> in_block (lba_packet v) 16 x \<and> \<not> in_block target (2048 * n) x) \<and>
     (\<forall>x. in_block (lba_packet v) 16 x \<longrightarrow> \<not> in_block target (2048 * n) x)"

text \<open>The address that DS:SI gives the firmware for the packet.\<close>

lemma packet_address:
  assumes "lba_packet v < 0x100000"
  shows "ucast (ds (cd_regs v dev)) * 16 + ucast (ucast (esi (cd_regs v dev)) :: u16) = lba_packet v - (lba_packet v AND 0xF)"
proof -
  have "ucast (rm_offset_from_ptr (lba_packet v)) = lba_packet v AND 0xF"
  proof -
    have "unat (lba_packet v) mod 16 < 65536" using mod_less_divisor [of 16 "unat (lba_packet v)"] by linarith
    then show ?thesis by (simp add: word_unat_eq_iff unat_ucast_mod rm_offset_from_ptr_def unat_and_mask)
  qed
  then show ?thesis using seg_offset [OF assms] by (simp add: cd_regs_def zero_registers_def algebra_simps)
qed

lemma length_packet: "length (lba_packet_bytes blocks fp lba) = 16"
  by (simp add: lba_packet_bytes_def)

lemma cd_call_reads:
  assumes "edd_reads pf stk (ucast (drive_number dev)) disc readable" "cd_layout v stk target (unat blocks)" "0 < blocks" "blocks \<le> 0x7F"
  shows "\<exists>regs blocks' mc'. cd_call v pf dev target blocks lba mc = (regs, blocks', mc') \<and>
    (carry regs \<longleftrightarrow> \<not> readable (unat lba) (unat blocks)) \<and>
    (readable (unat lba) (unat blocks) \<longrightarrow> blocks' = blocks \<and>
      load_bytes (mem mc') target (2048 * unat blocks) = disc_blocks disc (unat lba) (unat blocks)) \<and>
    (\<forall>x. stk x \<or> in_block (lba_packet v) 16 x \<or> in_block target (2048 * unat blocks) x \<or> mem mc' x = mem mc x)"
proof -
  let ?p = "lba_packet v" and ?bs = "lba_packet_bytes blocks (rm_far_from_ptr target) lba"
  let ?mc = "mc\<lparr>mem := store_bytes (mem mc) ?p ?bs\<rparr>"
  have l: "?p < 0x100000" "target < 0x100000" "unat ?p mod 16 = 0" "\<forall>x. stk x \<longrightarrow> \<not> in_block ?p 16 x \<and> \<not> in_block target (2048 * unat blocks) x"
    "\<forall>x. in_block ?p 16 x \<longrightarrow> \<not> in_block target (2048 * unat blocks) x"
    using assms(2) by (simp_all add: cd_layout_def)
  have "?p AND 0xF = 0" using l(3) by (simp add: word_unat_eq_iff unat_and_mask)
  then have p: "?p = ucast (ds (cd_regs v dev)) * 16 + ucast (ucast (esi (cd_regs v dev)) :: u16)" using packet_address [OF l(1)] by simp
  have f: "rm_ptr_from_far (rm_far_from_ptr target) = target" using l(2) by (rule ptr_far_ptr)
  have "load_bytes (mem ?mc) ?p 16 = ?bs" using load_store_bytes [of ?bs "mem mc" ?p] by (simp add: length_packet)
  moreover have "eax (cd_regs v dev) = 0x4200" "edx (cd_regs v dev) = ucast (drive_number dev)" by (simp_all add: cd_regs_def)
  ultimately have c: "let (regs', mc') = bios_int_call pf 0x13 (cd_regs v dev) ?mc; ok = readable (unat lba) (unat blocks) in
        (carry regs' \<longleftrightarrow> \<not> ok) \<and>
        (ok \<longrightarrow> load16 (mem mc') (?p + 2) = blocks \<and>
          load_bytes (mem mc') target (2048 * unat blocks) = disc_blocks disc (unat lba) (unat blocks)) \<and>
        (\<forall>x. stk x \<or> in_block ?p 16 x \<or> in_block target (2048 * unat blocks) x \<or> mem mc' x = mem ?mc x)"
    using assms(1) [unfolded edd_reads_def, rule_format, of "cd_regs v dev" ?p ?mc blocks "rm_far_from_ptr target" lba] p l(4,5) assms(3,4)
    unfolding f by blast
  have m: "mem ?mc x = mem mc x" if "\<not> in_block ?p 16 x" for x using that by (simp add: store_bytes_other length_packet)
  obtain regs' mc' where r: "bios_int_call pf 0x13 (cd_regs v dev) ?mc = (regs', mc')" by force
  note c = c [unfolded r Let_def prod.case]
  have "stk x \<or> in_block ?p 16 x \<or> in_block target (2048 * unat blocks) x \<or> mem mc' x = mem mc x" for x
    using c m [of x] by metis
  moreover have "cd_call v pf dev target blocks lba mc = (regs', load16 (mem mc') (?p + 2), mc')" unfolding cd_call_def by (simp only: r Let_def prod.case)
  ultimately show ?thesis using c by blast
qed

section \<open>The read\<close>

lemma read_target_props:
  assumes "read_target v buf m = (target, n)" "unat m mod 2048 = 0" "m \<noteq> 0" "scratch_buffer v < 0x100000"
  shows "target < 0x100000" "unat n mod 2048 = 0" "n \<noteq> 0" "n \<le> m" "read_target v buf 2048 = (target, 2048)"
proof -
  show "n \<le> m" using read_target_le [of v buf m] assms(1) by simp
  have d: "unat (0x100000 - buf) = 0x100000 - unat buf" if "buf \<le> 0xFF800"
    using that by (simp add: unat_sub word_le_nat_alt)
  show "target < 0x100000" using assms(1,4) by (auto simp: read_target_def not_less split: if_splits intro: le_less_trans)
  show "read_target v buf 2048 = (target, 2048)"
    using assms(1) d by (auto simp: read_target_def sizeof_scratch_buffer_def word_less_nat_alt word_le_nat_alt split: if_splits)
  have "unat n mod 2048 = 0 \<and> unat n \<noteq> 0"
  proof (cases "buf > 0xFF800")
    case True
    then show ?thesis using assms by (auto simp: read_target_def sizeof_scratch_buffer_def unat_eq_zero split: if_splits)
  next
    case False
    then have "unat (0x100000 - buf) div 2048 \<noteq> 0" using d by (simp add: not_less word_le_nat_alt)
    moreover have "n = (if m > 0x100000 - buf then (0x100000 - buf) AND NOT 0x7FF else m)"
      using False assms(1) by (auto simp: read_target_def)
    ultimately have "unat n = (if m > 0x100000 - buf then 2048 * (unat (0x100000 - buf) div 2048) else unat m)" "unat (0x100000 - buf) div 2048 \<noteq> 0"
      by (simp_all only: if_distrib [of unat] clear_low_bits not_False_eq_True)
    moreover have "unat m \<noteq> 0" using assms(3) by (simp add: unat_eq_zero)
    ultimately show ?thesis using assms(2) by simp
  qed
  then show "unat n mod 2048 = 0" "n \<noteq> 0" by auto
qed

lemma block_count_range:
  assumes "unat n mod 2048 = 0" "n \<noteq> 0"
  shows "0 < block_count n" "block_count n \<le> 0x7F" "unat (block_count n) = min (unat n div 2048) 0x7F"
    "2048 * unat (block_count n) \<le> unat n" "n = 2048 \<longleftrightarrow> unat (block_count n) = 1"
proof -
  have "unat n \<noteq> 0" using assms(2) by (simp add: unat_eq_zero)
  moreover have "unat n = 2048 * (unat n div 2048)" using assms(1) by auto
  ultimately have q: "0 < unat n div 2048" by linarith
  have d: "unat (n div 2048) = unat n div 2048" by (simp add: unat_div)
  show k: "unat (block_count n) = min (unat n div 2048) 0x7F"
  proof (cases "unat n div 2048 > 0x7F")
    case True
    then show ?thesis by (simp add: block_count_def word_less_nat_alt d)
  next
    case False
    then have "unat n div 2048 mod 65536 = unat n div 2048" by (intro mod_less) linarith
    with False show ?thesis by (simp add: block_count_def word_less_nat_alt d unat_ucast_mod)
  qed
  show "0 < block_count n" "block_count n \<le> 0x7F" using k q by (simp_all add: word_less_nat_alt word_le_nat_alt)
  show "2048 * unat (block_count n) \<le> unat n" unfolding k by linarith
  have "n = 2048 \<longleftrightarrow> unat n = 2048" by (simp add: word_unat_eq_iff)
  moreover have "unat n = 2048 * (unat n div 2048)" using assms(1) by auto
  ultimately show "n = 2048 \<longleftrightarrow> unat (block_count n) = 1" unfolding k by linarith
qed

lemma cd_layout_less: "cd_layout v stk target n \<Longrightarrow> k \<le> n \<Longrightarrow> cd_layout v stk target k"
proof -
  assume l: "cd_layout v stk target n" "k \<le> n"
  have "in_block target (2048 * k) x \<Longrightarrow> in_block target (2048 * n) x" for x using l(2) by (simp add: in_block_def)
  then show ?thesis using l(1) unfolding cd_layout_def by blast
qed

lemma copy_out_loads:
  assumes "unat blocks * 2048 \<le> 2 ^ 64"
  shows "load_bytes (mem (copy_out buf target blocks mc)) buf (2048 * unat blocks) = load_bytes (mem mc) target (2048 * unat blocks)"
    "\<not> in_block buf (2048 * unat blocks) x \<Longrightarrow> mem (copy_out buf target blocks mc) x = mem mc x"
  using assms load_store_bytes [of "load_bytes (mem mc) target (2048 * unat blocks)" "mem mc" buf]
  by (auto simp: copy_out_def mult.commute store_bytes_other simp del: load_bytes.simps)

text \<open>
  What a call of \<open>pread\<close> gives: \<open>k\<close> blocks if they can be read at once, else one block, else an error.
\<close>

definition pread_result :: "(nat \<Rightarrow> u8) \<Rightarrow> (nat \<Rightarrow> nat \<Rightarrow> bool) \<Rightarrow> addr \<Rightarrow> nat \<Rightarrow> nat \<Rightarrow> int \<times> u64 \<times> 'w machine \<Rightarrow> bool" where
  "pread_result disc readable buf lba k = (\<lambda>(ret, got, mc').
     let n = (if readable lba k then k else 1) in
     if readable lba n then ret = 0 \<and> unat got = 2048 * n \<and> load_bytes (mem mc') buf (2048 * n) = disc_blocks disc lba n
     else ret = CD_EIO \<and> got = 0)"

lemma pread_step:
  assumes "edd_reads pf stk (ucast (drive_number dev)) disc readable" "scratch_buffer v < 0x100000"
    "offset mod 2048 = 0" "nbytes AND NOT 0x7FF = m" "m \<noteq> 0" "read_target v buf m = (target, n)" "k = unat (block_count n)" "cd_layout v stk target k"
  shows "\<exists>mc'. (\<forall>x. stk x \<or> in_block (lba_packet v) 16 x \<or> in_block target (2048 * k) x \<or> mem mc' x = mem mc x) \<and>
    cdrom_pread v pf dev buf nbytes offset mc =
      (if readable (unat offset div 2048) k then (0, of_nat (2048 * k), copy_out buf target (block_count n) mc')
       else if n > 2048 then cdrom_pread v pf dev buf 2048 offset mc' else (CD_EIO, 0, mc')) \<and>
    (readable (unat offset div 2048) k \<longrightarrow> load_bytes (mem mc') target (2048 * k) = disc_blocks disc (unat offset div 2048) k)"
proof -
  have m: "unat m mod 2048 = 0" using clear_low_bits(2) [of nbytes] assms(4) by simp
  note t = read_target_props [OF assms(6) m assms(5,2)]
  note b = block_count_range [OF t(2,3)]
  have lba: "unat (offset div 2048) = unat offset div 2048" by (simp add: unat_div)
  from cd_call_reads [OF assms(1) assms(8) [unfolded assms(7)] b(1,2), of "offset div 2048" mc] obtain regs blocks' mc' where c:
    "cd_call v pf dev target (block_count n) (offset div 2048) mc = (regs, blocks', mc')"
    "carry regs \<longleftrightarrow> \<not> readable (unat offset div 2048) k"
    "readable (unat offset div 2048) k \<longrightarrow> blocks' = block_count n \<and> load_bytes (mem mc') target (2048 * k) = disc_blocks disc (unat offset div 2048) k"
    "\<forall>x. stk x \<or> in_block (lba_packet v) 16 x \<or> in_block target (2048 * k) x \<or> mem mc' x = mem mc x"
    unfolding lba assms(7) [symmetric] by blast
  have "ucast (block_count n) * 2048 = (of_nat (2048 * k) :: u64)"
    using b(3) by (simp add: word_unat_eq_iff unat_word_ariths unat_of_nat unat_ucast_mod assms(7))
  moreover have "block_count n \<noteq> 0" using b(1) by auto
  ultimately have "cdrom_pread v pf dev buf nbytes offset mc =
      (if readable (unat offset div 2048) k then (0, of_nat (2048 * k), copy_out buf target (block_count n) mc')
       else if n > 2048 then cdrom_pread v pf dev buf 2048 offset mc' else (CD_EIO, 0, mc'))"
    unfolding cdrom_pread.simps [of v pf dev buf nbytes] assms(4) using assms(3,5) c(2,3) by (simp add: assms(6) c(1) del: of_nat_mult)
  then show ?thesis using c(3,4) by blast
qed

lemma pread_ok:
  assumes "edd_reads pf stk (ucast (drive_number dev)) disc readable" "scratch_buffer v < 0x100000"
    "offset mod 2048 = 0" "nbytes AND NOT 0x7FF \<noteq> 0" "read_target v buf (nbytes AND NOT 0x7FF) = (target, n)"
    "k = unat (block_count n)" "cd_layout v stk target k"
  shows "pread_result disc readable buf (unat offset div 2048) k (cdrom_pread v pf dev buf nbytes offset mc) \<and>
    (\<forall>x. stk x \<or> in_block (lba_packet v) 16 x \<or> in_block target (2048 * k) x \<or> in_block buf (2048 * k) x \<or>
      mem (snd (snd (cdrom_pread v pf dev buf nbytes offset mc))) x = mem mc x)"
proof -
  let ?L = "unat offset div 2048"
  have m: "unat (nbytes AND NOT 0x7FF) mod 2048 = 0" using clear_low_bits(2) [of nbytes] by simp
  note t = read_target_props [OF assms(5) m assms(4,2)]
  note b = block_count_range [OF t(2,3)]
  have k: "unat (of_nat (2048 * k) :: u64) = 2048 * k" 
  proof -
    have "2048 * k < 2 ^ 64" using b(3) unfolding assms(6) by simp
    then show ?thesis by (simp only: unat_of_nat) simp
  qed
  from pread_step [OF assms(1,2,3) refl assms(4,5,6,7), of mc] obtain mc' where c:
    "\<And>x. stk x \<or> in_block (lba_packet v) 16 x \<or> in_block target (2048 * k) x \<or> mem mc' x = mem mc x"
    "cdrom_pread v pf dev buf nbytes offset mc =
      (if readable ?L k then (0, of_nat (2048 * k), copy_out buf target (block_count n) mc')
       else if n > 2048 then cdrom_pread v pf dev buf 2048 offset mc' else (CD_EIO, 0, mc'))"
    "readable ?L k \<longrightarrow> load_bytes (mem mc') target (2048 * k) = disc_blocks disc ?L k" by blast
  have b3: "unat (block_count n) * 2048 \<le> 2 ^ 64" using b(3) by simp
  show ?thesis
  proof (cases "readable ?L k")
    case True
    have "stk x \<or> in_block (lba_packet v) 16 x \<or> in_block target (2048 * k) x \<or> in_block buf (2048 * k) x \<or>
        mem (copy_out buf target (block_count n) mc') x = mem mc x" for x
      using c(1) [of x] copy_out_loads(2) [OF b3, of buf x target mc'] assms(6) by metis
    with True show ?thesis using c(2,3) copy_out_loads(1) [OF b3, where buf = buf and target = target and mc = mc'] k
      by (auto simp: pread_result_def assms(6) [symmetric] Let_def simp del: of_nat_mult load_bytes.simps)
  next
    case no: False
    show ?thesis
    proof (cases "n > 2048")
      case True
      have a: "(2048 :: u64) AND NOT 0x7FF = 2048" by simp
      have "block_count 2048 = 1" by (simp add: block_count_def)
      then have one: "1 = unat (block_count 2048)" by simp
      have le: "1 \<le> k" using b(1) assms(6) by (simp add: word_less_nat_alt)
      have two: "(2048 :: u64) \<noteq> 0" by simp
      from pread_step [OF assms(1,2,3) a two t(5) one cd_layout_less [OF assms(7) le], of mc'] obtain mc'' where d:
        "(\<forall>x. stk x \<or> in_block (lba_packet v) 16 x \<or> in_block target (2048 * 1) x \<or> mem mc'' x = mem mc' x) \<and>
         cdrom_pread v pf dev buf 2048 offset mc' =
          (if readable ?L 1 then (0, of_nat (2048 * 1), copy_out buf target (block_count 2048) mc'')
           else if (2048 :: u64) < 2048 then cdrom_pread v pf dev buf 2048 offset mc'' else (CD_EIO, 0, mc'')) \<and>
         (readable ?L 1 \<longrightarrow> load_bytes (mem mc'') target (2048 * 1) = disc_blocks disc ?L 1)"
        by (rule exE)
      then have d1: "stk x \<or> in_block (lba_packet v) 16 x \<or> in_block target (2048 * 1) x \<or> mem mc'' x = mem mc' x" for x by blast
      note d = d [THEN conjunct2, THEN conjunct1, simplified less_irrefl if_False] d [THEN conjunct2, THEN conjunct2]
      have w: "in_block a (2048 * 1) x \<Longrightarrow> in_block a (2048 * k) x" for a x using le by (simp add: in_block_def)
      have f: "stk x \<or> in_block (lba_packet v) 16 x \<or> in_block target (2048 * k) x \<or> mem mc'' x = mem mc x" for x
        using c(1) [of x] d1 [of x] w by metis
      have b1: "unat (block_count 2048) * 2048 \<le> 2 ^ 64" unfolding one [symmetric] by simp
      note o1 = copy_out_loads [OF b1, where buf = buf and target = target and mc = mc'', folded one]
      show ?thesis
      proof (cases "readable ?L 1")
        case yes: True
        have "stk x \<or> in_block (lba_packet v) 16 x \<or> in_block target (2048 * k) x \<or> in_block buf (2048 * k) x \<or>
            mem (copy_out buf target (block_count 2048) mc'') x = mem mc x" for x
          using f [of x] o1(2) [of x] w by metis
        then show ?thesis using yes no True c(2) d o1(1)
          by (auto simp: pread_result_def Let_def simp del: load_bytes.simps)
      qed (use no True c(2) d(1) f in \<open>auto simp: pread_result_def\<close>)
    next
      case False
      then have "unat n \<le> 2048" by (simp add: not_less word_le_nat_alt)
      moreover have "unat n \<noteq> 0" using t(3) by (simp add: unat_eq_zero)
      moreover obtain q where "unat n = 2048 * q" using t(2) by auto
      ultimately have "unat n = 2048" by simp
      then have "n = 2048" by (simp add: word_unat_eq_iff)
      then have "k = 1" using b(5) assms(6) by simp
      then show ?thesis using no False c by (auto simp: pread_result_def)
    qed
  qed
qed

section \<open>The drive as a block device\<close>

text \<open>
  What the driver works on: its variables, the firmware with its stack, the drive, and the disc in it with the blocks that can be read.
\<close>

record 'w cd_setup =
  cd_v :: cd_vars
  cd_pf :: "'w platform"
  cd_dev :: cdrom_dev
  cd_stk :: "addr \<Rightarrow> bool"
  cd_disc :: "nat \<Rightarrow> u8"
  cd_readable :: "nat \<Rightarrow> nat \<Rightarrow> bool"

definition cd_pread :: "'w cd_setup \<Rightarrow> addr \<Rightarrow> u64 \<Rightarrow> u64 \<Rightarrow> 'w machine \<Rightarrow> int \<times> u64 \<times> 'w machine" where
  "cd_pread d = cdrom_pread (cd_v d) (cd_pf d) (cd_dev d)"

definition cd_usable :: "'w cd_setup \<Rightarrow> addr \<Rightarrow> bool" where
  "cd_usable d buf \<longleftrightarrow> edd_reads (cd_pf d) (cd_stk d) (ucast (drive_number (cd_dev d))) (cd_disc d) (cd_readable d) \<and>
     scratch_buffer (cd_v d) < 0x100000 \<and> snd (read_target (cd_v d) buf 2048) = 2048 \<and> cd_layout (cd_v d) (cd_stk d) (fst (read_target (cd_v d) buf 2048)) 1"

definition cd_holds :: "'w cd_setup \<Rightarrow> addr \<Rightarrow> nat \<Rightarrow> 'w machine \<Rightarrow> bool" where
  "cd_holds d buf i mc \<longleftrightarrow> load_bytes (mem mc) buf 2048 = disc_blocks (cd_disc d) i 1"

definition cd_keeps :: "'w cd_setup \<Rightarrow> addr \<Rightarrow> 'w machine \<Rightarrow> 'w machine \<Rightarrow> bool" where
  "cd_keeps d buf mc mc' \<longleftrightarrow> (\<forall>x. cd_stk d x \<or> in_block (lba_packet (cd_v d)) 16 x \<or>
     in_block (fst (read_target (cd_v d) buf 2048)) 2048 x \<or> in_block buf 2048 x \<or> mem mc' x = mem mc x)"

lemma cd_read_block:
  assumes "cd_usable d buf" "offset mod 2048 = 0" "cd_pread d buf 2048 offset mc = (ret, got, mc')"
  shows "(if cd_readable d (unat offset div 2048) 1 then ret = 0 \<and> got = 2048 \<and> cd_holds d buf (unat offset div 2048) mc' else ret \<noteq> 0) \<and>
    cd_keeps d buf mc mc'"
proof -
  let ?t = "fst (read_target (cd_v d) buf 2048)"
  have u: "edd_reads (cd_pf d) (cd_stk d) (ucast (drive_number (cd_dev d))) (cd_disc d) (cd_readable d)" "scratch_buffer (cd_v d) < 0x100000"
    "read_target (cd_v d) buf 2048 = (?t, 2048)" "cd_layout (cd_v d) (cd_stk d) ?t 1" using assms(1) by (auto simp: cd_usable_def prod_eq_iff)
  have a: "(2048 :: u64) AND NOT 0x7FF \<noteq> 0" "read_target (cd_v d) buf (2048 AND NOT 0x7FF) = (?t, 2048)" using u(3) by simp_all
  have one: "1 = unat (block_count 2048)" by (simp add: block_count_def)
  note r = pread_ok [OF u(1,2) assms(2) a one u(4), of mc, unfolded assms(3) [unfolded cd_pread_def] snd_conv mult_1_right]
  have g: "unat got = 2048 \<longleftrightarrow> got = 2048" by (simp add: word_unat_eq_iff)
  then show ?thesis using r
    by (auto simp: pread_result_def Let_def CD_EIO_def cd_holds_def cd_keeps_def simp del: load_bytes.simps split: if_splits)
qed

interpretation cd: block_device cd_pread cd_usable "\<lambda>d i. cd_readable d i 1" cd_holds cd_keeps
  by unfold_locales (rule cd_read_block)

end
