(* ===== verification/Bios_Devices_Properties.thy ===== *)
theory Bios_Devices_Properties
  imports Bios_Devices_Correct
begin

text \<open>The properties of the console and the CD-ROM driver, with instances on a firmware that has both.\<close>

section \<open>A firmware with a drive\<close>

text \<open>
  The teletype function appends to a transcript; the drive has 300 blocks with the bytes of \<open>sample_disc\<close>.
  The world is the transcript: characters with the page they were printed on.
\<close>

definition sample_disc :: "nat \<Rightarrow> u8" where
  "sample_disc i = of_nat (i div 2048)"

definition sample_readable :: "nat \<Rightarrow> nat \<Rightarrow> bool" where
  "sample_readable lba n \<longleftrightarrow> lba + n \<le> 300"

definition disc_answer :: "bios_registers \<Rightarrow> bytes \<Rightarrow> bios_registers \<times> bytes" where
  "disc_answer regs m =
     (let p = ucast (ds regs) * 16 + ucast (ucast (esi regs) :: u16); n = unat (load16 m (p + 2)); lba = unat (load64 m (p + 8)) in
      if sample_readable lba n
      then (regs\<lparr>eflags := 0\<rparr>, store_bytes m (rm_ptr_from_far (load32 m (p + 4))) (disc_blocks sample_disc lba n))
      else (regs\<lparr>eflags := carry_flag\<rparr>, m))"

definition sample_firmware :: "u32 \<Rightarrow> u8 \<Rightarrow> addr \<Rightarrow> (u8 \<times> u8) list machine \<Rightarrow> (u8 \<times> u8) list machine" where
  "sample_firmware target num sp mc =
     (let regs = load_regs (mem mc) sp in
      if num = 0x13 then (let (regs', m) = disc_answer regs (mem mc) in mc\<lparr>mem := store_bytes m sp (regs_bytes regs')\<rparr>)
      else if ucast (drop_bit 8 (eax regs)) = (0x0E :: u8)
      then mc\<lparr>world := world mc @ [(ucast (eax regs), ucast (drop_bit 8 (ebx regs)))]\<rparr> else mc)"

definition device_platform :: "(u8 \<times> u8) list platform" where
  "device_platform = \<lparr>bios_services = \<lparr>magic = 0, tsize = 20, rm_stack = 0x7000, far_call_ptr = 0, int_call_ptr = 0\<rparr>,
     int_entry = sample_firmware, far_entry = (\<lambda>_ _ mc. mc), port_in = (\<lambda>_ mc. (0, mc)), port_out = (\<lambda>_ _ mc. mc)\<rparr>"

definition sample_vars :: cd_vars where
  "sample_vars = \<lparr>lba_packet = 0x8000, scratch_buffer = 0x9000\<rparr>"

lemma device_call:
  fixes mc :: "(u8 \<times> u8) list machine"
  shows "\<exists>m. load_regs m 0x6FD0 = regs \<and> (\<forall>x. \<not> in_block 0x6FD0 48 x \<longrightarrow> m x = mem mc x) \<and>
    (let mc' = sample_firmware 0 num 0x6FD0 (mc\<lparr>mem := m\<rparr>) in bios_int_call device_platform num regs mc = (load_regs (mem mc') 0x6FD0, mc'))"
proof -
  have "int_frame device_platform = 0x6FD0" by (simp add: int_frame_def device_platform_def)
  then show ?thesis using int_call_frame [where pf = device_platform and regs = regs and mc = mc and num = num]
    by (simp add: device_platform_def)
qed

lemma device_prints: "prints device_platform (\<lambda>c p w. w @ [(c, p)])"
  unfolding prints_def
proof (intro allI impI)
  fix regs :: bios_registers and mc :: "(u8 \<times> u8) list machine"
  assume a: "ucast (drop_bit 8 (eax regs)) = (0x0E :: u8)"
  obtain m where "load_regs m 0x6FD0 = regs"
    "bios_int_call device_platform 0x10 regs mc = (let mc' = sample_firmware 0 0x10 0x6FD0 (mc\<lparr>mem := m\<rparr>) in (load_regs (mem mc') 0x6FD0, mc'))"
    using device_call [of regs mc "0x10"] by (auto simp: Let_def)
  then show "world (snd (bios_int_call device_platform 0x10 regs mc)) =
    world mc @ [(ucast (eax regs), ucast (drop_bit 8 (ebx regs)))]"
    using a by (simp add: sample_firmware_def Let_def)
qed

text \<open>The fields of a packet in memory.\<close>

lemma load_packet:
  assumes "load_bytes m p 16 = lba_packet_bytes blocks fp lba"
  shows "load16 m (p + 2) = blocks" "load32 m (p + 4) = fp" "load64 m (p + 8) = lba"
proof -
  have s: "load_bytes m p 16 = load_bytes m p 2 @ load_bytes m (p + 2) 2 @ load_bytes m (p + 4) 4 @ load_bytes m (p + 8) 8"
    using load_bytes_append [of m p 2 14] load_bytes_append [of m "p + 2" 2 12] load_bytes_append [of m "p + 4" 4 8]
    by (simp add: add.assoc del: load_bytes.simps)
  have "load_bytes m p 2 @ load_bytes m (p + 2) 2 @ load_bytes m (p + 4) 4 @ load_bytes m (p + 8) 8 =
    [16, 0] @ word_le 2 blocks @ word_le 4 fp @ word_le 8 lba"
    using assms unfolding s lba_packet_bytes_def .
  then have "load_bytes m (p + 2) 2 = word_le 2 blocks \<and> load_bytes m (p + 4) 4 = word_le 4 fp \<and> load_bytes m (p + 8) 8 = word_le 8 lba"
    by (subst (asm) append_eq_append_conv) (simp_all del: load_bytes.simps word_le.simps)
  then show "load16 m (p + 2) = blocks" "load32 m (p + 4) = fp" "load64 m (p + 8) = lba"
    by (simp_all del: load_bytes.simps word_le.simps)
qed

lemma device_reads: "edd_reads device_platform (in_block 0x6FD0 48) drive sample_disc sample_readable"
  unfolding edd_reads_def
proof (intro allI impI, elim conjE, goal_cases)
  case (1 mc regs p blocks fp lba)
  let ?n = "2048 * unat blocks" and ?t = "rm_ptr_from_far fp"
  obtain m where m: "load_regs m 0x6FD0 = regs" "\<forall>x. \<not> in_block 0x6FD0 48 x \<longrightarrow> m x = mem mc x"
    "bios_int_call device_platform 0x13 regs mc = (let mc' = sample_firmware 0 0x13 0x6FD0 (mc\<lparr>mem := m\<rparr>) in (load_regs (mem mc') 0x6FD0, mc'))"
    using device_call [of regs mc "0x13"] by (auto simp: Let_def)
  have pm: "load_bytes m' p 16 = load_bytes (mem mc) p 16" if "\<And>x. in_block p 16 x \<Longrightarrow> m' x = mem mc x" for m'
    using that by (rule load_bytes_cong)
  have "load_bytes m p 16 = lba_packet_bytes blocks fp lba" using 1(4) pm [of m] m(2) 1(7) by metis
  note f = load_packet [OF this]
  have fr: "store_bytes k 0x6FD0 (regs_bytes r) x = k x" if "\<not> in_block 0x6FD0 48 x" for k r x
    using that by (intro store_bytes_other) (auto simp: in_block_def)
  show ?case
  proof (cases "sample_readable (unat lba) (unat blocks)")
    case False
    then show ?thesis using m(2) by (auto simp: m(3) sample_firmware_def m(1) disc_answer_def 1(3) [symmetric] f Let_def load_store_regs
        carry_def carry_flag_def fr simp del: store_bytes.simps)
  next
    case True
    let ?d = "disc_blocks sample_disc (unat lba) (unat blocks)" and ?r = "regs\<lparr>eflags := 0\<rparr>"
    let ?m = "store_bytes (store_bytes m ?t ?d) 0x6FD0 (regs_bytes ?r)"
    have c: "bios_int_call device_platform 0x13 regs mc = (?r, mc\<lparr>mem := ?m\<rparr>)"
      using True by (simp add: m(3) sample_firmware_def m(1) disc_answer_def 1(3) [symmetric] f Let_def load_store_regs del: store_bytes.simps)
    have o1: "?m x = store_bytes m ?t ?d x" if "\<not> in_block 0x6FD0 48 x" for x using that by (rule fr)
    have o2: "store_bytes m ?t ?d x = m x" if "\<not> in_block ?t ?n x" for x using that by (intro store_bytes_other) simp
    have "unat blocks \<le> 0x7F" using 1(6) by (simp add: word_le_nat_alt)
    then have "load_bytes (store_bytes m ?t ?d) ?t ?n = ?d" using load_store_bytes [of ?d m ?t] by simp
    moreover have "load_bytes ?m ?t ?n = load_bytes (store_bytes m ?t ?d) ?t ?n" using 1(7) o1 by (intro load_bytes_cong) blast
    moreover have "load_bytes ?m p 16 = lba_packet_bytes blocks fp lba"
    proof -
      have "?m x = mem mc x" if "in_block p 16 x" for x using that 1(7,8) o1 [of x] o2 [of x] m(2) by metis
      then show ?thesis using pm [of ?m] 1(4) by metis
    qed
    note load_packet(1) [OF this]
    moreover have "in_block 0x6FD0 48 x \<or> in_block p 16 x \<or> in_block ?t ?n x \<or> ?m x = mem mc x" for x
      using o1 [of x] o2 [of x] m(2) by metis
    ultimately show ?thesis using True unfolding c Let_def prod.case by (simp add: carry_def del: load_bytes.simps store_bytes.simps)
  qed
qed

section \<open>Properties\<close>

text \<open>C19. \<open>pread\<close> of the CD-ROM driver where its packet lies at a multiple of 16.  The packed structure of the driver does not
  ensure this; at any other address the firmware, which takes the packet at DS:SI while the driver sets EDI, is not given the packet,
  and nothing is claimed here.  On a firmware that reads blocks as documented, with packet and target below 1 MiB, clear of the
  firmware's stack and apart, an offset that is no multiple of 2048 is refused and
  a request below 2048 bytes reads nothing, both without a firmware call.  Any other request reads the blocks that fit the target buffer, 127
  at most, or one block if they cannot be read at once, and reports exactly the number of bytes
  that are in \<open>buf\<close> then; if that block cannot be read either it gives \<^verbatim>\<open>EIO\<close> and 0 bytes.  Memory changes only in the
  stack of the firmware, the packet, the target and the caller's buffer.\<close>

theorem cdrom_pread_reads:
  assumes "edd_reads pf stk (ucast (drive_number dev)) disc readable" "scratch_buffer v < 0x100000"
    "read_target v buf (nbytes AND NOT 0x7FF) = (target, n)" "k = unat (block_count n)" "cd_layout v stk target k"
  shows "(offset mod 2048 \<noteq> 0 \<longrightarrow> cdrom_pread v pf dev buf nbytes offset mc = (CD_EINVAL, 0, mc)) \<and>
    (offset mod 2048 = 0 \<and> nbytes < 2048 \<longrightarrow> cdrom_pread v pf dev buf nbytes offset mc = (0, 0, mc)) \<and>
    (offset mod 2048 = 0 \<and> 2048 \<le> nbytes \<longrightarrow>
      1 \<le> k \<and> k \<le> 127 \<and> 2048 * k \<le> unat nbytes \<and>
      pread_result disc readable buf (unat offset div 2048) k (cdrom_pread v pf dev buf nbytes offset mc) \<and>
      (\<forall>x. stk x \<or> in_block (lba_packet v) 16 x \<or> in_block target (2048 * k) x \<or> in_block buf (2048 * k) x \<or>
        mem (snd (snd (cdrom_pread v pf dev buf nbytes offset mc))) x = mem mc x))"
proof -
  have z: "nbytes AND NOT 0x7FF = 0 \<longleftrightarrow> nbytes < 2048"
    unfolding word_less_nat_alt word_unat_eq_iff clear_low_bits by auto
  have "1 \<le> k \<and> k \<le> 127 \<and> 2048 * k \<le> unat nbytes" if "2048 \<le> nbytes"
  proof -
    have nz: "nbytes AND NOT 0x7FF \<noteq> 0" using z that by (simp only: not_less)
    have m: "unat (nbytes AND NOT 0x7FF) mod 2048 = 0" using clear_low_bits(2) [of nbytes] by simp
    note t = read_target_props [OF assms(3) m nz assms(2)]
    note b = block_count_range [OF t(2,3)]
    have "unat n \<le> unat nbytes" using t(4) clear_low_bits_le [of nbytes] unfolding word_le_nat_alt by linarith
    then show ?thesis using b(1-4) assms(4) by (simp add: word_less_nat_alt)
  qed
  moreover have "cdrom_pread v pf dev buf nbytes offset mc = (CD_EINVAL, 0, mc)" if "offset mod 2048 \<noteq> 0"
    using that by (simp add: cdrom_pread.simps)
  moreover have "cdrom_pread v pf dev buf nbytes offset mc = (0, 0, mc)" if "offset mod 2048 = 0" "nbytes < 2048"
    unfolding cdrom_pread.simps [of v pf dev buf nbytes] z using that by simp
  moreover note pread_ok [OF assms(1,2) _ _ assms(3-5), of offset mc]
  ultimately show ?thesis unfolding z not_less by (intro conjI impI) blast+
qed

theorem cdrom_pread_reads_witness:
  "\<forall>mc. pread_result sample_disc sample_readable 0x20000 1 2 (cdrom_pread sample_vars device_platform (cdrom_init 0xE0) 0x20000 5000 2048 mc) \<and>
    cdrom_pread sample_vars device_platform (cdrom_init 0xE0) 0x20000 5000 2049 mc = (CD_EINVAL, 0, mc)"
proof
  fix mc
  have t: "read_target sample_vars 0x20000 (5000 AND NOT 0x7FF) = (0x20000, 4096)" by (simp add: read_target_def)
  have k: "2 = unat (block_count 4096)" by (simp add: block_count_def)
  have s: "scratch_buffer sample_vars < 0x100000" by (simp add: sample_vars_def)
  have d: "edd_reads device_platform (in_block 0x6FD0 48) (ucast (drive_number (cdrom_init 0xE0))) sample_disc sample_readable" by (rule device_reads)
  have "cd_layout sample_vars (in_block 0x6FD0 48) 0x20000 2"
    using in_block_range [of "0x6FD0" 48] in_block_range [of "0x8000" 16] in_block_range [of "0x20000" 4096]
    by (fastforce simp: cd_layout_def sample_vars_def)
  note r = cdrom_pread_reads [OF d s t k this]
  show "pread_result sample_disc sample_readable 0x20000 1 2 (cdrom_pread sample_vars device_platform (cdrom_init 0xE0) 0x20000 5000 2048 mc) \<and>
    cdrom_pread sample_vars device_platform (cdrom_init 0xE0) 0x20000 5000 2049 mc = (CD_EINVAL, 0, mc)"
    using r [of 2048 mc] r [of 2049 mc] by simp
qed

text \<open>C40. What the firmware is given for the packet: it takes the packet at DS:SI, but the driver leaves SI zero and puts the offset in
  EDI.  The 16 bytes that the firmware looks at are therefore the packet only if the packet lies at a multiple of 16; otherwise they are
  the bytes before it, as many as its address is above the multiple, followed by the packet without its end.\<close>

theorem cdrom_packet_misplaced:
  assumes "lba_packet v < 0x100000" "j = unat (lba_packet v) mod 16" "p = ucast (ds (cd_regs v dev)) * 16 + ucast (ucast (esi (cd_regs v dev)) :: u16)"
  shows "load_bytes (store_bytes m (lba_packet v) (lba_packet_bytes blocks fp lba)) p 16 =
    load_bytes m p j @ take (16 - j) (lba_packet_bytes blocks fp lba)"
proof -
  let ?b = "lba_packet_bytes blocks fp lba" and ?m = "store_bytes m (lba_packet v) (lba_packet_bytes blocks fp lba)"
  have j: "j < 16" "lba_packet v AND 0xF = of_nat j" using assms(2) by (simp_all add: word_unat_eq_iff unat_and_mask unat_of_nat)
  have p: "p = lba_packet v - of_nat j" using assms(3) packet_address [OF assms(1), of dev] j(2) by simp
  have "j \<le> unat (lba_packet v)" using assms(2) by simp
  then have u: "unat p = unat (lba_packet v) - j" using j(1) by (simp add: p unat_sub word_le_nat_alt unat_of_nat)
  have "load_bytes ?m p j = load_bytes m p j"
  proof (rule load_bytes_cong)
    fix x assume "in_block p j x"
    then have "unat x < unat (lba_packet v)" using in_block_range [of p j x] u assms(1) \<open>j \<le> unat (lba_packet v)\<close> by (simp add: word_less_nat_alt)
    then have "\<not> in_block (lba_packet v) (length ?b) x" using in_block_range [of "lba_packet v" 16 x] assms(1) by (auto simp: length_packet word_less_nat_alt)
    then show "?m x = m x" by (rule store_bytes_other)
  qed
  moreover have "load_bytes ?m (lba_packet v) (16 - j) = take (16 - j) ?b"
  proof -
    have "load_bytes ?m (lba_packet v) 16 = ?b" using load_store_bytes [of ?b m "lba_packet v"] by (simp add: length_packet del: load_bytes.simps store_bytes.simps)
    then have "?b = load_bytes ?m (lba_packet v) (16 - j) @ load_bytes ?m (lba_packet v + of_nat (16 - j)) j"
      using load_bytes_append [of ?m "lba_packet v" "16 - j" j] j(1) by (simp del: load_bytes.simps store_bytes.simps of_nat_diff)
    moreover have "length (load_bytes ?m (lba_packet v) (16 - j)) = 16 - j" by simp
    ultimately show ?thesis by (metis append_eq_conv_conj)
  qed
  ultimately show ?thesis using load_bytes_append [of ?m p j "16 - j"] j(1) p by simp
qed

theorem cdrom_packet_misplaced_witness:
  "\<exists>p. load_bytes (store_bytes (\<lambda>_. 0) 0x8004 (lba_packet_bytes 1 0x9000000 16)) p 16 = [0, 0, 0, 0] @ take 12 (lba_packet_bytes 1 0x9000000 16)"
proof -
  let ?v = "\<lparr>lba_packet = 0x8004, scratch_buffer = 0x9000\<rparr>" and ?d = "cdrom_init 0xE0"
  have "load_bytes (\<lambda>_. 0) p n = replicate n 0" for p n by (induction n arbitrary: p) simp_all
  then have z: "load_bytes (\<lambda>_. 0) p 4 = [0, 0, 0, 0]" for p by (simp add: eval_nat_numeral del: load_bytes.simps)
  have v: "lba_packet ?v < 0x100000" "4 = unat (lba_packet ?v) mod 16" by simp_all
  show ?thesis
    using cdrom_packet_misplaced [where dev = ?d and m = "\<lambda>_. 0" and blocks = 1 and fp = "0x9000000" and lba = 16, OF v refl] unfolding z cd_vars.simps by (intro exI) simp
qed

text \<open>\<open>bios_console_write\<close> prints every byte of its buffer, in order and as it is, on the page that was
  current when the console was set up, and reports all bytes as written.\<close>

theorem bios_console_write_prints:
  assumes "prints pf tty"
  shows "\<exists>mc'. bios_console_write pf dev buf mc = (0, length buf, mc') \<and> world mc' = fold (\<lambda>c. tty c (cur_page dev)) buf (world mc)"
  using console_loop_prints [OF assms] by (simp add: bios_console_write_def)

theorem bios_console_write_prints_witness:
  "\<exists>mc'. bios_console_write device_platform \<lparr>con_width = 80, cur_page = 1\<rparr> [72, 105] \<lparr>mem = (\<lambda>_. 0), world = []\<rparr> = (0, 2, mc') \<and>
    world mc' = [(72, 1), (105, 1)]"
  using bios_console_write_prints [OF device_prints, of "\<lparr>con_width = 80, cur_page = 1\<rparr>" "[72, 105]" "\<lparr>mem = (\<lambda>_. 0), world = []\<rparr>"]
  by (simp add: numeral_2_eq_2)

end
