(* ===== verification/Iso9660.thy ===== *)
theory Iso9660
  imports Gandr_Prelude Byte_Memory
begin

text \<open>
  The ISO 9660 file system (\<^verbatim>\<open>bal/fs/iso9660/iso9660.c\<close>), which adapts \<^verbatim>\<open>lib9660\<close> to the devices of Gandr.
  The library is not part of the repository: its functions are the fields of \<open>lib9660\<close>, its file and file
  system objects the types \<open>'f\<close> and \<open>'g\<close>, and \<open>'s\<close> is the state that it and the block device work on.
\<close>

section \<open>Status values\<close>

text \<open>The values that \<open>translate_status\<close> names; \<open>L9660_OK\<close> is the one that a condition takes as false.\<close>

datatype l9660_status = L9660_OK | L9660_EIO | L9660_EBADFS | L9660_ENOENT | L9660_ENOTFILE | L9660_ENOTDIR | L9660_other int

definition ISO_EINVAL :: int where "ISO_EINVAL = 22"
definition ISO_EIO :: int where "ISO_EIO = 5"
definition ISO_ENOENT :: int where "ISO_ENOENT = 2"
definition ISO_ENOMEM :: int where "ISO_ENOMEM = 12"
definition ISO_ENOTDIR :: int where "ISO_ENOTDIR = 20"
definition ISO_EISDIR :: int where "ISO_EISDIR = 21"

lemmas iso_errors = ISO_EINVAL_def ISO_EIO_def ISO_ENOENT_def ISO_ENOMEM_def ISO_ENOTDIR_def ISO_EISDIR_def

fun translate_status :: "l9660_status \<Rightarrow> int" where
  "translate_status L9660_OK = 0"
| "translate_status L9660_EIO = ISO_EIO"
| "translate_status L9660_EBADFS = ISO_EIO"
| "translate_status L9660_ENOENT = ISO_ENOENT"
| "translate_status L9660_ENOTFILE = ISO_EISDIR"
| "translate_status L9660_ENOTDIR = ISO_ENOTDIR"
| "translate_status (L9660_other _) = ISO_EINVAL"

section \<open>The library\<close>

text \<open>
  \<open>l9660_openat\<close> is the call with the same object as directory and result, which is how it is used;
  \<open>l9660_openfs\<close> gets the function that reads a sector.
\<close>

record ('f, 'g, 's) lib9660 =
  l9660_read :: "'f \<Rightarrow> addr \<Rightarrow> u64 \<Rightarrow> 's \<Rightarrow> l9660_status \<times> u64 \<times> 'f \<times> 's"
  l9660_tell :: "'f \<Rightarrow> u32"
  l9660_seek :: "'f \<Rightarrow> int \<Rightarrow> u64 \<Rightarrow> l9660_status \<times> 'f"
  l9660_fs_open_root :: "'f \<Rightarrow> 'g \<Rightarrow> 's \<Rightarrow> l9660_status \<times> 'f \<times> 's"
  l9660_openat :: "'f \<Rightarrow> string \<Rightarrow> 's \<Rightarrow> l9660_status \<times> 'f \<times> 's"
  l9660_openfs :: "'g \<Rightarrow> (addr \<Rightarrow> u32 \<Rightarrow> 's \<Rightarrow> bool \<times> 's) \<Rightarrow> 's \<Rightarrow> l9660_status \<times> 'g \<times> 's"

definition SEEK_SET :: int where
  "SEEK_SET = 0"

section \<open>Files\<close>

definition file_read :: "('f, 'g, 's) lib9660 \<Rightarrow> 'f \<Rightarrow> addr \<Rightarrow> u64 \<Rightarrow> 's \<Rightarrow> int \<times> u64 \<times> 'f \<times> 's" where
  "file_read lib f buf nbytes s = (let (stat, nread, f, s) = l9660_read lib f buf nbytes s in (translate_status stat, nread, f, s))"

definition file_pread :: "('f, 'g, 's) lib9660 \<Rightarrow> 'f \<Rightarrow> addr \<Rightarrow> u64 \<Rightarrow> u64 \<Rightarrow> 's \<Rightarrow> int \<times> u64 \<times> 'f \<times> 's" where
  "file_pread lib f buf nbytes offset s =
     (let old_offset = l9660_tell lib f;
          (stat, nread, f, s) = l9660_read lib f buf nbytes s;
          (seek_stat, f) = l9660_seek lib f SEEK_SET (ucast old_offset)
      in (translate_status (if stat \<noteq> L9660_OK then stat else seek_stat), nread, f, s))"

text \<open>The return value, \<^verbatim>\<open>*new_offset\<close> if it is written, and the file; \<open>offset\<close> is signed.\<close>

definition file_seek :: "('f, 'g, 's) lib9660 \<Rightarrow> 'f \<Rightarrow> u64 \<Rightarrow> int \<Rightarrow> int \<times> u64 option \<times> 'f" where
  "file_seek lib f offset whence =
     (if sint offset > 0xFFFFFFFF then (ISO_EINVAL, None, f)
      else (let (stat, f) = l9660_seek lib f whence offset in (translate_status stat, Some (ucast (l9660_tell lib f)), f)))"

section \<open>The file system\<close>

text \<open>
  The heap maps the address of an allocated block to the file object in it; \<open>malloc\<close> gives an address and what it happens to hold.
  The block is in the heap from \<open>malloc\<close> on until it is freed.
\<close>

record ('f, 's) iso_state =
  files :: "addr \<rightharpoonup> 'f"
  outer :: 's

definition free_file :: "addr \<Rightarrow> ('f, 's) iso_state \<Rightarrow> ('f, 's) iso_state" where
  "free_file f st = st\<lparr>files := (files st)(f := None)\<rparr>"

definition file_close :: "addr \<Rightarrow> ('f, 's) iso_state \<Rightarrow> int \<times> ('f, 's) iso_state" where
  "file_close f st = (0, free_file f st)"

record 'g iso9660_fs =
  blockdev :: addr
  impl :: 'g

text \<open>The return value, \<^verbatim>\<open>*p_fd\<close> if it is written, and the state.\<close>

definition fs_openat ::
  "('f, 'g, 's) lib9660 \<Rightarrow> ((addr \<rightharpoonup> 'f) \<Rightarrow> addr \<times> 'f) \<Rightarrow> 'g iso9660_fs \<Rightarrow> string \<Rightarrow> ('f, 's) iso_state \<Rightarrow> int \<times> addr option \<times> ('f, 's) iso_state" where
  "fs_openat lib malloc self name st =
     (let (file, junk) = malloc (files st) in
      if file = 0 then (ISO_ENOMEM, None, st)
      else
        (let st = st\<lparr>files := (files st)(file \<mapsto> junk)\<rparr>;
             (stat, f, s) = l9660_fs_open_root lib junk (impl self) (outer st);
             st = st\<lparr>files := (files st)(file \<mapsto> f), outer := s\<rparr> in
         if stat \<noteq> L9660_OK then (translate_status stat, None, free_file file st)
         else
           (let (stat, f, s) = l9660_openat lib f name (outer st);
                st = st\<lparr>files := (files st)(file \<mapsto> f), outer := s\<rparr> in
            if stat \<noteq> L9660_OK then (translate_status stat, None, free_file file st)
            else (0, Some file, st))))"

text \<open>
  \<open>pread\<close> is \<^verbatim>\<open>gd_pread\<close> on the block device.  The offset is the product of two 32-bit numbers, which wraps
  before it is converted to the 64 bits of the parameter.
\<close>

definition read_sector :: "(addr \<Rightarrow> u64 \<Rightarrow> u64 \<Rightarrow> 's \<Rightarrow> int \<times> u64 \<times> 's) \<Rightarrow> addr \<Rightarrow> u32 \<Rightarrow> 's \<Rightarrow> bool \<times> 's" where
  "read_sector pread buf sector s =
     (let (ret, got, s) = pread buf 2048 (ucast (sector * 2048)) s in
      if ret \<noteq> 0 then (False, s) else if got \<noteq> 2048 then (False, s) else (True, s))"

definition iso9660fs_init ::
  "('f, 'g, 's) lib9660 \<Rightarrow> (addr \<Rightarrow> addr \<Rightarrow> u64 \<Rightarrow> u64 \<Rightarrow> 's \<Rightarrow> int \<times> u64 \<times> 's) \<Rightarrow> 'g iso9660_fs \<Rightarrow> addr \<Rightarrow> 's \<Rightarrow> int \<times> 'g iso9660_fs \<times> 's" where
  "iso9660fs_init lib gd_pread self dev s =
     (let (stat, g, s) = l9660_openfs lib (impl self) (read_sector (gd_pread dev)) s in
      (translate_status stat, self\<lparr>blockdev := dev, impl := g\<rparr>, s))"

end
