(* ===== verification/Iso9660_Properties.thy ===== *)
theory Iso9660_Properties
  imports Iso9660 Bios_Devices_Properties
begin

text \<open>The properties of the ISO 9660 file system, alone and on the CD-ROM driver.\<close>

section \<open>Sectors on a block device\<close>

text \<open>The offset of a sector is the one of the sector modulo \<open>2 ^ 21\<close>.\<close>

lemma sector_offset:
  "(ucast (sector * 2048 :: u32) :: u64) mod 2048 = 0" "unat (ucast (sector * 2048 :: u32) :: u64) div 2048 = unat sector mod 2 ^ 21"
proof -
  have "unat (ucast (sector * 2048 :: u32) :: u64) = unat sector * 2048 mod 4294967296"
    by (simp add: unat_ucast_mod unat_word_ariths)
  also have "\<dots> = 2048 * (unat sector mod 2 ^ 21)" using mult_mod_right [of 2048 "unat sector" "2 ^ 21"] by (simp add: mult.commute)
  finally have u: "unat (ucast (sector * 2048 :: u32) :: u64) = 2048 * (unat sector mod 2 ^ 21)" .
  then show "unat (ucast (sector * 2048 :: u32) :: u64) div 2048 = unat sector mod 2 ^ 21" by simp
  show "(ucast (sector * 2048 :: u32) :: u64) mod 2048 = 0" by (simp add: word_unat_eq_iff unat_mod u)
qed

context block_device
begin

lemma read_sector_block:
  assumes "usable d buf" "i = unat sector mod 2 ^ 21"
  shows "\<exists>s'. read_sector (pread d) buf sector s = (readable d i, s') \<and> (readable d i \<longrightarrow> holds d buf i s') \<and> keeps d buf s s'"
proof -
  obtain ret got s' where c: "pread d buf 2048 (ucast (sector * 2048)) s = (ret, got, s')" by (metis prod_cases3)
  from read_block [OF assms(1) sector_offset(1) c] show ?thesis
    unfolding sector_offset(2) assms(2) [symmetric] by (auto simp: read_sector_def c split: if_splits)
qed

end

lemma translate_status_0 [simp]: "translate_status stat = 0 \<longleftrightarrow> stat = L9660_OK"
  by (cases stat) (simp_all add: iso_errors)

text \<open>C20. The file system on the CD-ROM driver, where its packet lies at a multiple of 16 (\<open>cd_layout\<close>; the packed structure of the
  driver does not ensure it, and elsewhere the firmware is not given the packet): \<open>read_sector\<close> gives true exactly if the drive can
  read the block, and then the buffer holds its bytes.  The block is the sector modulo \<open>2 ^ 21\<close>, because the offset is computed with 32 bits, so it is
  the requested one for the first 4 GiB of a disc only.\<close>

theorem read_sector_reads:
  assumes "edd_reads pf stk (ucast (drive_number dev)) disc readable" "scratch_buffer v < 0x100000"
    "read_target v buf 2048 = (target, 2048)" "cd_layout v stk target 1" "block = unat sector mod 2 ^ 21"
  shows "\<exists>mc'. read_sector (cdrom_pread v pf dev) buf sector mc = (readable block 1, mc') \<and>
    (readable block 1 \<longrightarrow> load_bytes (mem mc') buf 2048 = disc_blocks disc block 1) \<and>
    (\<forall>x. stk x \<or> in_block (lba_packet v) 16 x \<or> in_block target 2048 x \<or> in_block buf 2048 x \<or> mem mc' x = mem mc x)"
proof -
  let ?d = "\<lparr>cd_v = v, cd_pf = pf, cd_dev = dev, cd_stk = stk, cd_disc = disc, cd_readable = readable\<rparr>"
  have "cd_usable ?d buf" using assms(1-4) by (simp add: cd_usable_def)
  from cd.read_sector_block [OF this assms(5), of mc] show ?thesis
    using assms(3) by (simp add: cd_pread_def cd_holds_def cd_keeps_def)
qed

theorem read_sector_reads_witness:
  "\<forall>mc. fst (read_sector (cdrom_pread sample_vars device_platform (cdrom_init 0xE0)) 0x200000 16 mc) \<and>
    \<not> fst (read_sector (cdrom_pread sample_vars device_platform (cdrom_init 0xE0)) 0x200000 300 mc)"
proof
  fix mc
  have t: "read_target sample_vars 0x200000 2048 = (0x9000, 2048)" by (simp add: read_target_def sample_vars_def sizeof_scratch_buffer_def)
  have s: "scratch_buffer sample_vars < 0x100000" by (simp add: sample_vars_def)
  have l: "cd_layout sample_vars (in_block 0x6FD0 48) 0x9000 1"
    using in_block_range [of "0x6FD0" 48] in_block_range [of "0x8000" 16] in_block_range [of "0x9000" 2048]
    by (fastforce simp: cd_layout_def sample_vars_def)
  have "sample_readable 16 1" "\<not> sample_readable 300 1" by (simp_all add: sample_readable_def)
  then show "fst (read_sector (cdrom_pread sample_vars device_platform (cdrom_init 0xE0)) 0x200000 16 mc) \<and>
    \<not> fst (read_sector (cdrom_pread sample_vars device_platform (cdrom_init 0xE0)) 0x200000 300 mc)"
    using read_sector_reads [OF device_reads s t l refl, of "cdrom_init 0xE0" 16 mc] read_sector_reads [OF device_reads s t l refl, of "cdrom_init 0xE0" 300 mc]
    by auto
qed

section \<open>Files\<close>

text \<open>C22. Opening a file: \<open>fs_openat\<close> gives a device exactly if it returns 0, and then exactly one object is allocated,
  which \<open>file_close\<close> gives back; on every error, at the root directory, at the name or for want of memory, the heap is as before:
  the block that was allocated first has been freed.\<close>

theorem fs_openat_heap:
  assumes "malloc (files st) = (a, junk)" "a \<noteq> 0 \<Longrightarrow> files st a = None" "fs_openat lib malloc self name st = (ret, fd, st')"
  shows "(ret = 0 \<longleftrightarrow> fd \<noteq> None) \<and> (ret \<noteq> 0 \<longrightarrow> files st' = files st) \<and>
    (ret = 0 \<longrightarrow> fd = Some a \<and> a \<noteq> 0 \<and> (\<exists>f. files st' = (files st)(a \<mapsto> f)) \<and> files (snd (file_close a st')) = files st)"
proof -
  have "a \<noteq> 0 \<Longrightarrow> (files st)(a := None) = files st" using assms(2) by auto
  then show ?thesis using assms(1,3)
    by (auto simp: fs_openat_def file_close_def free_file_def Let_def iso_errors split: prod.splits if_splits)
qed

text \<open>A library with one file, \<open>A\<close>, whose object is its position.\<close>

definition sample_lib :: "(u32, unit, unit) lib9660" where
  "sample_lib = \<lparr>l9660_read = (\<lambda>f buf n s. (L9660_OK, n, f + ucast n, s)), l9660_tell = id, l9660_seek = (\<lambda>f whence off. (L9660_OK, ucast off)),
     l9660_fs_open_root = (\<lambda>f g s. (L9660_OK, 0, s)), l9660_openat = (\<lambda>f name s. (if name = ''A'' then L9660_OK else L9660_ENOENT, 0, s)),
     l9660_openfs = (\<lambda>g rd s. (L9660_OK, g, s))\<rparr>"

theorem fs_openat_heap_witness:
  "files (snd (snd (fs_openat sample_lib (\<lambda>_. (64, 7)) \<lparr>blockdev = 0, impl = ()\<rparr> ''B'' \<lparr>files = Map.empty, outer = ()\<rparr>))) = Map.empty \<and>
   (\<exists>f. files (snd (snd (fs_openat sample_lib (\<lambda>_. (64, 7)) \<lparr>blockdev = 0, impl = ()\<rparr> ''A'' \<lparr>files = Map.empty, outer = ()\<rparr>))) = [64 \<mapsto> f])"
proof -
  let ?st = "\<lparr>files = Map.empty, outer = ()\<rparr> :: (u32, unit) iso_state"
  let ?open = "\<lambda>name. fs_openat sample_lib (\<lambda>_. (64, 7)) \<lparr>blockdev = 0, impl = ()\<rparr> name ?st"
  obtain ret fd st' where b: "?open ''B'' = (ret, fd, st')" by (metis prod_cases3)
  obtain ret2 fd2 st2 where a: "?open ''A'' = (ret2, fd2, st2)" by (metis prod_cases3)
  have "ret \<noteq> 0" "ret2 = 0" using a b by (auto simp: fs_openat_def sample_lib_def iso_errors Let_def)
  then show ?thesis
    using fs_openat_heap [where malloc = "\<lambda>_. (64, 7)" and st = ?st, OF refl _ b] fs_openat_heap [where malloc = "\<lambda>_. (64, 7)" and st = ?st, OF refl _ a] a b by simp
qed

text \<open>\<open>file_pread\<close> and the position of a file: on a library whose seek from the start sets the position, a read that succeeds
  leaves the position as it was; but it is the read of \<open>file_read\<close> at that position, whatever the offset.\<close>

theorem file_pread_at_position:
  assumes "\<And>f off g. l9660_seek lib f SEEK_SET off = (L9660_OK, g) \<Longrightarrow> l9660_tell lib g = ucast off"
    "file_pread lib f buf nbytes offset s = (0, nread, f', s')"
  shows "l9660_tell lib f' = l9660_tell lib f \<and> (\<exists>g. file_read lib f buf nbytes s = (0, nread, g, s'))"
proof -
  obtain stat n g t where r: "l9660_read lib f buf nbytes s = (stat, n, g, t)" by (metis prod_cases4)
  obtain seek_stat h where k: "l9660_seek lib g SEEK_SET (ucast (l9660_tell lib f)) = (seek_stat, h)" by force
  have "(ucast (ucast (l9660_tell lib f) :: u64) :: u32) = l9660_tell lib f"

  proof -
    have "unat (l9660_tell lib f) < 4294967296" using unsigned_less [of "l9660_tell lib f"] by simp
    then show ?thesis by (simp add: word_unat_eq_iff unat_ucast_mod)
  qed
  then show ?thesis using assms(1) [of g] assms(2) k by (auto simp: file_pread_def file_read_def r Let_def split: if_splits)
qed

theorem file_pread_at_position_witness: "l9660_tell sample_lib (fst (snd (snd (file_pread sample_lib 5 0 10 1000 ())))) = 5"
  using file_pread_at_position [of sample_lib 5 0 10 1000 "()" 10 5 "()"] by (simp add: sample_lib_def file_pread_def)

end
