(* ===== verification/Kickstart.thy ===== *)
theory Kickstart
  imports Uart_PL011 Byte_Memory
begin

text \<open>
  The loader for ARM Trusted Firmware (\<^verbatim>\<open>bal/platform/atf/kickstart\<close>): it reads the device tree and the boot abstraction
  layer from the host with semihosting calls and hands over to the latter.

  Parameters are the semihosting call \<open>shcall\<close> (an instruction that the host answers), the formatter
  \<open>vcbprintf\<close> of the C library and the functions of \<^verbatim>\<open>elfload\<close>, which is not part of the repository.
\<close>

section \<open>State\<close>

text \<open>An argument of \<open>printf\<close> and a word of the parameter block of a semihosting call; a pointer to a constant string is the string.\<close>

datatype ks_arg = Unsigned u32 | Pointer addr | Text string

datatype sh_param = Word u64 | Chars string

record 'w ks_state =
  uart :: io_state
  kmem :: bytes
  mem_mark :: addr
  host :: 'w

text \<open>\<open>vcbprintf\<close> gives the buffers that it passes to its callback; \<open>shcall\<close> may change memory and the host.\<close>

record 'w ks_env =
  pl011_regs :: addr
  vcbprintf :: "string \<Rightarrow> ks_arg list \<Rightarrow> u8 list list"
  shcall :: "u32 \<Rightarrow> sh_param list \<Rightarrow> bytes \<Rightarrow> 'w \<Rightarrow> u32 \<times> bytes \<times> 'w"

definition SH_OPEN :: u32 where "SH_OPEN = 0x01"
definition SH_CLOSE :: u32 where "SH_CLOSE = 0x02"
definition SH_READ :: u32 where "SH_READ = 0x06"
definition SH_SEEK :: u32 where "SH_SEEK = 0x0A"
definition SH_FLEN :: u32 where "SH_FLEN = 0x0C"

definition ESC_NORMAL :: string where "ESC_NORMAL = CHR 27 # ''[0m''"
definition ESC_BOLD :: string where "ESC_BOLD = CHR 27 # ''[1m''"

section \<open>Output\<close>

text \<open>A wait that does not end is \<open>Crash\<close>.\<close>

definition uputc_raw :: "addr \<Rightarrow> u8 \<Rightarrow> io_state \<Rightarrow> io_state outcome" where
  "uputc_raw regs c u =
     andthen (orcrash (wait_while Generic regs UART_FR UART_FR_TXFF_BIT u)) (\<lambda>u. Inr (gio_write32_index Generic regs UART_DR (ucast c) u))"

definition uputc :: "'w ks_env \<Rightarrow> u8 \<Rightarrow> 'w ks_state \<Rightarrow> 'w ks_state outcome" where
  "uputc env c st =
     andthen (if c = 10 then uputc_raw (pl011_regs env) 13 (uart st) else Inr (uart st)) (\<lambda>u.
     andthen (uputc_raw (pl011_regs env) c u) (\<lambda>u. Inr (st\<lparr>uart := u\<rparr>)))"

text \<open>\<open>printfcb\<close>, and the loop of \<open>puts\<close>.\<close>

fun printfcb :: "'w ks_env \<Rightarrow> u8 list \<Rightarrow> 'w ks_state \<Rightarrow> 'w ks_state outcome" where
  "printfcb env [] st = Inr st"
| "printfcb env (c # cs) st = andthen (uputc env c st) (printfcb env cs)"

definition puts :: "'w ks_env \<Rightarrow> string \<Rightarrow> 'w ks_state \<Rightarrow> 'w ks_state outcome" where
  "puts env str st = andthen (printfcb env (map of_char str) st) (uputc env 10)"

fun print_chunks :: "'w ks_env \<Rightarrow> u8 list list \<Rightarrow> 'w ks_state \<Rightarrow> 'w ks_state outcome" where
  "print_chunks env [] st = Inr st"
| "print_chunks env (b # bs) st = andthen (printfcb env b st) (print_chunks env bs)"

definition printf :: "'w ks_env \<Rightarrow> string \<Rightarrow> ks_arg list \<Rightarrow> 'w ks_state \<Rightarrow> 'w ks_state outcome" where
  "printf env fmt args st = print_chunks env (vcbprintf env fmt args) st"

section \<open>Files of the host\<close>

definition sh :: "'w ks_env \<Rightarrow> u32 \<Rightarrow> sh_param list \<Rightarrow> 'w ks_state \<Rightarrow> u32 \<times> 'w ks_state" where
  "sh env n params st = (let (r, m, w) = shcall env n params (kmem st) (host st) in (r, st\<lparr>kmem := m, host := w\<rparr>))"

definition io_open :: "'w ks_env \<Rightarrow> string \<Rightarrow> 'w ks_state \<Rightarrow> u32 \<times> 'w ks_state" where
  "io_open env filename = sh env SH_OPEN [Chars filename, Word 1, Word (of_nat (length filename))]"

definition io_len :: "'w ks_env \<Rightarrow> u32 \<Rightarrow> 'w ks_state \<Rightarrow> u32 \<times> 'w ks_state" where
  "io_len env fd = sh env SH_FLEN [Word (scast fd)]"

definition io_seek :: "'w ks_env \<Rightarrow> u32 \<Rightarrow> u32 \<Rightarrow> 'w ks_state \<Rightarrow> u32 \<times> 'w ks_state" where
  "io_seek env fd offset st =
     (let (r, st) = sh env SH_SEEK [Word (scast fd), Word (ucast offset)] st in (if r = offset then 0 else 1, st))"

definition io_read :: "'w ks_env \<Rightarrow> u32 \<Rightarrow> addr \<Rightarrow> u32 \<Rightarrow> 'w ks_state \<Rightarrow> u32 \<times> 'w ks_state" where
  "io_read env fd buf len st =
     (let (res, st) = sh env SH_READ [Word (scast fd), Word buf, Word (ucast len)] st in
      (if res = 0 then len else if res = len then - 1 else res, st))"

definition io_close :: "'w ks_env \<Rightarrow> u32 \<Rightarrow> 'w ks_state \<Rightarrow> 'w ks_state" where
  "io_close env fd st = snd (sh env SH_CLOSE [Word (scast fd)] st)"

section \<open>Failure\<close>

text \<open>\<open>fail\<close> prints the reason and never returns.\<close>

definition fail :: "'w ks_env \<Rightarrow> string \<Rightarrow> 'w ks_state \<Rightarrow> 'a outcome" where
  "fail env reason st =
     andthen (printf env (ESC_BOLD @ ''%s'' @ [CHR 10] @ ESC_NORMAL @ ''Kickstart failed. Halted.'' @ [CHR 10]) [Text reason] st) (\<lambda>_. Inl (Panic reason))"

definition align :: "u64 \<Rightarrow> u64 \<Rightarrow> u64" where
  "align v a = (let a = a - 1 in (v + a) AND NOT a)"

section \<open>The device tree\<close>

definition dtb_step :: "'w ks_env \<Rightarrow> u32 \<Rightarrow> addr \<Rightarrow> u32 \<Rightarrow> u32 \<Rightarrow> 'w ks_state \<Rightarrow> 'w ks_state outcome" where
  "dtb_step env fd dtbstart dtb_size i st =
     andthen (uputc env (of_char (CHR ''.'')) st) (\<lambda>st.
       let to_read = (if i + 1024 < dtb_size then 1024 else dtb_size - i);
           (rv, st) = io_read env fd (dtbstart + ucast i) to_read st in
       if rv \<noteq> to_read then fail env '' I/O error'' st else Inr st)"

text \<open>The loop; the counter wraps, so that it may not end for a size above \<open>2 ^ 32 - 1024\<close>.\<close>

partial_function (option) dtb_loop :: "'w ks_env \<Rightarrow> u32 \<Rightarrow> addr \<Rightarrow> u32 \<Rightarrow> u32 \<Rightarrow> 'w ks_state \<Rightarrow> 'w ks_state outcome option" where
  "dtb_loop env fd dtbstart dtb_size i st =
     (if i < dtb_size
      then (case dtb_step env fd dtbstart dtb_size i st of Inl e \<Rightarrow> Some (Inl e) | Inr st \<Rightarrow> dtb_loop env fd dtbstart dtb_size (i + 1024) st)
      else Some (Inr st))"

definition ks_load_dtb :: "'w ks_env \<Rightarrow> 'w ks_state \<Rightarrow> (addr \<times> 'w ks_state) outcome" where
  "ks_load_dtb env st =
     andthen (printf env ''Loading DTB...'' [] st) (\<lambda>st.
       let (fd, st) = io_open env ''platform.dtb'' st in
       andthen (if fd = - 1 then fail env '' platform.dtb not found'' st else Inr st) (\<lambda>st.
       let dtbstart = mem_mark st;
           (dtb_size, st) = io_len env fd st;
           st = st\<lparr>mem_mark := mem_mark st + ucast dtb_size\<rparr> in
       andthen (orcrash (dtb_loop env fd dtbstart dtb_size 0 st)) (\<lambda>r. andthen r (\<lambda>st.
       let st = io_close env fd st in
       andthen (printf env (ESC_BOLD @ '' Done'' @ [CHR 10] @ ESC_NORMAL) [] st) (\<lambda>st. Inr (dtbstart, st))))))"

section \<open>The boot abstraction layer\<close>

text \<open>The values that \<open>check_el\<close> names, and the members of \<^verbatim>\<open>el_ctx\<close> that the code uses; the rest is \<open>'x\<close>.\<close>

datatype el_status = EL_OK | EL_EIO | EL_ENOMEM | EL_NOTELF | EL_WRONGBITS | EL_WRONGENDIAN | EL_WRONGARCH | EL_WRONGOS
  | EL_NOTEXEC | EL_NODYN | EL_BADREL | EL_other u32

record 'x el_ctx =
  el_align :: u64
  base_load_paddr :: u64
  base_load_vaddr :: u64
  e_entry :: u64
  el_rest :: 'x

type_synonym ('x, 'w) el_step = "'x el_ctx \<Rightarrow> 'w ks_state \<Rightarrow> (el_status \<times> 'x el_ctx \<times> 'w ks_state) outcome"

type_synonym 'w el_pread = "addr \<Rightarrow> u64 \<Rightarrow> u64 \<Rightarrow> 'w ks_state \<Rightarrow> (bool \<times> 'w ks_state) outcome"

text \<open>The functions of the library; each gets the function that reads the file.  \<open>el_finddyn\<close> also gives the tag of the entry it found.\<close>

record ('x, 'w) elfload =
  el_init :: "'w el_pread \<Rightarrow> ('x, 'w) el_step"
  el_finddyn :: "'w el_pread \<Rightarrow> u64 \<Rightarrow> 'x el_ctx \<Rightarrow> 'w ks_state \<Rightarrow> (el_status \<times> u64 \<times> 'x el_ctx \<times> 'w ks_state) outcome"
  el_load :: "'w el_pread \<Rightarrow> ('x el_ctx \<Rightarrow> u64 \<Rightarrow> u64 \<Rightarrow> u64 \<Rightarrow> addr) \<Rightarrow> ('x, 'w) el_step"
  el_relocate :: "'w el_pread \<Rightarrow> ('x, 'w) el_step"

definition DT_GANDR_ATFKICKSTART_VERSION :: u32 where
  "DT_GANDR_ATFKICKSTART_VERSION = 0x67646b21"

definition ks_pread :: "'w ks_env \<Rightarrow> u32 \<Rightarrow> 'w el_pread" where
  "ks_pread env fd dest nb offset st =
     (let (rv, st) = io_seek env fd (ucast offset) st in
      if rv \<noteq> 0 then andthen (printf env '' Seek failed (to 0x%X); %d'' [Unsigned (ucast offset), Unsigned rv] st) (\<lambda>st. Inr (False, st))
      else
        (let (got, st) = io_read env fd dest (ucast nb) st in
         if got \<noteq> ucast nb then andthen (printf env '' Read failed (0x%X)'' [Unsigned (ucast nb)] st) (\<lambda>st. Inr (False, st))
         else Inr (True, st)))"

fun el_message :: "el_status \<Rightarrow> string" where
  "el_message EL_OK = ''''"
| "el_message EL_EIO = ''I/O error''"
| "el_message EL_ENOMEM = ''Out of memory''"
| "el_message EL_NOTELF = ''Not an ELF file''"
| "el_message EL_WRONGBITS = ''Wrong bitness''"
| "el_message EL_WRONGENDIAN = ''Wrong endian''"
| "el_message EL_WRONGARCH = ''Wrong architecture''"
| "el_message EL_WRONGOS = ''Wrong OS''"
| "el_message EL_NOTEXEC = ''Not executable''"
| "el_message EL_NODYN = ''Not dynamic''"
| "el_message EL_BADREL = ''Bad relocation''"
| "el_message (EL_other n) = ''Unknown''"

definition check_el :: "'w ks_env \<Rightarrow> el_status \<Rightarrow> string \<Rightarrow> 'w ks_state \<Rightarrow> 'w ks_state outcome" where
  "check_el env res action st =
     (if res = EL_OK then Inr st
      else andthen (puts env (ESC_BOLD @ '' ELF loader error'' @ ESC_NORMAL) st) (\<lambda>st.
        andthen (printf env ''While %s: '' [Text action] st) (\<lambda>st.
        andthen (case res of EL_other n \<Rightarrow> printf env ''(%d)'' [Unsigned n] st | _ \<Rightarrow> Inr st) (\<lambda>st.
        fail env (el_message res) st))))"

definition ks_el_alloc :: "'x el_ctx \<Rightarrow> u64 \<Rightarrow> u64 \<Rightarrow> u64 \<Rightarrow> addr" where
  "ks_el_alloc ctx phys virt sz = phys"

text \<open>\<open>ctx\<close> is what the local variable happens to hold.\<close>

definition ks_load_bal :: "'w ks_env \<Rightarrow> ('x, 'w) elfload \<Rightarrow> 'x el_ctx \<Rightarrow> 'w ks_state \<Rightarrow> (addr \<times> 'w ks_state) outcome" where
  "ks_load_bal env lib ctx st =
     andthen (printf env ''Loading Gandr BAL...'' [] st) (\<lambda>st.
       let (fd, st) = io_open env ''gd_atf64.elf'' st; pread = ks_pread env fd in
       andthen (if fd = - 1 then fail env '' gd_atf64.elf not found'' st else Inr st) (\<lambda>st.
       let (len, st) = io_len env fd st in
       andthen (printf env '' (%d bytes)'' [Unsigned len] st) (\<lambda>st.
       andthen (el_init lib pread ctx st) (\<lambda>(res, ctx, st).
       andthen (check_el env res ''initialising'' st) (\<lambda>st.
       andthen (printf env '' init'' [] st) (\<lambda>st.
       andthen (el_finddyn lib pread (ucast DT_GANDR_ATFKICKSTART_VERSION) ctx st) (\<lambda>(res, d_tag, ctx, st).
       andthen (check_el env res ''finding ABI tag'' st) (\<lambda>st.
       andthen (if d_tag = 0 then fail env '' no ABI tag'' st else Inr st) (\<lambda>st.
       andthen (printf env '' abi'' [] st) (\<lambda>st.
       let st = st\<lparr>mem_mark := align (mem_mark st) (el_align ctx)\<rparr>;
           ctx = ctx\<lparr>base_load_vaddr := mem_mark st, base_load_paddr := mem_mark st\<rparr> in
       andthen (el_load lib pread ks_el_alloc ctx st) (\<lambda>(res, ctx, st).
       andthen (check_el env res ''loading'' st) (\<lambda>st.
       andthen (printf env '' loaded @ %p '' [Pointer (base_load_paddr ctx)] st) (\<lambda>st.
       andthen (el_relocate lib pread ctx st) (\<lambda>(res, ctx, st).
       andthen (check_el env res ''perfomring relocations'' st) (\<lambda>st.
       andthen (printf env '' reloc'' [] st) (\<lambda>st.
       let st = io_close env fd st in
       andthen (puts env (ESC_BOLD @ '' done'' @ ESC_NORMAL) st) (\<lambda>st. Inr (e_entry ctx + mem_mark st, st))))))))))))))))))"

text \<open>\<open>ks_main\<close> ends in \<open>ks_go\<close>, which jumps: the result is what it is called with.\<close>

record ks_handover =
  go_magic :: u32
  go_version :: u32
  go_dtb :: addr
  go_ep :: addr

definition ks_main :: "'w ks_env \<Rightarrow> ('x, 'w) elfload \<Rightarrow> 'x el_ctx \<Rightarrow> 'w ks_state \<Rightarrow> (ks_handover \<times> 'w ks_state) outcome" where
  "ks_main env lib ctx st =
     andthen (puts env ''Gandr ATF Kickstart!'' st) (\<lambda>st.
       let magic = DT_GANDR_ATFKICKSTART_VERSION; version = 0 in
       andthen (ks_load_dtb env st) (\<lambda>(dtb_addr, st).
       andthen (ks_load_bal env lib ctx st) (\<lambda>(entrypoint, st).
       andthen (printf env (''Preparing to go to %p (dtb=%p)'' @ [CHR 10]) [Pointer entrypoint, Pointer dtb_addr] st) (\<lambda>st.
       Inr (\<lparr>go_magic = magic, go_version = version, go_dtb = dtb_addr, go_ep = entrypoint\<rparr>, st)))))"

end
