(* ===== verification/Kickstart_Correct.thy ===== *)
theory Kickstart_Correct
  imports Kickstart Uart_PL011_Correct Alignment
begin

text \<open>
  What the loader makes of a serial port that drains and of a host with files: output as the bytes that
  reach the data register, and the device tree as the bytes of its file.
\<close>

section \<open>Output\<close>

text \<open>A port that reports room in its FIFO again and again, and the bytes that it was sent.\<close>

definition drains :: "io_state \<Rightarrow> bool" where
  "drains u \<longleftrightarrow> (\<forall>i. \<exists>k. answers u (i + k) AND UART_FR_TXFF_BIT = 0)"

fun sent_by :: "addr \<Rightarrow> io \<Rightarrow> u32 list" where
  "sent_by a (Write32 (Mem b) v) = (if a = b then [v] else [])"
| "sent_by a _ = []"

definition sent :: "addr \<Rightarrow> io_state \<Rightarrow> u32 list" where
  "sent a u = concat (map (sent_by a) (trace u))"

definition crlf :: "u8 list \<Rightarrow> u8 list" where
  "crlf cs = concat (map (\<lambda>c. if c = 10 then [13, 10] else [c]) cs)"

lemma crlf_simps [simp]: "crlf [] = []" "crlf (c # cs) = (if c = 10 then [13, 10] else [c]) @ crlf cs" "crlf (xs @ ys) = crlf xs @ crlf ys"
  by (simp_all add: crlf_def)

text \<open>The state after output: nothing but the port is different, and it got \<open>cs\<close>.\<close>

definition after_output :: "'w ks_env \<Rightarrow> u8 list \<Rightarrow> 'w ks_state \<Rightarrow> 'w ks_state \<Rightarrow> bool" where
  "after_output env cs st st' \<longleftrightarrow> (\<exists>u. st' = st\<lparr>uart := u\<rparr> \<and> drains u \<and>
     sent (pl011_regs env) u = sent (pl011_regs env) (uart st) @ map ucast cs)"

lemma uputc_raw_sends:
  assumes "drains u"
  shows "\<exists>u'. uputc_raw a c u = Inr u' \<and> drains u' \<and> sent a u' = sent a u @ [ucast c]"
proof -
  obtain k where k: "answers u (nreads u + k) AND UART_FR_TXFF_BIT = 0" "\<forall>i<k. answers u (nreads u + i) AND UART_FR_TXFF_BIT \<noteq> 0"
    using assms exists_least_iff [of "\<lambda>k. answers u (nreads u + k) AND UART_FR_TXFF_BIT = 0"] by (auto simp: drains_def)
  from wait_while_ends [OF k(2,1), of Generic a UART_FR] obtain u1 where u1:
    "wait_while Generic a UART_FR UART_FR_TXFF_BIT u = Some u1" "answers u1 = answers u"
    "trace u1 = trace u @ map (Read32 (reg_at Generic a UART_FR)) (next_answers u (Suc k))" by blast
  have "concat (map (sent_by a) (map (Read32 p) vs)) = []" for p vs by (induction vs) simp_all
  then have "sent a u1 = sent a u" by (simp add: sent_def u1(3) del: map_map)
  moreover have "sent a (emit (Write32 (Mem a) v) w) = sent a w @ [v]" for v w by (simp add: sent_def)
  moreover have "gio_write32_index Generic a UART_DR v w = emit (Write32 (Mem a) v) w" for v w by (simp add: index_places UART_DR_def mmio_write32_offset_def)
  moreover have "drains (emit e u1)" for e using assms u1(2) by (simp add: drains_def)
  ultimately show ?thesis by (simp add: uputc_raw_def u1(1))
qed

lemma uputc_sends: "drains (uart st) \<Longrightarrow> \<exists>st'. uputc env c st = Inr st' \<and> after_output env (crlf [c]) st st'"
proof -
  assume d: "drains (uart st)"
  let ?a = "pl011_regs env"
  have "\<exists>u1. (if c = 10 then uputc_raw ?a 13 (uart st) else Inr (uart st)) = Inr u1 \<and> drains u1 \<and>
    sent ?a u1 = sent ?a (uart st) @ map ucast (if c = 10 then [13 :: u8] else [])"
    using d uputc_raw_sends [OF d, of ?a 13] by (cases "c = 10") simp_all
  then obtain u1 where u1: "(if c = 10 then uputc_raw ?a 13 (uart st) else Inr (uart st)) = Inr u1" "drains u1"
    "sent ?a u1 = sent ?a (uart st) @ map ucast (if c = 10 then [13 :: u8] else [])" by blast
  obtain u2 where u2: "uputc_raw ?a c u1 = Inr u2" "drains u2" "sent ?a u2 = sent ?a u1 @ [ucast c]" using uputc_raw_sends [OF u1(2)] by blast
  have "uputc env c st = Inr (st\<lparr>uart := u2\<rparr>)" using u1(1) u2(1) by (simp add: uputc_def)
  moreover have "sent ?a u2 = sent ?a (uart st) @ map ucast (crlf [c])" using u1(3) u2(3) by simp
  ultimately show ?thesis using u2(2) unfolding after_output_def by blast
qed

lemma after_output_drains: "after_output env cs st st' \<Longrightarrow> drains (uart st')"
  by (auto simp: after_output_def)

lemma after_output_trans: "after_output env cs st st' \<Longrightarrow> after_output env ds st' st'' \<Longrightarrow> after_output env (cs @ ds) st st''"
  by (fastforce simp: after_output_def)

lemma after_output_refl: "drains (uart st) \<Longrightarrow> after_output env [] st st"
  unfolding after_output_def by (intro exI [of _ "uart st"]) simp

lemma printfcb_sends: "drains (uart st) \<Longrightarrow> \<exists>st'. printfcb env cs st = Inr st' \<and> after_output env (crlf cs) st st'"
proof (induction cs arbitrary: st)
  case (Cons c cs)
  obtain st1 where "uputc env c st = Inr st1" "after_output env (crlf [c]) st st1" using uputc_sends [OF Cons.prems] by blast
  then show ?case using Cons.IH [of st1] after_output_drains after_output_trans [of env "crlf [c]" st st1] by fastforce
qed (simp add: after_output_refl)

lemma puts_sends: "drains (uart st) \<Longrightarrow> \<exists>st'. puts env str st = Inr st' \<and> after_output env (crlf (map of_char str @ [10])) st st'"
proof -
  assume "drains (uart st)"
  then obtain st1 where 1: "printfcb env (map of_char str) st = Inr st1" "after_output env (crlf (map of_char str)) st st1" using printfcb_sends by blast
  obtain st2 where 2: "uputc env 10 st1 = Inr st2" "after_output env (crlf [10]) st1 st2" using uputc_sends after_output_drains [OF 1(2)] by blast
  show ?thesis using 1(1) 2(1) after_output_trans [OF 1(2) 2(2)] by (simp add: puts_def)
qed

lemma printf_sends: "drains (uart st) \<Longrightarrow> \<exists>st'. printf env fmt args st = Inr st' \<and> after_output env (crlf (concat (vcbprintf env fmt args))) st st'"
proof -
  have "\<exists>st'. print_chunks env bs st = Inr st' \<and> after_output env (crlf (concat bs)) st st'" if "drains (uart st)" for bs st
    using that
  proof (induction bs arbitrary: st)
    case (Cons b bs)
    obtain st1 where 1: "printfcb env b st = Inr st1" "after_output env (crlf b) st st1" using printfcb_sends [OF Cons.prems] by blast
    then obtain st2 where "print_chunks env bs st1 = Inr st2" "after_output env (crlf (concat bs)) st1 st2"
      using Cons.IH [OF after_output_drains [OF 1(2)]] by blast
    then show ?case using 1 after_output_trans by fastforce
  qed (simp add: after_output_refl)
  then show "drains (uart st) \<Longrightarrow> ?thesis" by (simp add: printf_def)
qed

lemma fail_halts: "drains (uart st) \<Longrightarrow> fail env reason st = Inl (Panic reason)"
  unfolding fail_def by (metis andthen_simps(2) printf_sends)

text \<open>Without a word on the port: output that ends changes nothing else.\<close>

lemma output_keeps:
  "uputc env c st = Inr st' \<Longrightarrow> \<exists>u. st' = st\<lparr>uart := u\<rparr>"
  "printfcb env cs st = Inr st' \<Longrightarrow> \<exists>u. st' = st\<lparr>uart := u\<rparr>"
  "puts env str st = Inr st' \<Longrightarrow> \<exists>u. st' = st\<lparr>uart := u\<rparr>"
  "printf env fmt args st = Inr st' \<Longrightarrow> \<exists>u. st' = st\<lparr>uart := u\<rparr>"
proof -
  have c: "\<exists>u. st' = st\<lparr>uart := u\<rparr>" if "uputc env c st = Inr st'" for c st and st' :: "'a ks_state"
    using that by (auto simp: uputc_def andthen_eq_Inr_iff)
  have cs: "\<exists>u. st' = st\<lparr>uart := u\<rparr>" if "printfcb env cs st = Inr st'" for cs st and st' :: "'a ks_state"
    using that
  proof (induction cs arbitrary: st)
    case (Cons x xs)
    then show ?case using c by (fastforce simp: andthen_eq_Inr_iff)
  qed (auto intro: exI [of _ "uart st'"])
  have "\<exists>u. st' = st\<lparr>uart := u\<rparr>" if "print_chunks env bs st = Inr st'" for bs st and st' :: "'a ks_state"
    using that
  proof (induction bs arbitrary: st)
    case (Cons x xs)
    then show ?case using cs by (fastforce simp: andthen_eq_Inr_iff)
  qed (auto intro: exI [of _ "uart st'"])
  then show "printf env fmt args st = Inr st' \<Longrightarrow> \<exists>u. st' = st\<lparr>uart := u\<rparr>" by (simp add: printf_def)
  show "uputc env c st = Inr st' \<Longrightarrow> \<exists>u. st' = st\<lparr>uart := u\<rparr>" by (rule c)
  show "printfcb env cs st = Inr st' \<Longrightarrow> \<exists>u. st' = st\<lparr>uart := u\<rparr>" by (rule cs)
  show "puts env str st = Inr st' \<Longrightarrow> \<exists>u. st' = st\<lparr>uart := u\<rparr>" using c cs by (fastforce simp: puts_def andthen_eq_Inr_iff)
qed

lemma fail_never [simp]: "fail env reason st \<noteq> Inr x"
  by (simp add: fail_def andthen_eq_Inr_iff)

section \<open>Files of the host\<close>

text \<open>
  A host with the files \<open>disk\<close>; \<open>view\<close> reads off its state the contents and the position of every open file.
  As documented for semihosting, opening a file gives a handle or \<open>-1\<close>, reading gives the number of bytes that were
  \<^emph>\<open>not\<close> read, and opening, closing and asking for the length write nothing to memory.
\<close>

definition semihost :: "'w ks_env \<Rightarrow> (string \<rightharpoonup> u8 list) \<Rightarrow> ('w \<Rightarrow> u32 \<rightharpoonup> u8 list \<times> nat) \<Rightarrow> bool" where
  "semihost env disk view \<longleftrightarrow> (\<forall>m w.
     (\<forall>n ps. n \<in> {SH_OPEN, SH_CLOSE, SH_FLEN} \<longrightarrow> fst (snd (shcall env n ps m w)) = m) \<and>
     (\<forall>name. case shcall env SH_OPEN [Chars name, Word 1, Word (of_nat (length name))] m w of (r, _, w') \<Rightarrow>
       (case disk name of None \<Rightarrow> r = - 1 \<and> view w' = view w | Some bs \<Rightarrow> r \<noteq> - 1 \<and> view w' = (view w)(r \<mapsto> (bs, 0)))) \<and>
     (\<forall>fd bs p. view w fd = Some (bs, p) \<longrightarrow>
       (case shcall env SH_FLEN [Word (scast fd)] m w of (r, _, w') \<Rightarrow> r = of_nat (length bs) \<and> view w' = view w) \<and>
       (\<forall>buf n. case shcall env SH_READ [Word (scast fd), Word buf, Word (ucast (n :: u32))] m w of (r, m', w') \<Rightarrow>
         (let got = take (unat n) (drop p bs) in
          r = n - of_nat (length got) \<and> m' = store_bytes m buf got \<and> view w' = (view w)(fd \<mapsto> (bs, p + length got))))))"

lemma semihost_open:
  assumes "semihost env disk view"
  shows "\<exists>fd w. io_open env name st = (fd, st\<lparr>host := w\<rparr>) \<and>
    (case disk name of None \<Rightarrow> fd = - 1 | Some bs \<Rightarrow> fd \<noteq> - 1 \<and> view w fd = Some (bs, 0))"
proof -
  obtain r m w where c: "shcall env SH_OPEN [Chars name, Word 1, Word (of_nat (length name))] (kmem st) (host st) = (r, m, w)" by (metis prod_cases3)
  note h = assms [unfolded semihost_def, rule_format, of "kmem st" "host st"]
  have "m = kmem st" using h [THEN conjunct1, rule_format, of SH_OPEN] c by simp (metis fst_conv snd_conv)
  moreover have "case disk name of None \<Rightarrow> r = - 1 | Some bs \<Rightarrow> r \<noteq> - 1 \<and> view w r = Some (bs, 0)"
    using h [THEN conjunct2, THEN conjunct1, rule_format, of name, unfolded c] by (auto split: option.splits)
  ultimately show ?thesis by (intro exI [of _ r] exI [of _ w]) (simp add: io_open_def sh_def c)
qed

lemma semihost_len:
  assumes "semihost env disk view" "view (host st) fd = Some (bs, p)"
  shows "\<exists>w. io_len env fd st = (of_nat (length bs), st\<lparr>host := w\<rparr>) \<and> view w = view (host st)"
proof -
  obtain r m w where c: "shcall env SH_FLEN [Word (scast fd)] (kmem st) (host st) = (r, m, w)" by (metis prod_cases3)
  note h = assms(1) [unfolded semihost_def, rule_format, of "kmem st" "host st"]
  have "m = kmem st" using h [THEN conjunct1, rule_format, of SH_FLEN] c by simp (metis fst_conv snd_conv)
  moreover have "r = of_nat (length bs)" "view w = view (host st)"
    using h [THEN conjunct2, THEN conjunct2, rule_format, OF assms(2), THEN conjunct1, unfolded c] by simp_all
  ultimately show ?thesis by (intro exI [of _ w]) (simp add: io_len_def sh_def c)
qed

lemma semihost_close: "semihost env disk view \<Longrightarrow> \<exists>w. io_close env fd st = st\<lparr>host := w\<rparr>"
proof -
  assume "semihost env disk view"
  note h = this [unfolded semihost_def, rule_format, of "kmem st" "host st", THEN conjunct1, rule_format, of SH_CLOSE "[Word (scast fd)]"]
  obtain r m w where c: "shcall env SH_CLOSE [Word (scast fd)] (kmem st) (host st) = (r, m, w)" by (metis prod_cases3)
  then show ?thesis using h by (intro exI [of _ w]) (simp add: io_close_def sh_def)
qed

text \<open>A read of bytes that are there gives all of them.\<close>

lemma semihost_read:
  assumes "semihost env disk view" "view (host st) fd = Some (bs, p)" "p + unat n \<le> length bs"
  shows "\<exists>w. io_read env fd buf n st = (n, st\<lparr>kmem := store_bytes (kmem st) buf (take (unat n) (drop p bs)), host := w\<rparr>) \<and>
    view w fd = Some (bs, p + unat n)"
proof -
  obtain r m w where c: "shcall env SH_READ [Word (scast fd), Word buf, Word (ucast n)] (kmem st) (host st) = (r, m, w)" by (metis prod_cases3)
  note h = assms(1) [unfolded semihost_def, rule_format, of "kmem st" "host st"]
  have "length (take (unat n) (drop p bs)) = unat n" using assms(3) by simp
  then have "r = 0" "m = store_bytes (kmem st) buf (take (unat n) (drop p bs))" "view w fd = Some (bs, p + unat n)"
    using h [THEN conjunct2, THEN conjunct2, rule_format, OF assms(2), THEN conjunct2, rule_format, of n buf, unfolded c]
    by (simp_all add: Let_def)
  then show ?thesis by (intro exI [of _ w]) (simp add: io_read_def sh_def c)
qed

section \<open>The device tree\<close>

lemma dtb_step_reads:
  assumes "semihost env disk view" "drains (uart st)" "view (host st) fd = Some (bs, unat i)"
    "sz = of_nat (length bs)" "length bs \<le> 2 ^ 32 - 1024" "unat i < length bs" "n = min 1024 (length bs - unat i)"
  shows "\<exists>u w. dtb_step env fd start sz i st =
      Inr (st\<lparr>uart := u, kmem := store_bytes (kmem st) (start + ucast i) (take n (drop (unat i) bs)), host := w\<rparr>) \<and>
    drains u \<and> view w fd = Some (bs, unat i + n)"
proof -
  let ?r = "if i + 1024 < sz then 1024 else sz - i"
  have s: "unat sz = length bs" using assms(5) by (simp add: assms(4) unat_of_nat)
  have "unat (i + 1024) = unat i + 1024" using assms(5,6) by (simp add: unat_word_ariths)
  then have r: "unat ?r = n" using s assms(6,7) by (auto simp: word_less_nat_alt word_le_nat_alt unat_sub)
  obtain u where u: "uputc env (of_char (CHR ''.'')) st = Inr (st\<lparr>uart := u\<rparr>)" "drains u"
    using uputc_sends [OF assms(2), of env "of_char (CHR ''.'')"] by (auto simp: after_output_def)
  have "view (host (st\<lparr>uart := u\<rparr>)) fd = Some (bs, unat i)" "unat i + unat ?r \<le> length bs" using assms(3,6,7) r by simp_all
  from semihost_read [OF assms(1) this, of "start + ucast i"] obtain w where
    "io_read env fd (start + ucast i) ?r (st\<lparr>uart := u\<rparr>) = (?r, st\<lparr>uart := u, kmem := store_bytes (kmem st) (start + ucast i) (take n (drop (unat i) bs)), host := w\<rparr>)"
    "view w fd = Some (bs, unat i + n)" unfolding r by auto
  then show ?thesis using u unfolding dtb_step_def u(1) andthen_simps Let_def by auto
qed

lemma dtb_loop_reads:
  assumes "semihost env disk view" "drains (uart st)" "view (host st) fd = Some (bs, unat i)"
    "sz = of_nat (length bs)" "length bs \<le> 2 ^ 32 - 1024" "unat i \<le> length bs"
  shows "\<exists>u w. dtb_loop env fd start sz i st = Some (Inr (st\<lparr>uart := u, kmem := store_bytes (kmem st) (start + ucast i) (drop (unat i) bs), host := w\<rparr>)) \<and> drains u"
  using assms(2,3,6)
proof (induction "length bs - unat i" arbitrary: i st rule: less_induct)
  case less
  have s: "unat sz = length bs" using assms(5) by (simp add: assms(4) unat_of_nat)
  show ?case
  proof (cases "unat i < length bs")
    case False
    then have e: "drop (unat i) bs = []" "\<not> i < sz" using s by (simp_all add: word_less_nat_alt)
    have "dtb_loop env fd start sz i st = Some (Inr st)" using e(2) by (subst dtb_loop.simps) simp
    then show ?thesis using less.prems(1) unfolding e(1) by (intro exI [of _ "uart st"] exI [of _ "host st"]) simp
  next
    case True
    define n where "n = min 1024 (length bs - unat i)"
    from dtb_step_reads [OF assms(1) less.prems(1,2) assms(4,5) True n_def, of start] obtain u w where c:
      "dtb_step env fd start sz i st = Inr (st\<lparr>uart := u, kmem := store_bytes (kmem st) (start + ucast i) (take n (drop (unat i) bs)), host := w\<rparr>)"
      "drains u" "view w fd = Some (bs, unat i + n)" by blast
    let ?st = "st\<lparr>uart := u, kmem := store_bytes (kmem st) (start + ucast i) (take n (drop (unat i) bs)), host := w\<rparr>"
    have l: "dtb_loop env fd start sz i st = dtb_loop env fd start sz (i + 1024) ?st"
      using True s c(1) by (subst dtb_loop.simps) (simp add: word_less_nat_alt)
    have i: "unat (i + 1024) = unat i + 1024" using assms(5) True by (simp add: unat_word_ariths)
    show ?thesis
    proof (cases "unat i + 1024 \<le> length bs")
      case False
      then have "n = length bs - unat i" "\<not> i + 1024 < sz" using s i by (simp_all add: n_def word_less_nat_alt)
      moreover have "dtb_loop env fd start sz (i + 1024) ?st = Some (Inr ?st)" using calculation(2) by (subst dtb_loop.simps) simp
      moreover have "take n (drop (unat i) bs) = drop (unat i) bs" using calculation(1) by simp
      ultimately show ?thesis using l c(2) by auto
    next
      case True
      then have n: "n = 1024" by (simp add: n_def)
      have "start + ucast (i + 1024) = start + ucast i + (1024 :: addr)"
        using i by (simp add: word_unat_eq_iff unat_word_ariths unat_ucast_mod mod_simps add.assoc)
      then have m: "store_bytes (kmem ?st) (start + ucast (i + 1024)) (drop (unat (i + 1024)) bs) = store_bytes (kmem st) (start + ucast i) (drop (unat i) bs)"
        using store_bytes_append [of "kmem st" "start + ucast i" "take n (drop (unat i) bs)" "drop n (drop (unat i) bs)"] True
        unfolding n append_take_drop_id by (simp add: i ac_simps)
      have "length bs - unat (i + 1024) < length bs - unat i" "drains (uart ?st)" "view (host ?st) fd = Some (bs, unat (i + 1024))" "unat (i + 1024) \<le> length bs"
        using True i c(2,3) n by simp_all
      from less.hyps [OF this] show ?thesis unfolding l m by simp
    qed
  qed
qed

lemma ks_load_dtb_ok:
  assumes "semihost env disk view" "drains (uart st)" "disk ''platform.dtb'' = Some bs" "length bs \<le> 2 ^ 32 - 1024"
  shows "\<exists>u w. ks_load_dtb env st = Inr (mem_mark st,
      st\<lparr>uart := u, kmem := store_bytes (kmem st) (mem_mark st) bs, mem_mark := mem_mark st + of_nat (length bs), host := w\<rparr>) \<and> drains u"
proof -
  obtain u1 where u1: "printf env ''Loading DTB...'' [] st = Inr (st\<lparr>uart := u1\<rparr>)" "drains u1"
    using printf_sends [OF assms(2), of env "''Loading DTB...''" "[]"] by (auto simp: after_output_def)
  let ?st1 = "st\<lparr>uart := u1\<rparr>"
  obtain fd w1 where o1: "io_open env ''platform.dtb'' ?st1 = (fd, ?st1\<lparr>host := w1\<rparr>)" "fd \<noteq> - 1" "view w1 fd = Some (bs, 0)"
    using semihost_open [OF assms(1), of "''platform.dtb''" ?st1] assms(3) by auto
  let ?st2 = "?st1\<lparr>host := w1\<rparr>"
  have "view (host ?st2) fd = Some (bs, 0)" using o1(3) by simp
  from semihost_len [OF assms(1) this] obtain w2 where
    o2: "io_len env fd ?st2 = (of_nat (length bs), ?st2\<lparr>host := w2\<rparr>)" "view w2 = view w1" by auto
  have z: "unat (of_nat (length bs) :: u32) = length bs" using assms(4) by (simp add: unat_of_nat)
  then have z2: "ucast (of_nat (length bs) :: u32) = (of_nat (length bs) :: addr)" using assms(4) by (simp add: word_unat_eq_iff unat_ucast_mod unat_of_nat)
  let ?st3 = "?st2\<lparr>host := w2, mem_mark := mem_mark st + of_nat (length bs)\<rparr>"
  have "drains (uart ?st3)" "view (host ?st3) fd = Some (bs, unat (0 :: u32))" "unat (0 :: u32) \<le> length bs" using u1(2) o1(3) o2(2) by simp_all
  from dtb_loop_reads [OF assms(1) this(1,2) refl assms(4) this(3), of "mem_mark st"] obtain u3 w3 where
    o3: "dtb_loop env fd (mem_mark st) (of_nat (length bs)) 0 ?st3 = Some (Inr (?st3\<lparr>uart := u3, kmem := store_bytes (kmem st) (mem_mark st) bs, host := w3\<rparr>))"
    "drains u3" by (auto simp: o1(3))
  let ?st4 = "?st3\<lparr>uart := u3, kmem := store_bytes (kmem st) (mem_mark st) bs, host := w3\<rparr>"
  obtain w4 where o4: "io_close env fd ?st4 = ?st4\<lparr>host := w4\<rparr>" using semihost_close [OF assms(1)] by blast
  have "drains (uart (?st4\<lparr>host := w4\<rparr>))" using o3(2) by simp
  from printf_sends [OF this, of env "ESC_BOLD @ '' Done'' @ [CHR 10] @ ESC_NORMAL" "[]"] obtain u5 where
    o5: "printf env (ESC_BOLD @ '' Done'' @ [CHR 10] @ ESC_NORMAL) [] (?st4\<lparr>host := w4\<rparr>) = Inr (?st4\<lparr>host := w4, uart := u5\<rparr>)" "drains u5"
    by (auto simp: after_output_def)
  show ?thesis using o1(2) o3(1) o4 o5
    by (intro exI [of _ u5] exI [of _ w4]) (simp add: ks_load_dtb_def u1(1) o1(1) o2(1) z2 Let_def)
qed

end
