(* ===== verification/Kickstart_Handover.thy ===== *)
theory Kickstart_Handover
  imports Kickstart_Correct
begin

text \<open>
  The load of the boot abstraction layer and the hand-over: where the image goes and what stays of the device tree.
\<close>

section \<open>What the ELF library may do\<close>

text \<open>
  The library reads the file with \<open>ks_pread\<close> to its own objects on the stack (\<open>stk\<close>) and to the image, which is loaded at
  \<open>base_load_paddr\<close>.  \<open>el_init\<close> takes the alignment of the image, a power of two not above \<open>2 ^ K\<close>, and the entry point from
  the file; the other functions keep both.
\<close>

definition el_frames :: "'w ks_env \<Rightarrow> ('x, 'w) elfload \<Rightarrow> (addr \<Rightarrow> bool) \<Rightarrow> nat \<Rightarrow> bool" where
  "el_frames env lib stk K \<longleftrightarrow> (\<forall>fd ctx st res ctx' st' tag.
     (el_init lib (ks_pread env fd) ctx st = Inr (res, ctx', st') \<longrightarrow>
       mem_mark st' = mem_mark st \<and> (\<forall>x. stk x \<or> kmem st' x = kmem st x) \<and> (res = EL_OK \<longrightarrow> (\<exists>k\<le>K. el_align ctx' = 2 ^ k))) \<and>
     (el_finddyn lib (ks_pread env fd) (ucast DT_GANDR_ATFKICKSTART_VERSION) ctx st = Inr (res, tag, ctx', st') \<longrightarrow>
       mem_mark st' = mem_mark st \<and> (\<forall>x. stk x \<or> kmem st' x = kmem st x) \<and> e_entry ctx' = e_entry ctx \<and> el_align ctx' = el_align ctx) \<and>
     (el_load lib (ks_pread env fd) ks_el_alloc ctx st = Inr (res, ctx', st') \<or> el_relocate lib (ks_pread env fd) ctx st = Inr (res, ctx', st') \<longrightarrow>
       mem_mark st' = mem_mark st \<and> (\<forall>x. stk x \<or> base_load_paddr ctx \<le> x \<or> kmem st' x = kmem st x) \<and>
       e_entry ctx' = e_entry ctx \<and> base_load_paddr ctx' = base_load_paddr ctx))"

lemma el_frames_init:
  assumes "el_frames env lib stk K" "el_init lib (ks_pread env fd) ctx st = Inr (res, ctx', st')"
  shows "mem_mark st' = mem_mark st \<and> (\<forall>x. stk x \<or> kmem st' x = kmem st x) \<and> (res = EL_OK \<longrightarrow> (\<exists>k\<le>K. el_align ctx' = 2 ^ k))"
  using assms unfolding el_frames_def by blast

lemma el_frames_finddyn:
  assumes "el_frames env lib stk K" "el_finddyn lib (ks_pread env fd) (ucast DT_GANDR_ATFKICKSTART_VERSION) ctx st = Inr (res, tag, ctx', st')"
  shows "mem_mark st' = mem_mark st \<and> (\<forall>x. stk x \<or> kmem st' x = kmem st x) \<and> e_entry ctx' = e_entry ctx \<and> el_align ctx' = el_align ctx"
  using assms unfolding el_frames_def by blast

lemma el_frames_image:
  assumes "el_frames env lib stk K"
    "el_load lib (ks_pread env fd) ks_el_alloc ctx st = Inr (res, ctx', st') \<or> el_relocate lib (ks_pread env fd) ctx st = Inr (res, ctx', st')"
  shows "mem_mark st' = mem_mark st \<and> (\<forall>x. stk x \<or> base_load_paddr ctx \<le> x \<or> kmem st' x = kmem st x) \<and>
    e_entry ctx' = e_entry ctx \<and> base_load_paddr ctx' = base_load_paddr ctx"
  using assms unfolding el_frames_def by blast

section \<open>Loading\<close>

text \<open>What a step may change: the memory from \<open>b\<close> on and on the stack.\<close>

definition same_below :: "(addr \<Rightarrow> bool) \<Rightarrow> addr \<Rightarrow> 'w ks_state \<Rightarrow> 'w ks_state \<Rightarrow> bool" where
  "same_below stk b st st' \<longleftrightarrow> mem_mark st' = mem_mark st \<and> (\<forall>x. stk x \<or> b \<le> x \<or> kmem st' x = kmem st x)"

lemma same_below_trans: "same_below stk b st st' \<Longrightarrow> same_below stk b st' st'' \<Longrightarrow> same_below stk b st st''"
  unfolding same_below_def by metis

lemma same_below_output:
  "printf env fmt args st = Inr st' \<Longrightarrow> same_below stk b st st'" "puts env str st = Inr st' \<Longrightarrow> same_below stk b st st'"
  using output_keeps(3,4) by (fastforce simp: same_below_def)+

lemma check_el_ok: "check_el env res action st = Inr st' \<longleftrightarrow> res = EL_OK \<and> st' = st"
  by (auto simp: check_el_def andthen_eq_Inr_iff)

lemma same_below_files:
  assumes "semihost env disk view"
  shows "io_open env name st = (fd, st') \<Longrightarrow> same_below stk b st st'" "io_len env fd st = (n, st') \<Longrightarrow> same_below stk b st st'"
    "same_below stk b st (io_close env fd st)"
proof -
  have m: "n \<in> {SH_OPEN, SH_CLOSE, SH_FLEN} \<Longrightarrow> fst (snd (shcall env n ps m w)) = m" for n ps m w using assms unfolding semihost_def by blast
  then have "n \<in> {SH_OPEN, SH_CLOSE, SH_FLEN} \<Longrightarrow> same_below stk b st (snd (sh env n ps st))" for n ps st
    by (auto simp: sh_def same_below_def split: prod.splits) (metis fst_conv snd_conv)+
  from this [of SH_OPEN] this [of SH_FLEN] this [of SH_CLOSE]
  show "io_open env name st = (fd, st') \<Longrightarrow> same_below stk b st st'" "io_len env fd st = (n, st') \<Longrightarrow> same_below stk b st st'"
    "same_below stk b st (io_close env fd st)"
    by (auto simp: io_open_def io_len_def io_close_def split: prod.splits) (metis snd_conv)+
qed

lemma pair_eq_Inr: "(case p of (a, b) \<Rightarrow> f a b) = Inr y \<longleftrightarrow> (\<exists>a b. p = (a, b) \<and> f a b = Inr y)"
  by (cases p) simp

lemma unless_fail: "(if c then fail env reason st else Inr st) = Inr x \<longleftrightarrow> \<not> c \<and> x = st"
  by auto

lemmas loaded_iff = andthen_eq_Inr_iff pair_eq_Inr unless_fail check_el_ok

text \<open>
  The context that \<open>el_init\<close> returned in a run: it was called for the file of the image, which was just opened, with the device
  tree already in memory.
\<close>

definition image_context :: "'w ks_env \<Rightarrow> ('x, 'w) elfload \<Rightarrow> (string \<rightharpoonup> u8 list) \<Rightarrow> ('w \<Rightarrow> u32 \<rightharpoonup> u8 list \<times> nat) \<Rightarrow> 'x el_ctx \<Rightarrow> bytes \<Rightarrow> 'x el_ctx \<Rightarrow> bool" where
  "image_context env lib disk view ctx m c \<longleftrightarrow> (\<exists>fd elf s s'. el_init lib (ks_pread env fd) ctx s = Inr (EL_OK, c, s') \<and>
     disk ''gd_atf64.elf'' = Some elf \<and> view (host s) fd = Some (elf, 0) \<and> kmem s = m)"

text \<open>What the library is called on: the file was just opened and memory is as it was.\<close>

lemma image_opened:
  assumes "semihost env disk view" "printf env f0 a0 st = Inr s0" "io_open env name s0 = (fd, s1)" "io_len env fd s1 = (n, s2)"
    "printf env f1 a1 s2 = Inr s3" "fd \<noteq> - 1"
  shows "\<exists>elf. disk name = Some elf \<and> view (host s3) fd = Some (elf, 0) \<and> kmem s3 = kmem st"
proof -
  have k: "kmem s0 = kmem st" "kmem s3 = kmem s2" "host s3 = host s2" using output_keeps(4) [OF assms(2)] output_keeps(4) [OF assms(5)] by auto
  from semihost_open [OF assms(1), of name s0] assms(3,6) obtain elf w where
    o: "disk name = Some elf" "s1 = s0\<lparr>host := w\<rparr>" "view w fd = Some (elf, 0)" by (auto split: option.splits)
  then obtain w' where "s2 = s1\<lparr>host := w'\<rparr>" "view w' = view w" using semihost_len [OF assms(1), of s1 fd elf 0] assms(4) by auto
  then show ?thesis using o k by simp
qed

lemma ks_load_bal_ok:
  assumes "semihost env disk view" "el_frames env lib stk K" "ks_load_bal env lib ctx st = Inr (ep, st')"
  shows "\<exists>c k. image_context env lib disk view ctx (kmem st) c \<and> k \<le> K \<and> el_align c = 2 ^ k \<and> ep = e_entry c + mem_mark st' \<and>
    mem_mark st' = align (mem_mark st) (2 ^ k) \<and> (\<forall>x. stk x \<or> mem_mark st' \<le> x \<or> kmem st' x = kmem st x)"
proof -
  note i = el_frames_init [OF assms(2)] and d = el_frames_finddyn [OF assms(2)] and l = el_frames_image [OF assms(2)]
  obtain fd s0 s1 n s2 s3 c1 s4 s5 tag c2 s6 s7 c3 s8 s9 c4 s10 s11 s12 where r:
    "printf env ''Loading Gandr BAL...'' [] st = Inr s0" "io_open env ''gd_atf64.elf'' s0 = (fd, s1)" "io_len env fd s1 = (n, s2)"
    "printf env '' (%d bytes)'' [Unsigned n] s2 = Inr s3" "el_init lib (ks_pread env fd) ctx s3 = Inr (EL_OK, c1, s4)"
    "printf env '' init'' [] s4 = Inr s5"
    "el_finddyn lib (ks_pread env fd) (ucast DT_GANDR_ATFKICKSTART_VERSION) c1 s5 = Inr (EL_OK, tag, c2, s6)" "printf env '' abi'' [] s6 = Inr s7"
    "el_load lib (ks_pread env fd) ks_el_alloc
       (c2\<lparr>base_load_vaddr := align (mem_mark s7) (el_align c2), base_load_paddr := align (mem_mark s7) (el_align c2)\<rparr>)
       (s7\<lparr>mem_mark := align (mem_mark s7) (el_align c2)\<rparr>) = Inr (EL_OK, c3, s8)"
    "printf env '' loaded @ %p '' [Pointer (base_load_paddr c3)] s8 = Inr s9" "el_relocate lib (ks_pread env fd) c3 s9 = Inr (EL_OK, c4, s10)"
    "printf env '' reloc'' [] s10 = Inr s11" "puts env (ESC_BOLD @ '' done'' @ ESC_NORMAL) (io_close env fd s11) = Inr s12"
    "ep = e_entry c4 + mem_mark s12" "st' = s12" "fd \<noteq> - 1"
    using assms(3) unfolding ks_load_bal_def
    by (auto simp: loaded_iff Let_def)
  obtain k where k: "k \<le> K" "el_align c1 = 2 ^ k" using i [OF r(5)] by blast
  let ?b = "align (mem_mark st) (2 ^ k)"
  note f = same_below_files [OF assms(1), where stk = stk and b = ?b] and p = same_below_output [where stk = stk and b = ?b]
  have "same_below stk ?b s3 s4" "same_below stk ?b s5 s6" using i [OF r(5)] d [OF r(7)] by (auto simp: same_below_def)
  then have "same_below stk ?b st s7"
    using p(1) [OF r(1)] f(1) [OF r(2)] f(2) [OF r(3)] p(1) [OF r(4)] p(1) [OF r(6)] p(1) [OF r(8)] same_below_trans by metis
  then have a: "align (mem_mark s7) (el_align c2) = ?b" "\<forall>x. stk x \<or> ?b \<le> x \<or> kmem s7 x = kmem st x" using d [OF r(7)] k(2) by (simp_all add: same_below_def)
  let ?s = "s7\<lparr>mem_mark := ?b\<rparr>"
  have c3: "mem_mark s8 = mem_mark ?s" "base_load_paddr c3 = ?b" "e_entry c3 = e_entry c2" "\<forall>x. stk x \<or> ?b \<le> x \<or> kmem s8 x = kmem ?s x"
    using l [OF disjI1, OF r(9)] unfolding a(1) by simp_all
  have c4: "mem_mark s10 = mem_mark s9" "e_entry c4 = e_entry c3" "\<forall>x. stk x \<or> ?b \<le> x \<or> kmem s10 x = kmem s9 x"
    using l [OF disjI2, OF r(11)] c3(2) by simp_all
  then have "same_below stk ?b ?s s8" "same_below stk ?b s9 s10" using c3 by (simp_all add: same_below_def)
  then have "same_below stk ?b ?s s12" using p(1) [OF r(10)] p(1) [OF r(12)] f(3) [of s11 fd] p(2) [OF r(13)] same_below_trans by metis
  then have "mem_mark s12 = ?b" "\<forall>x. stk x \<or> ?b \<le> x \<or> kmem s12 x = kmem s7 x" by (simp_all add: same_below_def)
  moreover have "e_entry c4 = e_entry c1" using c4(2) c3(3) d [OF r(7)] by simp
  moreover have "image_context env lib disk view ctx (kmem st) c1"
    unfolding image_context_def using image_opened [OF assms(1) r(1-4,16)] r(5) by blast
  ultimately have "image_context env lib disk view ctx (kmem st) c1 \<and> k \<le> K \<and> el_align c1 = 2 ^ k \<and> ep = e_entry c1 + mem_mark st' \<and>
    mem_mark st' = ?b \<and> (\<forall>x. stk x \<or> mem_mark st' \<le> x \<or> kmem st' x = kmem st x)" using a(2) r(14,15) k by metis
  then show ?thesis by blast
qed

end
