(* ===== verification/Kickstart_Properties.thy ===== *)
theory Kickstart_Properties
  imports Kickstart_Handover
begin

text \<open>The properties of the loader for ARM Trusted Firmware, with instances on a host that has both files.\<close>

section \<open>A host and a library\<close>

text \<open>
  The state of the host is the table of its open files; every file gets the handle 3.  \<open>ans\<close> is what the host answers to a seek
  that succeeds: 0 on a host that follows the documentation of semihosting, the offset on one that the loader can read an image
  from.
\<close>

definition sample_disk :: "string \<rightharpoonup> u8 list" where
  "sample_disk = [''platform.dtb'' \<mapsto> [0xD0, 0x0D, 0xFE, 0xED], ''gd_atf64.elf'' \<mapsto> [0x7F, 0x45, 0x4C, 0x46, 12, 0x40]]"

fun sample_shcall :: "(u64 \<Rightarrow> u32) \<Rightarrow> u32 \<Rightarrow> sh_param list \<Rightarrow> bytes \<Rightarrow> (u32 \<rightharpoonup> u8 list \<times> nat) \<Rightarrow> u32 \<times> bytes \<times> (u32 \<rightharpoonup> u8 list \<times> nat)" where
  "sample_shcall ans n [Chars name, Word mode, Word len] m w =
     (case sample_disk name of None \<Rightarrow> (- 1, m, w) | Some bs \<Rightarrow> (3, m, w(3 \<mapsto> (bs, 0))))"
| "sample_shcall ans n [Word fd] m w =
     (case w (ucast fd) of None \<Rightarrow> (- 1, m, w)
      | Some (bs, p) \<Rightarrow> if n = SH_FLEN then (of_nat (length bs), m, w) else (0, m, w(ucast fd := None)))"
| "sample_shcall ans n [Word fd, Word offset] m w =
     (case w (ucast fd) of None \<Rightarrow> (- 1, m, w) | Some (bs, p) \<Rightarrow> (ans offset, m, w(ucast fd \<mapsto> (bs, unat offset))))"
| "sample_shcall ans n [Word fd, Word buf, Word len] m w =
     (case w (ucast fd) of None \<Rightarrow> (- 1, m, w)
      | Some (bs, p) \<Rightarrow> (let got = take (unat len) (drop p bs) in
          if n = SH_READ then (ucast len - of_nat (length got), store_bytes m buf got, w(ucast fd \<mapsto> (bs, p + length got))) else (- 1, m, w)))"
| "sample_shcall ans n _ m w = (- 1, m, w)"

definition host_env :: "(u64 \<Rightarrow> u32) \<Rightarrow> (u32 \<rightharpoonup> u8 list \<times> nat) ks_env" where
  "host_env ans = \<lparr>pl011_regs = 0x1C090000, vcbprintf = (\<lambda>_ _. []), shcall = sample_shcall ans\<rparr>"

abbreviation kick_env :: "(u32 \<rightharpoonup> u8 list \<times> nat) ks_env" where
  "kick_env \<equiv> host_env (\<lambda>_. 0)"

definition kick_state :: "(u32 \<rightharpoonup> u8 list \<times> nat) ks_state" where
  "kick_state = \<lparr>uart = \<lparr>events = [], answers = (\<lambda>_. 0), nreads = 0\<rparr>, kmem = (\<lambda>_. 0), mem_mark = 0x80001234, host = Map.empty\<rparr>"




lemma handle_round_trip: "ucast (scast (fd :: u32) :: u64) = fd" "ucast (ucast (fd :: u32) :: u64) = fd"
  "unat (ucast (fd :: u32) :: u64) = unat fd"
proof -
  have "unat fd < 4294967296" using unsigned_less [of fd] by simp
  then show "ucast (ucast (fd :: u32) :: u64) = fd" "unat (ucast (fd :: u32) :: u64) = unat fd" by (simp_all add: word_unat_eq_iff unat_ucast_mod)
  show "ucast (scast (fd :: u32) :: u64) = fd" 
  proof (rule bit_word_eqI)
    fix n assume "n < LENGTH(32)"
    then have "min 31 n = n" by simp
    then show "bit (ucast (scast fd :: u64) :: u32) n = bit fd n" using \<open>n < LENGTH(32)\<close> by (simp add: bit_simps)
  qed
qed

lemma kick_semihost: "semihost (host_env ans) sample_disk id"
proof -
  have m: "n \<noteq> SH_READ \<Longrightarrow> fst (snd (sample_shcall ans n ps m w)) = m" for n ps m w
    by (induction ans n ps m w rule: sample_shcall.induct) (auto simp: Let_def split: option.splits)
  show ?thesis unfolding semihost_def
    by (auto simp: host_env_def m handle_round_trip Let_def SH_OPEN_def SH_CLOSE_def SH_FLEN_def SH_READ_def split: option.splits)
qed


lemma kick_drains: "drains (uart kick_state)"
  by (simp add: drains_def kick_state_def)





section \<open>Properties\<close>

text \<open>C18. \<open>ks_load_dtb\<close> on a host with semihosting and a port that drains: if the file exists and is not larger than
  \<open>2 ^ 32 - 1024\<close> bytes, the function returns, the file is in memory from \<open>mem_mark\<close> on, whose value is the result, \<open>mem_mark\<close>
  is behind it, and no other memory has changed; if it does not exist, the loader halts with a message.\<close>

theorem ks_load_dtb_loads:
  assumes "semihost env disk view" "drains (uart st)"
  shows "case disk ''platform.dtb'' of
      None \<Rightarrow> ks_load_dtb env st = Inl (Panic '' platform.dtb not found'')
    | Some bs \<Rightarrow> length bs \<le> 2 ^ 32 - 1024 \<longrightarrow> (\<exists>st'. ks_load_dtb env st = Inr (mem_mark st, st') \<and>
        load_bytes (kmem st') (mem_mark st) (length bs) = bs \<and> mem_mark st' = mem_mark st + of_nat (length bs) \<and>
        (\<forall>x. \<not> in_block (mem_mark st) (length bs) x \<longrightarrow> kmem st' x = kmem st x))"
proof (cases "disk ''platform.dtb''")
  case None
  obtain u where u: "printf env ''Loading DTB...'' [] st = Inr (st\<lparr>uart := u\<rparr>)" "drains u"
    using printf_sends [OF assms(2), of env "''Loading DTB...''" "[]"] by (auto simp: after_output_def)
  obtain w where "io_open env ''platform.dtb'' (st\<lparr>uart := u\<rparr>) = (- 1, st\<lparr>uart := u, host := w\<rparr>)"
    using semihost_open [OF assms(1), of "''platform.dtb''" "st\<lparr>uart := u\<rparr>"] None by auto
  then have "ks_load_dtb env st = Inl (Panic '' platform.dtb not found'')"
    using u by (simp add: ks_load_dtb_def fail_halts)
  then show ?thesis using None by simp
next
  case (Some bs)
  show ?thesis unfolding Some option.case
  proof
    assume l: "length bs \<le> 2 ^ 32 - 1024"
    then obtain u w where "ks_load_dtb env st = Inr (mem_mark st,
        st\<lparr>uart := u, kmem := store_bytes (kmem st) (mem_mark st) bs, mem_mark := mem_mark st + of_nat (length bs), host := w\<rparr>)"
      using ks_load_dtb_ok [OF assms Some] by blast
    moreover have "load_bytes (store_bytes (kmem st) (mem_mark st) bs) (mem_mark st) (length bs) = bs" using l by (intro load_store_bytes) simp
    ultimately show "\<exists>st'. ks_load_dtb env st = Inr (mem_mark st, st') \<and> load_bytes (kmem st') (mem_mark st) (length bs) = bs \<and>
        mem_mark st' = mem_mark st + of_nat (length bs) \<and> (\<forall>x. \<not> in_block (mem_mark st) (length bs) x \<longrightarrow> kmem st' x = kmem st x)"
      by (simp add: store_bytes_other)
  qed
qed

theorem ks_load_dtb_loads_witness:
  "\<exists>st'. ks_load_dtb kick_env kick_state = Inr (0x80001234, st') \<and> mem_mark st' = 0x80001238 \<and> load_bytes (kmem st') 0x80001234 4 = [0xD0, 0x0D, 0xFE, 0xED]"
proof -
  let ?bs = "[0xD0, 0x0D, 0xFE, 0xED] :: u8 list"
  have s: "sample_disk ''platform.dtb'' = Some ?bs" "length ?bs = 4" "mem_mark kick_state = 0x80001234" by (simp_all add: sample_disk_def kick_state_def)
  show ?thesis using ks_load_dtb_loads [OF kick_semihost kick_drains] unfolding s(1) option.case s(2,3) by (simp del: load_bytes.simps) blast
qed



abbreviation "sample_image \<equiv> [0x7F, 0x45, 0x4C, 0x46, 12, 0x40] :: u8 list"





text \<open>C38. Reading the image on a host that answers a seek as documented for semihosting, with 0 if it succeeds: \<open>io_seek\<close> expects the offset
  as the answer, so \<open>ks_pread\<close> fails at every offset other than 0, with a message, without having read anything; at offset 0 it
  reads as long as the file has the bytes.\<close>

theorem ks_pread_after_seek:
  assumes "semihost env disk view" "drains (uart st)" "view (host st) fd = Some (bs, p)" "offset < 2 ^ 32" "nb < 2 ^ 32"
    "\<And>m w. view w fd = Some (bs, p) \<Longrightarrow> \<exists>w'. shcall env SH_SEEK [Word (scast fd), Word offset] m w = (0, m, w') \<and> view w' fd = Some (bs, unat offset)"
  shows "(offset \<noteq> 0 \<longrightarrow> (\<exists>st'. ks_pread env fd dest nb offset st = Inr (False, st') \<and> kmem st' = kmem st)) \<and>
    (offset = 0 \<and> unat nb \<le> length bs \<longrightarrow>
      (\<exists>st'. ks_pread env fd dest nb offset st = Inr (True, st') \<and> kmem st' = store_bytes (kmem st) dest (take (unat nb) bs)))"
proof -
  have o: "ucast (ucast offset :: u32) = offset" "unat (ucast nb :: u32) = unat nb" "ucast offset = (0 :: u32) \<longleftrightarrow> offset = 0"
    using assms(4,5) by (simp_all add: word_unat_eq_iff unat_ucast_mod word_less_nat_alt)
  obtain w where c: "shcall env SH_SEEK [Word (scast fd), Word offset] (kmem st) (host st) = (0, kmem st, w)" "view w fd = Some (bs, unat offset)"
    using assms(6) [OF assms(3)] by blast
  have k: "io_seek env fd (ucast offset) st = (if offset = 0 then 0 else 1, st\<lparr>host := w\<rparr>)"
    using o(3) by (simp add: io_seek_def sh_def o(1) c(1))
  show ?thesis
  proof (cases "offset = 0")
    case False
    have "drains (uart (st\<lparr>host := w\<rparr>))" using assms(2) by simp
    from printf_sends [OF this, of env "'' Seek failed (to 0x%X); %d''" "[Unsigned (ucast offset), Unsigned 1]"]
    show ?thesis using False by (auto simp: ks_pread_def k after_output_def)
  next
    case True
    have "view (host (st\<lparr>host := w\<rparr>)) fd = Some (bs, 0)" using c(2) True by simp
    from semihost_read [OF assms(1) this, of "ucast nb" dest] show ?thesis using True k by (auto simp: ks_pread_def o(2))
  qed
qed

theorem ks_pread_after_seek_witness:
  "\<exists>st'. ks_pread kick_env 3 0x1000 2 4 (kick_state\<lparr>host := [3 \<mapsto> ([0x7F, 0x45, 0x4C, 0x46, 2, 1], 0)]\<rparr>) = Inr (False, st')"
proof -
  let ?bs = "[0x7F, 0x45, 0x4C, 0x46, 2, 1] :: u8 list" and ?st = "kick_state\<lparr>host := [3 \<mapsto> ([0x7F, 0x45, 0x4C, 0x46, 2, 1], 0)]\<rparr>"
  have v: "drains (uart ?st)" "id (host ?st) 3 = Some (?bs, 0)" using kick_drains by simp_all
  have k: "\<exists>w'. shcall kick_env SH_SEEK [Word (scast (3 :: u32)), Word 4] m w = (0, m, w') \<and> id w' 3 = Some (?bs, unat (4 :: u64))"
    if "id w 3 = Some (?bs, 0)" for m and w :: "u32 \<rightharpoonup> u8 list \<times> nat" using that by (simp add: host_env_def handle_round_trip del: fun_upd_apply) simp
  note r = ks_pread_after_seek [where env = kick_env and disk = sample_disk and view = id and st = ?st and fd = 3 and bs = ?bs and p = 0
      and offset = 4 and nb = 2 and dest = "0x1000", OF kick_semihost v]
  show ?thesis using r k by simp blast
qed

end
