(* ===== verification/Bios_Start.thy ===== *)
theory Bios_Start
  imports Bios_Devices Bios_Tables Vbe_Properties Bios_Properties
begin

text \<open>
  The start of the boot abstraction layer on a PC BIOS (\<^verbatim>\<open>bal/platform/bios/init.c\<close>): console, memory map, firmware tables and
  video mode, one after the other on the same machine.
\<close>

record 'w boot_state =
  bios_console :: bios_console_dev
  boot_bios :: "'w bios_state"
  boot_tables :: tables
  boot_fb :: fb_dev

text \<open>
  \<open>bios_start\<close> is \<^verbatim>\<open>__start\<close>, up to the endless loop at its end.  The service table that is its argument is part of the platform; \<open>new_mode\<close> is
  the value that the variable of \<open>vbe_init\<close> happens to have.
\<close>

definition bios_start :: "'w vbe_env \<Rightarrow> config \<Rightarrow> 'w platform \<Rightarrow> mode_info \<Rightarrow> 'w boot_state \<Rightarrow> 'w boot_state outcome" where
  "bios_start env c pf new_mode st =
     (let (con, mc) = bios_console_init pf (mach (boot_bios st)) in
      andthen (mmap_init c pf ((boot_bios st)\<lparr>mach := mc\<rparr>)) (\<lambda>b.
      let t = tables_init pf \<lparr>bst = b, tabs = boot_tables st\<rparr> in
      andthen (vbe_init env pf new_mode \<lparr>vmach = mach (bst t), fb = boot_fb st\<rparr>) (\<lambda>v.
      Inr (st\<lparr>bios_console := con, boot_bios := (bst t)\<lparr>mach := vmach v\<rparr>, boot_tables := tabs t, boot_fb := fb v\<rparr>))))"

text \<open>Looking for tables leaves the memory map alone.\<close>

lemma tables_init_sysmap: "sysmap (bst (tables_init pf st)) = sysmap (bst st)"
  by (simp add: tables_init_def get_base_memory_def int_call_def Let_def case_prod_beta)

text \<open>
  What the start makes of a firmware that reports memory and modes: \<open>M\<close> is the memory map and \<open>m\<close> the mode.  The map is built
  on the machine that the console was brought up on; the tables are those that the search finds on the machine that building the
  map leaves; the mode is looked for on the machine that this search leaves, and set on the machine \<open>mc'\<close> that looking for it
  leaves, on which the list of modes is in place.
\<close>

definition started :: "'w vbe_env \<Rightarrow> config \<Rightarrow> 'w platform \<Rightarrow> addr \<Rightarrow> u16 \<Rightarrow> u16 list \<Rightarrow> mode_info \<Rightarrow> mode_info \<Rightarrow>
    'w boot_state \<Rightarrow> mmap_state \<Rightarrow> 'w boot_state \<Rightarrow> bool" where
  "started env c pf p ver ids new_mode m st M st' \<longleftrightarrow> sysmap (boot_bios st') = M \<and>
     (\<exists>mc b t v mc'. bios_console_init pf (mach (boot_bios st)) = (bios_console st', mc) \<and>
        mmap_init c pf ((boot_bios st)\<lparr>mach := mc\<rparr>) = Inr b \<and> sysmap b = M \<and>
        tables_init pf \<lparr>bst = b, tabs = boot_tables st\<rparr> = t \<and> boot_tables st' = tabs t \<and>
        v = \<lparr>vmach = mach (bst t), fb = boot_fb st\<rparr> \<and>
        vbe_init env pf new_mode v = Inr \<lparr>vmach = mach (boot_bios st'), fb = boot_fb st'\<rparr> \<and> listing env p ver ids (mem mc') \<and>
        mode_set env pf m mc' v \<lparr>vmach = mach (boot_bios st'), fb = boot_fb st'\<rparr>)"

lemma bios_start_runs:
  assumes rep: "e820_reports c pf cont rs" "length rs \<le> limit c"
    and vbe: "vbe_present env pf p ver (map fst xs)" "vbe_reports env pf p ver xs" "length xs < mode_limit env"
      "select_mode ver xs new_mode = Some m" "mode_info.depth m \<noteq> 8"
  shows "case add_list (config.depth c) (sysmap (boot_bios st)) (e820_entries (e820_calls rs) @ [low_mem, gandr_mem]) of
      Inl e \<Rightarrow> bios_start env c pf new_mode st = Inl e
    | Inr M \<Rightarrow> (\<exists>st'. bios_start env c pf new_mode st = Inr st' \<and> started env c pf p ver (map fst xs) new_mode m st M st')"
proof -
  obtain con mc where c: "bios_console_init pf (mach (boot_bios st)) = (con, mc)" by fastforce
  let ?b = "(boot_bios st)\<lparr>mach := mc\<rparr>" and ?A = "add_list (config.depth c) (sysmap (boot_bios st)) (e820_entries (e820_calls rs) @ [low_mem, gandr_mem])"
  obtain mc' where i: "mmap_init c pf ?b = andthen ?A (\<lambda>M. Inr (?b\<lparr>mach := mc', sysmap := M\<rparr>))"
    using mmap_init_reports [OF rep, of ?b] by auto
  show ?thesis
  proof (cases ?A)
    case (Inl e)
    then show ?thesis by (simp add: bios_start_def c i)
  next
    case (Inr M)
    define b where "b = ?b\<lparr>mach := mc', sysmap := M\<rparr>"
    define t where "t = tables_init pf \<lparr>bst = b, tabs = boot_tables st\<rparr>"
    define v where "v = \<lparr>vmach = mach (bst t), fb = boot_fb st\<rparr>"
    have b: "mmap_init c pf ?b = Inr b" "sysmap b = M" using i Inr by (simp_all add: b_def)
    obtain mc2 v' where v': "vbe_init env pf new_mode v = Inr v'" "listing env p ver (map fst xs) (mem mc2)" "mode_set env pf m mc2 v v'"
      using vbe_init_selected [OF vbe, of v] by blast
    let ?st' = "st\<lparr>bios_console := con, boot_bios := (bst t)\<lparr>mach := vmach v'\<rparr>, boot_tables := tabs t, boot_fb := fb v'\<rparr>"
    have "bios_start env c pf new_mode st = Inr ?st'"
      using b(1) v'(1) by (simp add: bios_start_def c t_def v_def Let_def)
    moreover obtain vm dev where "v' = \<lparr>vmach = vm, fb = dev\<rparr>" by (cases v')
    with c b v' have "started env c pf p ver (map fst xs) new_mode m st M ?st'"
      unfolding started_def using tables_init_sysmap [of pf "\<lparr>bst = b, tabs = boot_tables st\<rparr>"]
      by (intro conjI, simp add: t_def)
        (rule exI [of _ mc], rule exI [of _ b], rule exI [of _ t], rule exI [of _ v], rule exI [of _ mc2], simp add: t_def v_def)
    ultimately show ?thesis using Inr by auto
  qed
qed

section \<open>A firmware with memory and modes\<close>

definition boot_platform :: "unit platform" where
  "boot_platform = (list_platform two_ranges)\<lparr>int_entry := (\<lambda>target num. if num = 0x15 then list_firmware two_ranges target num else vbe_firmware target num)\<rparr>"

lemma boot_platform_calls:
  "bios_int_call boot_platform 0x15 = bios_int_call (list_platform two_ranges) 0x15"
  "bios_int_call boot_platform 0x10 = bios_int_call vbe_platform 0x10"
  by (rule ext, rule ext, simp add: bios_int_call_def boot_platform_def list_platform_def vbe_platform_def)+

lemma boot_platform_reports:
  "e820_reports sample_config boot_platform of_nat two_ranges"
  "vbe_present sample_env boot_platform 0x8022 0x300 [0x118]"
  "vbe_reports sample_env boot_platform 0x8022 0x300 [(0x118, Info (mode_info_of sample_block))]"
  using two_ranges_reported sample_present sample_reports
  unfolding e820_reports_def vbe_present_def vbe_reports_def boot_platform_calls by - assumption+

definition boot_start :: "fb_dev \<Rightarrow> unit boot_state" where
  "boot_start dev = \<lparr>bios_console = \<lparr>con_width = 0, cur_page = 0\<rparr>, boot_bios = start_state, boot_tables = initial_tables, boot_fb = dev\<rparr>"

lemma sample_mode_selected: "select_mode 0x300 [(0x118, Info (mode_info_of sample_block))] zero_mode = Some sample_mode" "mode_info.depth sample_mode = 32"
proof -
  have "preferred sample_mode" by (simp add: preferred_def sample_mode_def)
  then show "select_mode 0x300 [(0x118, Info (mode_info_of sample_block))] zero_mode = Some sample_mode"
    using select_mode_first [of "[]" "0x300" "0x118" "mode_info_of sample_block" sample_mode "[]" zero_mode] sample_translated by simp
  show "mode_info.depth sample_mode = 32" by (simp add: sample_mode_def)
qed

end
