(* ===== verification/Spec2Isabelle.thy ===== *)
theory Spec2Isabelle
  imports RB_Properties Memory_Map_Properties Bios_Properties Uart_Properties Framebuffer_Properties Queue_Properties Vbe_Properties Dt_Tree_Properties Bios_Tables_Properties Splay_Properties Bios_Devices_Properties Iso9660_Properties Kickstart_Properties Bios_Start
begin

text \<open>
  A verification development for Gandr, a boot loader for BIOS PCs and ARM boards.

  \<^bold>\<open>The program.\<close>  A platform's start-up code (assembly) enters the boot abstraction layer, which is
  C.  On a PC, \<^verbatim>\<open>bal/platform/bios/init.c\<close> opens a text console, asks the firmware for the memory
  map, looks for the firmware's tables and sets a video mode; every firmware call goes through
  \<^verbatim>\<open>bios_services.c\<close>, which moves the registers over the real-mode stack.  On ARM the kickstart loads
  the device tree blob and the boot abstraction layer, and \<^verbatim>\<open>dt_system.c\<close> copies the blob into a tree of
  nodes.  Both platforms put their memory into the same memory map (\<^verbatim>\<open>bal/mmap.c\<close>), which is a
  red-black tree (\<^verbatim>\<open>include/gd_tree.h\<close>) of regions; nodes and properties of the device tree are kept in
  red-black trees as well.  Drivers (serial ports, frame buffer console, simple bus) reach their
  registers through the generic I/O layer (\<^verbatim>\<open>bal/gio.c\<close>, \<^verbatim>\<open>gio_arch.h\<close>).

  \<^bold>\<open>Conventions.\<close>  \<open>Gandr_Prelude\<close> has the types: machine integers are words of their width,
  addresses have 64 bits (the amd64 and aarch64 targets).  A function that may not return gives an
  \<open>outcome\<close>, with \<open>Crash\<close> for a null dereference or a loop that does not end, \<open>Panic\<close> for \<^verbatim>\<open>panic\<close> and \<open>Fuel\<close> when the bound of the
  model on a recursion was too small; the theorems on such functions say that they return.  Static variables
  of a C file are a record, which every function takes and returns.  Linked structures are stores
  from addresses to members; data shared with firmware and devices is a memory of bytes
  (\<open>Byte_Memory\<close>), in which structures are laid out as the compiler does.  Firmware, transition
  vectors, ports, device registers, \<^verbatim>\<open>malloc\<close> and libraries outside of the repository are
  parameters; what a theorem needs of them is a named hypothesis, and its witness has an instance.

  \<^bold>\<open>Red-black trees\<close> (\<^verbatim>\<open>RB_*\<close> of \<^verbatim>\<open>include/gd_tree.h\<close>).  \<open>RB_Tree\<close> has the macros over a store of
  \<open>RB_ENTRY\<close> members; a loop is a \<^theory_text>\<open>partial_function\<close> into \<open>option\<close>, so that \<open>None\<close> is a loop that does not end or a
  null dereference, and the theorems say that the result is \<open>Some\<close>.  \<open>RB_Shape\<close> relates the store to a functional tree with
  the red-black invariant, \<open>RB_Insert\<close>, \<open>RB_Insert_Correct\<close> and \<open>RB_Remove\<close> prove the
  repair loops, \<open>RB_Traverse\<close> searches and loops.  \<open>Ordered_Tree\<close> is the interface: a locale whose
  laws are those that clients use, interpreted for the macros (\<open>rb\<close>).  \<open>RB_Properties\<close> has the
  theorems, the last of them on sequences of insertions and removals from the empty tree on.

  \<^bold>\<open>Lists and queues\<close> (\<^verbatim>\<open>include/gd_queue.h\<close>).  \<open>Queue_Memory\<close> has the memory of pointers and the
  interfaces \<open>link_list\<close> and \<open>link_queue\<close>, \<open>Queue\<close> the macros, \<open>Queue_Singly\<close>, \<open>Queue_Doubly\<close> and
  \<open>Queue_Circular\<close> the proofs and interpretations, \<open>Queue_Properties\<close> the theorems.

  \<^bold>\<open>Memory map\<close> (\<^verbatim>\<open>bal/mmap.c\<close>).  \<open>Memory_Map\<close> has every function of the file; \<open>depth\<close> bounds the
  mutual recursion of \<^verbatim>\<open>fix_overlap\<close> and \<^verbatim>\<open>mmap_add_entry\<close>, and the theorems give a depth computed
  from the number of entries that is enough.  \<open>Memory_Map_Store\<close> is
  the ownership of the structures, \<open>Memory_Map_Regions\<close> the abstract view (which type an address
  has), \<open>Memory_Map_Add\<close>, \<open>Memory_Map_Overlap\<close>, \<open>Memory_Map_Correct\<close>, \<open>Memory_Map_Rounding\<close>,
  \<open>Memory_Map_Pages\<close>, \<open>Memory_Map_Whole\<close> and \<open>Memory_Map_Sequence\<close> the proofs, and
  \<open>Memory_Map_Properties\<close> the theorems: adding a region overlays types by precedence, allocation and
  release, refilling the supply, and the one legal input on which the code panics.  The theorems on adding and releasing assume
  enough structures to work with and exclude a structure that was freed and still looks like a neighbour (\<open>no_stale_neighbour\<close>),
  with which the code may work on freed memory; the one on allocation assumes a structure in stock and a size below \<open>2 ^ 64\<close>.

  \<^bold>\<open>BIOS platform.\<close>  \<open>Bios_Services\<close> (calls), \<open>Bios_Memory_Map\<close> with \<open>Bios_Memory_Map_Correct\<close>
  (\<^verbatim>\<open>bal/platform/bios/mmap.c\<close>), \<open>Vbe_Mode\<close>, \<open>Vbe\<close> and \<open>Vbe_Correct\<close> (\<^verbatim>\<open>vbe.c\<close>); theorems in
  \<open>Bios_Properties\<close> and \<open>Vbe_Properties\<close>.  The loops over the answers of the firmware may run for
  ever; they have the bounds \<open>limit\<close> and \<open>mode_limit\<close>, and the theorems assume that the bound is not
  below the number of answers.

  \<^bold>\<open>Device tree\<close> (\<^verbatim>\<open>bal/device/dt\<close>, \<^verbatim>\<open>bal/device/bus/simple-bus\<close>).  \<open>Dt_Tree\<close> (nodes, properties, register windows), \<open>Dt_System\<close>
  (start-up), \<open>Dt_Device\<close> (devices and bus); \<open>Dt_Names\<close> moves the laws of ordered trees to names,
  \<open>Dt_Properties_Correct\<close>, \<open>Dt_Nodes_Correct\<close>, \<open>Dt_System_Correct\<close> and \<open>Dt_Regs_Correct\<close> have the
  invariants, and \<open>Dt_Tree_Properties\<close> the theorems, the main one being that the tree shows exactly what the blob encodes.

  \<^bold>\<open>Devices.\<close>  \<open>Gio\<close> (both implementations of the accessors, over a trace of accesses),
  \<open>Uart_PL011\<close>, \<open>Uart_PL011_Correct\<close> and \<open>Uart_NS16550\<close> (serial ports; waiting loops are \<^theory_text>\<open>partial_function\<close>s, so not returning is \<open>None\<close>), with theorems in \<open>Uart_Properties\<close>; \<open>Framebuffer\<close> (the console of \<^verbatim>\<open>fb.c\<close>),
  \<open>Framebuffer_Bytes\<close>, \<open>Framebuffer_Draw\<close>, \<open>Framebuffer_Render\<close>, and \<open>Framebuffer_Terminal\<close>, which
  proves that it implements an abstract terminal, with theorems in \<open>Framebuffer_Properties\<close>.

  \<^bold>\<open>Firmware tables\<close> (\<^verbatim>\<open>bal/platform/bios/tables.c\<close>, \<^verbatim>\<open>include/gd_common.h\<close>).  \<open>Bios_Tables\<close> has the search
  over byte memory and the functions on tables, \<open>Bios_Tables_Correct\<close> and \<open>Bios_Tables_Properties\<close> show
  that of each kind the first valid table in the order of the regions is taken.  \<open>Alignment\<close> has the
  arithmetic of clearing low bits that several components share.

  \<^bold>\<open>Splay trees\<close> (\<^verbatim>\<open>SPLAY_*\<close> of \<^verbatim>\<open>include/gd_tree.h\<close>).  \<open>Splay\<close> has the macros, \<open>Splay_Shape\<close> the state of
  the splaying loop (a tree between two chains) and what its steps do to it, \<open>Splay_Correct\<close> and \<open>Splay_Operations\<close> the
  operations in terms of the elements in order, with the interface \<open>adjusting_tree\<close> for loops over a
  tree that changes at every step, and \<open>Splay_Properties\<close> the theorems.

  \<^bold>\<open>Devices of the firmware\<close> (\<^verbatim>\<open>bal/platform/bios/bios_console.c\<close>, \<^verbatim>\<open>bal/platform/bios/device/cdrom.c\<close>).  \<open>Bios_Devices\<close> has
  the text console and the CD-ROM driver over byte memory and the firmware interface of \<open>Bios_Services\<close>;
  \<open>Bios_Devices_Correct\<close> states what the interrupt functions are documented to do (\<open>prints\<close>, \<open>edd_reads\<close>) and what
  the drivers make of it, and \<open>Bios_Devices_Properties\<close> has the theorems and a firmware with both functions.  The driver hands its packet to the firmware
  correctly only where it lies at a multiple of 16: the theorems on reading assume this (\<open>cd_layout\<close>), and one theorem says what the
  firmware is given elsewhere.  The recursion
  of \<open>cdrom_pread\<close> ends because the request shrinks to one block.

  \<^bold>\<open>ISO 9660 file system\<close> (\<^verbatim>\<open>bal/fs/iso9660/iso9660.c\<close>).  \<open>Iso9660\<close> has the adapter over \<^verbatim>\<open>lib9660\<close>, whose functions
  are the fields of a record, and \<open>Iso9660_Properties\<close> the theorems.  What a file system relies on is the interface
  \<open>block_device\<close> (\<open>Block_Device\<close>): its laws are proved for the CD-ROM driver (interpretation \<open>cd\<close> in \<open>Bios_Devices_Correct\<close>), the reading
  of sectors is proved from the laws alone, and both together say what a sector read through the driver gives.

  \<^bold>\<open>ATF kickstart loader\<close> (\<^verbatim>\<open>bal/platform/atf/kickstart\<close>).  \<open>Kickstart\<close> has the loader over a state of serial port, memory, \<open>mem_mark\<close> and host,
  with the semihosting call, the formatter of the C library and the ELF library as parameters.  \<open>Kickstart_Correct\<close> shows
  that output reaches the port and that the device tree is read as it is (the loop is a partial function,
  which is shown to end for files of up to \<open>2 ^ 32 - 1024\<close> bytes), \<open>Kickstart_Handover\<close> what loading the image
  leaves alone, and \<open>Kickstart_Properties\<close> has the theorems: on a host that follows the documentation the device tree is loaded and reading the image
  fails at every offset but 0; the hand-over, which is proved for every host, is reached on one that answers a seek with the
  offset, and the instance is such a host with a library that reads the image.

  \<^bold>\<open>Start on a PC BIOS\<close> (\<^verbatim>\<open>bal/platform/bios/init.c\<close>).  \<open>Bios_Start\<close> composes console, memory map, tables and video modes in the order of
  \<^verbatim>\<open>__start\<close>; what they bring up together is the theorem at the end of this theory.

  \<^bold>\<open>Not modelled.\<close>  The assembly of stage 1, the exception vectors and the stubs; linker scripts and
  build files; the tables of ioctl and syscall numbers and their dispatchers, which
  \<^verbatim>\<open>tools/\<close> generates; the table of glyphs in \<^verbatim>\<open>font_data.h\<close>, which is data (it is a parameter of the
  console); \<^verbatim>\<open>aarch64.h\<close>, which only names system registers; progress messages; the libraries
  \<^verbatim>\<open>libfdt\<close>, \<^verbatim>\<open>pdclib\<close>, \<^verbatim>\<open>lib9660\<close> and \<^verbatim>\<open>elfload\<close>, which are submodules; the
  ATF entry \<^verbatim>\<open>bal/platform/atf/main.c\<close>, which prints the blob and calls functions that are modelled; and the
  BeagleBone test program.
\<close>

section \<open>The start of the system\<close>

text \<open>C4. The whole start on a PC BIOS.  On a firmware that reports its memory through E820 and its modes through VBE, the start
  ends exactly if the memory map can take the reported ranges (a single range twice), the low page and the loader; the map then is
  the one that adding them in this order gives, untouched by what follows.  The console has the page of the firmware, the tables are
  those that the search finds on the machine as the construction of the map leaves it, and the video mode is looked for after that:
  the firmware is told to set the mode that the answers select, and if it agrees the screen is set up for it, otherwise the frame
  buffer device is as before.  The selected mode must not be one of 8 bits, for which a palette is programmed first.\<close>

theorem bios_start_brings_up:
  assumes "e820_reports c pf cont rs" "length rs \<le> limit c"
    and "vbe_present env pf p ver (map fst xs)" "vbe_reports env pf p ver xs" "length xs < mode_limit env"
      "select_mode ver xs new_mode = Some m" "mode_info.depth m \<noteq> 8"
  shows "case add_list (config.depth c) (sysmap (boot_bios st)) (e820_entries (e820_calls rs) @ [low_mem, gandr_mem]) of
      Inl e \<Rightarrow> bios_start env c pf new_mode st = Inl e
    | Inr M \<Rightarrow> (\<exists>st'. bios_start env c pf new_mode st = Inr st' \<and> started env c pf p ver (map fst xs) new_mode m st M st')"
  using assms by (rule bios_start_runs)

theorem bios_start_brings_up_witness:
  "\<forall>dev. case add_list 9 (mmap_initial 0x9000) (e820_entries two_ranges @ [low_mem, gandr_mem]) of
      Inl e \<Rightarrow> bios_start sample_env sample_config boot_platform zero_mode (boot_start dev) = Inl e
    | Inr M \<Rightarrow> (\<exists>st'. bios_start sample_env sample_config boot_platform zero_mode (boot_start dev) = Inr st' \<and>
        started sample_env sample_config boot_platform 0x8022 0x300 [0x118] zero_mode sample_mode (boot_start dev) M st')"
proof
  fix dev
  let ?xs = "[(0x118, Info (mode_info_of sample_block))]"
  have v: "vbe_present sample_env boot_platform 0x8022 0x300 (map fst ?xs)" "length ?xs < mode_limit sample_env"
    "length two_ranges \<le> limit sample_config" "mode_info.depth sample_mode \<noteq> 8" "e820_calls two_ranges = two_ranges"
    using boot_platform_reports(2) sample_mode_selected(2) by (simp_all add: sample_env_def two_ranges_def sample_config_def e820_calls_def)
  have s: "sysmap (boot_bios (boot_start dev)) = mmap_initial 0x9000" "config.depth sample_config = 9" "map fst ?xs = [0x118]"
    by (simp_all add: boot_start_def start_state_def sample_config_def)
  show "case add_list 9 (mmap_initial 0x9000) (e820_entries two_ranges @ [low_mem, gandr_mem]) of
      Inl e \<Rightarrow> bios_start sample_env sample_config boot_platform zero_mode (boot_start dev) = Inl e
    | Inr M \<Rightarrow> (\<exists>st'. bios_start sample_env sample_config boot_platform zero_mode (boot_start dev) = Inr st' \<and>
        started sample_env sample_config boot_platform 0x8022 0x300 [0x118] zero_mode sample_mode (boot_start dev) M st')"
    using bios_start_brings_up [OF boot_platform_reports(1) v(3,1) boot_platform_reports(3) v(2) sample_mode_selected(1) v(4), of "boot_start dev"]
    unfolding s v(5) by blast
qed
end
